(* ===== verification/Kern_Prelude.thy ===== *)
theory Kern_Prelude
  imports Main "HOL-Library.Word"
begin

text \<open>
  Shared vocabulary of the OS/161 development: the error codes of
  \<^verbatim>\<open>kern/include/kern/errno.h\<close>, C integers with their wrap-around, blocks of memory handed
  out by \<^verbatim>\<open>kmalloc\<close>, the outcome of a kernel routine, and the generic facts about them that
  the components share.

  Conventions used in every theory.

  \<^item> A C \<^verbatim>\<open>int\<close> is an \<^typ>\<open>int\<close> in the range of 32-bit two's complement; where the code
    does arithmetic that can leave the range, \<open>s32\<close> (or \<open>u32\<close>, \<open>u16\<close> for the unsigned types)
    is written around it. Code that works on bits uses \<open>32 word\<close> and \<open>8 word\<close>.
  \<^item> A routine ends in one of four ways: it returns a value (\<open>Ret\<close>), it returns a non-zero
    error code (\<open>Err\<close>), it calls \<^verbatim>\<open>panic\<close> or fails an \<^verbatim>\<open>assert\<close> (\<open>Panic\<close>), or the C
    program has no defined result there (\<open>Undef\<close>: an access outside a block, a null pointer
    that is followed, a loop that never ends). Proving a routine is never \<open>Undef\<close> is memory
    safety; proving it is never \<open>Panic\<close> is that its assertions hold.
  \<^item> The state of the component is returned with the value \<^emph>\<open>and\<close> with the error code, because
    the code does not undo what it did before it failed unless it says so.
\<close>

named_theorems kern_simps \<open>rewrite rules that evaluate kernel routines\<close>
named_theorems kern_defs \<open>definitions of the routines of the component under proof\<close>

section \<open>Error codes\<close>

datatype errno =
    EINVAL | EFAULT | ENAMETOOLONG | ENOMEM | EIO | ENOENT | ENOTDIR | EISDIR | EEXIST | EXDEV
  | EAGAIN | ESPIPE | EUNIMP | ENXIO | ENODEV | EBUSY | EIOCTL | ENOTEMPTY | ERANGE | ENOSPC
  | EMFILE | ENFILE | ENOSYS | ENOEXEC | E2BIG | EBADF

fun errno_code :: "errno \<Rightarrow> int" where
  "errno_code EINVAL = 1"
| "errno_code EFAULT = 2"
| "errno_code ENAMETOOLONG = 3"
| "errno_code ENOMEM = 4"
| "errno_code EIO = 5"
| "errno_code ENOENT = 6"
| "errno_code ENOTDIR = 7"
| "errno_code EISDIR = 8"
| "errno_code EEXIST = 9"
| "errno_code EXDEV = 10"
| "errno_code EAGAIN = 11"
| "errno_code ESPIPE = 12"
| "errno_code EUNIMP = 13"
| "errno_code ENXIO = 14"
| "errno_code ENODEV = 15"
| "errno_code EBUSY = 16"
| "errno_code EIOCTL = 17"
| "errno_code ENOTEMPTY = 18"
| "errno_code ERANGE = 19"
| "errno_code ENOSPC = 20"
| "errno_code EMFILE = 21"
| "errno_code ENFILE = 22"
| "errno_code ENOSYS = 23"
| "errno_code ENOEXEC = 24"
| "errno_code E2BIG = 25"
| "errno_code EBADF = 26"

section \<open>C integers\<close>

definition s32 :: "int \<Rightarrow> int" where
  "s32 x = (x + 2147483648) mod 4294967296 - 2147483648"

definition u32 :: "int \<Rightarrow> int" where
  "u32 x = x mod 4294967296"

definition u16 :: "int \<Rightarrow> int" where
  "u16 x = x mod 65536"

lemma s32_id [simp]: "- 2147483648 \<le> x \<Longrightarrow> x < 2147483648 \<Longrightarrow> s32 x = x"
  by (simp add: s32_def)

lemma s32_range: "- 2147483648 \<le> s32 x \<and> s32 x < 2147483648"
  by (simp add: s32_def)

lemma s32_wraps: "2147483648 \<le> x \<Longrightarrow> x < 4294967296 \<Longrightarrow> s32 x = x - 4294967296"
proof -
  assume "2147483648 \<le> x" "x < 4294967296"
  then have "(x + 2147483648) mod 4294967296 = x + 2147483648 - 4294967296"
    by (subst mod_pos_geq) (auto intro: mod_pos_pos_trivial)
  then show ?thesis by (simp add: s32_def)
qed

lemma u32_id [simp]: "0 \<le> x \<Longrightarrow> x < 4294967296 \<Longrightarrow> u32 x = x"
  by (simp add: u32_def)

lemma u32_range: "0 \<le> u32 x \<and> u32 x < 4294967296"
  by (simp add: u32_def)

lemma u16_id [simp]: "0 \<le> x \<Longrightarrow> x < 65536 \<Longrightarrow> u16 x = x"
  by (simp add: u16_def)

section \<open>Outcome of a kernel routine\<close>

datatype ('a, 's) result = Ret 'a 's | Err errno 's | Panic | Undef

text \<open>Sequencing: an error, a panic or an undefined step ends the routine.\<close>

fun kbind :: "('a, 's) result \<Rightarrow> ('a \<Rightarrow> 's \<Rightarrow> ('b, 's) result) \<Rightarrow> ('b, 's) result" where
  "kbind (Ret a s) f = f a s"
| "kbind (Err e s) f = Err e s"
| "kbind Panic f = Panic"
| "kbind Undef f = Undef"

lemma kbind_assoc: "kbind (kbind m f) g = kbind m (\<lambda>a s. kbind (f a s) g)"
  by (cases m) auto

lemma kbind_eq_Ret: "kbind m f = Ret b t \<longleftrightarrow> (\<exists>a s. m = Ret a s \<and> f a s = Ret b t)"
  by (cases m) auto

lemma kbind_eq_Err:
  "kbind m f = Err e t \<longleftrightarrow> m = Err e t \<or> (\<exists>a s. m = Ret a s \<and> f a s = Err e t)"
  by (cases m) auto

text \<open>
  Total-correctness reading of a routine: it neither panics nor is undefined, \<open>Q\<close> holds of what
  it returns and \<open>E\<close> of what it leaves behind when it fails.
\<close>

fun outcome :: "('a, 's) result \<Rightarrow> ('a \<Rightarrow> 's \<Rightarrow> bool) \<Rightarrow> (errno \<Rightarrow> 's \<Rightarrow> bool) \<Rightarrow> bool" where
  "outcome (Ret a s) Q E = Q a s"
| "outcome (Err e s) Q E = E e s"
| "outcome Panic Q E = False"
| "outcome Undef Q E = False"

lemma outcome_bind:
  "outcome m (\<lambda>a s. outcome (f a s) Q E) E \<Longrightarrow> outcome (kbind m f) Q E"
  by (cases m) auto

lemma outcome_weaken:
  "outcome m Q E \<Longrightarrow> (\<And>a s. Q a s \<Longrightarrow> Q' a s) \<Longrightarrow> (\<And>e s. E e s \<Longrightarrow> E' e s) \<Longrightarrow> outcome m Q' E'"
  by (cases m) auto

lemma outcome_conj:
  "outcome m Q E \<Longrightarrow> outcome m Q' E' \<Longrightarrow> outcome m (\<lambda>a s. Q a s \<and> Q' a s) (\<lambda>e s. E e s \<and> E' e s)"
  by (cases m) auto

lemma outcome_RetD: "outcome m Q E \<Longrightarrow> m = Ret a s \<Longrightarrow> Q a s"
  by simp

lemma outcome_ErrD: "outcome m Q E \<Longrightarrow> m = Err e s \<Longrightarrow> E e s"
  by simp

lemma outcome_cases:
  assumes "outcome m Q E"
  obtains (Ret) a s where "m = Ret a s" "Q a s" | (Err) e s where "m = Err e s" "E e s"
  using assms by (cases m) auto

text \<open>
  Partial reading of a routine: \<open>Q\<close> holds of what it returns, if it returns. The equations below
  push it through the sequencing of a routine, so that a proof only meets its elementary steps.
\<close>

fun returns :: "('a, 's) result \<Rightarrow> ('a \<Rightarrow> 's \<Rightarrow> bool) \<Rightarrow> bool" where
  "returns (Ret a s) Q = Q a s"
| "returns (Err e s) Q = True"
| "returns Panic Q = True"
| "returns Undef Q = True"

lemma returns_kbind [simp]: "returns (kbind m f) Q = returns m (\<lambda>a s. returns (f a s) Q)"
  by (cases m) auto

lemma returns_mono: "returns m Q \<Longrightarrow> (\<And>a s. Q a s \<Longrightarrow> Q' a s) \<Longrightarrow> returns m Q'"
  by (cases m) auto

lemma returns_conj: "returns m Q \<Longrightarrow> returns m Q' \<Longrightarrow> returns m (\<lambda>a s. Q a s \<and> Q' a s)"
  by (cases m) auto

lemma returnsD: "returns m Q \<Longrightarrow> m = Ret a s \<Longrightarrow> Q a s"
  by simp

lemma returnsI: "(\<And>a s. m = Ret a s \<Longrightarrow> Q a s) \<Longrightarrow> returns m Q"
  by (cases m) auto

lemma outcome_returns: "outcome m Q E \<Longrightarrow> returns m Q"
  by (cases m) auto

lemma returns_bind: "returns m Q \<Longrightarrow> (\<And>a s. Q a s \<Longrightarrow> returns (f a s) R) \<Longrightarrow> returns (kbind m f) R"
  by (cases m) simp_all

section \<open>Access through pointers\<close>

text \<open>Following a pointer into a typed store, or one of the pointers that shutdown sets to null.\<close>

definition deref :: "'a option \<Rightarrow> ('a \<Rightarrow> ('b, 's) result) \<Rightarrow> ('b, 's) result" where
  "deref p f = (case p of None \<Rightarrow> Undef | Some x \<Rightarrow> f x)"

lemma deref_simps [simp]: "deref (Some x) f = f x" "deref None f = Undef"
  by (simp_all add: deref_def)

text \<open>Run a routine of a part of the state and put the part back.\<close>

fun in_part :: "('t \<Rightarrow> 's) \<Rightarrow> ('a, 't) result \<Rightarrow> ('a, 's) result" where
  "in_part put (Ret a t) = Ret a (put t)"
| "in_part put (Err e t) = Err e (put t)"
| "in_part put Panic = Panic"
| "in_part put Undef = Undef"

text \<open>\<^verbatim>\<open>result = f(); assert(result==0)\<close>\<close>

fun must_succeed :: "('a, 's) result \<Rightarrow> ('a, 's) result" where
  "must_succeed (Ret a s) = Ret a s"
| "must_succeed (Err e s) = Panic"
| "must_succeed Panic = Panic"
| "must_succeed Undef = Undef"

lemma must_succeed_eq_Ret [simp]: "must_succeed m = Ret a s \<longleftrightarrow> m = Ret a s"
  by (cases m) auto

lemma must_succeed_not_Err [simp]: "must_succeed m \<noteq> Err e s"
  by (cases m) auto

lemma in_part_eq_Ret: "in_part put m = Ret a s \<longleftrightarrow> (\<exists>t. m = Ret a t \<and> s = put t)"
  by (cases m) auto

lemma returns_deref [simp]: "returns (deref p f) Q = (\<forall>x. p = Some x \<longrightarrow> returns (f x) Q)"
  by (cases p) auto

lemma returns_in_part [simp]: "returns (in_part put m) Q = returns m (\<lambda>a t. Q a (put t))"
  by (cases m) auto

lemma returns_must_succeed [simp]: "returns (must_succeed m) Q = returns m Q"
  by (cases m) auto

section \<open>Blocks of memory\<close>

text \<open>
  A pointer to a block of words is \<open>None\<close> (null) or the words of the block. Reading or writing
  through a null pointer or outside the block has no defined result.
\<close>

type_synonym 'p block = "'p list option"

definition block_read :: "'p block \<Rightarrow> int \<Rightarrow> 'p option" where
  "block_read v i =
     (case v of
        None \<Rightarrow> None
      | Some xs \<Rightarrow> if 0 \<le> i \<and> i < int (length xs) then Some (xs ! nat i) else None)"

definition block_write :: "'p block \<Rightarrow> int \<Rightarrow> 'p \<Rightarrow> 'p list option" where
  "block_write v i p =
     (case v of
        None \<Rightarrow> None
      | Some xs \<Rightarrow> if 0 \<le> i \<and> i < int (length xs) then Some (xs[nat i := p]) else None)"

lemma block_read_Some [simp]:
  "0 \<le> i \<Longrightarrow> i < int (length xs) \<Longrightarrow> block_read (Some xs) i = Some (xs ! nat i)"
  by (simp add: block_read_def)

lemma block_write_Some [simp]:
  "0 \<le> i \<Longrightarrow> i < int (length xs) \<Longrightarrow> block_write (Some xs) i p = Some (xs[nat i := p])"
  by (simp add: block_write_def)

text \<open>
  The allocator as its clients see it: a request in bytes is refused or answered by a block of
  pointer-sized (4-byte) words with arbitrary contents. What the clients rely on is that a
  granted block is at least as large as the request.
\<close>

type_synonym 'p allocator = "int \<Rightarrow> 'p block"

definition allocator_ok :: "'p allocator \<Rightarrow> bool" where
  "allocator_ok kmalloc \<longleftrightarrow> (\<forall>n b. kmalloc n = Some b \<longrightarrow> n \<le> 4 * int (length b))"

text \<open>An allocator that always grants, with every word set to \<open>p\<close>, and one that never does.\<close>

definition grants :: "'p \<Rightarrow> 'p allocator" where
  "grants p n = Some (replicate (nat ((n + 3) div 4)) p)"

definition refuses :: "'p allocator" where
  "refuses n = None"

lemma allocator_ok_grants [simp]: "allocator_ok (grants p)"
  by (auto simp: allocator_ok_def grants_def)

lemma allocator_ok_refuses [simp]: "allocator_ok refuses"
  by (simp add: allocator_ok_def refuses_def)

lemma allocator_okD: "allocator_ok kmalloc \<Longrightarrow> kmalloc n = Some b \<Longrightarrow> n \<le> 4 * int (length b)"
  by (simp add: allocator_ok_def)

section \<open>Lists\<close>

lemma take_list_update_eq_snoc:
  "n < length xs \<Longrightarrow> take (Suc n) (xs[n := x]) = take n xs @ [x]"
  by (simp add: take_Suc_conv_app_nth)

lemma take_close_gap:
  assumes "k < n" "n \<le> length xs"
  shows "take (n - 1) (take k xs @ take (n - (k + 1)) (drop (k + 1) xs) @ zs) =
    take k (take n xs) @ drop (Suc k) (take n xs)"
proof -
  have len: "length (take k xs @ take (n - (k + 1)) (drop (k + 1) xs)) = n - 1"
    using assms by simp
  have "take (n - 1) ((take k xs @ take (n - (k + 1)) (drop (k + 1) xs)) @ zs) =
      take k xs @ take (n - (k + 1)) (drop (k + 1) xs)"
    using len by (metis append_eq_conv_conj)
  then show ?thesis using assms by (simp add: drop_take min_def)
qed

text \<open>The first position of a list whose element passes a test.\<close>

primrec first_index :: "('a \<Rightarrow> bool) \<Rightarrow> 'a list \<Rightarrow> nat option" where
  "first_index P [] = None"
| "first_index P (x # xs) = (if P x then Some 0 else map_option Suc (first_index P xs))"

lemma first_index_eq_Some:
  "first_index P xs = Some i \<longleftrightarrow> i < length xs \<and> P (xs ! i) \<and> (\<forall>j < i. \<not> P (xs ! j))"
proof (induction xs arbitrary: i)
  case Nil
  show ?case by simp
next
  case (Cons x xs)
  show ?case
    by (cases i) (auto simp: Cons.IH nth_Cons split: nat.splits)
qed

lemma first_index_eq_None: "first_index P xs = None \<longleftrightarrow> (\<forall>x \<in> set xs. \<not> P x)"
  by (induction xs) auto

text \<open>How many elements satisfy a predicate after one of them has changed.\<close>

lemma filter_update_same:
  "i < length xs \<Longrightarrow> P y = P (xs ! i) \<Longrightarrow> length (filter P (xs[i := y])) = length (filter P xs)"
  by (induction xs arbitrary: i) (auto split: nat.splits)

lemma filter_update_more:
  "i < length xs \<Longrightarrow> \<not> P (xs ! i) \<Longrightarrow> P y \<Longrightarrow> length (filter P (xs[i := y])) = Suc (length (filter P xs))"
  by (induction xs arbitrary: i) (auto split: nat.splits)

end
