(* ===== verification/KArray.thy ===== *)
theory KArray
  imports Kern_Prelude
begin

text \<open>
  Resizeable arrays of pointers, \<^verbatim>\<open>kern/lib/array.c\<close>. The structure is a record of the three
  C fields; each routine is one definition, with its assertions, its early returns and the
  order of its updates. The contract of \<^verbatim>\<open>kern/include/array.h\<close> is the locale
  \<open>ptr_array\<close>, interpreted on these definitions at the end: the array behaves as the list of
  its first \<open>num\<close> words.
\<close>

section \<open>Model\<close>

record 'p karray =
  a_num :: int
  a_max :: int
  a_v :: "'p block"

definition array_create :: "bool \<Rightarrow> 'p karray option" where
  "array_create struct_granted =
     (if struct_granted then Some \<lparr>a_num = 0, a_max = 0, a_v = None\<rparr> else None)"

definition array_getnum :: "'p karray \<Rightarrow> int" where
  "array_getnum a = a_num a"

definition array_getguy :: "'p karray \<Rightarrow> int \<Rightarrow> ('p, 'p karray) result" where
  "array_getguy a index =
     (if \<not> a_num a \<le> a_max a then Panic
      else if \<not> (0 \<le> index \<and> index < a_num a) then Panic
      else case block_read (a_v a) index of None \<Rightarrow> Undef | Some p \<Rightarrow> Ret p a)"

text \<open>
  The growth loop \<^verbatim>\<open>while (nguys > newmax) newmax = (newmax+1)*2\<close>. With wrap-around it need
  not end, so its result is an option.
\<close>

partial_function (option) array_newmax :: "int \<Rightarrow> int \<Rightarrow> int option" where
  "array_newmax nguys newmax =
     (if nguys > newmax then array_newmax nguys (s32 ((newmax + 1) * 2)) else Some newmax)"

text \<open>The copy loop \<^verbatim>\<open>for (i=0; i<a->num; i++) newv[i] = a->v[i]\<close>, run for \<open>i = 0 .. n-1\<close>.\<close>

fun array_copy :: "nat \<Rightarrow> 'p block \<Rightarrow> 'p list \<Rightarrow> 'p list option" where
  "array_copy 0 old new = Some new"
| "array_copy (Suc i) old new =
     (case array_copy i old new of
        None \<Rightarrow> None
      | Some new' \<Rightarrow>
          (case block_read old (int i) of
             None \<Rightarrow> None
           | Some p \<Rightarrow> block_write (Some new') (int i) p))"

definition array_preallocate ::
  "'p allocator \<Rightarrow> 'p karray \<Rightarrow> int \<Rightarrow> (unit, 'p karray) result" where
  "array_preallocate kmalloc a nguys =
     (if \<not> (0 \<le> a_num a \<and> a_num a \<le> a_max a) then Panic
      else case array_newmax nguys (a_max a) of
        None \<Rightarrow> Undef
      | Some newmax \<Rightarrow>
          (case kmalloc (u32 (newmax * 4)) of
             None \<Rightarrow> Err ENOMEM a
           | Some newv \<Rightarrow>
               (case array_copy (nat (a_num a)) (a_v a) newv of
                  None \<Rightarrow> Undef
                | Some newv' \<Rightarrow> Ret () (a\<lparr>a_max := newmax, a_v := Some newv'\<rparr>))))"

definition array_setsize ::
  "'p allocator \<Rightarrow> 'p karray \<Rightarrow> int \<Rightarrow> (unit, 'p karray) result" where
  "array_setsize kmalloc a nguys =
     (if \<not> (0 \<le> a_num a \<and> a_num a \<le> a_max a) then Panic
      else if nguys > a_max a then
        kbind (array_preallocate kmalloc a nguys) (\<lambda>_ a'. Ret () (a'\<lparr>a_num := nguys\<rparr>))
      else if nguys = 0 \<and> a_max a > 16 then
        (if a_v a = None then Panic
         else Ret () (a\<lparr>a_v := None, a_max := 0, a_num := nguys\<rparr>))
      else Ret () (a\<lparr>a_num := nguys\<rparr>))"

definition array_setguy :: "'p karray \<Rightarrow> int \<Rightarrow> 'p \<Rightarrow> (unit, 'p karray) result" where
  "array_setguy a index p =
     (if \<not> a_num a \<le> a_max a then Panic
      else if \<not> (0 \<le> index \<and> index < a_num a) then Panic
      else case block_write (a_v a) index p of
        None \<Rightarrow> Undef
      | Some v' \<Rightarrow> Ret () (a\<lparr>a_v := Some v'\<rparr>))"

definition array_add :: "'p allocator \<Rightarrow> 'p karray \<Rightarrow> 'p \<Rightarrow> (unit, 'p karray) result" where
  "array_add kmalloc a guy =
     (let ix = a_num a
      in kbind (array_setsize kmalloc a (s32 (ix + 1)))
           (\<lambda>_ a'. case block_write (a_v a') ix guy of
                     None \<Rightarrow> Undef
                   | Some v' \<Rightarrow> Ret () (a'\<lparr>a_v := Some v'\<rparr>)))"

text \<open>
  \<^verbatim>\<open>memmove(v+index, v+index+1, nmove*4)\<close> within one block: overlapping, so the result is the
  source region as it was before the call.
\<close>

definition block_move_down :: "'p block \<Rightarrow> int \<Rightarrow> int \<Rightarrow> 'p list option" where
  "block_move_down v index nmove =
     (case v of
        None \<Rightarrow> None
      | Some xs \<Rightarrow>
          if 0 \<le> index \<and> 0 \<le> nmove \<and> index + 1 + nmove \<le> int (length xs)
          then Some (take (nat index) xs @ take (nat nmove) (drop (nat index + 1) xs)
                       @ drop (nat index + nat nmove) xs)
          else None)"

definition array_remove :: "'p karray \<Rightarrow> int \<Rightarrow> (unit, 'p karray) result" where
  "array_remove a index =
     (if \<not> a_num a \<le> a_max a then Panic
      else if \<not> (0 \<le> index \<and> index < a_num a) then Panic
      else case block_move_down (a_v a) index (a_num a - (index + 1)) of
        None \<Rightarrow> Undef
      | Some v' \<Rightarrow> Ret () (a\<lparr>a_v := Some v', a_num := a_num a - 1\<rparr>))"

definition array_destroy :: "'p karray \<Rightarrow> (unit, unit) result" where
  "array_destroy a = Ret () ()"

section \<open>Invariant and abstraction\<close>

text \<open>
  The invariant between calls. The bound on \<open>a_max\<close> keeps the growth loop and the byte count
  \<^verbatim>\<open>newmax * sizeof(void *)\<close> inside 32 bits; it follows from every size ever asked for being at
  most \<open>array_limit\<close>.
\<close>

definition array_limit :: int where
  "array_limit = 268435456"

definition array_inv :: "'p karray \<Rightarrow> bool" where
  "array_inv a \<longleftrightarrow>
     0 \<le> a_num a \<and> a_num a \<le> a_max a \<and> a_max a \<le> 2 * array_limit \<and>
     (case a_v a of None \<Rightarrow> a_max a = 0 | Some xs \<Rightarrow> a_max a \<le> int (length xs))"

definition array_list :: "'p karray \<Rightarrow> 'p list" where
  "array_list a = (case a_v a of None \<Rightarrow> [] | Some xs \<Rightarrow> take (nat (a_num a)) xs)"

lemma array_inv_create: "array_create True = Some a \<Longrightarrow> array_inv a \<and> array_list a = []"
  by (auto simp: array_create_def array_inv_def array_list_def array_limit_def)

lemma length_array_list: "array_inv a \<Longrightarrow> int (length (array_list a)) = a_num a"
  by (auto simp: array_inv_def array_list_def split: option.splits)

lemma array_getguy_Ret:
  "array_inv a \<Longrightarrow> 0 \<le> i \<Longrightarrow> i < a_num a \<Longrightarrow> array_getguy a i = Ret (array_list a ! nat i) a"
  by (auto simp: array_inv_def array_list_def array_getguy_def split: option.splits)

lemma array_getguy_Panic:
  "array_inv a \<Longrightarrow> \<not> (0 \<le> i \<and> i < a_num a) \<Longrightarrow> array_getguy a i = Panic"
  by (auto simp: array_getguy_def)

subsection \<open>Growth\<close>

lemma array_newmax_stop: "nguys \<le> m \<Longrightarrow> array_newmax nguys m = Some m"
  by (subst array_newmax.simps) simp

lemma array_newmax_returns:
  "0 \<le> m \<Longrightarrow> m \<le> 2 * array_limit \<Longrightarrow> nguys \<le> array_limit \<Longrightarrow>
     \<exists>r. array_newmax nguys m = Some r \<and> m \<le> r \<and> nguys \<le> r \<and> r \<le> 2 * array_limit"
proof (induction "nat (nguys - m)" arbitrary: m rule: less_induct)
  case less
  show ?case
  proof (cases "nguys > m")
    case False
    with less.prems show ?thesis by (auto simp: array_newmax_stop)
  next
    case True
    with less.prems have "s32 ((m + 1) * 2) = 2 * m + 2"
      by (subst s32_id) (auto simp: array_limit_def)
    with True have step: "array_newmax nguys m = array_newmax nguys (2 * m + 2)"
      by (subst array_newmax.simps) (simp only: if_True)
    have "\<exists>r. array_newmax nguys (2 * m + 2) = Some r \<and> 2 * m + 2 \<le> r \<and> nguys \<le> r
        \<and> r \<le> 2 * array_limit"
      using less.prems True by (intro less.hyps) auto
    with less.prems show ?thesis by (auto simp: step)
  qed
qed

lemma array_copy_Some:
  "n \<le> length xs \<Longrightarrow> n \<le> length new \<Longrightarrow> array_copy n (Some xs) new = Some (take n xs @ drop n new)"
proof (induction n)
  case 0
  then show ?case by simp
next
  case (Suc n)
  then have "array_copy n (Some xs) new = Some (take n xs @ drop n new)" by simp
  moreover from Suc.prems have "drop n new = new ! n # drop (Suc n) new"
    by (simp add: Cons_nth_drop_Suc)
  ultimately show ?case using Suc.prems
    by (simp add: take_Suc_conv_app_nth list_update_append)
qed


lemma array_preallocate_outcome:
  assumes inv: "array_inv a" and km: "allocator_ok kmalloc" and n: "n \<le> array_limit"
  shows "outcome (array_preallocate kmalloc a n)
    (\<lambda>_ a'. array_inv a' \<and> array_list a' = array_list a \<and> a_num a' = a_num a \<and> n \<le> a_max a')
    (\<lambda>e a'. e = ENOMEM \<and> a' = a)"
proof -
  obtain r where r: "array_newmax n (a_max a) = Some r" "a_max a \<le> r" "n \<le> r"
      "r \<le> 2 * array_limit"
    using array_newmax_returns [of "a_max a" n] inv n by (auto simp: array_inv_def)
  from inv have num: "0 \<le> a_num a" "a_num a \<le> a_max a" by (auto simp: array_inv_def)
  show ?thesis
  proof (cases "kmalloc (u32 (r * 4))")
    case None
    with r num show ?thesis by (simp add: array_preallocate_def)
  next
    case (Some newv)
    have "u32 (r * 4) = r * 4"
      using r num by (subst u32_id) (auto simp: array_limit_def)
    with allocator_okD [OF km Some] have len: "r \<le> int (length newv)" by simp
    show ?thesis
    proof (cases "a_v a")
      case None
      with inv num have "a_num a = 0" by (auto simp: array_inv_def)
      with None r num Some len show ?thesis
        by (auto simp: array_preallocate_def array_inv_def array_list_def)
    next
      case (Some xs)
      let ?n = "nat (a_num a)"
      from Some inv have "?n \<le> length xs" by (auto simp: array_inv_def)
      moreover from num r len have "?n \<le> length newv" by linarith
      ultimately have "array_copy ?n (Some xs) newv = Some (take ?n xs @ drop ?n newv)"
        by (rule array_copy_Some)
      with Some \<open>kmalloc (u32 (r * 4)) = Some newv\<close> \<open>?n \<le> length xs\<close> \<open>?n \<le> length newv\<close> r num len
      show ?thesis
        by (auto simp: array_preallocate_def array_inv_def array_list_def)
    qed
  qed
qed

lemma take_array_list_setnum:
  "k \<le> nat (a_num a) \<Longrightarrow> k \<le> nat n \<Longrightarrow> take k (array_list (a\<lparr>a_num := n\<rparr>)) = take k (array_list a)"
  by (auto simp: array_list_def min_def split: option.splits)

lemma array_setsize_outcome:
  assumes inv: "array_inv a" and km: "allocator_ok kmalloc" and n: "0 \<le> n" "n \<le> array_limit"
  shows "outcome (array_setsize kmalloc a n)
    (\<lambda>_ a'. array_inv a' \<and> a_num a' = n \<and>
       (\<forall>k. k \<le> nat (a_num a) \<longrightarrow> k \<le> nat n \<longrightarrow> take k (array_list a') = take k (array_list a)))
    (\<lambda>e a'. e = ENOMEM \<and> a' = a \<and> a_max a < n)"
proof (cases "a_max a < n")
  case True
  have "outcome (array_preallocate kmalloc a n)
      (\<lambda>_ a'. array_inv a' \<and> array_list a' = array_list a \<and> a_num a' = a_num a \<and> n \<le> a_max a')
      (\<lambda>e a'. e = ENOMEM \<and> a' = a)"
    by (rule array_preallocate_outcome [OF inv km n(2)])
  then show ?thesis
  proof (cases rule: outcome_cases)
    case (Ret u a')
    then have "array_inv (a'\<lparr>a_num := n\<rparr>)"
      using n by (auto simp: array_inv_def split: option.splits)
    with Ret True inv show ?thesis
      by (auto simp: array_setsize_def array_inv_def take_array_list_setnum)
  next
    case (Err e a')
    with True inv show ?thesis by (auto simp: array_setsize_def array_inv_def)
  qed
next
  case False
  with inv n show ?thesis
    by (auto simp: array_setsize_def array_inv_def take_array_list_setnum split: option.splits)
qed

lemma array_add_outcome:
  assumes inv: "array_inv a" and km: "allocator_ok kmalloc" and n: "a_num a < array_limit"
  shows "outcome (array_add kmalloc a p)
    (\<lambda>_ a'. array_inv a' \<and> array_list a' = array_list a @ [p])
    (\<lambda>e a'. e = ENOMEM \<and> a' = a \<and> a_num a = a_max a)"
proof -
  from inv have num: "0 \<le> a_num a" "a_num a \<le> a_max a" by (auto simp: array_inv_def)
  from num n have wrap: "s32 (a_num a + 1) = a_num a + 1"
    by (subst s32_id) (auto simp: array_limit_def)
  have "outcome (array_setsize kmalloc a (a_num a + 1))
     (\<lambda>_ a'. array_inv a' \<and> a_num a' = a_num a + 1 \<and>
        (\<forall>k. k \<le> nat (a_num a) \<longrightarrow> k \<le> nat (a_num a + 1) \<longrightarrow>
             take k (array_list a') = take k (array_list a)))
     (\<lambda>e a'. e = ENOMEM \<and> a' = a \<and> a_max a < a_num a + 1)"
    using num n by (intro array_setsize_outcome inv km) auto
  then show ?thesis
  proof (cases rule: outcome_cases)
    case (Ret u a')
    let ?n = "nat (a_num a)"
    from Ret num obtain xs where xs: "a_v a' = Some xs" "a_num a + 1 \<le> int (length xs)"
      by (auto simp: array_inv_def split: option.splits)
    from Ret num have "take ?n (array_list a') = array_list a"
      using length_array_list [OF inv] by (auto simp: nat_add_distrib)
    with xs Ret num have pre: "take ?n xs = array_list a"
      by (simp add: array_list_def min_def nat_add_distrib)
    from xs num have "?n < length xs" by linarith
    then have "take (Suc ?n) (xs[?n := p]) = array_list a @ [p]"
      by (simp only: take_list_update_eq_snoc pre)
    with Ret xs num wrap show ?thesis
      by (auto simp: array_add_def array_inv_def array_list_def nat_add_distrib Let_def)
  next
    case (Err e a')
    with num wrap show ?thesis by (auto simp: array_add_def Let_def)
  qed
qed

lemma array_setguy_Ret:
  assumes inv: "array_inv a" and i: "0 \<le> i" "i < a_num a"
  shows "\<exists>a'. array_setguy a i p = Ret () a' \<and> array_inv a' \<and>
     array_list a' = (array_list a)[nat i := p]"
proof -
  from inv i obtain xs where xs: "a_v a = Some xs" "a_max a \<le> int (length xs)"
    by (auto simp: array_inv_def split: option.splits)
  with inv i show ?thesis
    by (auto simp: array_setguy_def array_inv_def array_list_def take_update_swap)
qed

lemma array_remove_Ret:
  assumes inv: "array_inv a" and i: "0 \<le> i" "i < a_num a"
  shows "\<exists>a'. array_remove a i = Ret () a' \<and> array_inv a' \<and>
     array_list a' = take (nat i) (array_list a) @ drop (Suc (nat i)) (array_list a)"
proof -
  from inv i obtain xs where xs: "a_v a = Some xs" "a_max a \<le> int (length xs)" "a_num a \<le> a_max a"
    by (auto simp: array_inv_def split: option.splits)
  define k n where kn: "k = nat i" "n = nat (a_num a)"
  from kn i have k: "i = int k" "k < n" "a_num a = int n" by auto
  with xs have "n \<le> length xs" by linarith
  note take_close_gap [OF \<open>k < n\<close> this, of "drop (n - 1) xs"]
  moreover have "nat (a_num a - (i + 1)) = n - (k + 1)" "nat (a_num a - 1) = n - 1" "k + (n - (k + 1)) = n - 1"
    using k by linarith+
  ultimately show ?thesis
    using inv i xs k \<open>n \<le> length xs\<close>
    by (auto simp: array_remove_def block_move_down_def array_inv_def array_list_def)
qed

lemma array_add_room:
  assumes inv: "array_inv a" and n: "a_num a < array_limit" and room: "a_num a < a_max a"
  shows "\<exists>a'. array_add kmalloc a p = Ret () a' \<and> array_inv a' \<and> array_list a' = array_list a @ [p]
     \<and> a_max a' = a_max a"
proof -
  from inv room obtain xs where xs: "a_v a = Some xs" "a_max a \<le> int (length xs)" "0 \<le> a_num a"
    by (auto simp: array_inv_def split: option.splits)
  have "s32 (a_num a + 1) = a_num a + 1"
    using n xs by (subst s32_id) (auto simp: array_limit_def)
  moreover have "take (Suc (nat (a_num a))) (xs[nat (a_num a) := p]) = array_list a @ [p]"
    using xs room by (subst take_list_update_eq_snoc) (auto simp: array_list_def)
  ultimately show ?thesis using inv room xs
    by (auto simp: array_add_def array_setsize_def array_inv_def array_list_def Let_def nat_add_distrib)
qed

section \<open>The contract of array.h\<close>

text \<open>
  The loop that the clients of the array write again and again: visit the elements from \<open>i\<close> on,
  and take out those that pass a test, looking at the same index again after a removal.
  \<^verbatim>\<open>thread_wakeup\<close> is an instance, where the test reads the thread the element points to and the
  action puts it on the run queue. The state \<open>'s\<close> is whatever the array is a part of. The fuel is
  the number of elements at the start, which the lemma \<open>sweep_all\<close> shows to be enough.
\<close>

fun sweep ::
  "nat \<Rightarrow> ('s \<Rightarrow> int) \<Rightarrow> ('s \<Rightarrow> int \<Rightarrow> ('p, 's) result) \<Rightarrow> ('s \<Rightarrow> int \<Rightarrow> (unit, 's) result) \<Rightarrow>
   ('p \<Rightarrow> 's \<Rightarrow> (bool, 's) result) \<Rightarrow> ('p \<Rightarrow> 's \<Rightarrow> (unit, 's) result) \<Rightarrow> int \<Rightarrow> 's \<Rightarrow> (unit, 's) result" where
  "sweep fuel getnum getguy remove test act i s =
     (if \<not> i < getnum s then Ret () s
      else case fuel of
        0 \<Rightarrow> Undef
      | Suc f \<Rightarrow>
          kbind (getguy s i) (\<lambda>p s1. kbind (test p s1) (\<lambda>hit s2.
            if hit
            then kbind (remove s2 i) (\<lambda>_ s3. kbind (act p s3) (\<lambda>_ s4.
                   sweep f getnum getguy remove test act i s4))
            else sweep f getnum getguy remove test act (i + 1) s2)))"

declare sweep.simps [simp del]

text \<open>
  The contract: an array is a list that can be read by index and have an element taken out. A
  \<open>frame\<close> is the part of the surrounding state that removing does not touch.
\<close>

locale ptr_array =
  fixes inv :: "'s \<Rightarrow> bool"
    and list :: "'s \<Rightarrow> 'p list"
    and frame :: "'s \<Rightarrow> 'f"
    and getnum :: "'s \<Rightarrow> int"
    and getguy :: "'s \<Rightarrow> int \<Rightarrow> ('p, 's) result"
    and remove :: "'s \<Rightarrow> int \<Rightarrow> (unit, 's) result"
  assumes getnum: "inv s \<Longrightarrow> getnum s = int (length (list s))"
    and getguy: "inv s \<Longrightarrow> i < length (list s) \<Longrightarrow> getguy s (int i) = Ret (list s ! i) s"
    and remove: "inv s \<Longrightarrow> i < length (list s) \<Longrightarrow>
      \<exists>s'. remove s (int i) = Ret () s' \<and> inv s' \<and> frame s' = frame s \<and>
           list s' = take i (list s) @ drop (Suc i) (list s)"
begin

lemma getguy_error_free: "inv s \<Longrightarrow> i < length (list s) \<Longrightarrow> outcome (getguy s (int i)) Q E = Q (list s ! i) s"
  by (simp add: getguy)

text \<open>
  A sweep takes out exactly the elements that pass the test, in order, and hands each to the
  action; \<open>taken\<close> is the record the action keeps of them. The action may panic only when its
  \<open>room\<close> is used up, and \<open>cap\<close> bounds how often it may be called at all.
\<close>

lemma sweep_all:
  assumes test: "\<And>p s. inv s \<Longrightarrow> good (frame s) p \<Longrightarrow> test p s = Ret (hit (frame s) p) s"
    and act: "\<And>p s. inv s \<Longrightarrow> length (list s) < cap s \<Longrightarrow>
        act p s = Panic \<and> room s = 0 \<or>
        (\<exists>s'. act p s = Ret () s' \<and> inv s' \<and> list s' = list s \<and> taken s' = taken s @ [p] \<and>
             frame s' = frame s \<and> cap s \<le> Suc (cap s') \<and> room s \<le> Suc (room s'))"
    and rem: "\<And>s s' i. inv s \<Longrightarrow> i < length (list s) \<Longrightarrow> remove s (int i) = Ret () s' \<Longrightarrow>
        taken s' = taken s \<and> cap s' = cap s \<and> room s' = room s"
  shows "inv s \<Longrightarrow> length (list s) \<le> cap s \<Longrightarrow> i \<le> length (list s) \<Longrightarrow>
      length (list s) - i \<le> fuel \<Longrightarrow> (\<forall>p \<in> set (list s). good (frame s) p) \<Longrightarrow>
    sweep fuel getnum getguy remove test act (int i) s = Panic \<and>
      room s < length (filter (hit (frame s)) (drop i (list s))) \<or>
    (\<exists>s'. sweep fuel getnum getguy remove test act (int i) s = Ret () s' \<and> inv s' \<and>
      list s' = take i (list s) @ filter (\<lambda>p. \<not> hit (frame s) p) (drop i (list s)) \<and>
      taken s' = taken s @ filter (hit (frame s)) (drop i (list s)) \<and>
      frame s' = frame s)"
proof (induction fuel arbitrary: s i)
  case 0
  then show ?case by (simp add: sweep.simps getnum)
next
  case (Suc fuel)
  show ?case
  proof (cases "i < length (list s)")
    case False
    with Suc.prems show ?thesis by (simp add: sweep.simps getnum)
  next
    case True
    let ?p = "list s ! i"
    from Suc.prems True have t: "test ?p s = Ret (hit (frame s) ?p) s" by (intro test) auto
    have split: "drop i (list s) = ?p # drop (Suc i) (list s)"
      using True by (simp add: Cons_nth_drop_Suc)
    show ?thesis
    proof (cases "hit (frame s) ?p")
      case False
      with True t Suc.prems
      have "sweep (Suc fuel) getnum getguy remove test act (int i) s =
          sweep fuel getnum getguy remove test act (int (Suc i)) s"
        by (subst sweep.simps) (simp add: getnum getguy add.commute)
      with Suc.IH [of s "Suc i"] Suc.prems True False show ?thesis
        by (auto simp: split take_Suc_conv_app_nth)
    next
      case hit: True
      from remove [OF Suc.prems(1) True] obtain s3 where s3: "remove s (int i) = Ret () s3" "inv s3"
        "frame s3 = frame s" "list s3 = take i (list s) @ drop (Suc i) (list s)" by blast
      note keep = rem [OF Suc.prems(1) True s3(1)]
      have len3: "length (list s3) = length (list s) - 1" using s3 True by simp
      with Suc.prems keep True have cap3: "length (list s3) < cap s3" by linarith
      have step: "sweep (Suc fuel) getnum getguy remove test act (int i) s =
          kbind (act ?p s3) (\<lambda>_. sweep fuel getnum getguy remove test act (int i))"
        using True t hit s3 Suc.prems by (subst sweep.simps) (simp add: getnum getguy)
      from act [OF s3(2) cap3, of ?p] show ?thesis
      proof (elim disjE exE conjE)
        assume "act ?p s3 = Panic" "room s3 = 0"
        with step keep hit show ?thesis by (simp add: split)
      next
        fix s4 assume s4: "act ?p s3 = Ret () s4" "inv s4" "list s4 = list s3"
          "taken s4 = taken s3 @ [?p]" "frame s4 = frame s3" "cap s3 \<le> Suc (cap s4)" "room s3 \<le> Suc (room s4)"
        have good: "\<forall>p \<in> set (list s4). good (frame s4) p"
          using Suc.prems s3 s4 by (auto dest: in_set_takeD in_set_dropD)
        have bounds: "length (list s4) \<le> cap s4" "i \<le> length (list s4)" "length (list s4) - i \<le> fuel"
          using s4(3,6) cap3 len3 True Suc.prems(4) by simp_all
        have parts: "drop i (list s4) = drop (Suc i) (list s)" "take i (list s4) = take i (list s)"
          using s3 s4 True by simp_all
        note ih = Suc.IH [OF s4(2) bounds good, unfolded parts]
        from ih show ?thesis
        proof (elim disjE)
          assume "sweep fuel getnum getguy remove test act (int i) s4 = Panic \<and>
            room s4 < length (filter (hit (frame s4)) (drop (Suc i) (list s)))"
          with s4 s3 keep hit step show ?thesis by (simp add: split)
        qed (use s4 s3 keep hit step in \<open>simp add: split\<close>)
      qed
    qed
  qed
qed

end

text \<open>The array by itself, as an instance: removing touches nothing else.\<close>

interpretation parray: ptr_array array_inv array_list "\<lambda>_. ()" array_getnum array_getguy array_remove
proof
  fix a :: "'a karray" and i
  assume inv: "array_inv a"
  show "array_getnum a = int (length (array_list a))"
    by (simp add: array_getnum_def length_array_list [OF inv])
  assume "i < length (array_list a)"
  then have i: "int i < a_num a" using length_array_list [OF inv] by linarith
  show "array_getguy a (int i) = Ret (array_list a ! i) a"
    using array_getguy_Ret [OF inv, of "int i"] i by simp
  show "\<exists>a'. array_remove a (int i) = Ret () a' \<and> array_inv a' \<and> () = () \<and>
      array_list a' = take i (array_list a) @ drop (Suc i) (array_list a)"
    using array_remove_Ret [OF inv, of "int i"] i by simp
qed

end
