(* ===== verification/KQueue.thy ===== *)
theory KQueue
  imports Kern_Prelude
begin

text \<open>
  Growable ring buffers of pointers, \<^verbatim>\<open>kern/lib/queue.c\<close>. One slot is always left free:
  \<open>nextwrite = nextread\<close> means empty, so a queue of size \<open>n\<close> holds at most \<open>n - 1\<close> pointers.
  \<open>q_list\<close> reads the ring as a list; the locale \<open>fifo\<close> is the contract of
  \<^verbatim>\<open>kern/include/queue.h\<close>, interpreted on these definitions.
\<close>

section \<open>Model\<close>

record 'p kqueue =
  q_size :: int
  nextwrite :: int
  nextread :: int
  q_data :: "'p list"

text \<open>
  \<^verbatim>\<open>while (nsize < targetsize) { nsize *= 2; assert(nsize > 0); }\<close>: \<open>None\<close> is the failed
  assertion, which stops the loop when the doubling wraps around.
\<close>

function q_newsize :: "int \<Rightarrow> int \<Rightarrow> int option" where
  "q_newsize targetsize nsize =
     (if nsize < targetsize
      then (if s32 (nsize * 2) > 0 then q_newsize targetsize (s32 (nsize * 2)) else None)
      else Some nsize)"
  by pat_completeness auto

lemma s32_double_grows:
  assumes "s32 (n * 2) > 0" "n < 2147483648" shows "n < s32 (n * 2)"
proof (cases "n \<le> 0")
  case True
  with assms show ?thesis by linarith
next
  case pos: False
  show ?thesis
  proof (cases "n * 2 < 2147483648")
    case True
    with pos show ?thesis by (subst s32_id) auto
  next
    case False
    with assms(2) have "s32 (n * 2) = n * 2 - 4294967296" by (intro s32_wraps) auto
    with assms show ?thesis by linarith
  qed
qed

text \<open>
  The loop always ends: once in range, \<open>nsize\<close> grows at every step that passes the assertion.
\<close>

termination q_newsize
proof (relation "measures [\<lambda>(t, n). if n < 2147483648 then 0 else 1, \<lambda>(t, n). nat (t - n)]")
  fix t n :: int
  assume less: "n < t" and pos: "s32 (n * 2) > 0"
  have "s32 (n * 2) < 2147483648" using s32_range by simp
  with less s32_double_grows [OF pos]
  show "((t, s32 (n * 2)), t, n) \<in>
      measures [\<lambda>(t, n). if n < 2147483648 then 0 else 1, \<lambda>(t, n). nat (t - n)]"
    by auto
qed simp

declare q_newsize.simps [simp del]

definition q_empty :: "'p kqueue \<Rightarrow> bool" where
  "q_empty q \<longleftrightarrow> nextwrite q = nextread q"

text \<open>
  \<^verbatim>\<open>q_grow\<close> refills the new buffer by calling \<^verbatim>\<open>q_addtail\<close>, which may itself call
  \<^verbatim>\<open>q_grow\<close>. The refill loop \<^verbatim>\<open>for (i=onr; i!=onw; i=(i+1)%osize)\<close> takes the append
  routine as a parameter. It visits at most \<open>osize\<close> slots before it repeats one, so running
  out of that many steps means the loop never ends.
\<close>

fun q_refill ::
  "('p kqueue \<Rightarrow> 'p \<Rightarrow> (unit, 'p kqueue) result) \<Rightarrow> nat \<Rightarrow> 'p list \<Rightarrow> int \<Rightarrow> int \<Rightarrow> int
     \<Rightarrow> 'p kqueue \<Rightarrow> (unit, 'p kqueue) result" where
  "q_refill addtail fuel olddata osize i onw q =
     (if i = onw then Ret () q
      else case fuel of
        0 \<Rightarrow> Undef
      | Suc fuel' \<Rightarrow>
          (case block_read (Some olddata) i of
             None \<Rightarrow> Undef
           | Some p \<Rightarrow>
               (case addtail q p of
                  Ret _ q' \<Rightarrow> q_refill addtail fuel' olddata osize ((i + 1) mod osize) onw q'
                | Err e q' \<Rightarrow> Panic
                | Panic \<Rightarrow> Panic
                | Undef \<Rightarrow> Undef)))"

declare q_refill.simps [simp del]

definition q_grow_with ::
  "('p kqueue \<Rightarrow> 'p \<Rightarrow> (unit, 'p kqueue) result) \<Rightarrow> 'p allocator \<Rightarrow> 'p kqueue \<Rightarrow> int
     \<Rightarrow> (unit, 'p kqueue) result" where
  "q_grow_with addtail kmalloc q targetsize =
     (case q_newsize targetsize (q_size q) of
        None \<Rightarrow> Panic
      | Some nsize \<Rightarrow>
          (case kmalloc (u32 (nsize * 4)) of
             None \<Rightarrow> Err ENOMEM q
           | Some ndata \<Rightarrow>
               q_refill addtail (nat (q_size q)) (q_data q) (q_size q) (nextread q) (nextwrite q)
                 (q\<lparr>q_size := nsize, q_data := ndata, nextread := 0, nextwrite := 0\<rparr>)))"

definition q_store :: "'p kqueue \<Rightarrow> 'p \<Rightarrow> int \<Rightarrow> (unit, 'p kqueue) result" where
  "q_store q p nextnext =
     (case block_write (Some (q_data q)) (nextwrite q) p of
        None \<Rightarrow> Undef
      | Some d \<Rightarrow> Ret () (q\<lparr>q_data := d, nextwrite := nextnext\<rparr>))"

text \<open>
  \<^verbatim>\<open>q_addtail\<close> with the nesting of \<^verbatim>\<open>q_grow\<close> inside \<^verbatim>\<open>q_addtail\<close> bounded by \<open>depth\<close>.
  Depth 2 is always enough (\<open>q_addtail_depth\<close> below): the enlarged queue is not full.
\<close>

primrec q_addtail_depth ::
  "nat \<Rightarrow> 'p allocator \<Rightarrow> 'p kqueue \<Rightarrow> 'p \<Rightarrow> (unit, 'p kqueue) result" where
  "q_addtail_depth 0 kmalloc q p = Undef"
| "q_addtail_depth (Suc depth) kmalloc q p =
     (if \<not> q_size q > 0 then Panic
      else if (nextwrite q + 1) mod q_size q = nextread q then
        kbind (q_grow_with (q_addtail_depth depth kmalloc) kmalloc q (s32 (q_size q + 1)))
          (\<lambda>_ q'. q_store q' p ((nextwrite q' + 1) mod q_size q'))
      else q_store q p ((nextwrite q + 1) mod q_size q))"

declare q_addtail_depth.simps [simp del]

definition q_addtail :: "'p allocator \<Rightarrow> 'p kqueue \<Rightarrow> 'p \<Rightarrow> (unit, 'p kqueue) result" where
  "q_addtail = q_addtail_depth 2"

definition q_grow :: "'p allocator \<Rightarrow> 'p kqueue \<Rightarrow> int \<Rightarrow> (unit, 'p kqueue) result" where
  "q_grow kmalloc = q_grow_with (q_addtail kmalloc) kmalloc"

definition q_create :: "bool \<Rightarrow> 'p allocator \<Rightarrow> int \<Rightarrow> 'p kqueue option" where
  "q_create struct_granted kmalloc sz =
     (if \<not> struct_granted then None
      else case kmalloc (u32 (sz * 4)) of
        None \<Rightarrow> None
      | Some d \<Rightarrow> Some \<lparr>q_size = sz, nextwrite = 0, nextread = 0, q_data = d\<rparr>)"

definition q_preallocate :: "'p allocator \<Rightarrow> 'p kqueue \<Rightarrow> int \<Rightarrow> (unit, 'p kqueue) result" where
  "q_preallocate kmalloc q sz =
     (if \<not> q_size q > 0 then Panic
      else if sz > q_size q then q_grow kmalloc q sz
      else Ret () q)"

definition q_remhead :: "'p kqueue \<Rightarrow> ('p, 'p kqueue) result" where
  "q_remhead q =
     (if \<not> q_size q > 0 then Panic
      else if q_empty q then Panic
      else case block_read (Some (q_data q)) (nextread q) of
        None \<Rightarrow> Undef
      | Some p \<Rightarrow> Ret p (q\<lparr>nextread := (nextread q + 1) mod q_size q\<rparr>))"

definition q_destroy :: "'p kqueue \<Rightarrow> (unit, unit) result" where
  "q_destroy q = (if q_empty q then Ret () () else Panic)"

definition q_getguy :: "'p kqueue \<Rightarrow> int \<Rightarrow> ('p, 'p kqueue) result" where
  "q_getguy q index =
     (if \<not> (0 \<le> index \<and> index < q_size q) then Panic
      else case block_read (Some (q_data q)) index of None \<Rightarrow> Undef | Some p \<Rightarrow> Ret p q)"

section \<open>The ring as a list\<close>

definition ring_list :: "'p list \<Rightarrow> int \<Rightarrow> int \<Rightarrow> int \<Rightarrow> 'p list" where
  "ring_list d s i w = map (\<lambda>k. d ! nat ((i + int k) mod s)) [0..<nat ((w - i) mod s)]"

lemma length_ring_list [simp]: "length (ring_list d s i w) = nat ((w - i) mod s)"
  by (simp add: ring_list_def)

lemma ring_list_Nil [simp]: "ring_list d s i i = []"
  by (simp add: ring_list_def)

lemma mod_le_0_iff: "0 < s \<Longrightarrow> a mod s \<le> 0 \<longleftrightarrow> a mod s = (0::int)"
  using pos_mod_sign [of s a] by linarith

lemma ring_index:
  fixes s :: int
  assumes "0 \<le> w" "w < s"
  shows "(i + (w - i) mod s) mod s = w"
  using assms by (simp add: mod_add_right_eq)

lemma ring_count_eq_0:
  fixes s :: int
  assumes "0 \<le> w" "w < s" "0 \<le> i" "i < s"
  shows "(w - i) mod s = 0 \<longleftrightarrow> w = i"
  using assms ring_index [of w s i] by auto

lemma ring_inj:
  fixes s :: int
  assumes "(i + k) mod s = (i + j) mod s" "0 \<le> k" "k < s" "0 \<le> j" "j < s"
  shows "k = j"
proof -
  from assms(1) have "(i + k - i) mod s = (i + j - i) mod s" by (rule mod_diff_cong) simp
  with assms show ?thesis by simp
qed

lemma ring_count_step:
  fixes s :: int
  assumes "0 < s" "(w - i) mod s \<noteq> 0"
  shows "(w - (i + 1) mod s) mod s = (w - i) mod s - 1"
proof -
  have "(w - (i + 1) mod s) mod s = ((w - i) mod s - 1) mod s"
    by (metis diff_diff_add mod_diff_left_eq mod_diff_right_eq)
  also have "\<dots> = (w - i) mod s - 1"
    using assms pos_mod_bound [of s "w - i"] pos_mod_sign [of s "w - i"]
    by (intro mod_pos_pos_trivial) linarith+
  finally show ?thesis .
qed

lemma ring_count_snoc:
  fixes s :: int
  assumes "0 < s" "(w + 1) mod s \<noteq> i" "0 \<le> i" "i < s"
  shows "((w + 1) mod s - i) mod s = (w - i) mod s + 1"
proof -
  have eq: "((w + 1) mod s - i) mod s = ((w - i) mod s + 1) mod s"
    by (simp add: mod_simps algebra_simps)
  moreover have "(w - i) mod s + 1 < s"
  proof (rule ccontr)
    assume "\<not> (w - i) mod s + 1 < s"
    with pos_mod_bound [of s "w - i"] assms(1) have "(w - i) mod s + 1 = s" by linarith
    with eq have "((w + 1) mod s - i) mod s = 0" by simp
    then have "(w + 1) mod s = i"
      using ring_count_eq_0 [of "(w + 1) mod s" s i] assms by simp
    with assms show False by simp
  qed
  ultimately show ?thesis
    using pos_mod_sign [of s "w - i"] assms(1) by (simp add: mod_pos_pos_trivial)
qed

lemma ring_list_Cons:
  assumes "0 \<le> i" "i < s" "0 \<le> w" "w < s" "i \<noteq> w"
  shows "ring_list d s i w = d ! nat i # ring_list d s ((i + 1) mod s) w"
proof -
  define c where "c = nat ((w - i) mod s)"
  from assms have nz: "(w - i) mod s \<noteq> 0" using ring_count_eq_0 [of w s i] by auto
  have s: "0 < s" using assms by linarith
  from nz s have c: "c = Suc (c - 1)"
    using pos_mod_sign [of s "w - i"] unfolding c_def by linarith
  have c1: "nat ((w - (i + 1) mod s) mod s) = c - 1"
    using ring_count_step [OF s nz] by (simp add: c_def)
  have "ring_list d s i w = map (\<lambda>k. d ! nat ((i + int k) mod s)) [0..<Suc (c - 1)]"
    using c by (simp add: ring_list_def c_def)
  also have "\<dots> = d ! nat i # map (\<lambda>k. d ! nat ((i + 1 + int k) mod s)) [0..<c - 1]"
    using assms by (simp add: map_upt_Suc algebra_simps del: upt_Suc)
  also have "map (\<lambda>k. d ! nat ((i + 1 + int k) mod s)) [0..<c - 1] =
      ring_list d s ((i + 1) mod s) w"
    by (simp add: ring_list_def c1 mod_add_left_eq)
  finally show ?thesis .
qed

lemma ring_list_snoc:
  assumes "0 \<le> i" "i < s" "0 \<le> w" "w < s" "(w + 1) mod s \<noteq> i" "s \<le> int (length d)"
  shows "ring_list (d[nat w := p]) s i ((w + 1) mod s) = ring_list d s i w @ [p]"
proof -
  define c where "c = nat ((w - i) mod s)"
  have s: "0 < s" using assms by linarith
  have c: "int c = (w - i) mod s" "int c < s"
    using s pos_mod_sign [of s "w - i"] pos_mod_bound [of s "w - i"] by (simp_all add: c_def)
  have c1: "nat (((w + 1) mod s - i) mod s) = Suc c"
    using ring_count_snoc [OF s assms(5) assms(1,2)] c by linarith
  have at_c: "(i + int c) mod s = w" using ring_index [of w s i] assms c by simp
  have at_k: "(d[nat w := p]) ! nat ((i + int k) mod s) = d ! nat ((i + int k) mod s)" if "k < c" for k
  proof -
    have "(i + int k) mod s \<noteq> w"
      using ring_inj [of i "int k" s "int c"] at_c c that by auto
    moreover have "0 \<le> (i + int k) mod s" using s by simp
    ultimately have "nat ((i + int k) mod s) \<noteq> nat w" using assms(3) by linarith
    then show ?thesis by simp
  qed
  have "(d[nat w := p]) ! nat w = p" using assms by (intro nth_list_update_eq) linarith
  then show ?thesis
    using at_k at_c by (simp add: ring_list_def c1 c_def [symmetric])
qed

section \<open>Invariant\<close>

definition queue_limit :: int where
  "queue_limit = 268435456"

definition queue_inv :: "'p kqueue \<Rightarrow> bool" where
  "queue_inv q \<longleftrightarrow>
     0 < q_size q \<and> q_size q \<le> 2 * queue_limit \<and> q_size q \<le> int (length (q_data q)) \<and>
     0 \<le> nextread q \<and> nextread q < q_size q \<and> 0 \<le> nextwrite q \<and> nextwrite q < q_size q"

definition q_list :: "'p kqueue \<Rightarrow> 'p list" where
  "q_list q = ring_list (q_data q) (q_size q) (nextread q) (nextwrite q)"

definition q_full :: "'p kqueue \<Rightarrow> bool" where
  "q_full q \<longleftrightarrow> (nextwrite q + 1) mod q_size q = nextread q"

lemma queue_invD:
  assumes "queue_inv q"
  shows "0 < q_size q" "q_size q \<le> 2 * queue_limit" "q_size q \<le> int (length (q_data q))"
    "0 \<le> nextread q" "nextread q < q_size q" "0 \<le> nextwrite q" "nextwrite q < q_size q"
  using assms by (auto simp: queue_inv_def)

lemma q_empty_iff:
  assumes "queue_inv q" shows "q_empty q \<longleftrightarrow> q_list q = []"
proof -
  note i = queue_invD [OF assms]
  have "q_list q = [] \<longleftrightarrow> (nextwrite q - nextread q) mod q_size q = 0"
    using i(1) by (simp add: q_list_def length_0_conv [symmetric] mod_le_0_iff del: length_0_conv)
  then show ?thesis
    using ring_count_eq_0 [OF i(6,7,4,5)] by (simp add: q_empty_def)
qed

text \<open>The ring holds one pointer less than its size; it is full exactly then.\<close>

lemma q_full_iff: "queue_inv q \<Longrightarrow> q_full q \<longleftrightarrow> int (length (q_list q)) = q_size q - 1"
proof -
  assume inv: "queue_inv q"
  let ?s = "q_size q" and ?c = "(nextwrite q - nextread q) mod q_size q"
  note i = queue_invD [OF inv]
  have c: "0 \<le> ?c" "?c < ?s" using i by simp_all
  have w: "(nextread q + ?c) mod ?s = nextwrite q" using i by (intro ring_index)
  have "(nextwrite q + 1) mod ?s = (nextread q + (?c + 1)) mod ?s"
    by (metis w mod_add_left_eq add.assoc)
  moreover have "(nextread q + (?c + 1)) mod ?s = nextread q \<longleftrightarrow> ?c = ?s - 1"
  proof
    assume "?c = ?s - 1"
    then have "nextread q + (?c + 1) = nextread q + ?s" by linarith
    then show "(nextread q + (?c + 1)) mod ?s = nextread q" using i by simp
  next
    assume eq: "(nextread q + (?c + 1)) mod ?s = nextread q"
    show "?c = ?s - 1"
    proof (rule ccontr)
      assume "?c \<noteq> ?s - 1"
      with c have "?c + 1 < ?s" by linarith
      moreover from eq i have "(nextread q + (?c + 1)) mod ?s = (nextread q + 0) mod ?s" by simp
      ultimately have "?c + 1 = 0" 
        using ring_inj [of "nextread q" "?c + 1" ?s 0] c(1) i(1) by linarith
      with c show False by linarith
    qed
  qed
  ultimately show ?thesis using c by (simp add: q_full_def q_list_def)
qed

lemma q_list_bound: "queue_inv q \<Longrightarrow> int (length (q_list q)) \<le> q_size q - 1"
  using pos_mod_bound [of "q_size q" "nextwrite q - nextread q"]
    pos_mod_sign [of "q_size q" "nextwrite q - nextread q"]
  by (auto simp: q_list_def queue_inv_def)

lemma q_store_Ret:
  assumes inv: "queue_inv q" and room: "\<not> q_full q"
  shows "\<exists>q'. q_store q p ((nextwrite q + 1) mod q_size q) = Ret () q' \<and> queue_inv q' \<and>
     q_list q' = q_list q @ [p] \<and> q_size q' = q_size q"
proof -
  note i = queue_invD [OF inv]
  from room have "(nextwrite q + 1) mod q_size q \<noteq> nextread q" by (simp add: q_full_def)
  with ring_list_snoc [OF i(4-7) this i(3)] i show ?thesis
    by (auto simp: q_store_def queue_inv_def q_list_def)
qed

lemma q_addtail_depth_room:
  assumes "queue_inv q" "\<not> q_full q"
  shows "q_addtail_depth (Suc d) kmalloc q p = q_store q p ((nextwrite q + 1) mod q_size q)"
  using assms by (simp add: q_addtail_depth.simps q_full_def queue_inv_def)

section \<open>Growing\<close>

lemma q_newsize_bounds:
  assumes "0 < n" "n \<le> 2 * queue_limit" "t \<le> queue_limit"
  shows "\<exists>r. q_newsize t n = Some r \<and> n \<le> r \<and> t \<le> r \<and> r \<le> 2 * queue_limit \<and> r \<le> max n (2 * t)"
  using assms
proof (induction t n rule: q_newsize.induct)
  case (1 t n)
  show ?case
  proof (cases "n < t")
    case False
    with "1.prems" show ?thesis by (subst q_newsize.simps) auto
  next
    case True
    with "1.prems" have d: "s32 (n * 2) = n * 2" by (subst s32_id) (auto simp: queue_limit_def)
    with True "1.IH" "1.prems"
    obtain r where "q_newsize t (n * 2) = Some r" "n * 2 \<le> r" "t \<le> r" "r \<le> 2 * queue_limit"
        "r \<le> max (n * 2) (2 * t)"
      by auto
    with True "1.prems" d show ?thesis by (subst q_newsize.simps) auto
  qed
qed

text \<open>
  The refill loop copies the old ring in order into a queue that has room for all of it. The
  append routine is any one that stores directly when there is room.
\<close>

lemma q_refill_Ret:
  assumes store: "\<And>q p. queue_inv q \<Longrightarrow> \<not> q_full q \<Longrightarrow>
      addtail q p = q_store q p ((nextwrite q + 1) mod q_size q)"
    and old: "osize \<le> int (length old)" "0 \<le> onw" "onw < osize"
    and i: "0 \<le> i" "i < osize"
    and fuel: "(onw - i) mod osize \<le> int fuel"
    and inv: "queue_inv q" "int (length (q_list q)) + (onw - i) mod osize < q_size q"
  shows "\<exists>q'. q_refill addtail fuel old osize i onw q = Ret () q' \<and> queue_inv q' \<and>
    q_list q' = q_list q @ ring_list old osize i onw \<and> q_size q' = q_size q"
  using i fuel inv
proof (induction fuel arbitrary: i q)
  case 0
  moreover have "(onw - i) mod osize = 0"
    using 0 old by (simp add: mod_le_0_iff)
  ultimately have "i = onw" using ring_count_eq_0 [of onw osize i] old by auto
  with 0 show ?case by (subst q_refill.simps) auto
next
  case (Suc fuel)
  show ?case
  proof (cases "i = onw")
    case True
    with Suc.prems show ?thesis by (subst q_refill.simps) auto
  next
    case False
    let ?i' = "(i + 1) mod osize"
    have pos: "0 < osize" using old by linarith
    have nz: "(onw - i) mod osize \<noteq> 0"
      using False ring_count_eq_0 [of onw osize i] old Suc.prems by auto
    have c: "(onw - ?i') mod osize = (onw - i) mod osize - 1" by (rule ring_count_step [OF pos nz])
    have "0 < (onw - i) mod osize" using nz pos_mod_sign [OF pos, of "onw - i"] by linarith
    with Suc.prems have room: "\<not> q_full q" by (auto simp: q_full_iff)
    obtain q1 where q1: "addtail q (old ! nat i) = Ret () q1" "queue_inv q1"
      "q_list q1 = q_list q @ [old ! nat i]" "q_size q1 = q_size q"
      using q_store_Ret [OF Suc.prems(4) room] store [OF Suc.prems(4) room] by fastforce
    have "\<exists>q'. q_refill addtail fuel old osize ?i' onw q1 = Ret () q' \<and> queue_inv q' \<and>
        q_list q' = q_list q1 @ ring_list old osize ?i' onw \<and> q_size q' = q_size q1"
      using Suc.prems q1 c pos by (intro Suc.IH) auto
    with q1 False old Suc.prems show ?thesis
      by (subst q_refill.simps) (auto simp: ring_list_Cons)
  qed
qed

lemma q_grow_with_outcome:
  assumes store: "\<And>q p. queue_inv q \<Longrightarrow> \<not> q_full q \<Longrightarrow>
      addtail q p = q_store q p ((nextwrite q + 1) mod q_size q)"
    and inv: "queue_inv q" and km: "allocator_ok kmalloc" and t: "t \<le> queue_limit"
  shows "outcome (q_grow_with addtail kmalloc q t)
    (\<lambda>_ q'. queue_inv q' \<and> q_list q' = q_list q \<and> t \<le> q_size q' \<and> q_size q \<le> q_size q' \<and>
       q_size q' \<le> max (q_size q) (2 * t))
    (\<lambda>e q'. e = ENOMEM \<and> q' = q)"
proof -
  note i = queue_invD [OF inv]
  obtain r where r: "q_newsize t (q_size q) = Some r" "q_size q \<le> r" "t \<le> r" "r \<le> 2 * queue_limit"
      "r \<le> max (q_size q) (2 * t)"
    using q_newsize_bounds [OF i(1,2) t] by blast
  show ?thesis
  proof (cases "kmalloc (u32 (r * 4))")
    case None
    with r show ?thesis by (simp add: q_grow_with_def)
  next
    case (Some d)
    have "u32 (r * 4) = r * 4" using r i by (subst u32_id) (auto simp: queue_limit_def)
    with allocator_okD [OF km Some] have len: "r \<le> int (length d)" by simp
    let ?q0 = "q\<lparr>q_size := r, q_data := d, nextread := 0, nextwrite := 0\<rparr>"
    have inv0: "queue_inv ?q0" using r i len by (simp add: queue_inv_def)
    obtain m where m: "(nextwrite q - nextread q) mod q_size q = m" "m < q_size q"
      using i(1) by simp
    have "\<exists>q'. q_refill addtail (nat (q_size q)) (q_data q) (q_size q) (nextread q) (nextwrite q) ?q0
        = Ret () q' \<and> queue_inv q' \<and> q_list q' = q_list ?q0 @ q_list q \<and> q_size q' = q_size ?q0"
      unfolding q_list_def [of q]
      by (rule q_refill_Ret [OF store]) (use i r inv0 m in \<open>simp_all add: q_list_def\<close>)
    moreover have "q_list ?q0 = []" by (simp add: q_list_def)
    ultimately show ?thesis using r Some by (auto simp: q_grow_with_def)
  qed
qed

lemma q_addtail_depth_outcome:
  assumes inv: "queue_inv q" and km: "allocator_ok kmalloc" and sz: "q_size q < queue_limit"
  shows "outcome (q_addtail_depth (Suc (Suc d)) kmalloc q p)
    (\<lambda>_ q'. queue_inv q' \<and> q_list q' = q_list q @ [p] \<and> q_size q \<le> q_size q' \<and>
       q_size q' \<le> (if q_full q then 2 * (q_size q + 1) else q_size q))
    (\<lambda>e q'. e = ENOMEM \<and> q' = q \<and> q_full q)"
proof (cases "q_full q")
  case False
  then show ?thesis
    using q_store_Ret [OF inv False, of p] by (auto simp: q_addtail_depth_room [OF inv])
next
  case True
  note i = queue_invD [OF inv]
  have wrap: "s32 (q_size q + 1) = q_size q + 1" using sz i by (subst s32_id) (auto simp: queue_limit_def)
  have "outcome (q_grow_with (q_addtail_depth (Suc d) kmalloc) kmalloc q (q_size q + 1))
      (\<lambda>_ q'. queue_inv q' \<and> q_list q' = q_list q \<and> q_size q + 1 \<le> q_size q' \<and> q_size q \<le> q_size q' \<and>
         q_size q' \<le> max (q_size q) (2 * (q_size q + 1)))
      (\<lambda>e q'. e = ENOMEM \<and> q' = q)"
    using sz by (intro q_grow_with_outcome inv km q_addtail_depth_room) auto
  then show ?thesis
  proof (cases rule: outcome_cases)
    case (Ret u q1)
    with True have "\<not> q_full q1" by (auto simp: q_full_iff inv)
    with Ret obtain q2 where "q_store q1 p ((nextwrite q1 + 1) mod q_size q1) = Ret () q2"
        "queue_inv q2" "q_list q2 = q_list q @ [p]" "q_size q2 = q_size q1"
      using q_store_Ret [of q1 p] by auto
    with Ret True i wrap show ?thesis
      by (simp add: q_full_def q_addtail_depth.simps(2) [of "Suc d"])
  next
    case (Err e q1)
    with True i wrap show ?thesis by (simp add: q_full_def q_addtail_depth.simps(2) [of "Suc d"])
  qed
qed

section \<open>Routines\<close>

text \<open>Two levels of nesting are enough: a deeper bound gives the same result.\<close>

lemma q_refill_cong:
  assumes f: "\<And>q p. queue_inv q \<Longrightarrow> \<not> q_full q \<Longrightarrow>
      f q p = q_store q p ((nextwrite q + 1) mod q_size q)"
    and g: "\<And>q p. queue_inv q \<Longrightarrow> \<not> q_full q \<Longrightarrow>
      g q p = q_store q p ((nextwrite q + 1) mod q_size q)"
    and old: "osize \<le> int (length old)" "0 \<le> onw" "onw < osize"
    and i: "0 \<le> i" "i < osize"
    and inv: "queue_inv q" "int (length (q_list q)) + (onw - i) mod osize < q_size q"
  shows "q_refill f fuel old osize i onw q = q_refill g fuel old osize i onw q"
  using i inv
proof (induction fuel arbitrary: i q)
  case 0
  show ?case by (simp add: q_refill.simps)
next
  case (Suc fuel)
  show ?case
  proof (cases "i = onw")
    case True
    then show ?thesis by (simp add: q_refill.simps)
  next
    case False
    let ?i' = "(i + 1) mod osize"
    have pos: "0 < osize" using old by linarith
    have nz: "(onw - i) mod osize \<noteq> 0"
      using False ring_count_eq_0 [of onw osize i] old Suc.prems by auto
    note c = ring_count_step [OF pos nz]
    have "0 < (onw - i) mod osize" using nz pos_mod_sign [OF pos, of "onw - i"] by linarith
    with Suc.prems have room: "\<not> q_full q" by (auto simp: q_full_iff)
    obtain q1 where q1: "q_store q (old ! nat i) ((nextwrite q + 1) mod q_size q) = Ret () q1"
      "queue_inv q1" "q_list q1 = q_list q @ [old ! nat i]" "q_size q1 = q_size q"
      using q_store_Ret [OF Suc.prems(3) room] by blast
    have "q_refill f fuel old osize ?i' onw q1 = q_refill g fuel old osize ?i' onw q1"
      using Suc.prems q1 c pos by (intro Suc.IH) auto
    with q1 False old Suc.prems show ?thesis
      by (subst (1 2) q_refill.simps) (simp add: f g room)
  qed
qed

lemma q_addtail_depth_enough:
  assumes inv: "queue_inv q" and km: "allocator_ok kmalloc" and sz: "q_size q < queue_limit"
  shows "q_addtail_depth (Suc (Suc d)) kmalloc q p = q_addtail kmalloc q p"
proof (cases "q_full q")
  case False
  then show ?thesis by (simp add: q_addtail_def numeral_2_eq_2 q_addtail_depth_room inv)
next
  case True
  note i = queue_invD [OF inv]
  have wrap: "s32 (q_size q + 1) = q_size q + 1" using sz i by (subst s32_id) (auto simp: queue_limit_def)
  obtain r where r: "q_newsize (q_size q + 1) (q_size q) = Some r" "q_size q \<le> r"
      "q_size q + 1 \<le> r" "r \<le> 2 * queue_limit"
    using q_newsize_bounds [of "q_size q" "q_size q + 1"] i sz by auto
  have "q_grow_with (q_addtail_depth (Suc d) kmalloc) kmalloc q (q_size q + 1) =
      q_grow_with (q_addtail_depth (Suc 0) kmalloc) kmalloc q (q_size q + 1)"
  proof (cases "kmalloc (u32 (r * 4))")
    case None
    then show ?thesis by (simp add: q_grow_with_def r)
  next
    case (Some ndata)
    let ?q0 = "q\<lparr>q_size := r, q_data := ndata, nextread := 0, nextwrite := 0\<rparr>"
    have "u32 (r * 4) = r * 4" using r i by (subst u32_id) (auto simp: queue_limit_def)
    with allocator_okD [OF km Some] have "r \<le> int (length ndata)" by simp
    with r i have inv0: "queue_inv ?q0" by (simp add: queue_inv_def)
    obtain m where m: "(nextwrite q - nextread q) mod q_size q = m" "m < q_size q"
      using i(1) by simp
    have "q_refill (q_addtail_depth (Suc d) kmalloc) (nat (q_size q)) (q_data q) (q_size q)
          (nextread q) (nextwrite q) ?q0 =
        q_refill (q_addtail_depth (Suc 0) kmalloc) (nat (q_size q)) (q_data q) (q_size q)
          (nextread q) (nextwrite q) ?q0"
      by (rule q_refill_cong [OF q_addtail_depth_room q_addtail_depth_room])
        (use i r inv0 m in \<open>simp_all add: q_list_def\<close>)
    with Some show ?thesis by (simp add: q_grow_with_def r)
  qed
  then show ?thesis
    by (simp add: q_addtail_def numeral_2_eq_2 q_addtail_depth.simps(2) [of "Suc _"] wrap)
qed

lemma q_grow_outcome:
  assumes "queue_inv q" "allocator_ok kmalloc" "t \<le> queue_limit"
  shows "outcome (q_grow kmalloc q t)
    (\<lambda>_ q'. queue_inv q' \<and> q_list q' = q_list q \<and> t \<le> q_size q' \<and> q_size q \<le> q_size q' \<and>
       q_size q' \<le> max (q_size q) (2 * t))
    (\<lambda>e q'. e = ENOMEM \<and> q' = q)"
  unfolding q_grow_def q_addtail_def numeral_2_eq_2
  by (rule q_grow_with_outcome [OF q_addtail_depth_room assms])

lemma q_addtail_outcome:
  assumes "queue_inv q" "allocator_ok kmalloc" "q_size q < queue_limit"
  shows "outcome (q_addtail kmalloc q p)
    (\<lambda>_ q'. queue_inv q' \<and> q_list q' = q_list q @ [p] \<and> q_size q \<le> q_size q' \<and>
       q_size q' \<le> (if q_full q then 2 * (q_size q + 1) else q_size q))
    (\<lambda>e q'. e = ENOMEM \<and> q' = q \<and> q_full q)"
  unfolding q_addtail_def numeral_2_eq_2 by (rule q_addtail_depth_outcome [OF assms])

lemma q_addtail_room:
  assumes "queue_inv q" "\<not> q_full q"
  shows "\<exists>q'. q_addtail kmalloc q p = Ret () q' \<and> queue_inv q' \<and> q_list q' = q_list q @ [p] \<and>
     q_size q' = q_size q"
  using q_store_Ret [OF assms] by (simp add: q_addtail_def numeral_2_eq_2 q_addtail_depth_room assms)

lemma q_addtail_refused:
  assumes inv: "queue_inv q" and full: "q_full q" and sz: "q_size q < queue_limit"
  shows "q_addtail refuses q p = Err ENOMEM q"
proof -
  note i = queue_invD [OF inv]
  have t: "q_size q + 1 \<le> queue_limit" using sz by simp
  obtain r where "q_newsize (q_size q + 1) (q_size q) = Some r"
    using q_newsize_bounds [OF i(1,2) t] by blast
  moreover have "s32 (q_size q + 1) = q_size q + 1" using i(1) sz by (simp add: queue_limit_def)
  ultimately show ?thesis
    using full i(1) by (simp add: q_addtail_def numeral_2_eq_2 q_addtail_depth.simps q_grow_with_def q_full_def refuses_def)
qed

lemma q_preallocate_outcome:
  assumes "queue_inv q" "allocator_ok kmalloc" "n \<le> queue_limit"
  shows "outcome (q_preallocate kmalloc q n)
    (\<lambda>_ q'. queue_inv q' \<and> q_list q' = q_list q \<and> n \<le> q_size q' \<and> q_size q \<le> q_size q' \<and>
       q_size q' \<le> max (q_size q) (2 * n))
    (\<lambda>e q'. e = ENOMEM \<and> q' = q \<and> q_size q < n)"
proof (cases "n > q_size q")
  case True
  with q_grow_outcome [OF assms] queue_invD(1) [OF assms(1)] show ?thesis
    by (auto simp: q_preallocate_def elim: outcome_weaken)
next
  case False
  with assms(1) queue_invD(1) [OF assms(1)] show ?thesis by (simp add: q_preallocate_def)
qed

lemma q_create_Some:
  assumes "allocator_ok kmalloc" "0 < n" "n \<le> queue_limit" "q_create True kmalloc n = Some q"
  shows "queue_inv q \<and> q_list q = [] \<and> q_size q = n"
proof -
  from assms(4) obtain d where d: "kmalloc (u32 (n * 4)) = Some d"
      "q = \<lparr>q_size = n, nextwrite = 0, nextread = 0, q_data = d\<rparr>"
    by (auto simp: q_create_def split: option.splits)
  have "u32 (n * 4) = n * 4" using assms by (subst u32_id) (auto simp: queue_limit_def)
  with allocator_okD [OF assms(1) d(1)] have "n \<le> int (length d)" by simp
  with d assms show ?thesis by (auto simp: queue_inv_def q_list_def)
qed

lemma q_remhead_Cons:
  assumes inv: "queue_inv q" and l: "q_list q = p # ps"
  shows "\<exists>q'. q_remhead q = Ret p q' \<and> queue_inv q' \<and> q_list q' = ps \<and> q_size q' = q_size q"
proof -
  note i = queue_invD [OF inv]
  from l have ne: "nextread q \<noteq> nextwrite q" by (auto simp: q_list_def)
  with l i have "p = q_data q ! nat (nextread q)"
      "ps = ring_list (q_data q) (q_size q) ((nextread q + 1) mod q_size q) (nextwrite q)"
    by (auto simp: q_list_def ring_list_Cons)
  with ne i show ?thesis
    by (auto simp: q_remhead_def q_empty_def queue_inv_def q_list_def)
qed

lemma q_remhead_Nil: "queue_inv q \<Longrightarrow> q_list q = [] \<Longrightarrow> q_remhead q = Panic"
  by (simp add: q_remhead_def q_empty_iff)

section \<open>The contract of queue.h\<close>

text \<open>Appending a list of pointers one by one, and emptying a queue from its head.\<close>

fun add_all :: "('q \<Rightarrow> 'p \<Rightarrow> (unit, 'q) result) \<Rightarrow> 'q \<Rightarrow> 'p list \<Rightarrow> (unit, 'q) result" where
  "add_all addtail q [] = Ret () q"
| "add_all addtail q (p # ps) = kbind (addtail q p) (\<lambda>_ q'. add_all addtail q' ps)"

fun drain ::
  "nat \<Rightarrow> ('q \<Rightarrow> bool) \<Rightarrow> ('q \<Rightarrow> ('p, 'q) result) \<Rightarrow> 'q \<Rightarrow> ('p list, 'q) result" where
  "drain fuel isempty remhead q =
     (if isempty q then Ret [] q
      else case fuel of
        0 \<Rightarrow> Undef
      | Suc fuel' \<Rightarrow>
          kbind (remhead q) (\<lambda>p q'. kbind (drain fuel' isempty remhead q') (\<lambda>ps q''. Ret (p # ps) q'')))"

declare drain.simps [simp del]

locale fifo =
  fixes inv :: "'q \<Rightarrow> bool"
    and list :: "'q \<Rightarrow> 'p list"
    and room :: "'q \<Rightarrow> nat"
    and isempty :: "'q \<Rightarrow> bool"
    and addtail :: "'q \<Rightarrow> 'p \<Rightarrow> (unit, 'q) result"
    and remhead :: "'q \<Rightarrow> ('p, 'q) result"
  assumes empty_iff: "inv q \<Longrightarrow> isempty q \<longleftrightarrow> list q = []"
    and addtail_room: "inv q \<Longrightarrow> 0 < room q \<Longrightarrow>
      \<exists>q'. addtail q p = Ret () q' \<and> inv q' \<and> list q' = list q @ [p] \<and> room q = Suc (room q')"
    and remhead_Cons: "inv q \<Longrightarrow> list q = p # ps \<Longrightarrow>
      \<exists>q'. remhead q = Ret p q' \<and> inv q' \<and> list q' = ps \<and> room q' = Suc (room q)"
begin

lemma add_all_room:
  "inv q \<Longrightarrow> length ps \<le> room q \<Longrightarrow>
     \<exists>q'. add_all addtail q ps = Ret () q' \<and> inv q' \<and> list q' = list q @ ps \<and>
          room q = room q' + length ps"
proof (induction ps arbitrary: q)
  case Nil
  then show ?case by simp
next
  case (Cons p ps)
  from Cons.prems obtain q1 where q1: "addtail q p = Ret () q1" "inv q1" "list q1 = list q @ [p]"
      "room q = Suc (room q1)"
    using addtail_room [of q p] by auto
  with Cons.prems Cons.IH [of q1] show ?case by auto
qed

lemma drain_all:
  "inv q \<Longrightarrow> length (list q) \<le> fuel \<Longrightarrow>
     \<exists>q'. drain fuel isempty remhead q = Ret (list q) q' \<and> inv q' \<and> list q' = [] \<and>
          room q' = room q + length (list q)"
proof (induction fuel arbitrary: q)
  case 0
  then show ?case by (subst drain.simps) (simp add: empty_iff)
next
  case (Suc fuel)
  show ?case
  proof (cases "list q")
    case Nil
    with Suc.prems show ?thesis by (subst drain.simps) (simp add: empty_iff)
  next
    case (Cons p ps)
    with Suc.prems obtain q1 where q1: "remhead q = Ret p q1" "inv q1" "list q1 = ps"
        "room q1 = Suc (room q)"
      using remhead_Cons by blast
    with Suc.IH [of q1] Suc.prems Cons show ?thesis
      by (subst drain.simps) (auto simp: empty_iff)
  qed
qed

text \<open>First in, first out: what was appended comes back in the same order, after what was there.\<close>

lemma add_then_drain:
  assumes "inv q" "length ps \<le> room q" "length (list q) + length ps \<le> fuel"
  shows "\<exists>q'. kbind (add_all addtail q ps) (\<lambda>_. drain fuel isempty remhead) = Ret (list q @ ps) q' \<and>
     inv q' \<and> list q' = []"
proof -
  from add_all_room [OF assms(1,2)] obtain q1 where q1: "add_all addtail q ps = Ret () q1" "inv q1"
      "list q1 = list q @ ps" by blast
  with drain_all [OF q1(2), of fuel] assms(3) show ?thesis by auto
qed

end

definition q_room :: "'p kqueue \<Rightarrow> nat" where
  "q_room q = nat (q_size q - 1) - length (q_list q)"

lemma q_room_pos: "queue_inv q \<Longrightarrow> 0 < q_room q \<longleftrightarrow> \<not> q_full q"
  using q_list_bound [of q] by (auto simp: q_room_def q_full_iff)

interpretation ring: fifo queue_inv q_list q_room q_empty "q_addtail kmalloc" q_remhead
proof
  fix q :: "'a kqueue" and p ps
  assume inv: "queue_inv q"
  show "q_empty q = (q_list q = [])" by (rule q_empty_iff [OF inv])
  show "\<exists>q'. q_addtail kmalloc q p = Ret () q' \<and> queue_inv q' \<and> q_list q' = q_list q @ [p] \<and>
      q_room q = Suc (q_room q')" if "0 < q_room q"
    using q_addtail_room [OF inv, of kmalloc p] that q_room_pos [OF inv]
    by (fastforce simp: q_room_def)
  show "\<exists>q'. q_remhead q = Ret p q' \<and> queue_inv q' \<and> q_list q' = ps \<and> q_room q' = Suc (q_room q)"
    if "q_list q = p # ps"
    using q_remhead_Cons [OF inv that] that q_list_bound [OF inv] by (fastforce simp: q_room_def)
qed

end
