(* ===== verification/Kern_State.thy ===== *)
theory Kern_State
  imports KArray KQueue
begin

text \<open>
  The data of the kernel: one record per C structure and one record \<open>kernel\<close> of the global
  variables of \<^verbatim>\<open>thread.c\<close>, \<^verbatim>\<open>scheduler.c\<close>, \<^verbatim>\<open>hardclock.c\<close>, \<^verbatim>\<open>spl.c\<close>, \<^verbatim>\<open>interrupt.c\<close>, \<^verbatim>\<open>vm.c\<close>,
  \<^verbatim>\<open>ram.c\<close>, \<^verbatim>\<open>kheap.c\<close> and of the TLB.

  Addresses are 32-bit words and the null pointer is \<open>0\<close>. Structures that the kernel allocates
  with \<^verbatim>\<open>kmalloc\<close> live in typed stores, maps from their address to their contents: following a
  pointer that is not in the store has no defined result. Untyped memory (page contents, free
  lists, second-level page tables, the magic word at the bottom of a kernel stack) is \<open>kmem\<close>,
  the 32-bit words at the addresses that are multiples of four.
\<close>

type_synonym vaddr = "32 word"
type_synonym paddr = "32 word"

section \<open>Threads and processes\<close>

text \<open>
  Where a thread that is off the processor continues. On the machine this is the saved stack;
  here it is the one call of \<^verbatim>\<open>mi_switch\<close> the thread is in, with the local variables of the
  routines between there and the caller. \<open>Running\<close> is a thread that executes outside these
  routines. The saved interrupt level of each routine is its \<open>int\<close>.

  \<^item> \<open>Start\<close>: set up by \<^verbatim>\<open>md_initpcb\<close>, continues in \<^verbatim>\<open>mi_threadstart\<close>.
  \<^item> \<open>In_yield\<close>: in \<^verbatim>\<open>thread_yield\<close>; called from \<^verbatim>\<open>hardclock\<close> in an interrupt when it carries the
    saved \<^verbatim>\<open>in_interrupt\<close> of \<^verbatim>\<open>mips_interrupt\<close> and the saved level of \<^verbatim>\<open>mips_trap\<close>.
  \<^item> \<open>In_P\<close>, \<open>In_lock_acquire\<close>, \<open>In_cv_wait\<close>, \<open>In_clocksleep\<close>: asleep in these routines;
    \<^verbatim>\<open>lock_acquire\<close> carries the level of \<^verbatim>\<open>cv_wait\<close> when that is its caller.
  \<^item> \<open>In_exit\<close>: in the last \<^verbatim>\<open>mi_switch\<close> of \<^verbatim>\<open>thread_exit\<close>.
\<close>

datatype kcont =
    Running
  | Start vaddr "32 word" vaddr
  | In_yield int "(int \<times> int) option"
  | In_P vaddr int
  | In_lock_acquire vaddr int "int option"
  | In_cv_wait vaddr vaddr int
  | In_clocksleep int int
  | In_exit

record pcb =
  pcb_kstack :: "32 word"
  pcb_ininterrupt :: int
  pcb_badfaultfunc :: vaddr
  pcb_cont :: kcont

record thread =
  t_pcb :: pcb
  t_name :: string
  t_sleepaddr :: vaddr
  t_stack :: vaddr
  t_vmspace :: vaddr
  t_cwd :: vaddr
  t_pid :: int
  t_v :: vaddr
  t_offset :: int

record process_info =
  pi_pid :: int
  pi_status :: int
  pi_exitCode :: int
  pi_numOfChild :: int
  pi_childIDs :: "int list"
  pi_has_been_waited :: int

section \<open>Synchronization\<close>

record semaphore =
  sem_name :: string
  sem_count :: int

record klock =
  lk_name :: string
  lk_held :: int
  lk_heldThread :: vaddr

record kcv =
  cv_name :: string

section \<open>Vnodes\<close>

record vnode =
  vn_refcount :: int
  vn_opencount :: int
  vn_countlock :: vaddr
  vn_fs :: vaddr
  vn_data :: vaddr
  vn_ops :: vaddr

section \<open>Virtual memory\<close>

record cm_entry =
  cm_pa :: paddr
  cm_state :: int
  cm_follower :: int
  cm_york :: char
  cm_thread_as :: vaddr

record addrspace =
  as_vbase1 :: vaddr
  as_pbase1 :: paddr
  as_npages1 :: "32 word"
  as_offset1 :: int
  is_executable1 :: int
  as_filesize1 :: "32 word"
  as_vbase2 :: vaddr
  as_pbase2 :: paddr
  as_npages2 :: "32 word"
  as_offset2 :: int
  is_executable2 :: int
  as_filesize2 :: "32 word"
  as_stackpbase :: paddr
  as_stackvbase :: vaddr
  as_vbase3 :: vaddr
  as_vtop3 :: vaddr
  as_pbase3 :: paddr
  as_npages3 :: "32 word"
  PT1 :: "vaddr list"
  as_v :: vaddr

text \<open>A pointer to a \<^verbatim>\<open>struct pageref\<close> is an index into the static table, or null.\<close>

record pageref =
  next_samesize :: "nat option"
  next_all :: "nat option"
  pageaddr_and_blocktype :: vaddr
  freelist_offset :: int
  nfree :: int

section \<open>The global variables\<close>

text \<open>The field \<open>lbolt\<close> is the address of the variable, on which threads sleep.\<close>

record kernel =
  curspl :: int
  in_interrupt :: int
  curkstack :: "32 word"
  tlb :: "(32 word \<times> 32 word) list"
  kmem :: "vaddr \<Rightarrow> 32 word"
  firstpaddr :: paddr
  lastpaddr :: paddr
  boott :: int
  coremap :: "cm_entry list"
  coremapsize :: int
  pagerefs :: "pageref list"
  pagerefs_inuse :: "32 word list"
  sizebases :: "nat option list"
  allbase :: "nat option"
  addrspaces :: "vaddr \<rightharpoonup> addrspace"
  vnodes :: "vaddr \<rightharpoonup> vnode"
  curthread :: vaddr
  threads :: "vaddr \<rightharpoonup> thread"
  process_table :: "process_info list"
  sleepers :: "vaddr karray option"
  zombies :: "vaddr karray option"
  numthreads :: int
  runqueue :: "vaddr kqueue option"
  lbolt :: vaddr
  lbolt_counter :: int
  sems :: "vaddr \<rightharpoonup> semaphore"
  locks :: "vaddr \<rightharpoonup> klock"
  cvs :: "vaddr \<rightharpoonup> kcv"

type_synonym 'a kresult = "('a, kernel) result"

text \<open>The variables as they are when the kernel image is loaded; examples start from here.\<close>

definition kernel0 :: kernel where
  "kernel0 =
     \<lparr>curspl = 15, in_interrupt = 0, curkstack = 0, tlb = replicate 64 (0, 0), kmem = (\<lambda>_. 0),
      firstpaddr = 0, lastpaddr = 0, boott = 0, coremap = [], coremapsize = 0,
      pagerefs = replicate 256 \<lparr>next_samesize = None, next_all = None,
         pageaddr_and_blocktype = 0, freelist_offset = 0, nfree = 0\<rparr>,
      pagerefs_inuse = replicate 8 0, sizebases = replicate 8 None, allbase = None,
      addrspaces = Map.empty, vnodes = Map.empty, curthread = 0, threads = Map.empty,
      process_table = [], sleepers = None, zombies = None, numthreads = 0, runqueue = None,
      lbolt = 0x80020000, lbolt_counter = 0, sems = Map.empty, locks = Map.empty, cvs = Map.empty\<rparr>"

definition thread0 :: thread where
  "thread0 =
     \<lparr>t_pcb = \<lparr>pcb_kstack = 0, pcb_ininterrupt = 0, pcb_badfaultfunc = 0, pcb_cont = Running\<rparr>,
      t_name = ''<boot/menu>'', t_sleepaddr = 0, t_stack = 0, t_vmspace = 0, t_cwd = 0, t_pid = 1,
      t_v = 0, t_offset = 0\<rparr>"

section \<open>Access through pointers\<close>

text \<open>The entry of a thread or process that the code updates in place.\<close>

definition set_thread :: "vaddr \<Rightarrow> (thread \<Rightarrow> thread) \<Rightarrow> kernel \<Rightarrow> unit kresult" where
  "set_thread t f k = deref (threads k t) (\<lambda>th. Ret () (k\<lparr>threads := (threads k)(t \<mapsto> f th)\<rparr>))"

section \<open>Interrupt level, \<^verbatim>\<open>spl.c\<close>\<close>

definition SPL_HIGH :: int where
  "SPL_HIGH = 15"

definition splx :: "int \<Rightarrow> kernel \<Rightarrow> kernel" where
  "splx newspl k = k\<lparr>curspl := newspl\<rparr>"

definition splhigh :: "kernel \<Rightarrow> kernel" where
  "splhigh k = splx SPL_HIGH k"

definition spl0 :: "kernel \<Rightarrow> kernel" where
  "spl0 k = splx 0 k"

lemmas spl_defs = splx_def splhigh_def spl0_def SPL_HIGH_def

section \<open>TLB\<close>

definition NUM_TLB :: nat where
  "NUM_TLB = 64"

definition TLBHI_INVALID :: "nat \<Rightarrow> 32 word" where
  "TLBHI_INVALID entryno = (0x80000 + of_nat entryno) * 4096"

definition TLB_Write :: "32 word \<Rightarrow> 32 word \<Rightarrow> nat \<Rightarrow> kernel \<Rightarrow> kernel" where
  "TLB_Write ehi elo i k = k\<lparr>tlb := (tlb k)[i := (ehi, elo)]\<rparr>"

primrec tlb_invalidate :: "nat \<Rightarrow> kernel \<Rightarrow> kernel" where
  "tlb_invalidate 0 k = k"
| "tlb_invalidate (Suc i) k = TLB_Write (TLBHI_INVALID i) 0 i (tlb_invalidate i k)"

text \<open>\<^verbatim>\<open>as_activate\<close> ignores its argument and empties the TLB.\<close>

definition as_activate :: "vaddr \<Rightarrow> kernel \<Rightarrow> kernel" where
  "as_activate as k = (let spl = curspl k in splx spl (tlb_invalidate NUM_TLB (splhigh k)))"

lemma tlb_invalidate_eq:
  "i \<le> length (tlb k) \<Longrightarrow>
     tlb_invalidate i k = k\<lparr>tlb := map (\<lambda>j. (TLBHI_INVALID j, 0)) [0..<i] @ drop i (tlb k)\<rparr>"
proof (induction i)
  case 0
  then show ?case by simp
next
  case (Suc i)
  then have "drop i (tlb k) = tlb k ! i # drop (Suc i) (tlb k)" by (simp add: Cons_nth_drop_Suc)
  with Suc show ?case by (simp add: TLB_Write_def list_update_append)
qed

lemma as_activate_eq:
  "length (tlb k) = NUM_TLB \<Longrightarrow>
     as_activate as k = k\<lparr>tlb := map (\<lambda>j. (TLBHI_INVALID j, 0)) [0..<NUM_TLB]\<rparr>"
  by (simp add: as_activate_def tlb_invalidate_eq spl_defs Let_def)

lemma tlb_invalidate_frame: "\<exists>t. tlb_invalidate i k = k\<lparr>tlb := t\<rparr>"
proof (induction i)
  case 0
  show ?case by (auto intro: exI [of _ "tlb k"])
next
  case (Suc i)
  then show ?case by (auto simp: TLB_Write_def)
qed

lemma as_activate_frame: "\<exists>t. as_activate as k = k\<lparr>tlb := t\<rparr>"
  using tlb_invalidate_frame [of NUM_TLB "splhigh k"]
  by (auto simp: as_activate_def Let_def spl_defs)

end
