(* ===== verification/KSched.thy ===== *)
theory KSched
  imports Kern_State
begin

text \<open>
  The scheduler, \<^verbatim>\<open>kern/thread/scheduler.c\<close>, and the routines of \<^verbatim>\<open>kern/thread/thread.c\<close> that move
  threads between the sleepers and the run queue. \<open>km\<close> is the allocator that \<^verbatim>\<open>array_add\<close> and
  \<^verbatim>\<open>q_addtail\<close> call when they grow; it may refuse.
\<close>

section \<open>Scheduler\<close>

definition put_runqueue :: "kernel \<Rightarrow> vaddr kqueue \<Rightarrow> kernel" where
  "put_runqueue k q = k\<lparr>runqueue := Some q\<rparr>"

definition scheduler_bootstrap :: "bool \<Rightarrow> vaddr allocator \<Rightarrow> kernel \<Rightarrow> unit kresult" where
  "scheduler_bootstrap struct_granted km k =
     (case q_create struct_granted km 32 of
        None \<Rightarrow> Panic
      | Some q \<Rightarrow> Ret () (put_runqueue k q))"

definition scheduler_preallocate :: "vaddr allocator \<Rightarrow> int \<Rightarrow> kernel \<Rightarrow> unit kresult" where
  "scheduler_preallocate km nthreads k =
     (if \<not> curspl k > 0 then Panic
      else deref (runqueue k) (\<lambda>q. in_part (put_runqueue k) (q_preallocate km q nthreads)))"

definition make_runnable :: "vaddr allocator \<Rightarrow> vaddr \<Rightarrow> kernel \<Rightarrow> unit kresult" where
  "make_runnable km t k =
     (if \<not> curspl k > 0 then Panic
      else deref (runqueue k) (\<lambda>q. in_part (put_runqueue k) (q_addtail km q t)))"

text \<open>
  The loop of \<^verbatim>\<open>scheduler_killall\<close>; printing the name follows the thread pointer. The fuel is the
  size of the buffer, which bounds the number of queued threads.
\<close>

primrec killall_loop :: "nat \<Rightarrow> kernel \<Rightarrow> unit kresult" where
  "killall_loop 0 k = deref (runqueue k) (\<lambda>q. if q_empty q then Ret () k else Undef)"
| "killall_loop (Suc fuel) k =
     deref (runqueue k) (\<lambda>q.
       if q_empty q then Ret () k
       else kbind (in_part (put_runqueue k) (q_remhead q)) (\<lambda>t k.
              deref (threads k t) (\<lambda>_. killall_loop fuel k)))"

definition scheduler_killall :: "kernel \<Rightarrow> unit kresult" where
  "scheduler_killall k =
     (if \<not> curspl k > 0 then Panic
      else deref (runqueue k) (\<lambda>q. killall_loop (nat (q_size q)) k))"

definition scheduler_shutdown :: "kernel \<Rightarrow> unit kresult" where
  "scheduler_shutdown k =
     kbind (scheduler_killall k) (\<lambda>_ k.
       if \<not> curspl k > 0 then Panic
       else deref (runqueue k) (\<lambda>q. in_part (\<lambda>_. k\<lparr>runqueue := None\<rparr>) (q_destroy q)))"

section \<open>Sleepers\<close>

definition sleepers_getnum :: "kernel \<Rightarrow> int" where
  "sleepers_getnum k = (case sleepers k of None \<Rightarrow> 0 | Some a \<Rightarrow> array_getnum a)"

definition sleepers_getguy :: "kernel \<Rightarrow> int \<Rightarrow> vaddr kresult" where
  "sleepers_getguy k i = deref (sleepers k) (\<lambda>a. in_part (\<lambda>a. k\<lparr>sleepers := Some a\<rparr>) (array_getguy a i))"

definition sleepers_remove :: "kernel \<Rightarrow> int \<Rightarrow> unit kresult" where
  "sleepers_remove k i = deref (sleepers k) (\<lambda>a. in_part (\<lambda>a. k\<lparr>sleepers := Some a\<rparr>) (array_remove a i))"

definition sleeps_on :: "vaddr \<Rightarrow> vaddr \<Rightarrow> kernel \<Rightarrow> bool kresult" where
  "sleeps_on addr t k = deref (threads k t) (\<lambda>th. Ret (t_sleepaddr th = addr) k)"

definition thread_wakeup :: "vaddr allocator \<Rightarrow> vaddr \<Rightarrow> kernel \<Rightarrow> unit kresult" where
  "thread_wakeup km addr k =
     (if \<not> curspl k > 0 then Panic
      else deref (sleepers k) (\<lambda>a.
        sweep (nat (array_getnum a)) sleepers_getnum sleepers_getguy sleepers_remove (sleeps_on addr)
          (\<lambda>t k. must_succeed (make_runnable km t k)) 0 k))"

text \<open>\<^verbatim>\<open>thread_wakeupOne\<close> leaves the loop after the first thread it finds.\<close>

primrec wakeup_first :: "vaddr allocator \<Rightarrow> vaddr \<Rightarrow> nat \<Rightarrow> int \<Rightarrow> kernel \<Rightarrow> unit kresult" where
  "wakeup_first km addr 0 i k = (if i < sleepers_getnum k then Undef else Ret () k)"
| "wakeup_first km addr (Suc fuel) i k =
     (if \<not> i < sleepers_getnum k then Ret () k
      else kbind (sleepers_getguy k i) (\<lambda>t k. kbind (sleeps_on addr t k) (\<lambda>hit k.
        if hit
        then kbind (sleepers_remove k i) (\<lambda>_ k. must_succeed (make_runnable km t k))
        else wakeup_first km addr fuel (i + 1) k)))"

definition thread_wakeupOne :: "vaddr allocator \<Rightarrow> vaddr \<Rightarrow> kernel \<Rightarrow> unit kresult" where
  "thread_wakeupOne km addr k =
     (if \<not> curspl k > 0 then Panic
      else deref (sleepers k) (\<lambda>a. wakeup_first km addr (nat (array_getnum a)) 0 k))"

primrec hassleepers_loop :: "vaddr \<Rightarrow> nat \<Rightarrow> int \<Rightarrow> kernel \<Rightarrow> int kresult" where
  "hassleepers_loop addr 0 i k = (if i < sleepers_getnum k then Undef else Ret 0 k)"
| "hassleepers_loop addr (Suc fuel) i k =
     (if \<not> i < sleepers_getnum k then Ret 0 k
      else kbind (sleepers_getguy k i) (\<lambda>t k. kbind (sleeps_on addr t k) (\<lambda>hit k.
        if hit then Ret 1 k else hassleepers_loop addr fuel (i + 1) k)))"

definition thread_hassleepers :: "vaddr \<Rightarrow> kernel \<Rightarrow> int kresult" where
  "thread_hassleepers addr k =
     (if \<not> curspl k > 0 then Panic
      else deref (sleepers k) (\<lambda>a. hassleepers_loop addr (nat (array_getnum a)) 0 k))"

section \<open>Lists behind the data structures\<close>

definition ready :: "kernel \<Rightarrow> vaddr list" where
  "ready k = (case runqueue k of None \<Rightarrow> [] | Some q \<Rightarrow> q_list q)"

definition asleep :: "kernel \<Rightarrow> vaddr list" where
  "asleep k = (case sleepers k of None \<Rightarrow> [] | Some a \<Rightarrow> array_list a)"

definition dead :: "kernel \<Rightarrow> vaddr list" where
  "dead k = (case zombies k of None \<Rightarrow> [] | Some a \<Rightarrow> array_list a)"

definition run_room :: "kernel \<Rightarrow> nat" where
  "run_room k = (case runqueue k of None \<Rightarrow> 0 | Some q \<Rightarrow> q_room q)"

text \<open>
  The run queue and the sleepers exist and are well formed. The bounds are far above what the
  process table, which has room for 99 processes in the life of the kernel, lets it reach: the
  buffer of the run queue doubles only when it is full, so with at most \<open>max_ready\<close> threads it
  stays below four times that.
\<close>

definition max_ready :: nat where
  "max_ready = 256"

definition runq_inv :: "kernel \<Rightarrow> bool" where
  "runq_inv k \<longleftrightarrow> (case runqueue k of None \<Rightarrow> False | Some q \<Rightarrow> queue_inv q \<and> q_size q \<le> 1024)"

definition lists_inv :: "kernel \<Rightarrow> bool" where
  "lists_inv k \<longleftrightarrow> runq_inv k \<and> (case sleepers k of None \<Rightarrow> False | Some a \<Rightarrow> array_inv a)"

text \<open>Everything but the two lists.\<close>

definition besides :: "kernel \<Rightarrow> kernel" where
  "besides k = k\<lparr>sleepers := None, runqueue := None\<rparr>"

lemma besides_select:
  "curspl (besides k) = curspl k"
  "in_interrupt (besides k) = in_interrupt k"
  "curkstack (besides k) = curkstack k"
  "tlb (besides k) = tlb k"
  "kmem (besides k) = kmem k"
  "coremap (besides k) = coremap k"
  "coremapsize (besides k) = coremapsize k"
  "boott (besides k) = boott k"
  "addrspaces (besides k) = addrspaces k"
  "vnodes (besides k) = vnodes k"
  "curthread (besides k) = curthread k"
  "threads (besides k) = threads k"
  "process_table (besides k) = process_table k"
  "zombies (besides k) = zombies k"
  "numthreads (besides k) = numthreads k"
  "lbolt (besides k) = lbolt k"
  "lbolt_counter (besides k) = lbolt_counter k"
  "sems (besides k) = sems k"
  "locks (besides k) = locks k"
  "cvs (besides k) = cvs k"
  by (simp_all add: besides_def)

lemma besides_cong: "besides k' = besides k \<Longrightarrow> f (besides k') = f (besides k)"
  by simp

lemmas besidesD =
  besides_cong [of _ _ curspl, unfolded besides_select]
  besides_cong [of _ _ in_interrupt, unfolded besides_select]
  besides_cong [of _ _ curkstack, unfolded besides_select]
  besides_cong [of _ _ tlb, unfolded besides_select]
  besides_cong [of _ _ kmem, unfolded besides_select]
  besides_cong [of _ _ coremap, unfolded besides_select]
  besides_cong [of _ _ coremapsize, unfolded besides_select]
  besides_cong [of _ _ boott, unfolded besides_select]
  besides_cong [of _ _ addrspaces, unfolded besides_select]
  besides_cong [of _ _ vnodes, unfolded besides_select]
  besides_cong [of _ _ curthread, unfolded besides_select]
  besides_cong [of _ _ threads, unfolded besides_select]
  besides_cong [of _ _ process_table, unfolded besides_select]
  besides_cong [of _ _ zombies, unfolded besides_select]
  besides_cong [of _ _ numthreads, unfolded besides_select]
  besides_cong [of _ _ lbolt, unfolded besides_select]
  besides_cong [of _ _ lbolt_counter, unfolded besides_select]
  besides_cong [of _ _ sems, unfolded besides_select]
  besides_cong [of _ _ locks, unfolded besides_select]
  besides_cong [of _ _ cvs, unfolded besides_select]

lemma besides_update [simp]:
  "besides (k\<lparr>runqueue := q\<rparr>) = besides k" "besides (k\<lparr>sleepers := a\<rparr>) = besides k"
  by (simp_all add: besides_def)

section \<open>Run queue: correctness\<close>

lemma make_runnable_cases:
  assumes inv: "runq_inv k" and spl: "curspl k > 0" and km: "allocator_ok km" and n: "length (ready k) < max_ready"
  shows "make_runnable km t k = Err ENOMEM k \<and> run_room k = 0 \<or>
    (\<exists>q. make_runnable km t k = Ret () (k\<lparr>runqueue := Some q\<rparr>) \<and> runq_inv (k\<lparr>runqueue := Some q\<rparr>) \<and>
       q_list q = ready k @ [t] \<and> run_room k \<le> Suc (q_room q))"
proof -
  from inv obtain q where q: "runqueue k = Some q" "queue_inv q" "q_size q \<le> 1024"
    by (auto simp: runq_inv_def split: option.splits)
  have lim: "q_size q < queue_limit" using q(3) by (simp add: queue_limit_def)
  from q_addtail_outcome [OF q(2) km lim, of t] show ?thesis
  proof (cases rule: outcome_cases)
    case (Ret u q')
    have "q_size q' \<le> 1024"
    proof (cases "q_full q")
      case True
      with q_full_iff [OF q(2)] n q(1) have "q_size q \<le> 256" by (simp add: ready_def max_ready_def)
      with Ret True show ?thesis by simp
    qed (use Ret q in auto)
    moreover have "q_room q \<le> Suc (q_room q')"
      using Ret by (auto simp: q_room_def)
    moreover have "make_runnable km t k = Ret () (k\<lparr>runqueue := Some q'\<rparr>)"
      using Ret(1) q(1) spl by (simp add: make_runnable_def put_runqueue_def)
    moreover have "ready k = q_list q" "run_room k = q_room q"
      using q(1) by (simp_all add: ready_def run_room_def)
    ultimately show ?thesis
      using Ret(2) by (intro disjI2 exI [of _ q']) (simp add: runq_inv_def)
  next
    case (Err e q')
    have "k\<lparr>runqueue := Some q\<rparr> = k" using q(1) by simp
    with Err q spl have "make_runnable km t k = Err ENOMEM k"
      by (simp add: make_runnable_def put_runqueue_def)
    moreover have "run_room k = 0" using q Err q_room_pos [OF q(2)] by (simp add: run_room_def)
    ultimately show ?thesis by simp
  qed
qed

section \<open>Waking threads: correctness\<close>

definition wake_inv :: "kernel \<Rightarrow> bool" where
  "wake_inv k \<longleftrightarrow> lists_inv k \<and> curspl k > 0"

lemma lists_invD:
  assumes "lists_inv k"
  obtains a where "sleepers k = Some a" "array_inv a" "runq_inv k"
  using assms by (auto simp: lists_inv_def split: option.splits)

lemma lists_inv_runqueue:
  "lists_inv k \<Longrightarrow> runq_inv (k\<lparr>runqueue := q\<rparr>) \<Longrightarrow> lists_inv (k\<lparr>runqueue := q\<rparr>)"
  by (simp add: lists_inv_def)

text \<open>The sleepers, as a part of the kernel, are an array in the sense of the contract.\<close>

interpretation napping: ptr_array wake_inv asleep besides sleepers_getnum sleepers_getguy sleepers_remove
proof
  fix k i assume "wake_inv k"
  then obtain a where a: "sleepers k = Some a" "array_inv a" "runq_inv k" "curspl k > 0"
    by (auto simp: wake_inv_def elim: lists_invD)
  show "sleepers_getnum k = int (length (asleep k))"
    using a by (simp add: sleepers_getnum_def asleep_def array_getnum_def length_array_list)
  assume "i < length (asleep k)"
  then have i: "i < length (array_list a)" using a by (simp add: asleep_def)
  have self: "k\<lparr>sleepers := Some a\<rparr> = k" using a by simp
  show "sleepers_getguy k (int i) = Ret (asleep k ! i) k"
    using a parray.getguy [OF a(2) i] self by (simp add: sleepers_getguy_def asleep_def)
  from parray.remove [OF a(2) i] obtain a' where "array_remove a (int i) = Ret () a'" "array_inv a'"
    "array_list a' = take i (array_list a) @ drop (Suc i) (array_list a)" by auto
  then show "\<exists>k'. sleepers_remove k (int i) = Ret () k' \<and> wake_inv k' \<and> besides k' = besides k \<and>
      asleep k' = take i (asleep k) @ drop (Suc i) (asleep k)"
    using a by (simp add: sleepers_remove_def wake_inv_def lists_inv_def runq_inv_def asleep_def)
qed

definition sleeping_on :: "vaddr \<Rightarrow> kernel \<Rightarrow> vaddr \<Rightarrow> bool" where
  "sleeping_on addr k t \<longleftrightarrow> (case threads k t of None \<Rightarrow> False | Some th \<Rightarrow> t_sleepaddr th = addr)"

lemma sleeping_on_besides [simp]: "sleeping_on addr (besides k) = sleeping_on addr k"
  by (simp add: sleeping_on_def besides_def fun_eq_iff)

lemma sleeps_on_Ret:
  "threads k t \<noteq> None \<Longrightarrow> sleeps_on addr t k = Ret (sleeping_on addr k t) k"
  by (auto simp: sleeps_on_def sleeping_on_def)

definition known :: "kernel \<Rightarrow> vaddr \<Rightarrow> bool" where
  "known k t \<longleftrightarrow> threads k t \<noteq> None"

lemma known_besides [simp]: "known (besides k) = known k"
  by (simp add: known_def besides_def fun_eq_iff)

lemma sleepers_remove_frame:
  "sleepers_remove k i = Ret () k' \<Longrightarrow> ready k' = ready k \<and> run_room k' = run_room k"
  by (auto simp: sleepers_remove_def deref_def in_part_eq_Ret ready_def run_room_def split: option.splits)

lemma runnable_act:
  assumes km: "allocator_ok km" and inv: "wake_inv k" and n: "length (asleep k) < max_ready - length (ready k)"
  shows "must_succeed (make_runnable km t k) = Panic \<and> run_room k = 0 \<or>
    (\<exists>k'. must_succeed (make_runnable km t k) = Ret () k' \<and> wake_inv k' \<and> asleep k' = asleep k \<and>
       ready k' = ready k @ [t] \<and> besides k' = besides k \<and>
       max_ready - length (ready k) \<le> Suc (max_ready - length (ready k')) \<and>
       run_room k \<le> Suc (run_room k'))"
proof -
  from inv have i: "lists_inv k" "runq_inv k" "curspl k > 0" by (auto simp: wake_inv_def lists_inv_def)
  have "length (ready k) < max_ready" using n by linarith
  from make_runnable_cases [OF i(2,3) km this, of t] show ?thesis
  proof (elim disjE exE conjE)
    fix q assume q: "make_runnable km t k = Ret () (k\<lparr>runqueue := Some q\<rparr>)"
      "runq_inv (k\<lparr>runqueue := Some q\<rparr>)" "q_list q = ready k @ [t]" "run_room k \<le> Suc (q_room q)"
    have "wake_inv (k\<lparr>runqueue := Some q\<rparr>)"
      using i q lists_inv_runqueue by (simp add: wake_inv_def)
    with q show ?thesis
      by (intro disjI2 exI [of _ "k\<lparr>runqueue := Some q\<rparr>"]) (simp add: asleep_def ready_def run_room_def)
  qed simp
qed

lemma thread_wakeup_cases:
  assumes inv: "lists_inv k" and spl: "curspl k > 0" and km: "allocator_ok km"
    and n: "length (asleep k) + length (ready k) \<le> max_ready" and known: "\<forall>t \<in> set (asleep k). known k t"
  shows "thread_wakeup km addr k = Panic \<and> run_room k < length (filter (sleeping_on addr k) (asleep k)) \<or>
    (\<exists>k'. thread_wakeup km addr k = Ret () k' \<and> lists_inv k' \<and> besides k' = besides k \<and>
       asleep k' = filter (\<lambda>t. \<not> sleeping_on addr k t) (asleep k) \<and>
       ready k' = ready k @ filter (sleeping_on addr k) (asleep k))"
proof -
  from inv obtain a where a: "sleepers k = Some a" "array_inv a" by (elim lists_invD)
  let ?act = "\<lambda>t k. must_succeed (make_runnable km t k)"
  let ?sweep = "sweep (nat (array_getnum a)) sleepers_getnum sleepers_getguy sleepers_remove (sleeps_on addr) ?act (int 0) k"
  have "?sweep = Panic \<and> run_room k < length (filter (sleeping_on addr (besides k)) (drop 0 (asleep k))) \<or>
      (\<exists>k'. ?sweep = Ret () k' \<and> wake_inv k' \<and>
        asleep k' = take 0 (asleep k) @ filter (\<lambda>p. \<not> sleeping_on addr (besides k) p) (drop 0 (asleep k)) \<and>
        ready k' = ready k @ filter (sleeping_on addr (besides k)) (drop 0 (asleep k)) \<and>
        besides k' = besides k)"
  proof (rule napping.sweep_all [where good = known and cap = "\<lambda>k. max_ready - length (ready k)" and room = run_room])
    show "wake_inv k" using inv spl by (simp add: wake_inv_def)
    show "sleeps_on addr p s = Ret (sleeping_on addr (besides s) p) s" if "known (besides s) p" for p s
      using that by (simp add: sleeps_on_Ret known_def)
    show "must_succeed (make_runnable km p s) = Panic \<and> run_room s = 0 \<or>
        (\<exists>s'. must_succeed (make_runnable km p s) = Ret () s' \<and> wake_inv s' \<and> asleep s' = asleep s \<and>
          ready s' = ready s @ [p] \<and> besides s' = besides s \<and>
          max_ready - length (ready s) \<le> Suc (max_ready - length (ready s')) \<and> run_room s \<le> Suc (run_room s'))"
      if "wake_inv s" "length (asleep s) < max_ready - length (ready s)" for p s
      by (rule runnable_act [OF km that])
    show "ready s' = ready s \<and> max_ready - length (ready s') = max_ready - length (ready s) \<and> run_room s' = run_room s"
      if "sleepers_remove s (int i) = Ret () s'" for s s' i
      using sleepers_remove_frame [OF that] by simp
  qed (use n known a length_array_list [OF a(2)] in \<open>auto simp: asleep_def array_getnum_def\<close>)
  then show ?thesis
    using spl a by (auto simp: thread_wakeup_def wake_inv_def)
qed

lemma wakeup_first_cases:
  assumes km: "allocator_ok km"
  shows "wake_inv k \<Longrightarrow> i \<le> length (asleep k) \<Longrightarrow> length (asleep k) - i \<le> fuel \<Longrightarrow>
    length (asleep k) + length (ready k) \<le> max_ready \<Longrightarrow> \<forall>t \<in> set (asleep k). known k t \<Longrightarrow>
    (case first_index (sleeping_on addr k) (drop i (asleep k)) of
       None \<Rightarrow> wakeup_first km addr fuel (int i) k = Ret () k
     | Some j \<Rightarrow>
         wakeup_first km addr fuel (int i) k = Panic \<and> run_room k = 0 \<or>
         (\<exists>k'. wakeup_first km addr fuel (int i) k = Ret () k' \<and> lists_inv k' \<and> besides k' = besides k \<and>
            asleep k' = take (i + j) (asleep k) @ drop (Suc (i + j)) (asleep k) \<and>
            ready k' = ready k @ [asleep k ! (i + j)]))"
proof (induction fuel arbitrary: i)
  case 0
  then show ?case by (simp add: napping.getnum)
next
  case (Suc fuel)
  show ?case
  proof (cases "i < length (asleep k)")
    case False
    with Suc.prems show ?thesis by (simp add: napping.getnum)
  next
    case True
    let ?t = "asleep k ! i"
    have split: "drop i (asleep k) = ?t # drop (Suc i) (asleep k)" using True by (simp add: Cons_nth_drop_Suc)
    have t: "sleeps_on addr ?t k = Ret (sleeping_on addr k ?t) k"
      using Suc.prems True by (intro sleeps_on_Ret) (simp add: known_def)
    show ?thesis
    proof (cases "sleeping_on addr k ?t")
      case False
      then have step: "wakeup_first km addr (Suc fuel) (int i) k = wakeup_first km addr fuel (int (Suc i)) k"
        using True t Suc.prems by (simp add: napping.getnum napping.getguy add.commute)
      have bounds: "Suc i \<le> length (asleep k)" "length (asleep k) - Suc i \<le> fuel"
        using True Suc.prems(3) by simp_all
      note ih = Suc.IH [OF Suc.prems(1) bounds Suc.prems(4,5)]
      show ?thesis
        unfolding step split
        by (cases "first_index (sleeping_on addr k) (drop (Suc i) (asleep k))") (use ih False in auto)
    next
      case hit: True
      from napping.remove [OF Suc.prems(1) True] obtain k3 where k3: "sleepers_remove k (int i) = Ret () k3"
        "wake_inv k3" "besides k3 = besides k" "asleep k3 = take i (asleep k) @ drop (Suc i) (asleep k)" by blast
      note keep = sleepers_remove_frame [OF k3(1)]
      have step: "wakeup_first km addr (Suc fuel) (int i) k = must_succeed (make_runnable km ?t k3)"
        using True t hit k3(1) Suc.prems by (simp add: napping.getnum napping.getguy)
      have "length (asleep k3) < max_ready - length (ready k3)"
        using k3(4) keep Suc.prems(4) True by simp
      from runnable_act [OF km k3(2) this, of ?t] show ?thesis
        using step keep hit k3(3,4) by (auto simp: split wake_inv_def)
    qed
  qed
qed

lemma thread_wakeupOne_cases:
  assumes inv: "lists_inv k" and spl: "curspl k > 0" and km: "allocator_ok km"
    and n: "length (asleep k) + length (ready k) \<le> max_ready" and known: "\<forall>t \<in> set (asleep k). known k t"
  shows "case first_index (sleeping_on addr k) (asleep k) of
       None \<Rightarrow> thread_wakeupOne km addr k = Ret () k
     | Some j \<Rightarrow>
         thread_wakeupOne km addr k = Panic \<and> run_room k = 0 \<or>
         (\<exists>k'. thread_wakeupOne km addr k = Ret () k' \<and> lists_inv k' \<and> besides k' = besides k \<and>
            asleep k' = take j (asleep k) @ drop (Suc j) (asleep k) \<and> ready k' = ready k @ [asleep k ! j])"
proof -
  from inv obtain a where a: "sleepers k = Some a" "array_inv a" by (elim lists_invD)
  then have "length (asleep k) - 0 \<le> nat (array_getnum a)"
    using length_array_list [OF a(2)] by (simp add: asleep_def array_getnum_def)
  with wakeup_first_cases [OF km, of k 0 "nat (array_getnum a)" addr] inv spl n known a
  show ?thesis
    by (cases "first_index (sleeping_on addr k) (asleep k)") (simp_all add: thread_wakeupOne_def wake_inv_def)
qed

lemma hassleepers_loop_Ret:
  "wake_inv k \<Longrightarrow> i \<le> length (asleep k) \<Longrightarrow> length (asleep k) - i \<le> fuel \<Longrightarrow>
    \<forall>t \<in> set (asleep k). known k t \<Longrightarrow>
    hassleepers_loop addr fuel (int i) k =
      Ret (if list_ex (sleeping_on addr k) (drop i (asleep k)) then 1 else 0) k"
proof (induction fuel arbitrary: i)
  case 0
  then show ?case by (simp add: napping.getnum)
next
  case (Suc fuel)
  show ?case
  proof (cases "i < length (asleep k)")
    case False
    with Suc.prems show ?thesis by (simp add: napping.getnum)
  next
    case True
    let ?t = "asleep k ! i"
    have split: "drop i (asleep k) = ?t # drop (Suc i) (asleep k)" using True by (simp add: Cons_nth_drop_Suc)
    have t: "sleeps_on addr ?t k = Ret (sleeping_on addr k ?t) k"
      using Suc.prems True by (intro sleeps_on_Ret) (simp add: known_def)
    have "hassleepers_loop addr fuel (int i + 1) k =
        Ret (if list_ex (sleeping_on addr k) (drop (Suc i) (asleep k)) then 1 else 0) k"
      using Suc.IH [of "Suc i"] Suc.prems True by (simp add: add.commute)
    with True t Suc.prems show ?thesis by (simp add: napping.getnum napping.getguy split)
  qed
qed

lemma thread_hassleepers_Ret:
  assumes inv: "lists_inv k" and spl: "curspl k > 0" and known: "\<forall>t \<in> set (asleep k). known k t"
  shows "thread_hassleepers addr k = Ret (if list_ex (sleeping_on addr k) (asleep k) then 1 else 0) k"
proof -
  from inv obtain a where a: "sleepers k = Some a" "array_inv a" by (elim lists_invD)
  then have "length (asleep k) - 0 \<le> nat (array_getnum a)"
    using length_array_list [OF a(2)] by (simp add: asleep_def array_getnum_def)
  with hassleepers_loop_Ret [of k 0 "nat (array_getnum a)" addr] inv spl known a
  show ?thesis by (simp add: thread_hassleepers_def wake_inv_def)
qed

end
