(* ===== verification/KCoremap.thy ===== *)
theory KCoremap
  imports Kern_State
begin

text \<open>
  Physical memory: the boot-time allocator of \<^verbatim>\<open>arch/mips/mips/ram.c\<close> and the page allocators of
  \<^verbatim>\<open>kern/vm/vm.c\<close> over the core map. The core map is an array in one stolen page; only its first
  \<^verbatim>\<open>coremapsize\<close> entries are initialised, and the list \<open>coremap\<close> of the model holds all entries
  that fit in the page, so that an access past \<^verbatim>\<open>coremapsize\<close> reads what the page happens to
  contain and an access past the page has no defined result.
\<close>

section \<open>Addresses\<close>

definition PAGE_SIZE :: "32 word" where
  "PAGE_SIZE = 4096"

definition PAGE_FRAME :: "32 word" where
  "PAGE_FRAME = 0xfffff000"

definition MIPS_KSEG0 :: "32 word" where
  "MIPS_KSEG0 = 0x80000000"

definition PADDR_TO_KVADDR :: "paddr \<Rightarrow> vaddr" where
  "PADDR_TO_KVADDR pa = pa + MIPS_KSEG0"

definition KVADDR_TO_PADDR :: "vaddr \<Rightarrow> paddr" where
  "KVADDR_TO_PADDR va = va - MIPS_KSEG0"

lemma KVADDR_PADDR [simp]: "KVADDR_TO_PADDR (PADDR_TO_KVADDR pa) = pa"
  by (simp add: KVADDR_TO_PADDR_def PADDR_TO_KVADDR_def)

lemma PADDR_KVADDR [simp]: "PADDR_TO_KVADDR (KVADDR_TO_PADDR va) = va"
  by (simp add: KVADDR_TO_PADDR_def PADDR_TO_KVADDR_def)

lemma PADDR_TO_KVADDR_inject [simp]: "PADDR_TO_KVADDR a = PADDR_TO_KVADDR b \<longleftrightarrow> a = b"
  by (simp add: PADDR_TO_KVADDR_def)

text \<open>\<^verbatim>\<open>for (k=0; k<4096; k++) temp[k] = 0;\<close> on the page at \<open>va\<close>.\<close>

definition zeroed :: "vaddr \<Rightarrow> (vaddr \<Rightarrow> 32 word) \<Rightarrow> vaddr \<Rightarrow> 32 word" where
  "zeroed va m = (\<lambda>a. if a - va < PAGE_SIZE then 0 else m a)"

definition zero_page :: "vaddr \<Rightarrow> kernel \<Rightarrow> kernel" where
  "zero_page va k = k\<lparr>kmem := zeroed va (kmem k)\<rparr>"

section \<open>Boot-time memory, \<^verbatim>\<open>ram.c\<close>\<close>

definition ram_bootstrap :: "32 word \<Rightarrow> vaddr \<Rightarrow> kernel \<Rightarrow> kernel" where
  "ram_bootstrap ramsize0 firstfree k =
     (let ramsize = (if ramsize0 > 508 * 1024 * 1024 then 508 * 1024 * 1024 else ramsize0)
      in k\<lparr>lastpaddr := ramsize, firstpaddr := firstfree - MIPS_KSEG0\<rparr>)"

definition ram_stealmem :: "32 word \<Rightarrow> kernel \<Rightarrow> paddr \<times> kernel" where
  "ram_stealmem npages k =
     (let sz = npages * PAGE_SIZE
      in if firstpaddr k + sz > lastpaddr k then (0, k)
         else (firstpaddr k, k\<lparr>firstpaddr := firstpaddr k + sz\<rparr>))"

definition coremap_ram_getsize :: "kernel \<Rightarrow> paddr \<times> paddr" where
  "coremap_ram_getsize k = (firstpaddr k, lastpaddr k)"

definition ram_getsize :: "kernel \<Rightarrow> (paddr \<times> paddr) \<times> kernel" where
  "ram_getsize k = ((firstpaddr k, lastpaddr k), k\<lparr>firstpaddr := 0, lastpaddr := 0\<rparr>)"

definition getppages :: "32 word \<Rightarrow> kernel \<Rightarrow> paddr \<times> kernel" where
  "getppages npages k =
     (let spl = curspl k;
          (addr, k1) = ram_stealmem npages (splhigh k)
      in (addr, splx spl k1))"

section \<open>Core map entries\<close>

definition cm_at :: "kernel \<Rightarrow> nat \<Rightarrow> cm_entry option" where
  "cm_at k i = (if i < length (coremap k) then Some (coremap k ! i) else None)"

definition cm_set :: "nat \<Rightarrow> (cm_entry \<Rightarrow> cm_entry) \<Rightarrow> kernel \<Rightarrow> unit kresult" where
  "cm_set i f k =
     deref (cm_at k i) (\<lambda>e. Ret () (k\<lparr>coremap := (coremap k)[i := f e]\<rparr>))"

definition cur_vmspace :: "kernel \<Rightarrow> vaddr option" where
  "cur_vmspace k = map_option t_vmspace (threads k (curthread k))"

section \<open>One page\<close>

text \<open>
  The scan of \<^verbatim>\<open>alloc_kpages(1)\<close> and \<^verbatim>\<open>pmalloc\<close>: the first entry from \<open>i\<close> on whose state is 0,
  looking at \<open>n\<close> entries.
\<close>

primrec cm_first_free :: "nat \<Rightarrow> nat \<Rightarrow> kernel \<Rightarrow> nat option kresult" where
  "cm_first_free 0 i k = Ret None k"
| "cm_first_free (Suc n) i k =
     deref (cm_at k i) (\<lambda>e. if cm_state e = 0 then Ret (Some i) k else cm_first_free n (Suc i) k)"

text \<open>
  The body that \<^verbatim>\<open>alloc_kpages(1)\<close> and \<^verbatim>\<open>pmalloc\<close> share, up to the owner mark (\<^verbatim>\<open>'k'\<close> or
  \<^verbatim>\<open>'u'\<close>): with interrupts off, take the first free entry, note the owner and the current
  address space, clear the page and return its kernel address.
\<close>

definition take_first_page :: "char \<Rightarrow> kernel \<Rightarrow> vaddr kresult" where
  "take_first_page york k =
     (let spl = curspl k
      in kbind (cm_first_free (nat (coremapsize k)) 0 (splhigh k)) (\<lambda>found k.
         case found of
           None \<Rightarrow> Ret 0 (splx spl k)
         | Some i \<Rightarrow>
             deref (cur_vmspace k) (\<lambda>as.
             kbind (cm_set i (\<lambda>e. e\<lparr>cm_state := 1, cm_york := york, cm_thread_as := as\<rparr>) k) (\<lambda>_ k.
             deref (cm_at k i) (\<lambda>e.
               Ret (PADDR_TO_KVADDR (cm_pa e))
                   (splx spl (zero_page (PADDR_TO_KVADDR (cm_pa e)) k)))))))"

definition alloc_kpages_one :: "kernel \<Rightarrow> vaddr kresult" where
  "alloc_kpages_one k = take_first_page CHR ''k'' k"

text \<open>The argument of \<^verbatim>\<open>pmalloc\<close> is not used: it always takes one page.\<close>

definition pmalloc :: "int \<Rightarrow> kernel \<Rightarrow> vaddr kresult" where
  "pmalloc npages k = take_first_page CHR ''u'' k"

section \<open>Several pages\<close>

text \<open>
  \<^verbatim>\<open>for (j=1; j<npages; j++) if (coremap[i+j].state == 1) not_enough_space = 1;\<close> for \<open>n\<close> values
  of \<open>j\<close>, reading the entries \<open>i\<close>, \<open>i+1\<close>, ... The index is not compared with \<^verbatim>\<open>coremapsize\<close>.
\<close>

primrec cm_run_free :: "nat \<Rightarrow> nat \<Rightarrow> kernel \<Rightarrow> bool kresult" where
  "cm_run_free 0 i k = Ret True k"
| "cm_run_free (Suc n) i k =
     deref (cm_at k i) (\<lambda>e.
       kbind (cm_run_free n (Suc i) k) (\<lambda>ok k. Ret (cm_state e \<noteq> 1 \<and> ok) k))"

primrec cm_first_run :: "nat \<Rightarrow> nat \<Rightarrow> nat \<Rightarrow> kernel \<Rightarrow> nat option kresult" where
  "cm_first_run npages 0 i k = Ret None k"
| "cm_first_run npages (Suc n) i k =
     deref (cm_at k i) (\<lambda>e.
       if cm_state e = 0
       then kbind (cm_run_free (npages - 1) (Suc i) k) (\<lambda>ok k.
              if ok then Ret (Some i) k else cm_first_run npages n (Suc i) k)
       else cm_first_run npages n (Suc i) k)"

text \<open>
  The marking loop: entry \<open>i+k\<close> becomes occupied and its page is cleared; the owner is stored in
  entry \<open>i\<close> each time.
\<close>

primrec cm_mark_run :: "vaddr \<Rightarrow> nat \<Rightarrow> nat \<Rightarrow> kernel \<Rightarrow> unit kresult" where
  "cm_mark_run as i 0 k = Ret () k"
| "cm_mark_run as i (Suc n) k =
     kbind (cm_mark_run as i n k) (\<lambda>_ k.
     kbind (cm_set (i + n) (\<lambda>e. e\<lparr>cm_state := 1, cm_york := CHR ''k''\<rparr>) k) (\<lambda>_ k.
     kbind (cm_set i (\<lambda>e. e\<lparr>cm_thread_as := as\<rparr>) k) (\<lambda>_ k.
     deref (cm_at k (i + n)) (\<lambda>e. Ret () (zero_page (PADDR_TO_KVADDR (cm_pa e)) k)))))"

definition alloc_kpages_run :: "nat \<Rightarrow> kernel \<Rightarrow> vaddr kresult" where
  "alloc_kpages_run npages k =
     (let spl = curspl k
      in kbind (cm_first_run npages (nat (coremapsize k)) 0 (splhigh k)) (\<lambda>found k.
         case found of
           None \<Rightarrow> Ret 0 (splx spl k)
         | Some i \<Rightarrow>
             deref (cur_vmspace k) (\<lambda>as.
             kbind (cm_mark_run as i npages k) (\<lambda>_ k.
             kbind (cm_set i (\<lambda>e. e\<lparr>cm_follower := int npages - 1\<rparr>) k) (\<lambda>_ k.
             deref (cm_at k i) (\<lambda>e. Ret (PADDR_TO_KVADDR (cm_pa e)) (splx spl k)))))))"

text \<open>
  \<^verbatim>\<open>alloc_kpages\<close>: before \<^verbatim>\<open>vm_bootstrap\<close> it steals memory, afterwards it uses the core map. For
  other values of \<^verbatim>\<open>boott\<close>, or for a count below 1, control runs off the end of the function and
  the value it returns is undefined.
\<close>

definition alloc_kpages :: "int \<Rightarrow> kernel \<Rightarrow> vaddr kresult" where
  "alloc_kpages npages k =
     (if boott k = 0 then
        (let (pa, k1) = getppages (word_of_int npages) k
         in if pa = 0 then Ret 0 k1 else Ret (PADDR_TO_KVADDR pa) k1)
      else if boott k = 1 then
        (if npages = 1 then alloc_kpages_one k
         else if npages > 1 then alloc_kpages_run (nat npages) k
         else Undef)
      else Undef)"

section \<open>Releasing pages\<close>

text \<open>The loop \<^verbatim>\<open>for (j=0; j<=coremap[i].follower; j++)\<close> of \<^verbatim>\<open>free_kpages\<close>, for \<open>n\<close> values of \<open>j\<close>.\<close>

primrec cm_free_run :: "nat \<Rightarrow> nat \<Rightarrow> kernel \<Rightarrow> unit kresult" where
  "cm_free_run i 0 k = Ret () k"
| "cm_free_run i (Suc n) k =
     kbind (cm_free_run i n k) (\<lambda>_ k.
     kbind (cm_set (i + n) (\<lambda>e. e\<lparr>cm_state := 0\<rparr>) k) (\<lambda>_ k.
     kbind (cm_set i (\<lambda>e. e\<lparr>cm_york := CHR ''n'', cm_thread_as := 0\<rparr>) k) (\<lambda>_ k.
     deref (cm_at k i) (\<lambda>e. Ret () (zero_page (PADDR_TO_KVADDR (cm_pa e)) k)))))"

primrec free_kpages_scan :: "paddr \<Rightarrow> nat \<Rightarrow> nat \<Rightarrow> kernel \<Rightarrow> unit kresult" where
  "free_kpages_scan pa 0 i k = Ret () k"
| "free_kpages_scan pa (Suc n) i k =
     deref (cm_at k i) (\<lambda>e.
       if cm_pa e = pa \<and> cm_follower e = 0
       then cm_set i (\<lambda>e. e\<lparr>cm_state := 0, cm_york := CHR ''n'', cm_thread_as := 0\<rparr>) k
       else if cm_pa e = pa \<and> cm_follower e \<noteq> 0
       then kbind (cm_free_run i (nat (cm_follower e + 1)) k) (\<lambda>_ k.
              cm_set i (\<lambda>e. e\<lparr>cm_follower := 0\<rparr>) k)
       else free_kpages_scan pa n (Suc i) k)"

definition free_kpages :: "vaddr \<Rightarrow> kernel \<Rightarrow> unit kresult" where
  "free_kpages addr k =
     (let spl = curspl k
      in kbind (free_kpages_scan (KVADDR_TO_PADDR addr) (nat (coremapsize k)) 0 (splhigh k))
           (\<lambda>_ k. Ret () (splx spl k)))"

section \<open>Invariant\<close>

text \<open>
  The managed frames are the first \<^verbatim>\<open>coremapsize\<close> entries. Their addresses are distinct and
  page-aligned, and an entry that is free heads no run.
\<close>

definition frames :: "kernel \<Rightarrow> cm_entry list" where
  "frames k = take (nat (coremapsize k)) (coremap k)"

definition page_aligned :: "32 word \<Rightarrow> bool" where
  "page_aligned a \<longleftrightarrow> a mod PAGE_SIZE = 0"

definition cm_inv :: "kernel \<Rightarrow> bool" where
  "cm_inv k \<longleftrightarrow>
     0 \<le> coremapsize k \<and> nat (coremapsize k) \<le> length (coremap k) \<and>
     distinct (map cm_pa (frames k)) \<and>
     list_all (\<lambda>e. page_aligned (cm_pa e) \<and> cm_pa e \<noteq> KVADDR_TO_PADDR 0 \<and>
        cm_state e \<in> {0, 1} \<and> 0 \<le> cm_follower e \<and> (cm_state e = 0 \<longrightarrow> cm_follower e = 0))
       (frames k)"

lemma length_frames: "cm_inv k \<Longrightarrow> length (frames k) = nat (coremapsize k)"
  by (simp add: cm_inv_def frames_def)

lemma cm_at_frames: "cm_inv k \<Longrightarrow> i < length (frames k) \<Longrightarrow> cm_at k i = Some (frames k ! i)"
  by (auto simp: cm_inv_def frames_def cm_at_def)

lemma frame_facts:
  assumes "cm_inv k" "i < length (frames k)"
  shows "page_aligned (cm_pa (frames k ! i))" "cm_pa (frames k ! i) \<noteq> KVADDR_TO_PADDR 0"
    "cm_state (frames k ! i) = 0 \<or> cm_state (frames k ! i) = 1" "0 \<le> cm_follower (frames k ! i)"
    "cm_state (frames k ! i) = 0 \<Longrightarrow> cm_follower (frames k ! i) = 0"
  using assms by (auto simp: cm_inv_def list_all_length)

lemma frames_unique:
  assumes "cm_inv k" "i < length (frames k)" "j < length (frames k)"
    "cm_pa (frames k ! i) = cm_pa (frames k ! j)"
  shows "i = j"
  using assms nth_eq_iff_index_eq [of "map cm_pa (frames k)" i j] by (auto simp: cm_inv_def)

text \<open>Changing the entries of the core map below \<^verbatim>\<open>coremapsize\<close> changes the frames.\<close>

lemma frames_coremap_update [simp]:
  "frames (k\<lparr>coremap := (coremap k)[i := e]\<rparr>) = (frames k)[i := e]"
  by (simp add: frames_def take_update_swap)

lemma frames_frame [simp]:
  "frames (splx s k) = frames k" "frames (zero_page va k) = frames k" "frames (splhigh k) = frames k"
  by (simp_all add: frames_def spl_defs zero_page_def)

lemma cm_inv_frame [simp]:
  "cm_inv (splx s k) = cm_inv k" "cm_inv (zero_page va k) = cm_inv k" "cm_inv (splhigh k) = cm_inv k"
  by (simp_all add: cm_inv_def frames_def spl_defs zero_page_def)

lemma cm_inv_update:
  assumes "cm_inv k" "i < length (frames k)" "cm_pa e = cm_pa (frames k ! i)"
    "cm_state e = 0 \<or> cm_state e = 1" "0 \<le> cm_follower e" "cm_state e = 0 \<Longrightarrow> cm_follower e = 0"
  shows "cm_inv (k\<lparr>coremap := (coremap k)[i := e]\<rparr>)"
proof -
  have "map cm_pa ((frames k)[i := e]) = map cm_pa (frames k)"
    using assms by (simp add: map_update list_update_same_conv)
  with assms frame_facts(1,2) [OF assms(1,2)] show ?thesis
    unfolding cm_inv_def by (auto simp: list_all_length nth_list_update)
qed

section \<open>One page: correctness\<close>

lemma cm_first_free_eq:
  "i + n \<le> length (coremap k) \<Longrightarrow>
    cm_first_free n i k =
      Ret (map_option ((+) i) (first_index (\<lambda>e. cm_state e = 0) (take n (drop i (coremap k))))) k"
proof (induction n arbitrary: i)
  case 0
  then show ?case by simp
next
  case (Suc n)
  then have "drop i (coremap k) = coremap k ! i # drop (Suc i) (coremap k)"
    by (simp add: Cons_nth_drop_Suc)
  with Suc show ?case by (simp add: cm_at_def option.map_comp comp_def)
qed

text \<open>The index of the first free frame, if there is one.\<close>

definition first_free :: "kernel \<Rightarrow> nat option" where
  "first_free k = first_index (\<lambda>e. cm_state e = 0) (frames k)"

lemma map_option_add_0: "map_option ((+) (0::nat)) x = x"
  by (cases x) auto

lemma cm_first_free_frames:
  "cm_inv k \<Longrightarrow> cm_first_free (nat (coremapsize k)) 0 k = Ret (first_free k) k"
  by (simp add: cm_first_free_eq cm_inv_def first_free_def frames_def map_option_add_0)

lemma cm_first_free_high:
  assumes "cm_inv k"
  shows "cm_first_free (nat (coremapsize k)) 0 (splhigh k) = Ret (first_free k) (splhigh k)"
proof -
  have "cm_inv (splhigh k)" using assms by simp
  then have "cm_first_free (nat (coremapsize (splhigh k))) 0 (splhigh k) =
      Ret (first_free (splhigh k)) (splhigh k)"
    by (rule cm_first_free_frames)
  moreover have "coremapsize (splhigh k) = coremapsize k" "first_free (splhigh k) = first_free k"
    by (simp_all add: spl_defs first_free_def frames_def)
  ultimately show ?thesis by simp
qed

text \<open>What a page allocator does to the entry it takes.\<close>

definition taken_frame :: "char \<Rightarrow> vaddr \<Rightarrow> nat \<Rightarrow> kernel \<Rightarrow> kernel" where
  "taken_frame york as i k =
     zero_page (PADDR_TO_KVADDR (cm_pa (frames k ! i)))
       (k\<lparr>coremap := (coremap k)[i := (frames k ! i)\<lparr>cm_state := 1, cm_york := york, cm_thread_as := as\<rparr>]\<rparr>)"

lemma first_free_SomeD:
  assumes "cm_inv k" "first_free k = Some i"
  shows "i < length (frames k)" "cm_state (frames k ! i) = 0" "\<And>j. j < i \<Longrightarrow> cm_state (frames k ! j) = 1"
proof -
  show *: "i < length (frames k)" "cm_state (frames k ! i) = 0"
    using assms by (auto simp: first_free_def first_index_eq_Some)
  fix j assume "j < i"
  with assms * show "cm_state (frames k ! j) = 1"
    using frame_facts(3) [OF assms(1), of j] by (auto simp: first_free_def first_index_eq_Some)
qed

lemma first_free_None:
  "cm_inv k \<Longrightarrow> first_free k = None \<longleftrightarrow> (\<forall>e \<in> set (frames k). cm_state e = 1)"
  by (force simp: first_free_def first_index_eq_None cm_inv_def list_all_iff)

lemma take_first_page_eq:
  assumes inv: "cm_inv k" and cur: "cur_vmspace k = Some as"
  shows "take_first_page york k =
    (case first_free k of
       None \<Rightarrow> Ret 0 k
     | Some i \<Rightarrow> Ret (PADDR_TO_KVADDR (cm_pa (frames k ! i))) (taken_frame york as i k))"
proof (cases "first_free k")
  case None
  with cm_first_free_high [OF inv] show ?thesis
    by (simp add: take_first_page_def Let_def spl_defs)
next
  case (Some i)
  note i = first_free_SomeD(1) [OF inv Some]
  have "frames k ! i = coremap k ! i" "i < length (coremap k)"
    using i by (auto simp: frames_def)
  moreover from cur obtain th where "threads k (curthread k) = Some th" "t_vmspace th = as"
    by (auto simp: cur_vmspace_def)
  ultimately show ?thesis using cm_first_free_high [OF inv] Some
    by (simp add: take_first_page_def Let_def spl_defs cur_vmspace_def cm_set_def cm_at_def
          taken_frame_def zero_page_def)
qed

lemma taken_frame_inv:
  assumes "cm_inv k" "first_free k = Some i"
  shows "cm_inv (taken_frame york as i k)"
  unfolding taken_frame_def
  using first_free_SomeD [OF assms] frame_facts [OF assms(1), of i] assms(1)
  by (auto intro!: cm_inv_update)

lemma frames_taken_frame [simp]:
  "frames (taken_frame york as i k) =
     (frames k)[i := (frames k ! i)\<lparr>cm_state := 1, cm_york := york, cm_thread_as := as\<rparr>]"
  by (simp add: taken_frame_def)

section \<open>Several pages: correctness\<close>

lemma cm_set_Ret:
  "i < length (coremap k) \<Longrightarrow>
     cm_set i f k = Ret () (k\<lparr>coremap := (coremap k)[i := f (coremap k ! i)]\<rparr>)"
  by (simp add: cm_set_def cm_at_def)

lemma cm_run_free_eq:
  "i + n \<le> length (coremap k) \<Longrightarrow>
     cm_run_free n i k = Ret (list_all (\<lambda>e. cm_state e \<noteq> 1) (take n (drop i (coremap k)))) k"
proof (induction n arbitrary: i)
  case 0
  then show ?case by simp
next
  case (Suc n)
  then have "drop i (coremap k) = coremap k ! i # drop (Suc i) (coremap k)"
    by (simp add: Cons_nth_drop_Suc)
  with Suc show ?case by (simp add: cm_at_def)
qed

text \<open>The test the scan makes at entry \<open>j\<close>.\<close>

definition run_at :: "nat \<Rightarrow> kernel \<Rightarrow> nat \<Rightarrow> bool" where
  "run_at npages k j \<longleftrightarrow>
     cm_state (coremap k ! j) = 0 \<and>
     list_all (\<lambda>e. cm_state e \<noteq> 1) (take (npages - 1) (drop (Suc j) (coremap k)))"

lemma cm_first_run_eq:
  "i + n + (npages - 1) \<le> length (coremap k) \<Longrightarrow>
    cm_first_run npages n i k = Ret (map_option ((+) i) (first_index (run_at npages k) [i..<i + n])) k"
proof (induction n arbitrary: i)
  case 0
  then show ?case by simp
next
  case (Suc n)
  have at: "cm_at k i = Some (coremap k ! i)" using Suc.prems by (simp add: cm_at_def)
  have rf: "cm_run_free (npages - 1) (Suc i) k =
      Ret (list_all (\<lambda>e. cm_state e \<noteq> 1) (take (npages - 1) (drop (Suc i) (coremap k)))) k"
    using Suc.prems by (intro cm_run_free_eq) simp
  have ix: "[i..<i + Suc n] = i # [Suc i..<Suc i + n]" by (simp add: upt_conv_Cons del: upt_Suc)
  have IH: "cm_first_run npages n (Suc i) k =
      Ret (map_option ((+) (Suc i)) (first_index (run_at npages k) [Suc i..<Suc i + n])) k"
    using Suc.prems by (intro Suc.IH) simp
  show ?case
  proof (cases "run_at npages k i")
    case True
    with at rf show ?thesis unfolding ix by (simp add: run_at_def)
  next
    case False
    with at rf have "cm_first_run npages (Suc n) i k = cm_first_run npages n (Suc i) k"
      by (auto simp: run_at_def)
    moreover have "(+) (Suc i) = (\<lambda>x. Suc (i + x))" by (simp add: fun_eq_iff)
    ultimately show ?thesis using IH False unfolding ix
      by (simp add: option.map_comp comp_def del: upt_Suc cm_first_run.simps)
  qed
qed

text \<open>The entry at \<open>j\<close> after the run of \<open>n\<close> entries from \<open>i\<close> has been marked.\<close>

definition marked :: "vaddr \<Rightarrow> nat \<Rightarrow> nat \<Rightarrow> nat \<Rightarrow> cm_entry \<Rightarrow> cm_entry" where
  "marked as i n j e =
     (if i \<le> j \<and> j < i + n
      then (if j = i then e\<lparr>cm_state := 1, cm_york := CHR ''k'', cm_thread_as := as\<rparr>
            else e\<lparr>cm_state := 1, cm_york := CHR ''k''\<rparr>)
      else e)"

fun zeroed_all :: "cm_entry list \<Rightarrow> (vaddr \<Rightarrow> 32 word) \<Rightarrow> vaddr \<Rightarrow> 32 word" where
  "zeroed_all [] m = m"
| "zeroed_all (e # es) m = zeroed_all es (zeroed (PADDR_TO_KVADDR (cm_pa e)) m)"

lemma zeroed_all_append: "zeroed_all (es @ fs) m = zeroed_all fs (zeroed_all es m)"
  by (induction es arbitrary: m) auto

definition map_entries :: "(nat \<Rightarrow> cm_entry \<Rightarrow> cm_entry) \<Rightarrow> cm_entry list \<Rightarrow> cm_entry list" where
  "map_entries f es = map (\<lambda>(j, e). f j e) (enumerate 0 es)"

lemma length_map_entries [simp]: "length (map_entries f es) = length es"
  by (simp add: map_entries_def)

lemma nth_map_entries [simp]: "j < length es \<Longrightarrow> map_entries f es ! j = f j (es ! j)"
  by (simp add: map_entries_def nth_enumerate_eq)

lemma cm_pa_marked [simp]: "cm_pa (marked as i n j e) = cm_pa e"
  by (simp add: marked_def)

lemma cm_mark_run_eq:
  "i + n \<le> length (coremap k) \<Longrightarrow>
     cm_mark_run as i n k =
       Ret () (k\<lparr>coremap := map_entries (marked as i n) (coremap k),
                  kmem := zeroed_all (take n (drop i (coremap k))) (kmem k)\<rparr>)"
proof (induction n)
  case 0
  have "map_entries (marked as i 0) (coremap k) = coremap k"
    by (intro nth_equalityI) (auto simp: marked_def)
  then show ?case by simp
next
  case (Suc n)
  let ?k = "k\<lparr>coremap := map_entries (marked as i n) (coremap k),
                  kmem := zeroed_all (take n (drop i (coremap k))) (kmem k)\<rparr>"
  from Suc have IH: "cm_mark_run as i n k = Ret () ?k" by simp
  let ?c1 = "(map_entries (marked as i n) (coremap k))[i + n :=
      (coremap k ! (i + n))\<lparr>cm_state := 1, cm_york := CHR ''k''\<rparr>]"
  let ?c2 = "?c1[i := (?c1 ! i)\<lparr>cm_thread_as := as\<rparr>]"
  have c2: "?c2 = map_entries (marked as i (Suc n)) (coremap k)"
    using Suc.prems by (intro nth_equalityI) (auto simp: nth_list_update marked_def)
  have pa: "cm_pa (?c2 ! (i + n)) = cm_pa (coremap k ! (i + n))"
    using Suc.prems unfolding c2 by simp
  have "take (Suc n) (drop i (coremap k)) = take n (drop i (coremap k)) @ [coremap k ! (i + n)]"
    using Suc.prems by (simp add: take_Suc_conv_app_nth)
  moreover have "marked as i n (i + n) (coremap k ! (i + n)) = coremap k ! (i + n)"
    by (simp add: marked_def)
  ultimately show ?case
    using Suc.prems IH c2 pa
    by (simp add: cm_set_Ret cm_at_def zero_page_def zeroed_all_append)
qed

text \<open>The state after a run of \<open>n\<close> pages from entry \<open>i\<close> has been handed out.\<close>

definition headed :: "vaddr \<Rightarrow> nat \<Rightarrow> nat \<Rightarrow> nat \<Rightarrow> cm_entry \<Rightarrow> cm_entry" where
  "headed as i n j e =
     (if j = i then (marked as i n j e)\<lparr>cm_follower := int n - 1\<rparr> else marked as i n j e)"

definition taken_run :: "vaddr \<Rightarrow> nat \<Rightarrow> nat \<Rightarrow> kernel \<Rightarrow> kernel" where
  "taken_run as i n k =
     k\<lparr>coremap := map_entries (headed as i n) (coremap k),
       kmem := zeroed_all (take n (drop i (coremap k))) (kmem k)\<rparr>"

definition first_run :: "nat \<Rightarrow> kernel \<Rightarrow> nat option" where
  "first_run n k = first_index (run_at n k) [0..<nat (coremapsize k)]"

lemma first_run_SomeD:
  assumes "first_run n k = Some i"
  shows "i < nat (coremapsize k)" "run_at n k i"
  using assms by (auto simp: first_run_def first_index_eq_Some)

lemma alloc_kpages_run_eq:
  assumes len: "nat (coremapsize k) + (n - 1) \<le> length (coremap k)" and n: "1 < n"
    and cur: "cur_vmspace k = Some as"
  shows "alloc_kpages_run n k =
    (case first_run n k of
       None \<Rightarrow> Ret 0 k
     | Some i \<Rightarrow> Ret (PADDR_TO_KVADDR (cm_pa (coremap k ! i))) (taken_run as i n k))"
proof -
  have "cm_first_run n (nat (coremapsize k)) 0 (splhigh k) =
      Ret (map_option ((+) 0) (first_index (run_at n (splhigh k)) [0..<0 + nat (coremapsize k)])) (splhigh k)"
    using len by (intro cm_first_run_eq) (simp add: spl_defs)
  moreover have "run_at n (splhigh k) = run_at n k" by (simp add: run_at_def fun_eq_iff spl_defs)
  ultimately have scan: "cm_first_run n (nat (coremapsize k)) 0 (splhigh k) = Ret (first_run n k) (splhigh k)"
    by (simp add: map_option_add_0 first_run_def)
  show ?thesis
  proof (cases "first_run n k")
    case None
    with scan show ?thesis by (simp add: alloc_kpages_run_def Let_def spl_defs)
  next
    case (Some i)
    from first_run_SomeD(1) [OF this] len n have i: "i + n \<le> length (coremap k)" by linarith
    let ?c = "map_entries (marked as i n) (coremap k)"
    have upd: "?c[i := (marked as i n i (coremap k ! i))\<lparr>cm_follower := int n - 1\<rparr>] =
        map_entries (headed as i n) (coremap k)"
      using i n by (intro nth_equalityI) (auto simp: nth_list_update headed_def)
    from cur obtain th where "threads k (curthread k) = Some th" "t_vmspace th = as"
      by (auto simp: cur_vmspace_def)
    with scan Some i n upd show ?thesis
      by (simp add: alloc_kpages_run_def Let_def spl_defs cur_vmspace_def cm_mark_run_eq cm_set_Ret
            cm_at_def taken_run_def)
  qed
qed

section \<open>Releasing pages: correctness\<close>

lemma zeroed_idem [simp]: "zeroed va (zeroed va m) = zeroed va m"
  by (simp add: zeroed_def fun_eq_iff)

definition released :: "nat \<Rightarrow> nat \<Rightarrow> nat \<Rightarrow> cm_entry \<Rightarrow> cm_entry" where
  "released i n j e =
     (if i \<le> j \<and> j < i + n
      then (if j = i then e\<lparr>cm_state := 0, cm_york := CHR ''n'', cm_thread_as := 0\<rparr>
            else e\<lparr>cm_state := 0\<rparr>)
      else e)"

lemma cm_free_run_eq:
  "i + n \<le> length (coremap k) \<Longrightarrow> 0 < n \<Longrightarrow>
     cm_free_run i n k =
       Ret () (k\<lparr>coremap := map_entries (released i n) (coremap k),
                  kmem := zeroed (PADDR_TO_KVADDR (cm_pa (coremap k ! i))) (kmem k)\<rparr>)"
proof (induction n)
  case 0
  then show ?case by simp
next
  case (Suc n)
  let ?va = "PADDR_TO_KVADDR (cm_pa (coremap k ! i))"
  let ?c1 = "(map_entries (released i n) (coremap k))[i + n := (coremap k ! (i + n))\<lparr>cm_state := 0\<rparr>]"
  let ?c2 = "?c1[i := (?c1 ! i)\<lparr>cm_york := CHR ''n'', cm_thread_as := 0\<rparr>]"
  have c2: "?c2 = map_entries (released i (Suc n)) (coremap k)"
    using Suc.prems by (intro nth_equalityI) (auto simp: nth_list_update released_def)
  have r: "released i n (i + n) (coremap k ! (i + n)) = coremap k ! (i + n)"
    by (simp add: released_def)
  have pa: "cm_pa (?c2 ! i) = cm_pa (coremap k ! i)"
    using Suc.prems unfolding c2 by (simp add: released_def)
  show ?case
  proof (cases "n = 0")
    case True
    have "map_entries (released i 0) (coremap k) = coremap k"
      by (intro nth_equalityI) (auto simp: released_def)
    with True c2 pa r Suc.prems show ?thesis
      by (simp add: cm_set_Ret cm_at_def zero_page_def)
  next
    case False
    with Suc have "cm_free_run i n k = Ret () (k\<lparr>coremap := map_entries (released i n) (coremap k),
        kmem := zeroed ?va (kmem k)\<rparr>)" by simp
    with c2 pa r Suc.prems show ?thesis
      by (simp add: cm_set_Ret cm_at_def zero_page_def)
  qed
qed

text \<open>The state after the block that starts at entry \<open>i\<close> has been released.\<close>

definition unheaded :: "nat \<Rightarrow> nat \<Rightarrow> nat \<Rightarrow> cm_entry \<Rightarrow> cm_entry" where
  "unheaded i n j e = (if j = i then (released i n j e)\<lparr>cm_follower := 0\<rparr> else released i n j e)"

definition freed_one :: "nat \<Rightarrow> kernel \<Rightarrow> kernel" where
  "freed_one i k = k\<lparr>coremap := (coremap k)[i := released i 1 i (coremap k ! i)]\<rparr>"

definition freed_run :: "nat \<Rightarrow> nat \<Rightarrow> kernel \<Rightarrow> kernel" where
  "freed_run i n k =
     k\<lparr>coremap := map_entries (unheaded i n) (coremap k),
       kmem := zeroed (PADDR_TO_KVADDR (cm_pa (coremap k ! i))) (kmem k)\<rparr>"

definition freed :: "nat \<Rightarrow> kernel \<Rightarrow> kernel" where
  "freed i k =
     (if cm_follower (coremap k ! i) = 0 then freed_one i k
      else freed_run i (nat (cm_follower (coremap k ! i) + 1)) k)"

lemma free_kpages_scan_eq:
  assumes i: "j \<le> i" "i < j + n" "j + n \<le> length (coremap k)"
    and fit: "0 \<le> cm_follower (coremap k ! i)" "i + nat (cm_follower (coremap k ! i)) < length (coremap k)"
    and first: "\<And>j'. j \<le> j' \<Longrightarrow> j' < i \<Longrightarrow> cm_pa (coremap k ! j') \<noteq> cm_pa (coremap k ! i)"
  shows "free_kpages_scan (cm_pa (coremap k ! i)) n j k = Ret () (freed i k)"
  using i first
proof (induction n arbitrary: j)
  case 0
  then show ?case by simp
next
  case (Suc n)
  have at: "cm_at k j = Some (coremap k ! j)" using Suc.prems by (simp add: cm_at_def)
  show ?case
  proof (cases "j = i")
    case False
    with Suc.prems have "cm_pa (coremap k ! j) \<noteq> cm_pa (coremap k ! i)" by simp
    with at False Suc show ?thesis by (simp add: Suc_le_eq)
  next
    case True
    let ?n = "nat (cm_follower (coremap k ! i) + 1)"
    show ?thesis
    proof (cases "cm_follower (coremap k ! i) = 0")
      case True
      with at \<open>j = i\<close> Suc.prems show ?thesis
        by (simp add: cm_set_Ret freed_def freed_one_def released_def)
    next
      case False
      have n: "i + ?n \<le> length (coremap k)" "0 < ?n" using fit by linarith+
      have upd: "(map_entries (released i ?n) (coremap k))[i := (released i ?n i (coremap k ! i))\<lparr>cm_follower := 0\<rparr>] =
          map_entries (unheaded i ?n) (coremap k)"
        using n by (intro nth_equalityI) (auto simp: nth_list_update unheaded_def)
      from n at False \<open>j = i\<close> upd show ?thesis
        by (simp add: cm_free_run_eq cm_set_Ret freed_def freed_run_def)
    qed
  qed
qed

lemma freed_splhigh: "freed i (splhigh k) = splhigh (freed i k)"
  by (simp add: freed_def freed_one_def freed_run_def spl_defs)

lemma curspl_freed [simp]: "curspl (freed i k) = curspl k"
  by (simp add: freed_def freed_one_def freed_run_def)

lemma free_kpages_eq:
  assumes inv: "cm_inv k" and i: "i < nat (coremapsize k)"
    and fit: "i + nat (cm_follower (coremap k ! i)) < length (coremap k)"
  shows "free_kpages (PADDR_TO_KVADDR (cm_pa (coremap k ! i))) k = Ret () (freed i k)"
proof -
  have len: "nat (coremapsize k) \<le> length (coremap k)" using inv by (simp add: cm_inv_def)
  have fr: "frames k ! j = coremap k ! j" if "j < nat (coremapsize k)" for j
    using that by (simp add: frames_def)
  have "free_kpages_scan (cm_pa (coremap (splhigh k) ! i)) (nat (coremapsize k)) 0 (splhigh k) =
      Ret () (freed i (splhigh k))"
  proof (rule free_kpages_scan_eq)
    show "0 \<le> cm_follower (coremap (splhigh k) ! i)"
      using frame_facts(4) [OF inv, of i] i fr [OF i] length_frames [OF inv] by (simp add: spl_defs)
    fix j assume "0 \<le> j" "j < i"
    then show "cm_pa (coremap (splhigh k) ! j) \<noteq> cm_pa (coremap (splhigh k) ! i)"
      using frames_unique [OF inv, of j i] i fr [of i] fr [of j] length_frames [OF inv]
      by (auto simp: spl_defs)
  qed (use i len fit in \<open>simp_all add: spl_defs\<close>)
  moreover have "coremap (splhigh k) = coremap k" "splx (curspl k) (splhigh (freed i k)) = freed i k"
    by (simp_all add: spl_defs freed_def freed_one_def freed_run_def)
  ultimately show ?thesis
    by (simp add: free_kpages_def Let_def freed_splhigh)
qed

lemma coremapsize_taken [simp]:
  "coremapsize (taken_run as i n k) = coremapsize k" "coremapsize (taken_frame york as i k) = coremapsize k"
  by (simp_all add: taken_run_def taken_frame_def zero_page_def)

lemma frames_taken_run:
  assumes "cm_inv k"
  shows "frames (taken_run as i n k) = map_entries (headed as i n) (frames k)"
  using assms by (intro nth_equalityI) (auto simp: frames_def taken_run_def cm_inv_def)

lemma cm_inv_taken_run:
  assumes inv: "cm_inv k" and n: "1 < n"
  shows "cm_inv (taken_run as i n k)"
proof -
  have "map cm_pa (map_entries (headed as i n) (frames k)) = map cm_pa (frames k)"
    by (intro nth_equalityI) (auto simp: headed_def)
  moreover have "list_all (\<lambda>e. page_aligned (cm_pa e) \<and> cm_pa e \<noteq> KVADDR_TO_PADDR 0 \<and>
        cm_state e \<in> {0, 1} \<and> 0 \<le> cm_follower e \<and> (cm_state e = 0 \<longrightarrow> cm_follower e = 0))
      (map_entries (headed as i n) (frames k))"
    using frame_facts [OF inv] n by (auto simp: list_all_length marked_def headed_def)
  moreover have "length (coremap (taken_run as i n k)) = length (coremap k)"
    by (simp add: taken_run_def)
  ultimately show ?thesis
    using inv frames_taken_run [OF inv, of as i n] unfolding cm_inv_def by simp
qed

lemma run_states:
  assumes inv: "cm_inv k" and run: "run_at n k i" and j: "i \<le> j" "j < i + n" "j < length (frames k)"
  shows "cm_state (frames k ! j) = 0"
proof (cases "j = i")
  case True
  with run j show ?thesis by (simp add: run_at_def frames_def)
next
  case False
  let ?l = "take (n - 1) (drop (Suc i) (coremap k))"
  have len: "j < length (coremap k)" using j by (simp add: frames_def)
  with False j have "j - Suc i < length ?l" by auto
  moreover have "?l ! (j - Suc i) = coremap k ! j" using False j len by simp
  moreover from run have "\<forall>e \<in> set ?l. cm_state e \<noteq> 1" by (simp add: run_at_def list_all_iff)
  ultimately have "cm_state (coremap k ! j) \<noteq> 1" using nth_mem [of "j - Suc i" ?l] by auto
  with frame_facts(3) [OF inv, of j] j show ?thesis by (simp add: frames_def)
qed

text \<open>Releasing what was just handed out gives back the states of all managed frames.\<close>

lemma freed_taken_run_states:
  assumes inv: "cm_inv k" and n: "1 < n" and run: "run_at n k i" and i: "i < nat (coremapsize k)"
  shows "map cm_state (frames (freed_run i n (taken_run as i n k))) = map cm_state (frames k)"
proof (rule nth_equalityI)
  let ?k = "freed_run i n (taken_run as i n k)"
  have k: "coremap ?k = map_entries (unheaded i n) (map_entries (headed as i n) (coremap k))"
    "coremapsize ?k = coremapsize k"
    by (simp_all add: freed_run_def taken_run_def)
  then show "length (map cm_state (frames ?k)) = length (map cm_state (frames k))"
    by (simp add: frames_def)
  fix j assume "j < length (map cm_state (frames ?k))"
  with k have j: "j < nat (coremapsize k)" "j < length (coremap k)" by (auto simp: frames_def)
  with k have "cm_state (frames ?k ! j) = (if i \<le> j \<and> j < i + n then 0 else cm_state (frames k ! j))"
    by (simp add: frames_def released_def marked_def headed_def unheaded_def)
  also have "\<dots> = cm_state (frames k ! j)"
    using run_states [OF inv run, of j] j by (simp add: frames_def)
  finally show "map cm_state (frames ?k) ! j = map cm_state (frames k) ! j"
    using j k by (simp add: frames_def)
qed

lemma freed_taken_frame_states:
  assumes inv: "cm_inv k" and i: "first_free k = Some i"
  shows "map cm_state (frames (freed_one i (taken_frame york as i k))) = map cm_state (frames k)"
proof -
  note d = first_free_SomeD [OF inv i]
  have il: "i < length (coremap k)" and fr: "frames k ! i = coremap k ! i"
    using d by (auto simp: frames_def)
  let ?k = "freed_one i (taken_frame york as i k)"
  have "frames ?k = (frames k)[i := (coremap k ! i)\<lparr>cm_state := 0, cm_york := CHR ''n'', cm_thread_as := 0\<rparr>]"
    using il fr by (simp add: frames_def freed_one_def taken_frame_def zero_page_def released_def take_update_swap)
  then show ?thesis using d fr by (simp add: map_update list_update_same_conv)
qed

section \<open>Properties\<close>

text \<open>
  C20. \<^verbatim>\<open>alloc_kpages(1)\<close> is first fit and exclusive: it returns 0 and changes nothing when every
  managed frame is occupied; otherwise it returns the kernel address of the lowest free frame,
  marks exactly that frame as a kernel page of the current address space, clears exactly its 4096
  bytes, and keeps the core map well formed.
\<close>

theorem alloc_kpages_single:
  assumes inv: "cm_inv k" and boot: "boott k = 1" and cur: "cur_vmspace k = Some as"
  shows "(\<forall>e \<in> set (frames k). cm_state e = 1) \<and> alloc_kpages 1 k = Ret 0 k \<or>
    (\<exists>i < length (frames k). \<exists>k'. let e = frames k ! i; va = PADDR_TO_KVADDR (cm_pa e) in
       alloc_kpages 1 k = Ret va k' \<and> va \<noteq> 0 \<and>
       cm_state e = 0 \<and> (\<forall>j < i. cm_state (frames k ! j) = 1) \<and>
       frames k' = (frames k)[i := e\<lparr>cm_state := 1, cm_york := CHR ''k'', cm_thread_as := as\<rparr>] \<and>
       (\<forall>a. kmem k' a = (if a - va < PAGE_SIZE then 0 else kmem k a)) \<and> cm_inv k')"
proof (cases "first_free k")
  case None
  with first_free_None [OF inv] have "\<forall>e \<in> set (frames k). cm_state e = 1" by simp
  moreover have "alloc_kpages 1 k = Ret 0 k"
    using None boot take_first_page_eq [OF inv cur] by (simp add: alloc_kpages_def alloc_kpages_one_def)
  ultimately show ?thesis by blast
next
  case (Some i)
  note d = first_free_SomeD [OF inv Some]
  have "alloc_kpages 1 k = Ret (PADDR_TO_KVADDR (cm_pa (frames k ! i))) (taken_frame CHR ''k'' as i k)"
    using Some boot take_first_page_eq [OF inv cur] by (simp add: alloc_kpages_def alloc_kpages_one_def)
  moreover have "PADDR_TO_KVADDR (cm_pa (frames k ! i)) \<noteq> 0"
    using frame_facts(2) [OF inv d(1)] by (metis KVADDR_PADDR)
  moreover have "kmem (taken_frame CHR ''k'' as i k) = zeroed (PADDR_TO_KVADDR (cm_pa (frames k ! i))) (kmem k)"
    by (simp add: taken_frame_def zero_page_def)
  ultimately show ?thesis
    using d taken_frame_inv [OF inv Some, of "CHR ''k''" as]
    by (intro disjI2 exI [of _ i] conjI exI [of _ "taken_frame CHR ''k'' as i k"]) (auto simp: Let_def zeroed_def)
qed

text \<open>A machine with three frames, the first one in use; the fourth entry is past \<^verbatim>\<open>coremapsize\<close>.\<close>

definition three_frames :: kernel where
  "three_frames =
     kernel0\<lparr>boott := 1, coremapsize := 3, curthread := 0x80010000, threads := [0x80010000 \<mapsto> thread0],
       kmem := (\<lambda>_. 7),
       coremap :=
         [\<lparr>cm_pa = 0x20000, cm_state = 1, cm_follower = 0, cm_york = CHR ''k'', cm_thread_as = 0\<rparr>,
          \<lparr>cm_pa = 0x21000, cm_state = 0, cm_follower = 0, cm_york = CHR ''n'', cm_thread_as = 0\<rparr>,
          \<lparr>cm_pa = 0x22000, cm_state = 0, cm_follower = 0, cm_york = CHR ''n'', cm_thread_as = 0\<rparr>,
          \<lparr>cm_pa = 0, cm_state = 0, cm_follower = 0, cm_york = CHR 0x00, cm_thread_as = 0\<rparr>]\<rparr>"

lemma three_frames_facts:
  "cm_inv three_frames" "boott three_frames = 1" "cur_vmspace three_frames = Some 0"
  "length (frames three_frames) = 3" "coremapsize three_frames = 3" "length (coremap three_frames) = 4"
  by (simp_all add: three_frames_def cm_inv_def frames_def kernel0_def cur_vmspace_def thread0_def
        page_aligned_def PAGE_SIZE_def KVADDR_TO_PADDR_def MIPS_KSEG0_def)

theorem alloc_kpages_single_witness:
  "\<exists>k'. alloc_kpages 1 three_frames = Ret 0x80021000 k' \<and> map cm_state (frames k') = [1, 1, 0] \<and>
     kmem k' 0x80021ffc = 0 \<and> kmem k' 0x80022000 = 7"
proof -
  have f: "frames three_frames ! 0 = coremap three_frames ! 0" "frames three_frames ! 1 = coremap three_frames ! 1"
    "frames three_frames ! 2 = coremap three_frames ! 2"
    by (simp_all add: frames_def three_frames_def kernel0_def)
  have st: "map cm_state (frames three_frames) = [1, 0, 0]" "kmem three_frames = (\<lambda>_. 7)"
    "cm_pa (coremap three_frames ! 1) = 0x21000" "\<not> (\<forall>e \<in> set (frames three_frames). cm_state e = 1)"
    "cm_state (coremap three_frames ! 0) = 1"
    "cm_state (coremap three_frames ! 1) = 0" "cm_state (coremap three_frames ! 2) = 0"
    by (simp_all add: frames_def three_frames_def kernel0_def)
  from alloc_kpages_single [OF three_frames_facts(1-3)] st(4) obtain i k' where
    k': "i < length (frames three_frames)"
      "alloc_kpages 1 three_frames = Ret (PADDR_TO_KVADDR (cm_pa (frames three_frames ! i))) k'"
      "cm_state (frames three_frames ! i) = 0" "\<forall>j < i. cm_state (frames three_frames ! j) = 1"
      "frames k' = (frames three_frames)[i := (frames three_frames ! i)\<lparr>cm_state := 1, cm_york := CHR ''k'', cm_thread_as := 0\<rparr>]"
      "\<forall>a. kmem k' a = (if a - PADDR_TO_KVADDR (cm_pa (frames three_frames ! i)) < PAGE_SIZE then 0 else kmem three_frames a)"
    by (auto simp: Let_def)
  have "i = 1"
  proof (rule ccontr)
    assume "i \<noteq> 1"
    with k'(1) three_frames_facts(4) have "i = 0 \<or> i = 2" by auto
    with k'(3) k'(4) [rule_format, of 1] f st show False by auto
  qed
  with k' f st show ?thesis
    by (simp add: map_update PADDR_TO_KVADDR_def MIPS_KSEG0_def PAGE_SIZE_def)
qed

text \<open>
  C21. Releasing an allocation undoes it: after \<^verbatim>\<open>va = alloc_kpages(n)\<close> succeeds for any
  \<open>n \<ge> 1\<close>, \<^verbatim>\<open>free_kpages(va)\<close> returns and every managed frame is again free or occupied exactly
  as it was before. The hypothesis on the length says that the scan stays inside the page that
  holds the core map.
\<close>

theorem alloc_then_free:
  assumes inv: "cm_inv k" and boot: "boott k = 1" and cur: "cur_vmspace k = Some as" and n: "0 < n"
    and len: "nat (coremapsize k) + (n - 1) \<le> length (coremap k)"
    and alloc: "alloc_kpages (int n) k = Ret va k'" and va: "va \<noteq> 0"
  shows "\<exists>k''. free_kpages va k' = Ret () k'' \<and> map cm_state (frames k'') = map cm_state (frames k)"
proof (cases "n = 1")
  case True
  with alloc boot take_first_page_eq [OF inv cur, of "CHR ''k''"] va obtain i where
    i: "first_free k = Some i" "va = PADDR_TO_KVADDR (cm_pa (frames k ! i))" "k' = taken_frame CHR ''k'' as i k"
    by (auto simp: alloc_kpages_def alloc_kpages_one_def split: option.splits)
  note d = first_free_SomeD [OF inv i(1)]
  have il: "i < nat (coremapsize k)" "i < length (coremap k)" "frames k ! i = coremap k ! i"
    using d by (auto simp: frames_def)
  have e: "cm_pa (coremap k' ! i) = cm_pa (frames k ! i)" "cm_follower (coremap k' ! i) = 0"
    using il frame_facts(5) [OF inv d(1)] d by (simp_all add: i(3) taken_frame_def zero_page_def)
  have l: "length (coremap k') = length (coremap k)" by (simp add: i(3) taken_frame_def zero_page_def)
  have "free_kpages (PADDR_TO_KVADDR (cm_pa (coremap k' ! i))) k' = Ret () (freed i k')"
    using il e l taken_frame_inv [OF inv i(1)] by (intro free_kpages_eq) (simp_all add: i(3))
  with freed_taken_frame_states [OF inv i(1)] e i show ?thesis
    by (simp add: freed_def)
next
  case False
  with n have n1: "1 < n" by simp
  with alloc boot alloc_kpages_run_eq [OF len n1 cur] va obtain i where
    i: "first_run n k = Some i" "va = PADDR_TO_KVADDR (cm_pa (coremap k ! i))" "k' = taken_run as i n k"
    by (auto simp: alloc_kpages_def split: option.splits)
  note d = first_run_SomeD [OF i(1)]
  have il: "i < length (coremap k)" using d len by linarith
  have e: "cm_pa (coremap k' ! i) = cm_pa (coremap k ! i)" "cm_follower (coremap k' ! i) = int n - 1"
    using il by (simp_all add: i(3) taken_run_def headed_def)
  have "length (coremap k') = length (coremap k)" by (simp add: i(3) taken_run_def)
  with d len n1 have "free_kpages (PADDR_TO_KVADDR (cm_pa (coremap k' ! i))) k' = Ret () (freed i k')"
    using cm_inv_taken_run [OF inv n1, of as i] e by (intro free_kpages_eq) (simp_all add: i(3))
  with freed_taken_run_states [OF inv n1 d(2,1)] e i n1 show ?thesis
    by (simp add: freed_def)
qed

theorem alloc_then_free_witness:
  "\<exists>va k' k''. alloc_kpages (int 2) three_frames = Ret va k' \<and> map cm_state (frames k') = [1, 1, 1] \<and>
     free_kpages va k' = Ret () k'' \<and> map cm_state (frames k'') = [1, 0, 0]"
proof -
  have st: "map cm_state (frames three_frames) = [1, 0, 0]"
    by (simp add: frames_def three_frames_def kernel0_def)
  have "first_run 2 three_frames = Some 1"
    by (simp add: first_run_def run_at_def three_frames_def kernel0_def upt_rec numeral_eq_Suc)
  moreover have "cm_pa (coremap three_frames ! 1) = 0x21000"
    by (simp add: three_frames_def kernel0_def)
  ultimately have a: "alloc_kpages (int 2) three_frames = Ret 0x80021000 (taken_run 0 1 2 three_frames)"
    using alloc_kpages_run_eq [of three_frames 2 0] three_frames_facts
    by (simp add: alloc_kpages_def PADDR_TO_KVADDR_def MIPS_KSEG0_def)
  moreover have "map cm_state (frames (taken_run 0 1 2 three_frames)) = [1, 1, 1]"
    by (simp add: frames_taken_run [OF three_frames_facts(1)])
       (simp add: frames_def three_frames_def kernel0_def map_entries_def headed_def marked_def numeral_eq_Suc)
  ultimately show ?thesis
    using alloc_then_free [OF three_frames_facts(1-3) _ _ a] st three_frames_facts
    by auto
qed

text \<open>
  C34. The scan for several pages does not stop at \<^verbatim>\<open>coremapsize\<close>: when the last managed frame is
  free and the unused entry after it happens to hold zeroes, \<^verbatim>\<open>alloc_kpages(2)\<close> hands out that
  frame together with the unused entry, whose address 0 is not a managed frame, and clears the
  page of the exception handlers at \<^verbatim>\<open>0x80000000\<close>.
\<close>

theorem alloc_kpages_overrun:
  "\<exists>k k'. cm_inv k \<and> boott k = 1 \<and> map cm_state (frames k) = [1, 1, 0] \<and>
     0 \<notin> set (map cm_pa (frames k)) \<and> kmem k 0x80000000 = 7 \<and>
     alloc_kpages 2 k = Ret 0x80022000 k' \<and> kmem k' 0x80000000 = 0"
proof -
  define k where "k = three_frames\<lparr>coremap := (coremap three_frames)[1 := (coremap three_frames ! 1)\<lparr>cm_state := 1\<rparr>]\<rparr>"
  have inv: "cm_inv k" and cur: "cur_vmspace k = Some 0" and b: "boott k = 1"
    and fr: "map cm_state (frames k) = [1, 1, 0]" "map cm_pa (frames k) = [0x20000, 0x21000, 0x22000]"
    and size: "coremapsize k = 3" and len: "length (coremap k) = 4" and m: "kmem k = (\<lambda>_. 7)"
    by (simp_all add: k_def three_frames_def cm_inv_def frames_def kernel0_def cur_vmspace_def thread0_def
        page_aligned_def PAGE_SIZE_def KVADDR_TO_PADDR_def MIPS_KSEG0_def)
  have c: "map cm_pa (take 2 (drop 2 (coremap k))) = [0x22000, 0]" "cm_pa (coremap k ! 2) = 0x22000"
    by (simp_all add: k_def three_frames_def kernel0_def)
  have "first_run 2 k = Some 2"
    by (simp add: first_run_def run_at_def k_def three_frames_def kernel0_def upt_rec numeral_eq_Suc)
  then have a: "alloc_kpages 2 k = Ret 0x80022000 (taken_run 0 2 2 k)"
    using alloc_kpages_run_eq [of k 2 0] cur size len b c
    by (simp add: alloc_kpages_def PADDR_TO_KVADDR_def MIPS_KSEG0_def)
  from c(1) obtain e f where "take 2 (drop 2 (coremap k)) = [e, f]" "cm_pa e = 0x22000" "cm_pa f = 0"
    by (auto simp: map_eq_Cons_conv)
  then have "kmem (taken_run 0 2 2 k) 0x80000000 = 0"
    by (simp add: taken_run_def zeroed_def PADDR_TO_KVADDR_def MIPS_KSEG0_def PAGE_SIZE_def)
  with inv b fr m a show ?thesis
    by (intro exI [of _ k] exI [of _ "taken_run 0 2 2 k"]) simp
qed

end
