(* ===== verification/KHeap.thy ===== *)
theory KHeap
  imports KCoremap
begin

text \<open>
  The kernel heap, \<^verbatim>\<open>kern/lib/kheap.c\<close>: pages divided into blocks of one of eight sizes, the free
  blocks of a page chained through their first word, and a static table of page references
  chained in one list per size and one list of all. Requests of \<^verbatim>\<open>LARGEST_SUBPAGE_SIZE\<close> or more
  go to the page allocator. The consistency checks under \<^verbatim>\<open>SLOW\<close> and \<^verbatim>\<open>SLOWER\<close> are compiled out.
\<close>

unbundle bit_operations_syntax

section \<open>Model\<close>

definition NSIZES :: nat where
  "NSIZES = 8"

definition sizes :: "32 word list" where
  "sizes = [16, 32, 64, 128, 256, 512, 1024, 2048]"

definition LARGEST_SUBPAGE_SIZE :: "32 word" where
  "LARGEST_SUBPAGE_SIZE = 2048"

definition INVALID_OFFSET :: int where
  "INVALID_OFFSET = 0xffff"

definition NPAGEREFS :: nat where
  "NPAGEREFS = 256"

definition PR_PAGEADDR :: "pageref \<Rightarrow> vaddr" where
  "PR_PAGEADDR pr = pageaddr_and_blocktype pr AND PAGE_FRAME"

definition PR_BLOCKTYPE :: "pageref \<Rightarrow> 32 word" where
  "PR_BLOCKTYPE pr = pageaddr_and_blocktype pr AND NOT PAGE_FRAME"

definition MKPAB :: "vaddr \<Rightarrow> 32 word \<Rightarrow> vaddr" where
  "MKPAB pa blk = (pa AND PAGE_FRAME) OR (blk AND NOT PAGE_FRAME)"

subsection \<open>Page references\<close>

definition pr_at :: "kernel \<Rightarrow> nat \<Rightarrow> pageref option" where
  "pr_at k i = (if i < length (pagerefs k) then Some (pagerefs k ! i) else None)"

definition pr_set :: "nat \<Rightarrow> (pageref \<Rightarrow> pageref) \<Rightarrow> kernel \<Rightarrow> unit kresult" where
  "pr_set i f k = deref (pr_at k i) (\<lambda>pr. Ret () (k\<lparr>pagerefs := (pagerefs k)[i := f pr]\<rparr>))"

text \<open>The loop over the bits of a word, \<^verbatim>\<open>for (k=1,j=0; k!=0; k<<=1,j++)\<close>.\<close>

primrec free_bit :: "32 word \<Rightarrow> nat \<Rightarrow> nat \<Rightarrow> nat option" where
  "free_bit w 0 j = None"
| "free_bit w (Suc n) j = (if w AND push_bit j 1 = 0 then Some j else free_bit w n (Suc j))"

primrec allocpageref_words :: "nat \<Rightarrow> nat \<Rightarrow> kernel \<Rightarrow> nat option kresult" where
  "allocpageref_words 0 i k = Ret None k"
| "allocpageref_words (Suc n) i k =
     (if \<not> i < length (pagerefs_inuse k) then Undef
      else let w = pagerefs_inuse k ! i
      in if w = 0xffffffff then allocpageref_words n (Suc i) k
         else case free_bit w 32 0 of
           None \<Rightarrow> Panic
         | Some j \<Rightarrow> Ret (Some (i * 32 + j))
             (k\<lparr>pagerefs_inuse := (pagerefs_inuse k)[i := w OR push_bit j 1]\<rparr>))"

definition allocpageref :: "kernel \<Rightarrow> nat option kresult" where
  "allocpageref k = allocpageref_words (NPAGEREFS div 32) 0 k"

definition freepageref :: "nat \<Rightarrow> kernel \<Rightarrow> unit kresult" where
  "freepageref p k =
     (if \<not> p < NPAGEREFS then Panic
      else let i = p div 32; m = push_bit (p mod 32) 1
      in if \<not> i < length (pagerefs_inuse k) then Undef
         else if pagerefs_inuse k ! i AND m = 0 then Panic
         else Ret () (k\<lparr>pagerefs_inuse := (pagerefs_inuse k)[i := pagerefs_inuse k ! i AND NOT m]\<rparr>))"

text \<open>
  \<^verbatim>\<open>remove_lists\<close> walks each list with a pointer to the link it may have to change. \<open>unlink\<close> is
  that walk from a node on, for the link given by \<open>get\<close> and \<open>put\<close>; a list in a cycle is walked for
  ever, which the fuel turns into an undefined result.
\<close>

primrec unlink ::
  "nat \<Rightarrow> (pageref \<Rightarrow> nat option) \<Rightarrow> (nat option \<Rightarrow> pageref \<Rightarrow> pageref) \<Rightarrow> nat \<Rightarrow> nat \<Rightarrow> kernel \<Rightarrow> unit kresult" where
  "unlink 0 get put target node k = Undef"
| "unlink (Suc fuel) get put target node k =
     deref (pr_at k node) (\<lambda>pr.
       case get pr of
         None \<Rightarrow> Ret () k
       | Some next_node \<Rightarrow>
           if next_node = target
           then deref (pr_at k target) (\<lambda>t. pr_set node (put (get t)) k)
           else unlink fuel get put target next_node k)"

definition list_fuel :: nat where
  "list_fuel = 257"

definition remove_samesize :: "nat \<Rightarrow> nat \<Rightarrow> kernel \<Rightarrow> unit kresult" where
  "remove_samesize p blktype k =
     (if \<not> blktype < length (sizebases k) then Undef
      else case sizebases k ! blktype of
        None \<Rightarrow> Ret () k
      | Some q \<Rightarrow>
          if q = p
          then deref (pr_at k p) (\<lambda>pr. Ret () (k\<lparr>sizebases := (sizebases k)[blktype := next_samesize pr]\<rparr>))
          else unlink list_fuel next_samesize (\<lambda>n pr. pr\<lparr>next_samesize := n\<rparr>) p q k)"

definition remove_all :: "nat \<Rightarrow> kernel \<Rightarrow> unit kresult" where
  "remove_all p k =
     (case allbase k of
        None \<Rightarrow> Ret () k
      | Some q \<Rightarrow>
          if q = p
          then deref (pr_at k p) (\<lambda>pr. Ret () (k\<lparr>allbase := next_all pr\<rparr>))
          else unlink list_fuel next_all (\<lambda>n pr. pr\<lparr>next_all := n\<rparr>) p q k)"

definition remove_lists :: "nat \<Rightarrow> nat \<Rightarrow> kernel \<Rightarrow> unit kresult" where
  "remove_lists p blktype k =
     (if \<not> blktype < NSIZES then Panic
      else kbind (remove_samesize p blktype k) (\<lambda>_ k. remove_all p k))"

subsection \<open>Allocation\<close>

definition blocktype :: "32 word \<Rightarrow> nat option" where
  "blocktype sz = first_index (\<lambda>s. sz \<le> s) sizes"

text \<open>The part of \<^verbatim>\<open>subpage_kmalloc\<close> at the label \<^verbatim>\<open>doalloc\<close>: take the first block off the page's free list.\<close>

definition doalloc :: "int \<Rightarrow> nat \<Rightarrow> kernel \<Rightarrow> vaddr kresult" where
  "doalloc spl p k =
     deref (pr_at k p) (\<lambda>pr.
       if \<not> freelist_offset pr < 4096 then Panic
       else let prpage = PR_PAGEADDR pr;
                retptr = prpage + word_of_int (freelist_offset pr);
                fl = kmem k retptr;
                nf = u16 (nfree pr - 1)
       in if fl \<noteq> 0
          then (if \<not> nf > 0 then Panic
                else if \<not> fl - prpage < PAGE_SIZE then Panic
                else kbind (pr_set p (\<lambda>pr. pr\<lparr>nfree := nf, freelist_offset := uint (fl - prpage)\<rparr>) k)
                       (\<lambda>_ k. Ret retptr (splx spl k)))
          else (if nf \<noteq> 0 then Panic
                else kbind (pr_set p (\<lambda>pr. pr\<lparr>nfree := nf, freelist_offset := INVALID_OFFSET\<rparr>) k)
                       (\<lambda>_ k. Ret retptr (splx spl k))))"

text \<open>The search for a page of the size with a free block.\<close>

primrec find_samesize :: "nat \<Rightarrow> nat \<Rightarrow> nat option \<Rightarrow> kernel \<Rightarrow> nat option kresult" where
  "find_samesize 0 blktype p k = Undef"
| "find_samesize (Suc fuel) blktype p k =
     (case p of
        None \<Rightarrow> Ret None k
      | Some q \<Rightarrow>
          deref (pr_at k q) (\<lambda>pr.
            if PR_BLOCKTYPE pr \<noteq> of_nat blktype then Panic
            else if nfree pr > 0 then Ret (Some q) k
            else find_samesize fuel blktype (next_samesize pr) k))"

text \<open>
  Threading the free list through a fresh page: the first word of block 0 is null, that of block
  \<open>i\<close> is the address of block \<open>i - 1\<close>.
\<close>

primrec thread_page :: "vaddr \<Rightarrow> 32 word \<Rightarrow> nat \<Rightarrow> (vaddr \<Rightarrow> 32 word) \<Rightarrow> vaddr \<Rightarrow> 32 word" where
  "thread_page fla sz 0 m = m(fla := 0)"
| "thread_page fla sz (Suc i) m =
     (thread_page fla sz i m)(fla + of_nat (Suc i) * sz := fla + of_nat i * sz)"

definition new_page :: "nat \<Rightarrow> nat \<Rightarrow> vaddr \<Rightarrow> kernel \<Rightarrow> unit kresult" where
  "new_page blktype p prpage k =
     (let sz = sizes ! blktype; n = 4096 div nat (uint sz)
      in if \<not> blktype < length (sizebases k) then Undef
         else kbind (pr_set p (\<lambda>pr. pr\<lparr>pageaddr_and_blocktype := MKPAB prpage (of_nat blktype), nfree := int n,
                                  freelist_offset := uint (of_nat (n - 1) * sz),
                                  next_samesize := sizebases k ! blktype, next_all := allbase k\<rparr>) k) (\<lambda>_ k.
              Ret () (k\<lparr>kmem := thread_page prpage sz (n - 1) (kmem k),
                        sizebases := (sizebases k)[blktype := Some p], allbase := Some p\<rparr>)))"

definition subpage_kmalloc :: "32 word \<Rightarrow> kernel \<Rightarrow> vaddr kresult" where
  "subpage_kmalloc sz k =
     (case blocktype sz of
        None \<Rightarrow> Panic
      | Some blktype \<Rightarrow>
          let spl = curspl k
          in if \<not> blktype < length (sizebases k) then Undef
             else kbind (find_samesize list_fuel blktype (sizebases k ! blktype) (splhigh k)) (\<lambda>found k.
               case found of
                 Some p \<Rightarrow> doalloc spl p k
               | None \<Rightarrow>
                   kbind (allocpageref k) (\<lambda>r k.
                   case r of
                     None \<Rightarrow> Ret 0 (splx spl k)
                   | Some p \<Rightarrow>
                       kbind (alloc_kpages 1 k) (\<lambda>prpage k.
                       if prpage = 0 then kbind (freepageref p k) (\<lambda>_ k. Ret 0 (splx spl k))
                       else kbind (new_page blktype p prpage k) (\<lambda>_ k. doalloc spl p k)))))"

subsection \<open>Release\<close>

primrec find_page :: "nat \<Rightarrow> vaddr \<Rightarrow> nat option \<Rightarrow> kernel \<Rightarrow> nat option kresult" where
  "find_page 0 ptr p k = Undef"
| "find_page (Suc fuel) ptr p k =
     (case p of
        None \<Rightarrow> Ret None k
      | Some q \<Rightarrow>
          deref (pr_at k q) (\<lambda>pr.
            if \<not> PR_BLOCKTYPE pr < of_nat NSIZES then Panic
            else if PR_PAGEADDR pr \<le> ptr \<and> ptr < PR_PAGEADDR pr + PAGE_SIZE then Ret (Some q) k
            else find_page fuel ptr (next_all pr) k))"

definition fill_deadbeef :: "vaddr \<Rightarrow> 32 word \<Rightarrow> (vaddr \<Rightarrow> 32 word) \<Rightarrow> vaddr \<Rightarrow> 32 word" where
  "fill_deadbeef ptr len m = (\<lambda>a. if a - ptr < (len div 4) * 4 then 0xdeadbeef else m a)"

definition subpage_kfree :: "vaddr \<Rightarrow> kernel \<Rightarrow> int kresult" where
  "subpage_kfree ptr k =
     (let spl = curspl k
      in kbind (find_page list_fuel ptr (allbase k) (splhigh k)) (\<lambda>found k.
         case found of
           None \<Rightarrow> Ret (- 1) (splx spl k)
         | Some p \<Rightarrow>
             deref (pr_at k p) (\<lambda>pr.
             let prpage = PR_PAGEADDR pr; b = nat (uint (PR_BLOCKTYPE pr)); sz = sizes ! b;
                 offset = ptr - prpage; full = 4096 div uint sz
             in if offset \<ge> PAGE_SIZE \<or> offset mod sz \<noteq> 0 then Panic
                else
                  let link = (if freelist_offset pr = INVALID_OFFSET then 0
                              else prpage + word_of_int (freelist_offset pr));
                      nf = u16 (nfree pr + 1)
                  in kbind (pr_set p (\<lambda>pr. pr\<lparr>freelist_offset := uint offset, nfree := nf\<rparr>)
                              (k\<lparr>kmem := (fill_deadbeef ptr sz (kmem k))(prpage + offset := link)\<rparr>)) (\<lambda>_ k.
                     if \<not> nf \<le> full then Panic
                     else if nf = full
                     then kbind (remove_lists p b k) (\<lambda>_ k.
                          kbind (free_kpages prpage k) (\<lambda>_ k.
                          kbind (freepageref p k) (\<lambda>_ k. Ret 0 (splx spl k))))
                     else Ret 0 (splx spl k)))))"

definition kmalloc :: "32 word \<Rightarrow> kernel \<Rightarrow> vaddr kresult" where
  "kmalloc sz k =
     (if sz \<ge> LARGEST_SUBPAGE_SIZE
      then alloc_kpages (uint ((sz + PAGE_SIZE - 1) div PAGE_SIZE)) k
      else subpage_kmalloc sz k)"

definition kfree :: "vaddr \<Rightarrow> kernel \<Rightarrow> unit kresult" where
  "kfree ptr k =
     (if ptr = 0 then Ret () k
      else kbind (subpage_kfree ptr k) (\<lambda>r k.
        if r \<noteq> 0
        then (if ptr mod PAGE_SIZE \<noteq> 0 then Panic else free_kpages ptr k)
        else Ret () k))"

section \<open>Start-up, \<^verbatim>\<open>vm_bootstrap\<close>\<close>

text \<open>
  Entries of the core map are filled in one stolen page at a time until the memory is used up;
  \<open>n\<close> is the number of entries of the array that are left, and running past them is a write
  outside the page that holds it.
\<close>

primrec vm_bootstrap_fill :: "nat \<Rightarrow> nat \<Rightarrow> kernel \<Rightarrow> nat kresult" where
  "vm_bootstrap_fill 0 i k =
     kbind (alloc_kpages 1 k) (\<lambda>va k. if va \<noteq> 0 then Undef else Ret i k)"
| "vm_bootstrap_fill (Suc n) i k =
     kbind (alloc_kpages 1 k) (\<lambda>va k.
       if va \<noteq> 0
       then kbind (cm_set i (\<lambda>e. \<lparr>cm_pa = KVADDR_TO_PADDR va, cm_state = 0, cm_follower = 0,
                        cm_york = CHR ''n'', cm_thread_as = 0\<rparr>) k)
              (\<lambda>_ k. vm_bootstrap_fill n (Suc i) k)
       else Ret i k)"

definition cm_capacity :: nat where
  "cm_capacity = 204"

text \<open>
  \<open>garbage\<close> is what the page of the core map contains before it is written: 4096 bytes are 204
  entries of 20 bytes.
\<close>

definition vm_bootstrap :: "cm_entry list \<Rightarrow> kernel \<Rightarrow> unit kresult" where
  "vm_bootstrap garbage k =
     kbind (kmalloc PAGE_SIZE (k\<lparr>boott := 0\<rparr>)) (\<lambda>va k.
       if va = 0 then Undef
       else kbind (vm_bootstrap_fill cm_capacity 0 (k\<lparr>coremap := garbage\<rparr>)) (\<lambda>i k.
            kbind (kmalloc PAGE_SIZE (k\<lparr>coremapsize := int i, boott := 1\<rparr>)) (\<lambda>_ k. Ret () k)))"

end
