(* ===== verification/KVnode.thy ===== *)
theory KVnode
  imports Kern_State
begin

text \<open>
  Reference and open counts of vnodes, \<^verbatim>\<open>kern/fs/vfs/vnode.c\<close>. Each routine changes the counts
  between \<^verbatim>\<open>lock_acquire\<close> and \<^verbatim>\<open>lock_release\<close> of the vnode's own lock; the bracketed update is one
  step here, which is what the mutual exclusion of \<^verbatim>\<open>synch.c\<close> gives. The operations a vnode
  dispatches to (\<^verbatim>\<open>VOP_RECLAIM\<close>, \<^verbatim>\<open>VOP_CLOSE\<close>) are arguments.
\<close>

type_synonym vop = "vaddr \<Rightarrow> kernel \<Rightarrow> unit kresult"

definition vn_update :: "vaddr \<Rightarrow> (vnode \<Rightarrow> vnode) \<Rightarrow> kernel \<Rightarrow> kernel" where
  "vn_update vn f k = k\<lparr>vnodes := (vnodes k)(vn := map_option f (vnodes k vn))\<rparr>"

definition vnode_incref :: "vaddr \<Rightarrow> kernel \<Rightarrow> unit kresult" where
  "vnode_incref vn k =
     (if vn = 0 then Panic
      else deref (vnodes k vn) (\<lambda>v.
        Ret () (vn_update vn (\<lambda>v. v\<lparr>vn_refcount := s32 (vn_refcount v + 1)\<rparr>) k)))"

text \<open>The result of \<^verbatim>\<open>VOP_RECLAIM\<close> is only printed.\<close>

fun ignore_error :: "(unit, 's) result \<Rightarrow> (unit, 's) result" where
  "ignore_error (Err e k) = Ret () k"
| "ignore_error r = r"

definition vnode_decref :: "vop \<Rightarrow> vaddr \<Rightarrow> kernel \<Rightarrow> unit kresult" where
  "vnode_decref vop_reclaim vn k =
     (if vn = 0 then Panic
      else deref (vnodes k vn) (\<lambda>v.
        if \<not> vn_refcount v > 0 then Panic
        else if vn_refcount v > 1
        then Ret () (vn_update vn (\<lambda>v. v\<lparr>vn_refcount := vn_refcount v - 1\<rparr>) k)
        else ignore_error (vop_reclaim vn k)))"

definition vnode_incopen :: "vaddr \<Rightarrow> kernel \<Rightarrow> unit kresult" where
  "vnode_incopen vn k =
     (if vn = 0 then Panic
      else deref (vnodes k vn) (\<lambda>v.
        Ret () (vn_update vn (\<lambda>v. v\<lparr>vn_opencount := s32 (vn_opencount v + 1)\<rparr>) k)))"

definition vnode_decopen :: "vop \<Rightarrow> vaddr \<Rightarrow> kernel \<Rightarrow> unit kresult" where
  "vnode_decopen vop_close vn k =
     (if vn = 0 then Panic
      else deref (vnodes k vn) (\<lambda>v.
        if \<not> vn_opencount v > 0 then Panic
        else let k' = vn_update vn (\<lambda>v. v\<lparr>vn_opencount := vn_opencount v - 1\<rparr>) k
        in if vn_opencount v - 1 > 0 then Ret () k'
           else ignore_error (vop_close vn k')))"

text \<open>\<^verbatim>\<open>vfs_close\<close>: drop the open count and then the reference.\<close>

definition vfs_close :: "vop \<Rightarrow> vop \<Rightarrow> vaddr \<Rightarrow> kernel \<Rightarrow> unit kresult" where
  "vfs_close vop_close vop_reclaim vn k =
     kbind (vnode_decopen vop_close vn k) (\<lambda>_ k. vnode_decref vop_reclaim vn k)"

end
