(* ===== verification/KAddrSpace.thy ===== *)
theory KAddrSpace
  imports KHeap KVnode
begin

text \<open>
  Address spaces, \<^verbatim>\<open>kern/vm/addrspace.c\<close>, and the page-fault handler of \<^verbatim>\<open>kern/vm/vm.c\<close>. The
  first-level page table is an array in the address space; its entries are kernel addresses of
  second-level tables, which are pages of \<open>kmem\<close> whose words are the kernel addresses of the frames
  that hold the user's pages.
\<close>

section \<open>Address spaces\<close>

definition as_zero :: addrspace where
  "as_zero =
     \<lparr>as_vbase1 = 0, as_pbase1 = 0, as_npages1 = 0, as_offset1 = 0, is_executable1 = 0, as_filesize1 = 0,
      as_vbase2 = 0, as_pbase2 = 0, as_npages2 = 0, as_offset2 = 0, is_executable2 = 0, as_filesize2 = 0,
      as_stackpbase = 0, as_stackvbase = 0, as_vbase3 = 0, as_vtop3 = 0, as_pbase3 = 0, as_npages3 = 0,
      PT1 = replicate 1024 0, as_v = 0\<rparr>"

text \<open>
  \<^verbatim>\<open>sizeof(struct addrspace)\<close> is 4172 bytes, so the structure comes from \<^verbatim>\<open>alloc_kpages(2)\<close>, which
  clears the pages: the fields \<^verbatim>\<open>as_create\<close> does not set (offsets, file sizes and execute flags)
  are zero.
\<close>

definition sizeof_addrspace :: "32 word" where
  "sizeof_addrspace = 4172"

definition as_create :: "kernel \<Rightarrow> vaddr kresult" where
  "as_create k =
     kbind (kmalloc sizeof_addrspace k) (\<lambda>as k.
       if as = 0 then Ret 0 k
       else Ret as (k\<lparr>addrspaces := (addrspaces k)(as \<mapsto> as_zero)\<rparr>))"

text \<open>The two loops over the core map: first the user pages of the address space, then its kernel pages.\<close>

primrec as_free_user :: "vaddr \<Rightarrow> nat \<Rightarrow> nat \<Rightarrow> kernel \<Rightarrow> unit kresult" where
  "as_free_user as 0 i k = Ret () k"
| "as_free_user as (Suc n) i k =
     deref (cm_at k i) (\<lambda>e.
       if cm_york e = CHR ''u'' \<and> cm_thread_as e = as
       then kbind (free_kpages (PADDR_TO_KVADDR (cm_pa e)) k) (\<lambda>_ k. as_free_user as n (Suc i) k)
       else as_free_user as n (Suc i) k)"

primrec as_free_kernel :: "vaddr \<Rightarrow> nat \<Rightarrow> nat \<Rightarrow> kernel \<Rightarrow> unit kresult" where
  "as_free_kernel as 0 i k = Ret () k"
| "as_free_kernel as (Suc n) i k =
     deref (cm_at k i) (\<lambda>e.
       if cm_york e = CHR ''k'' \<and> cm_thread_as e = as
       then kbind (kfree (PADDR_TO_KVADDR (cm_pa e)) k) (\<lambda>_ k. as_free_kernel as n (Suc i) k)
       else as_free_kernel as n (Suc i) k)"

definition as_destroy :: "vaddr \<Rightarrow> kernel \<Rightarrow> unit kresult" where
  "as_destroy as k =
     kbind (as_free_user as (nat (coremapsize k)) 0 k) (\<lambda>_ k.
     kbind (as_free_kernel as (nat (coremapsize k)) 0 k) (\<lambda>_ k.
     deref (addrspaces k as) (\<lambda>_.
     kbind (kfree as k) (\<lambda>_ k. Ret () (k\<lparr>addrspaces := (addrspaces k)(as := None)\<rparr>)))))"

definition set_as :: "vaddr \<Rightarrow> (addrspace \<Rightarrow> addrspace) \<Rightarrow> kernel \<Rightarrow> unit kresult" where
  "set_as as f k = deref (addrspaces k as) (\<lambda>a. Ret () (k\<lparr>addrspaces := (addrspaces k)(as \<mapsto> f a)\<rparr>))"

text \<open>
  \<^verbatim>\<open>as_define_region\<close> on the structure itself: the region is widened to whole pages and stored in
  the first of the two regions whose base is still zero.
\<close>

definition region_npages :: "vaddr \<Rightarrow> 32 word \<Rightarrow> 32 word" where
  "region_npages va sz = ((sz + (va AND NOT PAGE_FRAME) + PAGE_SIZE - 1) AND PAGE_FRAME) div PAGE_SIZE"

definition as_define_region ::
  "vaddr \<Rightarrow> vaddr \<Rightarrow> 32 word \<Rightarrow> int \<Rightarrow> 32 word \<Rightarrow> vaddr \<Rightarrow> int \<Rightarrow> kernel \<Rightarrow> unit kresult" where
  "as_define_region as va sz offset filesize v executable k =
     deref (addrspaces k as) (\<lambda>a.
       let npages = region_npages va sz; base = va AND PAGE_FRAME;
           a1 = (if as_v a = 0 then a\<lparr>as_v := v\<rparr> else a)
       in if as_vbase1 a1 = 0 then
            Ret () (k\<lparr>addrspaces := (addrspaces k)(as \<mapsto>
              a1\<lparr>as_vbase1 := base, as_npages1 := npages, as_offset1 := offset,
                 is_executable1 := executable, as_filesize1 := filesize\<rparr>)\<rparr>)
          else if as_vbase2 a1 = 0 then
            Ret () (k\<lparr>addrspaces := (addrspaces k)(as \<mapsto>
              a1\<lparr>as_vbase2 := base, as_npages2 := npages, as_offset2 := offset,
                 is_executable2 := executable, as_filesize2 := filesize\<rparr>)\<rparr>)
          else Err EUNIMP (k\<lparr>addrspaces := (addrspaces k)(as \<mapsto> a1)\<rparr>))"

definition as_prepare_load :: "vaddr \<Rightarrow> kernel \<Rightarrow> unit kresult" where
  "as_prepare_load as k = Ret () k"

definition as_complete_load :: "vaddr \<Rightarrow> kernel \<Rightarrow> unit kresult" where
  "as_complete_load as k =
     set_as as (\<lambda>a. a\<lparr>as_vbase3 := as_vbase2 a + as_npages2 a * PAGE_SIZE,
                      as_vtop3 := as_vbase2 a + as_npages2 a * PAGE_SIZE\<rparr>) k"

definition USERSTACK :: vaddr where
  "USERSTACK = MIPS_KSEG0"

definition as_define_stack :: "vaddr \<Rightarrow> kernel \<Rightarrow> vaddr kresult" where
  "as_define_stack as k = Ret USERSTACK k"

section \<open>Page tables\<close>

definition pt2_word :: "vaddr \<Rightarrow> nat \<Rightarrow> vaddr" where
  "pt2_word pt2 j = pt2 + 4 * of_nat j"

definition page_copy :: "vaddr \<Rightarrow> vaddr \<Rightarrow> (vaddr \<Rightarrow> 32 word) \<Rightarrow> vaddr \<Rightarrow> 32 word" where
  "page_copy dst src m = (\<lambda>a. if a - dst < PAGE_SIZE then m (src + (a - dst)) else m a)"

text \<open>
  \<^verbatim>\<open>as_copy\<close>: the inner loop over a second-level table, from entry \<open>j\<close> on. A frame that cannot be
  had is not noticed: the copy goes to the null page, which has no defined result.
\<close>

primrec as_copy_pages :: "vaddr \<Rightarrow> vaddr \<Rightarrow> nat \<Rightarrow> nat \<Rightarrow> kernel \<Rightarrow> unit kresult" where
  "as_copy_pages old_pt2 new_pt2 0 j k = Ret () k"
| "as_copy_pages old_pt2 new_pt2 (Suc n) j k =
     (if kmem k (pt2_word old_pt2 j) \<noteq> 0
      then kbind (pmalloc 4096 k) (\<lambda>p k.
             if p = 0 then Undef
             else as_copy_pages old_pt2 new_pt2 n (Suc j)
               (k\<lparr>kmem := (let m = (kmem k)(pt2_word new_pt2 j := p)
                           in page_copy p (m (pt2_word old_pt2 j)) m)\<rparr>))
      else as_copy_pages old_pt2 new_pt2 n (Suc j) k)"

primrec as_copy_tables :: "vaddr \<Rightarrow> vaddr \<Rightarrow> nat \<Rightarrow> nat \<Rightarrow> kernel \<Rightarrow> unit kresult" where
  "as_copy_tables old new 0 i k = Ret () k"
| "as_copy_tables old new (Suc n) i k =
     deref (addrspaces k old) (\<lambda>a.
       if PT1 a ! i \<noteq> 0
       then kbind (kmalloc 4096 k) (\<lambda>pt2 k.
            if pt2 = 0 then Undef
            else kbind (set_as new (\<lambda>b. b\<lparr>PT1 := (PT1 b)[i := pt2]\<rparr>)
                          (k\<lparr>kmem := zeroed pt2 (kmem k)\<rparr>)) (\<lambda>_ k.
                 kbind (as_copy_pages (PT1 a ! i) pt2 1024 0 k) (\<lambda>_ k.
                 as_copy_tables old new n (Suc i) k)))
       else as_copy_tables old new n (Suc i) k)"

definition as_copy :: "vaddr \<Rightarrow> kernel \<Rightarrow> vaddr kresult" where
  "as_copy old k =
     kbind (as_create k) (\<lambda>new k.
       if new = 0 then Err ENOMEM k
       else deref (addrspaces k old) (\<lambda>a.
         kbind (set_as new (\<lambda>b. b\<lparr>as_vbase1 := as_vbase1 a, as_npages1 := as_npages1 a,
                   as_offset1 := as_offset1 a, is_executable1 := is_executable1 a,
                   as_vbase2 := as_vbase2 a, as_npages2 := as_npages2 a,
                   as_offset2 := as_offset2 a, is_executable2 := is_executable2 a,
                   as_vbase3 := as_vbase3 a, as_npages3 := as_npages3 a, as_v := as_v a\<rparr>) k) (\<lambda>_ k.
         kbind (as_copy_tables old new 1024 0 k) (\<lambda>_ k.
         kbind (as_prepare_load new k) (\<lambda>_ k.
         kbind (vnode_incref (as_v a) k) (\<lambda>_ k.
         kbind (vnode_incopen (as_v a) k) (\<lambda>_ k. Ret new k)))))))"

definition pt1_index :: "vaddr \<Rightarrow> nat" where
  "pt1_index va = unat (drop_bit 22 (va AND 0xffc00000))"

definition pt2_index :: "vaddr \<Rightarrow> nat" where
  "pt2_index va = unat (drop_bit 12 (va AND 0x003ff000))"

text \<open>
  \<^verbatim>\<open>fault_handler\<close>: the frame of a page of the current address space, allocating the second-level
  table and the frame when they are missing. The value is the physical address with the two flags
  \<^verbatim>\<open>*indicator\<close> (the page is new) and \<^verbatim>\<open>*out_of_memory\<close>.
\<close>

definition fault_handler :: "vaddr \<Rightarrow> kernel \<Rightarrow> (paddr \<times> bool \<times> bool) kresult" where
  "fault_handler faultaddress k =
     (let i = pt1_index faultaddress; j = pt2_index faultaddress
      in deref (cur_vmspace k) (\<lambda>as. deref (addrspaces k as) (\<lambda>a.
         if PT1 a ! i = 0
         then kbind (kmalloc 4096 k) (\<lambda>pt2 k.
              if pt2 = 0 then Undef
              else kbind (pmalloc 4096 (k\<lparr>kmem := zeroed pt2 (kmem k)\<rparr>)) (\<lambda>p k.
                   kbind (set_as as (\<lambda>a. a\<lparr>PT1 := (PT1 a)[i := pt2]\<rparr>)
                            (k\<lparr>kmem := (kmem k)(pt2_word pt2 j := p)\<rparr>)) (\<lambda>_ k.
                   Ret (KVADDR_TO_PADDR p, True, p = 0) k)))
         else if kmem k (pt2_word (PT1 a ! i) j) = 0
         then kbind (pmalloc 4096 k) (\<lambda>p k.
                Ret (KVADDR_TO_PADDR p, True, p = 0)
                    (k\<lparr>kmem := (kmem k)(pt2_word (PT1 a ! i) j := p)\<rparr>))
         else Ret (KVADDR_TO_PADDR (kmem k (pt2_word (PT1 a ! i) j)), False, False) k)))"

section \<open>Page faults\<close>

definition VM_FAULT_READ :: int where "VM_FAULT_READ = 0"
definition VM_FAULT_WRITE :: int where "VM_FAULT_WRITE = 1"
definition VM_FAULT_READONLY :: int where "VM_FAULT_READONLY = 2"

definition TLBLO_DIRTY :: "32 word" where "TLBLO_DIRTY = 0x400"
definition TLBLO_VALID :: "32 word" where "TLBLO_VALID = 0x200"

text \<open>
  How much of a new page is read from the file, as computed for region 1 and for region 2. The
  page number of the fault is relative to the region in the first and absolute in the second.
\<close>

definition load_filesize1 :: "vaddr \<Rightarrow> 32 word \<Rightarrow> vaddr \<Rightarrow> 32 word" where
  "load_filesize1 vbase filesize faultaddress =
     (let remainder = filesize mod PAGE_SIZE;
          num_of_pages = filesize div PAGE_SIZE + (if remainder \<noteq> 0 then 1 else 0);
          num_of_pages_fault = (faultaddress - vbase) div PAGE_SIZE + 1
      in if num_of_pages_fault < num_of_pages then PAGE_SIZE
         else if num_of_pages_fault = num_of_pages then remainder
         else filesize)"

definition load_filesize2 :: "32 word \<Rightarrow> vaddr \<Rightarrow> 32 word" where
  "load_filesize2 filesize faultaddress =
     (let remainder = filesize mod PAGE_SIZE;
          num_of_pages = (filesize - remainder) div PAGE_SIZE + (if remainder \<noteq> 0 then 1 else 0);
          num_of_pages_fault = faultaddress div PAGE_SIZE + 1
      in if num_of_pages_fault < num_of_pages then PAGE_SIZE
         else if num_of_pages_fault = num_of_pages then remainder
         else filesize)"

definition load_offset :: "int \<Rightarrow> vaddr \<Rightarrow> vaddr \<Rightarrow> int" where
  "load_offset offset vbase faultaddress = s32 (offset + uint faultaddress - uint (vbase AND PAGE_FRAME))"

text \<open>
  The first invalid TLB entry is used; if there is none the hardware picks a victim, \<open>slot\<close>.
\<close>

definition tlb_install :: "nat \<Rightarrow> vaddr \<Rightarrow> paddr \<Rightarrow> kernel \<Rightarrow> kernel" where
  "tlb_install slot faultaddress paddr k =
     (let elo = paddr OR TLBLO_DIRTY OR TLBLO_VALID
      in case first_index (\<lambda>(ehi, elo). elo AND TLBLO_VALID = 0) (take NUM_TLB (tlb k)) of
           Some i \<Rightarrow> TLB_Write faultaddress elo i k
         | None \<Rightarrow> TLB_Write faultaddress elo slot k)"

text \<open>
  \<open>load_page v offset vaddr memsize filesize executable\<close> reads the page from the executable; what
  it returns is ignored by the caller.
\<close>

type_synonym loader = "vaddr \<Rightarrow> int \<Rightarrow> vaddr \<Rightarrow> 32 word \<Rightarrow> 32 word \<Rightarrow> int \<Rightarrow> kernel \<Rightarrow> unit kresult"

definition fault_finish :: "nat \<Rightarrow> int \<Rightarrow> vaddr \<Rightarrow> paddr \<Rightarrow> kernel \<Rightarrow> unit kresult" where
  "fault_finish slot spl fa pa k =
     (if pa AND PAGE_FRAME \<noteq> pa then Panic else Ret () (splx spl (tlb_install slot fa pa k)))"

definition vm_fault :: "loader \<Rightarrow> nat \<Rightarrow> int \<Rightarrow> vaddr \<Rightarrow> kernel \<Rightarrow> unit kresult" where
  "vm_fault load_page slot faulttype faultaddress k =
     (let spl = curspl k; k = splhigh k; fa = faultaddress AND PAGE_FRAME
      in if faulttype = VM_FAULT_READONLY then Err EFAULT (splx spl k)
         else if faulttype \<noteq> VM_FAULT_READ \<and> faulttype \<noteq> VM_FAULT_WRITE then Err EINVAL (splx spl k)
         else deref (cur_vmspace k) (\<lambda>as.
         if as = 0 then Err EFAULT (splx spl k)
         else deref (addrspaces k as) (\<lambda>a.
           let vbase1 = as_vbase1 a; vtop1 = vbase1 + as_npages1 a * PAGE_SIZE;
               vbase2 = as_vbase2 a; vtop2 = vbase2 + as_npages2 a * PAGE_SIZE;
               stackbase = USERSTACK - 512 * PAGE_SIZE; stacktop = USERSTACK;
               vbase3 = as_vbase3 a; vtop3 = as_vtop3 a
           in if vbase1 \<le> fa \<and> fa < vtop1 then
                kbind (fault_handler fa k) (\<lambda>(pa, indicator, oom) k.
                  if oom then Err ENOMEM k
                  else if indicator
                  then kbind (ignore_error (load_page (as_v a) (load_offset (as_offset1 a) vbase1 fa) fa PAGE_SIZE
                                (load_filesize1 vbase1 (as_filesize1 a) fa) (is_executable1 a) k))
                         (\<lambda>_ k. Ret () (splx spl k))
                  else fault_finish slot spl fa pa k)
              else if vbase2 \<le> fa \<and> fa < vtop2 then
                kbind (fault_handler fa k) (\<lambda>(pa, indicator, oom) k.
                  if oom then Err ENOMEM k
                  else if indicator
                  then kbind (ignore_error (load_page (as_v a) (load_offset (as_offset2 a) vbase2 fa) fa PAGE_SIZE
                                (load_filesize2 (as_filesize2 a) fa) (is_executable2 a) k))
                         (\<lambda>_ k. Ret () (splx spl k))
                  else fault_finish slot spl fa pa k)
              else if stackbase < fa \<and> fa < stacktop then
                kbind (fault_handler fa k) (\<lambda>(pa, indicator, oom) k.
                  if oom then Err ENOMEM k else fault_finish slot spl fa pa k)
              else if vbase3 \<le> fa \<and> fa < vtop3 then
                kbind (fault_handler fa k) (\<lambda>(pa, indicator, oom) k.
                  if oom then Err ENOMEM k else fault_finish slot spl fa pa k)
              else Err EFAULT (splx spl k))))"

end
