(* ===== verification/KThread.thy ===== *)
theory KThread
  imports KSched KAddrSpace
begin

text \<open>
  Threads, \<^verbatim>\<open>kern/thread/thread.c\<close> and \<^verbatim>\<open>hardclock.c\<close>, with the interrupts that are taken while the
  processor idles. On the machine a call of \<^verbatim>\<open>mi_switch\<close> returns in another thread; here it ends
  with \<open>curthread\<close> set to that thread, whose \<open>pcb_cont\<close> says where it continues.
\<close>

section \<open>Semaphore V and the clock\<close>

text \<open>\<^verbatim>\<open>V\<close> of \<^verbatim>\<open>synch.c\<close> comes first because interrupt handlers call it.\<close>

definition V :: "vaddr allocator \<Rightarrow> vaddr \<Rightarrow> kernel \<Rightarrow> unit kresult" where
  "V km s k =
     (if s = 0 then Panic
      else let spl = curspl k; k = splhigh k
      in deref (sems k s) (\<lambda>sem.
           let c = s32 (sem_count sem + 1); k = k\<lparr>sems := (sems k)(s \<mapsto> sem\<lparr>sem_count := c\<rparr>)\<rparr>
           in if \<not> c > 0 then Panic
              else kbind (thread_wakeup km s k) (\<lambda>_ k. Ret () (splx spl k))))"

definition HZ :: int where
  "HZ = 100"

text \<open>\<^verbatim>\<open>hardclock\<close> up to its call of \<^verbatim>\<open>thread_yield\<close>.\<close>

definition hardclock_count :: "vaddr allocator \<Rightarrow> kernel \<Rightarrow> unit kresult" where
  "hardclock_count km k =
     (let c = s32 (lbolt_counter k + 1)
      in if c \<ge> HZ then thread_wakeup km (lbolt k) (k\<lparr>lbolt_counter := 0\<rparr>)
         else Ret () (k\<lparr>lbolt_counter := c\<rparr>))"

section \<open>Idling\<close>

text \<open>
  The interrupts of the machine: the timer, and a device whose driver signals a semaphore when an
  operation completes.
\<close>

datatype irq = Irq_clock | Irq_device vaddr

text \<open>
  An interrupt taken in \<^verbatim>\<open>cpu_idle\<close>. \<^verbatim>\<open>mips_trap\<close> saves the interrupt level, \<^verbatim>\<open>mips_interrupt\<close> the
  flag \<^verbatim>\<open>in_interrupt\<close>, and both put them back. \<^verbatim>\<open>curthread\<close> is null here, so the \<^verbatim>\<open>mi_switch\<close> in the
  \<^verbatim>\<open>thread_yield\<close> of \<^verbatim>\<open>hardclock\<close> returns at once.
\<close>

definition idle_interrupt :: "vaddr allocator \<Rightarrow> irq \<Rightarrow> kernel \<Rightarrow> unit kresult" where
  "idle_interrupt km irq k =
     (let savespl = curspl k; old_in = in_interrupt k; k = k\<lparr>curspl := SPL_HIGH, in_interrupt := 1\<rparr>
      in kbind (case irq of
                  Irq_clock \<Rightarrow>
                    kbind (hardclock_count km k) (\<lambda>_ k. if sleepers k = None then Panic else Ret () k)
                | Irq_device s \<Rightarrow> V km s k)
           (\<lambda>_ k. Ret () (k\<lparr>in_interrupt := old_in, curspl := savespl\<rparr>)))"

text \<open>
  \<^verbatim>\<open>scheduler\<close>: \<open>irqs\<close> are the interrupts that arrive while it idles. When they run out with the
  run queue still empty the processor waits for ever, and there is no result.
\<close>

fun scheduler :: "vaddr allocator \<Rightarrow> irq list \<Rightarrow> kernel \<Rightarrow> vaddr kresult" where
  "scheduler km irqs k =
     (if \<not> curspl k > 0 then Panic
      else deref (runqueue k) (\<lambda>q.
        if \<not> q_empty q then in_part (put_runqueue k) (q_remhead q)
        else case irqs of
          [] \<Rightarrow> Undef
        | irq # irqs' \<Rightarrow> kbind (idle_interrupt km irq k) (\<lambda>_ k. scheduler km irqs' k)))"

declare scheduler.simps [simp del]

section \<open>Disposing of threads\<close>

definition thread_destroy :: "vaddr \<Rightarrow> kernel \<Rightarrow> unit kresult" where
  "thread_destroy t k =
     (if t = curthread k then Panic
      else deref (threads k t) (\<lambda>th.
        if t_vmspace th \<noteq> 0 then Panic
        else if t_cwd th \<noteq> 0 then Panic
        else Ret () (k\<lparr>threads := (threads k)(t := None)\<rparr>)))"

primrec exorcise_loop :: "nat \<Rightarrow> int \<Rightarrow> kernel \<Rightarrow> unit kresult" where
  "exorcise_loop 0 i k = deref (zombies k) (\<lambda>a. if i < array_getnum a then Undef else Ret () k)"
| "exorcise_loop (Suc fuel) i k =
     deref (zombies k) (\<lambda>a.
       if \<not> i < array_getnum a then Ret () k
       else kbind (in_part (\<lambda>a. k\<lparr>zombies := Some a\<rparr>) (array_getguy a i)) (\<lambda>z k.
              if z = curthread k then Panic
              else kbind (thread_destroy z k) (\<lambda>_ k. exorcise_loop fuel (i + 1) k)))"

definition exorcise :: "vaddr allocator \<Rightarrow> kernel \<Rightarrow> unit kresult" where
  "exorcise km k =
     (if \<not> curspl k > 0 then Panic
      else deref (zombies k) (\<lambda>a.
        kbind (exorcise_loop (nat (array_getnum a)) 0 k) (\<lambda>_ k.
        deref (zombies k) (\<lambda>a.
          must_succeed (in_part (\<lambda>a. k\<lparr>zombies := Some a\<rparr>) (array_setsize km a 0))))))"

section \<open>Context switch\<close>

datatype threadstate = S_RUN | S_READY | S_SLEEP | S_ZOMB

definition stack_magic :: "32 word" where
  "stack_magic = 0xae11da33"

definition stack_ok :: "kernel \<Rightarrow> thread \<Rightarrow> bool" where
  "stack_ok k th \<longleftrightarrow> t_stack th = 0 \<or> kmem k (t_stack th) = stack_magic"

definition set_cont :: "kcont \<Rightarrow> thread \<Rightarrow> thread" where
  "set_cont c th = th\<lparr>t_pcb := (t_pcb th)\<lparr>pcb_cont := c\<rparr>\<rparr>"

definition cont_of :: "thread \<Rightarrow> kcont" where
  "cont_of th = pcb_cont (t_pcb th)"

definition md_switch :: "vaddr \<Rightarrow> vaddr \<Rightarrow> kernel \<Rightarrow> unit kresult" where
  "md_switch old nu k =
     (if old = nu then Ret () k
      else kbind (set_thread old (\<lambda>th. th\<lparr>t_pcb := (t_pcb th)\<lparr>pcb_kstack := curkstack k,
                                        pcb_ininterrupt := in_interrupt k\<rparr>\<rparr>) k) (\<lambda>_ k.
           deref (threads k nu) (\<lambda>th.
             Ret () (k\<lparr>curkstack := pcb_kstack (t_pcb th), in_interrupt := pcb_ininterrupt (t_pcb th)\<rparr>))))"

text \<open>The end of \<^verbatim>\<open>mi_switch\<close>, which a thread that starts does not go through.\<close>

definition switch_in :: "vaddr allocator \<Rightarrow> kernel \<Rightarrow> unit kresult" where
  "switch_in km k =
     deref (threads k (curthread k)) (\<lambda>th.
       case cont_of th of
         Start _ _ _ \<Rightarrow> Ret () k
       | _ \<Rightarrow> kbind (exorcise km k) (\<lambda>_ k.
               deref (threads k (curthread k)) (\<lambda>th.
                 Ret () (if t_vmspace th \<noteq> 0 then as_activate (t_vmspace th) k else k))))"

definition stash :: "vaddr allocator \<Rightarrow> threadstate \<Rightarrow> vaddr \<Rightarrow> kernel \<Rightarrow> unit kresult" where
  "stash km nextstate cur k =
     (case nextstate of
        S_READY \<Rightarrow> make_runnable km cur k
      | S_SLEEP \<Rightarrow> deref (sleepers k) (\<lambda>a. in_part (\<lambda>a. k\<lparr>sleepers := Some a\<rparr>) (array_add km a cur))
      | S_ZOMB \<Rightarrow> deref (zombies k) (\<lambda>a. in_part (\<lambda>a. k\<lparr>zombies := Some a\<rparr>) (array_add km a cur))
      | S_RUN \<Rightarrow> Panic)"

definition mi_switch ::
  "vaddr allocator \<Rightarrow> irq list \<Rightarrow> threadstate \<Rightarrow> kcont \<Rightarrow> kernel \<Rightarrow> unit kresult" where
  "mi_switch km irqs nextstate cont k =
     (if \<not> curspl k > 0 then Panic
      else if curthread k = 0 then Ret () k
      else deref (threads k (curthread k)) (\<lambda>th.
        if \<not> stack_ok k th then Panic
        else let cur = curthread k
        in kbind (set_thread cur (set_cont cont) (k\<lparr>curthread := 0\<rparr>)) (\<lambda>_ k.
           kbind (must_succeed (stash km nextstate cur k)) (\<lambda>_ k.
           kbind (scheduler km irqs k) (\<lambda>nu k.
           kbind (md_switch cur nu (k\<lparr>curthread := nu\<rparr>)) (\<lambda>_ k.
           switch_in km k))))))"

text \<open>
  With no current thread \<^verbatim>\<open>mi_switch\<close> returns at once and the interrupt level is put back.
\<close>

definition thread_yield :: "vaddr allocator \<Rightarrow> irq list \<Rightarrow> (int \<times> int) option \<Rightarrow> kernel \<Rightarrow> unit kresult" where
  "thread_yield km irqs from_interrupt k =
     (let spl = curspl k
      in if sleepers k = None then Panic
         else if curthread k = 0 then Ret () k
         else mi_switch km irqs S_READY (In_yield spl from_interrupt) (splhigh k))"

definition thread_sleep :: "vaddr allocator \<Rightarrow> irq list \<Rightarrow> vaddr \<Rightarrow> kcont \<Rightarrow> kernel \<Rightarrow> unit kresult" where
  "thread_sleep km irqs addr cont k =
     (if in_interrupt k \<noteq> 0 then Panic
      else kbind (set_thread (curthread k) (\<lambda>th. th\<lparr>t_sleepaddr := addr\<rparr>) k)
             (\<lambda>_ k. mi_switch km irqs S_SLEEP cont k))"

text \<open>
  The first half of the interrupt of a running thread: the timer leads to \<^verbatim>\<open>thread_yield\<close> inside
  the handler, a device signals its semaphore and returns to the thread.
\<close>

definition take_interrupt :: "vaddr allocator \<Rightarrow> irq list \<Rightarrow> irq \<Rightarrow> kernel \<Rightarrow> unit kresult" where
  "take_interrupt km irqs irq k =
     (let savespl = curspl k; old_in = in_interrupt k; k = k\<lparr>curspl := SPL_HIGH, in_interrupt := 1\<rparr>
      in case irq of
           Irq_clock \<Rightarrow>
             kbind (hardclock_count km k) (\<lambda>_ k. thread_yield km irqs (Some (old_in, savespl)) k)
         | Irq_device s \<Rightarrow>
             kbind (V km s k) (\<lambda>_ k. Ret () (k\<lparr>in_interrupt := old_in, curspl := savespl\<rparr>)))"

text \<open>\<^verbatim>\<open>mi_threadstart\<close> up to the call of the function.\<close>

definition mi_threadstart :: "kernel \<Rightarrow> unit kresult" where
  "mi_threadstart k =
     deref (threads k (curthread k)) (\<lambda>th.
       Ret () (spl0 (if t_vmspace th \<noteq> 0 then as_activate (t_vmspace th) k else k)))"

section \<open>Process table\<close>

definition P_TABLE_SIZE :: nat where
  "P_TABLE_SIZE = 100"

definition MAX_NUM_CHILD :: nat where
  "MAX_NUM_CHILD = 10"

definition proc_at :: "kernel \<Rightarrow> int \<Rightarrow> process_info option" where
  "proc_at k i = block_read (Some (process_table k)) i"

definition proc_set :: "int \<Rightarrow> (process_info \<Rightarrow> process_info) \<Rightarrow> kernel \<Rightarrow> unit kresult" where
  "proc_set i f k =
     deref (proc_at k i) (\<lambda>p. Ret () (k\<lparr>process_table := (process_table k)[nat i := f p]\<rparr>))"

text \<open>\<^verbatim>\<open>process_table[i].childIDs[j] = x\<close>; the array has \<^verbatim>\<open>MAX_NUM_CHILD\<close> entries.\<close>

definition child_write :: "int \<Rightarrow> int \<Rightarrow> int \<Rightarrow> kernel \<Rightarrow> unit kresult" where
  "child_write i j x k =
     deref (proc_at k i) (\<lambda>p. deref (block_write (Some (pi_childIDs p)) j x) (\<lambda>ids.
       proc_set i (\<lambda>p. p\<lparr>pi_childIDs := ids\<rparr>) k))"

definition proc0 :: process_info where
  "proc0 = \<lparr>pi_pid = - 1, pi_status = 0, pi_exitCode = 0, pi_numOfChild = 0,
            pi_childIDs = replicate MAX_NUM_CHILD 0, pi_has_been_waited = 0\<rparr>"

text \<open>
  \<^verbatim>\<open>initialize_Process_Table\<close>: the results of \<^verbatim>\<open>kmalloc\<close> are used before (or without) being
  compared with null, so a refusal has no defined result.
\<close>

definition initialize_Process_Table :: "bool \<Rightarrow> kernel \<Rightarrow> unit kresult" where
  "initialize_Process_Table granted k =
     (if granted then Ret () (k\<lparr>process_table := replicate P_TABLE_SIZE proc0\<rparr>) else Undef)"

text \<open>
  The search for an unused pid from \<open>i\<close> on, over \<open>n\<close> entries: \<open>None\<close> when the last entry of the
  table is in use as well.
\<close>

primrec find_pid :: "nat \<Rightarrow> nat \<Rightarrow> kernel \<Rightarrow> nat option kresult" where
  "find_pid 0 i k = Ret None k"
| "find_pid (Suc n) i k =
     deref (proc_at k (int i)) (\<lambda>p. if pi_pid p \<noteq> - 1 then find_pid n (Suc i) k else Ret (Some i) k)"

section \<open>Creating threads\<close>

text \<open>
  \<^verbatim>\<open>md_initpcb0\<close> and \<^verbatim>\<open>md_initpcb\<close>; the frame that the latter leaves on the new stack for
  \<^verbatim>\<open>mips_switch\<close> is the continuation \<open>Start\<close>.
\<close>

definition STACK_SIZE :: "32 word" where
  "STACK_SIZE = 4096"

definition md_initpcb0 :: "kernel \<Rightarrow> pcb" where
  "md_initpcb0 k =
     \<lparr>pcb_kstack = curkstack k, pcb_ininterrupt = 0, pcb_badfaultfunc = 0, pcb_cont = Running\<rparr>"

definition md_initpcb :: "vaddr \<Rightarrow> vaddr \<Rightarrow> 32 word \<Rightarrow> vaddr \<Rightarrow> pcb" where
  "md_initpcb stack data1 data2 func =
     (let stacktop = stack + STACK_SIZE
      in \<lparr>pcb_kstack = stacktop, pcb_ininterrupt = 0, pcb_badfaultfunc = 0, pcb_cont = Start data1 data2 func\<rparr>)"

text \<open>
  \<^verbatim>\<open>thread_create\<close>: \<open>p\<close> is the address \<^verbatim>\<open>kmalloc\<close> returns for the structure (0 if it refuses) and
  \<open>name_granted\<close> says whether \<^verbatim>\<open>kstrdup\<close> succeeds. When the process table is full the code returns
  the error number \<^verbatim>\<open>EAGAIN\<close> itself, as a pointer, with interrupts still off.
\<close>

definition thread_create :: "vaddr \<Rightarrow> bool \<Rightarrow> string \<Rightarrow> kernel \<Rightarrow> vaddr kresult" where
  "thread_create p name_granted name k =
     (if p = 0 then Ret 0 k
      else if \<not> name_granted then Ret 0 k
      else let th = thread0\<lparr>t_name := name, t_pid := 0\<rparr>; spl = curspl k;
               k = splhigh (k\<lparr>threads := (threads k)(p \<mapsto> th)\<rparr>)
      in kbind (find_pid (P_TABLE_SIZE - 1) 1 k) (\<lambda>found k.
           case found of
             None \<Rightarrow> Ret (word_of_int (errno_code EAGAIN)) k
           | Some i \<Rightarrow>
               kbind (proc_set (int i) (\<lambda>pr. pr\<lparr>pi_pid := int i, pi_status := 1, pi_exitCode := 0, pi_numOfChild := 0\<rparr>) k)
                 (\<lambda>_ k. kbind (set_thread p (\<lambda>th. th\<lparr>t_pid := int i\<rparr>) k) (\<lambda>_ k. Ret p (splx spl k)))))"

text \<open>Everything \<^verbatim>\<open>thread_fork\<close> asks the heap for, and the operations it reaches through vnodes.\<close>

record fork_env =
  fk_thread :: vaddr
  fk_name_granted :: bool
  fk_stack :: vaddr
  fk_reclaim :: vop
  fk_km :: "vaddr allocator"

text \<open>\<^verbatim>\<open>for (i=0; i<MAX_NUM_CHILD; i++) if (childIDs[i]==0) break;\<close>\<close>

definition child_slot :: "process_info \<Rightarrow> int" where
  "child_slot p =
     (case first_index (\<lambda>x. x = 0) (take MAX_NUM_CHILD (pi_childIDs p)) of
        None \<Rightarrow> int MAX_NUM_CHILD | Some i \<Rightarrow> int i)"

text \<open>The part of \<^verbatim>\<open>thread_fork\<close> that must be atomic.\<close>

definition fork_commit :: "fork_env \<Rightarrow> vaddr \<Rightarrow> kernel \<Rightarrow> unit kresult" where
  "fork_commit env newguy k =
     kbind (deref (sleepers k) (\<lambda>a. in_part (\<lambda>a. k\<lparr>sleepers := Some a\<rparr>)
              (array_preallocate (fk_km env) a (s32 (numthreads k + 1))))) (\<lambda>_ k.
     kbind (deref (zombies k) (\<lambda>a. in_part (\<lambda>a. k\<lparr>zombies := Some a\<rparr>)
              (array_preallocate (fk_km env) a (s32 (numthreads k + 1))))) (\<lambda>_ k.
     kbind (scheduler_preallocate (fk_km env) (s32 (numthreads k + 1)) k) (\<lambda>_ k.
     kbind (make_runnable (fk_km env) newguy k) (\<lambda>_ k.
       Ret () (k\<lparr>numthreads := s32 (numthreads k + 1)\<rparr>)))))"

definition fork_fail :: "fork_env \<Rightarrow> vaddr \<Rightarrow> errno \<Rightarrow> int \<Rightarrow> kernel \<Rightarrow> vaddr kresult" where
  "fork_fail env newguy e spl k =
     (let k = splx spl k
      in deref (threads k newguy) (\<lambda>th.
         kbind (if t_cwd th \<noteq> 0 then vnode_decref (fk_reclaim env) (t_cwd th) k else Ret () k) (\<lambda>_ k.
         kbind (if t_v th \<noteq> 0 then vnode_decref (fk_reclaim env) (t_v th) k else Ret () k) (\<lambda>_ k.
           Err e (k\<lparr>threads := (threads k)(newguy := None)\<rparr>)))))"

text \<open>The new thread inherits the working directory and the open file of its parent.\<close>

definition fork_inherit :: "vaddr \<Rightarrow> thread \<Rightarrow> kernel \<Rightarrow> unit kresult" where
  "fork_inherit newguy cur k =
     kbind (if t_cwd cur \<noteq> 0
            then kbind (vnode_incref (t_cwd cur) k) (\<lambda>_ k. set_thread newguy (\<lambda>th. th\<lparr>t_cwd := t_cwd cur\<rparr>) k)
            else Ret () k) (\<lambda>_ k.
     if t_v cur \<noteq> 0
     then kbind (vnode_incref (t_v cur) k) (\<lambda>_ k.
          kbind (vnode_incopen (t_v cur) k) (\<lambda>_ k. set_thread newguy (\<lambda>th. th\<lparr>t_v := t_v cur\<rparr>) k))
     else Ret () k)"

text \<open>The routine from the point where \<^verbatim>\<open>thread_create\<close> has returned.\<close>

definition fork_rest ::
  "fork_env \<Rightarrow> vaddr \<Rightarrow> 32 word \<Rightarrow> vaddr \<Rightarrow> vaddr \<Rightarrow> kernel \<Rightarrow> vaddr kresult" where
  "fork_rest env data1 data2 func newguy k =
     deref (threads k (curthread k)) (\<lambda>cur. let c = t_pid cur in
     kbind (proc_set c (\<lambda>p. p\<lparr>pi_numOfChild := s32 (pi_numOfChild p + 1)\<rparr>) k) (\<lambda>_ k.
     deref (proc_at k c) (\<lambda>p. deref (threads k newguy) (\<lambda>nt.
     kbind (child_write c (child_slot p) (t_pid nt) k) (\<lambda>_ k.
     if fk_stack env = 0 then Err ENOMEM (k\<lparr>threads := (threads k)(newguy := None)\<rparr>)
     else
     kbind (set_thread newguy (\<lambda>th. th\<lparr>t_stack := fk_stack env\<rparr>)
              (k\<lparr>kmem := (kmem k)(fk_stack env := stack_magic)\<rparr>)) (\<lambda>_ k.
     kbind (fork_inherit newguy cur k) (\<lambda>_ k.
     deref (proc_at k c) (\<lambda>p.
     kbind (child_write c (pi_numOfChild p) (t_pid nt) k) (\<lambda>_ k.
     kbind (proc_set c (\<lambda>p. p\<lparr>pi_numOfChild := s32 (pi_numOfChild p + 1)\<rparr>) k) (\<lambda>_ k.
     kbind (set_thread newguy (\<lambda>th. th\<lparr>t_pcb := md_initpcb (fk_stack env) data1 data2 func\<rparr>) k) (\<lambda>_ k.
     let s = curspl k in
     case fork_commit env newguy (splhigh k) of
       Ret _ k \<Rightarrow> Ret newguy (splx s k)
     | Err e k \<Rightarrow> fork_fail env newguy e s k
     | Panic \<Rightarrow> Panic
     | Undef \<Rightarrow> Undef)))))))))))"

definition thread_fork ::
  "fork_env \<Rightarrow> string \<Rightarrow> vaddr \<Rightarrow> 32 word \<Rightarrow> vaddr \<Rightarrow> kernel \<Rightarrow> vaddr kresult" where
  "thread_fork env name data1 data2 func k =
     kbind (thread_create (fk_thread env) (fk_name_granted env) name k)
       (\<lambda>newguy k. fork_rest env data1 data2 func newguy k)"

section \<open>Leaving\<close>

definition thread_exit :: "vaddr allocator \<Rightarrow> irq list \<Rightarrow> vop \<Rightarrow> vop \<Rightarrow> kernel \<Rightarrow> unit kresult" where
  "thread_exit km irqs vop_close vop_reclaim k =
     deref (threads k (curthread k)) (\<lambda>th.
     if \<not> stack_ok k th then Panic
     else
     kbind (proc_set (t_pid th) (\<lambda>p. p\<lparr>pi_status := 2\<rparr>) (splhigh k)) (\<lambda>_ k.
     kbind (if t_vmspace th \<noteq> 0
            then kbind (set_thread (curthread k) (\<lambda>th. th\<lparr>t_vmspace := 0\<rparr>) k) (\<lambda>_ k. as_destroy (t_vmspace th) k)
            else Ret () k) (\<lambda>_ k.
     kbind (if t_cwd th \<noteq> 0
            then kbind (vnode_decref vop_reclaim (t_cwd th) k) (\<lambda>_ k. set_thread (curthread k) (\<lambda>th. th\<lparr>t_cwd := 0\<rparr>) k)
            else Ret () k) (\<lambda>_ k.
     kbind (if t_v th \<noteq> 0
            then deref (vnodes k (t_v th)) (\<lambda>v.
              if vn_refcount v = 1 then vfs_close vop_close vop_reclaim (t_v th) k
              else kbind (vnode_decref vop_reclaim (t_v th) k) (\<lambda>_ k. vnode_decopen vop_close (t_v th) k))
            else Ret () k) (\<lambda>_ k.
     if \<not> numthreads k > 0 then Panic
     else mi_switch km irqs S_ZOMB In_exit (k\<lparr>numthreads := numthreads k - 1\<rparr>))))))"

section \<open>Start and shutdown\<close>

definition thread_bootstrap :: "bool \<Rightarrow> bool \<Rightarrow> bool \<Rightarrow> vaddr \<Rightarrow> bool \<Rightarrow> kernel \<Rightarrow> vaddr kresult" where
  "thread_bootstrap table_granted sleepers_granted zombies_granted p name_granted k =
     kbind (initialize_Process_Table table_granted k) (\<lambda>_ k.
     case array_create sleepers_granted of None \<Rightarrow> Panic | Some sl \<Rightarrow>
     case array_create zombies_granted of None \<Rightarrow> Panic | Some z \<Rightarrow>
     kbind (thread_create p name_granted ''<boot/menu>'' (k\<lparr>sleepers := Some sl, zombies := Some z\<rparr>)) (\<lambda>me k.
     if me = 0 then Panic
     else kbind (set_thread me (\<lambda>th. th\<lparr>t_pid := 1\<rparr>) k) (\<lambda>_ k.
     kbind (proc_set 1 (\<lambda>pr. pr\<lparr>pi_pid := 1, pi_numOfChild := s32 (pi_numOfChild pr + 1)\<rparr>) k) (\<lambda>_ k.
     deref (proc_at k 1) (\<lambda>pr.
     let i = (case first_index (\<lambda>x. x = 0) (drop 1 (take MAX_NUM_CHILD (pi_childIDs pr))) of
                None \<Rightarrow> int MAX_NUM_CHILD | Some i \<Rightarrow> int i + 1) in
     kbind (child_write 1 i 1 k) (\<lambda>_ k.
     kbind (child_write 1 (pi_numOfChild pr) 1 k) (\<lambda>_ k.
     kbind (proc_set 1 (\<lambda>pr. pr\<lparr>pi_numOfChild := s32 (pi_numOfChild pr + 1)\<rparr>) k) (\<lambda>_ k.
     kbind (set_thread me (\<lambda>th. th\<lparr>t_pcb := md_initpcb0 k\<rparr>) k) (\<lambda>_ k.
       Ret me (k\<lparr>curthread := me, numthreads := 1\<rparr>))))))))))"

primrec killall_names :: "nat \<Rightarrow> int \<Rightarrow> kernel \<Rightarrow> unit kresult" where
  "killall_names 0 i k = (if i < sleepers_getnum k then Undef else Ret () k)"
| "killall_names (Suc fuel) i k =
     (if \<not> i < sleepers_getnum k then Ret () k
      else kbind (sleepers_getguy k i) (\<lambda>t k. deref (threads k t) (\<lambda>_. killall_names fuel (i + 1) k)))"

definition thread_killall :: "vaddr allocator \<Rightarrow> kernel \<Rightarrow> unit kresult" where
  "thread_killall km k =
     (if \<not> curspl k > 0 then Panic
      else deref (sleepers k) (\<lambda>a.
        kbind (killall_names (nat (array_getnum a)) 0 k) (\<lambda>_ k.
        must_succeed (in_part (\<lambda>a. k\<lparr>sleepers := Some a\<rparr>) (array_setsize km a 0)))))"

definition thread_panic :: "vaddr allocator \<Rightarrow> kernel \<Rightarrow> unit kresult" where
  "thread_panic km k =
     (if \<not> curspl k > 0 then Panic
      else kbind (thread_killall km k) (\<lambda>_ k. scheduler_killall k))"

definition thread_shutdown :: "kernel \<Rightarrow> unit kresult" where
  "thread_shutdown k =
     deref (sleepers k) (\<lambda>sl. kbind (in_part (\<lambda>_. k\<lparr>sleepers := None\<rparr>) (array_destroy sl)) (\<lambda>_ k.
     deref (zombies k) (\<lambda>z. in_part (\<lambda>_. k\<lparr>zombies := None\<rparr>) (array_destroy z))))"

end
