(* ===== verification/KSynch.thy ===== *)
theory KSynch
  imports KThread
begin

text \<open>
  Semaphores, locks and condition variables, \<^verbatim>\<open>kern/thread/synch.c\<close>, \<^verbatim>\<open>clocksleep\<close> of
  \<^verbatim>\<open>hardclock.c\<close>, and the step relation of the kernel's threads. A routine that may sleep is split
  at its calls of \<^verbatim>\<open>thread_sleep\<close>: the part before ends in \<open>thread_sleep\<close>, the part after is a case
  of \<open>resume\<close>, run when the thread is on the processor again.
\<close>

section \<open>Returning to the caller\<close>

text \<open>The running thread leaves the routine: the interrupt level is put back.\<close>

definition leave :: "int \<Rightarrow> kernel \<Rightarrow> unit kresult" where
  "leave spl k = set_thread (curthread k) (set_cont Running) (splx spl k)"

section \<open>Semaphores\<close>

definition sem_create :: "vaddr \<Rightarrow> bool \<Rightarrow> string \<Rightarrow> int \<Rightarrow> kernel \<Rightarrow> vaddr kresult" where
  "sem_create p name_granted name initial_count k =
     (if \<not> initial_count \<ge> 0 then Panic
      else if p = 0 then Ret 0 k
      else if \<not> name_granted then Ret 0 k
      else Ret p (k\<lparr>sems := (sems k)(p \<mapsto> \<lparr>sem_name = name, sem_count = initial_count\<rparr>)\<rparr>))"

text \<open>
  \<^verbatim>\<open>sem_destroy\<close> looks for sleepers with interrupts off, turns them on again and only then frees the
  structure. The two halves are separate steps of the thread system, between which other threads may run.
\<close>

definition sem_destroy_test :: "vaddr \<Rightarrow> kernel \<Rightarrow> unit kresult" where
  "sem_destroy_test s k =
     (if s = 0 then Panic
      else let spl = curspl k
      in kbind (thread_hassleepers s (splhigh k)) (\<lambda>n k. if n \<noteq> 0 then Panic else Ret () (splx spl k)))"

definition sem_free :: "vaddr \<Rightarrow> kernel \<Rightarrow> unit kresult" where
  "sem_free s k = deref (sems k s) (\<lambda>_. Ret () (k\<lparr>sems := (sems k)(s := None)\<rparr>))"

definition sem_destroy :: "vaddr \<Rightarrow> kernel \<Rightarrow> unit kresult" where
  "sem_destroy s k = kbind (sem_destroy_test s k) (\<lambda>_ k. sem_free s k)"

definition P_loop :: "vaddr allocator \<Rightarrow> irq list \<Rightarrow> vaddr \<Rightarrow> int \<Rightarrow> kernel \<Rightarrow> unit kresult" where
  "P_loop km irqs s spl k =
     deref (sems k s) (\<lambda>sem.
       if sem_count sem = 0 then thread_sleep km irqs s (In_P s spl) k
       else if \<not> sem_count sem > 0 then Panic
       else leave spl (k\<lparr>sems := (sems k)(s \<mapsto> sem\<lparr>sem_count := sem_count sem - 1\<rparr>)\<rparr>))"

definition P :: "vaddr allocator \<Rightarrow> irq list \<Rightarrow> vaddr \<Rightarrow> kernel \<Rightarrow> unit kresult" where
  "P km irqs s k =
     (if s = 0 then Panic
      else if in_interrupt k \<noteq> 0 then Panic
      else P_loop km irqs s (curspl k) (splhigh k))"

section \<open>Locks\<close>

text \<open>\<^verbatim>\<open>lock_create\<close> does not set \<^verbatim>\<open>heldThread\<close>: \<open>garbage\<close> is what the memory held.\<close>

definition lock_create :: "vaddr \<Rightarrow> bool \<Rightarrow> vaddr \<Rightarrow> string \<Rightarrow> kernel \<Rightarrow> vaddr kresult" where
  "lock_create p name_granted garbage name k =
     (if p = 0 then Ret 0 k
      else if \<not> name_granted then Ret 0 k
      else Ret p (k\<lparr>locks := (locks k)(p \<mapsto> \<lparr>lk_name = name, lk_held = 0, lk_heldThread = garbage\<rparr>)\<rparr>))"

text \<open>As in \<^verbatim>\<open>sem_destroy\<close>, the structure is freed after the interrupt level has been put back. Whether the lock is held is not looked at.\<close>

definition lock_destroy_test :: "vaddr \<Rightarrow> kernel \<Rightarrow> unit kresult" where
  "lock_destroy_test l k =
     (if l = 0 then Panic
      else let spl = curspl k
      in kbind (thread_hassleepers l (splhigh k)) (\<lambda>n k. if n \<noteq> 0 then Panic else Ret () (splx spl k)))"

definition lock_free :: "vaddr \<Rightarrow> kernel \<Rightarrow> unit kresult" where
  "lock_free l k = deref (locks k l) (\<lambda>_. Ret () (k\<lparr>locks := (locks k)(l := None)\<rparr>))"

definition lock_destroy :: "vaddr \<Rightarrow> kernel \<Rightarrow> unit kresult" where
  "lock_destroy l k = kbind (lock_destroy_test l k) (\<lambda>_ k. lock_free l k)"

text \<open>\<open>outer\<close> is the interrupt level that \<^verbatim>\<open>cv_wait\<close> puts back after \<^verbatim>\<open>lock_acquire\<close> has put back its own.\<close>

definition lock_acquire_loop ::
  "vaddr allocator \<Rightarrow> irq list \<Rightarrow> vaddr \<Rightarrow> int \<Rightarrow> int option \<Rightarrow> kernel \<Rightarrow> unit kresult" where
  "lock_acquire_loop km irqs l spl outer k =
     deref (locks k l) (\<lambda>lk.
       if lk_held lk = 1 then thread_sleep km irqs l (In_lock_acquire l spl outer) k
       else leave (case outer of None \<Rightarrow> spl | Some s \<Rightarrow> s)
              (k\<lparr>locks := (locks k)(l \<mapsto> lk\<lparr>lk_held := 1, lk_heldThread := curthread k\<rparr>)\<rparr>))"

definition lock_acquire :: "vaddr allocator \<Rightarrow> irq list \<Rightarrow> vaddr \<Rightarrow> kernel \<Rightarrow> unit kresult" where
  "lock_acquire km irqs l k = lock_acquire_loop km irqs l (curspl k) None (splhigh k)"

definition lock_release :: "vaddr allocator \<Rightarrow> vaddr \<Rightarrow> kernel \<Rightarrow> unit kresult" where
  "lock_release km l k =
     (let spl = curspl k; k = splhigh k
      in deref (locks k l) (\<lambda>lk.
           if curthread k = lk_heldThread lk
           then kbind (thread_wakeup km l (k\<lparr>locks := (locks k)(l \<mapsto> lk\<lparr>lk_held := 0, lk_heldThread := 0\<rparr>)\<rparr>))
                  (\<lambda>_ k. Ret () (splx spl k))
           else Ret () (splx spl k)))"

definition lock_do_i_hold :: "vaddr \<Rightarrow> kernel \<Rightarrow> int kresult" where
  "lock_do_i_hold l k = deref (locks k l) (\<lambda>lk. Ret (if curthread k = lk_heldThread lk then 1 else 0) k)"

section \<open>Condition variables\<close>

definition cv_create :: "vaddr \<Rightarrow> bool \<Rightarrow> string \<Rightarrow> kernel \<Rightarrow> vaddr kresult" where
  "cv_create p name_granted name k =
     (if p = 0 then Ret 0 k
      else if \<not> name_granted then Ret 0 k
      else Ret p (k\<lparr>cvs := (cvs k)(p \<mapsto> \<lparr>cv_name = name\<rparr>)\<rparr>))"

definition cv_destroy :: "vaddr \<Rightarrow> kernel \<Rightarrow> unit kresult" where
  "cv_destroy c k =
     (if c = 0 then Panic else deref (cvs k c) (\<lambda>_. Ret () (k\<lparr>cvs := (cvs k)(c := None)\<rparr>)))"

definition cv_wait :: "vaddr allocator \<Rightarrow> irq list \<Rightarrow> vaddr \<Rightarrow> vaddr \<Rightarrow> kernel \<Rightarrow> unit kresult" where
  "cv_wait km irqs c l k =
     kbind (lock_do_i_hold l k) (\<lambda>h k.
       if h = 0 then Panic
       else let spl = curspl k
       in kbind (lock_release km l (splhigh k)) (\<lambda>_ k.
            thread_sleep km irqs c (In_cv_wait c l spl) k))"

definition cv_signal :: "vaddr allocator \<Rightarrow> vaddr \<Rightarrow> vaddr \<Rightarrow> kernel \<Rightarrow> unit kresult" where
  "cv_signal km c l k =
     kbind (lock_do_i_hold l k) (\<lambda>h k.
       if h = 0 then Panic
       else let spl = curspl k
       in kbind (thread_wakeupOne km c (splhigh k)) (\<lambda>_ k. Ret () (splx spl k)))"

definition cv_broadcast :: "vaddr allocator \<Rightarrow> vaddr \<Rightarrow> vaddr \<Rightarrow> kernel \<Rightarrow> unit kresult" where
  "cv_broadcast km c l k =
     kbind (lock_do_i_hold l k) (\<lambda>h k.
       if h = 0 then Panic
       else let spl = curspl k
       in kbind (thread_wakeup km c (splhigh k)) (\<lambda>_ k. Ret () (splx spl k)))"

section \<open>Sleeping on the clock\<close>

definition clocksleep_loop :: "vaddr allocator \<Rightarrow> irq list \<Rightarrow> int \<Rightarrow> int \<Rightarrow> kernel \<Rightarrow> unit kresult" where
  "clocksleep_loop km irqs num_secs spl k =
     (if num_secs > 0 then thread_sleep km irqs (lbolt k) (In_clocksleep num_secs spl) k
      else leave spl k)"

definition clocksleep :: "vaddr allocator \<Rightarrow> irq list \<Rightarrow> int \<Rightarrow> kernel \<Rightarrow> unit kresult" where
  "clocksleep km irqs num_secs k = clocksleep_loop km irqs num_secs (curspl k) (splhigh k)"

section \<open>Continuing after a switch\<close>

text \<open>The end of \<^verbatim>\<open>thread_sleep\<close>, which clears the sleep address.\<close>

definition awake :: "kernel \<Rightarrow> unit kresult" where
  "awake k = set_thread (curthread k) (\<lambda>th. th\<lparr>t_sleepaddr := 0\<rparr>) k"

definition resume :: "vaddr allocator \<Rightarrow> irq list \<Rightarrow> kernel \<Rightarrow> unit kresult" where
  "resume km irqs k =
     deref (threads k (curthread k)) (\<lambda>th.
       case cont_of th of
         Running \<Rightarrow> Ret () k
       | Start data1 data2 func \<Rightarrow>
           kbind (mi_threadstart k) (\<lambda>_ k. set_thread (curthread k) (set_cont Running) k)
       | In_yield spl None \<Rightarrow> leave spl k
       | In_yield spl (Some (old_in, savespl)) \<Rightarrow> leave savespl (k\<lparr>in_interrupt := old_in\<rparr>)
       | In_P s spl \<Rightarrow> kbind (awake k) (\<lambda>_ k. P_loop km irqs s spl k)
       | In_lock_acquire l spl outer \<Rightarrow> kbind (awake k) (\<lambda>_ k. lock_acquire_loop km irqs l spl outer k)
       | In_cv_wait c l spl \<Rightarrow>
           kbind (awake k) (\<lambda>_ k. lock_acquire_loop km irqs l (curspl k) (Some spl) (splhigh k))
       | In_clocksleep n spl \<Rightarrow> kbind (awake k) (\<lambda>_ k. clocksleep_loop km irqs (n - 1) spl k)
       | In_exit \<Rightarrow> Panic)"

section \<open>The step relation\<close>

text \<open>
  The routines of this part of the kernel that a running thread may call. The two halves of \<^verbatim>\<open>sem_destroy\<close> and of
  \<^verbatim>\<open>lock_destroy\<close> are calls of their own.
\<close>

datatype kcall =
    Call_P vaddr
  | Call_V vaddr
  | Call_acquire vaddr
  | Call_release vaddr
  | Call_wait vaddr vaddr
  | Call_signal vaddr vaddr
  | Call_broadcast vaddr vaddr
  | Call_yield
  | Call_clocksleep int
  | Call_sem_create vaddr bool string int
  | Call_sem_destroy_test vaddr
  | Call_sem_free vaddr
  | Call_lock_create vaddr bool vaddr string
  | Call_lock_destroy_test vaddr
  | Call_lock_free vaddr
  | Call_cv_create vaddr bool string
  | Call_cv_destroy vaddr
  | Call_fork fork_env string vaddr "32 word" vaddr
  | Call_exit vop vop

text \<open>The caller goes on whether the routine reports success or an error.\<close>

fun drop_value :: "'a kresult \<Rightarrow> unit kresult" where
  "drop_value (Ret a k) = Ret () k"
| "drop_value (Err e k) = Ret () k"
| "drop_value Panic = Panic"
| "drop_value Undef = Undef"

fun exec_call :: "vaddr allocator \<Rightarrow> irq list \<Rightarrow> kcall \<Rightarrow> kernel \<Rightarrow> unit kresult" where
  "exec_call km irqs (Call_P s) k = P km irqs s k"
| "exec_call km irqs (Call_V s) k = V km s k"
| "exec_call km irqs (Call_acquire l) k = lock_acquire km irqs l k"
| "exec_call km irqs (Call_release l) k = lock_release km l k"
| "exec_call km irqs (Call_wait c l) k = cv_wait km irqs c l k"
| "exec_call km irqs (Call_signal c l) k = cv_signal km c l k"
| "exec_call km irqs (Call_broadcast c l) k = cv_broadcast km c l k"
| "exec_call km irqs Call_yield k = thread_yield km irqs None k"
| "exec_call km irqs (Call_clocksleep n) k = clocksleep km irqs n k"
| "exec_call km irqs (Call_sem_create p g name n) k = drop_value (sem_create p g name n k)"
| "exec_call km irqs (Call_sem_destroy_test s) k = sem_destroy_test s k"
| "exec_call km irqs (Call_sem_free s) k = sem_free s k"
| "exec_call km irqs (Call_lock_create p g h name) k = drop_value (lock_create p g h name k)"
| "exec_call km irqs (Call_lock_destroy_test l) k = lock_destroy_test l k"
| "exec_call km irqs (Call_lock_free l) k = lock_free l k"
| "exec_call km irqs (Call_cv_create p g name) k = drop_value (cv_create p g name k)"
| "exec_call km irqs (Call_cv_destroy c) k = cv_destroy c k"
| "exec_call km irqs (Call_fork env name d1 d2 f) k = drop_value (thread_fork env name d1 d2 f k)"
| "exec_call km irqs (Call_exit vop_close vop_reclaim) k = thread_exit km irqs vop_close vop_reclaim k"

definition running :: "kernel \<Rightarrow> bool" where
  "running k \<longleftrightarrow> (case threads k (curthread k) of None \<Rightarrow> False | Some th \<Rightarrow> cont_of th = Running)"

end
