(* ===== verification/KSynchInv.thy ===== *)
theory KSynchInv
  imports KSynch "HOL-Library.Multiset"
begin

text \<open>
  The invariant of the thread system and its preservation by every step: the run queue, the
  sleepers and the zombies are disjoint, every thread in them is where its continuation says it
  should be, and nobody sleeps on a semaphore whose count is positive or on a lock that is free.
\<close>

section \<open>Invariant\<close>

definition zombies_inv :: "kernel \<Rightarrow> bool" where
  "zombies_inv k \<longleftrightarrow> (case zombies k of None \<Rightarrow> False | Some a \<Rightarrow> array_inv a)"

definition thread_ok :: "(thread \<Rightarrow> bool) \<Rightarrow> kernel \<Rightarrow> vaddr \<Rightarrow> bool" where
  "thread_ok Q k t \<longleftrightarrow> (case threads k t of None \<Rightarrow> False | Some th \<Rightarrow> Q th)"

text \<open>A thread in the run queue is inside one of the routines that switch, or starting.\<close>

definition queued_ok :: "thread \<Rightarrow> bool" where
  "queued_ok th \<longleftrightarrow> cont_of th \<noteq> Running \<and> cont_of th \<noteq> In_exit"

definition dead_ok :: "thread \<Rightarrow> bool" where
  "dead_ok th \<longleftrightarrow> cont_of th = In_exit \<and> t_vmspace th = 0 \<and> t_cwd th = 0"

text \<open>
  A sleeper sleeps on the object its routine waits for, and that object is not available; it may have been freed by a thread
  that had looked for sleepers before this one fell asleep.
\<close>

definition sleeper_ok :: "kernel \<Rightarrow> thread \<Rightarrow> bool" where
  "sleeper_ok k th \<longleftrightarrow>
     (case cont_of th of
        In_P s spl \<Rightarrow>
          t_sleepaddr th = s \<and> (case sems k s of None \<Rightarrow> True | Some sem \<Rightarrow> sem_count sem = 0)
      | In_lock_acquire l spl outer \<Rightarrow>
          t_sleepaddr th = l \<and> (case locks k l of None \<Rightarrow> True | Some lk \<Rightarrow> lk_held lk = 1)
      | In_cv_wait c l spl \<Rightarrow> t_sleepaddr th = c
      | In_clocksleep n spl \<Rightarrow> t_sleepaddr th = lbolt k
      | _ \<Rightarrow> False)"

lemma sleeper_ok_queued: "sleeper_ok k th \<Longrightarrow> queued_ok th"
  by (auto simp: sleeper_ok_def queued_ok_def split: kcont.splits)

definition used_pids :: "kernel \<Rightarrow> nat" where
  "used_pids k = length (filter (\<lambda>p. pi_pid p \<noteq> - 1) (process_table k))"

text \<open>
  \<open>X\<close> are the threads in hand: the current one, or nobody while the scheduler runs. \<open>S\<close> is what
  holds of the sleepers and \<open>d\<close> how far \<^verbatim>\<open>numthreads\<close> is behind (1 in the last steps of
  \<^verbatim>\<open>thread_exit\<close>). No thread structure is at the null address, nor at the address whose value is
  the error number that \<^verbatim>\<open>thread_create\<close> may return in place of a pointer.
\<close>

definition everyone :: "vaddr list \<Rightarrow> kernel \<Rightarrow> vaddr list" where
  "everyone X k = X @ ready k @ asleep k @ dead k"

definition core :: "(thread \<Rightarrow> bool) \<Rightarrow> vaddr list \<Rightarrow> int \<Rightarrow> kernel \<Rightarrow> bool" where
  "core S X d k \<longleftrightarrow>
     lists_inv k \<and> zombies_inv k \<and>
     distinct (everyone X k) \<and> 0 \<notin> set (everyone X k) \<and>
     (\<forall>t \<in> set X. known k t) \<and>
     (\<forall>t \<in> set (ready k). thread_ok queued_ok k t) \<and>
     (\<forall>t \<in> set (asleep k). thread_ok S k t) \<and>
     (\<forall>t \<in> set (dead k). thread_ok dead_ok k t) \<and>
     int (length X + length (ready k) + length (asleep k)) = numthreads k + d \<and>
     length (everyone X k) \<le> used_pids k \<and> length (process_table k) = P_TABLE_SIZE \<and>
     (\<forall>s sem. sems k s = Some sem \<longrightarrow> 0 \<le> sem_count sem) \<and>
     (\<forall>l lk. locks k l = Some lk \<longrightarrow> lk_held lk = 0 \<or> lk_held lk = 1) \<and>
     threads k 0 = None \<and> threads k (word_of_int (errno_code EAGAIN)) = None"

definition sched_inv :: "vaddr list \<Rightarrow> int \<Rightarrow> kernel \<Rightarrow> bool" where
  "sched_inv X d k \<longleftrightarrow> core (sleeper_ok k) X d k"

lemma used_pids_bound: "length (process_table k) = P_TABLE_SIZE \<Longrightarrow> used_pids k \<le> 100"
  using length_filter_le [of "\<lambda>p. pi_pid p \<noteq> - 1" "process_table k"]
  by (simp add: used_pids_def P_TABLE_SIZE_def)

lemma core_sizes:
  assumes "core S X d k"
  shows "length (everyone X k) \<le> 100" "length (asleep k) + length (ready k) \<le> max_ready"
    "length (ready k) < max_ready" "length (dead k) \<le> 100"
proof -
  show *: "length (everyone X k) \<le> 100"
    using assms used_pids_bound [of k] by (simp add: core_def)
  then show "length (asleep k) + length (ready k) \<le> max_ready" "length (ready k) < max_ready"
    "length (dead k) \<le> 100"
    by (simp_all add: everyone_def max_ready_def)
qed

lemma thread_ok_mono: "thread_ok Q k t \<Longrightarrow> (\<And>th. Q th \<Longrightarrow> Q' th) \<Longrightarrow> thread_ok Q' k t"
  by (auto simp: thread_ok_def split: option.splits)

lemma thread_ok_known: "thread_ok Q k t \<Longrightarrow> known k t"
  by (auto simp: thread_ok_def known_def split: option.splits)

lemma core_known:
  "core S X d k \<Longrightarrow> t \<in> set (everyone X k) \<Longrightarrow> known k t"
  by (auto simp: core_def everyone_def intro: thread_ok_known)

lemma core_mono:
  "core S X d k \<Longrightarrow> (\<And>t th. t \<in> set (asleep k) \<Longrightarrow> threads k t = Some th \<Longrightarrow> S th \<Longrightarrow> S' th) \<Longrightarrow> core S' X d k"
  by (auto simp: core_def thread_ok_def split: option.splits)

text \<open>The invariant only reads these parts of the state.\<close>

lemma core_cong:
  assumes "runqueue k' = runqueue k" "sleepers k' = sleepers k" "zombies k' = zombies k" "threads k' = threads k"
    "numthreads k' = numthreads k" "process_table k' = process_table k" "sems k' = sems k" "locks k' = locks k"
  shows "core S X d k' = core S X d k"
  using assms
  by (simp add: core_def everyone_def lists_inv_def runq_inv_def zombies_inv_def ready_def asleep_def dead_def
      thread_ok_def known_def used_pids_def)

lemma sleeper_ok_cong:
  assumes "sems k' = sems k" "locks k' = locks k" "lbolt k' = lbolt k"
  shows "sleeper_ok k' = sleeper_ok k"
  using assms by (simp add: sleeper_ok_def fun_eq_iff split: kcont.splits)

lemma sched_inv_cong:
  assumes "runqueue k' = runqueue k" "sleepers k' = sleepers k" "zombies k' = zombies k" "threads k' = threads k"
    "numthreads k' = numthreads k" "process_table k' = process_table k" "sems k' = sems k" "locks k' = locks k"
    "lbolt k' = lbolt k"
  shows "sched_inv X d k' = sched_inv X d k"
  using core_cong [OF assms(1-8)] sleeper_ok_cong [OF assms(7-9)] by (simp add: sched_inv_def)

lemma core_update [simp]:
  "core S X d (k\<lparr>curspl := x_curspl\<rparr>) = core S X d k"
  "core S X d (k\<lparr>in_interrupt := x_in_interrupt\<rparr>) = core S X d k"
  "core S X d (k\<lparr>lbolt_counter := x_lbolt_counter\<rparr>) = core S X d k"
  "core S X d (k\<lparr>curthread := x_curthread\<rparr>) = core S X d k"
  "core S X d (k\<lparr>curkstack := x_curkstack\<rparr>) = core S X d k"
  "core S X d (k\<lparr>tlb := x_tlb\<rparr>) = core S X d k"
  "core S X d (k\<lparr>kmem := x_kmem\<rparr>) = core S X d k"
  "core S X d (k\<lparr>vnodes := x_vnodes\<rparr>) = core S X d k"
  "core S X d (k\<lparr>addrspaces := x_addrspaces\<rparr>) = core S X d k"
  "core S X d (k\<lparr>coremap := x_coremap\<rparr>) = core S X d k"
  "core S X d (k\<lparr>pagerefs := x_pagerefs\<rparr>) = core S X d k"
  "core S X d (k\<lparr>pagerefs_inuse := x_pagerefs_inuse\<rparr>) = core S X d k"
  "core S X d (k\<lparr>sizebases := x_sizebases\<rparr>) = core S X d k"
  "core S X d (k\<lparr>allbase := x_allbase\<rparr>) = core S X d k"
  "core S X d (k\<lparr>cvs := x_cvs\<rparr>) = core S X d k"
  by (rule core_cong; simp)+

lemma sched_inv_update [simp]:
  "sched_inv X d (k\<lparr>curspl := x_curspl\<rparr>) = sched_inv X d k"
  "sched_inv X d (k\<lparr>in_interrupt := x_in_interrupt\<rparr>) = sched_inv X d k"
  "sched_inv X d (k\<lparr>lbolt_counter := x_lbolt_counter\<rparr>) = sched_inv X d k"
  "sched_inv X d (k\<lparr>curthread := x_curthread\<rparr>) = sched_inv X d k"
  "sched_inv X d (k\<lparr>curkstack := x_curkstack\<rparr>) = sched_inv X d k"
  "sched_inv X d (k\<lparr>tlb := x_tlb\<rparr>) = sched_inv X d k"
  "sched_inv X d (k\<lparr>kmem := x_kmem\<rparr>) = sched_inv X d k"
  "sched_inv X d (k\<lparr>vnodes := x_vnodes\<rparr>) = sched_inv X d k"
  "sched_inv X d (k\<lparr>addrspaces := x_addrspaces\<rparr>) = sched_inv X d k"
  "sched_inv X d (k\<lparr>coremap := x_coremap\<rparr>) = sched_inv X d k"
  "sched_inv X d (k\<lparr>pagerefs := x_pagerefs\<rparr>) = sched_inv X d k"
  "sched_inv X d (k\<lparr>pagerefs_inuse := x_pagerefs_inuse\<rparr>) = sched_inv X d k"
  "sched_inv X d (k\<lparr>sizebases := x_sizebases\<rparr>) = sched_inv X d k"
  "sched_inv X d (k\<lparr>allbase := x_allbase\<rparr>) = sched_inv X d k"
  "sched_inv X d (k\<lparr>cvs := x_cvs\<rparr>) = sched_inv X d k"
  by (rule sched_inv_cong; simp)+

lemma sched_inv_spl [simp]:
  "sched_inv X d (splx s k) = sched_inv X d k" "sched_inv X d (splhigh k) = sched_inv X d k"
  "sched_inv X d (spl0 k) = sched_inv X d k" "core S X d (splx s k) = core S X d k"
  "core S X d (splhigh k) = core S X d k" "core S X d (spl0 k) = core S X d k"
  by (simp_all add: spl_defs)

section \<open>Waking\<close>

lemma wakeup_keeps:
  assumes km: "allocator_ok km" and inv: "core S X d k" and spl: "curspl k > 0"
    and S: "\<And>th. S th \<Longrightarrow> queued_ok th"
  shows "returns (thread_wakeup km addr k) (\<lambda>_ k'.
    core (\<lambda>th. S th \<and> t_sleepaddr th \<noteq> addr) X d k' \<and> besides k' = besides k \<and>
    set (ready k) \<subseteq> set (ready k'))"
proof -
  have li: "lists_inv k" and kn: "\<forall>t \<in> set (asleep k). known k t"
    using inv core_known [OF inv] by (auto simp: core_def everyone_def)
  from thread_wakeup_cases [OF li spl km core_sizes(2) [OF inv] kn, of addr] show ?thesis
  proof (elim disjE exE conjE)
    fix k' assume k': "thread_wakeup km addr k = Ret () k'" "lists_inv k'" "besides k' = besides k"
      "asleep k' = filter (\<lambda>t. \<not> sleeping_on addr k t) (asleep k)"
      "ready k' = ready k @ filter (sleeping_on addr k) (asleep k)"
    note same = besidesD [OF k'(3)]
    have dead: "dead k' = dead k" using same by (simp add: dead_def)
    have "mset (asleep k) + D = filter_mset (sleeping_on addr k) (mset (asleep k)) +
        (filter_mset (\<lambda>t. \<not> sleeping_on addr k t) (mset (asleep k)) + D)" for D
      using multiset_partition [of "mset (asleep k)" "sleeping_on addr k"] by (metis add.assoc)
    then have ms: "mset (everyone X k') = mset (everyone X k)"
      using k'(4,5) dead by (simp add: everyone_def)
    have "distinct (everyone X k')" "length (everyone X k') = length (everyone X k)"
      "0 \<notin> set (everyone X k')"
      using inv mset_eq_imp_distinct_iff [OF ms] mset_eq_length [OF ms] mset_eq_setD [OF ms]
      by (simp_all add: core_def)
    moreover have "\<forall>t \<in> set (ready k'). thread_ok queued_ok k' t"
      using inv k'(5) same S by (auto simp: core_def thread_ok_def split: option.splits)
    moreover have "\<forall>t \<in> set (asleep k'). thread_ok (\<lambda>th. S th \<and> t_sleepaddr th \<noteq> addr) k' t"
      using inv k'(4) same by (auto simp: core_def thread_ok_def sleeping_on_def split: option.splits)
    moreover have "length (ready k') + length (asleep k') = length (ready k) + length (asleep k)"
      using k'(4,5) sum_length_filter_compl [of "sleeping_on addr k" "asleep k"] by simp
    ultimately have "core (\<lambda>th. S th \<and> t_sleepaddr th \<noteq> addr) X d k'"
      using inv same dead k'(2)
      by (simp add: core_def zombies_inv_def thread_ok_def known_def used_pids_def)
    with k' show ?thesis by simp
  qed simp
qed

lemma wakeupOne_keeps:
  assumes km: "allocator_ok km" and inv: "core S X d k" and spl: "curspl k > 0"
    and S: "\<And>th. S th \<Longrightarrow> queued_ok th"
  shows "returns (thread_wakeupOne km addr k) (\<lambda>_ k'. core S X d k' \<and> besides k' = besides k)"
proof -
  have li: "lists_inv k" and kn: "\<forall>t \<in> set (asleep k). known k t"
    using inv core_known [OF inv] by (auto simp: core_def everyone_def)
  note cases = thread_wakeupOne_cases [OF li spl km core_sizes(2) [OF inv] kn, of addr]
  show ?thesis
  proof (cases "first_index (sleeping_on addr k) (asleep k)")
    case None
    with cases inv show ?thesis by simp
  next
    case (Some j)
    then have j: "j < length (asleep k)" by (simp add: first_index_eq_Some)
    from cases Some show ?thesis
    proof (simp, elim disjE exE conjE)
      fix k' assume k': "thread_wakeupOne km addr k = Ret () k'" "lists_inv k'" "besides k' = besides k"
        "asleep k' = take j (asleep k) @ drop (Suc j) (asleep k)" "ready k' = ready k @ [asleep k ! j]"
      note same = besidesD [OF k'(3)]
      have dead: "dead k' = dead k" using same by (simp add: dead_def)
      have al: "asleep k = take j (asleep k) @ asleep k ! j # drop (Suc j) (asleep k)"
        using j by (simp add: id_take_nth_drop)
      have ms: "mset (everyone X k') = mset (everyone X k)"
        using k'(4,5) dead arg_cong [OF al, of mset] by (simp add: everyone_def)
      have dis: "distinct (everyone X k')" "length (everyone X k') = length (everyone X k)"
        "0 \<notin> set (everyone X k')"
        using inv mset_eq_imp_distinct_iff [OF ms] mset_eq_length [OF ms] mset_eq_setD [OF ms]
        by (simp_all add: core_def)
      have "thread_ok S k (asleep k ! j)" using inv j by (simp add: core_def)
      then have rd: "\<forall>t \<in> set (ready k'). thread_ok queued_ok k' t"
        using inv k'(5) same S by (auto simp: core_def thread_ok_def split: option.splits)
      have sl: "\<forall>t \<in> set (asleep k'). thread_ok S k' t"
        using inv k'(4) same by (auto simp: core_def thread_ok_def dest: in_set_takeD in_set_dropD)
      have "length (ready k') + length (asleep k') = length (ready k) + length (asleep k)"
        using k'(4,5) j by simp
      with dis rd sl have "core S X d k'"
        using inv same dead k'(2)
        by (simp add: core_def zombies_inv_def thread_ok_def known_def used_pids_def)
      with k' show ?thesis by simp
    qed simp
  qed
qed

section \<open>Interrupts\<close>

text \<open>What an interrupt can change: the two lists, the semaphores and the clock's counter.\<close>

definition settled :: "kernel \<Rightarrow> kernel" where
  "settled k = k\<lparr>sleepers := None, runqueue := None, sems := Map.empty, lbolt_counter := 0\<rparr>"

lemma settled_select:
  "curspl (settled k) = curspl k"
  "in_interrupt (settled k) = in_interrupt k"
  "curkstack (settled k) = curkstack k"
  "tlb (settled k) = tlb k"
  "kmem (settled k) = kmem k"
  "addrspaces (settled k) = addrspaces k"
  "vnodes (settled k) = vnodes k"
  "curthread (settled k) = curthread k"
  "threads (settled k) = threads k"
  "process_table (settled k) = process_table k"
  "zombies (settled k) = zombies k"
  "numthreads (settled k) = numthreads k"
  "lbolt (settled k) = lbolt k"
  "locks (settled k) = locks k"
  "cvs (settled k) = cvs k"
  by (simp_all add: settled_def)

lemma settled_cong: "settled k' = settled k \<Longrightarrow> f (settled k') = f (settled k)"
  by simp

lemmas settledD =
  settled_cong [of _ _ curspl, unfolded settled_select]
  settled_cong [of _ _ in_interrupt, unfolded settled_select]
  settled_cong [of _ _ curkstack, unfolded settled_select]
  settled_cong [of _ _ tlb, unfolded settled_select]
  settled_cong [of _ _ kmem, unfolded settled_select]
  settled_cong [of _ _ addrspaces, unfolded settled_select]
  settled_cong [of _ _ vnodes, unfolded settled_select]
  settled_cong [of _ _ curthread, unfolded settled_select]
  settled_cong [of _ _ threads, unfolded settled_select]
  settled_cong [of _ _ process_table, unfolded settled_select]
  settled_cong [of _ _ zombies, unfolded settled_select]
  settled_cong [of _ _ numthreads, unfolded settled_select]
  settled_cong [of _ _ lbolt, unfolded settled_select]
  settled_cong [of _ _ locks, unfolded settled_select]
  settled_cong [of _ _ cvs, unfolded settled_select]

lemma settled_besides: "besides k' = besides k \<Longrightarrow> settled k' = settled k"
proof -
  assume "besides k' = besides k"
  moreover have "settled k = (besides k)\<lparr>sems := Map.empty, lbolt_counter := 0\<rparr>" for k
    by (simp add: settled_def besides_def)
  ultimately show ?thesis by simp
qed

lemma settled_update:
  "settled (k\<lparr>sems := m\<rparr>) = settled k" "settled (k\<lparr>lbolt_counter := c\<rparr>) = settled k"
  "settled (k\<lparr>curspl := s\<rparr>) = (settled k)\<lparr>curspl := s\<rparr>"
  "settled (k\<lparr>in_interrupt := i\<rparr>) = (settled k)\<lparr>in_interrupt := i\<rparr>"
  "settled (k\<lparr>runqueue := r\<rparr>) = settled k"
  "(settled k)\<lparr>curspl := curspl k\<rparr> = settled k"
  "(settled k)\<lparr>in_interrupt := in_interrupt k\<rparr> = settled k"
  "(settled k)\<lparr>in_interrupt := in_interrupt k, curspl := curspl k\<rparr> = settled k"
  by (simp_all add: settled_def)

lemma V_keeps:
  assumes km: "allocator_ok km" and inv: "sched_inv X d k"
  shows "returns (V km s k) (\<lambda>_ k'. sched_inv X d k' \<and> settled k' = settled k)"
proof (rule returnsI)
  fix a k' assume V: "V km s k = Ret a k'"
  then obtain sem where sem: "sems k s = Some sem" "s \<noteq> 0"
    by (auto simp: V_def Let_def deref_def spl_defs split: if_splits option.splits)
  let ?c = "s32 (sem_count sem + 1)"
  let ?k2 = "(splhigh k)\<lparr>sems := (sems k)(s \<mapsto> sem\<lparr>sem_count := ?c\<rparr>)\<rparr>"
  from V sem obtain k3 where c: "?c > 0" and wake: "thread_wakeup km s ?k2 = Ret () k3"
    and k': "k' = splx (curspl k) k3"
    by (auto simp: V_def Let_def spl_defs kbind_eq_Ret split: if_splits)
  let ?S = "\<lambda>th. queued_ok th \<and> (t_sleepaddr th \<noteq> s \<longrightarrow> sleeper_ok ?k2 th)"
  have "core (sleeper_ok k) X d k" using inv by (simp add: sched_inv_def)
  then have "core (sleeper_ok k) X d ?k2"
    using c by (auto simp: spl_defs core_def everyone_def lists_inv_def runq_inv_def zombies_inv_def ready_def
        asleep_def dead_def thread_ok_def known_def used_pids_def)
  then have "core ?S X d ?k2"
    by (rule core_mono) (auto simp: sleeper_ok_def queued_ok_def spl_defs split: kcont.splits)
  from wakeup_keeps [OF km this, of s] wake
  have core3: "core (\<lambda>th. ?S th \<and> t_sleepaddr th \<noteq> s) X d k3" and b3: "besides k3 = besides ?k2"
    by (auto simp: spl_defs)
  note same = besidesD [OF b3]
  have "sleeper_ok k3 = sleeper_ok ?k2" using same by (intro sleeper_ok_cong) auto
  then have "core (sleeper_ok k3) X d k3" by (intro core_mono [OF core3]) auto
  then have "sched_inv X d k'" by (simp add: k') (simp add: sched_inv_def)
  moreover have "settled k' = settled k"
    using settled_besides [OF b3] by (simp add: k' spl_defs settled_update)
  ultimately show "sched_inv X d k' \<and> settled k' = settled k" ..
qed

lemma wakeup_sched:
  assumes km: "allocator_ok km" and inv: "sched_inv X d k" and spl: "curspl k > 0"
  shows "returns (thread_wakeup km addr k) (\<lambda>_ k'. sched_inv X d k' \<and> besides k' = besides k)"
proof (rule returns_mono [OF wakeup_keeps [OF km _ spl]])
  show "core (sleeper_ok k) X d k" using inv by (simp add: sched_inv_def)
  fix k' assume k': "core (\<lambda>th. sleeper_ok k th \<and> t_sleepaddr th \<noteq> addr) X d k' \<and>
    besides k' = besides k \<and> set (ready k) \<subseteq> set (ready k')"
  then have "besides k' = besides k" by simp
  note same = besidesD [OF this]
  have "sleeper_ok k' = sleeper_ok k" using same by (intro sleeper_ok_cong) auto
  with k' show "sched_inv X d k' \<and> besides k' = besides k"
    by (auto simp: sched_inv_def intro: core_mono)
qed (rule sleeper_ok_queued)

lemma wakeupOne_sched:
  assumes km: "allocator_ok km" and inv: "sched_inv X d k" and spl: "curspl k > 0"
  shows "returns (thread_wakeupOne km addr k) (\<lambda>_ k'. sched_inv X d k' \<and> besides k' = besides k)"
proof (rule returns_mono [OF wakeupOne_keeps [OF km _ spl]])
  show "core (sleeper_ok k) X d k" using inv by (simp add: sched_inv_def)
  fix k' assume k': "core (sleeper_ok k) X d k' \<and> besides k' = besides k"
  then have "besides k' = besides k" by simp
  note same = besidesD [OF this]
  have "sleeper_ok k' = sleeper_ok k" using same by (intro sleeper_ok_cong) auto
  with k' show "sched_inv X d k' \<and> besides k' = besides k" by (simp add: sched_inv_def)
qed (rule sleeper_ok_queued)

lemma hardclock_count_keeps:
  assumes km: "allocator_ok km" and inv: "sched_inv X d k" and spl: "curspl k > 0"
  shows "returns (hardclock_count km k) (\<lambda>_ k'. sched_inv X d k' \<and> settled k' = settled k)"
proof -
  have "returns (thread_wakeup km (lbolt k) (k\<lparr>lbolt_counter := 0\<rparr>))
      (\<lambda>_ k'. sched_inv X d k' \<and> besides k' = besides (k\<lparr>lbolt_counter := 0\<rparr>))"
    using inv spl by (intro wakeup_sched [OF km]) simp_all
  then have "returns (thread_wakeup km (lbolt k) (k\<lparr>lbolt_counter := 0\<rparr>))
      (\<lambda>_ k'. sched_inv X d k' \<and> settled k' = settled k)"
    by (rule returns_mono) (auto dest: settled_besides simp: settled_update)
  with inv show ?thesis by (simp add: hardclock_count_def Let_def settled_update)
qed

lemma idle_interrupt_keeps:
  assumes km: "allocator_ok km" and inv: "sched_inv X d k"
  shows "returns (idle_interrupt km irq k) (\<lambda>_ k'. sched_inv X d k' \<and> settled k' = settled k)"
proof -
  let ?k = "k\<lparr>curspl := SPL_HIGH, in_interrupt := 1\<rparr>"
  have inv': "sched_inv X d ?k" using inv by simp
  have hc: "returns (hardclock_count km ?k) (\<lambda>_ k'. sched_inv X d k' \<and> settled k' = settled ?k)"
    by (rule hardclock_count_keeps [OF km inv']) (simp add: SPL_HIGH_def)
  note v = V_keeps [OF km inv']
  show ?thesis
  proof (cases irq)
    case Irq_clock
    show ?thesis
      unfolding idle_interrupt_def Let_def Irq_clock irq.case returns_kbind
      by (rule returns_mono [OF hc]) (auto simp: settled_update)
  next
    case (Irq_device s)
    show ?thesis
      unfolding idle_interrupt_def Let_def Irq_device irq.case returns_kbind
      by (rule returns_mono [OF v]) (auto simp: settled_update)
  qed
qed

section \<open>Choosing the next thread\<close>

lemma sched_inv_dequeue:
  assumes inv: "sched_inv X d k" and q: "runqueue k = Some q" "q_list q = t # ts"
    and q': "queue_inv q'" "q_list q' = ts" "q_size q' = q_size q"
  shows "sched_inv (t # X) d (k\<lparr>runqueue := Some q'\<rparr>) \<and> thread_ok queued_ok k t"
proof -
  let ?k = "k\<lparr>runqueue := Some q'\<rparr>"
  have r: "ready k = t # ts" "ready ?k = ts" "asleep ?k = asleep k" "dead ?k = dead k"
    using q q' by (simp_all add: ready_def asleep_def dead_def)
  have "mset (everyone (t # X) ?k) = mset (everyone X k)" by (simp add: everyone_def r)
  then have dis: "distinct (everyone (t # X) ?k) = distinct (everyone X k)"
    "length (everyone (t # X) ?k) = length (everyone X k)" "set (everyone (t # X) ?k) = set (everyone X k)"
    by (auto dest: mset_eq_imp_distinct_iff mset_eq_length mset_eq_setD)
  have "sleeper_ok ?k = sleeper_ok k" by (rule sleeper_ok_cong) simp_all
  moreover have "core (sleeper_ok k) X d k" using inv by (simp add: sched_inv_def)
  moreover have "known k t" using inv r thread_ok_known by (auto simp: sched_inv_def core_def)
  ultimately show ?thesis
    using q q' dis r unfolding sched_inv_def core_def
    by (simp add: lists_inv_def runq_inv_def zombies_inv_def thread_ok_def known_def used_pids_def)
qed

lemma scheduler_keeps:
  assumes km: "allocator_ok km"
  shows "sched_inv X d k \<Longrightarrow> returns (scheduler km irqs k) (\<lambda>nu k'.
    sched_inv (nu # X) d k' \<and> settled k' = settled k \<and> thread_ok queued_ok k' nu)"
proof (induction irqs arbitrary: k)
  case Nil
  show ?case
  proof (cases "runqueue k")
    case None
    then show ?thesis by (simp add: scheduler.simps)
  next
    case (Some q)
    with Nil have qi: "queue_inv q" by (simp add: sched_inv_def core_def lists_inv_def runq_inv_def)
    show ?thesis
    proof (cases "q_list q")
      case Nil
      with qi Some show ?thesis by (simp add: scheduler.simps q_empty_iff)
    next
      case (Cons t ts)
      from q_remhead_Cons [OF qi Cons] obtain q' where q': "q_remhead q = Ret t q'" "queue_inv q'"
        "q_list q' = ts" "q_size q' = q_size q" by blast
      from sched_inv_dequeue [OF \<open>sched_inv X d k\<close> Some Cons q'(2-4)] q'(1) Some qi Cons show ?thesis
        by (simp add: scheduler.simps q_empty_iff put_runqueue_def settled_update thread_ok_def)
    qed
  qed
next
  case (Cons irq irqs)
  show ?case
  proof (cases "runqueue k")
    case None
    then show ?thesis by (simp add: scheduler.simps)
  next
    case (Some q)
    with Cons.prems have qi: "queue_inv q" by (simp add: sched_inv_def core_def lists_inv_def runq_inv_def)
    show ?thesis
    proof (cases "q_list q")
      case (Cons t ts)
      from q_remhead_Cons [OF qi Cons] obtain q' where q': "q_remhead q = Ret t q'" "queue_inv q'"
        "q_list q' = ts" "q_size q' = q_size q" by blast
      from sched_inv_dequeue [OF \<open>sched_inv X d k\<close> Some Cons q'(2-4)] q'(1) Some qi Cons show ?thesis
        by (simp add: scheduler.simps q_empty_iff put_runqueue_def settled_update thread_ok_def)
    next
      case Nil
      have "returns (idle_interrupt km irq k) (\<lambda>_ k1. returns (scheduler km irqs k1) (\<lambda>nu k'.
          sched_inv (nu # X) d k' \<and> settled k' = settled k \<and> thread_ok queued_ok k' nu))"
        by (rule returns_mono [OF idle_interrupt_keeps [OF km Cons.prems]])
           (auto intro: returns_mono [OF Cons.IH])
      with Nil qi Some show ?thesis
        by (subst scheduler.simps) (simp add: q_empty_iff)
    qed
  qed
qed

section \<open>Changing one thread\<close>

lemma threads_update_same:
  "ready (k\<lparr>threads := m\<rparr>) = ready k" "asleep (k\<lparr>threads := m\<rparr>) = asleep k" "dead (k\<lparr>threads := m\<rparr>) = dead k"
  "sleeper_ok (k\<lparr>threads := m\<rparr>) = sleeper_ok k" "lists_inv (k\<lparr>threads := m\<rparr>) = lists_inv k"
  "zombies_inv (k\<lparr>threads := m\<rparr>) = zombies_inv k" "used_pids (k\<lparr>threads := m\<rparr>) = used_pids k"
proof -
  show "sleeper_ok (k\<lparr>threads := m\<rparr>) = sleeper_ok k" by (rule sleeper_ok_cong) simp_all
qed (simp_all add: ready_def asleep_def dead_def lists_inv_def runq_inv_def zombies_inv_def used_pids_def)

text \<open>The thread in hand may be changed freely: it is on none of the lists.\<close>

lemma sched_inv_in_hand:
  assumes inv: "sched_inv X d k" and t: "t \<in> set X"
  shows "sched_inv X d (k\<lparr>threads := (threads k)(t \<mapsto> th)\<rparr>)"
proof -
  let ?k = "k\<lparr>threads := (threads k)(t \<mapsto> th)\<rparr>"
  have same: "ready ?k = ready k" "asleep ?k = asleep k" "dead ?k = dead k" "sleeper_ok ?k = sleeper_ok k"
    "lists_inv ?k = lists_inv k" "zombies_inv ?k = zombies_inv k" "used_pids ?k = used_pids k"
    by (rule threads_update_same)+
  have "distinct (everyone X k)" using inv by (simp add: sched_inv_def core_def)
  then have "t \<notin> set (ready k)" "t \<notin> set (asleep k)" "t \<notin> set (dead k)" using t by (auto simp: everyone_def)
  then have "thread_ok Q ?k u = thread_ok Q k u" if "u \<in> set (ready k @ asleep k @ dead k)" for Q u
    using that by (auto simp: thread_ok_def)
  moreover have "threads ?k 0 = None" "threads ?k (word_of_int (errno_code EAGAIN)) = None"
    using inv t by (auto simp: sched_inv_def core_def known_def)
  ultimately show ?thesis
    using inv unfolding sched_inv_def core_def everyone_def same by (auto simp: known_def)
qed

text \<open>The saved registers of any thread may change.\<close>

definition same_role :: "thread \<Rightarrow> thread \<Rightarrow> bool" where
  "same_role th th' \<longleftrightarrow> cont_of th' = cont_of th \<and> t_sleepaddr th' = t_sleepaddr th \<and>
     t_vmspace th' = t_vmspace th \<and> t_cwd th' = t_cwd th"

lemma same_role_ok:
  assumes "same_role th th'"
  shows "queued_ok th' = queued_ok th" "dead_ok th' = dead_ok th" "sleeper_ok k th' = sleeper_ok k th"
  using assms by (simp_all add: same_role_def queued_ok_def dead_ok_def sleeper_ok_def split: kcont.splits)

lemma sched_inv_same_role:
  assumes inv: "sched_inv X d k" and t: "threads k t = Some th" and role: "same_role th th'"
  shows "sched_inv X d (k\<lparr>threads := (threads k)(t \<mapsto> th')\<rparr>)"
proof -
  let ?k = "k\<lparr>threads := (threads k)(t \<mapsto> th')\<rparr>"
  have same: "ready ?k = ready k" "asleep ?k = asleep k" "dead ?k = dead k" "sleeper_ok ?k = sleeper_ok k"
    "lists_inv ?k = lists_inv k" "zombies_inv ?k = zombies_inv k" "used_pids ?k = used_pids k"
    by (rule threads_update_same)+
  have "thread_ok queued_ok ?k u = thread_ok queued_ok k u" "thread_ok dead_ok ?k u = thread_ok dead_ok k u"
    "thread_ok (sleeper_ok k) ?k u = thread_ok (sleeper_ok k) k u" for u
    using t same_role_ok [OF role] by (auto simp: thread_ok_def)
  moreover have "threads ?k 0 = None" "threads ?k (word_of_int (errno_code EAGAIN)) = None"
    using inv t by (auto simp: sched_inv_def core_def known_def)
  ultimately show ?thesis
    using inv unfolding sched_inv_def core_def everyone_def same by (auto simp: known_def)
qed

section \<open>Putting the current thread away\<close>

lemma sched_inv_lists:
  assumes inv: "sched_inv X d k" and li: "lists_inv k'" "zombies_inv k'"
    and ms: "mset (everyone X' k') = mset (everyone X k)"
    and parts: "\<forall>t \<in> set X'. known k t" "\<forall>t \<in> set (ready k'). thread_ok queued_ok k t"
      "\<forall>t \<in> set (asleep k'). thread_ok (sleeper_ok k) k t" "\<forall>t \<in> set (dead k'). thread_ok dead_ok k t"
    and n: "int (length X' + length (ready k') + length (asleep k')) = numthreads k + d'"
    and same: "threads k' = threads k" "numthreads k' = numthreads k" "process_table k' = process_table k"
      "sems k' = sems k" "locks k' = locks k" "lbolt k' = lbolt k"
  shows "sched_inv X' d' k'"
proof -
  have "sleeper_ok k' = sleeper_ok k" using same by (intro sleeper_ok_cong) simp_all
  moreover have "distinct (everyone X' k')" "length (everyone X' k') = length (everyone X k)"
    "0 \<notin> set (everyone X' k')"
    using inv mset_eq_imp_distinct_iff [OF ms] mset_eq_length [OF ms] mset_eq_setD [OF ms]
    by (simp_all add: sched_inv_def core_def)
  ultimately show ?thesis
    using inv li parts n same unfolding sched_inv_def core_def
    by (simp add: thread_ok_def known_def used_pids_def)
qed

lemma sched_invD:
  assumes "sched_inv X d k"
  shows "lists_inv k" "zombies_inv k" "\<forall>t \<in> set X. known k t" "\<forall>t \<in> set (ready k). thread_ok queued_ok k t"
    "\<forall>t \<in> set (asleep k). thread_ok (sleeper_ok k) k t" "\<forall>t \<in> set (dead k). thread_ok dead_ok k t"
    "int (length X + length (ready k) + length (asleep k)) = numthreads k + d"
    "length (everyone X k) \<le> 100" "distinct (everyone X k)" "0 \<notin> set (everyone X k)"
  using assms core_sizes [of "sleeper_ok k" X d k] by (simp_all add: sched_inv_def core_def)

lemma stash_ready_keeps:
  assumes km: "allocator_ok km" and inv: "sched_inv (cur # X) d k" and spl: "curspl k > 0"
    and cur: "thread_ok queued_ok k cur"
  shows "returns (stash km S_READY cur k) (\<lambda>_ k'. sched_inv X d k' \<and> settled k' = settled k)"
proof -
  note i = sched_invD [OF inv]
  have "runq_inv k" using i(1) by (simp add: lists_inv_def)
  moreover have "length (ready k) < max_ready"
    using inv core_sizes(3) [of "sleeper_ok k" "cur # X" d k] by (simp add: sched_inv_def)
  ultimately have "make_runnable km cur k = Err ENOMEM k \<and> run_room k = 0 \<or>
    (\<exists>q. make_runnable km cur k = Ret () (k\<lparr>runqueue := Some q\<rparr>) \<and> runq_inv (k\<lparr>runqueue := Some q\<rparr>) \<and>
       q_list q = ready k @ [cur] \<and> run_room k \<le> Suc (q_room q))"
    by (rule make_runnable_cases [OF _ spl km])
  then show ?thesis
  proof (elim disjE exE conjE)
    fix q assume q: "make_runnable km cur k = Ret () (k\<lparr>runqueue := Some q\<rparr>)" "runq_inv (k\<lparr>runqueue := Some q\<rparr>)"
      "q_list q = ready k @ [cur]"
    let ?k = "k\<lparr>runqueue := Some q\<rparr>"
    have r: "ready ?k = ready k @ [cur]" "asleep ?k = asleep k" "dead ?k = dead k"
      using q by (simp_all add: ready_def asleep_def dead_def)
    have "sched_inv X d ?k"
    proof (rule sched_inv_lists [OF inv])
      show "lists_inv ?k" by (rule lists_inv_runqueue [OF i(1) q(2)])
      show "zombies_inv ?k" using i(2) by (simp add: zombies_inv_def)
      show "mset (everyone X ?k) = mset (everyone (cur # X) k)" by (simp add: everyone_def r)
    qed (use i cur in \<open>simp_all add: r\<close>)
    with q show ?thesis by (simp add: stash_def settled_update)
  qed (simp add: stash_def)
qed

lemma array_add_cases:
  assumes "array_inv a" "allocator_ok km" "length (array_list a) \<le> 100"
  shows "returns (array_add km a p) (\<lambda>_ a'. array_inv a' \<and> array_list a' = array_list a @ [p])"
proof (rule outcome_returns [OF array_add_outcome [OF assms(1,2)]])
  show "a_num a < array_limit" using length_array_list [OF assms(1)] assms(3) by (simp add: array_limit_def)
qed

lemma stash_sleep_keeps:
  assumes km: "allocator_ok km" and inv: "sched_inv (cur # X) d k" and cur: "thread_ok (sleeper_ok k) k cur"
  shows "returns (stash km S_SLEEP cur k) (\<lambda>_ k'. sched_inv X d k' \<and> settled k' = settled k)"
proof -
  note i = sched_invD [OF inv]
  from i(1) obtain a where a: "sleepers k = Some a" "array_inv a" "runq_inv k" by (elim lists_invD)
  have "length (array_list a) \<le> 100" using i(8) a by (simp add: everyone_def asleep_def)
  from array_add_cases [OF a(2) km this, of cur]
  have "returns (array_add km a cur) (\<lambda>_ a'. sched_inv X d (k\<lparr>sleepers := Some a'\<rparr>))"
  proof (rule returns_mono)
    fix a' assume a': "array_inv a' \<and> array_list a' = array_list a @ [cur]"
    let ?k = "k\<lparr>sleepers := Some a'\<rparr>"
    have r: "ready ?k = ready k" "asleep ?k = asleep k @ [cur]" "dead ?k = dead k"
      using a a' by (simp_all add: ready_def asleep_def dead_def)
    show "sched_inv X d ?k"
    proof (rule sched_inv_lists [OF inv])
      show "lists_inv ?k" using a a' by (simp add: lists_inv_def runq_inv_def)
      show "zombies_inv ?k" using i(2) by (simp add: zombies_inv_def)
      show "mset (everyone X ?k) = mset (everyone (cur # X) k)" by (simp add: everyone_def r)
    qed (use i cur in \<open>simp_all add: r\<close>)
  qed
  with a show ?thesis
    by (auto simp: stash_def settled_def elim: returns_mono)
qed

lemma stash_zombie_keeps:
  assumes km: "allocator_ok km" and inv: "sched_inv (cur # X) (d + 1) k" and cur: "thread_ok dead_ok k cur"
  shows "returns (stash km S_ZOMB cur k) (\<lambda>_ k'. sched_inv X d k' \<and>
    settled (k'\<lparr>zombies := None\<rparr>) = settled (k\<lparr>zombies := None\<rparr>))"
proof -
  note i = sched_invD [OF inv]
  from i(2) obtain a where a: "zombies k = Some a" "array_inv a"
    by (auto simp: zombies_inv_def split: option.splits)
  have "length (array_list a) \<le> 100" using i(8) a by (simp add: everyone_def dead_def)
  from array_add_cases [OF a(2) km this, of cur]
  have "returns (array_add km a cur) (\<lambda>_ a'. sched_inv X d (k\<lparr>zombies := Some a'\<rparr>))"
  proof (rule returns_mono)
    fix a' assume a': "array_inv a' \<and> array_list a' = array_list a @ [cur]"
    let ?k = "k\<lparr>zombies := Some a'\<rparr>"
    have r: "ready ?k = ready k" "asleep ?k = asleep k" "dead ?k = dead k @ [cur]"
      using a a' by (simp_all add: ready_def asleep_def dead_def)
    show "sched_inv X d ?k"
    proof (rule sched_inv_lists [OF inv])
      show "lists_inv ?k" using i(1) by (simp add: lists_inv_def runq_inv_def)
      show "zombies_inv ?k" using a' by (simp add: zombies_inv_def)
      show "mset (everyone X ?k) = mset (everyone (cur # X) k)" by (simp add: everyone_def r)
    qed (use i cur in \<open>simp_all add: r\<close>)
  qed
  with a show ?thesis
    by (auto simp: stash_def settled_def elim: returns_mono)
qed

section \<open>Disposing of zombies\<close>

definition without :: "vaddr set \<Rightarrow> (vaddr \<rightharpoonup> thread) \<Rightarrow> vaddr \<rightharpoonup> thread" where
  "without A m = (\<lambda>t. if t \<in> A then None else m t)"

lemma exorcise_loop_eq:
  assumes a: "zombies k = Some a" "array_inv a" and d: "distinct (array_list a)"
  shows "i \<le> length (array_list a) \<Longrightarrow> length (array_list a) - i \<le> fuel \<Longrightarrow>
    (\<forall>z \<in> set (drop i (array_list a)). z \<noteq> curthread k \<and> (\<exists>th. m z = Some th \<and> dead_ok th)) \<Longrightarrow>
    exorcise_loop fuel (int i) (k\<lparr>threads := m\<rparr>) =
      Ret () (k\<lparr>threads := without (set (drop i (array_list a))) m\<rparr>)"
proof (induction fuel arbitrary: i m)
  case 0
  then show ?case
    using a length_array_list [OF a(2)] by (simp add: array_getnum_def without_def)
next
  case (Suc fuel)
  have num: "array_getnum a = int (length (array_list a))"
    using length_array_list [OF a(2)] by (simp add: array_getnum_def)
  show ?case
  proof (cases "i < length (array_list a)")
    case False
    with Suc.prems a num show ?thesis by (simp add: without_def)
  next
    case True
    let ?z = "array_list a ! i"
    have split: "drop i (array_list a) = ?z # drop (Suc i) (array_list a)"
      using True by (simp add: Cons_nth_drop_Suc)
    have "distinct (drop i (array_list a))" using d by simp
    then have notin: "?z \<notin> set (drop (Suc i) (array_list a))" unfolding split by simp
    from Suc.prems(3) obtain th where th: "m ?z = Some th" "dead_ok th" "?z \<noteq> curthread k"
      unfolding split by auto
    have IH: "exorcise_loop fuel (int (Suc i)) (k\<lparr>threads := m(?z := None)\<rparr>) =
        Ret () (k\<lparr>threads := without (set (drop (Suc i) (array_list a))) (m(?z := None))\<rparr>)"
      using Suc.prems True notin by (intro Suc.IH) (auto simp: split)
    have "without (set (drop (Suc i) (array_list a))) (m(?z := None)) = without (set (drop i (array_list a))) m"
      by (auto simp: split without_def)
    with IH have IH': "exorcise_loop fuel (int i + 1) (k\<lparr>threads := m(?z := None)\<rparr>) =
        Ret () (k\<lparr>threads := without (set (drop i (array_list a))) m\<rparr>)"
      by (simp add: add.commute)
    have self: "k\<lparr>zombies := Some a, threads := f\<rparr> = k\<lparr>threads := f\<rparr>" for f using a(1) by simp
    have "exorcise_loop (Suc fuel) (int i) (k\<lparr>threads := m\<rparr>) =
        exorcise_loop fuel (int i + 1) (k\<lparr>zombies := Some a, threads := m(?z := None)\<rparr>)"
      using a(1) True num th parray.getguy [OF a(2) True] by (simp add: thread_destroy_def dead_ok_def)
    then show ?thesis by (simp only: self IH')
  qed
qed

lemma exorcise_eq:
  assumes inv: "sched_inv X d k" and spl: "curspl k > 0" and cur: "curthread k \<notin> set (dead k)"
    and km: "allocator_ok km"
  shows "\<exists>a. exorcise km k = Ret () (k\<lparr>threads := without (set (dead k)) (threads k), zombies := Some a\<rparr>) \<and>
    array_inv a \<and> array_list a = []"
proof -
  note i = sched_invD [OF inv]
  from i(2) obtain a where a: "zombies k = Some a" "array_inv a"
    by (auto simp: zombies_inv_def split: option.splits)
  have dead: "dead k = array_list a" using a by (simp add: dead_def)
  have "distinct (array_list a)" using i(9) by (simp add: everyone_def dead)
  moreover have "\<forall>z \<in> set (array_list a). z \<noteq> curthread k \<and> (\<exists>th. threads k z = Some th \<and> dead_ok th)"
    using i(6) cur by (auto simp: dead thread_ok_def split: option.splits)
  ultimately have loop: "exorcise_loop (nat (array_getnum a)) 0 k =
      Ret () (k\<lparr>threads := without (set (array_list a)) (threads k)\<rparr>)"
    using exorcise_loop_eq [OF a, of 0 "nat (array_getnum a)" "threads k"] length_array_list [OF a(2)]
    by (simp add: array_getnum_def)
  have "outcome (array_setsize km a 0) (\<lambda>_ a'. array_inv a' \<and> a_num a' = 0 \<and>
      (\<forall>j. j \<le> nat (a_num a) \<longrightarrow> j \<le> nat 0 \<longrightarrow> take j (array_list a') = take j (array_list a)))
      (\<lambda>e a'. e = ENOMEM \<and> a' = a \<and> a_max a < 0)"
    by (rule array_setsize_outcome [OF a(2) km]) (simp_all add: array_limit_def)
  then obtain a' where a': "array_setsize km a 0 = Ret () a'" "array_inv a'" "a_num a' = 0"
    using a(2) by (cases rule: outcome_cases) (auto simp: array_inv_def)
  then have "array_list a' = []" using length_array_list [OF a'(2)] by simp
  with a' loop a spl dead show ?thesis by (intro exI [of _ a']) (simp add: exorcise_def)
qed

lemma sched_inv_exorcised:
  assumes inv: "sched_inv X d k" and a: "array_inv a" "array_list a = []"
  shows "sched_inv X d (k\<lparr>threads := without (set (dead k)) (threads k), zombies := Some a\<rparr>)"
proof -
  let ?k = "k\<lparr>threads := without (set (dead k)) (threads k), zombies := Some a\<rparr>"
  note i = sched_invD [OF inv]
  have same: "ready ?k = ready k" "asleep ?k = asleep k" "dead ?k = []" "lists_inv ?k = lists_inv k"
    "zombies_inv ?k" "used_pids ?k = used_pids k"
    using a by (simp_all add: ready_def asleep_def dead_def lists_inv_def runq_inv_def zombies_inv_def used_pids_def)
  have sl: "sleeper_ok ?k = sleeper_ok k" by (rule sleeper_ok_cong) simp_all
  have "thread_ok Q ?k t = thread_ok Q k t" if "t \<notin> set (dead k)" for Q t
    using that by (simp add: thread_ok_def without_def)
  moreover have "t \<notin> set (dead k)" if "t \<in> set X \<or> t \<in> set (ready k) \<or> t \<in> set (asleep k)" for t
    using that i(9) by (auto simp: everyone_def)
  ultimately have "\<forall>t \<in> set (ready k). thread_ok queued_ok ?k t" "\<forall>t \<in> set (asleep k). thread_ok (sleeper_ok k) ?k t"
    "\<forall>t \<in> set X. known ?k t"
    using i by (auto simp: known_def without_def)
  moreover have "distinct (everyone X ?k)" "0 \<notin> set (everyone X ?k)" "length (everyone X ?k) \<le> length (everyone X k)"
    using i(9,10) by (auto simp: everyone_def same)
  ultimately show ?thesis
    using inv same(5) unfolding sched_inv_def core_def same(1-4,6) sl by (simp add: without_def)
qed

section \<open>Context switch\<close>

lemma switch_in_keeps:
  assumes km: "allocator_ok km" and inv: "sched_inv [curthread k] d k" and spl: "curspl k > 0"
    and q: "thread_ok queued_ok k (curthread k)"
  shows "returns (switch_in km k) (\<lambda>_ k'. sched_inv [curthread k'] d k' \<and> curthread k' = curthread k \<and>
    curspl k' = curspl k \<and> locks k' = locks k \<and> thread_ok queued_ok k' (curthread k'))"
proof -
  from q obtain th where th: "threads k (curthread k) = Some th" "queued_ok th"
    by (auto simp: thread_ok_def split: option.splits)
  note i = sched_invD [OF inv]
  have cur: "curthread k \<notin> set (dead k)" using i(9) by (auto simp: everyone_def)
  from exorcise_eq [OF inv spl cur km] obtain a where
    a: "exorcise km k = Ret () (k\<lparr>threads := without (set (dead k)) (threads k), zombies := Some a\<rparr>)"
       "array_inv a" "array_list a = []" by blast
  let ?k = "k\<lparr>threads := without (set (dead k)) (threads k), zombies := Some a\<rparr>"
  have thk: "threads ?k (curthread k) = Some th" using cur th by (simp add: without_def)
  obtain b where act: "as_activate (t_vmspace th) ?k = ?k\<lparr>tlb := b\<rparr>" using as_activate_frame by blast
  have "sched_inv [curthread k] d ?k" by (rule sched_inv_exorcised [OF inv a(2,3)])
  with th a(1) thk act inv show ?thesis
    by (simp add: switch_in_def thread_ok_def split: kcont.splits)
qed

lemma md_switch_keeps:
  assumes inv: "sched_inv X d k"
  shows "returns (md_switch old nu k) (\<lambda>_ k'. sched_inv X d k' \<and> curthread k' = curthread k \<and>
    curspl k' = curspl k \<and> locks k' = locks k \<and> zombies k' = zombies k \<and>
    (\<forall>t. thread_ok queued_ok k' t = thread_ok queued_ok k t))"
proof -
  have "sched_inv X d (k\<lparr>threads := (threads k)(old \<mapsto> th\<lparr>t_pcb := (t_pcb th)\<lparr>pcb_kstack := a, pcb_ininterrupt := b\<rparr>\<rparr>)\<rparr>)"
    if "threads k old = Some th" for th a b
    by (rule sched_inv_same_role [OF inv that]) (simp add: same_role_def cont_of_def)
  then show ?thesis
    using inv by (auto simp: md_switch_def set_thread_def thread_ok_def queued_ok_def cont_of_def)
qed

text \<open>What must hold of the current thread, with its new continuation, for it to be put away.\<close>

definition may_stash :: "threadstate \<Rightarrow> int \<Rightarrow> kernel \<Rightarrow> thread \<Rightarrow> bool" where
  "may_stash nextstate d k th \<longleftrightarrow>
     (case nextstate of
        S_RUN \<Rightarrow> True
      | S_READY \<Rightarrow> queued_ok th \<and> d = 0
      | S_SLEEP \<Rightarrow> sleeper_ok k th \<and> d = 0
      | S_ZOMB \<Rightarrow> dead_ok th \<and> d = 1)"

lemma stash_keeps:
  assumes km: "allocator_ok km" and inv: "sched_inv [cur] d k" and spl: "curspl k > 0"
    and cur: "thread_ok (may_stash nextstate d k) k cur"
  shows "returns (stash km nextstate cur k) (\<lambda>_ k'. sched_inv [] 0 k' \<and>
    settled (k'\<lparr>zombies := None\<rparr>) = settled (k\<lparr>zombies := None\<rparr>))"
proof -
  have z: "settled (k'\<lparr>zombies := None\<rparr>) = (settled k')\<lparr>zombies := None\<rparr>" for k'
    by (simp add: settled_def)
  show ?thesis
  proof (cases nextstate)
    case S_RUN
    then show ?thesis by (simp add: stash_def)
  next
    case S_READY
    with cur have "d = 0" "thread_ok queued_ok k cur"
      by (auto simp: thread_ok_def may_stash_def split: option.splits)
    with stash_ready_keeps [OF km _ spl, of cur "[]" 0] inv S_READY show ?thesis
      by (auto simp: z elim: returns_mono)
  next
    case S_SLEEP
    with cur have "d = 0" "thread_ok (sleeper_ok k) k cur"
      by (auto simp: thread_ok_def may_stash_def split: option.splits)
    with stash_sleep_keeps [OF km, of cur "[]" 0 k] inv S_SLEEP show ?thesis
      by (auto simp: z elim: returns_mono)
  next
    case S_ZOMB
    with cur have "d = 0 + 1" "thread_ok dead_ok k cur"
      by (auto simp: thread_ok_def may_stash_def split: option.splits)
    with stash_zombie_keeps [OF km, of cur "[]" 0 k] inv S_ZOMB show ?thesis
      by (auto elim: returns_mono)
  qed
qed

lemma settled_zombiesD:
  assumes "settled (k'\<lparr>zombies := None\<rparr>) = settled (k\<lparr>zombies := None\<rparr>)"
  shows "curspl k' = curspl k" "locks k' = locks k" "curthread k' = curthread k" "threads k' = threads k"
  using settledD(1,9,10,14) [OF assms] settledD(8) [OF assms] by simp_all

lemma mi_switch_keeps:
  assumes km: "allocator_ok km" and inv: "sched_inv [curthread k] d k"
    and th: "threads k (curthread k) = Some th" and stash: "may_stash nextstate d k (set_cont c th)"
  shows "returns (mi_switch km irqs nextstate c k) (\<lambda>_ k'. sched_inv [curthread k'] 0 k' \<and>
    curspl k' = curspl k \<and> curspl k > 0 \<and> locks k' = locks k \<and> thread_ok queued_ok k' (curthread k'))"
proof (cases "curspl k > 0")
  case False
  then show ?thesis by (simp add: mi_switch_def)
next
  case spl: True
  let ?cur = "curthread k"
  let ?k1 = "k\<lparr>curthread := 0, threads := (threads k)(?cur \<mapsto> set_cont c th)\<rparr>"
  have cur0: "?cur \<noteq> 0" using sched_invD(10) [OF inv] by (auto simp: everyone_def)
  have inv1: "sched_inv [?cur] d ?k1"
    using sched_inv_in_hand [of "[?cur]" d "k\<lparr>curthread := 0\<rparr>" ?cur] inv by simp
  have ok1: "thread_ok (may_stash nextstate d ?k1) ?k1 ?cur"
  proof -
    have "sleeper_ok ?k1 = sleeper_ok k" by (rule sleeper_ok_cong) simp_all
    then show ?thesis using stash by (simp add: thread_ok_def may_stash_def split: threadstate.splits)
  qed
  have "curspl ?k1 > 0" using spl by simp
  note st = stash_keeps [OF km inv1 this ok1]
  have "returns (stash km nextstate ?cur ?k1) (\<lambda>_ k2. returns (scheduler km irqs k2) (\<lambda>nu k3.
      returns (md_switch ?cur nu (k3\<lparr>curthread := nu\<rparr>)) (\<lambda>_ k4. returns (switch_in km k4) (\<lambda>_ k'.
      sched_inv [curthread k'] 0 k' \<and> curspl k' = curspl k \<and> curspl k > 0 \<and> locks k' = locks k \<and>
      thread_ok queued_ok k' (curthread k')))))"
  proof (rule returns_mono [OF st])
    fix k2 assume k2: "sched_inv [] 0 k2 \<and> settled (k2\<lparr>zombies := None\<rparr>) = settled (?k1\<lparr>zombies := None\<rparr>)"
    then have f2: "curspl k2 = curspl k" "locks k2 = locks k"
      using settled_zombiesD(1,2) [of k2 ?k1] by simp_all
    from k2 have "sched_inv [] 0 k2" by simp
    then show "returns (scheduler km irqs k2) (\<lambda>nu k3.
      returns (md_switch ?cur nu (k3\<lparr>curthread := nu\<rparr>)) (\<lambda>_ k4. returns (switch_in km k4) (\<lambda>_ k'.
      sched_inv [curthread k'] 0 k' \<and> curspl k' = curspl k \<and> curspl k > 0 \<and> locks k' = locks k \<and>
      thread_ok queued_ok k' (curthread k'))))"
    proof (rule returns_mono [OF scheduler_keeps [OF km]])
      fix nu k3 assume k3: "sched_inv [nu] 0 k3 \<and> settled k3 = settled k2 \<and> thread_ok queued_ok k3 nu"
      then have "settled k3 = settled k2" by simp
      from settledD(1,14) [OF this] f2 have f3: "curspl k3 = curspl k" "locks k3 = locks k" by simp_all
      from k3 have "sched_inv [nu] 0 (k3\<lparr>curthread := nu\<rparr>)" by simp
      then show "returns (md_switch ?cur nu (k3\<lparr>curthread := nu\<rparr>)) (\<lambda>_ k4. returns (switch_in km k4) (\<lambda>_ k'.
        sched_inv [curthread k'] 0 k' \<and> curspl k' = curspl k \<and> curspl k > 0 \<and> locks k' = locks k \<and>
        thread_ok queued_ok k' (curthread k')))"
      proof (rule returns_mono [OF md_switch_keeps])
        fix k4 assume k4: "sched_inv [nu] 0 k4 \<and> curthread k4 = curthread (k3\<lparr>curthread := nu\<rparr>) \<and>
          curspl k4 = curspl (k3\<lparr>curthread := nu\<rparr>) \<and> locks k4 = locks (k3\<lparr>curthread := nu\<rparr>) \<and>
          zombies k4 = zombies (k3\<lparr>curthread := nu\<rparr>) \<and>
          (\<forall>t. thread_ok queued_ok k4 t = thread_ok queued_ok (k3\<lparr>curthread := nu\<rparr>) t)"
        then have "thread_ok queued_ok k4 (curthread k4)" "sched_inv [curthread k4] 0 k4" "curspl k4 > 0"
          using k3 spl f3 by (auto simp: thread_ok_def)
        note sw = switch_in_keeps [OF km this(2,3,1)]
        show "returns (switch_in km k4) (\<lambda>_ k'. sched_inv [curthread k'] 0 k' \<and> curspl k' = curspl k \<and>
          curspl k > 0 \<and> locks k' = locks k \<and> thread_ok queued_ok k' (curthread k'))"
          by (rule returns_mono [OF sw]) (use k4 f3 spl in auto)
      qed
    qed
  qed
  then show ?thesis
    using th spl cur0 by (simp add: mi_switch_def Let_def set_thread_def)
qed

end
