(* ===== verification/KSynchSteps.thy ===== *)
theory KSynchSteps
  imports KSynchInv
begin

text \<open>
  Every step of the thread system preserves its invariant and respects locks that somebody else
  holds: the routines one by one, and then the step relation.
\<close>

section \<open>Between steps\<close>

definition kinv :: "kernel \<Rightarrow> bool" where
  "kinv k \<longleftrightarrow> sched_inv [curthread k] 0 k \<and>
     (running k \<or> thread_ok queued_ok k (curthread k) \<and> curspl k > 0)"

text \<open>A lock held by a thread other than the current one stays exactly as it is.\<close>

definition lock_step :: "kernel \<Rightarrow> kernel \<Rightarrow> bool" where
  "lock_step k k' \<longleftrightarrow>
     (\<forall>l lk lk'. locks k l = Some lk \<longrightarrow> lk_held lk = 1 \<longrightarrow> lk_heldThread lk \<noteq> curthread k \<longrightarrow>
        locks k' l = Some lk' \<longrightarrow> lk' = lk)"

lemma lock_step_same: "locks k' = locks k \<Longrightarrow> lock_step k k'"
  by (simp add: lock_step_def)

definition keeps :: "kernel \<Rightarrow> 'a kresult \<Rightarrow> bool" where
  "keeps k r \<longleftrightarrow> returns r (\<lambda>_ k'. kinv k' \<and> lock_step k k')"

lemma leave_keeps:
  assumes "sched_inv [curthread k] 0 k"
  shows "returns (leave spl k) (\<lambda>_ k'. kinv k' \<and> locks k' = locks k)"
proof -
  have "sched_inv [curthread k] 0 (k\<lparr>curspl := spl, threads := (threads k)(curthread k \<mapsto> th)\<rparr>)" for th
    using sched_inv_in_hand [of "[curthread k]" 0 "k\<lparr>curspl := spl\<rparr>" "curthread k" th] assms by simp
  then show ?thesis
    by (simp add: leave_def set_thread_def spl_defs kinv_def running_def set_cont_def cont_of_def)
qed

lemma thread_sleep_keeps:
  assumes km: "allocator_ok km" and inv: "sched_inv [curthread k] 0 k"
    and sl: "\<And>th. sleeper_ok k (set_cont c (th\<lparr>t_sleepaddr := addr\<rparr>))"
  shows "returns (thread_sleep km irqs addr c k) (\<lambda>_ k'. kinv k' \<and> locks k' = locks k)"
proof (rule returnsI)
  fix a k' assume run: "thread_sleep km irqs addr c k = Ret a k'"
  let ?cur = "curthread k"
  from run obtain th where th: "threads k ?cur = Some th"
    and sw: "mi_switch km irqs S_SLEEP c (k\<lparr>threads := (threads k)(?cur \<mapsto> th\<lparr>t_sleepaddr := addr\<rparr>)\<rparr>) = Ret a k'"
    by (auto simp: thread_sleep_def set_thread_def deref_def split: if_splits option.splits)
  let ?k = "k\<lparr>threads := (threads k)(?cur \<mapsto> th\<lparr>t_sleepaddr := addr\<rparr>)\<rparr>"
  have inv': "sched_inv [curthread ?k] 0 ?k" using sched_inv_in_hand [OF inv, of ?cur] by simp
  have "sleeper_ok ?k = sleeper_ok k" by (rule sleeper_ok_cong) simp_all
  then have "may_stash S_SLEEP 0 ?k (set_cont c (th\<lparr>t_sleepaddr := addr\<rparr>))"
    using sl by (simp add: may_stash_def)
  from mi_switch_keeps [OF km inv' _ this, of irqs] sw show "kinv k' \<and> locks k' = locks k"
    by (simp add: kinv_def)
qed

section \<open>Semaphores\<close>

lemma P_loop_keeps:
  assumes km: "allocator_ok km" and inv: "sched_inv [curthread k] 0 k"
  shows "returns (P_loop km irqs s spl k) (\<lambda>_ k'. kinv k' \<and> locks k' = locks k)"
proof (cases "sems k s")
  case None
  then show ?thesis by (simp add: P_loop_def)
next
  case (Some sem)
  show ?thesis
  proof (cases "sem_count sem = 0")
    case True
    have "returns (thread_sleep km irqs s (In_P s spl) k) (\<lambda>_ k'. kinv k' \<and> locks k' = locks k)"
      using Some True by (intro thread_sleep_keeps [OF km inv]) (simp add: sleeper_ok_def set_cont_def cont_of_def)
    with Some True show ?thesis by (simp add: P_loop_def)
  next
    case False
    let ?k = "k\<lparr>sems := (sems k)(s \<mapsto> sem\<lparr>sem_count := sem_count sem - 1\<rparr>)\<rparr>"
    have "sched_inv [curthread k] 0 ?k" if "sem_count sem > 0"
    proof -
      have same: "ready ?k = ready k" "asleep ?k = asleep k" "dead ?k = dead k" "lists_inv ?k = lists_inv k"
        "zombies_inv ?k = zombies_inv k" "used_pids ?k = used_pids k" "everyone X ?k = everyone X k" for X
        by (simp_all add: ready_def asleep_def dead_def lists_inv_def runq_inv_def zombies_inv_def used_pids_def everyone_def)
      have ok: "thread_ok Q ?k = thread_ok Q k" "known ?k = known k" for Q
        by (simp_all add: thread_ok_def known_def fun_eq_iff)
      have "core (sleeper_ok k) [curthread k] 0 k" using inv by (simp add: sched_inv_def)
      then have "core (sleeper_ok k) [curthread k] 0 ?k"
        using that unfolding core_def same ok by simp
      then show ?thesis
        unfolding sched_inv_def
        by (rule core_mono) (use Some False in \<open>auto simp: sleeper_ok_def split: kcont.splits\<close>)
    qed
    then have "sem_count sem > 0 \<Longrightarrow> returns (leave spl ?k) (\<lambda>_ k'. kinv k' \<and> locks k' = locks k)"
      using leave_keeps [of ?k spl] by simp
    with Some False show ?thesis by (simp add: P_loop_def)
  qed
qed

lemma P_keeps:
  assumes km: "allocator_ok km" and inv: "kinv k"
  shows "keeps k (P km irqs s k)"
proof -
  have "sched_inv [curthread (splhigh k)] 0 (splhigh k)"
    using inv by (simp add: kinv_def) (simp add: spl_defs)
  from P_loop_keeps [OF km this, of irqs s "curspl k"]
  have "returns (P_loop km irqs s (curspl k) (splhigh k)) (\<lambda>_ k'. kinv k' \<and> lock_step k k')"
    by (rule returns_mono) (auto simp: lock_step_def spl_defs)
  then show ?thesis by (simp add: keeps_def P_def)
qed

text \<open>
  Routines that end in the thread that called them: the invariant of the lists, the current
  thread and its continuation are as before.
\<close>

lemma kinv_settled:
  assumes "kinv k" "sched_inv [curthread k] 0 k'" "settled k' = settled k"
  shows "kinv k'"
proof -
  note same = settledD [OF assms(3)]
  have "running k' = running k" "thread_ok queued_ok k' (curthread k') = thread_ok queued_ok k (curthread k)"
    using same by (simp_all add: running_def thread_ok_def)
  with assms same show ?thesis by (simp add: kinv_def)
qed

lemma keeps_settled:
  assumes "kinv k" "returns r (\<lambda>_ k'. sched_inv [curthread k] 0 k' \<and> settled k' = settled k)"
  shows "keeps k r"
  unfolding keeps_def
proof (rule returns_mono [OF assms(2)])
  fix a k' assume "sched_inv [curthread k] 0 k' \<and> settled k' = settled k"
  then show "kinv k' \<and> lock_step k k'"
    using kinv_settled [OF assms(1)] settledD(14) [of k' k] lock_step_same by blast
qed

lemma V_step:
  assumes km: "allocator_ok km" and inv: "kinv k"
  shows "keeps k (V km s k)"
  using inv by (intro keeps_settled V_keeps [OF km]) (simp_all add: kinv_def)

section \<open>Locks\<close>

text \<open>
  Changing a lock keeps the invariant when nobody sleeps on it who would then sleep for nothing.
\<close>

lemma core_locks:
  assumes inv: "core S X d k" and held: "lk_held lk = 0 \<or> lk_held lk = 1"
  shows "core S X d (k\<lparr>locks := (locks k)(l \<mapsto> lk)\<rparr>)"
proof -
  let ?k = "k\<lparr>locks := (locks k)(l \<mapsto> lk)\<rparr>"
  have same: "ready ?k = ready k" "asleep ?k = asleep k" "dead ?k = dead k" "lists_inv ?k = lists_inv k"
    "zombies_inv ?k = zombies_inv k" "used_pids ?k = used_pids k" "everyone X ?k = everyone X k"
    by (simp_all add: ready_def asleep_def dead_def lists_inv_def runq_inv_def zombies_inv_def used_pids_def everyone_def)
  have ok: "thread_ok Q ?k = thread_ok Q k" "known ?k = known k" for Q
    by (simp_all add: thread_ok_def known_def fun_eq_iff)
  show ?thesis using inv held unfolding core_def same ok by auto
qed

lemma lock_acquire_loop_keeps:
  assumes km: "allocator_ok km" and inv: "sched_inv [curthread k] 0 k"
  shows "returns (lock_acquire_loop km irqs l spl outer k) (\<lambda>_ k'. kinv k' \<and> lock_step k k')"
proof (cases "locks k l")
  case None
  then show ?thesis by (simp add: lock_acquire_loop_def)
next
  case (Some lk)
  show ?thesis
  proof (cases "lk_held lk = 1")
    case True
    have "returns (thread_sleep km irqs l (In_lock_acquire l spl outer) k) (\<lambda>_ k'. kinv k' \<and> locks k' = locks k)"
      using Some True by (intro thread_sleep_keeps [OF km inv]) (simp add: sleeper_ok_def set_cont_def cont_of_def)
    then have "returns (thread_sleep km irqs l (In_lock_acquire l spl outer) k) (\<lambda>_ k'. kinv k' \<and> lock_step k k')"
      by (rule returns_mono) (auto intro: lock_step_same)
    with Some True show ?thesis by (simp add: lock_acquire_loop_def)
  next
    case False
    let ?lk = "lk\<lparr>lk_held := 1, lk_heldThread := curthread k\<rparr>"
    let ?k = "k\<lparr>locks := (locks k)(l \<mapsto> ?lk)\<rparr>"
    have "core (sleeper_ok k) [curthread k] 0 ?k"
      using inv by (intro core_locks) (simp_all add: sched_inv_def)
    then have "core (sleeper_ok ?k) [curthread k] 0 ?k"
      by (rule core_mono) (use Some False in \<open>auto simp: sleeper_ok_def split: kcont.splits\<close>)
    then have "sched_inv [curthread ?k] 0 ?k" by (simp add: sched_inv_def)
    note lv = leave_keeps [OF this]
    have "returns (leave sp ?k) (\<lambda>_ k'. kinv k' \<and> lock_step k k')" for sp
      by (rule returns_mono [OF lv]) (use Some False in \<open>auto simp: lock_step_def\<close>)
    with Some False show ?thesis by (simp add: lock_acquire_loop_def)
  qed
qed

lemma lock_step_splhigh: "lock_step (splhigh k) k' = lock_step k k'"
  by (simp add: lock_step_def spl_defs)

lemma lock_acquire_keeps:
  assumes km: "allocator_ok km" and inv: "kinv k"
  shows "keeps k (lock_acquire km irqs l k)"
proof -
  have "sched_inv [curthread (splhigh k)] 0 (splhigh k)"
    using inv by (simp add: kinv_def) (simp add: spl_defs)
  from lock_acquire_loop_keeps [OF km this, of irqs l "curspl k" None] show ?thesis
    by (simp add: keeps_def lock_acquire_def lock_step_splhigh)
qed

text \<open>\<^verbatim>\<open>lock_release\<close> ends in the same thread; only the lock itself and the two lists change.\<close>

lemma lock_release_keeps:
  assumes km: "allocator_ok km" and inv: "sched_inv [curthread k] 0 k"
  shows "returns (lock_release km l k) (\<lambda>_ k'. sched_inv [curthread k] 0 k' \<and> lock_step k k' \<and>
    settled (k'\<lparr>locks := Map.empty\<rparr>) = settled (k\<lparr>locks := Map.empty\<rparr>))"
proof (cases "locks k l")
  case None
  then show ?thesis by (simp add: lock_release_def Let_def spl_defs)
next
  case (Some lk)
  show ?thesis
  proof (cases "curthread k = lk_heldThread lk")
    case False
    with Some inv show ?thesis
      by (simp add: lock_release_def Let_def spl_defs lock_step_same)
  next
    case True
    let ?lk = "lk\<lparr>lk_held := 0, lk_heldThread := 0\<rparr>"
    let ?k = "(splhigh k)\<lparr>locks := (locks k)(l \<mapsto> ?lk)\<rparr>"
    let ?S = "\<lambda>th. queued_ok th \<and> (t_sleepaddr th \<noteq> l \<longrightarrow> sleeper_ok ?k th)"
    have "core (sleeper_ok k) [curthread k] 0 (splhigh k)" using inv by (simp add: sched_inv_def)
    from core_locks [OF this, of ?lk l] have "core (sleeper_ok k) [curthread k] 0 ?k"
      by (simp add: spl_defs)
    then have core: "core ?S [curthread k] 0 ?k"
      by (rule core_mono) (auto simp: sleeper_ok_def queued_ok_def spl_defs split: kcont.splits)
    have "returns (thread_wakeup km l ?k) (\<lambda>_ k'. core (\<lambda>th. ?S th \<and> t_sleepaddr th \<noteq> l) [curthread k] 0 k' \<and>
        besides k' = besides ?k \<and> set (ready ?k) \<subseteq> set (ready k'))"
      by (rule wakeup_keeps [OF km core]) (simp_all add: spl_defs)
    then have "returns (thread_wakeup km l ?k) (\<lambda>_ k'. sched_inv [curthread k] 0 (splx (curspl k) k') \<and>
        lock_step k (splx (curspl k) k') \<and>
        settled (splx (curspl k) k'\<lparr>locks := Map.empty\<rparr>) = settled (k\<lparr>locks := Map.empty\<rparr>))"
    proof (rule returns_mono)
      fix k' assume k': "core (\<lambda>th. ?S th \<and> t_sleepaddr th \<noteq> l) [curthread k] 0 k' \<and>
        besides k' = besides ?k \<and> set (ready ?k) \<subseteq> set (ready k')"
      then have b: "besides k' = besides ?k" by simp
      note same = besidesD [OF b]
      have "sleeper_ok k' = sleeper_ok ?k" using same by (intro sleeper_ok_cong) auto
      then have "sched_inv [curthread k] 0 k'"
        using k' by (auto simp: sched_inv_def elim: core_mono)
      moreover have "lock_step k (splx (curspl k) k')"
        using same(19) Some True by (auto simp: lock_step_def spl_defs)
      moreover have "settled (k'\<lparr>curspl := curspl k, locks := Map.empty\<rparr>) =
          (settled k')\<lparr>locks := Map.empty, curspl := curspl k\<rparr>" "settled (k\<lparr>locks := Map.empty\<rparr>) = (settled k)\<lparr>locks := Map.empty\<rparr>"
        "(settled ?k)\<lparr>locks := Map.empty, curspl := curspl k\<rparr> = (settled k)\<lparr>locks := Map.empty\<rparr>"
        by (simp_all add: settled_def spl_defs)
      ultimately show "sched_inv [curthread k] 0 (splx (curspl k) k') \<and> lock_step k (splx (curspl k) k') \<and>
        settled (splx (curspl k) k'\<lparr>locks := Map.empty\<rparr>) = settled (k\<lparr>locks := Map.empty\<rparr>)"
        using settled_besides [OF b] by (simp add: splx_def)
    qed
    with Some True show ?thesis by (simp add: lock_release_def Let_def spl_defs)
  qed
qed

lemma settled_locksD:
  assumes "settled (k'\<lparr>locks := Map.empty\<rparr>) = settled (k\<lparr>locks := Map.empty\<rparr>)"
  shows "curspl k' = curspl k" "curthread k' = curthread k" "threads k' = threads k" "in_interrupt k' = in_interrupt k"
    "lbolt k' = lbolt k"
  using settledD(1,2,8,9,13) [OF assms] by simp_all

lemma lock_release_step:
  assumes km: "allocator_ok km" and inv: "kinv k"
  shows "keeps k (lock_release km l k)"
  unfolding keeps_def
proof (rule returns_mono [OF lock_release_keeps [OF km]])
  show "sched_inv [curthread k] 0 k" using inv by (simp add: kinv_def)
  fix k' assume k': "sched_inv [curthread k] 0 k' \<and> lock_step k k' \<and>
    settled (k'\<lparr>locks := Map.empty\<rparr>) = settled (k\<lparr>locks := Map.empty\<rparr>)"
  then have "curspl k' = curspl k" "curthread k' = curthread k" "threads k' = threads k"
    using settled_locksD [of k' k] by simp_all
  with k' inv show "kinv k' \<and> lock_step k k'"
    by (simp add: kinv_def running_def thread_ok_def)
qed

section \<open>Condition variables\<close>

lemma kinv_splhigh: "sched_inv [curthread k] 0 k \<Longrightarrow> sched_inv [curthread (splhigh k)] 0 (splhigh k)"
  by (simp add: spl_defs)

lemma cv_wait_keeps:
  assumes km: "allocator_ok km" and inv: "kinv k"
  shows "keeps k (cv_wait km irqs c l k)"
proof -
  have inv': "sched_inv [curthread (splhigh k)] 0 (splhigh k)"
    using inv by (intro kinv_splhigh) (simp add: kinv_def)
  have "returns (lock_release km l (splhigh k)) (\<lambda>_ k1.
      returns (thread_sleep km irqs c (In_cv_wait c l (curspl k)) k1) (\<lambda>_ k'. kinv k' \<and> lock_step k k'))"
  proof (rule returns_mono [OF lock_release_keeps [OF km inv']])
    fix k1 assume k1: "sched_inv [curthread (splhigh k)] 0 k1 \<and> lock_step (splhigh k) k1 \<and>
      settled (k1\<lparr>locks := Map.empty\<rparr>) = settled ((splhigh k)\<lparr>locks := Map.empty\<rparr>)"
    then have cur: "curthread k1 = curthread k"
      using settled_locksD(2) [of k1 "splhigh k"] by (simp add: spl_defs)
    with k1 have inv1: "sched_inv [curthread k1] 0 k1" by (simp add: spl_defs)
    have "returns (thread_sleep km irqs c (In_cv_wait c l (curspl k)) k1) (\<lambda>_ k'. kinv k' \<and> locks k' = locks k1)"
      by (rule thread_sleep_keeps [OF km inv1]) (simp add: sleeper_ok_def set_cont_def cont_of_def)
    then show "returns (thread_sleep km irqs c (In_cv_wait c l (curspl k)) k1) (\<lambda>_ k'. kinv k' \<and> lock_step k k')"
      by (rule returns_mono) (use k1 in \<open>auto simp: lock_step_def spl_defs\<close>)
  qed
  then show ?thesis by (simp add: keeps_def cv_wait_def lock_do_i_hold_def Let_def)
qed

lemma keeps_wake:
  assumes inv: "kinv k" and r: "returns r (\<lambda>_ k'. sched_inv [curthread k] 0 k' \<and> besides k' = besides (splhigh k))"
  shows "keeps k (kbind r (\<lambda>_ k'. Ret () (splx (curspl k) k')))"
proof (rule keeps_settled [OF inv])
  have "returns r (\<lambda>_ k'. sched_inv [curthread k] 0 (splx (curspl k) k') \<and> settled (splx (curspl k) k') = settled k)"
  proof (rule returns_mono [OF r])
    fix a k' assume k': "sched_inv [curthread k] 0 k' \<and> besides k' = besides (splhigh k)"
    then have "settled k' = settled (splhigh k)" using settled_besides by blast
    with k' show "sched_inv [curthread k] 0 (splx (curspl k) k') \<and> settled (splx (curspl k) k') = settled k"
      by (simp add: spl_defs settled_update)
  qed
  then show "returns (kbind r (\<lambda>_ k'. Ret () (splx (curspl k) k'))) (\<lambda>_ k'. sched_inv [curthread k] 0 k' \<and> settled k' = settled k)"
    by simp
qed

lemma cv_signal_keeps:
  assumes km: "allocator_ok km" and inv: "kinv k"
  shows "keeps k (cv_signal km c l k)"
proof -
  have "sched_inv [curthread k] 0 (splhigh k)" using inv by (simp add: kinv_def)
  from wakeupOne_sched [OF km this, of c]
  have "keeps k (kbind (thread_wakeupOne km c (splhigh k)) (\<lambda>_ k'. Ret () (splx (curspl k) k')))"
    by (intro keeps_wake [OF inv]) (simp add: spl_defs)
  then show ?thesis by (simp add: keeps_def cv_signal_def lock_do_i_hold_def Let_def)
qed

lemma cv_broadcast_keeps:
  assumes km: "allocator_ok km" and inv: "kinv k"
  shows "keeps k (cv_broadcast km c l k)"
proof -
  have "sched_inv [curthread k] 0 (splhigh k)" using inv by (simp add: kinv_def)
  from wakeup_sched [OF km this, of c]
  have "keeps k (kbind (thread_wakeup km c (splhigh k)) (\<lambda>_ k'. Ret () (splx (curspl k) k')))"
    by (intro keeps_wake [OF inv]) (simp add: spl_defs)
  then show ?thesis by (simp add: keeps_def cv_broadcast_def lock_do_i_hold_def Let_def)
qed

section \<open>Yielding, the clock and interrupts\<close>

lemma yield_keeps:
  assumes km: "allocator_ok km" and inv: "sched_inv [curthread k] 0 k"
  shows "returns (thread_yield km irqs from k) (\<lambda>_ k'. kinv k' \<and> locks k' = locks k)"
proof (cases "threads k (curthread k)")
  case None
  with sched_invD(3) [OF inv] show ?thesis by (simp add: known_def)
next
  case (Some th)
  have "returns (mi_switch km irqs S_READY (In_yield (curspl k) from) (splhigh k)) (\<lambda>_ k'. sched_inv [curthread k'] 0 k' \<and>
      curspl k' = curspl (splhigh k) \<and> curspl (splhigh k) > 0 \<and> locks k' = locks (splhigh k) \<and> thread_ok queued_ok k' (curthread k'))"
    by (rule mi_switch_keeps [OF km kinv_splhigh [OF inv]])
       (use Some in \<open>simp_all add: spl_defs may_stash_def queued_ok_def set_cont_def cont_of_def\<close>)
  then have "returns (mi_switch km irqs S_READY (In_yield (curspl k) from) (splhigh k)) (\<lambda>_ k'. kinv k' \<and> locks k' = locks k)"
    by (rule returns_mono) (auto simp: kinv_def spl_defs)
  moreover have "curthread k \<noteq> 0" using sched_invD(10) [OF inv] by (auto simp: everyone_def)
  ultimately show ?thesis by (simp add: thread_yield_def Let_def)
qed

lemma yield_step:
  "allocator_ok km \<Longrightarrow> kinv k \<Longrightarrow> keeps k (thread_yield km irqs None k)"
  unfolding keeps_def by (rule returns_mono [OF yield_keeps]) (auto simp: kinv_def intro: lock_step_same)

lemma clocksleep_loop_keeps:
  assumes km: "allocator_ok km" and inv: "sched_inv [curthread k] 0 k"
  shows "returns (clocksleep_loop km irqs n spl k) (\<lambda>_ k'. kinv k' \<and> locks k' = locks k)"
proof -
  have "returns (thread_sleep km irqs (lbolt k) (In_clocksleep n spl) k) (\<lambda>_ k'. kinv k' \<and> locks k' = locks k)"
    by (rule thread_sleep_keeps [OF km inv]) (simp add: sleeper_ok_def set_cont_def cont_of_def)
  with leave_keeps [OF inv] show ?thesis by (simp add: clocksleep_loop_def)
qed

lemma clocksleep_step:
  assumes km: "allocator_ok km" and inv: "kinv k"
  shows "keeps k (clocksleep km irqs n k)"
proof -
  have "sched_inv [curthread (splhigh k)] 0 (splhigh k)"
    using inv by (intro kinv_splhigh) (simp add: kinv_def)
  from clocksleep_loop_keeps [OF km this, of irqs n "curspl k"]
  show ?thesis unfolding keeps_def clocksleep_def
    by (rule returns_mono) (auto simp: lock_step_def spl_defs)
qed

lemma take_interrupt_keeps:
  assumes km: "allocator_ok km" and inv: "kinv k"
  shows "keeps k (take_interrupt km irqs irq k)"
proof -
  let ?k = "k\<lparr>curspl := SPL_HIGH, in_interrupt := 1\<rparr>"
  have inv': "sched_inv [curthread k] 0 ?k" using inv by (simp add: kinv_def)
  show ?thesis
  proof (cases irq)
    case Irq_clock
    have "returns (hardclock_count km ?k) (\<lambda>_ k1. returns (thread_yield km irqs (Some (in_interrupt k, curspl k)) k1)
        (\<lambda>_ k'. kinv k' \<and> lock_step k k'))"
    proof (rule returns_mono [OF hardclock_count_keeps [OF km inv']])
      fix k1 assume k1: "sched_inv [curthread k] 0 k1 \<and> settled k1 = settled ?k"
      then have "settled k1 = settled ?k" by simp
      from settledD(8,14) [OF this] k1 have "curthread k1 = curthread k" "locks k1 = locks k" "sched_inv [curthread k1] 0 k1"
        by simp_all
      then show "returns (thread_yield km irqs (Some (in_interrupt k, curspl k)) k1) (\<lambda>_ k'. kinv k' \<and> lock_step k k')"
        by (intro returns_mono [OF yield_keeps [OF km]]) (auto intro: lock_step_same)
    qed (simp add: SPL_HIGH_def)
    with Irq_clock show ?thesis by (simp add: keeps_def take_interrupt_def Let_def)
  next
    case (Irq_device s)
    have "returns (V km s ?k) (\<lambda>_ k1. sched_inv [curthread k] 0 (k1\<lparr>in_interrupt := in_interrupt k, curspl := curspl k\<rparr>) \<and>
        settled (k1\<lparr>in_interrupt := in_interrupt k, curspl := curspl k\<rparr>) = settled k)"
      by (rule returns_mono [OF V_keeps [OF km inv']]) (auto simp: settled_update)
    then have "returns (take_interrupt km irqs irq k) (\<lambda>_ k'. sched_inv [curthread k] 0 k' \<and> settled k' = settled k)"
      using Irq_device by (simp add: take_interrupt_def Let_def)
    then show ?thesis by (rule keeps_settled [OF inv])
  qed
qed

end
