(* ===== verification/KFrame.thy ===== *)
theory KFrame
  imports KThread
begin

text \<open>
  What the memory system and the vnode counts leave alone: none of their routines touches the
  threads, the run queue, the sleepers or the synchronization objects.
\<close>

definition outside :: "kernel \<Rightarrow> kernel" where
  "outside k = k\<lparr>kmem := (\<lambda>_. 0), coremap := [], pagerefs := [], pagerefs_inuse := [], sizebases := [],
     allbase := None, addrspaces := Map.empty, vnodes := Map.empty, curspl := 0\<rparr>"

text \<open>A routine that stays inside, whether it succeeds or fails.\<close>

definition inside :: "kernel \<Rightarrow> 'a kresult \<Rightarrow> bool" where
  "inside k r \<longleftrightarrow>
     (case r of Ret a k' \<Rightarrow> outside k' = outside k | Err e k' \<Rightarrow> outside k' = outside k | _ \<Rightarrow> True)"

lemma inside_simps [simp]:
  "inside k (Ret a k') = (outside k' = outside k)" "inside k (Err e k') = (outside k' = outside k)"
  "inside k Panic" "inside k Undef"
  by (simp_all add: inside_def)

lemma inside_kbind:
  "inside k m \<Longrightarrow> (\<And>a k'. m = Ret a k' \<Longrightarrow> outside k' = outside k \<Longrightarrow> inside k (f a k')) \<Longrightarrow> inside k (kbind m f)"
  by (cases m) auto

lemma inside_deref: "(\<And>x. p = Some x \<Longrightarrow> inside k (f x)) \<Longrightarrow> inside k (deref p f)"
  by (cases p) auto

lemma inside_cong: "outside k1 = outside k \<Longrightarrow> inside k1 r \<Longrightarrow> inside k r"
  by (cases r) auto

lemma outside_update [simp]:
  "outside (k\<lparr>kmem := m\<rparr>) = outside k" "outside (k\<lparr>coremap := c\<rparr>) = outside k"
  "outside (k\<lparr>pagerefs := p\<rparr>) = outside k" "outside (k\<lparr>pagerefs_inuse := i\<rparr>) = outside k"
  "outside (k\<lparr>sizebases := sb\<rparr>) = outside k" "outside (k\<lparr>allbase := ab\<rparr>) = outside k"
  "outside (k\<lparr>addrspaces := as\<rparr>) = outside k" "outside (k\<lparr>vnodes := vn\<rparr>) = outside k"
  "outside (k\<lparr>curspl := s\<rparr>) = outside k" "outside (splhigh k) = outside k" "outside (splx s k) = outside k"
  by (simp_all add: outside_def spl_defs)

named_theorems stays_inside

lemma outside_zero_page [simp]: "outside (zero_page va k) = outside k"
  by (simp add: zero_page_def)

lemma cm_set_inside [stays_inside]: "outside k1 = outside k \<Longrightarrow> inside k (cm_set i f k1)"
  by (simp add: cm_set_def deref_def split: option.splits)

lemma pr_set_inside [stays_inside]: "outside k1 = outside k \<Longrightarrow> inside k (pr_set i f k1)"
  by (simp add: pr_set_def deref_def split: option.splits)

lemma cm_free_run_inside [stays_inside]: "outside k1 = outside k \<Longrightarrow> inside k (cm_free_run i n k1)"
  by (induction n) (auto intro!: inside_kbind inside_deref stays_inside)

lemma free_kpages_scan_inside [stays_inside]: "outside k1 = outside k \<Longrightarrow> inside k (free_kpages_scan pa n i k1)"
  by (induction n arbitrary: i) (auto intro!: inside_deref inside_kbind stays_inside)

lemma free_kpages_inside [stays_inside]: "outside k1 = outside k \<Longrightarrow> inside k (free_kpages a k1)"
  unfolding free_kpages_def Let_def by (auto intro!: inside_kbind stays_inside)

section \<open>The heap\<close>

lemma unlink_inside [stays_inside]: "outside k1 = outside k \<Longrightarrow> inside k (unlink fuel get put target node k1)"
  by (induction fuel arbitrary: node) (auto intro!: inside_deref stays_inside split: option.splits)

lemma remove_samesize_inside [stays_inside]: "outside k1 = outside k \<Longrightarrow> inside k (remove_samesize p b k1)"
  by (auto simp: remove_samesize_def intro!: inside_deref stays_inside split: option.splits)

lemma remove_all_inside [stays_inside]: "outside k1 = outside k \<Longrightarrow> inside k (remove_all p k1)"
  by (auto simp: remove_all_def intro!: inside_deref stays_inside split: option.splits)

lemma remove_lists_inside [stays_inside]: "outside k1 = outside k \<Longrightarrow> inside k (remove_lists p b k1)"
  by (auto simp: remove_lists_def intro!: inside_kbind stays_inside)

lemma freepageref_inside [stays_inside]: "outside k1 = outside k \<Longrightarrow> inside k (freepageref p k1)"
  by (simp add: freepageref_def Let_def)

lemma find_page_inside [stays_inside]: "outside k1 = outside k \<Longrightarrow> inside k (find_page fuel ptr p k1)"
  by (induction fuel arbitrary: p) (auto intro!: inside_deref split: option.splits)

lemma subpage_kfree_inside [stays_inside]: "outside k1 = outside k \<Longrightarrow> inside k (subpage_kfree ptr k1)"
  unfolding subpage_kfree_def Let_def
  by (auto intro!: inside_kbind inside_deref stays_inside split: option.splits)

lemma kfree_inside [stays_inside]: "outside k1 = outside k \<Longrightarrow> inside k (kfree p k1)"
  unfolding kfree_def by (auto intro!: inside_kbind stays_inside)

section \<open>Address spaces and vnodes\<close>

lemma as_free_user_inside [stays_inside]: "outside k1 = outside k \<Longrightarrow> inside k (as_free_user as n i k1)"
  by (induction n arbitrary: i k1) (auto intro!: inside_deref inside_kbind stays_inside)

lemma as_free_kernel_inside [stays_inside]: "outside k1 = outside k \<Longrightarrow> inside k (as_free_kernel as n i k1)"
  by (induction n arbitrary: i k1) (auto intro!: inside_deref inside_kbind stays_inside)

lemma as_destroy_inside [stays_inside]: "outside k1 = outside k \<Longrightarrow> inside k (as_destroy as k1)"
  unfolding as_destroy_def by (auto intro!: inside_kbind inside_deref stays_inside)

text \<open>What is asked of the operations a file system supplies.\<close>

definition vop_ok :: "vop \<Rightarrow> bool" where
  "vop_ok v \<longleftrightarrow> (\<forall>vn k. inside k (v vn k))"

lemma vop_okD: "vop_ok v \<Longrightarrow> outside k1 = outside k \<Longrightarrow> inside k (ignore_error (v vn k1))"
proof -
  assume "vop_ok v" "outside k1 = outside k"
  then have "inside k1 (v vn k1)" "outside k1 = outside k" by (simp_all add: vop_ok_def)
  then show ?thesis by (cases "v vn k1") simp_all
qed

lemma outside_vn_update [simp]: "outside (vn_update vn f k) = outside k"
  by (simp add: vn_update_def)

lemma vnode_counts_inside [stays_inside]:
  "outside k1 = outside k \<Longrightarrow> inside k (vnode_incref vn k1)"
  "outside k1 = outside k \<Longrightarrow> inside k (vnode_incopen vn k1)"
  "vop_ok v \<Longrightarrow> outside k1 = outside k \<Longrightarrow> inside k (vnode_decref v vn k1)"
  "vop_ok v \<Longrightarrow> outside k1 = outside k \<Longrightarrow> inside k (vnode_decopen v vn k1)"
  by (simp_all add: vnode_incref_def vnode_incopen_def vnode_decref_def vnode_decopen_def Let_def deref_def vop_okD
      split: option.splits)

lemma vfs_close_inside [stays_inside]:
  "vop_ok v \<Longrightarrow> vop_ok w \<Longrightarrow> outside k1 = outside k \<Longrightarrow> inside k (vfs_close v w vn k1)"
  unfolding vfs_close_def by (auto intro!: inside_kbind stays_inside)

section \<open>The invariant\<close>

lemma outsideD:
  assumes "outside k' = outside k"
  shows "runqueue k' = runqueue k" "sleepers k' = sleepers k" "zombies k' = zombies k" "threads k' = threads k"
    "numthreads k' = numthreads k" "process_table k' = process_table k" "sems k' = sems k" "locks k' = locks k"
    "lbolt k' = lbolt k" "curthread k' = curthread k" "in_interrupt k' = in_interrupt k"
proof -
  have sel: "runqueue (outside k) = runqueue k" "sleepers (outside k) = sleepers k" "zombies (outside k) = zombies k"
    "threads (outside k) = threads k" "numthreads (outside k) = numthreads k"
    "process_table (outside k) = process_table k" "sems (outside k) = sems k" "locks (outside k) = locks k"
    "lbolt (outside k) = lbolt k" "curthread (outside k) = curthread k" "in_interrupt (outside k) = in_interrupt k" for k
    by (simp_all add: outside_def)
  show "runqueue k' = runqueue k" "sleepers k' = sleepers k" "zombies k' = zombies k" "threads k' = threads k"
    "numthreads k' = numthreads k" "process_table k' = process_table k" "sems k' = sems k" "locks k' = locks k"
    "lbolt k' = lbolt k" "curthread k' = curthread k" "in_interrupt k' = in_interrupt k"
    using assms sel by metis+
qed

end
