(* ===== verification/KSynchCalls.thy ===== *)
theory KSynchCalls
  imports KSynchSteps KFrame
begin

text \<open>
  The remaining steps: creating and destroying the objects, continuing after a switch,
  \<^verbatim>\<open>thread_fork\<close> and \<^verbatim>\<open>thread_exit\<close>.
\<close>

section \<open>Creating and destroying objects\<close>

text \<open>
  The tables of semaphores and locks may change as long as nobody sleeps on an entry that changes.
\<close>

lemma core_tables:
  assumes inv: "core S X d k" and sems: "\<And>s sem. m s = Some sem \<Longrightarrow> 0 \<le> sem_count sem"
    and locks: "\<And>l lk. n l = Some lk \<Longrightarrow> lk_held lk = 0 \<or> lk_held lk = 1"
  shows "core S X d (k\<lparr>sems := m, locks := n\<rparr>)"
proof -
  let ?k = "k\<lparr>sems := m, locks := n\<rparr>"
  have same: "ready ?k = ready k" "asleep ?k = asleep k" "dead ?k = dead k" "lists_inv ?k = lists_inv k"
    "zombies_inv ?k = zombies_inv k" "used_pids ?k = used_pids k" "everyone X ?k = everyone X k"
    by (simp_all add: ready_def asleep_def dead_def lists_inv_def runq_inv_def zombies_inv_def used_pids_def everyone_def)
  have ok: "thread_ok Q ?k = thread_ok Q k" "known ?k = known k" for Q
    by (simp_all add: thread_ok_def known_def fun_eq_iff)
  show ?thesis using inv sems locks unfolding core_def same ok by auto
qed

lemma sched_inv_tables:
  assumes inv: "sched_inv X d k" and sems: "\<And>s sem. m s = Some sem \<Longrightarrow> 0 \<le> sem_count sem"
    and locks: "\<And>l lk. n l = Some lk \<Longrightarrow> lk_held lk = 0 \<or> lk_held lk = 1"
    and sleep: "\<And>t th. t \<in> set (asleep k) \<Longrightarrow> threads k t = Some th \<Longrightarrow> sleeper_ok k th \<Longrightarrow>
      sleeper_ok (k\<lparr>sems := m, locks := n\<rparr>) th"
  shows "sched_inv X d (k\<lparr>sems := m, locks := n\<rparr>)"
proof -
  have "core (sleeper_ok k) X d (k\<lparr>sems := m, locks := n\<rparr>)"
    using inv by (intro core_tables sems locks) (simp_all add: sched_inv_def)
  then show ?thesis unfolding sched_inv_def by (rule core_mono) (use sleep in \<open>simp_all add: asleep_def\<close>)
qed

lemma sched_inv_objects:
  assumes "sched_inv X d k"
  shows "sems k s = Some sem \<Longrightarrow> 0 \<le> sem_count sem" "locks k l = Some lk \<Longrightarrow> lk_held lk = 0 \<or> lk_held lk = 1"
  using assms by (simp_all add: sched_inv_def core_def)

text \<open>A step of the running thread that leaves the threads alone.\<close>

lemma keeps_same_threads:
  assumes inv: "kinv k" and inv': "sched_inv [curthread k] 0 k'"
    and same: "curthread k' = curthread k" "threads k' = threads k" "curspl k' = curspl k" and "lock_step k k'"
  shows "keeps k (Ret a k')"
  using assms by (simp add: keeps_def kinv_def running_def thread_ok_def)

lemma lock_step_update:
  "(\<And>l' lk lk'. locks k l' = Some lk \<Longrightarrow> n l' = Some lk' \<Longrightarrow> lk' = lk) \<Longrightarrow> locks k' = n \<Longrightarrow> lock_step k k'"
  by (auto simp: lock_step_def)

definition unslept :: "vaddr \<Rightarrow> kernel \<Rightarrow> bool" where
  "unslept p k \<longleftrightarrow> (\<forall>t \<in> set (asleep k). \<not> sleeping_on p k t)"

lemma unslept_ok:
  assumes "unslept p k" "t \<in> set (asleep k)" "threads k t = Some th" "sleeper_ok k th"
  shows "sleeper_ok (k\<lparr>sems := (sems k)(p \<mapsto> sem), locks := locks k\<rparr>) th" "sleeper_ok (k\<lparr>sems := sems k, locks := (locks k)(p \<mapsto> lk)\<rparr>) th"
  using assms by (auto simp: unslept_def sleeping_on_def sleeper_ok_def split: kcont.splits)

lemma sem_create_keeps:
  assumes inv: "kinv k" and fresh: "unslept p k"
  shows "keeps k (drop_value (sem_create p g name n k))"
proof -
  let ?m = "(sems k)(p \<mapsto> \<lparr>sem_name = name, sem_count = n\<rparr>)"
  have i: "sched_inv [curthread k] 0 k" using inv by (simp add: kinv_def)
  have "sched_inv [curthread k] 0 (k\<lparr>sems := ?m, locks := locks k\<rparr>)" if "0 \<le> n"
    by (rule sched_inv_tables [OF i])
       (use that unslept_ok [OF fresh] sched_inv_objects [OF i] in \<open>auto split: if_splits\<close>)
  then have "keeps k (Ret () (k\<lparr>sems := ?m\<rparr>))" if "0 \<le> n"
    using that by (intro keeps_same_threads [OF inv]) (simp_all add: lock_step_def)
  moreover have "keeps k (Ret () k)" using inv by (intro keeps_same_threads) (simp_all add: kinv_def lock_step_def)
  ultimately show ?thesis by (simp add: sem_create_def) (simp add: keeps_def)
qed

lemma lock_create_keeps:
  assumes inv: "kinv k" and fresh: "locks k p = None" "unslept p k"
  shows "keeps k (drop_value (lock_create p g h name k))"
proof -
  let ?n = "(locks k)(p \<mapsto> \<lparr>lk_name = name, lk_held = 0, lk_heldThread = h\<rparr>)"
  have i: "sched_inv [curthread k] 0 k" using inv by (simp add: kinv_def)
  have "sched_inv [curthread k] 0 (k\<lparr>sems := sems k, locks := ?n\<rparr>)"
    by (rule sched_inv_tables [OF i])
       (use unslept_ok [OF fresh(2)] sched_inv_objects [OF i] in \<open>auto split: if_splits\<close>)
  then have "keeps k (Ret () (k\<lparr>locks := ?n\<rparr>))"
    using fresh by (intro keeps_same_threads [OF inv]) (simp_all add: lock_step_def)
  moreover have "keeps k (Ret () k)" using inv by (intro keeps_same_threads) (simp_all add: kinv_def lock_step_def)
  ultimately show ?thesis by (simp add: lock_create_def)
qed

lemma cv_create_keeps: "kinv k \<Longrightarrow> keeps k (drop_value (cv_create p g name k))"
  by (auto simp: cv_create_def intro!: keeps_same_threads simp: kinv_def lock_step_def)

lemma cv_destroy_keeps: "kinv k \<Longrightarrow> keeps k (cv_destroy c k)"
  by (auto simp: cv_destroy_def deref_def keeps_def kinv_def running_def thread_ok_def lock_step_def split: option.splits)

text \<open>The test of \<^verbatim>\<open>sem_destroy\<close> and \<^verbatim>\<open>lock_destroy\<close> changes nothing; freeing the object is safe for the invariant.\<close>

lemma hassleepers_same:
  assumes inv: "sched_inv X d k" and run: "thread_hassleepers addr (splhigh k) = Ret n k'"
  shows "k' = splhigh k"
proof -
  have li: "lists_inv (splhigh k)" "\<forall>t \<in> set (asleep (splhigh k)). known (splhigh k) t"
    using sched_invD(1,5) [OF inv]
    by (auto simp: spl_defs lists_inv_def runq_inv_def asleep_def known_def thread_ok_def split: option.splits)
  from run thread_hassleepers_Ret [OF li(1) _ li(2), of addr] show ?thesis
    by (simp add: spl_defs SPL_HIGH_def split: if_splits)
qed

lemma destroy_test_keeps:
  assumes inv: "kinv k"
  shows "keeps k (sem_destroy_test s k)" "keeps k (lock_destroy_test s k)"
proof -
  have i: "sched_inv [curthread k] 0 k" using inv by (simp add: kinv_def)
  have "splx (curspl k) k' = k" if "thread_hassleepers s (splhigh k) = Ret n k'" for n k'
    using hassleepers_same [OF i that] by (simp add: spl_defs)
  then show "keeps k (sem_destroy_test s k)" "keeps k (lock_destroy_test s k)"
    using inv by (auto simp: sem_destroy_test_def lock_destroy_test_def Let_def keeps_def lock_step_def intro!: returnsI)
qed

lemma sem_free_keeps:
  assumes inv: "kinv k"
  shows "keeps k (sem_free s k)"
proof -
  have i: "sched_inv [curthread k] 0 k" using inv by (simp add: kinv_def)
  have "sched_inv [curthread k] 0 (k\<lparr>sems := (sems k)(s := None), locks := locks k\<rparr>)"
    by (rule sched_inv_tables [OF i])
       (use sched_inv_objects [OF i] in \<open>auto simp: sleeper_ok_def split: kcont.splits if_splits\<close>)
  then have "keeps k (Ret () (k\<lparr>sems := (sems k)(s := None)\<rparr>))"
    by (intro keeps_same_threads [OF inv]) (simp_all add: lock_step_def)
  then show ?thesis by (auto simp: sem_free_def deref_def keeps_def split: option.splits)
qed

lemma lock_free_keeps:
  assumes inv: "kinv k"
  shows "keeps k (lock_free l k)"
proof -
  have i: "sched_inv [curthread k] 0 k" using inv by (simp add: kinv_def)
  have "sched_inv [curthread k] 0 (k\<lparr>sems := sems k, locks := (locks k)(l := None)\<rparr>)"
    by (rule sched_inv_tables [OF i])
       (use sched_inv_objects [OF i] in \<open>auto simp: sleeper_ok_def split: kcont.splits if_splits\<close>)
  then have "keeps k (Ret () (k\<lparr>locks := (locks k)(l := None)\<rparr>))"
    by (intro keeps_same_threads [OF inv]) (simp_all add: lock_step_def)
  then show ?thesis by (auto simp: lock_free_def deref_def keeps_def split: option.splits)
qed

section \<open>Continuing after a switch\<close>

lemma awake_keeps:
  assumes "sched_inv [curthread k] 0 k"
  shows "returns (awake k) (\<lambda>_ k'. sched_inv [curthread k'] 0 k' \<and> curthread k' = curthread k \<and> locks k' = locks k)"
  using assms sched_inv_in_hand [OF assms, of "curthread k"] by (simp add: awake_def set_thread_def)

lemma after_awake:
  assumes inv: "sched_inv [curthread k] 0 k"
    and f: "\<And>k1. sched_inv [curthread k1] 0 k1 \<Longrightarrow> returns (f k1) (\<lambda>_ k'. kinv k' \<and> lock_step k1 k')"
  shows "keeps k (kbind (awake k) (\<lambda>_ k1. f k1))"
proof -
  have "returns (awake k) (\<lambda>_ k1. returns (f k1) (\<lambda>_ k'. kinv k' \<and> lock_step k k'))"
  proof (rule returns_mono [OF awake_keeps [OF inv]])
    fix k1 assume "sched_inv [curthread k1] 0 k1 \<and> curthread k1 = curthread k \<and> locks k1 = locks k"
    then show "returns (f k1) (\<lambda>_ k'. kinv k' \<and> lock_step k k')"
      by (intro returns_mono [OF f]) (auto simp: lock_step_def)
  qed
  then show ?thesis by (simp add: keeps_def)
qed

lemma returns_same_locks:
  "returns r (\<lambda>_ k'. kinv k' \<and> locks k' = locks k) \<Longrightarrow> returns r (\<lambda>_ k'. kinv k' \<and> lock_step k k')"
  by (erule returns_mono) (auto intro: lock_step_same)

lemma threadstart_keeps:
  assumes inv: "sched_inv [curthread k] 0 k"
  shows "keeps k (kbind (mi_threadstart k) (\<lambda>_ k. set_thread (curthread k) (set_cont Running) k))"
proof -
  have *: "sched_inv [curthread k] 0 (k\<lparr>tlb := tl, curspl := 0, threads := (threads k)(curthread k \<mapsto> th)\<rparr>)" for tl th
    using sched_inv_in_hand [of "[curthread k]" 0 "k\<lparr>tlb := tl, curspl := 0\<rparr>" "curthread k" th] inv by simp
  obtain tl where tl: "as_activate as k = k\<lparr>tlb := tl\<rparr>" for as
    using as_activate_frame [of _ k] by (auto simp: as_activate_def)
  have **: "sched_inv [curthread k] 0 (k\<lparr>curspl := 0, threads := (threads k)(curthread k \<mapsto> th)\<rparr>)" for th
    using * [where tl = "tlb k"] by simp
  show ?thesis
    using * ** by (auto simp: keeps_def mi_threadstart_def set_thread_def tl spl_defs kinv_def running_def
        set_cont_def cont_of_def lock_step_def)
qed

lemma resume_keeps:
  assumes km: "allocator_ok km" and inv: "kinv k"
  shows "keeps k (resume km irqs k)"
proof (cases "threads k (curthread k)")
  case None
  then show ?thesis by (simp add: keeps_def resume_def)
next
  case (Some th)
  have i: "sched_inv [curthread k] 0 k" using inv by (simp add: kinv_def)
  have lv: "keeps k (leave spl k)" "keeps k (leave spl (k\<lparr>in_interrupt := x\<rparr>))" for spl x
    using leave_keeps [of k spl] leave_keeps [of "k\<lparr>in_interrupt := x\<rparr>" spl] i
    unfolding keeps_def by (auto elim!: returns_mono simp: lock_step_same)
  have acq: "keeps k (kbind (awake k) (\<lambda>_ k. lock_acquire_loop km irqs l (curspl k) outer (splhigh k)))" for l outer
    by (rule after_awake [OF i])
       (rule returns_mono [OF lock_acquire_loop_keeps [OF km kinv_splhigh]], simp, simp add: lock_step_splhigh)
  show ?thesis
    using Some lv acq inv i
      after_awake [OF i, of "P_loop km irqs _ _", OF returns_same_locks [OF P_loop_keeps [OF km]]]
      after_awake [OF i, of "lock_acquire_loop km irqs _ _ _", OF lock_acquire_loop_keeps [OF km]]
      after_awake [OF i, of "clocksleep_loop km irqs _ _", OF returns_same_locks [OF clocksleep_loop_keeps [OF km]]]
      threadstart_keeps [OF i] keeps_same_threads [OF inv i refl refl refl]
    by (auto simp: resume_def lock_step_same split: kcont.splits option.splits)
       (simp_all add: keeps_def)
qed

end
