(* ===== verification/KFork.thy ===== *)
theory KFork
  imports KSynchCalls
begin

text \<open>
  \<^verbatim>\<open>thread_fork\<close> and \<^verbatim>\<open>thread_exit\<close> preserve the invariant of the thread system, on their error paths
  as well, and do not touch any lock.
\<close>

section \<open>Routines that may report an error\<close>

definition ends :: "'a kresult \<Rightarrow> (kernel \<Rightarrow> bool) \<Rightarrow> bool" where
  "ends r Q \<longleftrightarrow> (case r of Ret a k \<Rightarrow> Q k | Err e k \<Rightarrow> Q k | _ \<Rightarrow> True)"

lemma ends_simps [simp]:
  "ends (Ret a k) Q = Q k" "ends (Err e k) Q = Q k" "ends Panic Q" "ends Undef Q"
  by (simp_all add: ends_def)

lemma ends_kbind:
  assumes "ends m Q" and "\<And>a k. m = Ret a k \<Longrightarrow> Q k \<Longrightarrow> ends (f a k) R" and "\<And>k. Q k \<Longrightarrow> R k"
  shows "ends (kbind m f) R"
  using assms by (cases m) simp_all

lemma ends_deref: "(\<And>x. p = Some x \<Longrightarrow> ends (f x) Q) \<Longrightarrow> ends (deref p f) Q"
  by (cases p) simp_all

lemma ends_if: "(b \<Longrightarrow> ends x Q) \<Longrightarrow> (\<not> b \<Longrightarrow> ends y Q) \<Longrightarrow> ends (if b then x else y) Q"
  by simp

lemma ends_drop_value: "returns (drop_value r) (\<lambda>_ k. Q k) = ends r Q"
  by (cases r) simp_all

lemma inside_ends: "inside k r \<Longrightarrow> (\<And>k'. outside k' = outside k \<Longrightarrow> Q k') \<Longrightarrow> ends r Q"
  by (cases r) simp_all

section \<open>A thread that belongs to no list yet\<close>

lemma sched_inv_elsewhere:
  assumes inv: "sched_inv X d k" and t: "t \<notin> set (everyone X k)"
    and place: "t \<noteq> 0" "t \<noteq> word_of_int (errno_code EAGAIN)"
  shows "sched_inv X d (k\<lparr>threads := (threads k)(t := x)\<rparr>)"
proof -
  let ?k = "k\<lparr>threads := (threads k)(t := x)\<rparr>"
  have same: "ready ?k = ready k" "asleep ?k = asleep k" "dead ?k = dead k" "sleeper_ok ?k = sleeper_ok k"
    "lists_inv ?k = lists_inv k" "zombies_inv ?k = zombies_inv k" "used_pids ?k = used_pids k"
    by (rule threads_update_same)+
  have "thread_ok Q ?k u = thread_ok Q k u" "known ?k u = known k u" if "u \<in> set (everyone X k)" for Q u
    using that t by (auto simp: thread_ok_def known_def)
  then show ?thesis
    using inv place unfolding sched_inv_def core_def same by (auto simp: everyone_def same)
qed

text \<open>
  The state in the course of \<^verbatim>\<open>thread_fork\<close>, which began in \<open>k0\<close>: the new thread \<open>g\<close> exists, has a
  pid of its own, and is in none of the lists.
\<close>

definition forking :: "vaddr \<Rightarrow> kernel \<Rightarrow> kernel \<Rightarrow> bool" where
  "forking g k0 k \<longleftrightarrow> sched_inv [curthread k] 0 k \<and> running k \<and> known k g \<and> g \<notin> set (everyone [curthread k] k) \<and>
     g \<noteq> 0 \<and> g \<noteq> word_of_int (errno_code EAGAIN) \<and>
     Suc (length (everyone [curthread k] k)) \<le> used_pids k \<and> curthread k = curthread k0 \<and> locks k = locks k0"

lemma forkingD:
  assumes "forking g k0 k"
  shows "sched_inv [curthread k] 0 k" "running k" "known k g" "g \<notin> set (everyone [curthread k] k)"
    "Suc (length (everyone [curthread k] k)) \<le> used_pids k" "curthread k = curthread k0" "locks k = locks k0"
  using assms by (auto simp: forking_def)

lemma forking_outside:
  assumes "forking g k0 k" "outside k' = outside k"
  shows "forking g k0 k'"
proof -
  note same = outsideD [OF assms(2)]
  have "sched_inv [curthread k'] 0 k' = sched_inv [curthread k] 0 k"
    using sched_inv_cong [OF same(1-9)] same(10) by simp
  moreover have "everyone [curthread k'] k' = everyone [curthread k] k" "used_pids k' = used_pids k"
    using same by (simp_all add: everyone_def ready_def asleep_def dead_def used_pids_def)
  ultimately show ?thesis
    using assms(1) same by (auto simp: forking_def running_def known_def)
qed

lemma forking_thread:
  assumes f: "forking g k0 k"
  shows "forking g k0 (k\<lparr>threads := (threads k)(g \<mapsto> th)\<rparr>)"
proof -
  let ?k = "k\<lparr>threads := (threads k)(g \<mapsto> th)\<rparr>"
  have g: "g \<noteq> curthread k" using f by (auto simp: forking_def everyone_def)
  have "sched_inv [curthread k] 0 ?k" using f by (intro sched_inv_elsewhere) (auto simp: forking_def)
  moreover have "everyone [curthread k] ?k = everyone [curthread k] k" "used_pids ?k = used_pids k"
    by (simp_all add: everyone_def ready_def asleep_def dead_def used_pids_def)
  ultimately show ?thesis using f g by (auto simp: forking_def running_def known_def)
qed

lemma set_thread_forking: "forking g k0 k \<Longrightarrow> ends (set_thread g f k) (forking g k0)"
  unfolding set_thread_def by (intro ends_deref) (simp add: forking_thread)

lemma sched_inv_processes:
  assumes inv: "sched_inv X d k" and pt: "length pt = length (process_table k)"
    and used: "used_pids k \<le> length (filter (\<lambda>p. pi_pid p \<noteq> - 1) pt)"
  shows "sched_inv X d (k\<lparr>process_table := pt\<rparr>)"
proof -
  let ?k = "k\<lparr>process_table := pt\<rparr>"
  have same: "ready ?k = ready k" "asleep ?k = asleep k" "dead ?k = dead k" "sleeper_ok ?k = sleeper_ok k"
    "lists_inv ?k = lists_inv k" "zombies_inv ?k = zombies_inv k" "everyone X ?k = everyone X k"
    by (simp_all add: ready_def asleep_def dead_def everyone_def lists_inv_def runq_inv_def zombies_inv_def sleeper_ok_def
        fun_eq_iff split: kcont.splits)
  have "thread_ok Q ?k = thread_ok Q k" "known ?k = known k" for Q
    by (simp_all add: thread_ok_def known_def fun_eq_iff)
  moreover have "used_pids k \<le> used_pids ?k" using used by (simp add: used_pids_def)
  ultimately show ?thesis
    using inv pt unfolding sched_inv_def core_def same by auto
qed

lemma forking_processes:
  assumes f: "forking g k0 k" and pt: "length pt = length (process_table k)"
    and used: "used_pids k \<le> length (filter (\<lambda>p. pi_pid p \<noteq> - 1) pt)"
  shows "forking g k0 (k\<lparr>process_table := pt\<rparr>)"
proof -
  let ?k = "k\<lparr>process_table := pt\<rparr>"
  have "sched_inv [curthread k] 0 ?k" using f pt used by (intro sched_inv_processes) (auto simp: forking_def)
  moreover have "everyone [curthread k] ?k = everyone [curthread k] k"
    by (simp add: everyone_def ready_def asleep_def dead_def)
  moreover have "used_pids k \<le> used_pids ?k" using used by (simp add: used_pids_def)
  ultimately show ?thesis using f by (auto simp: forking_def running_def known_def)
qed

lemma proc_at_Some: "proc_at k i = Some p \<longleftrightarrow> 0 \<le> i \<and> nat i < length (process_table k) \<and> process_table k ! nat i = p"
  by (auto simp: proc_at_def block_read_def split: if_splits)

lemma proc_set_forking:
  assumes f: "forking g k0 k" and pid: "\<And>p. pi_pid (h p) = pi_pid p"
  shows "ends (proc_set i h k) (forking g k0)"
  unfolding proc_set_def
  by (intro ends_deref)
     (auto simp: proc_at_Some used_pids_def pid intro!: forking_processes [OF f] filter_update_same [symmetric, THEN eq_imp_le])

lemma child_write_forking: "forking g k0 k \<Longrightarrow> ends (child_write i j x k) (forking g k0)"
  unfolding child_write_def by (intro ends_deref proc_set_forking) simp_all

lemma vnode_counts_forking:
  "forking g k0 k \<Longrightarrow> ends (vnode_incref vn k) (forking g k0)"
  "forking g k0 k \<Longrightarrow> ends (vnode_incopen vn k) (forking g k0)"
  "forking g k0 k \<Longrightarrow> vop_ok v \<Longrightarrow> ends (vnode_decref v vn k) (forking g k0)"
  by (rule inside_ends [of k], simp add: stays_inside, erule forking_outside, simp)+

lemma fork_inherit_forking: "forking g k0 k \<Longrightarrow> ends (fork_inherit g cur k) (forking g k0)"
  unfolding fork_inherit_def
  by (auto intro!: ends_kbind [where Q = "forking g k0"] vnode_counts_forking set_thread_forking)

section \<open>The atomic part of \<^verbatim>\<open>thread_fork\<close>\<close>

text \<open>Reserving room replaces a list's representation but not its contents.\<close>

lemma forking_lists:
  assumes f: "forking g k0 k" and li: "lists_inv k'" "zombies_inv k'"
    and lists: "ready k' = ready k" "asleep k' = asleep k" "dead k' = dead k"
    and same: "threads k' = threads k" "numthreads k' = numthreads k" "process_table k' = process_table k"
      "sems k' = sems k" "locks k' = locks k" "lbolt k' = lbolt k" "curthread k' = curthread k"
  shows "forking g k0 k'"
proof -
  have everyone: "everyone X k' = everyone X k" for X using lists by (simp add: everyone_def)
  have inv: "sched_inv [curthread k] 0 k" by (rule forkingD(1) [OF f])
  have "sched_inv [curthread k] 0 k'"
    using sched_inv_lists [OF inv li, of "[curthread k]" 0] sched_invD [OF inv] everyone lists same by simp
  with f same everyone show ?thesis
    by (auto simp: forking_def running_def known_def used_pids_def)
qed

definition committing :: "vaddr \<Rightarrow> kernel \<Rightarrow> kernel \<Rightarrow> bool" where
  "committing g k0 k \<longleftrightarrow> forking g k0 k \<and> thread_ok queued_ok k g"

lemma committing_next:
  assumes "committing g k0 k"
  shows "s32 (numthreads k + 1) = numthreads k + 1" "1 \<le> numthreads k" "numthreads k \<le> 99"
proof -
  from assms have inv: "sched_inv [curthread k] 0 k" and u: "Suc (length (everyone [curthread k] k)) \<le> used_pids k"
    by (auto simp: committing_def forking_def)
  have "used_pids k \<le> 100" using inv used_pids_bound [of k] by (simp add: sched_inv_def core_def)
  with u sched_invD(7) [OF inv] show "1 \<le> numthreads k" "numthreads k \<le> 99"
    by (simp_all add: everyone_def)
  then show "s32 (numthreads k + 1) = numthreads k + 1" by (simp add: s32_id)
qed

lemma preallocate_sleepers:
  assumes c: "committing g k0 k" and km: "allocator_ok km"
  shows "ends (deref (sleepers k) (\<lambda>a. in_part (\<lambda>a. k\<lparr>sleepers := Some a\<rparr>)
            (array_preallocate km a (s32 (numthreads k + 1))))) (committing g k0)"
proof -
  have f: "forking g k0 k" and g: "thread_ok queued_ok k g" using c by (simp_all add: committing_def)
  have inv: "sched_inv [curthread k] 0 k" by (rule forkingD(1) [OF f])
  from sched_invD(1) [OF inv] obtain a where a: "sleepers k = Some a" "array_inv a" by (elim lists_invD)
  have n: "s32 (numthreads k + 1) \<le> array_limit" using committing_next [OF c] by (simp add: array_limit_def)
  have "committing g k0 (k\<lparr>sleepers := Some a'\<rparr>)" if "array_inv a'" "array_list a' = array_list a" for a'
    using that a g sched_invD(1,2) [OF inv]
    by (auto simp: committing_def thread_ok_def lists_inv_def runq_inv_def zombies_inv_def ready_def asleep_def dead_def
        intro!: forking_lists [OF f])
  moreover have "k\<lparr>sleepers := Some a\<rparr> = k" using a by (simp add: a(1) [symmetric])
  ultimately show ?thesis
    using a array_preallocate_outcome [OF a(2) km n] c
    by (cases "array_preallocate km a (s32 (numthreads k + 1))") simp_all
qed

lemma preallocate_zombies:
  assumes c: "committing g k0 k" and km: "allocator_ok km"
  shows "ends (deref (zombies k) (\<lambda>a. in_part (\<lambda>a. k\<lparr>zombies := Some a\<rparr>)
            (array_preallocate km a (s32 (numthreads k + 1))))) (committing g k0)"
proof -
  have f: "forking g k0 k" and g: "thread_ok queued_ok k g" using c by (simp_all add: committing_def)
  have inv: "sched_inv [curthread k] 0 k" by (rule forkingD(1) [OF f])
  from sched_invD(2) [OF inv] obtain a where a: "zombies k = Some a" "array_inv a"
    by (auto simp: zombies_inv_def split: option.splits)
  have n: "s32 (numthreads k + 1) \<le> array_limit" using committing_next [OF c] by (simp add: array_limit_def)
  have "committing g k0 (k\<lparr>zombies := Some a'\<rparr>)" if "array_inv a'" "array_list a' = array_list a" for a'
    using that a g sched_invD(1,2) [OF inv]
    by (auto simp: committing_def thread_ok_def lists_inv_def runq_inv_def zombies_inv_def ready_def asleep_def dead_def
        intro!: forking_lists [OF f])
  moreover have "k\<lparr>zombies := Some a\<rparr> = k" using a by (simp add: a(1) [symmetric])
  ultimately show ?thesis
    using a array_preallocate_outcome [OF a(2) km n] c
    by (cases "array_preallocate km a (s32 (numthreads k + 1))") simp_all
qed

lemma preallocate_runqueue:
  assumes c: "committing g k0 k" and km: "allocator_ok km"
  shows "ends (scheduler_preallocate km (s32 (numthreads k + 1)) k) (committing g k0)"
proof -
  have f: "forking g k0 k" and g: "thread_ok queued_ok k g" using c by (simp_all add: committing_def)
  have inv: "sched_inv [curthread k] 0 k" by (rule forkingD(1) [OF f])
  from sched_invD(1) [OF inv] obtain q where q: "runqueue k = Some q" "queue_inv q" "q_size q \<le> 1024"
    by (auto simp: lists_inv_def runq_inv_def split: option.splits)
  have n: "s32 (numthreads k + 1) \<le> queue_limit" "2 * s32 (numthreads k + 1) \<le> 1024"
    using committing_next [OF c] by (simp_all add: queue_limit_def)
  have "committing g k0 (k\<lparr>runqueue := Some q'\<rparr>)" if "queue_inv q'" "q_list q' = q_list q" "q_size q' \<le> 1024" for q'
    using that q g sched_invD(1,2) [OF inv]
    by (auto simp: committing_def thread_ok_def lists_inv_def runq_inv_def zombies_inv_def ready_def asleep_def dead_def
        intro!: forking_lists [OF f])
  moreover have "k\<lparr>runqueue := Some q\<rparr> = k" using q by (simp add: q(1) [symmetric])
  ultimately show ?thesis
    using q q_preallocate_outcome [OF q(2) km n(1)] n(2) c
    by (cases "q_preallocate km q (s32 (numthreads k + 1))") (auto simp: scheduler_preallocate_def put_runqueue_def)
qed

text \<open>The new thread enters the run queue and is counted.\<close>

lemma sched_inv_newcomer:
  assumes c: "committing g k0 k" and q: "runq_inv (k\<lparr>runqueue := Some q\<rparr>)" "q_list q = ready k @ [g]"
  shows "sched_inv [curthread k] 0 (k\<lparr>runqueue := Some q, numthreads := numthreads k + 1\<rparr>)"
proof -
  let ?k = "k\<lparr>runqueue := Some q, numthreads := numthreads k + 1\<rparr>"
  have f: "forking g k0 k" and g: "thread_ok queued_ok k g" using c by (simp_all add: committing_def)
  have same: "ready ?k = ready k @ [g]" "asleep ?k = asleep k" "dead ?k = dead k" "sleeper_ok ?k = sleeper_ok k"
    "zombies_inv ?k = zombies_inv k" "used_pids ?k = used_pids k"
    using q(2) by (simp_all add: ready_def asleep_def dead_def zombies_inv_def sleeper_ok_def used_pids_def
        fun_eq_iff split: kcont.splits)
  have ok: "thread_ok Q ?k = thread_ok Q k" "known ?k = known k" for Q
    by (simp_all add: thread_ok_def known_def fun_eq_iff)
  have li: "lists_inv ?k" using f q(1) by (auto simp: forking_def sched_inv_def core_def lists_inv_def runq_inv_def)
  show ?thesis
    using f g li unfolding forking_def sched_inv_def core_def everyone_def same ok by auto
qed

lemma running_same: "threads k' = threads k \<Longrightarrow> curthread k' = curthread k \<Longrightarrow> running k' = running k"
  by (simp add: running_def)

definition forked :: "kernel \<Rightarrow> kernel \<Rightarrow> bool" where
  "forked k0 k \<longleftrightarrow> sched_inv [curthread k] 0 k \<and> running k \<and> curthread k = curthread k0 \<and> locks k = locks k0"

lemma enqueue_newcomer:
  assumes c: "committing g k0 k" and km: "allocator_ok km"
  shows "case make_runnable km g k of Ret a k' \<Rightarrow> forked k0 (k'\<lparr>numthreads := s32 (numthreads k' + 1)\<rparr>)
    | Err e k' \<Rightarrow> forking g k0 k' | _ \<Rightarrow> True"
proof (cases "curspl k > 0")
  case True
  have f: "forking g k0 k" using c by (simp add: committing_def)
  have core: "core (sleeper_ok k) [curthread k] 0 k" using forkingD(1) [OF f] by (simp add: sched_inv_def)
  have "runq_inv k" using core by (simp add: core_def lists_inv_def)
  from make_runnable_cases [OF this True km core_sizes(3) [OF core], of g] show ?thesis
  proof
    assume "make_runnable km g k = Err ENOMEM k \<and> run_room k = 0"
    with f show ?thesis by simp
  next
    assume "\<exists>q. make_runnable km g k = Ret () (k\<lparr>runqueue := Some q\<rparr>) \<and> runq_inv (k\<lparr>runqueue := Some q\<rparr>) \<and>
       q_list q = ready k @ [g] \<and> run_room k \<le> Suc (q_room q)"
    then obtain q where q: "make_runnable km g k = Ret () (k\<lparr>runqueue := Some q\<rparr>)"
      "runq_inv (k\<lparr>runqueue := Some q\<rparr>)" "q_list q = ready k @ [g]" by blast
    let ?k = "k\<lparr>runqueue := Some q, numthreads := numthreads k + 1\<rparr>"
    have "running ?k" using forkingD(2) [OF f] by (simp add: running_def)
    with sched_inv_newcomer [OF c q(2,3)] forkingD(6,7) [OF f] have "forked k0 ?k" by (auto simp: forked_def)
    with q(1) committing_next(1) [OF c] show ?thesis by simp
  qed
qed (simp add: make_runnable_def)

lemma fork_commit_keeps:
  assumes c: "committing g k0 k" and km: "allocator_ok (fk_km env)"
  shows "case fork_commit env g k of Ret a k' \<Rightarrow> forked k0 k' | Err e k' \<Rightarrow> forking g k0 k' | _ \<Rightarrow> True"
proof -
  have f: "committing g k0 k \<Longrightarrow> forking g k0 k" for k by (simp add: committing_def)
  have bind: "case kbind m h of Ret a k' \<Rightarrow> forked k0 k' | Err e k' \<Rightarrow> forking g k0 k' | _ \<Rightarrow> True"
    if "ends m (committing g k0)" "\<And>a k. committing g k0 k \<Longrightarrow>
      (case h a k of Ret a k' \<Rightarrow> forked k0 k' | Err e k' \<Rightarrow> forking g k0 k' | _ \<Rightarrow> True)" for m :: "unit kresult" and h
    using that f by (cases m) simp_all
  have last: "case kbind m (\<lambda>_ k. Ret () (k\<lparr>numthreads := s32 (numthreads k + 1)\<rparr>)) of
      Ret a k' \<Rightarrow> forked k0 k' | Err e k' \<Rightarrow> forking g k0 k' | _ \<Rightarrow> True"
    if "case m of Ret a k' \<Rightarrow> forked k0 (k'\<lparr>numthreads := s32 (numthreads k' + 1)\<rparr>)
      | Err e k' \<Rightarrow> forking g k0 k' | _ \<Rightarrow> True" for m :: "unit kresult"
    using that by (cases m) simp_all
  show ?thesis unfolding fork_commit_def
    by (intro bind last preallocate_sleepers preallocate_zombies preallocate_runqueue enqueue_newcomer km c)
qed

section \<open>The rest of \<^verbatim>\<open>thread_fork\<close>\<close>

lemma find_pid_state: "find_pid n i k = Ret r k' \<Longrightarrow> k' = k"
  by (induction n arbitrary: i) (auto simp: deref_def split: option.splits if_splits)

lemma find_pid_no_Err: "find_pid n i k \<noteq> Err e k'"
  by (induction n arbitrary: i) (auto simp: deref_def split: option.splits)

lemma find_pid_Some:
  "find_pid n i k = Ret (Some j) k' \<Longrightarrow> k' = k \<and> i \<le> j \<and> (\<exists>p. proc_at k (int j) = Some p \<and> pi_pid p = - 1)"
  by (induction n arbitrary: i) (auto simp: deref_def split: option.splits if_splits, fastforce+)

lemma forking_created:
  assumes inv: "sched_inv [curthread k] 0 k" "running k" and p: "threads k p = None" "p \<noteq> 0" "p \<noteq> word_of_int (errno_code EAGAIN)"
    and i: "proc_at k (int i) = Some pr" "pi_pid pr = - 1" and pid: "pi_pid pr' \<noteq> - 1"
  shows "forking p k (k\<lparr>threads := (threads k)(p \<mapsto> th), process_table := (process_table k)[i := pr']\<rparr>)"
proof -
  let ?k1 = "k\<lparr>threads := (threads k)(p \<mapsto> th)\<rparr>"
  let ?k2 = "?k1\<lparr>process_table := (process_table k)[i := pr']\<rparr>"
  have "known k t" if "t \<in> set (everyone [curthread k] k)" for t
    using inv(1) core_known that by (auto simp: sched_inv_def)
  from this [of p] have p': "p \<notin> set (everyone [curthread k] k)" using p(1) by (auto simp: known_def)
  have more: "length (filter (\<lambda>p. pi_pid p \<noteq> - 1) ((process_table k)[i := pr'])) = Suc (used_pids k)"
    using i pid by (simp add: proc_at_Some filter_update_more used_pids_def)
  have "sched_inv [curthread k] 0 ?k1" by (rule sched_inv_elsewhere [OF inv(1) p' p(2,3)])
  then have "sched_inv [curthread k] 0 ?k2"
    by (rule sched_inv_processes) (use more in \<open>simp_all add: used_pids_def\<close>)
  moreover have "everyone X ?k2 = everyone X k" for X by (simp add: everyone_def ready_def asleep_def dead_def)
  moreover have "length (everyone [curthread k] k) \<le> used_pids k" using inv(1) by (simp add: sched_inv_def core_def)
  moreover have "p \<noteq> curthread k" using p' by (auto simp: everyone_def)
  ultimately show ?thesis
    using inv(2) p p' more by (simp add: forking_def running_def known_def used_pids_def)
qed

lemma thread_create_forking:
  assumes inv: "sched_inv [curthread k] 0 k" "running k" and p: "p = 0 \<or> threads k p = None" "p \<noteq> word_of_int (errno_code EAGAIN)"
  shows "case thread_create p g name k of Ret t k' \<Rightarrow> forking t k k' \<or> threads k' t = None | Err e k' \<Rightarrow> False | _ \<Rightarrow> True"
proof (cases "p = 0 \<or> \<not> g")
  case True
  moreover have "threads k 0 = None" using inv(1) by (simp add: sched_inv_def core_def)
  ultimately show ?thesis by (auto simp: thread_create_def)
next
  case False
  let ?th = "thread0\<lparr>t_name := name, t_pid := 0\<rparr>"
  let ?k = "splhigh (k\<lparr>threads := (threads k)(p \<mapsto> ?th)\<rparr>)"
  have p0: "threads k p = None" "p \<noteq> 0" using p False by auto
  show ?thesis
  proof (cases "find_pid (P_TABLE_SIZE - 1) 1 ?k")
    case (Ret found k1)
    show ?thesis
    proof (cases found)
      case None
      have "k1 = ?k" using find_pid_state [OF Ret] .
      moreover have "threads k (word_of_int (errno_code EAGAIN)) = None"
        using inv(1) by (simp add: sched_inv_def core_def)
      ultimately show ?thesis using Ret None False p(2) by (simp add: thread_create_def Let_def spl_defs)
    next
      case (Some i)
      let ?h = "\<lambda>pr. pr\<lparr>pi_pid := int i, pi_status := 1, pi_exitCode := 0, pi_numOfChild := 0\<rparr>"
      from find_pid_Some [OF Ret [unfolded Some]] obtain pr
        where k1: "k1 = ?k" and pr: "proc_at k (int i) = Some pr" "pi_pid pr = - 1"
        by (auto simp: proc_at_def spl_defs)
      let ?k2 = "k\<lparr>threads := (threads k)(p \<mapsto> ?th), process_table := (process_table k)[i := ?h pr]\<rparr>"
      have "forking p k ?k2" by (rule forking_created [OF inv p0 p(2) pr]) simp
      then have "forking p k (?k2\<lparr>threads := (threads ?k2)(p \<mapsto> ?th\<lparr>t_pid := int i\<rparr>)\<rparr>)" by (rule forking_thread)
      moreover have "thread_create p g name k =
          Ret p (?k2\<lparr>threads := (threads ?k2)(p \<mapsto> ?th\<lparr>t_pid := int i\<rparr>)\<rparr>)"
        using Ret Some False pr
        by (simp add: thread_create_def Let_def k1 proc_set_def proc_at_def set_thread_def spl_defs)
      ultimately show ?thesis by simp
    qed
  qed (use False find_pid_no_Err in \<open>simp_all add: thread_create_def Let_def\<close>)
qed

definition fork_env_ok :: "fork_env \<Rightarrow> kernel \<Rightarrow> bool" where
  "fork_env_ok env k \<longleftrightarrow> (fk_thread env = 0 \<or> threads k (fk_thread env) = None) \<and>
     fk_thread env \<noteq> word_of_int (errno_code EAGAIN) \<and> allocator_ok (fk_km env) \<and> vop_ok (fk_reclaim env)"

lemma forked_removed:
  assumes f: "forking g k0 k"
  shows "forked k0 (k\<lparr>threads := (threads k)(g := None)\<rparr>)"
proof -
  have "sched_inv [curthread k] 0 (k\<lparr>threads := (threads k)(g := None)\<rparr>)"
    using f by (intro sched_inv_elsewhere) (auto simp: forking_def)
  moreover have "g \<noteq> curthread k" using forkingD(4) [OF f] by (auto simp: everyone_def)
  ultimately show ?thesis using forkingD(2,6,7) [OF f] by (auto simp: forked_def running_def)
qed

lemma forking_forked: "forking g k0 k \<Longrightarrow> forked k0 k"
  using forkingD [of g k0 k] by (simp add: forked_def)

lemma fork_fail_keeps:
  assumes f: "forking g k0 k" and v: "vop_ok (fk_reclaim env)"
  shows "ends (fork_fail env g e spl k) (forked k0)"
proof -
  have f': "forking g k0 (splx spl k)" by (rule forking_outside [OF f]) simp
  show ?thesis unfolding fork_fail_def Let_def
    by (rule ends_deref, rule ends_kbind [where Q = "forking g k0"], use f' v vnode_counts_forking(3) in force,
        rule ends_kbind [where Q = "forking g k0"], use v vnode_counts_forking(3) in force)
       (auto intro: forked_removed forking_forked)
qed

lemma set_cont_committing:
  assumes "forking g k0 k"
  shows "ends (set_thread g (\<lambda>th. th\<lparr>t_pcb := md_initpcb stack d1 d2 f\<rparr>) k) (committing g k0)"
  using assms unfolding set_thread_def
  by (intro ends_deref) (auto simp: committing_def forking_thread thread_ok_def queued_ok_def cont_of_def md_initpcb_def Let_def)

lemma fork_commit_ends:
  assumes c: "committing g k0 k" and km: "allocator_ok (fk_km env)" and v: "vop_ok (fk_reclaim env)"
  shows "ends (case fork_commit env g (splhigh k) of Ret _ k \<Rightarrow> Ret g (splx s k) | Err e k \<Rightarrow> fork_fail env g e s k
     | Panic \<Rightarrow> Panic | Undef \<Rightarrow> Undef) (forked k0)"
proof -
  have "committing g k0 (splhigh k)"
    using c forking_outside [of g k0 k "splhigh k"] by (simp add: committing_def thread_ok_def spl_defs)
  moreover have "forked k0 k' \<Longrightarrow> forked k0 (splx s k')" for k' by (auto simp: forked_def running_def splx_def)
  ultimately show ?thesis
    using fork_commit_keeps [of g k0 "splhigh k" env] km fork_fail_keeps [OF _ v]
    by (cases "fork_commit env g (splhigh k)") simp_all
qed

lemma fork_rest_forking:
  assumes f: "forking g k0 k" and km: "allocator_ok (fk_km env)" and v: "vop_ok (fk_reclaim env)"
  shows "ends (fork_rest env d1 d2 func g k) (forked k0)"
proof -
  have mem: "forking g k0 k \<Longrightarrow> forking g k0 (k\<lparr>kmem := m\<rparr>)" for k m
    by (erule forking_outside) simp
  have step: "ends m (forking g k0) \<Longrightarrow> (\<And>a k. forking g k0 k \<Longrightarrow> ends (h a k) (forked k0)) \<Longrightarrow> ends (kbind m h) (forked k0)"
    for m :: "unit kresult" and h
    by (erule ends_kbind) (auto intro: forking_forked)
  show ?thesis
    unfolding fork_rest_def Let_def
    apply (rule ends_deref)
    apply (rule step [OF proc_set_forking [OF f]], simp)
    apply (rule ends_deref, rule ends_deref)
    apply (rule step [OF child_write_forking], assumption)
    apply (rule ends_if)
     apply (simp add: forked_removed)
    apply (rule step [OF set_thread_forking [OF mem]], assumption)
    apply (rule step [OF fork_inherit_forking], assumption)
    apply (rule ends_deref)
    apply (rule step [OF child_write_forking], assumption)
    apply (rule step [OF proc_set_forking], assumption, simp)
    apply (rule ends_kbind [where Q = "committing g k0", OF set_cont_committing], assumption)
     apply (rule fork_commit_ends [OF _ km v], assumption)
    apply (auto simp: committing_def intro: forking_forked)
    done
qed

lemma proc_set_cases:
  "(\<exists>pt. proc_set i h k = Ret () (k\<lparr>process_table := pt\<rparr>)) \<or> proc_set i h k = Undef"
  by (auto simp: proc_set_def deref_def split: option.splits)

lemma fork_rest_stray:
  assumes "threads k g = None"
  shows "fork_rest env d1 d2 func g k = Undef"
proof (cases "threads k (curthread k)")
  case (Some cur)
  let ?m = "proc_set (t_pid cur) (\<lambda>p. p\<lparr>pi_numOfChild := s32 (pi_numOfChild p + 1)\<rparr>) k"
  from proc_set_cases [of "t_pid cur" _ k] consider pt where "?m = Ret () (k\<lparr>process_table := pt\<rparr>)" | "?m = Undef" by blast
  then show ?thesis
  proof cases
    case 1
    then show ?thesis
      using Some assms by (cases "proc_at (k\<lparr>process_table := pt\<rparr>) (t_pid cur)") (simp_all add: fork_rest_def Let_def)
  next
    case 2
    then show ?thesis using Some by (simp add: fork_rest_def Let_def)
  qed
qed (simp add: fork_rest_def)

lemma thread_fork_forked:
  assumes inv: "kinv k" "running k" and env: "fork_env_ok env k"
  shows "ends (thread_fork env name d1 d2 func k) (forked k)"
proof -
  have "sched_inv [curthread k] 0 k" using inv by (simp add: kinv_def)
  from thread_create_forking [OF this inv(2), of "fk_thread env" "fk_name_granted env" name] env show ?thesis
    unfolding thread_fork_def fork_env_ok_def
    by (cases "thread_create (fk_thread env) (fk_name_granted env) name k")
       (auto simp: fork_rest_stray intro: fork_rest_forking)
qed

lemma thread_fork_keeps:
  assumes "kinv k" "running k" "fork_env_ok env k"
  shows "keeps k (drop_value (thread_fork env name d1 d2 func k))"
  using thread_fork_forked [OF assms, of name d1 d2 func]
  unfolding keeps_def ends_drop_value
  by (cases "thread_fork env name d1 d2 func k") (auto simp: forked_def kinv_def lock_step_same)

section \<open>\<^verbatim>\<open>thread_exit\<close>\<close>

text \<open>
  The state while the current thread takes itself apart: it is still the thread in hand, and every
  change is to its own structure or to memory and vnodes.
\<close>

definition exiting :: "kernel \<Rightarrow> (thread \<Rightarrow> bool) \<Rightarrow> kernel \<Rightarrow> bool" where
  "exiting k0 Q k \<longleftrightarrow> sched_inv [curthread k] 0 k \<and> thread_ok Q k (curthread k) \<and>
     curthread k = curthread k0 \<and> locks k = locks k0"

lemma exiting_outside:
  assumes "exiting k0 Q k" "outside k' = outside k"
  shows "exiting k0 Q k'"
proof -
  note same = outsideD [OF assms(2)]
  have "sched_inv [curthread k'] 0 k' = sched_inv [curthread k] 0 k"
    using sched_inv_cong [OF same(1-9)] same(10) by simp
  with assms(1) same show ?thesis by (auto simp: exiting_def thread_ok_def)
qed

lemma exiting_thread:
  assumes e: "exiting k0 Q k" and f: "\<And>th. Q th \<Longrightarrow> Q' (f th)"
  shows "returns (set_thread (curthread k) f k) (\<lambda>_. exiting k0 Q')"
proof -
  have "sched_inv [curthread k] 0 (k\<lparr>threads := (threads k)(curthread k \<mapsto> th)\<rparr>)" for th
    using e by (intro sched_inv_in_hand) (auto simp: exiting_def)
  with e f show ?thesis by (auto simp: set_thread_def exiting_def thread_ok_def split: option.splits)
qed

lemma inside_returns: "inside k r \<Longrightarrow> exiting k0 Q k \<Longrightarrow> returns r (\<lambda>_. exiting k0 Q)"
  by (cases r) (auto intro: exiting_outside)

lemma as_destroy_exiting:
  assumes "exiting k0 Q k" shows "returns (as_destroy as k) (\<lambda>_. exiting k0 Q)"
  by (rule inside_returns [OF _ assms]) (simp add: stays_inside)

lemma vnode_drops_exiting:
  assumes e: "exiting k0 Q k" and v: "vop_ok v" "vop_ok w"
  shows "returns (vnode_decref v vn k) (\<lambda>_. exiting k0 Q)" "returns (vnode_decopen v vn k) (\<lambda>_. exiting k0 Q)"
    "returns (vfs_close v w vn k) (\<lambda>_. exiting k0 Q)"
  using v by (auto intro!: inside_returns [OF _ e] stays_inside)

lemma exiting_proc_set:
  assumes e: "exiting k0 Q k" and pid: "\<And>p. pi_pid (h p) = pi_pid p"
  shows "returns (proc_set i h k) (\<lambda>_. exiting k0 Q)"
proof -
  have "exiting k0 Q (k\<lparr>process_table := (process_table k)[nat i := h p]\<rparr>)" if p: "proc_at k i = Some p" for p
  proof -
    have "sched_inv [curthread k] 0 (k\<lparr>process_table := (process_table k)[nat i := h p]\<rparr>)"
      using e p pid by (intro sched_inv_processes)
        (auto simp: exiting_def proc_at_Some used_pids_def intro!: filter_update_same [symmetric, THEN eq_imp_le])
    with e show ?thesis by (auto simp: exiting_def thread_ok_def)
  qed
  then show ?thesis by (simp add: proc_set_def)
qed

lemma exiting_mono: "exiting k0 Q k \<Longrightarrow> (\<And>th. Q th \<Longrightarrow> Q' th) \<Longrightarrow> exiting k0 Q' k"
  by (auto simp: exiting_def intro: thread_ok_mono)

lemma returns_exiting: "returns m (\<lambda>_. exiting k0 Q) \<Longrightarrow> (\<And>k. exiting k0 Q k \<Longrightarrow> returns (f k) R) \<Longrightarrow>
    returns (kbind m (\<lambda>_. f)) R"
  by (simp add: returns_mono)

lemma sched_inv_uncounted:
  assumes inv: "sched_inv X d k"
  shows "sched_inv X (d + 1) (k\<lparr>numthreads := numthreads k - 1\<rparr>)"
proof -
  let ?k = "k\<lparr>numthreads := numthreads k - 1\<rparr>"
  have same: "ready ?k = ready k" "asleep ?k = asleep k" "dead ?k = dead k" "lists_inv ?k = lists_inv k"
    "zombies_inv ?k = zombies_inv k" "used_pids ?k = used_pids k" "everyone X ?k = everyone X k"
    by (simp_all add: ready_def asleep_def dead_def lists_inv_def runq_inv_def zombies_inv_def used_pids_def everyone_def)
  have ok: "thread_ok Q ?k = thread_ok Q k" "known ?k = known k" for Q
    by (simp_all add: thread_ok_def known_def fun_eq_iff)
  have sl: "sleeper_ok ?k = sleeper_ok k" by (rule sleeper_ok_cong) simp_all
  show ?thesis using inv unfolding sched_inv_def core_def same ok sl by simp
qed

text \<open>The last step: the thread becomes a zombie and the processor goes to another one.\<close>

lemma exit_switch:
  assumes km: "allocator_ok km" and e: "exiting k0 (\<lambda>x. t_vmspace x = 0 \<and> t_cwd x = 0) k"
  shows "returns (mi_switch km irqs S_ZOMB In_exit (k\<lparr>numthreads := numthreads k - 1\<rparr>)) (\<lambda>_ k'. kinv k' \<and> lock_step k0 k')"
proof -
  let ?k = "k\<lparr>numthreads := numthreads k - 1\<rparr>"
  obtain th where th: "threads k (curthread k) = Some th" "t_vmspace th = 0" "t_cwd th = 0"
    and inv: "sched_inv [curthread k] 0 k" and k0: "locks k = locks k0"
    using e by (auto simp: exiting_def thread_ok_def split: option.splits)
  have "sched_inv [curthread k] 1 ?k"
    using sched_inv_uncounted [OF inv] by simp
  then have "returns (mi_switch km irqs S_ZOMB In_exit ?k) (\<lambda>_ k'. sched_inv [curthread k'] 0 k' \<and>
    curspl k' = curspl ?k \<and> curspl ?k > 0 \<and> locks k' = locks ?k \<and> thread_ok queued_ok k' (curthread k'))"
    by (intro mi_switch_keeps [OF km, where d = 1 and th = th])
       (use th in \<open>simp_all add: may_stash_def dead_ok_def set_cont_def cont_of_def\<close>)
  then show ?thesis
    by (rule returns_mono) (use k0 in \<open>auto simp: kinv_def lock_step_same\<close>)
qed

lemma thread_exit_keeps:
  assumes km: "allocator_ok km" and v: "vop_ok vop_close" "vop_ok vop_reclaim" and inv: "kinv k"
  shows "keeps k (thread_exit km irqs vop_close vop_reclaim k)"
  unfolding keeps_def thread_exit_def returns_deref
proof (intro allI impI)
  fix th assume th: "threads k (curthread k) = Some th"
  let ?Q1 = "\<lambda>x. x = th" let ?Q2 = "\<lambda>x. t_vmspace x = 0 \<and> t_cwd x = t_cwd th"
  let ?Q3 = "\<lambda>x. t_vmspace x = 0 \<and> t_cwd x = 0"
  have "exiting k ?Q1 (splhigh k)" using inv th by (simp add: exiting_def kinv_def thread_ok_def) (simp add: spl_defs)
  then have 1: "returns (proc_set (t_pid th) (\<lambda>p. p\<lparr>pi_status := 2\<rparr>) (splhigh k)) (\<lambda>_. exiting k ?Q1)"
    by (rule exiting_proc_set) simp
  have 2: "returns (if t_vmspace th \<noteq> 0
            then kbind (set_thread (curthread k1) (\<lambda>th. th\<lparr>t_vmspace := 0\<rparr>) k1) (\<lambda>_ k. as_destroy (t_vmspace th) k)
            else Ret () k1) (\<lambda>_. exiting k ?Q2)" if "exiting k ?Q1 k1" for k1
    using that by (auto intro!: returns_exiting [OF exiting_thread [where Q' = ?Q2]] as_destroy_exiting simp del: returns_kbind
        elim: exiting_mono)
  have 3: "returns (if t_cwd th \<noteq> 0
            then kbind (vnode_decref vop_reclaim (t_cwd th) k1) (\<lambda>_ k. set_thread (curthread k) (\<lambda>th. th\<lparr>t_cwd := 0\<rparr>) k)
            else Ret () k1) (\<lambda>_. exiting k ?Q3)" if "exiting k ?Q2 k1" for k1
    using that v by (auto intro!: returns_exiting [OF vnode_drops_exiting(1)] exiting_thread [where Q = ?Q2] simp del: returns_kbind
        elim: exiting_mono)
  have 4: "returns (if t_v th \<noteq> 0
            then deref (vnodes k1 (t_v th)) (\<lambda>v.
              if vn_refcount v = 1 then vfs_close vop_close vop_reclaim (t_v th) k1
              else kbind (vnode_decref vop_reclaim (t_v th) k1) (\<lambda>_ k. vnode_decopen vop_close (t_v th) k))
            else Ret () k1) (\<lambda>_. exiting k ?Q3)" if "exiting k ?Q3 k1" for k1
    using that v by (auto intro!: returns_exiting [OF vnode_drops_exiting(1)] vnode_drops_exiting(2,3) simp del: returns_kbind)
  show "returns (if \<not> stack_ok k th then Panic else
     kbind (proc_set (t_pid th) (\<lambda>p. p\<lparr>pi_status := 2\<rparr>) (splhigh k)) (\<lambda>_ k.
     kbind (if t_vmspace th \<noteq> 0
            then kbind (set_thread (curthread k) (\<lambda>th. th\<lparr>t_vmspace := 0\<rparr>) k) (\<lambda>_ k. as_destroy (t_vmspace th) k)
            else Ret () k) (\<lambda>_ k.
     kbind (if t_cwd th \<noteq> 0
            then kbind (vnode_decref vop_reclaim (t_cwd th) k) (\<lambda>_ k. set_thread (curthread k) (\<lambda>th. th\<lparr>t_cwd := 0\<rparr>) k)
            else Ret () k) (\<lambda>_ k.
     kbind (if t_v th \<noteq> 0
            then deref (vnodes k (t_v th)) (\<lambda>v.
              if vn_refcount v = 1 then vfs_close vop_close vop_reclaim (t_v th) k
              else kbind (vnode_decref vop_reclaim (t_v th) k) (\<lambda>_ k. vnode_decopen vop_close (t_v th) k))
            else Ret () k) (\<lambda>_ k.
     if \<not> numthreads k > 0 then Panic
     else mi_switch km irqs S_ZOMB In_exit (k\<lparr>numthreads := numthreads k - 1\<rparr>)))))) (\<lambda>_ k'. kinv k' \<and> lock_step k k')"
    using exit_switch [OF km]
    by (auto intro!: returns_exiting [OF 1] returns_exiting [OF 2] returns_exiting [OF 3] returns_exiting [OF 4] simp del: returns_kbind)
qed

end
