(* ===== verification/KStep.thy ===== *)
theory KStep
  imports KFork
begin

text \<open>
  The step relation of the thread system and what holds in every state it reaches. A step is a call
  made by the running thread, the continuation of a thread that has just been switched to, or an
  interrupt taken while interrupts are enabled.
\<close>

section \<open>Steps\<close>

text \<open>
  What is asked of a call: structures are created at addresses that are not in use and on which no thread
  sleeps, and the file system's operations keep to memory and vnodes. Nothing is asked of the calls that free
  a semaphore or a lock.
\<close>

fun call_ok :: "kcall \<Rightarrow> kernel \<Rightarrow> bool" where
  "call_ok (Call_sem_create p g name n) k = (sems k p = None \<and> unslept p k)"
| "call_ok (Call_lock_create p g h name) k = (locks k p = None \<and> unslept p k)"
| "call_ok (Call_fork env name d1 d2 f) k = fork_env_ok env k"
| "call_ok (Call_exit vop_close vop_reclaim) k = (vop_ok vop_close \<and> vop_ok vop_reclaim)"
| "call_ok _ k = True"

inductive kstep :: "kernel \<Rightarrow> kernel \<Rightarrow> bool" where
  call: "kstep k k'"
    if "running k" "allocator_ok km" "call_ok c k" "exec_call km irqs c k = Ret () k'"
| continue: "kstep k k'"
    if "\<not> running k" "allocator_ok km" "resume km irqs k = Ret () k'"
| interrupt: "kstep k k'"
    if "running k" "curspl k = 0" "allocator_ok km" "take_interrupt km irqs irq k = Ret () k'"

inductive_cases kstepE: "kstep k k'"

section \<open>Every step keeps the invariant\<close>

lemma exec_call_keeps:
  assumes km: "allocator_ok km" and inv: "kinv k" "running k" and ok: "call_ok c k"
  shows "keeps k (exec_call km irqs c k)"
proof (cases c)
  case (Call_sem_create p g name n)
  with ok inv show ?thesis by (simp add: sem_create_keeps)
next
  case (Call_lock_create p g h name)
  with ok inv show ?thesis by (simp add: lock_create_keeps)
next
  case (Call_fork env name d1 d2 f)
  with ok inv show ?thesis by (simp add: thread_fork_keeps)
next
  case (Call_exit v w)
  with ok inv km show ?thesis by (simp add: thread_exit_keeps)
qed (use km inv in \<open>simp_all add: P_keeps V_step lock_acquire_keeps lock_release_step cv_wait_keeps cv_signal_keeps
  cv_broadcast_keeps yield_step clocksleep_step destroy_test_keeps sem_free_keeps lock_free_keeps cv_create_keeps cv_destroy_keeps\<close>)

lemma keepsD: "keeps k r \<Longrightarrow> r = Ret a k' \<Longrightarrow> kinv k' \<and> lock_step k k'"
  by (simp add: keeps_def)

lemma kstep_keeps:
  assumes "kstep k k'" "kinv k"
  shows "kinv k' \<and> lock_step k k'"
  using assms(1)
proof cases
  case (call km c irqs)
  with assms(2) show ?thesis by (intro keepsD [OF exec_call_keeps]) auto
next
  case (continue km irqs)
  with assms(2) show ?thesis by (intro keepsD [OF resume_keeps]) auto
next
  case (interrupt km irqs irq)
  with assms(2) show ?thesis by (intro keepsD [OF take_interrupt_keeps]) auto
qed

lemma ksteps_keep:
  assumes "kstep\<^sup>*\<^sup>* k k'" "kinv k"
  shows "kinv k'"
  using assms by (induction rule: rtranclp_induct) (auto dest: kstep_keeps)

lemma kinv_sleeper:
  assumes "kinv k" "t \<in> set (asleep k)" "threads k t = Some th"
  shows "sleeper_ok k th"
  using assms sched_invD(5) [of "[curthread k]" 0 k] by (auto simp: kinv_def thread_ok_def)

section \<open>The state after boot\<close>

text \<open>
  \<^verbatim>\<open>boot\<close> of \<^verbatim>\<open>kern/main/main.c\<close> sets up the scheduler and then the thread system; \<open>p\<close> is the address that
  \<^verbatim>\<open>kmalloc\<close> gives for the first thread.
\<close>

definition booted :: "vaddr allocator \<Rightarrow> vaddr \<Rightarrow> kernel \<Rightarrow> bool" where
  "booted km p k \<longleftrightarrow>
     kbind (scheduler_bootstrap True km kernel0) (\<lambda>_ k. thread_bootstrap True True True p True k) = Ret p k"

lemma first_pid:
  assumes "process_table k = replicate 100 proc0"
  shows "find_pid 99 (Suc 0) k = Ret (Some (Suc 0)) k"
proof -
  have "find_pid (Suc 98) (Suc 0) k = Ret (Some (Suc 0)) k"
    unfolding find_pid.simps using assms by (simp add: proc_at_def block_read_def proc0_def)
  then show ?thesis by simp
qed

lemma proc_set_entry: "length (process_table k) = 100 \<Longrightarrow> proc_set 1 f k = Ret () (k\<lparr>process_table := (process_table k)[1 := f (process_table k ! 1)]\<rparr>)"
  by (simp add: proc_set_def proc_at_def block_read_def)

lemma child_write_entry:
  "length (process_table k) = 100 \<Longrightarrow> 0 \<le> j \<Longrightarrow> j < int (length (pi_childIDs (process_table k ! 1))) \<Longrightarrow>
    child_write 1 j x k = Ret () (k\<lparr>process_table := (process_table k)[1 := (process_table k ! 1)\<lparr>pi_childIDs := (pi_childIDs (process_table k ! 1))[nat j := x]\<rparr>]\<rparr>)"
  by (simp add: child_write_def proc_set_entry proc_at_def block_read_def block_write_def)

lemma first_thread:
  assumes "p \<noteq> 0" "process_table k = replicate 100 proc0"
  shows "thread_create p True name k = Ret p (k\<lparr>threads := (threads k)(p \<mapsto> thread0\<lparr>t_name := name, t_pid := 1\<rparr>),
    process_table := (replicate 100 proc0)[1 := proc0\<lparr>pi_pid := 1, pi_status := 1, pi_exitCode := 0, pi_numOfChild := 0\<rparr>]\<rparr>)"
  using assms by (simp add: thread_create_def P_TABLE_SIZE_def Let_def first_pid spl_defs proc_set_entry set_thread_def)

lemma booted_state:
  assumes boot: "booted km p k" and p: "p \<noteq> 0" and q: "q_create True km 32 = Some q"
  shows "runqueue k = Some q" "sleepers k = Some \<lparr>a_num = 0, a_max = 0, a_v = None\<rparr>" "zombies k = Some \<lparr>a_num = 0, a_max = 0, a_v = None\<rparr>"
    "\<exists>th. threads k = [p \<mapsto> th] \<and> cont_of th = Running" "curthread k = p" "numthreads k = 1" "sems k = Map.empty" "locks k = Map.empty"
    "length (process_table k) = 100" "pi_pid (process_table k ! 1) = 1"
proof -
  have s32: "s32 1 = 1" "s32 2 = 2" by (simp_all add: s32_def)
  have f: "first_index (\<lambda>x. x = 0) (replicate 9 (0 :: int)) = Some 0" "pi_childIDs proc0 = replicate 10 0"
    by (simp_all add: proc0_def MAX_NUM_CHILD_def numeral_eq_Suc)
  have k0: "threads kernel0 = Map.empty" "sems kernel0 = Map.empty" "locks kernel0 = Map.empty" by (simp_all add: kernel0_def)
  obtain pt th where k: "k = kernel0\<lparr>runqueue := Some q, sleepers := Some \<lparr>a_num = 0, a_max = 0, a_v = None\<rparr>,
      zombies := Some \<lparr>a_num = 0, a_max = 0, a_v = None\<rparr>, process_table := (replicate 100 proc0)[1 := pt], threads := [p \<mapsto> th], curthread := p, numthreads := 1\<rparr>"
    "pi_pid pt = 1" "cont_of th = Running"
    using boot p q
    by (simp add: booted_def scheduler_bootstrap_def thread_bootstrap_def initialize_Process_Table_def array_create_def P_TABLE_SIZE_def first_thread
      proc_set_entry child_write_entry set_thread_def put_runqueue_def proc_at_def block_read_def Let_def f MAX_NUM_CHILD_def k0 s32 md_initpcb0_def cont_of_def) force
  show "runqueue k = Some q" "sleepers k = Some \<lparr>a_num = 0, a_max = 0, a_v = None\<rparr>" "zombies k = Some \<lparr>a_num = 0, a_max = 0, a_v = None\<rparr>"
    "\<exists>th. threads k = [p \<mapsto> th] \<and> cont_of th = Running" "curthread k = p" "numthreads k = 1" "sems k = Map.empty" "locks k = Map.empty"
    "length (process_table k) = 100" "pi_pid (process_table k ! 1) = 1"
    unfolding k(1) using k(2,3) k0 by simp_all blast
qed

theorem booted_kinv:
  assumes "allocator_ok km" and p: "p \<noteq> 0" "p \<noteq> word_of_int (errno_code EAGAIN)" and boot: "booted km p k"
  shows "kinv k"
proof -
  obtain q where q: "q_create True km 32 = Some q"
    using boot by (cases "q_create True km 32 :: vaddr kqueue option") (simp_all add: booted_def scheduler_bootstrap_def)
  note b = booted_state [OF boot p(1) q]
  have qi: "queue_inv q" "q_list q = []" "q_size q = 32" using q_create_Some [OF assms(1) _ _ q] by (simp_all add: queue_limit_def)
  have lists: "ready k = []" "asleep k = []" "dead k = []" using b(1-3) qi by (simp_all add: ready_def asleep_def dead_def array_list_def)
  have inv: "lists_inv k" "zombies_inv k"
    using b(1-3) qi by (simp_all add: lists_inv_def runq_inv_def zombies_inv_def array_inv_def array_limit_def)
  have "process_table k ! 1 \<in> set (filter (\<lambda>p. pi_pid p \<noteq> - 1) (process_table k))" using b(9,10) by simp
  then have "1 \<le> used_pids k" unfolding used_pids_def by (metis One_nat_def Suc_leI length_pos_if_in_set)
  then have "sched_inv [p] 0 k"
    using b(4-9) inv p unfolding sched_inv_def core_def everyone_def lists by (auto simp: known_def P_TABLE_SIZE_def)
  then show ?thesis using b(4,5) by (auto simp: kinv_def running_def)
qed
section \<open>An example state\<close>

text \<open>
  Thread 4096 runs, thread 8192 sleeps in \<^verbatim>\<open>P\<close> on the semaphore at 64, and the lock at 128 is held
  by the sleeper.
\<close>

definition two_procs :: "process_info list" where
  "two_procs = replicate 2 (proc0\<lparr>pi_pid := 1\<rparr>) @ replicate 98 proc0"

definition two_threads :: kernel where
  "two_threads = kernel0
     \<lparr>curthread := 4096, curspl := 0, in_interrupt := 0, numthreads := 2,
      threads := [4096 \<mapsto> set_cont Running thread0,
                  8192 \<mapsto> set_cont (In_P 64 0) (thread0\<lparr>t_sleepaddr := 64\<rparr>)],
      process_table := two_procs,
      sems := [64 \<mapsto> \<lparr>sem_name = ''s'', sem_count = 0\<rparr>],
      locks := [128 \<mapsto> \<lparr>lk_name = ''l'', lk_held = 1, lk_heldThread = 8192\<rparr>],
      runqueue := Some \<lparr>q_size = 32, nextwrite = 0, nextread = 0, q_data = replicate 32 0\<rparr>,
      sleepers := Some \<lparr>a_num = 1, a_max = 1, a_v = Some [8192]\<rparr>,
      zombies := Some \<lparr>a_num = 0, a_max = 0, a_v = None\<rparr>\<rparr>"

lemma two_threads_lists:
  "ready two_threads = []" "asleep two_threads = [8192]" "dead two_threads = []"
  by (simp_all add: two_threads_def ready_def asleep_def dead_def q_list_def ring_list_def array_list_def)

lemma used_two_procs: "length (filter (\<lambda>p. pi_pid p \<noteq> - 1) two_procs) = 2" "length two_procs = 100"
  by (simp_all add: two_procs_def proc0_def)

lemma kinv_two_threads: "kinv two_threads"
proof -
  have inv: "lists_inv two_threads" "zombies_inv two_threads"
    by (simp_all add: two_threads_def lists_inv_def runq_inv_def zombies_inv_def queue_inv_def queue_limit_def
        array_inv_def array_limit_def)
  have "sched_inv [4096] 0 two_threads"
    using inv used_two_procs unfolding sched_inv_def core_def everyone_def two_threads_lists used_pids_def
    by (simp_all add: two_threads_def thread_ok_def known_def queued_ok_def sleeper_ok_def set_cont_def cont_of_def P_TABLE_SIZE_def)
  moreover have "curthread two_threads = 4096" "threads two_threads 4096 = Some (set_cont Running thread0)"
    by (simp_all add: two_threads_def)
  ultimately show ?thesis by (simp add: kinv_def running_def set_cont_def cont_of_def)
qed

lemma running_two_threads: "running two_threads" "curthread two_threads = 4096" "curspl two_threads = 0"
  by (simp_all add: two_threads_def running_def set_cont_def cont_of_def)

text \<open>A step of the example: the running thread creates another semaphore.\<close>

lemma two_threads_step:
  "kstep two_threads (two_threads\<lparr>sems := (sems two_threads)(72 \<mapsto> \<lparr>sem_name = ''t'', sem_count = 1\<rparr>)\<rparr>)"
proof (rule kstep.call)
  show "call_ok (Call_sem_create 72 True ''t'' 1) two_threads"
    using two_threads_lists by (simp add: unslept_def sleeping_on_def) (simp add: two_threads_def set_cont_def)
  show "exec_call refuses [] (Call_sem_create 72 True ''t'' 1) two_threads =
      Ret () (two_threads\<lparr>sems := (sems two_threads)(72 \<mapsto> \<lparr>sem_name = ''t'', sem_count = 1\<rparr>)\<rparr>)"
    by (simp add: sem_create_def)
qed (simp_all add: running_two_threads allocator_ok_refuses)

section \<open>Nobody sleeps for nothing\<close>

text \<open>
  C1. No wake-up is lost: in every state that the thread system reaches from one that satisfies \<open>kinv\<close> (the state after boot does,
  \<open>booted_kinv\<close>), by calls, context switches and interrupts in any order and whatever the allocator does, a thread that sleeps
  inside \<^verbatim>\<open>P\<close> sleeps on a semaphore whose count is zero, and a thread that sleeps inside \<^verbatim>\<open>lock_acquire\<close> sleeps on a lock that is
  held, as long as the semaphore or lock exists: \<^verbatim>\<open>sem_destroy\<close> and \<^verbatim>\<open>lock_destroy\<close> free it some time after they have looked for
  sleepers. New semaphores and locks are not put at an address on which a thread still sleeps.
\<close>

theorem no_lost_wakeup:
  assumes "kinv k" "kstep\<^sup>*\<^sup>* k k'" "t \<in> set (asleep k')" "threads k' t = Some th"
  shows "case cont_of th of
      In_P s spl \<Rightarrow> t_sleepaddr th = s \<and> (\<forall>sem. sems k' s = Some sem \<longrightarrow> sem_count sem = 0)
    | In_lock_acquire l spl outer \<Rightarrow> t_sleepaddr th = l \<and> (\<forall>lk. locks k' l = Some lk \<longrightarrow> lk_held lk = 1)
    | In_cv_wait c l spl \<Rightarrow> t_sleepaddr th = c
    | In_clocksleep n spl \<Rightarrow> t_sleepaddr th = lbolt k'
    | _ \<Rightarrow> False"
  using kinv_sleeper [OF ksteps_keep [OF assms(2,1)] assms(3,4)]
  by (auto simp: sleeper_ok_def split: kcont.splits option.splits)

theorem no_lost_wakeup_witness:
  "\<exists>k'. kstep\<^sup>*\<^sup>* two_threads k' \<and> sems k' 72 \<noteq> None \<and> 8192 \<in> set (asleep k') \<and>
     (\<exists>sem. sems k' 64 = Some sem \<and> sem_count sem = 0)"
proof -
  let ?k = "two_threads\<lparr>sems := (sems two_threads)(72 \<mapsto> \<lparr>sem_name = ''t'', sem_count = 1\<rparr>)\<rparr>"
  have step: "kstep\<^sup>*\<^sup>* two_threads ?k" using two_threads_step by blast
  have sl: "8192 \<in> set (asleep ?k)" using two_threads_lists(2) by (simp add: asleep_def)
  have th: "threads ?k 8192 = Some (set_cont (In_P 64 0) (thread0\<lparr>t_sleepaddr := 64\<rparr>))" by (simp add: two_threads_def)
  have "sems ?k 64 = Some \<lparr>sem_name = ''s'', sem_count = 0\<rparr>" by (simp add: two_threads_def)
  with no_lost_wakeup [OF kinv_two_threads step sl th] step sl show ?thesis
    by (intro exI [of _ ?k]) (simp add: set_cont_def cont_of_def)
qed

section \<open>Locks exclude each other\<close>

text \<open>
  C2. Mutual exclusion: in every reachable state, a lock that is held by some thread other than the
  running one is not changed by any step after which it still exists. It stays held by the same thread until that thread
  releases it or somebody destroys it: \<^verbatim>\<open>lock_destroy\<close> frees a lock without looking whether it is held, and is excluded by the premise
  that the lock exists afterwards.
\<close>

theorem lock_mutual_exclusion:
  assumes "kinv k" "kstep\<^sup>*\<^sup>* k k1" "kstep k1 k2" "locks k1 l = Some lk" "lk_held lk = 1"
    "lk_heldThread lk \<noteq> curthread k1" "locks k2 l = Some lk'"
  shows "lk' = lk"
  using kstep_keeps [OF assms(3) ksteps_keep [OF assms(2,1)]] assms(4-) by (auto simp: lock_step_def)

theorem lock_mutual_exclusion_witness:
  "locks (two_threads\<lparr>sems := (sems two_threads)(72 \<mapsto> \<lparr>sem_name = ''t'', sem_count = 1\<rparr>)\<rparr>) 128 =
     Some \<lparr>lk_name = ''l'', lk_held = 1, lk_heldThread = 8192\<rparr>"
proof -
  let ?k = "two_threads\<lparr>sems := (sems two_threads)(72 \<mapsto> \<lparr>sem_name = ''t'', sem_count = 1\<rparr>)\<rparr>"
  obtain lk' where "locks ?k 128 = Some lk'" by (simp add: two_threads_def)
  with lock_mutual_exclusion [OF kinv_two_threads rtranclp.rtrancl_refl two_threads_step,
      of 128 "\<lparr>lk_name = ''l'', lk_held = 1, lk_heldThread = 8192\<rparr>" lk']
  show ?thesis by (simp add: two_threads_def)
qed

text \<open>A routine that has gone to sleep does not return to its caller: another thread continues.\<close>

lemma queued_not_running: "thread_ok queued_ok k (curthread k) \<Longrightarrow> \<not> running k"
  by (auto simp: thread_ok_def queued_ok_def running_def split: option.splits)

lemma thread_sleep_not_running:
  assumes km: "allocator_ok km" and inv: "sched_inv [curthread k] 0 k"
    and sl: "\<And>th. sleeper_ok k (set_cont c (th\<lparr>t_sleepaddr := addr\<rparr>))"
  shows "returns (thread_sleep km irqs addr c k) (\<lambda>_ k'. \<not> running k')"
proof (rule returnsI)
  fix a k' assume run: "thread_sleep km irqs addr c k = Ret a k'"
  let ?cur = "curthread k"
  from run obtain th where th: "threads k ?cur = Some th"
    and sw: "mi_switch km irqs S_SLEEP c (k\<lparr>threads := (threads k)(?cur \<mapsto> th\<lparr>t_sleepaddr := addr\<rparr>)\<rparr>) = Ret a k'"
    by (auto simp: thread_sleep_def set_thread_def deref_def split: if_splits option.splits)
  let ?k = "k\<lparr>threads := (threads k)(?cur \<mapsto> th\<lparr>t_sleepaddr := addr\<rparr>)\<rparr>"
  have inv': "sched_inv [curthread ?k] 0 ?k" using sched_inv_in_hand [OF inv, of ?cur] by simp
  have "sleeper_ok ?k = sleeper_ok k" by (rule sleeper_ok_cong) simp_all
  then have "may_stash S_SLEEP 0 ?k (set_cont c (th\<lparr>t_sleepaddr := addr\<rparr>))"
    using sl by (simp add: may_stash_def)
  from mi_switch_keeps [OF km inv' _ this, of irqs] sw show "\<not> running k'"
    by (simp add: queued_not_running)
qed

lemma lock_acquire_loop_ends:
  assumes km: "allocator_ok km" and inv: "sched_inv [curthread k] 0 k" and lk: "locks k l = Some lk"
  shows "returns (lock_acquire_loop km irqs l spl outer k) (\<lambda>_ k'.
    if lk_held lk = 1 then \<not> running k' \<and> locks k' = locks k
    else running k' \<and> curthread k' = curthread k \<and> locks k' = (locks k)(l \<mapsto> lk\<lparr>lk_held := 1, lk_heldThread := curthread k\<rparr>))"
proof (cases "lk_held lk = 1")
  case True
  have sl: "sleeper_ok k (set_cont (In_lock_acquire l spl outer) (th\<lparr>t_sleepaddr := l\<rparr>))" for th
    using lk True by (simp add: sleeper_ok_def set_cont_def cont_of_def)
  have "returns (thread_sleep km irqs l (In_lock_acquire l spl outer) k) (\<lambda>_ k'. \<not> running k' \<and> locks k' = locks k)"
    by (rule returns_mono [OF returns_conj [OF thread_sleep_not_running [OF km inv sl] thread_sleep_keeps [OF km inv sl]]]) simp
  then show ?thesis using lk True by (simp add: lock_acquire_loop_def)
next
  case False
  with lk show ?thesis
    by (simp add: lock_acquire_loop_def leave_def set_thread_def spl_defs running_def set_cont_def cont_of_def)
qed

text \<open>
  C3. \<^verbatim>\<open>lock_acquire\<close> waits for a lock that is held and returns to its caller only as the holder of one that was free. If the
  lock is held when the routine is called, or when a thread that slept in it is switched back to, then the routine does not return
  to its caller: it ends with another thread switched to and every lock as it was, this one held by the same thread. If the
  lock is free, it returns to its caller, who has become the holder; no other lock has changed.
\<close>

theorem lock_acquire_waits_for_holder:
  assumes km: "allocator_ok km" and inv: "kinv k" and lk: "locks k l = Some lk"
    and run: "lock_acquire km irqs l k = Ret () k' \<or>
      threads k (curthread k) = Some th \<and> cont_of th = In_lock_acquire l spl outer \<and> resume km irqs k = Ret () k'"
  shows "if lk_held lk = 1 then \<not> running k' \<and> locks k' = locks k
    else running k' \<and> curthread k' = curthread k \<and> locks k' = (locks k)(l \<mapsto> lk\<lparr>lk_held := 1, lk_heldThread := curthread k\<rparr>)"
proof -
  have i: "sched_inv [curthread k] 0 k" using inv by (simp add: kinv_def)
  have i': "sched_inv [curthread (splhigh k)] 0 (splhigh k)" by (rule kinv_splhigh [OF i])
  from run show ?thesis
  proof
    assume "lock_acquire km irqs l k = Ret () k'"
    with returnsD [OF lock_acquire_loop_ends [OF km i', of l lk irqs "curspl k" None]] lk show ?thesis
      by (simp add: lock_acquire_def spl_defs)
  next
    assume r: "threads k (curthread k) = Some th \<and> cont_of th = In_lock_acquire l spl outer \<and> resume km irqs k = Ret () k'"
    let ?k = "k\<lparr>threads := (threads k)(curthread k \<mapsto> th\<lparr>t_sleepaddr := 0\<rparr>)\<rparr>"
    have i2: "sched_inv [curthread ?k] 0 ?k" using sched_inv_in_hand [OF i, of "curthread k"] by simp
    from r have "lock_acquire_loop km irqs l spl outer ?k = Ret () k'"
      by (auto simp: resume_def awake_def set_thread_def)
    with returnsD [OF lock_acquire_loop_ends [OF km i2, of l lk irqs spl outer]] lk show ?thesis by simp
  qed
qed

theorem lock_acquire_waits_for_holder_witness:
  "\<exists>k'. lock_acquire refuses [] 200 (two_threads\<lparr>locks := (locks two_threads)(200 \<mapsto> \<lparr>lk_name = ''m'', lk_held = 0, lk_heldThread = 0\<rparr>)\<rparr>) =
     Ret () k' \<and> running k' \<and> curthread k' = 4096 \<and> locks k' 200 = Some \<lparr>lk_name = ''m'', lk_held = 1, lk_heldThread = 4096\<rparr>"
proof -
  let ?free = "two_threads\<lparr>locks := (locks two_threads)(200 \<mapsto> \<lparr>lk_name = ''m'', lk_held = 0, lk_heldThread = 0\<rparr>)\<rparr>"
  have "unslept 200 two_threads"
    using two_threads_lists by (simp add: unslept_def sleeping_on_def) (simp add: two_threads_def set_cont_def)
  then have "keeps two_threads (drop_value (lock_create 200 True 0 ''m'' two_threads))"
    by (intro lock_create_keeps [OF kinv_two_threads]) (simp_all add: two_threads_def)
  then have inv: "kinv ?free" by (simp add: lock_create_def keeps_def)
  obtain k' where run: "lock_acquire refuses [] 200 ?free = Ret () k'"
    by (simp add: lock_acquire_def lock_acquire_loop_def leave_def set_thread_def spl_defs two_threads_def)
  have l: "locks ?free 200 = Some \<lparr>lk_name = ''m'', lk_held = 0, lk_heldThread = 0\<rparr>" "curthread ?free = 4096" by (simp_all add: two_threads_def)
  with lock_acquire_waits_for_holder [OF allocator_ok_refuses inv l(1) disjI1 [OF run]] run show ?thesis by auto
qed

section \<open>Signalling\<close>

text \<open>
  C5. \<^verbatim>\<open>V\<close> adds one to the count and wakes every thread asleep on the semaphore, in the order in which
  they went to sleep: they leave the sleepers and join the tail of the run queue, the other sleepers
  stay. It returns to its caller with the interrupt level as it was. The run queue must have room
  for the sleepers; the allocator may refuse.
\<close>

theorem V_wakes_all:
  assumes km: "allocator_ok km" and inv: "kinv k" and s: "s \<noteq> 0" "sems k s = Some sem" "sem_count sem < 2147483647"
    and room: "length (filter (sleeping_on s k) (asleep k)) \<le> run_room k"
  shows "\<exists>k'. V km s k = Ret () k' \<and> sems k' = (sems k)(s \<mapsto> sem\<lparr>sem_count := sem_count sem + 1\<rparr>) \<and>
    ready k' = ready k @ filter (sleeping_on s k) (asleep k) \<and>
    asleep k' = filter (\<lambda>t. \<not> sleeping_on s k t) (asleep k) \<and>
    curthread k' = curthread k \<and> curspl k' = curspl k \<and> threads k' = threads k"
proof -
  let ?k = "(splhigh k)\<lparr>sems := (sems k)(s \<mapsto> sem\<lparr>sem_count := sem_count sem + 1\<rparr>)\<rparr>"
  have core: "core (sleeper_ok k) [curthread k] 0 k" using inv by (simp add: kinv_def sched_inv_def)
  have pos: "0 \<le> sem_count sem" using core s(2) by (simp add: core_def)
  have same: "ready ?k = ready k" "asleep ?k = asleep k" "run_room ?k = run_room k" "lists_inv ?k = lists_inv k"
    "sleeping_on s ?k = sleeping_on s k" "known ?k = known k"
    by (simp_all add: spl_defs ready_def asleep_def run_room_def lists_inv_def runq_inv_def sleeping_on_def known_def fun_eq_iff)
  have known: "\<forall>t \<in> set (asleep k). known k t" using core_known [OF core] by (auto simp: everyone_def)
  have li: "lists_inv k" using core by (simp add: core_def)
  have "curspl ?k > 0" by (simp add: spl_defs SPL_HIGH_def)
  from thread_wakeup_cases [OF _ this km, of s] same known li core_sizes(2) [OF core] room
  obtain k' where k': "thread_wakeup km s ?k = Ret () k'" "besides k' = besides ?k"
    "asleep k' = filter (\<lambda>t. \<not> sleeping_on s k t) (asleep k)" "ready k' = ready k @ filter (sleeping_on s k) (asleep k)"
    by auto
  have "V km s k = Ret () (splx (curspl k) k')"
    using s pos k'(1) by (simp add: V_def Let_def spl_defs)
  moreover have "sems k' = sems ?k" "curthread k' = curthread k" "threads k' = threads k"
    using besidesD [OF k'(2)] by (simp_all add: spl_defs)
  ultimately show ?thesis
    using k'(3,4) by (simp add: spl_defs ready_def asleep_def)
qed

theorem V_wakes_all_witness:
  "\<exists>k'. V refuses 64 two_threads = Ret () k' \<and> ready k' = [8192] \<and> asleep k' = []"
proof -
  have "sleeping_on 64 two_threads 8192" by (simp add: two_threads_def sleeping_on_def set_cont_def)
  moreover have "run_room two_threads = 31"
    by (simp add: two_threads_def run_room_def q_room_def q_list_def ring_list_def)
  moreover have "sems two_threads 64 = Some \<lparr>sem_name = ''s'', sem_count = 0\<rparr>" by (simp add: two_threads_def)
  ultimately show ?thesis
    using V_wakes_all [OF allocator_ok_refuses kinv_two_threads, of 64 "\<lparr>sem_name = ''s'', sem_count = 0\<rparr>"]
    by (auto simp: two_threads_lists)
qed

section \<open>Round robin\<close>

lemma as_activate_lists [simp]:
  "ready (as_activate v k) = ready k" "asleep (as_activate v k) = asleep k" "curthread (as_activate v k) = curthread k"
  using as_activate_frame [of v k] by (auto simp: ready_def asleep_def)

lemma switch_in_Ret:
  assumes km: "allocator_ok km" and inv: "sched_inv [curthread k] 0 k" and spl: "curspl k > 0"
  shows "\<exists>k'. switch_in km k = Ret () k' \<and> curthread k' = curthread k \<and> ready k' = ready k \<and> asleep k' = asleep k \<and>
    runqueue k' = runqueue k \<and> kmem k' = kmem k \<and> (\<forall>t. t \<notin> set (dead k) \<longrightarrow> threads k' t = threads k t)"
proof -
  note i = sched_invD [OF inv]
  obtain th where th: "threads k (curthread k) = Some th" using i(3) by (auto simp: known_def)
  have cur: "curthread k \<notin> set (dead k)" using i(9) by (auto simp: everyone_def)
  from exorcise_eq [OF inv spl cur km] obtain a
    where ex: "exorcise km k = Ret () (k\<lparr>threads := without (set (dead k)) (threads k), zombies := Some a\<rparr>)" by blast
  let ?k = "k\<lparr>threads := without (set (dead k)) (threads k), zombies := Some a\<rparr>"
  have wo: "threads ?k (curthread ?k) = Some th" using th cur by (simp add: without_def)
  have same: "ready ?k = ready k" "asleep ?k = asleep k" "\<forall>t. t \<notin> set (dead k) \<longrightarrow> threads ?k t = threads k t"
    by (simp_all add: ready_def asleep_def without_def)
  show ?thesis
  proof (cases "\<exists>d1 d2 f. cont_of th = Start d1 d2 f")
    case True
    with th show ?thesis by (auto simp: switch_in_def)
  next
    case False
    then have "switch_in km k = kbind (exorcise km k) (\<lambda>_ k.
               deref (threads k (curthread k)) (\<lambda>th.
                 Ret () (if t_vmspace th \<noteq> 0 then as_activate (t_vmspace th) k else k)))"
      using th by (cases "cont_of th") (simp_all add: switch_in_def)
    also have "\<dots> = Ret () (if t_vmspace th \<noteq> 0 then as_activate (t_vmspace th) ?k else ?k)"
      unfolding ex kbind.simps wo deref_simps(1) ..
    finally show ?thesis using same as_activate_frame [of "t_vmspace th" ?k] by auto
  qed
qed

lemma md_switch_Ret:
  assumes "threads k old = Some th1" "threads k nu = Some th2"
  shows "\<exists>k'. md_switch old nu k = Ret () k' \<and> curthread k' = curthread k \<and> ready k' = ready k \<and> asleep k' = asleep k \<and>
    curspl k' = curspl k \<and> runqueue k' = runqueue k \<and> kmem k' = kmem k \<and> dead k' = dead k \<and>
    (\<forall>t. t \<noteq> old \<longrightarrow> threads k' t = threads k t) \<and> (\<exists>th. threads k' old = Some th \<and> t_stack th = t_stack th1 \<and> cont_of th = cont_of th1)"
  using assms by (auto simp: md_switch_def set_thread_def ready_def asleep_def dead_def cont_of_def)

lemma switch_to:
  assumes km: "allocator_ok km" and inv: "sched_inv [t] 0 k" and spl: "curspl k > 0" and old: "threads k old = Some th"
  shows "\<exists>k1 k2. md_switch old t (k\<lparr>curthread := t\<rparr>) = Ret () k1 \<and> switch_in km k1 = Ret () k2 \<and> curthread k2 = t \<and> ready k2 = ready k \<and>
    asleep k2 = asleep k \<and> runqueue k2 = runqueue k \<and> kmem k2 = kmem k \<and>
    (\<forall>u. u \<notin> set (dead k) \<longrightarrow> u \<noteq> old \<longrightarrow> threads k2 u = threads k u) \<and>
    (old \<notin> set (dead k) \<longrightarrow> (\<exists>th'. threads k2 old = Some th' \<and> t_stack th' = t_stack th \<and> cont_of th' = cont_of th))"
proof -
  from sched_invD(3) [OF inv] obtain tht where tht: "threads k t = Some tht" by (auto simp: known_def)
  let ?k = "k\<lparr>curthread := t\<rparr>"
  have same: "threads ?k old = Some th" "threads ?k t = Some tht" "ready ?k = ready k" "asleep ?k = asleep k" "dead ?k = dead k"
    using old tht by (simp_all add: ready_def asleep_def dead_def)
  from md_switch_Ret [OF same(1,2)] same(3-) obtain k1 where k1: "md_switch old t ?k = Ret () k1"
    "curthread k1 = t" "ready k1 = ready k" "asleep k1 = asleep k" "curspl k1 = curspl k" "runqueue k1 = runqueue k" "kmem k1 = kmem k" "dead k1 = dead k"
    "\<forall>u. u \<noteq> old \<longrightarrow> threads k1 u = threads k u" "\<exists>th'. threads k1 old = Some th' \<and> t_stack th' = t_stack th \<and> cont_of th' = cont_of th"
    by auto
  have "sched_inv [t] 0 ?k" by (subst sched_inv_cong [of ?k k]) (use inv in simp_all)
  from md_switch_keeps [OF this, of old t] k1(1,2) have "sched_inv [curthread k1] 0 k1" by simp
  from switch_in_Ret [OF km this] spl k1(2-8) obtain k2 where k2: "switch_in km k1 = Ret () k2" "curthread k2 = t"
    "ready k2 = ready k" "asleep k2 = asleep k" "runqueue k2 = runqueue k" "kmem k2 = kmem k"
    "\<forall>u. u \<notin> set (dead k) \<longrightarrow> threads k2 u = threads k1 u" by auto
  then show ?thesis using k1(1,9,10) by (intro exI [of _ k1] exI [of _ k2]) simp
qed

lemma yield_rotates:
  assumes km: "allocator_ok km" and inv: "kinv k" and th: "threads k (curthread k) = Some th" "stack_ok k th"
    and rdy: "ready k = t # ts" and room: "run_room k > 0"
  shows "\<exists>k'. thread_yield km [] None k = Ret () k' \<and> curthread k' = t \<and> ready k' = ts @ [curthread k] \<and> asleep k' = asleep k \<and>
    run_room k' > 0 \<and> kmem k' = kmem k \<and> (\<forall>u \<in> set (ready k). threads k' u = threads k u) \<and>
    (\<exists>th'. threads k' (curthread k) = Some th' \<and> t_stack th' = t_stack th \<and> cont_of th' = In_yield (curspl k) None)"
proof -
  let ?cur = "curthread k" and ?c = "In_yield (curspl k) None"
  have i: "sched_inv [?cur] 0 k" using inv by (simp add: kinv_def)
  have d: "distinct (everyone [?cur] k)" by (rule sched_invD(9) [OF i])
  have cur: "?cur \<noteq> 0" "t \<noteq> ?cur" using sched_invD(9,10) [OF i] rdy by (auto simp: everyone_def)
  let ?k1 = "k\<lparr>curspl := SPL_HIGH, curthread := 0, threads := (threads k)(?cur \<mapsto> set_cont ?c th)\<rparr>"
  have i1: "sched_inv [?cur] 0 ?k1"
    using sched_inv_in_hand [of "[?cur]" 0 "k\<lparr>curspl := SPL_HIGH, curthread := 0\<rparr>" ?cur] i by simp
  have ok: "thread_ok queued_ok ?k1 ?cur" by (simp add: thread_ok_def queued_ok_def set_cont_def cont_of_def)
  have spl: "curspl ?k1 > 0" by (simp add: SPL_HIGH_def)
  have r1: "ready ?k1 = t # ts" "asleep ?k1 = asleep k" "run_room ?k1 > 0" "runq_inv ?k1" "run_room ?k1 = run_room k"
    using rdy room sched_invD(1) [OF i] by (simp_all add: ready_def asleep_def run_room_def lists_inv_def runq_inv_def)
  have core1: "core (sleeper_ok ?k1) [?cur] 0 ?k1" using i1 by (simp add: sched_inv_def)
  from make_runnable_cases [OF r1(4) spl km core_sizes(3) [OF core1], of ?cur] r1(1,3)
  obtain q where q: "make_runnable km ?cur ?k1 = Ret () (?k1\<lparr>runqueue := Some q\<rparr>)" "runq_inv (?k1\<lparr>runqueue := Some q\<rparr>)"
    "q_list q = t # ts @ [?cur]" by auto
  let ?k2 = "?k1\<lparr>runqueue := Some q\<rparr>"
  have stash: "stash km S_READY ?cur ?k1 = Ret () ?k2" using q(1) by (simp add: stash_def)
  from stash_ready_keeps [OF km i1 spl ok] stash have i2: "sched_inv [] 0 ?k2" by simp
  have qi: "queue_inv q" using q(2) by (simp add: runq_inv_def)
  from q_remhead_Cons [OF qi q(3)] obtain q' where q': "q_remhead q = Ret t q'" "q_list q' = ts @ [?cur]" "queue_inv q'" "q_size q' = q_size q" by blast
  have room': "q_room q' > 0" using q_list_bound [OF qi] q(3) q'(2,4) by (simp add: q_room_def)
  let ?k3 = "?k2\<lparr>runqueue := Some q'\<rparr>"
  have sched: "scheduler km [] ?k2 = Ret t ?k3"
    using q'(1) spl q_empty_iff [OF qi] q(3) by (simp add: scheduler.simps put_runqueue_def)
  from scheduler_keeps [OF km i2, of "[]"] sched have i3: "sched_inv [t] 0 ?k3" by simp
  have spl3: "curspl ?k3 > 0" and c3: "threads ?k3 ?cur = Some (set_cont ?c th)" using spl by simp_all
  from switch_to [OF km i3 spl3 c3] q'(2) obtain k5 k6 where k6: "md_switch ?cur t (?k3\<lparr>curthread := t\<rparr>) = Ret () k5" "switch_in km k5 = Ret () k6"
    "curthread k6 = t" "ready k6 = ts @ [?cur]" "asleep k6 = asleep k" "runqueue k6 = Some q'" "kmem k6 = kmem k"
    "\<forall>u. u \<notin> set (dead k) \<longrightarrow> u \<noteq> ?cur \<longrightarrow> threads k6 u = threads k u"
    "?cur \<notin> set (dead k) \<longrightarrow> (\<exists>th'. threads k6 ?cur = Some th' \<and> t_stack th' = t_stack th \<and> cont_of th' = ?c)"
    by (auto simp: ready_def asleep_def dead_def set_cont_def cont_of_def)
  have alive: "?cur \<notin> set (dead k)" "\<forall>u \<in> set (ready k). u \<notin> set (dead k) \<and> u \<noteq> ?cur" using d by (auto simp: everyone_def)
  have "\<forall>u \<in> set (ready k). threads k6 u = threads k u" using alive(2) k6(8) by simp
  moreover have "\<exists>th'. threads k6 ?cur = Some th' \<and> t_stack th' = t_stack th \<and> cont_of th' = ?c" using alive(1) k6(9) by simp
  moreover have "run_room k6 > 0" using room' k6(6) by (simp add: run_room_def)
  moreover have "sleepers k \<noteq> None" using sched_invD(1) [OF i] by (auto simp: lists_inv_def split: option.splits)
  moreover have "stack_ok (splhigh k) th" using th(2) by (simp add: stack_ok_def spl_defs)
  ultimately show ?thesis
    using cur th(1) stash sched k6(1-5,7)
    by (simp add: thread_yield_def Let_def mi_switch_def set_thread_def spl_defs SPL_HIGH_def)
qed

text \<open>
  A round of scheduling: the current thread calls \<^verbatim>\<open>thread_yield\<close>, and the thread that is switched to returns from the call in
  which it had given up the processor. In a state of \<open>yielders\<close> every ready thread is inside such a call.
\<close>

definition yield_round :: "vaddr allocator \<Rightarrow> kernel \<Rightarrow> unit kresult" where
  "yield_round km k = kbind (thread_yield km [] None k) (\<lambda>_ k. resume km [] k)"

primrec yield_rounds :: "vaddr allocator \<Rightarrow> nat \<Rightarrow> kernel \<Rightarrow> unit kresult" where
  "yield_rounds km 0 k = Ret () k"
| "yield_rounds km (Suc n) k = kbind (yield_rounds km n k) (\<lambda>_ k. yield_round km k)"

definition yielders :: "kernel \<Rightarrow> bool" where
  "yielders k \<longleftrightarrow> kinv k \<and> run_room k > 0 \<and> (\<exists>th. threads k (curthread k) = Some th \<and> stack_ok k th) \<and>
     (\<forall>t \<in> set (ready k). \<exists>th spl. threads k t = Some th \<and> stack_ok k th \<and> cont_of th = In_yield spl None)"

lemma yield_round_rotates:
  assumes km: "allocator_ok km" and y: "yielders k" and rdy: "ready k = t # ts"
  shows "\<exists>k'. yield_round km k = Ret () k' \<and> yielders k' \<and> curthread k' = t \<and> ready k' = ts @ [curthread k] \<and> asleep k' = asleep k"
proof -
  from y obtain th where inv: "kinv k" and room: "run_room k > 0" and th: "threads k (curthread k) = Some th" "stack_ok k th"
    by (auto simp: yielders_def)
  from yield_rotates [OF km inv th rdy room] obtain k1 th1 where k1: "thread_yield km [] None k = Ret () k1" "curthread k1 = t"
    "ready k1 = ts @ [curthread k]" "asleep k1 = asleep k" "run_room k1 > 0" "kmem k1 = kmem k" "\<forall>u \<in> set (ready k). threads k1 u = threads k u"
    "threads k1 (curthread k) = Some th1" "t_stack th1 = t_stack th" "cont_of th1 = In_yield (curspl k) None" by blast
  from y rdy obtain tht spl where tht: "threads k t = Some tht" "stack_ok k tht" "cont_of tht = In_yield spl None" by (auto simp: yielders_def)
  have i1: "kinv k1" using yield_step [OF km inv, of "[]"] k1(1) by (simp add: keeps_def)
  let ?k2 = "(splx spl k1)\<lparr>threads := (threads k1)(t \<mapsto> set_cont Running tht)\<rparr>"
  have res: "resume km [] k1 = Ret () ?k2"
    using k1(2,7) rdy tht by (simp add: resume_def leave_def set_thread_def spl_defs)
  then have i2: "kinv ?k2" using resume_keeps [OF km i1, of "[]"] by (simp add: keeps_def)
  have lists: "ready ?k2 = ts @ [curthread k]" "asleep ?k2 = asleep k" "run_room ?k2 > 0" "curthread ?k2 = t" "kmem ?k2 = kmem k"
    using k1 by (simp_all add: ready_def asleep_def run_room_def spl_defs)
  have "distinct (everyone [t] ?k2)" using i2 lists(4) sched_invD(9) [of "[t]" 0 ?k2] by (simp add: kinv_def)
  then have ne: "t \<notin> set (ts @ [curthread k])" using lists(1) by (auto simp: everyone_def)
  have "\<exists>th spl. threads ?k2 u = Some th \<and> stack_ok ?k2 th \<and> cont_of th = In_yield spl None" if u: "u \<in> set (ts @ [curthread k])" for u
  proof (cases "u = curthread k")
    case True
    then show ?thesis using k1(6,8-10) ne th(2) by (auto simp: stack_ok_def spl_defs)
  next
    case False
    then have "u \<in> set (ready k)" "u \<noteq> t" using u ne rdy by auto
    then show ?thesis using y k1(6,7) by (auto simp: yielders_def stack_ok_def spl_defs)
  qed
  moreover have "stack_ok ?k2 (set_cont Running tht)" using tht(2) lists(5) by (simp add: stack_ok_def set_cont_def)
  ultimately have "yielders ?k2" using i2 lists by (simp add: yielders_def)
  then show ?thesis using k1(1) res lists by (simp add: yield_round_def)
qed

text \<open>
  C4. No thread is starved. When the current thread and all ready threads do nothing but yield, and the run queue has room for one more
  thread, \<open>n\<close> rounds of scheduling rotate
  the list of the current thread followed by the run queue \<open>n\<close> places: a thread at position \<open>i\<close> of the run queue runs after
  exactly \<open>i + 1\<close> rounds, and again after as many more as there are threads. No round fails, idles or moves a sleeper.
\<close>

theorem yielding_threads_take_turns:
  assumes km: "allocator_ok km" and y: "yielders k" and others: "ready k \<noteq> []"
  shows "\<exists>k'. yield_rounds km n k = Ret () k' \<and> yielders k' \<and> curthread k' # ready k' = rotate n (curthread k # ready k) \<and> asleep k' = asleep k"
proof (induction n)
  case 0
  then show ?case using y by simp
next
  case (Suc n)
  then obtain k1 where k1: "yield_rounds km n k = Ret () k1" "yielders k1" "curthread k1 # ready k1 = rotate n (curthread k # ready k)"
    "asleep k1 = asleep k" by blast
  have "length (ready k1) = length (ready k)" using arg_cong [OF k1(3), of length] by simp
  then obtain t ts where r: "ready k1 = t # ts" using others by (cases "ready k1") auto
  from yield_round_rotates [OF km k1(2) r] obtain k2 where k2: "yield_round km k1 = Ret () k2" "yielders k2" "curthread k2 = t"
    "ready k2 = ts @ [curthread k1]" "asleep k2 = asleep k1" by blast
  have "curthread k2 # ready k2 = rotate1 (curthread k1 # ready k1)" using k2(3,4) r by simp
  then show ?case using k1 k2 by (simp add: rotate_def)
qed

text \<open>The example after the sleeper has been woken.\<close>

definition two_ready :: kernel where
  "two_ready = two_threads
     \<lparr>sems := [64 \<mapsto> \<lparr>sem_name = ''s'', sem_count = 1\<rparr>],
      runqueue := Some \<lparr>q_size = 2, nextwrite = 1, nextread = 0, q_data = [8192, 0]\<rparr>,
      sleepers := Some \<lparr>a_num = 0, a_max = 1, a_v = Some [0]\<rparr>\<rparr>"

lemma two_ready_lists:
  "ready two_ready = [8192]" "asleep two_ready = []" "dead two_ready = []"
  by (simp_all add: two_ready_def two_threads_def ready_def asleep_def dead_def q_list_def ring_list_def array_list_def)

lemma kinv_two_ready: "kinv two_ready"
proof -
  have inv: "lists_inv two_ready" "zombies_inv two_ready"
    by (simp_all add: two_ready_def two_threads_def lists_inv_def runq_inv_def zombies_inv_def queue_inv_def queue_limit_def
        array_inv_def array_limit_def)
  have "sched_inv [4096] 0 two_ready"
    using inv used_two_procs unfolding sched_inv_def core_def everyone_def two_ready_lists used_pids_def
    by (simp_all add: two_ready_def two_threads_def thread_ok_def known_def queued_ok_def set_cont_def cont_of_def P_TABLE_SIZE_def)
  moreover have "curthread two_ready = 4096" "threads two_ready 4096 = Some (set_cont Running thread0)"
    by (simp_all add: two_ready_def two_threads_def)
  ultimately show ?thesis by (simp add: kinv_def running_def set_cont_def cont_of_def)
qed

lemma two_ready_current: "threads two_ready (curthread two_ready) = Some (set_cont Running thread0)"
  "stack_ok two_ready (set_cont Running thread0)" "curthread two_ready = 4096"
  by (simp_all add: two_ready_def two_threads_def stack_ok_def set_cont_def thread0_def)

text \<open>The example with the other thread inside \<^verbatim>\<open>thread_yield\<close> and room in the run queue.\<close>

definition two_yielders :: kernel where
  "two_yielders = two_ready
     \<lparr>threads := (threads two_ready)(8192 \<mapsto> set_cont (In_yield 0 None) thread0),
      runqueue := Some \<lparr>q_size = 3, nextwrite = 1, nextread = 0, q_data = [8192, 0, 0]\<rparr>\<rparr>"

lemma two_yielders_lists:
  "ready two_yielders = [8192]" "asleep two_yielders = []" "dead two_yielders = []" "run_room two_yielders = 1" "curthread two_yielders = 4096"
  using two_ready_lists two_ready_current(3)
  by (simp_all add: two_yielders_def ready_def asleep_def dead_def run_room_def q_room_def q_list_def ring_list_def)

lemma yielders_two_yielders: "yielders two_yielders"
proof -
  have inv: "lists_inv two_yielders" "zombies_inv two_yielders"
    by (simp_all add: two_yielders_def two_ready_def two_threads_def lists_inv_def runq_inv_def zombies_inv_def queue_inv_def queue_limit_def
        array_inv_def array_limit_def)
  have "sched_inv [4096] 0 two_yielders"
    using inv used_two_procs unfolding sched_inv_def core_def everyone_def two_yielders_lists used_pids_def
    by (simp_all add: two_yielders_def two_ready_def two_threads_def thread_ok_def known_def queued_ok_def set_cont_def cont_of_def P_TABLE_SIZE_def)
  moreover have "threads two_yielders 4096 = Some (set_cont Running thread0)" "threads two_yielders 8192 = Some (set_cont (In_yield 0 None) thread0)"
    by (simp_all add: two_yielders_def two_ready_def two_threads_def)
  ultimately show ?thesis
    using two_yielders_lists by (simp add: yielders_def kinv_def running_def set_cont_def cont_of_def stack_ok_def thread0_def)
qed

theorem yielding_threads_take_turns_witness:
  "\<exists>k'. yield_rounds refuses 3 two_yielders = Ret () k' \<and> curthread k' = 8192 \<and> ready k' = [4096]"
  using yielding_threads_take_turns [OF allocator_ok_refuses yielders_two_yielders, of 3] two_yielders_lists
  by (auto simp: rotate_def numeral_eq_Suc)

text \<open>
  C33. The run queue can be too short by one. When there are as many threads as the run queue has cells, which its first size
  of 32 allows, \<^verbatim>\<open>scheduler_preallocate\<close> for this number of threads succeeds without asking for memory. But the ring buffer can
  use one cell fewer: if nobody sleeps, so that all threads but the running one are ready, and the allocator refuses to enlarge
  the queue, the \<^verbatim>\<open>make_runnable\<close> inside \<^verbatim>\<open>mi_switch\<close> fails and the assertion on its result stops the kernel.
\<close>

theorem yield_panics_when_full:
  assumes inv: "kinv k" and th: "threads k (curthread k) = Some th" "stack_ok k th"
    and q: "runqueue k = Some q" "q_size q = numthreads k" and awake: "asleep k = []"
  shows "scheduler_preallocate refuses (numthreads k) (splhigh k) = Ret () (splhigh k) \<and> thread_yield refuses irqs None k = Panic"
proof
  let ?cur = "curthread k"
  have i: "sched_inv [?cur] 0 k" using inv by (simp add: kinv_def)
  have cur: "?cur \<noteq> 0" using sched_invD(10) [OF i] by (auto simp: everyone_def)
  let ?k1 = "k\<lparr>curspl := SPL_HIGH, curthread := 0, threads := (threads k)(?cur \<mapsto> set_cont (In_yield (curspl k) None) th)\<rparr>"
  have qi: "queue_inv q" "q_size q \<le> 1024" using sched_invD(1) [OF i] q(1) by (simp_all add: lists_inv_def runq_inv_def)
  then have lim: "q_size q < queue_limit" by (simp add: queue_limit_def)
  show "scheduler_preallocate refuses (numthreads k) (splhigh k) = Ret () (splhigh k)"
    using q queue_invD(1) [OF qi(1)] by (simp add: scheduler_preallocate_def q_preallocate_def spl_defs SPL_HIGH_def put_runqueue_def)
  have "1 + int (length (ready k)) = numthreads k" using i awake by (simp add: sched_inv_def core_def)
  then have "q_room q = 0" using q by (simp add: q_room_def ready_def)
  then have "q_full q" using q_room_pos [OF qi(1)] by auto
  then have "make_runnable refuses ?cur ?k1 = Err ENOMEM ?k1"
    using q qi q_addtail_refused [OF qi(1) _ lim] by (simp add: make_runnable_def SPL_HIGH_def put_runqueue_def)
  moreover have "sleepers k \<noteq> None" using sched_invD(1) [OF i] by (auto simp: lists_inv_def split: option.splits)
  moreover have "stack_ok (splhigh k) th" using th(2) by (simp add: stack_ok_def spl_defs)
  ultimately show "thread_yield refuses irqs None k = Panic"
    using cur th(1)
    by (simp add: thread_yield_def Let_def mi_switch_def set_thread_def spl_defs SPL_HIGH_def stash_def)
qed

theorem yield_panics_when_full_witness:
  "scheduler_preallocate refuses 2 (splhigh two_ready) = Ret () (splhigh two_ready) \<and> thread_yield refuses [] None two_ready = Panic"
proof -
  have "runqueue two_ready = Some \<lparr>q_size = 2, nextwrite = 1, nextread = 0, q_data = [8192, 0]\<rparr>" "numthreads two_ready = 2"
    by (simp_all add: two_ready_def two_threads_def)
  with yield_panics_when_full [OF kinv_two_ready two_ready_current(1,2), of "\<lparr>q_size = 2, nextwrite = 1, nextread = 0, q_data = [8192, 0]\<rparr>" "[]"]
  show ?thesis using two_ready_lists(2) by simp
qed

end
