(* ===== verification/LMem.thy ===== *)
theory LMem
  imports Kern_Prelude "HOL-Library.Word"
begin

text \<open>
  Block operations of the C library, \<^verbatim>\<open>lib/libc/memcpy.c\<close>, \<^verbatim>\<open>memmove.c\<close>, \<^verbatim>\<open>memset.c\<close>, \<^verbatim>\<open>bzero.c\<close> and
  \<^verbatim>\<open>memcmp.c\<close>, which the kernel shares. Memory is a function from 32-bit addresses to bytes; a
  \<^verbatim>\<open>long\<close> is four bytes, the most significant first, as on the MIPS. The routines that work a word
  at a time when everything is aligned are shown equal to their byte-by-byte meaning, also when
  the two blocks overlap.
\<close>

unbundle bit_operations_syntax

type_synonym byte = "8 word"

type_synonym bytes = "32 word \<Rightarrow> byte"

section \<open>Model\<close>

definition read_long :: "bytes \<Rightarrow> 32 word \<Rightarrow> 32 word" where
  "read_long m a = push_bit 24 (ucast (m a)) OR push_bit 16 (ucast (m (a + 1)))
     OR push_bit 8 (ucast (m (a + 2))) OR ucast (m (a + 3))"

definition write_long :: "32 word \<Rightarrow> 32 word \<Rightarrow> bytes \<Rightarrow> bytes" where
  "write_long a v m = m(a := ucast (drop_bit 24 v), a + 1 := ucast (drop_bit 16 v),
     a + 2 := ucast (drop_bit 8 v), a + 3 := ucast v)"

definition long_aligned :: "32 word \<Rightarrow> 32 word \<Rightarrow> 32 word \<Rightarrow> bool" where
  "long_aligned d s len \<longleftrightarrow> d mod 4 = 0 \<and> s mod 4 = 0 \<and> len mod 4 = 0"

text \<open>The loops over the first \<open>n\<close> elements, in increasing and in decreasing order.\<close>

primrec copy_longs_up :: "nat \<Rightarrow> 32 word \<Rightarrow> 32 word \<Rightarrow> bytes \<Rightarrow> bytes" where
  "copy_longs_up 0 d s m = m"
| "copy_longs_up (Suc n) d s m =
     (let m = copy_longs_up n d s m in write_long (d + 4 * of_nat n) (read_long m (s + 4 * of_nat n)) m)"

primrec copy_bytes_up :: "nat \<Rightarrow> 32 word \<Rightarrow> 32 word \<Rightarrow> bytes \<Rightarrow> bytes" where
  "copy_bytes_up 0 d s m = m"
| "copy_bytes_up (Suc n) d s m =
     (let m = copy_bytes_up n d s m in m(d + of_nat n := m (s + of_nat n)))"

primrec copy_longs_down :: "nat \<Rightarrow> 32 word \<Rightarrow> 32 word \<Rightarrow> bytes \<Rightarrow> bytes" where
  "copy_longs_down 0 d s m = m"
| "copy_longs_down (Suc n) d s m =
     copy_longs_down n d s (write_long (d + 4 * of_nat n) (read_long m (s + 4 * of_nat n)) m)"

primrec copy_bytes_down :: "nat \<Rightarrow> 32 word \<Rightarrow> 32 word \<Rightarrow> bytes \<Rightarrow> bytes" where
  "copy_bytes_down 0 d s m = m"
| "copy_bytes_down (Suc n) d s m = copy_bytes_down n d s (m(d + of_nat n := m (s + of_nat n)))"

definition memcpy :: "32 word \<Rightarrow> 32 word \<Rightarrow> 32 word \<Rightarrow> bytes \<Rightarrow> bytes" where
  "memcpy dst src len m =
     (if long_aligned dst src len then copy_longs_up (unat (len div 4)) dst src m
      else copy_bytes_up (unat len) dst src m)"

definition memmove :: "32 word \<Rightarrow> 32 word \<Rightarrow> 32 word \<Rightarrow> bytes \<Rightarrow> bytes" where
  "memmove dst src len m =
     (if dst < src then memcpy dst src len m
      else if long_aligned dst src len then copy_longs_down (unat (len div 4)) dst src m
      else copy_bytes_down (unat len) dst src m)"

primrec set_bytes :: "nat \<Rightarrow> 32 word \<Rightarrow> byte \<Rightarrow> bytes \<Rightarrow> bytes" where
  "set_bytes 0 p c m = m"
| "set_bytes (Suc n) p c m = (set_bytes n p c m)(p + of_nat n := c)"

definition memset :: "32 word \<Rightarrow> int \<Rightarrow> 32 word \<Rightarrow> bytes \<Rightarrow> bytes" where
  "memset ptr ch len m = set_bytes (unat len) ptr (word_of_int ch) m"

primrec zero_longs :: "nat \<Rightarrow> 32 word \<Rightarrow> bytes \<Rightarrow> bytes" where
  "zero_longs 0 p m = m"
| "zero_longs (Suc n) p m = write_long (p + 4 * of_nat n) 0 (zero_longs n p m)"

definition bzero :: "32 word \<Rightarrow> 32 word \<Rightarrow> bytes \<Rightarrow> bytes" where
  "bzero block len m =
     (if block mod 4 = 0 \<and> len mod 4 = 0 then zero_longs (unat (len div 4)) block m
      else set_bytes (unat len) block 0 m)"

text \<open>\<^verbatim>\<open>memcmp\<close> from offset \<open>i\<close> on with \<open>n\<close> bytes left; the bytes are unsigned.\<close>

primrec memcmp_loop :: "bytes \<Rightarrow> 32 word \<Rightarrow> 32 word \<Rightarrow> nat \<Rightarrow> 32 word \<Rightarrow> int" where
  "memcmp_loop m a b 0 i = 0"
| "memcmp_loop m a b (Suc n) i =
     (if m (a + i) \<noteq> m (b + i) then uint (m (a + i)) - uint (m (b + i)) else memcmp_loop m a b n (i + 1))"

definition memcmp :: "bytes \<Rightarrow> 32 word \<Rightarrow> 32 word \<Rightarrow> 32 word \<Rightarrow> int" where
  "memcmp m av bv len = memcmp_loop m av bv (unat len) 0"

section \<open>What the blocks contain afterwards\<close>

text \<open>The meaning of a block copy: the bytes are read before any is written.\<close>

definition copied :: "nat \<Rightarrow> 32 word \<Rightarrow> 32 word \<Rightarrow> bytes \<Rightarrow> bytes" where
  "copied n d s m = (\<lambda>a. if unat (a - d) < n then m (s + (a - d)) else m a)"

definition filled :: "nat \<Rightarrow> 32 word \<Rightarrow> byte \<Rightarrow> bytes \<Rightarrow> bytes" where
  "filled n p c m = (\<lambda>a. if unat (a - p) < n then c else m a)"

lemma read_long_byte [simp]:
  "ucast (drop_bit 24 (read_long m a)) = m a" "ucast (drop_bit 16 (read_long m a)) = m (a + 1)"
  "ucast (drop_bit 8 (read_long m a)) = m (a + 2)" "ucast (read_long m a) = m (a + 3)"
  unfolding read_long_def
  by (rule bit_word_eqI; auto simp: bit_simps dest: bit_imp_le_length)+

text \<open>Writing a word that was read is writing its four bytes.\<close>

lemma write_read_long:
  "write_long d (read_long m s) m' = m'(d := m s, d + 1 := m (s + 1), d + 2 := m (s + 2), d + 3 := m (s + 3))"
  by (simp add: write_long_def)

lemma unat_of_nat_32: "n < 4294967296 \<Longrightarrow> unat (of_nat n :: 32 word) = n"
  by (simp add: unat_of_nat take_bit_nat_eq_self)

lemma unat_32_le: "unat (w :: 32 word) \<le> 4294967296"
  using unsigned_less [where ?'a = nat, of w] by simp

lemma unat_shift: "unat (w :: 32 word) + i < 4294967296 \<Longrightarrow> unat (w + of_nat i) = unat w + i"
  by (simp add: unat_word_ariths unat_of_nat_32)

lemma unat_minus_32: "(w :: 32 word) \<noteq> 0 \<Longrightarrow> unat (- w) = 4294967296 - unat w"
proof -
  assume "w \<noteq> 0"
  then have "0 < unat w" "unat w < 4294967296" "unat (- w) < 4294967296"
    using unsigned_less [of w] unsigned_less [of "- w"] by (simp_all add: unat_gt_0)
  moreover have "(unat w + unat (- w)) mod 4294967296 = 0"
    using unat_word_ariths(1) [of w "- w"] by simp
  then obtain c where "unat w + unat (- w) = 4294967296 * c" by (auto simp: mod_eq_0_iff_dvd elim: dvdE)
  ultimately have "0 < c \<and> c < 2" by auto
  with \<open>unat w + unat (- w) = 4294967296 * c\<close> have "unat w + unat (- w) = 4294967296" by (cases c) auto
  then show ?thesis by simp
qed

lemma copied_Suc:
  assumes "n < 4294967296"
  shows "copied (Suc n) d s m = (copied n d s m)(d + of_nat n := m (s + of_nat n))"
proof
  fix a
  have "a = d + of_nat n \<longleftrightarrow> unat (a - d) = n"
  proof
    assume "unat (a - d) = n"
    then have "a - d = of_nat n" by (metis of_nat_unat ucast_id)
    then show "a = d + of_nat n" by (simp add: algebra_simps)
  qed (simp add: unat_of_nat_32 [OF assms])
  then show "copied (Suc n) d s m a = ((copied n d s m)(d + of_nat n := m (s + of_nat n))) a"
    by (auto simp: copied_def less_Suc_eq)
qed

lemma copied_self: "copied n d d m = m"
  by (simp add: copied_def fun_eq_iff)

lemma copied_0 [simp]: "copied 0 d s m = m"
  by (simp add: copied_def)

text \<open>Forwards: what has been written so far does not reach the bytes still to be read.\<close>

definition apart_up :: "nat \<Rightarrow> 32 word \<Rightarrow> 32 word \<Rightarrow> bool" where
  "apart_up n d s \<longleftrightarrow> d = s \<or> n \<le> unat (d - s)"

lemma copied_read:
  assumes "apart_up N d s" "n \<le> i" "i < N" "N \<le> 4294967296"
  shows "copied n d s m (s + of_nat i) = m (s + of_nat i)"
proof (cases "d = s")
  case True
  then show ?thesis by (simp add: copied_self)
next
  case False
  let ?w = "s - d"
  have w: "?w \<noteq> 0" "unat (d - s) = 4294967296 - unat ?w"
    using False unat_minus_32 [of ?w] by simp_all
  with assms have "unat ?w + i < 4294967296" by (simp add: apart_up_def)
  then have "unat (?w + of_nat i) = unat ?w + i" by (rule unat_shift)
  then have "\<not> unat (s + of_nat i - d) < n" using assms(2) by (simp add: algebra_simps)
  then show ?thesis by (simp add: copied_def)
qed

lemma copy_bytes_up_eq:
  "apart_up n d s \<Longrightarrow> n \<le> 4294967296 \<Longrightarrow> copy_bytes_up n d s m = copied n d s m"
proof (induction n)
  case (Suc n)
  then have "apart_up n d s" by (auto simp: apart_up_def)
  with Suc show ?case by (simp add: copied_Suc copied_read [OF Suc.prems(1)] Let_def)
qed simp

lemma add_four: "4 * of_nat n + 1 = (of_nat (Suc (4 * n)) :: 32 word)" "4 * of_nat n + 2 = (of_nat (Suc (Suc (4 * n))) :: 32 word)"
  "4 * of_nat n + 3 = (of_nat (Suc (Suc (Suc (4 * n)))) :: 32 word)" "4 * of_nat n = (of_nat (4 * n) :: 32 word)"
  by simp_all

lemma copied_four:
  assumes "4 * Suc n \<le> 4294967296"
  shows "copied (4 * Suc n) d s m = (copied (4 * n) d s m)
    (d + 4 * of_nat n := m (s + 4 * of_nat n), d + 4 * of_nat n + 1 := m (s + 4 * of_nat n + 1),
     d + 4 * of_nat n + 2 := m (s + 4 * of_nat n + 2), d + 4 * of_nat n + 3 := m (s + 4 * of_nat n + 3))"
proof -
  have c: "4 * n < 4294967296" "Suc (4 * n) < 4294967296" "Suc (Suc (4 * n)) < 4294967296"
    "Suc (Suc (Suc (4 * n))) < 4294967296"
    using assms by simp_all
  have "copied (4 * Suc n) d s m = copied (Suc (Suc (Suc (Suc (4 * n))))) d s m"
    by (rule arg_cong [where f = "\<lambda>k. copied k d s m"]) simp
  also have "\<dots> = (copied (4 * n) d s m)(d + of_nat (4 * n) := m (s + of_nat (4 * n)),
      d + of_nat (Suc (4 * n)) := m (s + of_nat (Suc (4 * n))),
      d + of_nat (Suc (Suc (4 * n))) := m (s + of_nat (Suc (Suc (4 * n)))),
      d + of_nat (Suc (Suc (Suc (4 * n)))) := m (s + of_nat (Suc (Suc (Suc (4 * n))))))"
    using c by (simp only: copied_Suc)
  finally show ?thesis unfolding add_four [symmetric] add.assoc .
qed

lemma copy_longs_up_eq:
  "apart_up (4 * n) d s \<Longrightarrow> 4 * n \<le> 4294967296 \<Longrightarrow> copy_longs_up n d s m = copied (4 * n) d s m"
proof (induction n)
  case (Suc n)
  then have "apart_up (4 * n) d s" by (auto simp: apart_up_def)
  with Suc have IH: "copy_longs_up n d s m = copied (4 * n) d s m" by simp
  have "copied (4 * n) d s m (s + of_nat i) = m (s + of_nat i)" if "4 * n \<le> i" "i < 4 * Suc n" for i
    using copied_read [OF Suc.prems(1), of "4 * n" i] Suc.prems(2) that by simp
  from this [of "4 * n"] this [of "Suc (4 * n)"] this [of "Suc (Suc (4 * n))"] this [of "Suc (Suc (Suc (4 * n)))"]
  have "copied (4 * n) d s m (s + 4 * of_nat n) = m (s + 4 * of_nat n)"
    "copied (4 * n) d s m (s + 4 * of_nat n + 1) = m (s + 4 * of_nat n + 1)"
    "copied (4 * n) d s m (s + 4 * of_nat n + 2) = m (s + 4 * of_nat n + 2)"
    "copied (4 * n) d s m (s + 4 * of_nat n + 3) = m (s + 4 * of_nat n + 3)"
    unfolding add_four [symmetric] add.assoc by simp_all
  then show ?case
    unfolding copied_four [OF Suc.prems(2)] copy_longs_up.simps Let_def IH write_read_long by simp
qed simp

text \<open>Backwards: what has been written does not reach the bytes below it that are still to be read.\<close>

lemma copied_above:
  assumes apart: "apart_up N s d" and i: "n \<le> i" "i < N" "N \<le> 4294967296"
  shows "copied n d s (m(d + of_nat i := v)) = (copied n d s m)(d + of_nat i := v)"
proof (cases "d = s")
  case True
  then show ?thesis by (simp add: copied_self)
next
  case False
  have not: "s + (a - d) \<noteq> d + of_nat i" if "unat (a - d) < n" for a
  proof
    assume eq: "s + (a - d) = d + of_nat i"
    define j where "j = unat (a - d)"
    have a: "a - d = of_nat j" "j < n" using that by (simp_all add: j_def)
    from eq a have "s - d = of_nat i - of_nat j" by (simp add: algebra_simps)
    also have "\<dots> = (of_nat (i - j) :: 32 word)" using a(2) i(1) by (simp add: of_nat_diff)
    finally have "s - d = of_nat (i - j)" .
    then have "unat (s - d) = i - j" using i a(2) by (simp only: unat_of_nat_32)
    with apart False i a(2) show False by (auto simp: apart_up_def)
  qed
  show ?thesis
  proof
    fix a
    show "copied n d s (m(d + of_nat i := v)) a = ((copied n d s m)(d + of_nat i := v)) a"
    proof (cases "unat (a - d) < n")
      case True
      then have "a \<noteq> d + of_nat i" using i by (auto simp: unat_of_nat_32)
      with True not [OF True] show ?thesis by (simp add: copied_def)
    qed (auto simp: copied_def)
  qed
qed

lemma copy_bytes_down_eq:
  "apart_up n s d \<Longrightarrow> n \<le> 4294967296 \<Longrightarrow> copy_bytes_down n d s m = copied n d s m"
proof (induction n arbitrary: m)
  case (Suc n)
  then have "apart_up n s d" by (auto simp: apart_up_def)
  with Suc show ?case by (simp add: copied_Suc copied_above [OF Suc.prems(1)])
qed simp

lemma copy_longs_down_eq:
  "apart_up (4 * n) s d \<Longrightarrow> 4 * n \<le> 4294967296 \<Longrightarrow> copy_longs_down n d s m = copied (4 * n) d s m"
proof (induction n arbitrary: m)
  case (Suc n)
  then have "apart_up (4 * n) s d" by (auto simp: apart_up_def)
  with Suc have IH: "copy_longs_down n d s m' = copied (4 * n) d s m'" for m' by simp
  have "copied (4 * n) d s (m'(d + of_nat i := v)) = (copied (4 * n) d s m')(d + of_nat i := v)"
    if "4 * n \<le> i" "i < 4 * Suc n" for i m' v
    using copied_above [OF Suc.prems(1), of "4 * n" i] Suc.prems(2) that by simp
  from this [of "4 * n"] this [of "Suc (4 * n)"] this [of "Suc (Suc (4 * n))"] this [of "Suc (Suc (Suc (4 * n)))"]
  have "copied (4 * n) d s (m'(d + 4 * of_nat n := v)) = (copied (4 * n) d s m')(d + 4 * of_nat n := v)"
    "copied (4 * n) d s (m'(d + 4 * of_nat n + 1 := v)) = (copied (4 * n) d s m')(d + 4 * of_nat n + 1 := v)"
    "copied (4 * n) d s (m'(d + 4 * of_nat n + 2 := v)) = (copied (4 * n) d s m')(d + 4 * of_nat n + 2 := v)"
    "copied (4 * n) d s (m'(d + 4 * of_nat n + 3 := v)) = (copied (4 * n) d s m')(d + 4 * of_nat n + 3 := v)" for m' v
    unfolding add_four [symmetric] add.assoc by simp_all
  then show ?case
    unfolding copied_four [OF Suc.prems(2)] copy_longs_down.simps IH write_read_long by simp
qed simp

lemma longs: "len mod 4 = 0 \<Longrightarrow> 4 * unat (len div 4) = unat (len :: 32 word)"
  using div_mult_mod_eq [of "unat len" 4] by (simp add: unat_div unat_mod flip: unat_eq_0)

lemma memcpy_eq:
  assumes "apart_up (unat len) dst src"
  shows "memcpy dst src len m = copied (unat len) dst src m"
proof -
  have n: "unat len \<le> 4294967296" by (rule unat_32_le)
  show ?thesis
  proof (cases "long_aligned dst src len")
    case True
    then have "4 * unat (len div 4) = unat len" by (intro longs) (simp add: long_aligned_def)
    with copy_longs_up_eq [of "unat (len div 4)" dst src m] assms n True show ?thesis by (simp add: memcpy_def)
  next
    case False
    with copy_bytes_up_eq [OF assms n] show ?thesis by (simp add: memcpy_def)
  qed
qed

text \<open>\<^verbatim>\<open>memmove\<close> picks the direction in which the unread bytes are safe.\<close>

lemma no_wrap_apart:
  assumes "(d :: 32 word) < s" "unat s + n \<le> 4294967296"
  shows "apart_up n d s"
proof -
  have "unat d < unat s" using assms(1) by (simp add: word_less_nat_alt)
  moreover have "unat (d - s) = 4294967296 - unat (s - d)"
    using unat_minus_32 [of "s - d"] assms(1) by auto
  moreover have "unat (s - d) = unat s - unat d" using assms(1) by (simp add: unat_sub less_imp_le)
  ultimately have "n \<le> unat (d - s)" using assms(2) by linarith
  then show ?thesis by (simp add: apart_up_def)
qed

lemma memmove_eq:
  assumes "unat src + unat len \<le> 4294967296" "unat dst + unat len \<le> 4294967296"
  shows "memmove dst src len m = copied (unat len) dst src m"
proof (cases "dst < src")
  case True
  with memcpy_eq [OF no_wrap_apart [OF True assms(1)]] show ?thesis by (simp add: memmove_def)
next
  case False
  have apart: "apart_up (unat len) src dst"
  proof (cases "src = dst")
    case True
    then show ?thesis by (simp add: apart_up_def)
  next
    case False
    with \<open>\<not> dst < src\<close> have "src < dst" by auto
    from no_wrap_apart [OF this assms(2)] show ?thesis .
  qed
  have n: "unat len \<le> 4294967296" by (rule unat_32_le)
  show ?thesis
  proof (cases "long_aligned dst src len")
    case True
    then have "4 * unat (len div 4) = unat len" by (intro longs) (simp add: long_aligned_def)
    with copy_longs_down_eq [of "unat (len div 4)" src dst m] apart n True False show ?thesis by (simp add: memmove_def)
  next
    case False
    with copy_bytes_down_eq [OF apart n] \<open>\<not> dst < src\<close> show ?thesis by (simp add: memmove_def)
  qed
qed

text \<open>Filling.\<close>

lemma filled_Suc:
  assumes "n < 4294967296"
  shows "filled (Suc n) p c m = (filled n p c m)(p + of_nat n := c)"
proof
  fix a
  have "a = p + of_nat n \<longleftrightarrow> unat (a - p) = n"
  proof
    assume "unat (a - p) = n"
    then have "a - p = of_nat n" by (metis of_nat_unat ucast_id)
    then show "a = p + of_nat n" by (simp add: algebra_simps)
  qed (simp add: unat_of_nat_32 [OF assms])
  then show "filled (Suc n) p c m a = ((filled n p c m)(p + of_nat n := c)) a"
    by (auto simp: filled_def less_Suc_eq)
qed

lemma filled_0 [simp]: "filled 0 p c m = m"
  by (simp add: filled_def)

lemma set_bytes_eq: "n \<le> 4294967296 \<Longrightarrow> set_bytes n p c m = filled n p c m"
  by (induction n) (simp_all add: filled_Suc)

lemma filled_four:
  assumes "4 * Suc n \<le> 4294967296"
  shows "filled (4 * Suc n) p c m = (filled (4 * n) p c m)
    (p + 4 * of_nat n := c, p + 4 * of_nat n + 1 := c, p + 4 * of_nat n + 2 := c, p + 4 * of_nat n + 3 := c)"
proof -
  have c: "4 * n < 4294967296" "Suc (4 * n) < 4294967296" "Suc (Suc (4 * n)) < 4294967296"
    "Suc (Suc (Suc (4 * n))) < 4294967296"
    using assms by simp_all
  have "filled (4 * Suc n) p c m = filled (Suc (Suc (Suc (Suc (4 * n))))) p c m"
    by (rule arg_cong [where f = "\<lambda>k. filled k p c m"]) simp
  also have "\<dots> = (filled (4 * n) p c m)(p + of_nat (4 * n) := c, p + of_nat (Suc (4 * n)) := c,
      p + of_nat (Suc (Suc (4 * n))) := c, p + of_nat (Suc (Suc (Suc (4 * n)))) := c)"
    using c by (simp only: filled_Suc)
  finally show ?thesis unfolding add_four [symmetric] add.assoc .
qed

lemma zero_longs_eq: "4 * n \<le> 4294967296 \<Longrightarrow> zero_longs n p m = filled (4 * n) p 0 m"
proof (induction n)
  case (Suc n)
  then have IH: "zero_longs n p m = filled (4 * n) p 0 m" by simp
  show ?case unfolding filled_four [OF Suc.prems] zero_longs.simps IH write_long_def by simp
qed simp

lemma bzero_eq: "bzero p len m = filled (unat len) p 0 m"
proof (cases "p mod 4 = 0 \<and> len mod 4 = 0")
  case True
  then have "4 * unat (len div 4) = unat len" by (intro longs) simp
  with zero_longs_eq [of "unat (len div 4)" p m] unat_32_le [of len] True show ?thesis by (simp add: bzero_def)
next
  case False
  then have "bzero p len m = set_bytes (unat len) p 0 m" by (auto simp: bzero_def)
  then show ?thesis by (simp add: set_bytes_eq unat_32_le)
qed

lemma memset_eq: "memset p ch len m = filled (unat len) p (word_of_int ch) m"
  by (simp add: memset_def set_bytes_eq unat_32_le)

text \<open>The block of \<open>n\<close> bytes at an address, as a list.\<close>

definition block :: "bytes \<Rightarrow> 32 word \<Rightarrow> nat \<Rightarrow> byte list" where
  "block m p n = map (\<lambda>i. m (p + of_nat i)) [0..<n]"

lemma length_block [simp]: "length (block m p n) = n"
  by (simp add: block_def)

lemma nth_block [simp]: "i < n \<Longrightarrow> block m p n ! i = m (p + of_nat i)"
  by (simp add: block_def)

lemma block_0 [simp]: "block m p 0 = []"
  by (simp add: block_def)

lemma block_Suc: "block m p (Suc n) = m p # block m (p + 1) n"
proof -
  have "[0..<Suc n] = 0 # map Suc [0..<n]" by (simp add: upt_conv_Cons map_Suc_upt del: upt_Suc)
  then show ?thesis by (simp add: block_def o_def algebra_simps del: upt_Suc)
qed

lemma block_copied: "n \<le> 4294967296 \<Longrightarrow> block (copied n d s m) d n = block m s n"
  by (rule nth_equalityI) (auto simp: copied_def unat_of_nat_32)

lemma block_filled: "n \<le> 4294967296 \<Longrightarrow> block (filled n p c m) p n = replicate n c"
  by (rule nth_equalityI) (auto simp: filled_def unat_of_nat_32)

lemma memcmp_loop_0:
  "memcmp_loop m a b n i = 0 \<longleftrightarrow> (\<forall>j < n. m (a + i + of_nat j) = m (b + i + of_nat j))"
proof (induction n arbitrary: i)
  case (Suc n)
  have "(\<forall>j < Suc n. m (a + i + of_nat j) = m (b + i + of_nat j)) \<longleftrightarrow>
      m (a + i) = m (b + i) \<and> (\<forall>j < n. m (a + (i + 1) + of_nat j) = m (b + (i + 1) + of_nat j))"
    by (auto simp: less_Suc_eq_0_disj algebra_simps)
  moreover have "uint (m (a + i)) - uint (m (b + i)) = 0 \<longleftrightarrow> m (a + i) = m (b + i)" by (simp add: word_uint_eq_iff)
  ultimately show ?case using Suc.IH [of "i + 1"] by simp
qed simp

lemma memcmp_eq_0: "memcmp m a b len = 0 \<longleftrightarrow> block m a (unat len) = block m b (unat len)"
  by (auto simp: memcmp_def memcmp_loop_0 block_def)

section \<open>Properties\<close>

text \<open>
  C27. \<^verbatim>\<open>memmove\<close> copies correctly whatever the alignment and however the two blocks overlap: after
  it the destination holds the bytes the source held before, and no other byte has changed. The
  blocks must not run over the end of the address space, as the comment in the code assumes.
\<close>

theorem memmove_correct:
  assumes "unat src + unat len \<le> 4294967296" "unat dst + unat len \<le> 4294967296"
  shows "block (memmove dst src len m) dst (unat len) = block m src (unat len) \<and>
    (\<forall>a. unat len \<le> unat (a - dst) \<longrightarrow> memmove dst src len m a = m a)"
  using memmove_eq [OF assms] block_copied [OF unat_32_le] by (auto simp: copied_def)

theorem memmove_correct_witness:
  "block (memmove 101 100 3 (\<lambda>a. if a = 100 then 7 else if a = 101 then 8 else 9)) 101 3 = [7, 8, 9]"
proof -
  have "block (\<lambda>a. if a = 100 then 7 else if a = 101 then 8 else 9 :: byte) 100 3 = [7, 8, 9]"
    by (simp add: block_def numeral_3_eq_3)
  with memmove_correct [of 100 3 101 "\<lambda>a. if a = 100 then 7 else if a = 101 then 8 else 9"] show ?thesis by simp
qed

text \<open>
  C28. \<^verbatim>\<open>memcpy\<close> and \<^verbatim>\<open>bzero\<close>, which work a word at a time when the addresses and the length are
  aligned, are equal to their byte-by-byte definitions. For \<^verbatim>\<open>memcpy\<close> the end of the source must not
  lie in the destination's beginning: the distance from source to destination is zero or at least
  the length.
\<close>

theorem word_at_a_time_equivalent:
  assumes "dst = src \<or> unat len \<le> unat (dst - src)"
  shows "memcpy dst src len m = copy_bytes_up (unat len) dst src m \<and> bzero p n m = set_bytes (unat n) p 0 m"
  using assms by (simp add: memcpy_eq copy_bytes_up_eq bzero_eq set_bytes_eq unat_32_le apart_up_def)

theorem word_at_a_time_equivalent_witness:
  "memcpy 64 32 16 (\<lambda>a. ucast a) = copy_bytes_up 16 64 32 (\<lambda>a. ucast a) \<and>
   bzero 8 8 (\<lambda>a. ucast a) = set_bytes 8 8 0 (\<lambda>a. ucast a)"
  using word_at_a_time_equivalent [of 64 32 16 "\<lambda>a. ucast a" 8 8] by simp

end
