(* ===== verification/LString.thy ===== *)
theory LString
  imports LMem "HOL-Library.Monad_Syntax"
begin

text \<open>
  String routines of the C library that the kernel shares: \<^verbatim>\<open>strlen.c\<close>, \<^verbatim>\<open>strcpy.c\<close>, \<^verbatim>\<open>strcat.c\<close>,
  \<^verbatim>\<open>strcmp.c\<close>, \<^verbatim>\<open>strchr.c\<close>, \<^verbatim>\<open>strrchr.c\<close>, \<^verbatim>\<open>strtok_r.c\<close>, \<^verbatim>\<open>strtok.c\<close> and \<^verbatim>\<open>atoi.c\<close>. A routine that scans for
  the terminating null runs for ever when there is none; the models are partial functions whose
  value is then \<open>None\<close>. A \<^verbatim>\<open>char\<close> is a signed byte.
\<close>

section \<open>Model\<close>

partial_function (option) strlen_from :: "bytes \<Rightarrow> 32 word \<Rightarrow> 32 word \<Rightarrow> 32 word option" where
  "strlen_from m s ret = (if m (s + ret) \<noteq> 0 then strlen_from m s (ret + 1) else Some ret)"

definition strlen :: "bytes \<Rightarrow> 32 word \<Rightarrow> 32 word option" where
  "strlen m s = strlen_from m s 0"

partial_function (option) strcpy_from :: "bytes \<Rightarrow> 32 word \<Rightarrow> 32 word \<Rightarrow> 32 word \<Rightarrow> bytes option" where
  "strcpy_from m dest src i =
     (if m (src + i) \<noteq> 0 then strcpy_from (m(dest + i := m (src + i))) dest src (i + 1)
      else Some (m(dest + i := 0)))"

definition strcpy :: "bytes \<Rightarrow> 32 word \<Rightarrow> 32 word \<Rightarrow> bytes option" where
  "strcpy m dest src = strcpy_from m dest src 0"

definition strcat :: "bytes \<Rightarrow> 32 word \<Rightarrow> 32 word \<Rightarrow> bytes option" where
  "strcat m dest src = Option.bind (strlen m dest) (\<lambda>offset. strcpy m (dest + offset) src)"

partial_function (option) strcmp_from :: "bytes \<Rightarrow> 32 word \<Rightarrow> 32 word \<Rightarrow> 32 word \<Rightarrow> int option" where
  "strcmp_from m a b i =
     (if m (a + i) \<noteq> 0 \<and> m (a + i) = m (b + i) then strcmp_from m a b (i + 1)
      else Some (if sint (m (a + i)) > sint (m (b + i)) then 1
                 else if m (a + i) = m (b + i) then 0 else - 1))"

definition strcmp :: "bytes \<Rightarrow> 32 word \<Rightarrow> 32 word \<Rightarrow> int option" where
  "strcmp m a b = strcmp_from m a b 0"

text \<open>A null result is the address 0.\<close>

partial_function (option) strchr :: "bytes \<Rightarrow> 32 word \<Rightarrow> int \<Rightarrow> 32 word option" where
  "strchr m s ch =
     (if m s \<noteq> 0 then (if sint (m s) = ch then Some s else strchr m (s + 1) ch)
      else if sint (m s) = ch then Some s else Some 0)"

primrec strrchr_down :: "bytes \<Rightarrow> 32 word \<Rightarrow> int \<Rightarrow> nat \<Rightarrow> 32 word" where
  "strrchr_down m s ch 0 = 0"
| "strrchr_down m s ch (Suc i) =
     (if sint (m (s + of_nat i)) = ch then s + of_nat i else strrchr_down m s ch i)"

definition strrchr :: "bytes \<Rightarrow> 32 word \<Rightarrow> int \<Rightarrow> 32 word option" where
  "strrchr m s ch = Option.bind (strlen m s) (\<lambda>n. Some (strrchr_down m s ch (unat (n + 1))))"

partial_function (option) skip_seps :: "bytes \<Rightarrow> 32 word \<Rightarrow> 32 word \<Rightarrow> 32 word option" where
  "skip_seps m seps head =
     (if m head \<noteq> 0
      then Option.bind (strchr m seps (sint (m head))) (\<lambda>w. if w \<noteq> 0 then skip_seps m seps (head + 1) else Some head)
      else Some head)"

partial_function (option) skip_word :: "bytes \<Rightarrow> 32 word \<Rightarrow> 32 word \<Rightarrow> 32 word option" where
  "skip_word m seps tail =
     (if m tail \<noteq> 0
      then Option.bind (strchr m seps (sint (m tail))) (\<lambda>w. if w = 0 then skip_word m seps (tail + 1) else Some tail)
      else Some tail)"

text \<open>The result is the word, the memory and the new value of \<^verbatim>\<open>*context\<close>.\<close>

definition strtok_r :: "bytes \<Rightarrow> 32 word \<Rightarrow> 32 word \<Rightarrow> 32 word \<Rightarrow> (32 word \<times> bytes \<times> 32 word) option" where
  "strtok_r m string seps context =
     (let head = (if string \<noteq> 0 then string else context)
      in if head = 0 then Some (0, m, head)
         else Option.bind (skip_seps m seps head) (\<lambda>head.
           if m head = 0 then Some (0, m, 0)
           else Option.bind (skip_word m seps head) (\<lambda>tail.
             if m tail = 0 then Some (head, m, 0)
             else Some (head, m(tail := 0), tail + 1))))"

text \<open>\<^verbatim>\<open>strtok\<close> keeps the context in a variable of its own.\<close>

definition strtok :: "bytes \<Rightarrow> 32 word \<Rightarrow> 32 word \<Rightarrow> 32 word \<Rightarrow> (32 word \<times> bytes \<times> 32 word) option" where
  "strtok m str seps strtok_context = strtok_r m str seps strtok_context"

definition atoi_digits :: "byte list" where
  "atoi_digits = map of_char ''0123456789''"

definition digit_value :: "byte \<Rightarrow> nat option" where
  "digit_value c = first_index (\<lambda>d. d = c) atoi_digits"

partial_function (option) atoi_space :: "bytes \<Rightarrow> 32 word \<Rightarrow> 32 word option" where
  "atoi_space m s = (if m s = 32 \<or> m s = 9 then atoi_space m (s + 1) else Some s)"

partial_function (option) atoi_loop :: "bytes \<Rightarrow> 32 word \<Rightarrow> 32 word \<Rightarrow> 32 word option" where
  "atoi_loop m s val =
     (if m s \<noteq> 0
      then (case digit_value (m s) of
              None \<Rightarrow> Some val
            | Some digit \<Rightarrow> atoi_loop m (s + 1) (val * 10 + of_nat digit))
      else Some val)"

definition atoi :: "bytes \<Rightarrow> 32 word \<Rightarrow> int option" where
  "atoi m s =
     Option.bind (atoi_space m s) (\<lambda>s.
       let neg = (m s = 45); s = (if m s = 45 \<or> m s = 43 then s + 1 else s)
       in map_option (\<lambda>val. sint (if neg then - val else val)) (atoi_loop m s 0))"

section \<open>Strings in memory\<close>

primrec cstr :: "bytes \<Rightarrow> 32 word \<Rightarrow> byte list \<Rightarrow> bool" where
  "cstr m p [] \<longleftrightarrow> m p = 0"
| "cstr m p (c # s) \<longleftrightarrow> m p = c \<and> c \<noteq> 0 \<and> cstr m (p + 1) s"

lemma cstr_nonzero: "cstr m p s \<Longrightarrow> 0 \<notin> set s"
  by (induction s arbitrary: p) auto

lemma cstr_append:
  "cstr m p (s @ t) \<longleftrightarrow> block m p (length s) = s \<and> 0 \<notin> set s \<and> cstr m (p + of_nat (length s)) t"
proof (induction s arbitrary: p)
  case (Cons c s)
  from Cons.IH [of "p + 1"] show ?case by (auto simp: block_Suc algebra_simps)
qed simp

lemma cstr_same: "(\<And>i. i \<le> length s \<Longrightarrow> m' (p + of_nat i) = m (p + of_nat i)) \<Longrightarrow> cstr m' p s = cstr m p s"
proof (induction s arbitrary: p)
  case (Cons c s)
  have "m' (p + 1 + of_nat i) = m (p + 1 + of_nat i)" if "i \<le> length s" for i
    using Cons.prems [of "Suc i"] that by (simp add: algebra_simps)
  with Cons.IH [of "p + 1"] Cons.prems [of 0] show ?case by simp
qed simp

lemma cstr_nth: "cstr m p s \<Longrightarrow> i < length s \<Longrightarrow> m (p + of_nat i) = s ! i"
proof (induction s arbitrary: p i)
  case (Cons c s)
  then show ?case using Cons.IH [of "p + 1" "i - 1"] by (cases i) (simp_all add: add.assoc)
qed simp

lemma cstr_end: "cstr m p s \<Longrightarrow> m (p + of_nat (length s)) = 0"
proof (induction s arbitrary: p)
  case (Cons c s)
  then show ?case using Cons.IH [of "p + 1"] by (simp add: add.assoc)
qed simp

text \<open>A string cannot be longer than the address space.\<close>

lemma cstr_length:
  assumes "cstr m p s"
  shows "length s < 4294967296"
proof (rule ccontr)
  assume "\<not> length s < 4294967296"
  then obtain k where k: "length s = k + 4294967296" by (metis add.commute le_Suc_ex not_less)
  then have "of_nat (length s) = (of_nat k :: 32 word)" by simp
  with cstr_nth [OF assms, of k] cstr_end [OF assms] cstr_nonzero [OF assms] k show False by (metis less_add_same_cancel1 nth_mem zero_less_numeral)
qed

section \<open>Length, copy and comparison\<close>

lemma strlen_from_cstr: "cstr m (p + r) s \<Longrightarrow> strlen_from m p r = Some (r + of_nat (length s))"
proof (induction s arbitrary: r)
  case Nil
  then show ?case by (subst strlen_from.simps) simp
next
  case (Cons c s)
  then have "strlen_from m p (r + 1) = Some (r + 1 + of_nat (length s))" by (simp add: algebra_simps)
  with Cons.prems show ?case by (subst strlen_from.simps) (simp add: algebra_simps)
qed

lemma strlen_cstr: "cstr m p s \<Longrightarrow> strlen m p = Some (of_nat (length s))"
  using strlen_from_cstr [of m p 0 s] by (simp add: strlen_def)

text \<open>Copying forwards: no byte of the source is overwritten before it has been read.\<close>

lemma strcpy_from_cstr:
  assumes "cstr m (src + i) s" "\<And>j k. j < k \<Longrightarrow> k \<le> length s \<Longrightarrow> dest + i + of_nat j \<noteq> src + i + of_nat k"
  shows "\<exists>m'. strcpy_from m dest src i = Some m' \<and> block m' (dest + i) (length s) = s \<and>
    m' (dest + i + of_nat (length s)) = 0 \<and>
    (\<forall>a. (\<forall>j \<le> length s. a \<noteq> dest + i + of_nat j) \<longrightarrow> m' a = m a)"
  using assms
proof (induction s arbitrary: m i)
  case Nil
  then show ?case by (subst strcpy_from.simps) simp
next
  case (Cons c s)
  let ?m = "m(dest + i := c)"
  have c: "m (src + i) = c" "c \<noteq> 0" "cstr m (src + i + 1) s" using Cons.prems(1) by simp_all
  have "?m (src + (i + 1) + of_nat k) = m (src + (i + 1) + of_nat k)" if "k \<le> length s" for k
    using Cons.prems(2) [of 0 "Suc k"] that by (auto simp: algebra_simps)
  then have "cstr ?m (src + (i + 1)) s" using c(3) cstr_same [of s ?m "src + (i + 1)" m] by (simp add: algebra_simps)
  moreover have "dest + (i + 1) + of_nat j \<noteq> src + (i + 1) + of_nat k" if "j < k" "k \<le> length s" for j k
    using Cons.prems(2) [of "Suc j" "Suc k"] that by (simp add: algebra_simps)
  ultimately obtain m' where m': "strcpy_from ?m dest src (i + 1) = Some m'" "block m' (dest + (i + 1)) (length s) = s"
    "m' (dest + (i + 1) + of_nat (length s)) = 0" "\<forall>a. (\<forall>j \<le> length s. a \<noteq> dest + (i + 1) + of_nat j) \<longrightarrow> m' a = ?m a"
    using Cons.IH [of ?m "i + 1"] by blast
  have run: "strcpy_from m dest src i = Some m'" using c m'(1) by (subst strcpy_from.simps) simp
  have "dest + i \<noteq> dest + (i + 1) + of_nat j" if "j \<le> length s" for j
  proof
    assume "dest + i = dest + (i + 1) + of_nat j"
    then have "(of_nat (Suc j) :: 32 word) = 0" by (simp add: algebra_simps)
    moreover have "Suc j < 4294967296" using cstr_length [OF Cons.prems(1)] that by simp
    ultimately show False using unat_of_nat_32 [of "Suc j"] by (metis nat.distinct(1) unat_0)
  qed
  then have "m' (dest + i) = c" using m'(4) by auto
  moreover have "m' a = m a" if a: "\<forall>j \<le> length (c # s). a \<noteq> dest + i + of_nat j" for a
  proof -
    have "a \<noteq> dest + i" using a by (auto dest: spec [of _ 0])
    moreover have "a \<noteq> dest + (i + 1) + of_nat j" if "j \<le> length s" for j
      using spec [OF a, of "Suc j"] that by (simp add: algebra_simps)
    ultimately show ?thesis using m'(4) by auto
  qed
  ultimately show ?case
    using run m'(2,3) by (intro exI [of _ m']) (auto simp: block_Suc algebra_simps)
qed

lemma cstr_at: "block m p (length s) = s \<Longrightarrow> 0 \<notin> set s \<Longrightarrow> m (p + of_nat (length s)) = 0 \<Longrightarrow> cstr m p s"
  using cstr_append [of m p s "[]"] by simp

lemma strcpy_cstr:
  assumes "cstr m src s" "\<And>j k. j < k \<Longrightarrow> k \<le> length s \<Longrightarrow> dest + of_nat j \<noteq> src + of_nat k"
  obtains m' where "strcpy m dest src = Some m'" "cstr m' dest s"
    "\<And>a. (\<And>j. j \<le> length s \<Longrightarrow> a \<noteq> dest + of_nat j) \<Longrightarrow> m' a = m a"
proof -
  from strcpy_from_cstr [of m src 0 s dest] assms obtain m' where m': "strcpy m dest src = Some m'"
    "block m' dest (length s) = s" "m' (dest + of_nat (length s)) = 0"
    "\<forall>a. (\<forall>j \<le> length s. a \<noteq> dest + of_nat j) \<longrightarrow> m' a = m a"
    by (auto simp: strcpy_def)
  show thesis
  proof (rule that [OF m'(1)])
    show "cstr m' dest s" using m' cstr_nonzero [OF assms(1)] by (intro cstr_at) simp_all
  qed (use m'(4) in blast)
qed

text \<open>The order of \<^verbatim>\<open>strcmp\<close> on the strings themselves.\<close>

fun compare :: "byte list \<Rightarrow> byte list \<Rightarrow> int" where
  "compare [] [] = 0"
| "compare [] (b # t) = (if sint b < 0 then 1 else - 1)"
| "compare (a # s) [] = (if sint a > 0 then 1 else - 1)"
| "compare (a # s) (b # t) = (if a = b then compare s t else if sint a > sint b then 1 else - 1)"

lemma compare_0: "compare s t = 0 \<longleftrightarrow> s = t"
  by (induction s t rule: compare.induct) auto

lemma sint_cases: "(a :: byte) \<noteq> b \<Longrightarrow> \<not> sint b < sint a \<Longrightarrow> sint a < sint b"
  by (metis linorder_less_linear signed_word_eqI)

lemma compare_swap: "0 \<notin> set s \<Longrightarrow> 0 \<notin> set t \<Longrightarrow> compare t s = - compare s t"
proof (induction s t rule: compare.induct)
  case (2 b t)
  then show ?case using sint_cases [of 0 b] by auto
next
  case (3 a s)
  then show ?case using sint_cases [of a 0] by auto
next
  case (4 a s b t)
  then show ?case using sint_cases [of a b] by (cases "a = b") auto
qed simp

lemma strcmp_from_cstr:
  "cstr m (a + i) s \<Longrightarrow> cstr m (b + i) t \<Longrightarrow> strcmp_from m a b i = Some (compare s t)"
proof (induction s t arbitrary: i rule: compare.induct)
  case (4 c s d t)
  then have "c = d \<Longrightarrow> strcmp_from m a b (i + 1) = Some (compare s t)" by (simp add: algebra_simps)
  with 4 show ?case by (subst strcmp_from.simps) auto
qed (subst strcmp_from.simps, auto)+

lemma strcmp_cstr: "cstr m a s \<Longrightarrow> cstr m b t \<Longrightarrow> strcmp m a b = Some (compare s t)"
  using strcmp_from_cstr [of m a 0 s b t] by (simp add: strcmp_def)

section \<open>Searching\<close>

lemma strchr_cstr:
  "cstr m p s \<Longrightarrow> strchr m p ch =
     Some (case first_index (\<lambda>c. sint c = ch) (s @ [0]) of None \<Rightarrow> 0 | Some i \<Rightarrow> p + of_nat i)"
proof (induction s arbitrary: p)
  case Nil
  then show ?case by (subst strchr.simps) simp
next
  case (Cons c s)
  then show ?case by (subst strchr.simps) (auto split: option.splits simp: algebra_simps)
qed

lemma strrchr_down_eq:
  "strrchr_down m p ch n = (if \<exists>i < n. sint (m (p + of_nat i)) = ch
     then p + of_nat (Max {i. i < n \<and> sint (m (p + of_nat i)) = ch}) else 0)"
proof (induction n)
  case (Suc n)
  show ?case
  proof (cases "sint (m (p + of_nat n)) = ch")
    case True
    then have "Max {i. i < Suc n \<and> sint (m (p + of_nat i)) = ch} = n"
      by (intro Max_eqI) auto
    with True show ?thesis by auto
  next
    case False
    then have "{i. i < Suc n \<and> sint (m (p + of_nat i)) = ch} = {i. i < n \<and> sint (m (p + of_nat i)) = ch}"
      by (auto simp: less_Suc_eq)
    with False Suc.IH show ?thesis by (auto simp: less_Suc_eq)
  qed
qed simp

section \<open>Words of a string\<close>

text \<open>Both strings lie in the address space without touching the null address.\<close>

definition within :: "32 word \<Rightarrow> byte list \<Rightarrow> bool" where
  "within p s \<longleftrightarrow> p \<noteq> 0 \<and> unat p + length s < 4294967296"

lemma within_nonnull: "within p s \<Longrightarrow> i \<le> length s \<Longrightarrow> p + of_nat i \<noteq> 0"
  using unat_shift [of p i] by (auto simp: within_def simp flip: unat_eq_zero)

lemma separator_test:
  assumes "cstr m seps S" "within seps S" "c \<noteq> 0"
  shows "\<exists>w. strchr m seps (sint c) = Some w \<and> (w \<noteq> 0 \<longleftrightarrow> c \<in> set S)"
proof (cases "first_index (\<lambda>d. sint d = sint c) (S @ [0])")
  case None
  then have "c \<notin> set S" by (auto simp: first_index_eq_None)
  with None show ?thesis by (simp add: strchr_cstr [OF assms(1)])
next
  case (Some i)
  then have i: "i \<le> length S" "sint ((S @ [0]) ! i) = sint c" by (auto simp: first_index_eq_Some)
  then have "(S @ [0]) ! i = c" by (metis signed_word_eqI)
  with i(1) assms(3) have "c \<in> set S" by (cases "i = length S") (auto simp: nth_append)
  with Some within_nonnull [OF assms(2) i(1)] show ?thesis by (simp add: strchr_cstr [OF assms(1)])
qed

lemma skip_seps_cstr:
  assumes S: "cstr m seps S" "within seps S"
  shows "cstr m h s \<Longrightarrow> skip_seps m seps h = Some (h + of_nat (length (takeWhile (\<lambda>c. c \<in> set S) s)))"
proof (induction s arbitrary: h)
  case Nil
  then show ?case by (subst skip_seps.simps) simp
next
  case (Cons c s)
  then obtain w where "strchr m seps (sint c) = Some w" "w \<noteq> 0 \<longleftrightarrow> c \<in> set S"
    using separator_test [OF S, of c] by auto
  with Cons show ?case by (subst skip_seps.simps) (auto simp: algebra_simps)
qed

lemma skip_word_cstr:
  assumes S: "cstr m seps S" "within seps S"
  shows "cstr m h s \<Longrightarrow> skip_word m seps h = Some (h + of_nat (length (takeWhile (\<lambda>c. c \<notin> set S) s)))"
proof (induction s arbitrary: h)
  case Nil
  then show ?case by (subst skip_word.simps) simp
next
  case (Cons c s)
  then obtain w where "strchr m seps (sint c) = Some w" "w \<noteq> 0 \<longleftrightarrow> c \<in> set S"
    using separator_test [OF S, of c] by auto
  with Cons show ?case by (subst skip_word.simps) (auto simp: algebra_simps)
qed

lemma cstr_split:
  "cstr m p s \<Longrightarrow> cstr m (p + of_nat (length (takeWhile Q s))) (dropWhile Q s) \<and>
     block m p (length (takeWhile Q s)) = takeWhile Q s"
  using cstr_append [of m p "takeWhile Q s" "dropWhile Q s"] by simp

text \<open>The word that the next call returns, and what it leaves for the call after it.\<close>

definition next_word :: "byte set \<Rightarrow> byte list \<Rightarrow> byte list" where
  "next_word S s = takeWhile (\<lambda>c. c \<notin> S) (dropWhile (\<lambda>c. c \<in> S) s)"

definition after_word :: "byte set \<Rightarrow> byte list \<Rightarrow> byte list" where
  "after_word S s = dropWhile (\<lambda>c. c \<notin> S) (dropWhile (\<lambda>c. c \<in> S) s)"

text \<open>
  C30. \<^verbatim>\<open>strtok_r\<close> returns the words of a string one at a time. Called with the rest of a string it
  skips separators; if nothing else is left it returns null and ends the iteration. Otherwise it
  returns a pointer at which the next maximal run of non-separators now stands as a string of its
  own, and leaves in the context either null, if the word ended the string, or the string that
  follows the separator after the word.
\<close>

theorem strtok_r_next_word:
  assumes "cstr m p s" "p \<noteq> 0" "cstr m seps S" "within seps S"
  shows "if next_word (set S) s = [] then strtok_r m 0 seps p = Some (0, m, 0)
    else \<exists>head m' rest. strtok_r m 0 seps p = Some (head, m', rest) \<and> strtok_r m p seps q = Some (head, m', rest) \<and>
      cstr m' head (next_word (set S) s) \<and>
      (case after_word (set S) s of [] \<Rightarrow> rest = 0 \<and> m' = m | c # t \<Rightarrow> cstr m' rest t \<and> c \<in> set S)"
proof -
  let ?P = "\<lambda>c. c \<in> set S" and ?N = "\<lambda>c. c \<notin> set S"
  define head where "head = p + of_nat (length (takeWhile ?P s))"
  have head: "cstr m head (dropWhile ?P s)" "skip_seps m seps p = Some head"
    using cstr_split [OF assms(1), of ?P] skip_seps_cstr [OF assms(3,4,1)] by (simp_all add: head_def)
  define tail where "tail = head + of_nat (length (next_word (set S) s))"
  have tail: "cstr m tail (after_word (set S) s)" "skip_word m seps head = Some tail"
    "block m head (length (next_word (set S) s)) = next_word (set S) s"
    using cstr_split [OF head(1), of ?N] skip_word_cstr [OF assms(3,4) head(1)]
    by (simp_all add: tail_def next_word_def after_word_def)
  show ?thesis
  proof (cases "next_word (set S) s = []")
    case True
    then have "dropWhile ?P s = []"
      using hd_dropWhile [of ?P s] by (cases "dropWhile ?P s") (auto simp: next_word_def split: if_splits)
    with head assms(2) True show ?thesis by (simp add: strtok_r_def Let_def)
  next
    case False
    then obtain c t where ct: "dropWhile ?P s = c # t" by (cases "dropWhile ?P s") (auto simp: next_word_def)
    then have nz: "m head \<noteq> 0" using head(1) by simp
    have word: "next_word (set S) s @ after_word (set S) s = dropWhile ?P s" by (simp add: next_word_def after_word_def)
    have nonzero: "0 \<notin> set (next_word (set S) s)"
      using cstr_nonzero [OF head(1)] unfolding next_word_def by (blast dest: set_takeWhileD)
    show ?thesis
    proof (cases "after_word (set S) s")
      case Nil
      have "cstr m head (next_word (set S) s)" using head(1) word Nil by simp
      with Nil False head(2) tail nz assms(2) show ?thesis by (simp add: strtok_r_def Let_def)
    next
      case (Cons d u)
      let ?m = "m(tail := 0)"
      have d: "d \<in> set S" using Cons hd_dropWhile [of ?N "dropWhile ?P s"] by (simp add: after_word_def)
      have len: "length (next_word (set S) s) + length (after_word (set S) s) < 4294967296"
        using cstr_length [OF head(1)] word by (metis length_append)
      have "head + of_nat i \<noteq> tail" if "i < length (next_word (set S) s)" for i
      proof
        assume "head + of_nat i = tail"
        then have "(of_nat i :: 32 word) = of_nat (length (next_word (set S) s))" by (simp add: tail_def)
        then have "unat (of_nat i :: 32 word) = unat (of_nat (length (next_word (set S) s)) :: 32 word)" by simp
        with that len show False by (simp add: unat_of_nat_32)
      qed
      then have "block ?m head (length (next_word (set S) s)) = next_word (set S) s"
        using tail(3) by (metis (no_types, lifting) fun_upd_other length_block nth_block nth_equalityI)
      then have w: "cstr ?m head (next_word (set S) s)"
        using nonzero by (intro cstr_at) (simp_all add: tail_def)
      have "cstr m (tail + 1) u" using tail(1) Cons by simp
      moreover have "?m (tail + 1 + of_nat i) = m (tail + 1 + of_nat i)" if "i \<le> length u" for i
      proof -
        have "(of_nat (Suc i) :: 32 word) \<noteq> 0"
          using that len Cons unat_of_nat_32 [of "Suc i"] by (auto simp del: of_nat_Suc simp flip: unat_eq_zero)
        then show ?thesis by (simp add: algebra_simps)
      qed
      ultimately have "cstr ?m (tail + 1) u" using cstr_same [of u ?m "tail + 1" m] by simp
      with w d Cons False head(2) tail(1,2) nz assms(2) show ?thesis by (simp add: strtok_r_def Let_def)
    qed
  qed
qed

definition ab_mem :: bytes where
  "ab_mem = (\<lambda>_. 0)(100 := 32, 101 := 97, 102 := 98, 103 := 32, 104 := 99, 200 := 32)"

theorem strtok_r_next_word_witness:
  "\<exists>head m' rest. strtok_r ab_mem 0 200 100 = Some (head, m', rest) \<and> cstr m' head [97, 98] \<and> cstr m' rest [99]"
proof -
  have "cstr ab_mem 100 [32, 97, 98, 32, 99]" "cstr ab_mem 200 [32]" "within 200 [32]"
    by (simp_all add: ab_mem_def within_def)
  moreover have "next_word (set [32]) [32, 97, 98, 32, 99] = [97, 98]" "after_word (set [32]) [32, 97, 98, 32, 99] = [32, 99]"
    by (simp_all add: next_word_def after_word_def)
  ultimately show ?thesis using strtok_r_next_word [of ab_mem 100 "[32, 97, 98, 32, 99]" 200 "[32]" 0] by auto
qed

text \<open>
  \<^verbatim>\<open>strcmp\<close> of two strings is zero exactly when they are equal, and exchanging its arguments
  changes the sign of the result; it always returns.
\<close>

theorem strcmp_correct:
  assumes "cstr m a s" "cstr m b t"
  shows "\<exists>r. strcmp m a b = Some r \<and> strcmp m b a = Some (- r) \<and> (r = 0 \<longleftrightarrow> s = t)"
  using strcmp_cstr [OF assms] strcmp_cstr [OF assms(2,1)] compare_swap [OF cstr_nonzero [OF assms(1)] cstr_nonzero [OF assms(2)]]
  by (simp add: compare_0)

theorem strcmp_correct_witness: "\<exists>r. strcmp ab_mem 102 104 = Some r \<and> strcmp ab_mem 104 102 = Some (- r) \<and> r \<noteq> 0"
  using strcmp_correct [of ab_mem 102 "[98, 32, 99]" 104 "[99]"] by (simp add: ab_mem_def)

text \<open>
  \<^verbatim>\<open>strcat\<close> appends: with room after the first string that does not touch the second one, the
  first address holds the concatenation afterwards and bytes beyond it are unchanged.
\<close>

theorem strcat_appends:
  assumes s: "cstr m dest s" and t: "cstr m src t"
    and apart: "\<And>j k. j \<le> length s + length t \<Longrightarrow> k \<le> length t \<Longrightarrow> dest + of_nat j \<noteq> src + of_nat k"
    and room: "length s + length t < 4294967296"
  shows "\<exists>m'. strcat m dest src = Some m' \<and> cstr m' dest (s @ t) \<and>
    (\<forall>a. (\<forall>j. j \<le> length s + length t \<longrightarrow> a \<noteq> dest + of_nat j) \<longrightarrow> m' a = m a)"
proof -
  let ?e = "dest + of_nat (length s)"
  have "?e + of_nat j \<noteq> src + of_nat k" if "j < k" "k \<le> length t" for j k
    using apart [of "length s + j" k] that by (simp add: algebra_simps)
  then obtain m' where m': "strcpy m ?e src = Some m'" "cstr m' ?e t"
    "\<And>a. (\<And>j. j \<le> length t \<Longrightarrow> a \<noteq> ?e + of_nat j) \<Longrightarrow> m' a = m a"
    using strcpy_cstr [OF t, of ?e] by blast
  have keep: "m' (dest + of_nat i) = m (dest + of_nat i)" if "i < length s" for i
  proof (rule m'(3))
    fix j assume "j \<le> length t"
    then have "unat (of_nat i :: 32 word) \<noteq> unat (of_nat (length s + j) :: 32 word)"
      using that room by (simp add: unat_of_nat_32 del: of_nat_add)
    then have "(of_nat i :: 32 word) \<noteq> of_nat (length s + j)" by metis
    then show "dest + of_nat i \<noteq> ?e + of_nat j" by (simp add: add.assoc)
  qed
  have "block m' dest (length s) = s"
    using keep cstr_nth [OF s] by (intro nth_equalityI) simp_all
  then have "cstr m' dest (s @ t)"
    using m'(2) cstr_nonzero [OF s] by (simp add: cstr_append)
  moreover have "m' a = m a" if "\<forall>j. j \<le> length s + length t \<longrightarrow> a \<noteq> dest + of_nat j" for a
    using that [rule_format, of "length s + _"] by (intro m'(3)) (simp add: algebra_simps)
  moreover have "strcat m dest src = Some m'" using m'(1) strlen_cstr [OF s] by (simp add: strcat_def)
  ultimately show ?thesis by blast
qed

theorem strcat_appends_witness:
  "\<exists>m'. strcat (ab_mem(300 := 120)) 300 101 = Some m' \<and> cstr m' 300 [120, 97, 98, 32, 99]"
proof -
  have "cstr (ab_mem(300 := 120)) 300 [120]" "cstr (ab_mem(300 := 120)) 101 [97, 98, 32, 99]"
    by (simp_all add: ab_mem_def)
  moreover have "300 + of_nat j \<noteq> (101 + of_nat k :: 32 word)" if "j \<le> 5" "k \<le> 4" for j k
  proof -
    have "unat (300 + of_nat j :: 32 word) = 300 + j" "unat (101 + of_nat k :: 32 word) = 101 + k"
      using that unat_shift [of 300 j] unat_shift [of 101 k] by simp_all
    with that show ?thesis by force
  qed
  ultimately show ?thesis
    using strcat_appends [of "ab_mem(300 := 120)" 300 "[120]" 101 "[97, 98, 32, 99]"] by auto
qed

end
