(* ===== verification/LPrintf.thy ===== *)
theory LPrintf
  imports LString
begin

text \<open>
  Formatted output, \<^verbatim>\<open>lib/libc/__printf.c\<close> and \<^verbatim>\<open>snprintf.c\<close>. The state of a session is the record \<open>PF\<close>
  of the code; the callback that receives the text is an argument that updates the client's data,
  and fails where the client would write outside its buffer. The argument list is a list of
  values, each an integer or a string that may be null.
\<close>

section \<open>Model\<close>

datatype va_arg = Arg_int "32 word" | Arg_str "string option"

datatype pf_size = INTSZ | LONGSZ

record 'c PF =
  clientdata :: 'c
  pf_ap :: "va_arg list"
  charcount :: int
  in_pct :: bool
  pf_size :: pf_size
  pf_num :: "32 word"
  pf_sign :: int
  spacing :: int
  rightspc :: bool
  fillchar :: char
  pf_base :: "32 word"
  baseprefix :: bool
  altformat :: bool

type_synonym 'c send = "'c \<Rightarrow> string \<Rightarrow> 'c option"

type_synonym 'c pf_result = "(unit, 'c PF) result"

definition pf_print :: "'c send \<Rightarrow> string \<Rightarrow> 'c PF \<Rightarrow> 'c pf_result" where
  "pf_print sendfunc txt pf =
     (case sendfunc (clientdata pf) txt of
        None \<Rightarrow> Undef
      | Some c \<Rightarrow> Ret () (pf\<lparr>clientdata := c, charcount := s32 (charcount pf + int (length txt))\<rparr>))"

definition pf_endfield :: "'c PF \<Rightarrow> 'c PF" where
  "pf_endfield pf = pf\<lparr>in_pct := False, pf_size := INTSZ, pf_num := 0, pf_sign := 0, spacing := 0,
     rightspc := False, fillchar := CHR '' '', pf_base := 0, baseprefix := False, altformat := False\<rparr>"

definition char_digit :: "char \<Rightarrow> int" where
  "char_digit ch = int (of_char ch) - int (of_char (CHR ''0''))"

definition pf_modifier :: "char \<Rightarrow> 'c PF \<Rightarrow> 'c pf_result" where
  "pf_modifier ch pf =
     (if ch = CHR ''#'' then Ret () (pf\<lparr>altformat := True\<rparr>)
      else if ch = CHR ''-'' then Ret () (pf\<lparr>rightspc := True\<rparr>)
      else if ch = CHR ''l'' then Ret () (if pf_size pf = LONGSZ then pf else pf\<lparr>pf_size := LONGSZ\<rparr>)
      else if ch = CHR ''q'' then Ret () (pf\<lparr>pf_size := LONGSZ\<rparr>)
      else if ch = CHR ''0'' then
        Ret () (if spacing pf > 0 then pf\<lparr>spacing := s32 (spacing pf * 10)\<rparr> else pf\<lparr>fillchar := CHR ''0''\<rparr>)
      else if \<not> (0 < char_digit ch \<and> char_digit ch \<le> 9) then Panic
      else Ret () (pf\<lparr>spacing := s32 (spacing pf * 10 + char_digit ch)\<rparr>))"

text \<open>\<^verbatim>\<open>va_arg\<close>: taking an argument of the wrong kind, or one too many, is undefined.\<close>

definition take_int :: "'c PF \<Rightarrow> (32 word \<times> 'c PF) option" where
  "take_int pf = (case pf_ap pf of Arg_int w # rest \<Rightarrow> Some (w, pf\<lparr>pf_ap := rest\<rparr>) | _ \<Rightarrow> None)"

definition take_str :: "'c PF \<Rightarrow> (string option \<times> 'c PF) option" where
  "take_str pf = (case pf_ap pf of Arg_str s # rest \<Rightarrow> Some (s, pf\<lparr>pf_ap := rest\<rparr>) | _ \<Rightarrow> None)"

text \<open>\<^verbatim>\<open>int\<close>, \<^verbatim>\<open>long\<close> and pointers all have 32 bits; the negation of the smallest number wraps to itself.\<close>

definition pf_getnum :: "char \<Rightarrow> 'c PF \<Rightarrow> 'c pf_result" where
  "pf_getnum ch pf =
     (case take_int pf of
        None \<Rightarrow> Undef
      | Some (w, pf) \<Rightarrow>
          if ch = CHR ''p'' then Ret () (pf\<lparr>pf_num := w\<rparr>)
          else if ch = CHR ''d'' then
            (if sint w < 0 then Ret () (pf\<lparr>pf_sign := - 1, pf_num := - w\<rparr>) else Ret () (pf\<lparr>pf_num := w\<rparr>))
          else Ret () (pf\<lparr>pf_num := w\<rparr>))"

definition pf_setbase :: "char \<Rightarrow> 'c PF \<Rightarrow> 'c PF" where
  "pf_setbase ch pf =
     (let pf = (if ch = CHR ''d'' \<or> ch = CHR ''u'' then pf\<lparr>pf_base := 10\<rparr>
                else if ch = CHR ''x'' \<or> ch = CHR ''p'' then pf\<lparr>pf_base := 16\<rparr>
                else if ch = CHR ''o'' then pf\<lparr>pf_base := 8\<rparr> else pf)
      in if altformat pf \<or> ch = CHR ''p'' then pf\<lparr>baseprefix := True\<rparr> else pf)"

primrec pf_fill :: "'c send \<Rightarrow> nat \<Rightarrow> 'c PF \<Rightarrow> 'c pf_result" where
  "pf_fill sendfunc 0 pf = Ret () pf"
| "pf_fill sendfunc (Suc spc) pf = kbind (pf_print sendfunc [fillchar pf] pf) (\<lambda>_. pf_fill sendfunc spc)"

definition pf_printstuff :: "'c send \<Rightarrow> string \<Rightarrow> string \<Rightarrow> string \<Rightarrow> 'c PF \<Rightarrow> 'c pf_result" where
  "pf_printstuff sendfunc prefix prefix2 stuff pf =
     (let len = int (length prefix + length prefix2 + length stuff);
          spc = nat (if spacing pf > len then spacing pf - len else 0)
      in kbind (if spc > 0 \<and> \<not> rightspc pf \<and> fillchar pf \<noteq> CHR ''0'' then pf_fill sendfunc spc pf else Ret () pf) (\<lambda>_ pf.
         kbind (pf_print sendfunc prefix pf) (\<lambda>_ pf.
         kbind (pf_print sendfunc prefix2 pf) (\<lambda>_ pf.
         kbind (if spc > 0 \<and> \<not> rightspc pf \<and> fillchar pf = CHR ''0'' then pf_fill sendfunc spc pf else Ret () pf) (\<lambda>_ pf.
         kbind (pf_print sendfunc stuff pf) (\<lambda>_ pf.
           if spc > 0 \<and> rightspc pf then pf_fill sendfunc spc pf else Ret () pf))))))"

definition NUMBER_BUF_SIZE :: nat where
  "NUMBER_BUF_SIZE = 32 div 3 + 2"

text \<open>
  The loop of \<^verbatim>\<open>__pf_printnum\<close> with \<open>slots\<close> cells left below the pointer: it fills the buffer from
  the right and gives the index of the first digit; running out of cells would write before the
  buffer.
\<close>

primrec pf_digits :: "nat \<Rightarrow> 32 word \<Rightarrow> 32 word \<Rightarrow> string \<Rightarrow> (nat \<times> string) option" where
  "pf_digits 0 base xnum buf = None"
| "pf_digits (Suc x) base xnum buf =
     (let buf = buf[x := ''0123456789abcdef'' ! unat (xnum mod base)]; xnum = xnum div base
      in if xnum > 0 then pf_digits x base xnum buf else Some (x, buf))"

definition pf_printnum :: "'c send \<Rightarrow> 'c PF \<Rightarrow> 'c pf_result" where
  "pf_printnum sendfunc pf =
     (case pf_digits (NUMBER_BUF_SIZE - 1) (pf_base pf) (pf_num pf) (replicate NUMBER_BUF_SIZE (CHR 0x00)) of
        None \<Rightarrow> Undef
      | Some (x, buf) \<Rightarrow>
          let bprefix = (if baseprefix pf \<and> pf_base pf = 16 then ''0x''
                         else if baseprefix pf \<and> pf_base pf = 8 then ''0'' else '''');
              sprefix = (if pf_sign pf \<noteq> 0 then ''-'' else '''')
          in pf_printstuff sendfunc sprefix bprefix (takeWhile (\<lambda>c. c \<noteq> CHR 0x00) (drop x buf)) pf)"

definition pf_send :: "'c send \<Rightarrow> char \<Rightarrow> 'c PF \<Rightarrow> 'c pf_result" where
  "pf_send sendfunc ch pf =
     (if ch = CHR 0x00 then Panic
      else if \<not> in_pct pf \<and> ch \<noteq> CHR ''%'' then pf_print sendfunc [ch] pf
      else if \<not> in_pct pf then Ret () (pf\<lparr>in_pct := True\<rparr>)
      else if ch \<in> set ''#-ql0123456789'' then pf_modifier ch pf
      else if ch \<in> set ''doupx'' then
        kbind (pf_getnum ch pf) (\<lambda>_ pf.
        kbind (pf_printnum sendfunc (pf_setbase ch pf)) (\<lambda>_ pf. Ret () (pf_endfield pf)))
      else if ch = CHR ''s'' then
        (case take_str pf of
           None \<Rightarrow> Undef
         | Some (str, pf) \<Rightarrow>
             kbind (pf_printstuff sendfunc '''' '''' (case str of None \<Rightarrow> ''(null)'' | Some s \<Rightarrow> s) pf)
               (\<lambda>_ pf. Ret () (pf_endfield pf)))
      else if ch = CHR ''c'' then
        (case take_int pf of
           None \<Rightarrow> Undef
         | Some (w, pf) \<Rightarrow>
             kbind (pf_printstuff sendfunc '''' '''' (takeWhile (\<lambda>c. c \<noteq> CHR 0x00) [char_of (unat w)]) pf)
               (\<lambda>_ pf. Ret () (pf_endfield pf)))
      else kbind (pf_printstuff sendfunc '''' '''' [ch] pf) (\<lambda>_ pf. Ret () (pf_endfield pf)))"

primrec pf_sends :: "'c send \<Rightarrow> string \<Rightarrow> 'c PF \<Rightarrow> 'c pf_result" where
  "pf_sends sendfunc [] pf = Ret () pf"
| "pf_sends sendfunc (ch # format) pf = kbind (pf_send sendfunc ch pf) (\<lambda>_. pf_sends sendfunc format)"

text \<open>The result of \<^verbatim>\<open>__vprintf\<close> is the number of characters; the client's data are in the final state.\<close>

definition vprintf :: "'c send \<Rightarrow> 'c \<Rightarrow> string \<Rightarrow> va_arg list \<Rightarrow> (int, 'c) result" where
  "vprintf func client format ap =
     (case pf_sends func format (pf_endfield
             \<lparr>clientdata = client, pf_ap = ap, charcount = 0, in_pct = False, pf_size = INTSZ, pf_num = 0, pf_sign = 0,
              spacing = 0, rightspc = False, fillchar = CHR '' '', pf_base = 0, baseprefix = False, altformat = False\<rparr>) of
        Ret _ pf \<Rightarrow> Ret (charcount pf) (clientdata pf)
      | Err e pf \<Rightarrow> Err e (clientdata pf)
      | Panic \<Rightarrow> Panic
      | Undef \<Rightarrow> Undef)"

subsection \<open>\<^verbatim>\<open>snprintf\<close>\<close>

record SNP =
  snp_buf :: string
  buflen :: nat
  bufpos :: nat

text \<open>Each character is stored if there is room; a store outside the caller's buffer would be undefined.\<close>

primrec snprintf_send :: "SNP \<Rightarrow> string \<Rightarrow> SNP option" where
  "snprintf_send snp [] = Some snp"
| "snprintf_send snp (c # data) =
     (if bufpos snp < buflen snp
      then (if bufpos snp < length (snp_buf snp)
            then snprintf_send (snp\<lparr>snp_buf := (snp_buf snp)[bufpos snp := c], bufpos := Suc (bufpos snp)\<rparr>) data
            else None)
      else snprintf_send snp data)"

text \<open>The result pairs the return value with the buffer. \<open>buf\<close> is all the memory the caller owns there.\<close>

definition vsnprintf :: "string \<Rightarrow> nat \<Rightarrow> string \<Rightarrow> va_arg list \<Rightarrow> (int, string) result" where
  "vsnprintf buf len fmt ap =
     (case vprintf snprintf_send \<lparr>snp_buf = buf, buflen = (if len = 0 then 0 else len - 1), bufpos = 0\<rparr> fmt ap of
        Ret chars snp \<Rightarrow>
          if len > 0
          then (if bufpos snp < length (snp_buf snp) then Ret chars ((snp_buf snp)[bufpos snp := CHR 0x00]) else Undef)
          else Ret chars (snp_buf snp)
      | Err e snp \<Rightarrow> Err e (snp_buf snp)
      | Panic \<Rightarrow> Panic
      | Undef \<Rightarrow> Undef)"

definition snprintf :: "string \<Rightarrow> nat \<Rightarrow> string \<Rightarrow> va_arg list \<Rightarrow> (int, string) result" where
  "snprintf buf len fmt args = vsnprintf buf len fmt args"

section \<open>Numbers in a positional system\<close>

definition digit_char :: "nat \<Rightarrow> char" where
  "digit_char d = ''0123456789abcdef'' ! d"

fun numeral_text :: "nat \<Rightarrow> nat \<Rightarrow> string" where
  "numeral_text b n = (if b < 2 \<or> n < b then [digit_char n] else numeral_text b (n div b) @ [digit_char (n mod b)])"

declare numeral_text.simps [simp del]

lemma numeral_text_length:
  assumes "2 \<le> b" "n < b ^ k" "0 < k"
  shows "length (numeral_text b n) \<le> k"
  using assms(2,3)
proof (induction k arbitrary: n)
  case (Suc k)
  show ?case
  proof (cases "n < b")
    case False
    with assms(1) Suc.prems(1) have "n div b < b ^ k" by (simp add: less_mult_imp_div_less mult.commute)
    moreover have "0 < k" using False Suc.prems(1) by (cases k) auto
    ultimately show ?thesis using Suc.IH [of "n div b"] False by (simp add: numeral_text.simps [of b n])
  qed (simp add: numeral_text.simps [of b n])
qed simp

lemma numeral_text_nonempty [simp]: "numeral_text b n \<noteq> []"
  by (subst numeral_text.simps) simp

lemma all_below_16: "(\<forall>d < 16. Q d) \<longleftrightarrow> (\<forall>d \<in> set [0..<16]. Q (d :: nat))"
  by auto

lemma digit_char_nonzero: "d < 16 \<Longrightarrow> digit_char d \<noteq> CHR 0x00"
proof -
  have "\<forall>d < 16. digit_char d \<noteq> CHR 0x00" unfolding all_below_16 by code_simp
  then show "d < 16 \<Longrightarrow> ?thesis" by simp
qed

lemma numeral_text_nonzero: "2 \<le> b \<Longrightarrow> b \<le> 16 \<Longrightarrow> c \<in> set (numeral_text b n) \<Longrightarrow> c \<noteq> CHR 0x00"
proof (induction b n rule: numeral_text.induct)
  case (1 b n)
  have "n mod b < 16" using 1(2,3) using mod_less_divisor [of b n] by linarith
  with 1 show ?case by (auto simp: numeral_text.simps [of b n] digit_char_nonzero digit_char_nonzero [THEN not_sym] split: if_splits)
qed

text \<open>The loop writes the digits of the number to the left of the cells it started at.\<close>

lemma pf_digits_text:
  assumes "2 \<le> unat base" "length (numeral_text (unat base) (unat xnum)) \<le> x" "x \<le> length buf"
  shows "pf_digits x base xnum buf = Some (x - length (numeral_text (unat base) (unat xnum)),
    take (x - length (numeral_text (unat base) (unat xnum))) buf @ numeral_text (unat base) (unat xnum) @ drop x buf)"
  using assms(2,3)
proof (induction x arbitrary: xnum buf)
  case 0
  then show ?case by simp
next
  case (Suc x)
  let ?b = "unat base" and ?n = "unat xnum"
  let ?buf = "buf[x := digit_char (?n mod ?b)]"
  have div: "unat (xnum div base) = ?n div ?b" "unat (xnum mod base) = ?n mod ?b" by (simp_all add: unat_div unat_mod)
  have cells: "take j ?buf = take j buf" "drop x ?buf = digit_char (?n mod ?b) # drop (Suc x) buf" if "j \<le> x" for j
    using that Suc.prems(2) by (simp_all add: drop_update_swap Cons_nth_drop_Suc [symmetric])
  show ?case
  proof (cases "?n < ?b")
    case True
    then have "?n div ?b = 0" by simp
    then have "xnum div base = 0" using div(1) unsigned_eq_0_iff by metis
    moreover have "?buf = take x buf @ digit_char ?n # drop (Suc x) buf"
      using cells [of x] True append_take_drop_id [of x ?buf] by simp
    ultimately show ?thesis using True div by (simp add: numeral_text.simps [of ?b ?n] digit_char_def)
  next
    case False
    then have split: "numeral_text ?b ?n = numeral_text ?b (?n div ?b) @ [digit_char (?n mod ?b)]"
      using assms(1) by (simp add: numeral_text.simps [of ?b ?n])
    have "0 < ?n div ?b" using False assms(1) by (simp add: div_greater_zero_iff)
    then have "0 < xnum div base" using div(1) by (metis less_irrefl unat_0 word_gt_0)
    moreover have "pf_digits x base (xnum div base) ?buf =
        Some (x - length (numeral_text ?b (?n div ?b)), take (x - length (numeral_text ?b (?n div ?b))) ?buf @
          numeral_text ?b (?n div ?b) @ drop x ?buf)"
      using Suc.IH [of "xnum div base" ?buf] Suc.prems split div by simp
    ultimately show ?thesis using split div cells [OF le_refl] by (simp add: digit_char_def)
  qed
qed

text \<open>Twelve cells hold any 32-bit number down to base 8, with the terminator and no cell to spare.\<close>

lemma number_fits: "8 \<le> b \<Longrightarrow> length (numeral_text b (unat (w :: 32 word))) \<le> NUMBER_BUF_SIZE - 1"
proof -
  assume b: "8 \<le> b"
  have "unat w < 2 ^ 32" using unsigned_less [where ?'a = nat, of w] by simp
  also have "(2 :: nat) ^ 32 \<le> 8 ^ 11" by simp
  also have "(8 :: nat) ^ 11 \<le> b ^ 11" using b by (rule power_mono) simp
  finally show ?thesis using b numeral_text_length [of b "unat w" 11] by (simp add: NUMBER_BUF_SIZE_def)
qed

lemma pf_printnum_text:
  assumes "8 \<le> unat (pf_base pf)" "unat (pf_base pf) \<le> 16"
  shows "pf_printnum sendfunc pf =
    pf_printstuff sendfunc (if pf_sign pf \<noteq> 0 then ''-'' else '''')
      (if baseprefix pf \<and> pf_base pf = 16 then ''0x'' else if baseprefix pf \<and> pf_base pf = 8 then ''0'' else '''')
      (numeral_text (unat (pf_base pf)) (unat (pf_num pf))) pf"
proof -
  let ?t = "numeral_text (unat (pf_base pf)) (unat (pf_num pf))"
  have t: "length ?t \<le> NUMBER_BUF_SIZE - 1" using assms(1) by (rule number_fits)
  have "drop (NUMBER_BUF_SIZE - 1) (replicate NUMBER_BUF_SIZE (CHR 0x00)) = [CHR 0x00]" by (simp add: NUMBER_BUF_SIZE_def)
  then have digits: "pf_digits (NUMBER_BUF_SIZE - 1) (pf_base pf) (pf_num pf) (replicate NUMBER_BUF_SIZE (CHR 0x00)) =
     Some (NUMBER_BUF_SIZE - 1 - length ?t, take (NUMBER_BUF_SIZE - 1 - length ?t) (replicate NUMBER_BUF_SIZE (CHR 0x00)) @ ?t @ [CHR 0x00])"
    using pf_digits_text [of "pf_base pf" "pf_num pf" "NUMBER_BUF_SIZE - 1" "replicate NUMBER_BUF_SIZE (CHR 0x00)"] assms(1) t by simp
  have "takeWhile (\<lambda>c. c \<noteq> CHR 0x00) (?t @ [CHR 0x00]) = ?t"
    using numeral_text_nonzero [of "unat (pf_base pf)" _ "unat (pf_num pf)"] assms
    by (subst takeWhile_append2) auto
  then show ?thesis using digits t by (simp add: pf_printnum_def Let_def)
qed

section \<open>Two clients of one format\<close>

text \<open>
  What a session sends does not depend on the client: two clients whose data are kept related by
  their callbacks stay related, and the session ends in the same way for both.
\<close>

definition alike :: "('a \<Rightarrow> 'b \<Rightarrow> bool) \<Rightarrow> 'a PF \<Rightarrow> 'b PF \<Rightarrow> bool" where
  "alike R p q \<longleftrightarrow> R (clientdata p) (clientdata q) \<and> pf_ap q = pf_ap p \<and> charcount q = charcount p \<and>
     in_pct q = in_pct p \<and> pf_size q = pf_size p \<and> pf_num q = pf_num p \<and> pf_sign q = pf_sign p \<and>
     spacing q = spacing p \<and> rightspc q = rightspc p \<and> fillchar q = fillchar p \<and> pf_base q = pf_base p \<and>
     baseprefix q = baseprefix p \<and> altformat q = altformat p"

fun both :: "('a \<Rightarrow> 'b \<Rightarrow> bool) \<Rightarrow> ('v, 'a) result \<Rightarrow> ('v, 'b) result \<Rightarrow> bool" where
  "both R (Ret x p) (Ret y q) \<longleftrightarrow> x = y \<and> R p q"
| "both R (Err d p) (Err e q) \<longleftrightarrow> d = e \<and> R p q"
| "both R Panic Panic \<longleftrightarrow> True"
| "both R Undef Undef \<longleftrightarrow> True"
| "both R _ _ \<longleftrightarrow> False"

lemma both_kbind:
  assumes "both R m m'" "\<And>x p q. R p q \<Longrightarrow> both R (f x p) (g x q)"
  shows "both R (kbind m f) (kbind m' g)"
  using assms by (cases m; cases m') auto

lemma both_if: "(b \<Longrightarrow> both R m m') \<Longrightarrow> (\<not> b \<Longrightarrow> both R n n') \<Longrightarrow> both R (if b then m else n) (if b then m' else n')"
  by simp

lemma both_take:
  assumes "rel_option (rel_prod (=) R) t u" "\<And>x p q. R p q \<Longrightarrow> both R (f x p) (g x q)"
  shows "both R (case t of None \<Rightarrow> Undef | Some (x, p) \<Rightarrow> f x p) (case u of None \<Rightarrow> Undef | Some (x, q) \<Rightarrow> g x q)"
  using assms by (cases t; cases u) auto

locale printf_clients =
  fixes send1 :: "'a send" and send2 :: "'b send" and R :: "'a \<Rightarrow> 'b \<Rightarrow> bool"
  assumes sends_alike: "R c d \<Longrightarrow> rel_option R (send1 c s) (send2 d s)"
begin

lemma print_alike: "alike R p q \<Longrightarrow> both (alike R) (pf_print send1 s p) (pf_print send2 s q)"
  using sends_alike [of "clientdata p" "clientdata q" s]
  by (cases "send1 (clientdata p) s"; cases "send2 (clientdata q) s") (simp_all add: pf_print_def alike_def)

lemma fill_alike: "alike R p q \<Longrightarrow> both (alike R) (pf_fill send1 n p) (pf_fill send2 n q)"
proof (induction n arbitrary: p q)
  case (Suc n)
  then have "fillchar q = fillchar p" by (simp add: alike_def)
  with Suc show ?case by (auto intro!: both_kbind print_alike)
qed simp

lemma printstuff_alike:
  "alike R p q \<Longrightarrow> both (alike R) (pf_printstuff send1 s t u p) (pf_printstuff send2 s t u q)"
proof -
  assume pq: "alike R p q"
  have guard: "both (alike R) (if b \<and> \<not> rightspc p \<and> fillchar p = CHR ''0'' then pf_fill send1 n p else Ret () p)
      (if b \<and> \<not> rightspc q \<and> fillchar q = CHR ''0'' then pf_fill send2 n q else Ret () q)"
    "both (alike R) (if b \<and> \<not> rightspc p \<and> fillchar p \<noteq> CHR ''0'' then pf_fill send1 n p else Ret () p)
      (if b \<and> \<not> rightspc q \<and> fillchar q \<noteq> CHR ''0'' then pf_fill send2 n q else Ret () q)"
    "both (alike R) (if b \<and> rightspc p then pf_fill send1 n p else Ret () p)
      (if b \<and> rightspc q then pf_fill send2 n q else Ret () q)" if "alike R p q" for p q b n
    using that fill_alike [OF that] by (simp_all add: alike_def)
  have spc: "spacing q = spacing p" using pq by (simp add: alike_def)
  show ?thesis
    unfolding pf_printstuff_def Let_def spc by (intro both_kbind guard print_alike pq)
qed

lemma printnum_alike: "alike R p q \<Longrightarrow> both (alike R) (pf_printnum send1 p) (pf_printnum send2 q)"
proof -
  assume pq: "alike R p q"
  then have fields: "pf_base q = pf_base p" "pf_num q = pf_num p" "baseprefix q = baseprefix p" "pf_sign q = pf_sign p"
    by (simp_all add: alike_def)
  show ?thesis
  proof (cases "pf_digits (NUMBER_BUF_SIZE - 1) (pf_base p) (pf_num p) (replicate NUMBER_BUF_SIZE (CHR 0x00))")
    case None
    then show ?thesis by (simp only: pf_printnum_def fields option.case both.simps)
  next
    case (Some r)
    then show ?thesis
      by (cases r) (simp only: pf_printnum_def fields option.case prod.case Let_def printstuff_alike [OF pq])
  qed
qed

lemma endfield_alike: "alike R p q \<Longrightarrow> both (alike R) (Ret () (pf_endfield p)) (Ret () (pf_endfield q))"
  by (simp add: alike_def pf_endfield_def)

lemma modifier_alike: "alike R p q \<Longrightarrow> both (alike R) (pf_modifier ch p) (pf_modifier ch q)"
  by (simp add: alike_def pf_modifier_def)

lemma getnum_alike: "alike R p q \<Longrightarrow> both (alike R) (pf_getnum ch p) (pf_getnum ch q)"
  by (simp add: alike_def pf_getnum_def take_int_def split: list.split va_arg.split)

lemma setbase_alike: "alike R p q \<Longrightarrow> alike R (pf_setbase ch p) (pf_setbase ch q)"
  by (simp add: alike_def pf_setbase_def Let_def)

lemma take_int_alike: "alike R p q \<Longrightarrow> rel_option (rel_prod (=) (alike R)) (take_int p) (take_int q)"
  by (simp add: alike_def take_int_def split: list.split va_arg.split)

lemma take_str_alike: "alike R p q \<Longrightarrow> rel_option (rel_prod (=) (alike R)) (take_str p) (take_str q)"
  by (simp add: alike_def take_str_def split: list.split va_arg.split)

lemma send_alike: "alike R p q \<Longrightarrow> both (alike R) (pf_send send1 ch p) (pf_send send2 ch q)"
proof -
  assume pq: "alike R p q"
  then have pct: "in_pct q = in_pct p" and start: "alike R (p\<lparr>in_pct := True\<rparr>) (q\<lparr>in_pct := True\<rparr>)"
    by (simp_all add: alike_def)
  have "both (alike R) (Ret () (p\<lparr>in_pct := True\<rparr>)) (Ret () (q\<lparr>in_pct := True\<rparr>))" using start by simp
  then show ?thesis
    unfolding pf_send_def pct
    by (intro both_if both_take [OF take_int_alike] both_take [OF take_str_alike] both_kbind both.simps(3) [THEN iffD2] TrueI
        print_alike printstuff_alike printnum_alike modifier_alike getnum_alike setbase_alike endfield_alike pq)
qed

lemma sends_all_alike: "alike R p q \<Longrightarrow> both (alike R) (pf_sends send1 fmt p) (pf_sends send2 fmt q)"
proof (induction fmt arbitrary: p q)
  case (Cons ch fmt)
  show ?case using Cons.IH by (auto intro!: both_kbind send_alike Cons.prems)
qed simp

lemma vprintf_alike:
  assumes "R c d"
  shows "both R (vprintf send1 c fmt ap) (vprintf send2 d fmt ap)"
proof -
  have start: "alike R (pf_endfield \<lparr>clientdata = c, pf_ap = ap, charcount = 0, in_pct = False, pf_size = INTSZ, pf_num = 0,
      pf_sign = 0, spacing = 0, rightspc = False, fillchar = CHR '' '', pf_base = 0, baseprefix = False, altformat = False\<rparr>)
     (pf_endfield \<lparr>clientdata = d, pf_ap = ap, charcount = 0, in_pct = False, pf_size = INTSZ, pf_num = 0,
      pf_sign = 0, spacing = 0, rightspc = False, fillchar = CHR '' '', pf_base = 0, baseprefix = False, altformat = False\<rparr>)"
    using assms by (simp add: alike_def pf_endfield_def)
  show ?thesis
    using sends_all_alike [OF start, of fmt] unfolding vprintf_def
    by (cases "pf_sends send1 fmt (pf_endfield \<lparr>clientdata = c, pf_ap = ap, charcount = 0, in_pct = False, pf_size = INTSZ, pf_num = 0,
      pf_sign = 0, spacing = 0, rightspc = False, fillchar = CHR '' '', pf_base = 0, baseprefix = False, altformat = False\<rparr>)"; 
        cases "pf_sends send2 fmt (pf_endfield \<lparr>clientdata = d, pf_ap = ap, charcount = 0, in_pct = False, pf_size = INTSZ, pf_num = 0,
      pf_sign = 0, spacing = 0, rightspc = False, fillchar = CHR '' '', pf_base = 0, baseprefix = False, altformat = False\<rparr>)")
      (simp_all add: alike_def)
qed

end

section \<open>The text of a session\<close>

text \<open>A client that keeps all it is sent.\<close>

definition send_text :: "string send" where
  "send_text c s = Some (c @ s)"

definition in_buffer :: "string \<Rightarrow> nat \<Rightarrow> string \<Rightarrow> SNP \<Rightarrow> bool" where
  "in_buffer buf n c snp \<longleftrightarrow> n \<le> length buf \<and> buflen snp = n \<and> bufpos snp = min n (length c) \<and>
     snp_buf snp = take n c @ drop (min n (length c)) buf"

lemma snprintf_send_in_buffer: "in_buffer buf n c snp \<Longrightarrow> \<exists>snp'. snprintf_send snp s = Some snp' \<and> in_buffer buf n (c @ s) snp'"
proof (induction s arbitrary: c snp)
  case (Cons x s)
  show ?case
  proof (cases "length c < n")
    case True
    then have "in_buffer buf n (c @ [x]) (snp\<lparr>snp_buf := (snp_buf snp)[bufpos snp := x], bufpos := Suc (bufpos snp)\<rparr>)"
      using Cons.prems by (auto simp: in_buffer_def list_update_append Cons_nth_drop_Suc [symmetric] min_absorb2)
    from Cons.IH [OF this] True Cons.prems show ?thesis by (simp add: in_buffer_def)
  next
    case False
    then have "in_buffer buf n (c @ [x]) snp" using Cons.prems by (simp add: in_buffer_def)
    from Cons.IH [OF this] False Cons.prems show ?thesis by (simp add: in_buffer_def)
  qed
qed simp

interpretation snp: printf_clients send_text snprintf_send "in_buffer buf n" for buf n
proof unfold_locales
  fix c d s
  assume "in_buffer buf n c d"
  with snprintf_send_in_buffer [of buf n c d s] show "rel_option (in_buffer buf n) (send_text c s) (snprintf_send d s)"
    by (auto simp: send_text_def)
qed

subsection \<open>The characters are counted\<close>

definition counted :: "unit \<Rightarrow> string PF \<Rightarrow> bool" where
  "counted u pf \<longleftrightarrow> charcount pf = s32 (int (length (clientdata pf)))"

lemma s32_add: "s32 (s32 x + y) = s32 (x + y)"
proof -
  have "(s32 x + y + 2147483648) mod 4294967296 = (x + y + 2147483648) mod 4294967296"
    using mod_add_left_eq [of "x + 2147483648" 4294967296 y] by (simp add: s32_def algebra_simps)
  then show ?thesis by (simp only: s32_def [of "s32 x + y"] s32_def [of "x + y"])
qed

lemma counted_print: "counted u pf \<Longrightarrow> returns (pf_print send_text s pf) counted"
  by (simp add: pf_print_def send_text_def counted_def s32_add)

lemmas counted_bind = returns_bind [of _ counted _ counted]

lemma counted_if: "(b \<Longrightarrow> returns m counted) \<Longrightarrow> (\<not> b \<Longrightarrow> returns n counted) \<Longrightarrow> returns (if b then m else n) counted"
  by simp

lemma counted_Ret: "counted u pf \<Longrightarrow> returns (Ret v pf) counted"
  by (simp add: counted_def)

lemma counted_fill: "counted u pf \<Longrightarrow> returns (pf_fill send_text n pf) counted"
proof (induction n arbitrary: pf)
  case (Suc n)
  then show ?case unfolding pf_fill.simps by (intro counted_bind counted_print) auto
qed simp

lemma counted_printstuff: "counted x pf \<Longrightarrow> returns (pf_printstuff send_text s t u pf) counted"
  unfolding pf_printstuff_def Let_def by (intro counted_bind counted_if counted_print counted_fill counted_Ret)

lemma counted_endfield: "counted u pf \<Longrightarrow> returns (Ret v (pf_endfield pf)) counted"
  by (simp add: counted_def pf_endfield_def)

lemma counted_modifier: "counted u pf \<Longrightarrow> returns (pf_modifier ch pf) counted"
  by (simp add: counted_def pf_modifier_def)

lemma counted_getnum: "counted u pf \<Longrightarrow> returns (pf_getnum ch pf) counted"
  by (simp add: counted_def pf_getnum_def take_int_def split: list.split va_arg.split)

lemma counted_setbase: "counted u pf \<Longrightarrow> counted v (pf_setbase ch pf)"
  by (simp add: counted_def pf_setbase_def Let_def)

lemma counted_printnum: "counted u pf \<Longrightarrow> returns (pf_printnum send_text pf) counted"
  unfolding pf_printnum_def by (cases "pf_digits (NUMBER_BUF_SIZE - 1) (pf_base pf) (pf_num pf) (replicate NUMBER_BUF_SIZE (CHR 0x00))")
    (auto simp: Let_def intro: counted_printstuff)

lemma counted_send: "counted u pf \<Longrightarrow> returns (pf_send send_text ch pf) counted"
proof -
  assume pf: "counted u pf"
  have taken: "take_int pf = Some (w, p) \<Longrightarrow> counted u p" "take_str pf = Some (t, p) \<Longrightarrow> counted u p" for w t p
    using pf by (auto simp: counted_def take_int_def take_str_def split: list.splits va_arg.splits)
  have int: "returns (case take_int pf of None \<Rightarrow> Undef | Some (w, p) \<Rightarrow>
      kbind (pf_printstuff send_text a b (f w) p) (\<lambda>_ p. Ret () (pf_endfield p))) counted" for a b f
    using taken(1) by (cases "take_int pf") (auto simp del: returns.simps returns_kbind simp: returns.simps(4) intro!: counted_bind counted_printstuff counted_endfield)
  have str: "returns (case take_str pf of None \<Rightarrow> Undef | Some (w, p) \<Rightarrow>
      kbind (pf_printstuff send_text a b (g w) p) (\<lambda>_ p. Ret () (pf_endfield p))) counted" for a b g
    using taken(2) by (cases "take_str pf") (auto simp del: returns.simps returns_kbind simp: returns.simps(4) intro!: counted_bind counted_printstuff counted_endfield)
  have "returns (Ret () (pf\<lparr>in_pct := True\<rparr>)) counted" using pf by (simp add: counted_def)
  with pf show ?thesis unfolding pf_send_def
    by (intro counted_if int str counted_bind counted_print counted_printstuff counted_printnum counted_modifier counted_getnum counted_setbase
        counted_endfield returns.simps(3) [THEN iffD2] TrueI)
qed

lemma counted_sends: "counted u pf \<Longrightarrow> returns (pf_sends send_text fmt pf) counted"
proof (induction fmt arbitrary: u pf)
  case (Cons ch fmt)
  from Cons.IH show ?case unfolding pf_sends.simps by (intro counted_bind counted_send [OF Cons.prems])
qed (simp add: counted_def)

lemma vprintf_counts: "vprintf send_text [] fmt ap = Ret n s \<Longrightarrow> n = s32 (int (length s))"
  using counted_sends [of _ "pf_endfield \<lparr>clientdata = [], pf_ap = ap, charcount = 0, in_pct = False, pf_size = INTSZ, pf_num = 0,
      pf_sign = 0, spacing = 0, rightspc = False, fillchar = CHR '' '', pf_base = 0, baseprefix = False, altformat = False\<rparr>" fmt]
  by (auto simp: vprintf_def counted_def pf_endfield_def split: result.splits)

subsection \<open>Arguments that fit the format\<close>

fun args_ok :: "bool \<Rightarrow> string \<Rightarrow> va_arg list \<Rightarrow> bool" where
  "args_ok pct [] ap \<longleftrightarrow> True"
| "args_ok False (ch # fmt) ap \<longleftrightarrow> args_ok (ch = CHR ''%'') fmt ap"
| "args_ok True (ch # fmt) ap \<longleftrightarrow>
     (if ch \<in> set ''#-ql0123456789'' then args_ok True fmt ap
      else if ch \<in> set ''doupxc'' then (case ap of Arg_int _ # rest \<Rightarrow> args_ok False fmt rest | _ \<Rightarrow> False)
      else if ch = CHR ''s'' then (case ap of Arg_str _ # rest \<Rightarrow> args_ok False fmt rest | _ \<Rightarrow> False)
      else args_ok False fmt ap)"

definition succeeds :: "('a, 's) result \<Rightarrow> ('s \<Rightarrow> bool) \<Rightarrow> bool" where
  "succeeds m Q \<longleftrightarrow> outcome m (\<lambda>_. Q) (\<lambda>_ _. False)"

lemma succeeds_Ret [simp]: "succeeds (Ret x p) Q = Q p"
  by (simp add: succeeds_def)

lemma succeeds_bind: "succeeds m Q \<Longrightarrow> (\<And>x p. Q p \<Longrightarrow> succeeds (f x p) S) \<Longrightarrow> succeeds (kbind m f) S"
  by (cases m) (auto simp: succeeds_def)

lemma succeeds_if: "(b \<Longrightarrow> succeeds m Q) \<Longrightarrow> (\<not> b \<Longrightarrow> succeeds n Q) \<Longrightarrow> succeeds (if b then m else n) Q"
  by simp

text \<open>Printing leaves the argument list alone.\<close>

definition at_args :: "bool \<Rightarrow> va_arg list \<Rightarrow> 'c PF \<Rightarrow> bool" where
  "at_args b ap pf \<longleftrightarrow> in_pct pf = b \<and> pf_ap pf = ap"

lemmas at_args_bind = succeeds_bind [of _ "at_args b ap" _ "at_args b ap" for b ap]

lemma print_succeeds: "at_args b ap pf \<Longrightarrow> succeeds (pf_print send_text s pf) (at_args b ap)"
  by (simp add: pf_print_def send_text_def at_args_def)

lemma fill_succeeds: "at_args b ap pf \<Longrightarrow> succeeds (pf_fill send_text n pf) (at_args b ap)"
proof (induction n arbitrary: pf)
  case (Suc n)
  from Suc.IH show ?case unfolding pf_fill.simps by (intro at_args_bind print_succeeds Suc.prems)
qed simp

lemma printstuff_succeeds: "at_args b ap pf \<Longrightarrow> succeeds (pf_printstuff send_text s t u pf) (at_args b ap)"
  unfolding pf_printstuff_def Let_def
  by (intro at_args_bind succeeds_if print_succeeds fill_succeeds succeeds_Ret [THEN iffD2])

lemma field_succeeds: "succeeds m (at_args b ap) \<Longrightarrow> succeeds (kbind m (\<lambda>_ pf. Ret () (pf_endfield pf))) (at_args False ap)"
  by (erule succeeds_bind) (auto simp: at_args_def pf_endfield_def)

lemma modifier_chars:
  "ch \<in> set ''#-ql0123456789'' \<Longrightarrow> ch \<in> set ''#-lq0'' \<or> (0 < char_digit ch \<and> char_digit ch \<le> 9)"
proof -
  have "\<forall>ch \<in> set ''#-ql0123456789''. ch \<in> set ''#-lq0'' \<or> (0 < char_digit ch \<and> char_digit ch \<le> 9)" by code_simp
  then show "ch \<in> set ''#-ql0123456789'' \<Longrightarrow> ?thesis" by blast
qed

lemma modifier_succeeds:
  "at_args b ap pf \<Longrightarrow> ch \<in> set ''#-ql0123456789'' \<Longrightarrow> succeeds (pf_modifier ch pf) (at_args b ap)"
  using modifier_chars [of ch] by (simp add: pf_modifier_def at_args_def del: list.set) auto

lemma setbase_base: "ch \<in> set ''doupx'' \<Longrightarrow> pf_base (pf_setbase ch pf) \<in> {8, 10, 16}"
  by (auto simp: pf_setbase_def Let_def)

lemma number_succeeds:
  assumes "at_args b (Arg_int w # ap) pf" "ch \<in> set ''doupx''"
  shows "succeeds (kbind (pf_getnum ch pf) (\<lambda>_ pf. pf_printnum send_text (pf_setbase ch pf))) (at_args b ap)"
proof -
  have "succeeds (pf_getnum ch pf) (at_args b ap)"
    using assms by (auto simp: pf_getnum_def take_int_def at_args_def)
  moreover have "succeeds (pf_printnum send_text (pf_setbase ch p)) (at_args b ap)" if "at_args b ap p" for p
  proof -
    have "at_args b ap (pf_setbase ch p)" using that by (auto simp: at_args_def pf_setbase_def Let_def)
    moreover have "8 \<le> unat (pf_base (pf_setbase ch p))" "unat (pf_base (pf_setbase ch p)) \<le> 16"
      using setbase_base [OF assms(2), of p] by auto
    ultimately show ?thesis by (simp add: pf_printnum_text printstuff_succeeds)
  qed
  ultimately show ?thesis by (rule succeeds_bind)
qed

lemma conversion_chars:
  "ch \<in> set ''doupx'' \<Longrightarrow> ch \<notin> set ''#-ql0123456789'' \<and> ch \<in> set ''doupxc''"
  "ch \<notin> set ''doupx'' \<Longrightarrow> ch \<noteq> CHR ''c'' \<Longrightarrow> ch \<notin> set ''doupxc''"
  by auto

lemma send_succeeds:
  assumes "args_ok (in_pct pf) (ch # fmt) (pf_ap pf)" "ch \<noteq> CHR 0x00"
  shows "succeeds (pf_send send_text ch pf) (\<lambda>p. args_ok (in_pct p) fmt (pf_ap p))"
proof -
  have weaken: "succeeds m (at_args b ap) \<Longrightarrow> args_ok b fmt ap \<Longrightarrow> succeeds m (\<lambda>p. args_ok (in_pct p) fmt (pf_ap p))"
    for m :: "string pf_result" and b ap
    unfolding succeeds_def by (erule outcome_weaken) (auto simp: at_args_def)
  consider "\<not> in_pct pf" "ch \<noteq> CHR ''%''" | "\<not> in_pct pf" "ch = CHR ''%''" | "in_pct pf" "ch \<in> set ''#-ql0123456789''"
    | (num) "in_pct pf" "ch \<in> set ''doupx''" | (str) "in_pct pf" "ch = CHR ''s''" | (chr) "in_pct pf" "ch = CHR ''c''"
    | "in_pct pf" "ch \<notin> set ''#-ql0123456789''" "ch \<notin> set ''doupx''" "ch \<noteq> CHR ''s''" "ch \<noteq> CHR ''c''"
    by blast
  then show ?thesis
  proof cases
    case 1
    then show ?thesis using assms weaken [OF print_succeeds [of False "pf_ap pf" pf "[ch]"]] by (simp add: pf_send_def at_args_def)
  next
    case 2
    then show ?thesis using assms by (simp add: pf_send_def)
  next
    case 3
    then show ?thesis using assms weaken [OF modifier_succeeds [of True "pf_ap pf" pf ch]] by (simp add: pf_send_def at_args_def)
  next
    case num
    then obtain w ap where ap: "pf_ap pf = Arg_int w # ap" "args_ok False fmt ap"
      using assms(1) conversion_chars(1) [OF num(2)] by (auto simp del: list.set split: list.splits va_arg.splits)
    moreover have "at_args True (Arg_int w # ap) pf" using num(1) ap(1) by (simp add: at_args_def)
    ultimately have "succeeds (pf_send send_text ch pf) (at_args False ap)"
      using num conversion_chars(1) [OF num(2)] number_succeeds [of True w ap pf ch, THEN field_succeeds] assms(2)
      by (simp add: pf_send_def kbind_assoc del: list.set)
    with ap show ?thesis by (intro weaken)
  next
    case str
    then obtain s ap where ap: "pf_ap pf = Arg_str s # ap" "args_ok False fmt ap"
      using assms(1) by (auto split: list.splits va_arg.splits)
    then have "succeeds (pf_send send_text ch pf) (at_args False ap)"
      using str by (auto simp: pf_send_def take_str_def at_args_def intro!: field_succeeds printstuff_succeeds [of True])
    with ap show ?thesis by (intro weaken)
  next
    case chr
    then obtain w ap where ap: "pf_ap pf = Arg_int w # ap" "args_ok False fmt ap"
      using assms(1) by (auto split: list.splits va_arg.splits)
    then have "succeeds (pf_send send_text ch pf) (at_args False ap)"
      using chr by (auto simp: pf_send_def take_int_def at_args_def intro!: field_succeeds printstuff_succeeds [of True])
    with ap show ?thesis by (intro weaken)
  next
    case 7
    then have "succeeds (pf_send send_text ch pf) (at_args False (pf_ap pf))"
      using assms(2) by (simp add: pf_send_def at_args_def field_succeeds [OF printstuff_succeeds [of True]] del: list.set)
    then show ?thesis using 7 assms(1) conversion_chars(2) [OF 7(3,5)] by (intro weaken) (simp_all del: list.set)
  qed
qed

lemma sends_succeed:
  "args_ok (in_pct pf) fmt (pf_ap pf) \<Longrightarrow> CHR 0x00 \<notin> set fmt \<Longrightarrow> succeeds (pf_sends send_text fmt pf) (\<lambda>_. True)"
proof (induction fmt arbitrary: pf)
  case (Cons ch fmt)
  have "succeeds (pf_send send_text ch pf) (\<lambda>p. args_ok (in_pct p) fmt (pf_ap p))"
    using send_succeeds [OF Cons.prems(1)] Cons.prems(2) by auto
  then show ?case unfolding pf_sends.simps by (rule succeeds_bind) (use Cons in auto)
qed simp

lemma vprintf_succeeds:
  assumes "args_ok False fmt ap" "CHR 0x00 \<notin> set fmt"
  obtains s where "vprintf send_text [] fmt ap = Ret (s32 (int (length s))) s"
proof -
  let ?pf = "pf_endfield \<lparr>clientdata = [], pf_ap = ap, charcount = 0, in_pct = False, pf_size = INTSZ, pf_num = 0,
      pf_sign = 0, spacing = 0, rightspc = False, fillchar = CHR '' '', pf_base = 0, baseprefix = False, altformat = False\<rparr>"
  have "succeeds (pf_sends send_text fmt ?pf) (\<lambda>_. True)"
    using assms by (intro sends_succeed) (simp_all add: pf_endfield_def)
  then obtain pf where "pf_sends send_text fmt ?pf = Ret () pf"
    by (cases "pf_sends send_text fmt ?pf") (simp_all add: succeeds_def)
  then have run: "vprintf send_text [] fmt ap = Ret (charcount pf) (clientdata pf)" by (simp add: vprintf_def)
  with vprintf_counts [OF run] show thesis using that [of "clientdata pf"] by simp
qed

subsection \<open>Reading back a printed number\<close>

lemma digit_value_char: "d < 10 \<Longrightarrow> digit_value (of_char (digit_char d)) = Some d \<and> (of_char (digit_char d) :: byte) \<notin> {0, 9, 32, 43, 45}"
proof -
  have "\<forall>d \<in> set [0..<10]. digit_value (of_char (digit_char d)) = Some d \<and> (of_char (digit_char d) :: byte) \<notin> {0, 9, 32, 43, 45}"
    by code_simp
  then show "d < 10 \<Longrightarrow> ?thesis" by simp
qed

lemma atoi_loop_digit: "d < 10 \<Longrightarrow> m p = of_char (digit_char d) \<Longrightarrow> atoi_loop m p v = atoi_loop m (p + 1) (v * 10 + of_nat d)"
  using digit_value_char [of d] by (subst atoi_loop.simps) simp

lemma atoi_loop_text:
  "block m p (length (numeral_text 10 n)) = map of_char (numeral_text 10 n) \<Longrightarrow>
   atoi_loop m p v = atoi_loop m (p + of_nat (length (numeral_text 10 n))) (v * 10 ^ length (numeral_text 10 n) + of_nat n)"
proof (induction "10 :: nat" n arbitrary: v rule: numeral_text.induct)
  case (1 n)
  show ?case
  proof (cases "n < 10")
    case True
    with 1(2) show ?thesis using atoi_loop_digit [of n m p v] by (simp add: numeral_text.simps [of 10 n] block_Suc)
  next
    case False
    let ?t = "numeral_text 10 (n div 10)"
    have t: "numeral_text 10 n = ?t @ [digit_char (n mod 10)]" using False by (simp add: numeral_text.simps [of 10 n])
    have split: "block m p (length ?t + 1) = block m p (length ?t) @ [m (p + of_nat (length ?t))]" by (simp add: block_def)
    with 1(2) t have "block m p (length ?t) = map of_char ?t" "m (p + of_nat (length ?t)) = of_char (digit_char (n mod 10))" by simp_all
    then have step: "atoi_loop m p v = atoi_loop m (p + of_nat (length ?t) + 1) ((v * 10 ^ length ?t + of_nat (n div 10)) * 10 + of_nat (n mod 10))"
      using 1(1) [of v] False atoi_loop_digit [of "n mod 10" m "p + of_nat (length ?t)"] by simp
    have n: "of_nat (n div 10) * 10 + of_nat (n mod 10) = (of_nat n :: 32 word)"
      by (metis div_mult_mod_eq of_nat_add of_nat_mult of_nat_numeral)
    have val: "(v * 10 ^ length ?t + of_nat (n div 10)) * 10 + of_nat (n mod 10) = v * 10 ^ length (numeral_text 10 n) + of_nat n"
      unfolding n [symmetric] using t by (simp add: algebra_simps)
    show ?thesis unfolding step val using t by (simp add: ac_simps)
  qed
qed

lemma numeral_text_first: "\<exists>d < 10. \<exists>r. numeral_text 10 n = digit_char d # r"
proof (induction "10 :: nat" n rule: numeral_text.induct)
  case (1 n)
  then show ?case by (cases "n < 10") (auto simp: numeral_text.simps [of 10 n])
qed

lemma atoi_numeral:
  assumes "cstr m p (map of_char (numeral_text 10 n))"
  shows "atoi_space m p = Some p" "m p \<noteq> 45" "m p \<noteq> 43" "atoi_loop m p 0 = Some (of_nat n)"
proof -
  obtain d r where d: "d < 10" "numeral_text 10 n = digit_char d # r" using numeral_text_first by blast
  then have "m p = of_char (digit_char d)" using assms by simp
  with digit_value_char [OF d(1)] show "atoi_space m p = Some p" "m p \<noteq> 45" "m p \<noteq> 43"
    by (simp_all add: atoi_space.simps [of m p])
  have "block m p (length (numeral_text 10 n)) = map of_char (numeral_text 10 n)"
    using assms cstr_append [of m p "map of_char (numeral_text 10 n)" "[]"] by simp
  then have "atoi_loop m p 0 = atoi_loop m (p + of_nat (length (numeral_text 10 n))) (of_nat n)"
    using atoi_loop_text [of m p n 0] by simp
  moreover have "m (p + of_nat (length (numeral_text 10 n))) = 0" using cstr_end [OF assms] by simp
  ultimately show "atoi_loop m p 0 = Some (of_nat n)" by (simp add: atoi_loop.simps)
qed

definition decimal_text :: "32 word \<Rightarrow> string" where
  "decimal_text w = (if sint w < 0 then ''-'' @ numeral_text 10 (unat (- w)) else numeral_text 10 (unat w))"

lemma pf_printnum_decimal:
  "pf_base pf = 10 \<Longrightarrow> pf_printnum sendfunc pf =
     pf_printstuff sendfunc (if pf_sign pf \<noteq> 0 then ''-'' else []) [] (numeral_text 10 (unat (pf_num pf))) pf"
  by (simp add: pf_printnum_text)

lemma printf_decimal:
  "vprintf send_text [] ''%d'' [Arg_int w] = Ret (s32 (int (length (decimal_text w)))) (decimal_text w)"
  by (simp add: vprintf_def pf_endfield_def pf_send_def pf_getnum_def take_int_def pf_setbase_def pf_printnum_decimal
      pf_printstuff_def pf_print_def send_text_def decimal_text_def s32_add add.commute)

lemma atoi_decimal:
  assumes "cstr m p (map of_char (decimal_text w))"
  shows "atoi m p = Some (sint w)"
proof (cases "sint w < 0")
  case True
  then have c: "m p = 45" "cstr m (p + 1) (map of_char (numeral_text 10 (unat (- w))))"
    using assms by (simp_all add: decimal_text_def of_char_def)
  then have "atoi_space m p = Some p" by (simp add: atoi_space.simps)
  with c atoi_numeral(4) [OF c(2)] show ?thesis by (simp add: atoi_def Let_def)
next
  case False
  then have c: "cstr m p (map of_char (numeral_text 10 (unat w)))" using assms by (simp add: decimal_text_def)
  with atoi_numeral [OF c] show ?thesis by (simp add: atoi_def Let_def)
qed

section \<open>Properties\<close>

text \<open>
  C26. A format whose conversions match its arguments is always printed: the session neither stops
  on an assertion nor reads an argument of the wrong kind nor overruns the buffer in which it
  converts numbers. \<^verbatim>\<open>vsnprintf\<close> returns the length of the whole text, stores its first \<open>len - 1\<close>
  characters and a terminating null, and changes no other cell of the caller's buffer.
\<close>

theorem vsnprintf_truncates:
  assumes "0 < len" "len \<le> length buf" "args_ok False fmt ap" "CHR 0x00 \<notin> set fmt"
  shows "\<exists>s. vprintf send_text [] fmt ap = Ret (s32 (int (length s))) s \<and>
    vsnprintf buf len fmt ap =
      Ret (s32 (int (length s))) (take (len - 1) s @ CHR 0x00 # drop (Suc (min (len - 1) (length s))) buf)"
proof -
  let ?snp = "\<lparr>snp_buf = buf, buflen = len - 1, bufpos = 0\<rparr>"
  obtain s where s: "vprintf send_text [] fmt ap = Ret (s32 (int (length s))) s"
    using vprintf_succeeds [OF assms(3,4)] .
  have "in_buffer buf (len - 1) [] ?snp" using assms(2) by (simp add: in_buffer_def)
  from snp.vprintf_alike [OF this, of fmt ap] obtain p where
    p: "vprintf snprintf_send ?snp fmt ap = Ret (s32 (int (length s))) p" "in_buffer buf (len - 1) s p"
    unfolding s by (cases "vprintf snprintf_send ?snp fmt ap") auto
  have room: "min (len - 1) (length s) < length buf" using assms(1,2) by linarith
  then have "drop (min (len - 1) (length s)) buf = buf ! min (len - 1) (length s) # drop (Suc (min (len - 1) (length s))) buf"
    by (simp add: Cons_nth_drop_Suc)
  then have "(snp_buf p)[bufpos p := CHR 0x00] = take (len - 1) s @ CHR 0x00 # drop (Suc (min (len - 1) (length s))) buf"
    using p(2) by (simp add: in_buffer_def list_update_append min.commute)
  moreover have "bufpos p < length (snp_buf p)" using p(2) room by (simp add: in_buffer_def)
  ultimately show ?thesis using s p(1) assms(1) by (simp add: vsnprintf_def)
qed

text \<open>A width, a negative number, a string and a literal in a buffer of ten cells.\<close>

theorem vsnprintf_truncates_witness:
  "vsnprintf ''............'' 10 ''%3d,%s%%'' [Arg_int (- 7), Arg_str (Some ''abcdef'')] =
     Ret 11 ('' -7,abcde'' @ [CHR 0x00, CHR ''.'', CHR ''.''])"
proof -
  have "vprintf send_text [] ''%3d,%s%%'' [Arg_int (- 7), Arg_str (Some ''abcdef'')] = Ret 11 '' -7,abcdef%''"
    by (simp add: vprintf_def pf_endfield_def pf_send_def pf_modifier_def char_digit_def pf_getnum_def take_int_def take_str_def pf_setbase_def
        pf_printnum_decimal pf_printstuff_def pf_print_def send_text_def numeral_text.simps [of 10 7] digit_char_def Let_def)
  with vsnprintf_truncates [of 10 "''............''" "''%3d,%s%%''" "[Arg_int (- 7), Arg_str (Some ''abcdef'')]"]
  show ?thesis by simp
qed

text \<open>
  C29. Printing a number with \<^verbatim>\<open>%d\<close> and reading the text back with \<^verbatim>\<open>atoi\<close> gives the number, for every
  32-bit integer, the smallest negative one included.
\<close>

theorem atoi_inverts_printf:
  "\<exists>s. vprintf send_text [] ''%d'' [Arg_int w] = Ret (s32 (int (length s))) s \<and>
     (\<forall>m p. cstr m p (map of_char s) \<longrightarrow> atoi m p = Some (sint w))"
  using printf_decimal [of w] atoi_decimal [of _ _ w] by blast

theorem atoi_inverts_printf_witness:
  "atoi (\<lambda>a. if a = 100 then 45 else if a = 101 then 52 else if a = 102 then 50 else 0) 100 = Some (- 42)"
proof -
  have "decimal_text (- 42) = ''-42''"
    by (simp add: decimal_text_def numeral_text.simps [of 10 42] numeral_text.simps [of 10 4] digit_char_def)
  with printf_decimal [of "- 42"] have "vprintf send_text [] ''%d'' [Arg_int (- 42)] = Ret 3 ''-42''" by simp
  with atoi_inverts_printf [of "- 42"]
  have "cstr m p (map of_char ''-42'') \<Longrightarrow> atoi m p = Some (- 42)" for m p by auto
  then show ?thesis by (simp add: of_char_def)
qed

end
