(* ===== verification/LMalloc.thy ===== *)
theory LMalloc
  imports Kern_Prelude
begin

text \<open>
  The allocator of user programs, \<^verbatim>\<open>lib/libc/malloc.c\<close>, as built for the 32-bit MIPS machine. Memory is a map from
  word addresses to words; a header is two words whose bit-fields are allocated from the top bit, as on every big-endian
  machine: 29 bits of distance, a flag, and two bits of magic number. A call of \<^verbatim>\<open>errx\<close> or \<^verbatim>\<open>err\<close>, which ends the
  program, is \<^term>\<open>Panic\<close>. The output of \<^verbatim>\<open>MALLOCDEBUG\<close> is compiled out.

  The system call \<^verbatim>\<open>sbrk\<close> returns the old break and moves it, or returns -1 and does not; \<open>G\<close>, an argument, says
  when it succeeds.

  The heap is a list of blocks, each with its length in units of 8 bytes, header included, and whether it is in use
  (\<open>represents\<close>). On this list \<^verbatim>\<open>malloc\<close> is a first-fit search and \<^verbatim>\<open>free\<close> joins a block with its free neighbours.
\<close>

unbundle bit_operations_syntax

section \<open>Headers\<close>

record uheap =
  um :: "32 word \<Rightarrow> 32 word"
  heapbase :: "32 word"
  heaptop :: "32 word"
  ubrk :: "32 word"

type_synonym 'v mres = "('v, uheap) result"

definition MBLOCKSIZE :: "32 word" where "MBLOCKSIZE = 8"
definition MMAGIC :: "32 word" where "MMAGIC = 2"

definition mh_prevblock :: "uheap \<Rightarrow> 32 word \<Rightarrow> 32 word" where "mh_prevblock h mh = um h mh div 8"
definition mh_magic1 :: "uheap \<Rightarrow> 32 word \<Rightarrow> 32 word" where "mh_magic1 h mh = um h mh mod 4"
definition mh_nextblock :: "uheap \<Rightarrow> 32 word \<Rightarrow> 32 word" where "mh_nextblock h mh = um h (mh + 4) div 8"
definition mh_inuse :: "uheap \<Rightarrow> 32 word \<Rightarrow> bool" where "mh_inuse h mh \<longleftrightarrow> um h (mh + 4) div 4 mod 2 = 1"
definition mh_magic2 :: "uheap \<Rightarrow> 32 word \<Rightarrow> 32 word" where "mh_magic2 h mh = um h (mh + 4) mod 4"

text \<open>Assignments to fields; a value is cut to the 29 bits of its field.\<close>

definition set_prevblock :: "32 word \<Rightarrow> 32 word \<Rightarrow> uheap \<Rightarrow> uheap" where
  "set_prevblock mh v h = h\<lparr>um := (um h)(mh := 8 * v + um h mh mod 8)\<rparr>"

definition set_nextblock :: "32 word \<Rightarrow> 32 word \<Rightarrow> uheap \<Rightarrow> uheap" where
  "set_nextblock mh v h = h\<lparr>um := (um h)(mh + 4 := 8 * v + um h (mh + 4) mod 8)\<rparr>"

definition set_inuse :: "32 word \<Rightarrow> bool \<Rightarrow> uheap \<Rightarrow> uheap" where
  "set_inuse mh u h = h\<lparr>um := (um h)(mh + 4 := 8 * (um h (mh + 4) div 8) + (if u then 4 else 0) + um h (mh + 4) mod 4)\<rparr>"

text \<open>Assignment to all six fields, the padding and the magic numbers included.\<close>

definition put_header :: "32 word \<Rightarrow> 32 word \<Rightarrow> 32 word \<Rightarrow> bool \<Rightarrow> uheap \<Rightarrow> uheap" where
  "put_header mh prevblock nextblock inuse h =
     h\<lparr>um := (um h)(mh := 8 * prevblock + MMAGIC, mh + 4 := 8 * nextblock + (if inuse then 4 else 0) + MMAGIC)\<rparr>"

definition M_NEXTOFF :: "uheap \<Rightarrow> 32 word \<Rightarrow> 32 word" where "M_NEXTOFF h mh = push_bit 3 (mh_nextblock h mh)"
definition M_PREVOFF :: "uheap \<Rightarrow> 32 word \<Rightarrow> 32 word" where "M_PREVOFF h mh = push_bit 3 (mh_prevblock h mh)"
definition M_NEXT :: "uheap \<Rightarrow> 32 word \<Rightarrow> 32 word" where "M_NEXT h mh = mh + M_NEXTOFF h mh"
definition M_PREV :: "uheap \<Rightarrow> 32 word \<Rightarrow> 32 word" where "M_PREV h mh = mh - M_PREVOFF h mh"
definition M_DATA :: "32 word \<Rightarrow> 32 word" where "M_DATA mh = mh + MBLOCKSIZE"
definition M_SIZE :: "uheap \<Rightarrow> 32 word \<Rightarrow> 32 word" where "M_SIZE h mh = M_NEXTOFF h mh - MBLOCKSIZE"
definition M_OK :: "uheap \<Rightarrow> 32 word \<Rightarrow> bool" where "M_OK h mh \<longleftrightarrow> mh_magic1 h mh = MMAGIC \<and> mh_magic2 h mh = MMAGIC"
definition M_MKFIELD :: "32 word \<Rightarrow> 32 word" where "M_MKFIELD off = drop_bit 3 off"

section \<open>Allocation\<close>

definition user_sbrk :: "(32 word \<Rightarrow> 32 word \<Rightarrow> bool) \<Rightarrow> 32 word \<Rightarrow> uheap \<Rightarrow> 32 word \<times> uheap" where
  "user_sbrk G amount h = (if G (ubrk h) amount then (ubrk h, h\<lparr>ubrk := ubrk h + amount\<rparr>) else (- 1, h))"

definition malloc_init :: "(32 word \<Rightarrow> 32 word \<Rightarrow> bool) \<Rightarrow> uheap \<Rightarrow> unit mres" where
  "malloc_init G h =
     (if heapbase h \<noteq> 0 \<or> heaptop h \<noteq> 0 then Panic
      else case user_sbrk G 0 h of (x, h) \<Rightarrow>
        if x = - 1 \<or> x = 0 then Panic
        else let h = h\<lparr>heapbase := x, heaptop := x\<rparr>
        in if heapbase h mod MBLOCKSIZE = 0 then Ret () h
           else let adjust = MBLOCKSIZE - heapbase h mod MBLOCKSIZE
           in case user_sbrk G adjust h of (x, h) \<Rightarrow>
             if x = - 1 \<or> x \<noteq> heapbase h then Panic
             else Ret () (h\<lparr>heapbase := heapbase h + adjust, heaptop := heapbase h + adjust\<rparr>))"

definition malloc_sbrk :: "(32 word \<Rightarrow> 32 word \<Rightarrow> bool) \<Rightarrow> 32 word \<Rightarrow> uheap \<Rightarrow> 32 word mres" where
  "malloc_sbrk G sz h =
     (case user_sbrk G sz h of (x, h) \<Rightarrow>
        if x = - 1 then Ret 0 h
        else if x \<noteq> heaptop h then Panic
        else Ret x (h\<lparr>heaptop := heaptop h + sz\<rparr>))"

definition malloc_split :: "32 word \<Rightarrow> 32 word \<Rightarrow> uheap \<Rightarrow> unit mres" where
  "malloc_split mh sz h =
     (if sz mod MBLOCKSIZE \<noteq> 0 then Panic
      else if M_SIZE h mh - sz < 2 * MBLOCKSIZE then Ret () h
      else let mhnext = M_NEXT h mh; oldsize = M_SIZE h mh;
               h = set_nextblock mh (M_MKFIELD (sz + MBLOCKSIZE)) h;
               mhnew = M_NEXT h mh
      in if mhnew = mhnext then Panic
         else let h = put_header mhnew (M_MKFIELD (sz + MBLOCKSIZE)) (M_MKFIELD (oldsize - sz)) False h
         in Ret () (if mhnext \<noteq> heaptop h then set_prevblock mhnext (mh_nextblock h mhnew) h else h))"

text \<open>
  The search: \<^term>\<open>Inl p\<close> when a block was taken, \<^term>\<open>Inr (i, rightprevblock)\<close> when the loop ended. Headers of
  distance 0 would make the loop endless; \<open>scan_ends\<close> shows that the fuel is enough for every heap that is not corrupt.
\<close>

primrec malloc_scan :: "nat \<Rightarrow> 32 word \<Rightarrow> 32 word \<Rightarrow> 32 word \<Rightarrow> uheap \<Rightarrow> (32 word + 32 word \<times> 32 word) mres" where
  "malloc_scan 0 sz i rightprevblock h = Undef"
| "malloc_scan (Suc n) sz i rightprevblock h =
     (if \<not> i < heaptop h then Ret (Inr (i, rightprevblock)) h
      else if \<not> M_OK h i \<or> mh_prevblock h i \<noteq> rightprevblock then Panic
      else if mh_inuse h i \<or> M_SIZE h i < sz then malloc_scan n sz (i + M_NEXTOFF h i) (mh_nextblock h i) h
      else kbind (malloc_split i sz h) (\<lambda>_ h. Ret (Inl (M_DATA i)) (set_inuse i True h)))"

definition heap_vars_ok :: "uheap \<Rightarrow> bool" where
  "heap_vars_ok h \<longleftrightarrow> \<not> (heapbase h = 0 \<or> heaptop h = 0 \<or> heapbase h > heaptop h)"

definition malloc :: "(32 word \<Rightarrow> 32 word \<Rightarrow> bool) \<Rightarrow> 32 word \<Rightarrow> uheap \<Rightarrow> 32 word mres" where
  "malloc G sz h =
     kbind (if heapbase h = 0 then malloc_init G h else Ret () h) (\<lambda>_ h.
       if \<not> heap_vars_ok h then Panic
       else let sz = (sz + MBLOCKSIZE - 1) AND NOT (MBLOCKSIZE - 1)
       in kbind (malloc_scan (unat (heaptop h) + 1) sz (heapbase h) 0 h) (\<lambda>r h.
         case r of
           Inl p \<Rightarrow> Ret p h
         | Inr (i, rightprevblock) \<Rightarrow>
             if i \<noteq> heaptop h then Panic
             else kbind (malloc_sbrk G (sz + MBLOCKSIZE) h) (\<lambda>mh h.
               if mh = 0 then Ret 0 h
               else Ret (M_DATA mh) (put_header mh rightprevblock (M_MKFIELD (sz + MBLOCKSIZE)) True h))))"

section \<open>Release\<close>

primrec deadbeef_words :: "nat \<Rightarrow> 32 word \<Rightarrow> uheap \<Rightarrow> uheap" where
  "deadbeef_words 0 x h = h"
| "deadbeef_words (Suc n) x h = deadbeef_words n (x + 4) (h\<lparr>um := (um h)(x := 0xdeadbeef)\<rparr>)"

definition malloc_deadbeef :: "32 word \<Rightarrow> 32 word \<Rightarrow> uheap \<Rightarrow> uheap" where
  "malloc_deadbeef ptr sz h = deadbeef_words (unat (sz div 4)) ptr h"

definition malloc_trymerge :: "32 word \<Rightarrow> 32 word \<Rightarrow> uheap \<Rightarrow> unit mres" where
  "malloc_trymerge mh mhnext h =
     (if mh_nextblock h mh \<noteq> mh_prevblock h mhnext then Panic
      else if mh_inuse h mh \<or> mh_inuse h mhnext then Ret () h
      else let mhnextnext = M_NEXT h mhnext;
               h = set_nextblock mh (M_MKFIELD (MBLOCKSIZE + M_SIZE h mh + MBLOCKSIZE + M_SIZE h mhnext)) h;
               h = (if mhnextnext \<noteq> heaptop h then set_prevblock mhnextnext (mh_nextblock h mh) h else h)
      in Ret () (malloc_deadbeef mhnext MBLOCKSIZE h))"

text \<open>A header at an address that is not a multiple of 4 cannot be read: the machine stops the program with an address error.\<close>

definition free :: "32 word \<Rightarrow> uheap \<Rightarrow> unit mres" where
  "free x h =
     (if x = 0 then Ret () h
      else if \<not> heap_vars_ok h then Panic
      else if x < heapbase h \<or> x \<ge> heaptop h then Panic
      else let mh = x - MBLOCKSIZE
      in if mh mod 4 \<noteq> 0 then Undef
         else if \<not> M_OK h mh then Panic
         else if \<not> mh_inuse h mh then Panic
         else let h = malloc_deadbeef (M_DATA mh) (M_SIZE h mh) (set_inuse mh False h);
                  mhnext = M_NEXT h mh
         in kbind (if mhnext \<noteq> heaptop h then malloc_trymerge mh mhnext h else Ret () h) (\<lambda>_ h.
              if mh \<noteq> heapbase h then malloc_trymerge (M_PREV h mh) mh h else Ret () h))"

section \<open>The heap as a list of blocks\<close>

text \<open>The address of a unit, and the two words of a header.\<close>

definition uat :: "32 word \<Rightarrow> nat \<Rightarrow> 32 word" where
  "uat b k = b + of_nat (8 * k)"

definition w1 :: "nat \<Rightarrow> 32 word" where
  "w1 p = of_nat (8 * p + 2)"

definition w2 :: "nat \<Rightarrow> bool \<Rightarrow> 32 word" where
  "w2 n u = of_nat (8 * n + (if u then 6 else 2))"

fun chain :: "(32 word \<Rightarrow> 32 word) \<Rightarrow> 32 word \<Rightarrow> nat \<Rightarrow> nat \<Rightarrow> (nat \<times> bool) list \<Rightarrow> bool" where
  "chain m b k p [] = True"
| "chain m b k p ((n, u) # bs) = (m (uat b k) = w1 p \<and> m (uat b k + 4) = w2 n u \<and> 0 < n \<and> chain m b (k + n) n bs)"

definition units :: "(nat \<times> bool) list \<Rightarrow> nat" where
  "units bs = sum_list (map fst bs)"

definition coalesced :: "(nat \<times> bool) list \<Rightarrow> bool" where
  "coalesced bs \<longleftrightarrow> successively (\<lambda>x y. snd x \<or> snd y) bs"

definition represents :: "uheap \<Rightarrow> (nat \<times> bool) list \<Rightarrow> bool" where
  "represents h bs \<longleftrightarrow>
     heapbase h \<noteq> 0 \<and> heapbase h mod 8 = 0 \<and> ubrk h = heaptop h \<and> heaptop h = uat (heapbase h) (units bs) \<and>
     unat (heapbase h) + 8 * units bs < 2 ^ 31 \<and> chain (um h) (heapbase h) 0 0 bs \<and> coalesced bs"


text \<open>Arithmetic of addresses and headers. Lengths stay below \<open>2 ^ 28\<close>, so nothing is cut off.\<close>

lemma unat_of_nat32: "x < 2 ^ 32 \<Longrightarrow> unat (of_nat x :: 32 word) = x"
  by (simp add: unat_of_nat take_bit_nat_eq_self)

lemma of_nat_inj32: "a < 2 ^ 32 \<Longrightarrow> b < 2 ^ 32 \<Longrightarrow> (of_nat a = (of_nat b :: 32 word)) = (a = b)"
  using unat_of_nat32 by metis

lemma uat_eq: "i < 2 ^ 28 \<Longrightarrow> j < 2 ^ 28 \<Longrightarrow> (uat b i = uat b j) = (i = j)"
  using of_nat_inj32 [of "8 * i" "8 * j"] by (simp add: uat_def del: of_nat_mult)

lemma uat_eq4: "i < 2 ^ 28 \<Longrightarrow> j < 2 ^ 28 \<Longrightarrow> uat b i \<noteq> uat b j + 4"
proof
  assume "i < 2 ^ 28" "j < 2 ^ 28" "uat b i = uat b j + 4"
  then have "of_nat (8 * i) = (of_nat (8 * j + 4) :: 32 word)" by (simp add: uat_def)
  then show False using of_nat_inj32 [of "8 * i" "8 * j + 4"] \<open>i < 2 ^ 28\<close> \<open>j < 2 ^ 28\<close> by (simp add: del: of_nat_mult of_nat_add) presburger
qed

lemma uat_add: "uat b i + of_nat (8 * n) = uat b (i + n)"
  by (simp add: uat_def algebra_simps)

lemma unat_uat: "unat b + 8 * k < 2 ^ 31 \<Longrightarrow> unat (uat b k) = unat b + 8 * k"
proof -
  assume a: "unat b + 8 * k < 2 ^ 31"
  have "unat (of_nat (8 * k) :: 32 word) = 8 * k" using a by (intro unat_of_nat32) simp
  then show ?thesis unfolding uat_def using a by (subst unat_add_lem [THEN iffD1]) (simp_all del: of_nat_mult)
qed

lemma of_nat_div32: "x < 2 ^ 32 \<Longrightarrow> y < 2 ^ 32 \<Longrightarrow> (of_nat x :: 32 word) div of_nat y = of_nat (x div y)"
  by (simp add: word_arith_nat_div unat_of_nat32)

lemma of_nat_mod32: "x < 2 ^ 32 \<Longrightarrow> y < 2 ^ 32 \<Longrightarrow> (of_nat x :: 32 word) mod of_nat y = of_nat (x mod y)"
  by (simp add: word_arith_nat_mod unat_of_nat32)

lemma w1_fields:
  assumes "p < 2 ^ 28"
  shows "w1 p div 8 = of_nat p" "w1 p mod 4 = 2" "w1 p mod 8 = 2"
proof -
  have r: "(8 * p + 2) div 8 = p" "(8 * p + 2) mod 4 = 2" "(8 * p + 2) mod 8 = 2" by presburger+
  have x: "8 * p + 2 < 2 ^ 32" using assms by auto
  show "w1 p div 8 = of_nat p" unfolding w1_def using of_nat_div32 [OF x, of 8] unfolding r(1) by simp
  show "w1 p mod 4 = 2" unfolding w1_def using of_nat_mod32 [OF x, of 4] unfolding r(2) by simp
  show "w1 p mod 8 = 2" unfolding w1_def using of_nat_mod32 [OF x, of 8] unfolding r(3) by simp
qed

lemma w2_fields:
  assumes "n < 2 ^ 28"
  shows "w2 n u div 8 = of_nat n" "w2 n u mod 4 = 2" "w2 n u mod 8 = (if u then 6 else 2)" "w2 n u div 4 mod 2 = (if u then 1 else 0)"
proof -
  let ?x = "8 * n + (if u then 6 else 2)"
  have r: "?x div 8 = n" "?x mod 4 = 2" "?x mod 8 = (if u then 6 else 2)" "?x div 4 mod 2 = (if u then 1 else 0)" by (cases u; presburger)+
  have x: "?x < 2 ^ 32" "?x div 4 < 2 ^ 32" using assms by auto
  show "w2 n u div 8 = of_nat n" unfolding w2_def using of_nat_div32 [OF x(1), of 8] unfolding r(1) by simp
  show "w2 n u mod 4 = 2" unfolding w2_def using of_nat_mod32 [OF x(1), of 4] unfolding r(2) by simp
  show "w2 n u mod 8 = (if u then 6 else 2)" unfolding w2_def using of_nat_mod32 [OF x(1), of 8] unfolding r(3) by simp
  show "w2 n u div 4 mod 2 = (if u then 1 else 0)" unfolding w2_def using of_nat_div32 [OF x(1), of 4] of_nat_mod32 [OF x(2), of 2] unfolding r(4) by simp
qed

lemma MKFIELD_units: "k < 2 ^ 28 \<Longrightarrow> M_MKFIELD (of_nat (8 * k)) = of_nat k"
  using of_nat_div32 [of "8 * k" 8] by (simp add: M_MKFIELD_def drop_bit_eq_div del: of_nat_mult)

text \<open>What the macros give for a header of the list, and what the assignments make of it.\<close>

lemma header_prev:
  assumes "um h (uat b k) = w1 p" "p < 2 ^ 28"
  shows "mh_prevblock h (uat b k) = of_nat p" "mh_magic1 h (uat b k) = MMAGIC" "p \<le> k \<Longrightarrow> M_PREV h (uat b k) = uat b (k - p)"
proof -
  show 1: "mh_prevblock h (uat b k) = of_nat p" "mh_magic1 h (uat b k) = MMAGIC"
    using w1_fields [OF assms(2)] by (simp_all add: mh_prevblock_def mh_magic1_def MMAGIC_def assms(1))
  show "M_PREV h (uat b k) = uat b (k - p)" if "p \<le> k"
    using uat_add [of b "k - p" p] that by (simp add: M_PREV_def M_PREVOFF_def 1 push_bit_eq_mult algebra_simps)
qed

lemma header_next:
  assumes "um h (uat b k + 4) = w2 n u" "n < 2 ^ 28"
  shows "mh_nextblock h (uat b k) = of_nat n" "mh_inuse h (uat b k) = u" "mh_magic2 h (uat b k) = MMAGIC"
    "M_NEXTOFF h (uat b k) = of_nat (8 * n)" "M_NEXT h (uat b k) = uat b (k + n)" "0 < n \<Longrightarrow> M_SIZE h (uat b k) = of_nat (8 * (n - 1))"
proof -
  show 1: "mh_nextblock h (uat b k) = of_nat n" "mh_inuse h (uat b k) = u" "mh_magic2 h (uat b k) = MMAGIC"
    using w2_fields [OF assms(2)] by (simp_all add: mh_nextblock_def mh_inuse_def mh_magic2_def MMAGIC_def assms(1))
  show 2: "M_NEXTOFF h (uat b k) = of_nat (8 * n)" by (simp add: M_NEXTOFF_def 1 push_bit_eq_mult)
  show "M_NEXT h (uat b k) = uat b (k + n)" unfolding M_NEXT_def 2 by (rule uat_add)
  show "0 < n \<Longrightarrow> M_SIZE h (uat b k) = of_nat (8 * (n - 1))" unfolding M_SIZE_def 2 by (simp add: MBLOCKSIZE_def of_nat_diff algebra_simps)
qed

lemma set_prevblock_list: "um h (uat b k) = w1 p \<Longrightarrow> p < 2 ^ 28 \<Longrightarrow> set_prevblock (uat b k) (of_nat q) h = h\<lparr>um := (um h)(uat b k := w1 q)\<rparr>"
  unfolding set_prevblock_def using w1_fields(3) [of p] by (simp add: w1_def [of q] add.commute)

lemma set_nextblock_list:
  "um h (uat b k + 4) = w2 n u \<Longrightarrow> n < 2 ^ 28 \<Longrightarrow> set_nextblock (uat b k) (of_nat m) h = h\<lparr>um := (um h)(uat b k + 4 := w2 m u)\<rparr>"
  unfolding set_nextblock_def using w2_fields(3) [of n u] by (simp add: w2_def [of m] add.commute)

lemma set_inuse_list:
  "um h (uat b k + 4) = w2 n u \<Longrightarrow> n < 2 ^ 28 \<Longrightarrow> set_inuse (uat b k) v h = h\<lparr>um := (um h)(uat b k + 4 := w2 n v)\<rparr>"
  unfolding set_inuse_def using w2_fields(1,2) [of n u] by (simp add: w2_def [of n v] add.commute)

lemma put_header_list: "put_header a (of_nat p) (of_nat n) v h = h\<lparr>um := (um h)(a := w1 p, a + 4 := w2 n v)\<rparr>"
  unfolding put_header_def by (simp add: w1_def w2_def MMAGIC_def add.commute)

text \<open>Lists of blocks: the positions of their headers, the length of the last block, and changes elsewhere.\<close>

fun heads :: "nat \<Rightarrow> (nat \<times> bool) list \<Rightarrow> nat set" where
  "heads k [] = {}"
| "heads k ((n, u) # bs) = insert k (heads (k + n) bs)"

fun lastn :: "nat \<Rightarrow> (nat \<times> bool) list \<Rightarrow> nat" where
  "lastn p [] = p"
| "lastn p ((n, u) # bs) = lastn n bs"

lemma units_simps [simp]: "units [] = 0" "units ((n, u) # bs) = n + units bs" "units (bs @ cs) = units bs + units cs"
  by (simp_all add: units_def)

lemma heads_append: "heads k (xs @ ys) = heads k xs \<union> heads (k + units xs) ys"
  by (induction xs arbitrary: k) (auto simp: add.assoc)

lemma lastn_append [simp]: "lastn p (xs @ [(n, u)]) = n"
  by (induction xs arbitrary: p) auto

lemma chain_append: "chain m b k p (xs @ ys) \<longleftrightarrow> chain m b k p xs \<and> chain m b (k + units xs) (lastn p xs) ys"
  by (induction xs arbitrary: k p) (auto simp: add.assoc)

lemma heads_range: "chain m b k p bs \<Longrightarrow> j \<in> heads k bs \<Longrightarrow> k \<le> j \<and> j < k + units bs"
  by (induction bs arbitrary: k p) fastforce+

lemma units_pos: "chain m b k p bs \<Longrightarrow> bs \<noteq> [] \<Longrightarrow> 0 < units bs"
  by (cases bs) auto

lemma lastn_le: "lastn p bs \<le> p + units bs"
  by (induction p bs rule: lastn.induct) auto

lemma lastn_le_units: "lastn p bs \<le> (if bs = [] then p else units bs)"
  using lastn_le by (cases bs) auto

text \<open>Memory that has changed in some units only.\<close>

definition only :: "32 word \<Rightarrow> nat set \<Rightarrow> (32 word \<Rightarrow> 32 word) \<Rightarrow> (32 word \<Rightarrow> 32 word) \<Rightarrow> bool" where
  "only b S m m' \<longleftrightarrow> (\<forall>j < 2 ^ 28. j \<notin> S \<longrightarrow> m' (uat b j) = m (uat b j) \<and> m' (uat b j + 4) = m (uat b j + 4))"

lemma only_refl [simp]: "only b S m m"
  by (simp add: only_def)

lemma only_trans: "only b S m m' \<Longrightarrow> only b S m' m'' \<Longrightarrow> only b S m m''"
  by (simp add: only_def)

lemma only_mono: "only b S m m' \<Longrightarrow> S \<subseteq> T \<Longrightarrow> only b T m m'"
  by (auto simp: only_def)

lemma only_upd: "only b S m m' \<Longrightarrow> k \<in> S \<Longrightarrow> k < 2 ^ 28 \<Longrightarrow> only b S m (m'(uat b k := v))"
  "only b S m m' \<Longrightarrow> k \<in> S \<Longrightarrow> k < 2 ^ 28 \<Longrightarrow> only b S m (m'(uat b k + 4 := v))"
  unfolding only_def using uat_eq uat_eq4 [symmetric] uat_eq4 by (auto simp: fun_upd_apply)

lemma chain_only:
  "only b S m m' \<Longrightarrow> chain m b k p bs \<Longrightarrow> heads k bs \<inter> S = {} \<Longrightarrow> k + units bs \<le> 2 ^ 28 \<Longrightarrow> chain m' b k p bs"
  by (induction bs arbitrary: k p) (auto simp: only_def)

lemma chain_prev:
  assumes "only b S m m'" "chain m b k p bs" "heads k bs \<inter> S \<subseteq> {k}" "k + units bs \<le> 2 ^ 28"
    "bs \<noteq> [] \<Longrightarrow> m' (uat b k) = w1 q \<and> m' (uat b k + 4) = m (uat b k + 4)"
  shows "chain m' b k q bs"
proof (cases bs)
  case (Cons a cs)
  obtain n u where a: "a = (n, u)" by fastforce
  have "k \<notin> heads (k + n) cs" using heads_range [of m b "k + n" n cs k] assms(2) by (auto simp: Cons a)
  then have "heads (k + n) cs \<inter> S = {}" using assms(3) by (auto simp: Cons a)
  then show ?thesis using assms(2,4,5) chain_only [OF assms(1)] by (auto simp: Cons a)
qed simp

lemma chain_replace:
  assumes "chain m b 0 0 (xs @ ys)" "only b S m m'" "units (xs @ ys) \<le> 2 ^ 28" "\<forall>j < units xs. j \<notin> S" "chain m' b (units xs) (lastn 0 xs) zs"
  shows "chain m' b 0 0 (xs @ zs)"
proof -
  have x: "chain m b 0 0 xs" using assms(1) by (simp add: chain_append)
  then have "heads 0 xs \<inter> S = {}" using heads_range [OF x] assms(4) by fastforce
  then show ?thesis using chain_only [OF assms(2) x] assms(3,5) by (simp add: chain_append)
qed

lemma deadbeef_2: "malloc_deadbeef x MBLOCKSIZE h = h\<lparr>um := (um h)(x := 0xdeadbeef, x + 4 := 0xdeadbeef)\<rparr>"
proof -
  have "unat (MBLOCKSIZE div 4) = 2" by (simp add: MBLOCKSIZE_def)
  then show ?thesis unfolding malloc_deadbeef_def by (simp only: numeral_2_eq_2 deadbeef_words.simps) simp
qed

lemma trymerge_list:
  assumes c: "chain (um h) b 0 0 (xs @ (n, u) # (m, v) # ys)" and U: "units (xs @ (n, u) # (m, v) # ys) < 2 ^ 28"
    and top: "heaptop h = uat b (units (xs @ (n, u) # (m, v) # ys))"
  defines "k \<equiv> units xs"
  shows "\<exists>M. malloc_trymerge (uat b k) (uat b (k + n)) h = Ret () (h\<lparr>um := M\<rparr>) \<and> only b {k, k + n, k + n + m} (um h) M \<and>
    chain M b 0 0 (if u \<or> v then xs @ (n, u) # (m, v) # ys else xs @ (n + m, False) # ys) \<and>
    (if u \<or> v then M = um h else M (uat b (k + n)) = 0xdeadbeef \<and> M (uat b (k + n) + 4) = 0xdeadbeef)"
proof -
  have H: "um h (uat b k) = w1 (lastn 0 xs)" "um h (uat b k + 4) = w2 n u" "um h (uat b (k + n)) = w1 n" "um h (uat b (k + n) + 4) = w2 m v"
    and pos: "0 < n" "0 < m" and ys: "chain (um h) b (k + n + m) m ys"
    using c by (simp_all add: chain_append k_def)
  have B: "n < 2 ^ 28" "m < 2 ^ 28" "k < 2 ^ 28" "k + n < 2 ^ 28" "k + n + m + units ys < 2 ^ 28" "lastn 0 xs < 2 ^ 28"
    using U lastn_le [of 0 xs] by (simp_all add: k_def)
  note N = header_next [OF H(2) B(1)] and N' = header_next [OF H(4) B(2)] and P' = header_prev [OF H(3) B(1)]
  show ?thesis
  proof (cases "u \<or> v")
    case True
    then show ?thesis using c by (intro exI [of _ "um h"]) (auto simp: malloc_trymerge_def N N' P' k_def [symmetric])
  next
    case False
    define m1 where "m1 = (um h)(uat b k + 4 := w2 (n + m) False)"
    define m2 where "m2 = (if ys = [] then m1 else m1(uat b (k + n + m) := w1 (n + m)))"
    define M where "M = m2(uat b (k + n) := 0xdeadbeef, uat b (k + n) + 4 := 0xdeadbeef)"
    have ne: "uat b i \<noteq> uat b j" if "i < j" "j \<le> k + n + m" for i j using uat_eq [of i j b] that B(5) by simp
    have ne4: "uat b i \<noteq> uat b j + 4" "uat b j + 4 \<noteq> uat b i" if "i \<le> k + n + m" "j \<le> k + n + m" for i j
      using uat_eq4 [of i j b] that B(5) by auto
    note D = ne [of k "k + n"] ne [of k "k + n + m"] ne [of "k + n" "k + n + m"] ne4 [of k k] ne4 [of k "k + n"] ne4 [of k "k + n + m"]
      ne4 [of "k + n" k] ne4 [of "k + n" "k + n"] ne4 [of "k + n" "k + n + m"] ne4 [of "k + n + m" k] ne4 [of "k + n + m" "k + n"] ne4 [of "k + n + m" "k + n + m"]
    let ?h1 = "h\<lparr>um := m1\<rparr>"
    have h1: "set_nextblock (uat b k) (M_MKFIELD (MBLOCKSIZE + M_SIZE h (uat b k) + MBLOCKSIZE + M_SIZE h (uat b (k + n)))) h = ?h1"
    proof -
      have "8 + of_nat (8 * (n - 1)) + 8 + of_nat (8 * (m - 1)) = (of_nat (8 * (n + m)) :: 32 word)"
        using pos by (simp add: of_nat_diff algebra_simps)
      then show ?thesis unfolding N(6) [OF pos(1)] N'(6) [OF pos(2)] MBLOCKSIZE_def
        using MKFIELD_units [of "n + m"] set_nextblock_list [OF H(2) B(1), of "n + m"] B(5) False by (simp add: m1_def)
    qed
    have n1: "mh_nextblock ?h1 (uat b k) = of_nat (n + m)" using B(5) header_next(1) [of ?h1 b k "n + m" False] by (simp add: m1_def)
    have t: "uat b (k + n + m) = heaptop h \<longleftrightarrow> ys = []"
    proof -
      have e: "heaptop h = uat b (k + n + m + units ys)" using top by (simp add: k_def add.assoc)
      show ?thesis unfolding e using uat_eq [of "k + n + m" "k + n + m + units ys" b] B(5) units_pos [OF ys] by (cases "ys = []") simp_all
    qed
    have p1: "set_prevblock (uat b (k + n + m)) (of_nat (n + m)) ?h1 = ?h1\<lparr>um := m1(uat b (k + n + m) := w1 (n + m))\<rparr>" if "ys \<noteq> []"
    proof -
      have "um ?h1 (uat b (k + n + m)) = w1 m" using ys that D(7,8) pos unfolding m1_def by (cases ys) (auto simp: ne4)
      then show ?thesis using set_prevblock_list [of ?h1 b "k + n + m" m "n + m"] B(2) by simp
    qed
    have eq: "malloc_trymerge (uat b k) (uat b (k + n)) h = Ret () (h\<lparr>um := M\<rparr>)"
      using False unfolding malloc_trymerge_def Let_def deadbeef_2 N'(5) h1 n1
      by (cases "ys = []") (simp_all add: N N' P' t p1 M_def m2_def del: of_nat_add)
    have ex: "only b {k, k + n, k + n + m} (um h) M" unfolding M_def m2_def m1_def using B(3-5) by (cases "ys = []") (simp_all add: only_upd)
    have "chain M b (k + n + m) (n + m) ys"
    proof (rule chain_prev [OF ex ys])
      show "heads (k + n + m) ys \<inter> {k, k + n, k + n + m} \<subseteq> {k + n + m}" using heads_range [OF ys] pos by fastforce
      show "M (uat b (k + n + m)) = w1 (n + m) \<and> M (uat b (k + n + m) + 4) = um h (uat b (k + n + m) + 4)" if "ys \<noteq> []"
        using that D pos unfolding M_def m2_def m1_def by simp
    qed (use B(5) in simp)
    moreover have "M (uat b k) = w1 (lastn 0 xs)" "M (uat b k + 4) = w2 (n + m) False"
      using H(1) D pos unfolding M_def m2_def m1_def by simp_all
    ultimately have "chain M b 0 0 (xs @ (n + m, False) # ys)"
      using chain_replace [OF c ex, of "(n + m, False) # ys"] U pos by (simp add: k_def [symmetric] add.assoc)
    moreover have "M (uat b (k + n)) = 0xdeadbeef" "M (uat b (k + n) + 4) = 0xdeadbeef" using D unfolding M_def by simp_all
    ultimately show ?thesis using eq ex False by (intro exI [of _ M]) simp
  qed
qed

text \<open>The blocks in use, with their positions.\<close>

fun live :: "nat \<Rightarrow> (nat \<times> bool) list \<Rightarrow> (nat \<times> nat) set" where
  "live k [] = {}"
| "live k ((n, u) # bs) = (if u then insert (k, n) (live (k + n) bs) else live (k + n) bs)"

lemma live_append: "live k (xs @ ys) = live k xs \<union> live (k + units xs) ys"
  by (induction xs arbitrary: k) (auto simp: add.assoc)

lemma live_split: "(k, n) \<in> live i bs \<Longrightarrow> \<exists>xs ys. bs = xs @ (n, True) # ys \<and> k = i + units xs"
proof (induction bs arbitrary: i)
  case (Cons a bs)
  obtain m u where a: "a = (m, u)" by fastforce
  show ?case
  proof (cases "u \<and> (k, n) = (i, m)")
    case True
    then show ?thesis by (intro exI [of _ "[]"] exI [of _ bs]) (simp add: a)
  next
    case False
    with Cons.prems have "(k, n) \<in> live (i + m) bs" by (auto simp: a split: if_splits)
    from Cons.IH [OF this] obtain xs ys where "bs = xs @ (n, True) # ys" "k = i + m + units xs" by blast
    then show ?thesis by (intro exI [of _ "a # xs"] exI [of _ ys]) (simp add: a)
  qed
qed simp

lemma live_range: "(k, n) \<in> live i bs \<Longrightarrow> i \<le> k \<and> k + n \<le> i + units bs"
  using live_split by fastforce

lemma inside_not_head:
  assumes "chain m b 0 0 bs" "(k, n) \<in> live 0 bs" "k < j" "j < k + n"
  shows "j \<notin> heads 0 bs"
proof -
  obtain xs ys where bs: "bs = xs @ (n, True) # ys" "k = units xs" using live_split [OF assms(2)] by auto
  have "chain m b 0 0 xs" "chain m b (k + n) n ys" using assms(1) by (simp_all add: bs chain_append)
  then show ?thesis using heads_range [of m b 0 0 xs j] heads_range [of m b "k + n" n ys j] assms(3,4) by (auto simp: bs heads_append)
qed

lemma live_disjoint:
  assumes "chain m b 0 0 bs" "(k, n) \<in> live 0 bs" "(k', n') \<in> live 0 bs" "(k', n') \<noteq> (k, n)"
  shows "k' + n' \<le> k \<or> k + n \<le> k'"
proof -
  obtain xs ys where bs: "bs = xs @ (n, True) # ys" "k = units xs" using live_split [OF assms(2)] by auto
  then show ?thesis using assms(3,4) live_range [of k' n' 0 xs] live_range [of k' n' "k + n" ys] by (auto simp: live_append)
qed

lemma uat_Suc: "uat b j + 8 = uat b (Suc j)" "uat b j + 4 + 4 = uat b (Suc j)"
  by (simp_all add: uat_def)

lemma deadbeef_units:
  "j + c \<le> 2 ^ 28 \<Longrightarrow> \<exists>M. deadbeef_words (2 * c) (uat b j) h = h\<lparr>um := M\<rparr> \<and> only b {j ..< j + c} (um h) M"
proof (induction c arbitrary: j h)
  case 0
  show ?case by (intro exI [of _ "um h"]) simp
next
  case (Suc c)
  define m where "m = (um h)(uat b j := 0xdeadbeef, uat b j + 4 := 0xdeadbeef)"
  obtain M where M: "deadbeef_words (2 * c) (uat b (Suc j)) (h\<lparr>um := m\<rparr>) = h\<lparr>um := M\<rparr>" "only b {Suc j ..< Suc j + c} m M"
    using Suc.IH [of "Suc j" "h\<lparr>um := m\<rparr>"] Suc.prems by auto
  have "only b {j ..< j + Suc c} (um h) m" unfolding m_def using Suc.prems by (intro only_upd only_refl) simp_all
  then have "only b {j ..< j + Suc c} (um h) M" by (rule only_trans) (rule only_mono [OF M(2)], auto)
  moreover have "deadbeef_words (2 * Suc c) (uat b j) h = deadbeef_words (2 * c) (uat b (Suc j)) (h\<lparr>um := m\<rparr>)"
    by (simp add: uat_Suc m_def)
  ultimately show ?case using M(1) by auto
qed

lemma coalesced_append:
  "coalesced (xs @ (n, u) # ys) \<longleftrightarrow> coalesced xs \<and> coalesced ys \<and> (xs = [] \<or> u \<or> snd (last xs)) \<and> (ys = [] \<or> u \<or> snd (hd ys))"
  by (cases ys) (auto simp: coalesced_def successively_append_iff)

lemma merge_up:
  assumes c: "chain (um h) b 0 0 (xs @ (n, False) # ys)" and U: "units (xs @ (n, False) # ys) < 2 ^ 28"
    and top: "heaptop h = uat b (units (xs @ (n, False) # ys))" and co: "coalesced ys"
  defines "k \<equiv> units xs"
  shows "\<exists>M N zs. (if uat b (k + n) \<noteq> heaptop h then malloc_trymerge (uat b k) (uat b (k + n)) h else Ret () h) = Ret () (h\<lparr>um := M\<rparr>) \<and>
    only b (heads k ((n, False) # ys) \<union> {units (xs @ (n, False) # ys)}) (um h) M \<and> chain M b 0 0 (xs @ (N, False) # zs) \<and>
    N + units zs = n + units ys \<and> live (k + N) zs = live (k + n) ys \<and> coalesced ((N, False) # zs) \<and> heads (k + N) zs \<subseteq> heads (k + n) ys"
proof (cases ys)
  case Nil
  then show ?thesis using c top by (intro exI [of _ "um h"] exI [of _ n] exI [of _ "[]"]) (simp add: k_def coalesced_def)
next
  case (Cons a zs)
  obtain m v where a: "a = (m, v)" by fastforce
  have "0 < m" using c by (simp add: chain_append Cons a)
  then have ne: "uat b (k + n) \<noteq> heaptop h" using uat_eq [of "k + n" "k + n + m + units zs" b] U unfolding top by (simp add: Cons a k_def add.assoc)
  obtain M where M: "malloc_trymerge (uat b k) (uat b (k + n)) h = Ret () (h\<lparr>um := M\<rparr>)" "only b {k, k + n, k + n + m} (um h) M"
    "chain M b 0 0 (if v then xs @ (n, False) # (m, v) # zs else xs @ (n + m, False) # zs)"
    using trymerge_list [OF c [unfolded Cons a] U [unfolded Cons a] top [unfolded Cons a]] unfolding k_def by auto
  have "k + n + m \<in> heads k ((n, False) # ys) \<union> {units (xs @ (n, False) # ys)}" by (cases zs) (auto simp: Cons a k_def add.assoc)
  then have o: "only b (heads k ((n, False) # ys) \<union> {units (xs @ (n, False) # ys)}) (um h) M"
    by (intro only_mono [OF M(2)]) (auto simp: Cons a)
  show ?thesis
  proof (cases v)
    case True
    then show ?thesis using M(1,3) o ne co by (intro exI [of _ M] exI [of _ n] exI [of _ ys]) (simp add: Cons a coalesced_def)
  next
    case False
    then show ?thesis using M(1,3) o ne co
      by (intro exI [of _ M] exI [of _ "n + m"] exI [of _ zs]) (cases zs; auto simp: Cons a coalesced_def add.assoc)
  qed
qed

lemma merge_down:
  assumes c: "chain (um h) b 0 0 (xs @ (n, False) # ys)" and U: "units (xs @ (n, False) # ys) < 2 ^ 28"
    and top: "heaptop h = uat b (units (xs @ (n, False) # ys))" and co: "coalesced xs" "coalesced ((n, False) # ys)"
  defines "k \<equiv> units xs"
  shows "\<exists>M bs. (if uat b k \<noteq> b then malloc_trymerge (M_PREV h (uat b k)) (uat b k) h else Ret () h) = Ret () (h\<lparr>um := M\<rparr>) \<and>
    only b (heads 0 xs \<union> {k, k + n}) (um h) M \<and> chain M b 0 0 bs \<and> units bs = units (xs @ (n, False) # ys) \<and>
    live 0 bs = live 0 (xs @ (n, False) # ys) \<and> coalesced bs \<and> (M (uat b k + 4) = w2 n False \<or> M (uat b k) = 0xdeadbeef)"
proof (cases xs rule: rev_cases)
  case Nil
  then show ?thesis using c co(2) by (intro exI [of _ "um h"] exI [of _ "(n, False) # ys"]) (simp add: k_def uat_def)
next
  case (snoc zs a)
  obtain p w where a: "a = (p, w)" by fastforce
  have p: "0 < p" and H: "um h (uat b k) = w1 p" "um h (uat b k + 4) = w2 n False" using c by (simp_all add: chain_append snoc a k_def)
  have k: "k = units zs + p" by (simp add: k_def snoc a)
  have B: "p < 2 ^ 28" "k < 2 ^ 28" using U by (simp_all add: snoc a k_def)
  have ne: "uat b k \<noteq> b" using uat_eq [of k 0 b] B(2) p by (simp add: k uat_def)
  have prev: "M_PREV h (uat b k) = uat b (units zs)" using header_prev(3) [OF H(1) B(1)] by (simp add: k)
  obtain M where M: "malloc_trymerge (uat b (units zs)) (uat b k) h = Ret () (h\<lparr>um := M\<rparr>)" "only b {units zs, k, k + n} (um h) M"
    "chain M b 0 0 (if w then zs @ (p, w) # (n, False) # ys else zs @ (p + n, False) # ys)" "if w then M = um h else M (uat b k) = 0xdeadbeef"
    using trymerge_list [of h b zs p w n False ys] c U top by (auto simp: snoc a k add.assoc)
  have o: "only b (heads 0 xs \<union> {k, k + n}) (um h) M" by (rule only_mono [OF M(2)]) (auto simp: snoc a heads_append)
  show ?thesis
  proof (cases w)
    case True
    then show ?thesis using M(1,3,4) o ne prev co H(2)
      by (intro exI [of _ M] exI [of _ "xs @ (n, False) # ys"]) (auto simp: snoc a coalesced_def successively_append_iff)
  next
    case False
    then show ?thesis using M(1,3,4) o ne prev co
      by (intro exI [of _ M] exI [of _ "zs @ (p + n, False) # ys"])
        (cases ys; auto simp: snoc a coalesced_def successively_append_iff live_append add.assoc)
  qed
qed

lemma release_list:
  assumes c: "chain (um h) b 0 0 (xs @ (n, True) # ys)" and U: "units (xs @ (n, True) # ys) < 2 ^ 28"
  defines "k \<equiv> units xs"
  shows "\<exists>M. malloc_deadbeef (M_DATA (uat b k)) (M_SIZE h (uat b k)) (set_inuse (uat b k) False h) = h\<lparr>um := M\<rparr> \<and>
    only b {k ..< k + n} (um h) M \<and> chain M b 0 0 (xs @ (n, False) # ys)"
proof -
  have H: "um h (uat b k) = w1 (lastn 0 xs)" "um h (uat b k + 4) = w2 n True" and n: "0 < n" and ys: "chain (um h) b (k + n) n ys"
    using c by (simp_all add: chain_append k_def)
  have B: "n < 2 ^ 28" "k + n + units ys < 2 ^ 28" using U by (simp_all add: k_def)
  define m where "m = (um h)(uat b k + 4 := w2 n False)"
  have "of_nat (8 * (n - 1)) div 4 = (of_nat (2 * (n - 1)) :: 32 word)"
    using of_nat_div32 [of "8 * (n - 1)" 4] B(1) by (simp del: of_nat_mult)
  then have sz: "unat (M_SIZE h (uat b k) div 4) = 2 * (n - 1)"
    unfolding header_next(6) [OF H(2) B(1) n] using unat_of_nat32 [of "2 * (n - 1)"] B(1) by (simp del: of_nat_mult)
  obtain M where M: "deadbeef_words (2 * (n - 1)) (uat b (Suc k)) (h\<lparr>um := m\<rparr>) = h\<lparr>um := M\<rparr>" "only b {Suc k ..< Suc k + (n - 1)} m M"
    using deadbeef_units [of "Suc k" "n - 1" b "h\<lparr>um := m\<rparr>"] B n by auto
  have "only b {k ..< k + n} (um h) m" unfolding m_def using B n by (intro only_upd only_refl) simp_all
  then have o: "only b {k ..< k + n} (um h) M" by (rule only_trans) (rule only_mono [OF M(2)], use n in auto)
  have "M (uat b k) = m (uat b k)" "M (uat b k + 4) = m (uat b k + 4)" using M(2) B unfolding only_def by simp_all
  moreover have "chain M b (k + n) n ys" using chain_only [OF o ys] heads_range [OF ys] B by fastforce
  ultimately have "chain M b 0 0 (xs @ (n, False) # ys)"
    using chain_replace [OF c o, of "(n, False) # ys"] U n H(1) uat_eq4 [of k k b] B by (simp add: m_def k_def [symmetric])
  moreover have "malloc_deadbeef (M_DATA (uat b k)) (M_SIZE h (uat b k)) (set_inuse (uat b k) False h) = h\<lparr>um := M\<rparr>"
    unfolding set_inuse_list [OF H(2) B(1)] malloc_deadbeef_def sz M_DATA_def MBLOCKSIZE_def uat_Suc m_def [symmetric] by (rule M(1))
  ultimately show ?thesis using o by blast
qed

text \<open>The words of the blocks in use are the same in two memories.\<close>

definition keeps_data :: "32 word \<Rightarrow> (nat \<times> bool) list \<Rightarrow> (32 word \<Rightarrow> 32 word) \<Rightarrow> (32 word \<Rightarrow> 32 word) \<Rightarrow> bool" where
  "keeps_data b bs m m' \<longleftrightarrow>
     (\<forall>(k, n) \<in> live 0 bs. \<forall>j. k < j \<and> j < k + n \<longrightarrow> m' (uat b j) = m (uat b j) \<and> m' (uat b j + 4) = m (uat b j + 4))"

lemma represents_bounds:
  assumes "represents h bs"
  shows "units bs < 2 ^ 28" "heapbase h < heaptop h \<longleftrightarrow> bs \<noteq> []" "heap_vars_ok h"
    "j \<le> units bs \<Longrightarrow> uat (heapbase h) j < heaptop h \<longleftrightarrow> j < units bs" "j \<le> units bs \<Longrightarrow> heapbase h \<le> uat (heapbase h) j"
proof -
  have r: "heapbase h \<noteq> 0" "heaptop h = uat (heapbase h) (units bs)" "unat (heapbase h) + 8 * units bs < 2 ^ 31" "chain (um h) (heapbase h) 0 0 bs"
    using assms by (simp_all add: represents_def)
  show "units bs < 2 ^ 28" using r(3) by simp
  have u: "unat (uat (heapbase h) j) = unat (heapbase h) + 8 * j" if "j \<le> units bs" for j using unat_uat [of "heapbase h" j] r(3) that by simp
  show "uat (heapbase h) j < heaptop h \<longleftrightarrow> j < units bs" if "j \<le> units bs" for j
    using u [OF that] u [of "units bs"] by (simp add: word_less_nat_alt r(2))
  show "heapbase h \<le> uat (heapbase h) j" if "j \<le> units bs" for j using u [OF that] by (simp add: word_le_nat_alt)
  show "heapbase h < heaptop h \<longleftrightarrow> bs \<noteq> []" using u [of "units bs"] units_pos [OF r(4)] by (cases "bs = []") (simp_all add: word_less_nat_alt r(2))
  have "0 < unat (heapbase h)" using r(1) by (simp add: unat_gt_0)
  then have "heaptop h \<noteq> 0" using u [of "units bs"] r(2) by auto
  moreover have "heapbase h \<le> heaptop h" using u [of "units bs"] by (simp add: word_le_nat_alt r(2))
  ultimately show "heap_vars_ok h" using r(1) by (simp add: heap_vars_ok_def not_less)
qed

lemma uat_mod4:
  assumes "b mod 8 = 0" "unat b + 8 * k < 2 ^ 31"
  shows "uat b k mod 4 = 0"
proof -
  have "unat b mod 8 = 0" using arg_cong [OF assms(1), of unat] by (simp add: unat_mod)
  then have "(unat b + 8 * k) mod 4 = 0" by presburger
  then have "unat (uat b k mod 4) = 0" using unat_uat [OF assms(2)] by (simp add: unat_mod)
  then show ?thesis by (simp add: unat_eq_zero)
qed

lemma live_not_self:
  assumes "chain m b 0 0 (xs @ (n, True) # ys)"
  shows "live 0 (xs @ (n, True) # ys) - {(units xs, n)} = live 0 xs \<union> live (units xs + n) ys"
proof -
  have "0 < n" using assms by (simp add: chain_append)
  then show ?thesis using live_range [of "units xs" n 0 xs] live_range [of "units xs" n "units xs + n" ys] by (auto simp: live_append)
qed

lemma free_list:
  assumes r: "represents h bs" and l: "(k, n) \<in> live 0 bs" "k + 1 < units bs"
  defines "b \<equiv> heapbase h"
  shows "\<exists>M bs'. free (uat b (k + 1)) h = Ret () (h\<lparr>um := M\<rparr>) \<and> represents (h\<lparr>um := M\<rparr>) bs' \<and> units bs' = units bs \<and> live 0 bs' = live 0 bs - {(k, n)} \<and>
    only b ({k ..< k + n} \<union> heads 0 bs \<union> {units bs}) (um h) M \<and> (\<not> mh_inuse (h\<lparr>um := M\<rparr>) (uat b k) \<or> M (uat b k) = 0xdeadbeef)"
proof -
  note B = represents_bounds [OF r]
  obtain xs ys where bs: "bs = xs @ (n, True) # ys" and k: "k = units xs" using live_split [OF l(1)] by auto
  have R: "b \<noteq> 0" "b mod 8 = 0" "ubrk h = heaptop h" "heaptop h = uat b (units bs)" "unat b + 8 * units bs < 2 ^ 31" "chain (um h) b 0 0 bs" "coalesced bs"
    using r by (simp_all add: represents_def b_def)
  have co: "coalesced xs" "coalesced ys" using R(7) by (simp_all add: bs coalesced_append)
  have H: "um h (uat b k) = w1 (lastn 0 xs)" "um h (uat b k + 4) = w2 n True" using R(6) by (simp_all add: bs k chain_append)
  have nb: "n < 2 ^ 28" "lastn 0 xs < 2 ^ 28" using B(1) lastn_le [of 0 xs] by (simp_all add: bs)
  let ?S = "{k ..< k + n} \<union> heads 0 bs \<union> {units bs}"
  obtain M1 where 1: "malloc_deadbeef (M_DATA (uat b k)) (M_SIZE h (uat b k)) (set_inuse (uat b k) False h) = h\<lparr>um := M1\<rparr>"
    "only b {k ..< k + n} (um h) M1" "chain M1 b 0 0 (xs @ (n, False) # ys)"
    using release_list [of h b xs n ys] R(6) B(1) by (auto simp: bs k)
  have U: "units (xs @ (n, False) # ys) = units bs" by (simp add: bs)
  have next1: "M_NEXT (h\<lparr>um := M1\<rparr>) (uat b k) = uat b (k + n)"
    using header_next(5) [of "h\<lparr>um := M1\<rparr>" b k n False] 1(3) nb(1) by (simp add: chain_append k)
  obtain M2 N zs where 2: "(if uat b (k + n) \<noteq> heaptop h then malloc_trymerge (uat b k) (uat b (k + n)) (h\<lparr>um := M1\<rparr>) else Ret () (h\<lparr>um := M1\<rparr>)) = Ret () (h\<lparr>um := M2\<rparr>)"
    "only b (heads k ((n, False) # ys) \<union> {units bs}) M1 M2" "chain M2 b 0 0 (xs @ (N, False) # zs)" "N + units zs = n + units ys"
    "live (k + N) zs = live (k + n) ys" "coalesced ((N, False) # zs)" "heads (k + N) zs \<subseteq> heads (k + n) ys"
    using merge_up [of "h\<lparr>um := M1\<rparr>" b xs n ys] 1(3) B(1) R(4) co(2) unfolding U k [symmetric] by auto
  have U2: "units (xs @ (N, False) # zs) = units bs" using 2(4) by (simp add: bs)
  obtain M bs' where 3: "(if uat b k \<noteq> b then malloc_trymerge (M_PREV (h\<lparr>um := M2\<rparr>) (uat b k)) (uat b k) (h\<lparr>um := M2\<rparr>) else Ret () (h\<lparr>um := M2\<rparr>)) = Ret () (h\<lparr>um := M\<rparr>)"
    "only b (heads 0 xs \<union> {k, k + N}) M2 M" "chain M b 0 0 bs'" "units bs' = units bs" "live 0 bs' = live 0 (xs @ (N, False) # zs)" "coalesced bs'"
    "M (uat b k + 4) = w2 N False \<or> M (uat b k) = 0xdeadbeef"
    using merge_down [of "h\<lparr>um := M2\<rparr>" b xs N zs] 2(3,6) B(1) R(4) co(1) unfolding U2 k [symmetric] by auto
  have "free (uat b (k + 1)) h = Ret () (h\<lparr>um := M\<rparr>)"
  proof -
    have x: "uat b (k + 1) - MBLOCKSIZE = uat b k" using uat_Suc(1) [of b k] by (simp add: MBLOCKSIZE_def algebra_simps)
    have le: "b \<le> uat b (k + 1)" "uat b (k + 1) < heaptop h" using B(4,5) [of "k + 1"] l(2) by (simp_all add: b_def)
    then have "uat b (k + 1) \<noteq> 0" using R(1) by auto
    moreover have "M_OK h (uat b k)" using header_prev(2) [OF H(1) nb(2)] header_next(3) [OF H(2) nb(1)] by (simp add: M_OK_def)
    moreover have "uat b k mod 4 = 0" using uat_mod4 [OF R(2), of k] R(5) l(2) by simp
    ultimately show ?thesis using B(3) le header_next(2) [OF H(2) nb(1)] 2(1) 3(1)
      unfolding free_def Let_def x 1(1) next1 by (simp add: b_def [symmetric] not_less not_le)
  qed
  moreover have "only b ?S (um h) M"
  proof -
    have "k + N \<in> ?S" using 2(4,7) by (cases zs) (auto simp: bs k heads_append)
    then have s: "{k ..< k + n} \<subseteq> ?S" "heads k ((n, False) # ys) \<union> {units bs} \<subseteq> ?S" "heads 0 xs \<union> {k, k + N} \<subseteq> ?S"
      by (auto simp: bs k heads_append)
    show ?thesis by (rule only_trans [OF only_mono [OF 1(2) s(1)] only_trans [OF only_mono [OF 2(2) s(2)] only_mono [OF 3(2) s(3)]]])
  qed
  moreover have "represents (h\<lparr>um := M\<rparr>) bs'" using 3(3,4,6) R by (simp add: represents_def b_def)
  moreover have "live 0 bs' = live 0 bs - {(k, n)}" using 3(5) 2(5) live_not_self [of "um h" b xs n ys] R(6) by (simp add: bs k live_append)
  moreover have "\<not> mh_inuse (h\<lparr>um := M\<rparr>) (uat b k) \<or> M (uat b k) = 0xdeadbeef"
    using 3(7) header_next(2) [of "h\<lparr>um := M\<rparr>" b k N False] U2 B(1) by auto
  ultimately show ?thesis using 3(4) by blast
qed

lemma free_again:
  assumes "represents h bs" "k + 1 < units bs" "\<not> mh_inuse h (uat (heapbase h) k) \<or> um h (uat (heapbase h) k) = 0xdeadbeef"
  shows "free (uat (heapbase h) (k + 1)) h = Panic"
proof -
  have x: "uat (heapbase h) (k + 1) - MBLOCKSIZE = uat (heapbase h) k" using uat_Suc(1) [of "heapbase h" k] by (simp add: MBLOCKSIZE_def algebra_simps)
  have "um h (uat (heapbase h) k) = 0xdeadbeef \<Longrightarrow> \<not> M_OK h (uat (heapbase h) k)" by (simp add: M_OK_def mh_magic1_def MMAGIC_def)
  moreover have "uat (heapbase h) (k + 1) \<noteq> 0" using represents_bounds(5) [OF assms(1), of "k + 1"] assms(1,2) by (auto simp: represents_def)
  moreover have "uat (heapbase h) k mod 4 = 0" using assms(1,2) uat_mod4 [of "heapbase h" k] by (simp add: represents_def)
  ultimately show ?thesis using assms(3) unfolding free_def Let_def x by auto
qed

lemma keeps_dataI:
  assumes "represents h bs" "only (heapbase h) ({k ..< k + n} \<union> heads 0 bs \<union> {units bs}) (um h) M" "L \<subseteq> live 0 bs" "\<forall>(k', n') \<in> L. k' + n' \<le> k \<or> k + n \<le> k'"
    "(k', n') \<in> L" "k' < j" "j < k' + n'"
  shows "M (uat (heapbase h) j) = um h (uat (heapbase h) j) \<and> M (uat (heapbase h) j + 4) = um h (uat (heapbase h) j + 4)"
proof -
  have l: "(k', n') \<in> live 0 bs" using assms(3,5) by blast
  have "chain (um h) (heapbase h) 0 0 bs" using assms(1) by (simp add: represents_def)
  from inside_not_head [OF this l assms(6,7)] have "j \<notin> heads 0 bs" .
  moreover have "j \<notin> {k ..< k + n}" "j < units bs" using assms(4-7) live_range [OF l] by auto
  ultimately show ?thesis using assms(2) represents_bounds(1) [OF assms(1)] unfolding only_def by auto
qed

text \<open>
  C10. Releasing a block of the user heap. \<^verbatim>\<open>free\<close> of the address of a block in use releases that block and no other. The
  data of all other blocks are as before, no two free blocks are left next to each other, and releasing the same address again
  is detected and stops the program.
\<close>

theorem free_releases:
  assumes "represents h bs" "(k, n) \<in> live 0 bs" "k + 1 < units bs"
  shows "\<exists>h' bs'. free (uat (heapbase h) (k + 1)) h = Ret () h' \<and> represents h' bs' \<and> heapbase h' = heapbase h \<and>
    live 0 bs' = live 0 bs - {(k, n)} \<and> keeps_data (heapbase h) bs' (um h) (um h') \<and> free (uat (heapbase h) (k + 1)) h' = Panic"
proof -
  obtain M bs' where f: "free (uat (heapbase h) (k + 1)) h = Ret () (h\<lparr>um := M\<rparr>)" "represents (h\<lparr>um := M\<rparr>) bs'" "units bs' = units bs"
    "live 0 bs' = live 0 bs - {(k, n)}" "only (heapbase h) ({k ..< k + n} \<union> heads 0 bs \<union> {units bs}) (um h) M"
    "\<not> mh_inuse (h\<lparr>um := M\<rparr>) (uat (heapbase h) k) \<or> M (uat (heapbase h) k) = 0xdeadbeef"
    using free_list [OF assms] by blast
  have "chain (um h) (heapbase h) 0 0 bs" using assms(1) by (simp add: represents_def)
  then have "\<forall>(k', n') \<in> live 0 bs'. k' + n' \<le> k \<or> k + n \<le> k'" using live_disjoint [OF _ assms(2)] f(4) by fastforce
  then have "keeps_data (heapbase h) bs' (um h) M" unfolding keeps_data_def using keeps_dataI [OF assms(1) f(5), of "live 0 bs'"] f(4) by blast
  moreover have "free (uat (heapbase h) (k + 1)) (h\<lparr>um := M\<rparr>) = Panic" using free_again [OF f(2), of k] f(3,6) assms(3) by simp
  ultimately show ?thesis using f(1,2,4) by (intro exI [of _ "h\<lparr>um := M\<rparr>"] exI [of _ bs']) simp
qed

section \<open>Allocation on the list of blocks\<close>

lemma rounded_down: "(sz + MBLOCKSIZE - 1) AND NOT (MBLOCKSIZE - 1) = 8 * ((sz + 7) div 8)"
proof -
  have m: "MBLOCKSIZE - 1 = mask 3" "sz + MBLOCKSIZE - 1 = sz + 7" by (simp_all add: MBLOCKSIZE_def mask_eq_exp_minus_1)
  have "(sz + MBLOCKSIZE - 1) AND NOT (MBLOCKSIZE - 1) = push_bit 3 (drop_bit 3 (sz + 7))"
    unfolding m by (rule bit_word_eqI) (auto simp: bit_simps)
  then show ?thesis by (simp add: push_bit_eq_mult drop_bit_eq_div)
qed

lemma rounded:
  assumes "unat sz + 7 < 2 ^ 32"
  shows "(sz + MBLOCKSIZE - 1) AND NOT (MBLOCKSIZE - 1) = of_nat (8 * ((unat sz + 7) div 8))"
proof -
  have "sz + 7 = of_nat (unat sz + 7)" by simp
  then have "(sz + 7) div 8 = of_nat ((unat sz + 7) div 8)" using of_nat_div32 [OF assms, of 8] by simp
  then show ?thesis unfolding rounded_down by simp
qed

definition fits :: "nat \<Rightarrow> nat \<times> bool \<Rightarrow> bool" where
  "fits d x \<longleftrightarrow> \<not> snd x \<and> d \<le> fst x - 1"

lemma of_nat_less32: "x < 2 ^ 32 \<Longrightarrow> y < 2 ^ 32 \<Longrightarrow> (of_nat x < (of_nat y :: 32 word)) = (x < y)"
  by (simp add: word_less_nat_alt unat_of_nat32)

lemma scan_here:
  assumes c: "chain (um h) (heapbase h) 0 0 (xs @ (n, u) # ys)" and r: "represents h (xs @ (n, u) # ys)" and d: "d \<le> 2 ^ 28"
  shows "malloc_scan (Suc f) (of_nat (8 * d)) (uat (heapbase h) (units xs)) (of_nat (lastn 0 xs)) h =
    (if fits d (n, u)
     then kbind (malloc_split (uat (heapbase h) (units xs)) (of_nat (8 * d)) h)
            (\<lambda>_ h'. Ret (Inl (uat (heapbase h) (units xs + 1))) (set_inuse (uat (heapbase h) (units xs)) True h'))
     else malloc_scan f (of_nat (8 * d)) (uat (heapbase h) (units xs + n)) (of_nat n) h)"
proof -
  let ?b = "heapbase h" and ?k = "units xs"
  note B = represents_bounds [OF r]
  have H: "um h (uat ?b ?k) = w1 (lastn 0 xs)" "um h (uat ?b ?k + 4) = w2 n u" and n: "0 < n" using c by (simp_all add: chain_append)
  have nb: "n < 2 ^ 28" "lastn 0 xs < 2 ^ 28" using B(1) lastn_le [of 0 xs] by simp_all
  note N = header_next [OF H(2) nb(1)] and P = header_prev [OF H(1) nb(2)]
  have "uat ?b ?k < heaptop h" using B(4) [of ?k] n by simp
  moreover have "M_SIZE h (uat ?b ?k) < of_nat (8 * d) \<longleftrightarrow> \<not> d \<le> n - 1"
    unfolding N(6) [OF n] using of_nat_less32 [of "8 * (n - 1)" "8 * d"] nb(1) d by (auto simp del: of_nat_mult)
  moreover have "uat ?b ?k + M_NEXTOFF h (uat ?b ?k) = uat ?b (?k + n)" unfolding N(4) by (rule uat_add)
  ultimately show ?thesis using P(1,2) N(1,2,3) by (auto simp: M_OK_def M_DATA_def MBLOCKSIZE_def uat_Suc fits_def)
qed

lemma scan_skip:
  assumes "d \<le> 2 ^ 28"
  shows "represents h (xs @ zs @ ys) \<Longrightarrow> \<forall>x \<in> set zs. \<not> fits d x \<Longrightarrow>
    malloc_scan (length zs + f) (of_nat (8 * d)) (uat (heapbase h) (units xs)) (of_nat (lastn 0 xs)) h =
    malloc_scan f (of_nat (8 * d)) (uat (heapbase h) (units (xs @ zs))) (of_nat (lastn 0 (xs @ zs))) h"
proof (induction zs arbitrary: xs)
  case (Cons a zs)
  obtain n u where a: "a = (n, u)" by fastforce
  have "chain (um h) (heapbase h) 0 0 (xs @ (n, u) # zs @ ys)" using Cons.prems(1) by (simp add: represents_def a)
  then have "malloc_scan (length (a # zs) + f) (of_nat (8 * d)) (uat (heapbase h) (units xs)) (of_nat (lastn 0 xs)) h =
      malloc_scan (length zs + f) (of_nat (8 * d)) (uat (heapbase h) (units xs + n)) (of_nat n) h"
    using scan_here [of h xs n u "zs @ ys" d "length zs + f"] Cons.prems assms by (simp add: a)
  then show ?case using Cons.IH [of "xs @ [(n, u)]"] Cons.prems by (simp add: a)
qed simp

lemma length_le_units: "chain m b k p bs \<Longrightarrow> length bs \<le> units bs"
  by (induction bs arbitrary: k p) fastforce+

lemma scan_ends:
  assumes r: "represents h bs" and d: "d \<le> 2 ^ 28"
  shows "malloc_scan (unat (heaptop h) + 1) (of_nat (8 * d)) (heapbase h) 0 h =
    (case first_index (fits d) bs of
       None \<Rightarrow> Ret (Inr (heaptop h, of_nat (lastn 0 bs))) h
     | Some i \<Rightarrow> kbind (malloc_split (uat (heapbase h) (units (take i bs))) (of_nat (8 * d)) h)
         (\<lambda>_ h'. Ret (Inl (uat (heapbase h) (units (take i bs) + 1))) (set_inuse (uat (heapbase h) (units (take i bs))) True h')))"
proof -
  have R: "heaptop h = uat (heapbase h) (units bs)" "unat (heapbase h) + 8 * units bs < 2 ^ 31" "chain (um h) (heapbase h) 0 0 bs" using r by (simp_all add: represents_def)
  have f: "length bs \<le> unat (heaptop h)" using length_le_units [OF R(3)] unat_uat [OF R(2)] by (simp add: R(1))
  have b: "uat (heapbase h) 0 = heapbase h" by (simp add: uat_def)
  show ?thesis
  proof (cases "first_index (fits d) bs")
    case None
    have e: "unat (heaptop h) + 1 = length bs + Suc (unat (heaptop h) - length bs)" using f by simp
    have "malloc_scan (length bs + Suc (unat (heaptop h) - length bs)) (of_nat (8 * d)) (uat (heapbase h) 0) (of_nat 0) h =
        malloc_scan (Suc (unat (heaptop h) - length bs)) (of_nat (8 * d)) (heaptop h) (of_nat (lastn 0 bs)) h"
      using scan_skip [OF d, of h "[]" bs "[]" "Suc (unat (heaptop h) - length bs)"] r None unfolding R(1) by (simp only: first_index_eq_None) simp
    then show ?thesis unfolding e using None by (simp only: b) simp
  next
    case (Some i)
    then have i: "i < length bs" "fits d (bs ! i)" and less: "\<forall>j < i. \<not> fits d (bs ! j)" by (simp_all add: first_index_eq_Some)
    have skip: "\<forall>x \<in> set (take i bs). \<not> fits d x" using less by (metis in_set_conv_nth length_take min_less_iff_conj nth_take)
    obtain n u where n: "bs ! i = (n, u)" by fastforce
    have bs: "bs = take i bs @ (n, u) # drop (Suc i) bs" using i(1) n by (metis id_take_nth_drop)
    define F where "F = unat (heaptop h) - i"
    have e: "unat (heaptop h) + 1 = i + Suc F" using i(1) f by (simp add: F_def)
    have s: "malloc_scan (i + f) (of_nat (8 * d)) (uat (heapbase h) 0) 0 h =
        malloc_scan f (of_nat (8 * d)) (uat (heapbase h) (units (take i bs))) (of_nat (lastn 0 (take i bs))) h" for f
      using scan_skip [OF d, of h "[]" "take i bs" "(n, u) # drop (Suc i) bs" f] r skip i(1) bs by simp
    have c: "chain (um h) (heapbase h) 0 0 (take i bs @ (n, u) # drop (Suc i) bs)" "represents h (take i bs @ (n, u) # drop (Suc i) bs)"
      using R(3) r bs by simp_all
    show ?thesis using s [of "Suc F"] scan_here [OF c d, of F] i(2) unfolding e Some option.case n b by (simp only: if_True)
  qed
qed

lemma units_mod8: "d \<le> 2 ^ 28 \<Longrightarrow> (of_nat (8 * d) :: 32 word) mod MBLOCKSIZE = 0"
  using of_nat_mod32 [of "8 * d" 8] by (simp add: MBLOCKSIZE_def del: of_nat_mult)

text \<open>The two parts into which a free block of \<open>n\<close> units is cut when \<open>d\<close> units of data are taken from it.\<close>

definition carve :: "nat \<Rightarrow> nat \<Rightarrow> bool \<Rightarrow> (nat \<times> bool) list" where
  "carve d n u = (if n - 1 - d < 2 then [(n, u)] else [(d + 1, u), (n - 1 - d, False)])"

lemma carve_props: "d \<le> n - 1 \<Longrightarrow> 0 < n \<Longrightarrow> units (carve d n u) = n"
  by (simp add: carve_def)

lemma split_list_ok:
  assumes r: "represents h (xs @ (n, False) # ys)" and d: "d \<le> n - 1"
  defines "b \<equiv> heapbase h" and "k \<equiv> units xs"
  shows "\<exists>M. malloc_split (uat b k) (of_nat (8 * d)) h = Ret () (h\<lparr>um := M\<rparr>) \<and>
    only b ({k ..< k + n} \<union> heads 0 (xs @ (n, False) # ys) \<union> {units (xs @ (n, False) # ys)}) (um h) M \<and>
    chain M b 0 0 (xs @ carve d n False @ ys)"
proof -
  let ?bs = "xs @ (n, False) # ys"
  have c: "chain (um h) b 0 0 ?bs" and top: "heaptop h = uat b (units ?bs)" and U: "units ?bs < 2 ^ 28"
    using r represents_bounds(1) [OF r] by (simp_all add: represents_def b_def)
  have H: "um h (uat b k) = w1 (lastn 0 xs)" "um h (uat b k + 4) = w2 n False" and n: "0 < n" and ys: "chain (um h) b (k + n) n ys"
    using c by (simp_all add: chain_append k_def)
  have B: "n < 2 ^ 28" "d + 1 < 2 ^ 28" "k + n + units ys < 2 ^ 28" "lastn 0 xs < 2 ^ 28" using U d n lastn_le [of 0 xs] by (simp_all add: k_def)
  note N = header_next [OF H(2) B(1)]
  define q where "q = n - 1 - d"
  have cv: "carve d n False = (if q < 2 then [(n, False)] else [(d + 1, False), (q, False)])" by (simp only: carve_def q_def)
  have sub: "of_nat (8 * (n - 1)) - of_nat (8 * d) = (of_nat (8 * q) :: 32 word)"
  proof -
    have "8 * (n - 1) = 8 * q + 8 * d" using d by (simp add: q_def)
    then have "(of_nat (8 * (n - 1)) :: 32 word) = of_nat (8 * q) + of_nat (8 * d)" by (simp only: of_nat_add)
    then show ?thesis by (simp only: add_diff_cancel)
  qed
  have two: "2 * MBLOCKSIZE = of_nat 16" by (simp add: MBLOCKSIZE_def)
  have less: "M_SIZE h (uat b k) - of_nat (8 * d) < 2 * MBLOCKSIZE \<longleftrightarrow> q < 2"
    unfolding N(6) [OF n] sub two using of_nat_less32 [of "8 * q" 16] B(1) by (simp add: q_def del: of_nat_mult)
  show ?thesis
  proof (cases "q < 2")
    case True
    then show ?thesis using units_mod8 [of d] B(2) less c
      by (intro exI [of _ "um h"]) (simp add: malloc_split_def cv del: of_nat_mult)
  next
    case False
    define m1 where "m1 = (um h)(uat b k + 4 := w2 (d + 1) False)"
    define m2 where "m2 = m1(uat b (k + d + 1) := w1 (d + 1), uat b (k + d + 1) + 4 := w2 q False)"
    define M where "M = (if ys = [] then m2 else m2(uat b (k + n) := w1 q))"
    have kq: "k + d + 1 + q = k + n" "d + 1 < n" "q < 2 ^ 28" using False d B(1) by (simp_all add: q_def)
    have ne: "uat b i \<noteq> uat b j" if "i < j" "j \<le> k + n" for i j using uat_eq [of i j b] that B(3) by simp
    have ne4: "uat b i \<noteq> uat b j + 4" "uat b j + 4 \<noteq> uat b i" if "i \<le> k + n" "j \<le> k + n" for i j using uat_eq4 [of i j b] that B(3) by auto
    note D = ne [of k "k + d + 1"] ne [of k "k + n"] ne [of "k + d + 1" "k + n"] ne4 [of k k] ne4 [of k "k + d + 1"] ne4 [of k "k + n"]
      ne4 [of "k + d + 1" k] ne4 [of "k + d + 1" "k + d + 1"] ne4 [of "k + d + 1" "k + n"] ne4 [of "k + n" k] ne4 [of "k + n" "k + d + 1"] ne4 [of "k + n" "k + n"]
    have D4: "uat b k + 4 \<noteq> uat b (k + d + 1) + 4" "uat b (k + n) + 4 \<noteq> uat b (k + d + 1) + 4" "uat b (k + n) + 4 \<noteq> uat b k + 4"
      using D(1-3) kq by auto
    let ?h1 = "h\<lparr>um := m1\<rparr>" and ?h2 = "h\<lparr>um := m2\<rparr>"
    have f1: "M_MKFIELD (of_nat (8 * d) + MBLOCKSIZE) = of_nat (d + 1)" using MKFIELD_units [OF B(2)] by (simp add: MBLOCKSIZE_def algebra_simps)
    have f2: "M_MKFIELD (M_SIZE h (uat b k) - of_nat (8 * d)) = of_nat q" unfolding N(6) [OF n] sub by (rule MKFIELD_units [OF kq(3)])
    have s1: "set_nextblock (uat b k) (of_nat (d + 1)) h = ?h1" unfolding m1_def by (rule set_nextblock_list [OF H(2) B(1)])
    have n1: "M_NEXT ?h1 (uat b k) = uat b (k + d + 1)" using header_next(5) [of ?h1 b k "d + 1" False] B(2) by (simp add: m1_def)
    have s2: "put_header (uat b (k + d + 1)) (of_nat (d + 1)) (of_nat q) False ?h1 = ?h2"
      unfolding put_header_list by (simp add: m2_def)
    have n2: "mh_nextblock ?h2 (uat b (k + d + 1)) = of_nat q" using header_next(1) [of ?h2 b "k + d + 1" q False] kq(3) by (simp add: m2_def)
    have t: "uat b (k + n) = heaptop h \<longleftrightarrow> ys = []"
    proof -
      have e: "heaptop h = uat b (k + n + units ys)" using top by (simp add: k_def add.assoc)
      show ?thesis unfolding e using uat_eq [of "k + n" "k + n + units ys" b] B(3) units_pos [OF ys] by (cases "ys = []") simp_all
    qed
    have s3: "set_prevblock (uat b (k + n)) (of_nat q) ?h2 = h\<lparr>um := M\<rparr>" if "ys \<noteq> []"
    proof -
      have "um h (uat b (k + n)) = w1 n" using ys that by (cases ys) auto
      then have "um ?h2 (uat b (k + n)) = w1 n" using D D4 kq by (simp add: m2_def m1_def)
      then show ?thesis using set_prevblock_list [of ?h2 b "k + n" n q] B(1) that by (simp add: M_def)
    qed
    have eq: "malloc_split (uat b k) (of_nat (8 * d)) h = Ret () (h\<lparr>um := M\<rparr>)"
      using False units_mod8 [of d] B(2) less D(3) kq unfolding malloc_split_def Let_def f1 f2 N(5) s1 n1 s2 n2
      by (cases "ys = []") (simp_all add: t s3 M_def del: of_nat_mult)
    have ex: "only b {k, k + d + 1, k + n} (um h) M" unfolding M_def m2_def m1_def using B kq by (cases "ys = []") (simp_all add: only_upd)
    have tail: "chain M b (k + n) q ys"
    proof (rule chain_prev [OF ex ys])
      show "heads (k + n) ys \<inter> {k, k + d + 1, k + n} \<subseteq> {k + n}" using heads_range [OF ys] kq by fastforce
      show "M (uat b (k + n)) = w1 q \<and> M (uat b (k + n) + 4) = um h (uat b (k + n) + 4)" if "ys \<noteq> []"
        using that D D4 kq unfolding M_def m2_def m1_def by simp
    qed (use B(3) in simp)
    have "M (uat b k) = w1 (lastn 0 xs)" "M (uat b k + 4) = w2 (d + 1) False" "M (uat b (k + d + 1)) = w1 (d + 1)" "M (uat b (k + d + 1) + 4) = w2 q False"
      using H(1) D D4 kq unfolding M_def m2_def m1_def by simp_all
    then have "chain M b 0 0 (xs @ [(d + 1, False), (q, False)] @ ys)"
      using chain_replace [OF c ex, of "[(d + 1, False), (q, False)] @ ys"] U False tail [folded kq(1)] kq(2) by (simp add: k_def [symmetric] add.assoc)
    moreover have "{k, k + d + 1, k + n} \<subseteq> {k ..< k + n} \<union> heads 0 ?bs \<union> {units ?bs}"
      using kq by (cases ys) (auto simp: heads_append k_def)
    ultimately show ?thesis using eq ex False only_mono by (intro exI [of _ M]) (auto simp: cv)
  qed
qed

lemma take_list:
  assumes r: "represents h (xs @ (n, False) # ys)" and d: "d \<le> n - 1"
  defines "b \<equiv> heapbase h" and "k \<equiv> units xs"
  shows "\<exists>M. kbind (malloc_split (uat b k) (of_nat (8 * d)) h) (\<lambda>_ h. Ret (Inl (uat b (k + 1))) (set_inuse (uat b k) True h)) =
      Ret (Inl (uat b (k + 1)) :: 32 word + 'a) (h\<lparr>um := M\<rparr>) \<and>
    only b ({k ..< k + n} \<union> heads 0 (xs @ (n, False) # ys) \<union> {units (xs @ (n, False) # ys)}) (um h) M \<and>
    represents (h\<lparr>um := M\<rparr>) (xs @ carve d n True @ ys)"
proof -
  let ?bs = "xs @ (n, False) # ys"
  let ?S = "{k ..< k + n} \<union> heads 0 ?bs \<union> {units ?bs}"
  have U: "units ?bs < 2 ^ 28" by (rule represents_bounds(1) [OF r])
  have c: "chain (um h) b 0 0 ?bs" "coalesced ?bs" using r by (simp_all add: represents_def b_def)
  then have n: "0 < n" by (simp add: chain_append)
  obtain M1 where 1: "malloc_split (uat b k) (of_nat (8 * d)) h = Ret () (h\<lparr>um := M1\<rparr>)" "only b ?S (um h) M1" "chain M1 b 0 0 (xs @ carve d n False @ ys)"
    using split_list_ok [OF r d] by (auto simp: b_def k_def)
  define m where "m = (if n - 1 - d < 2 then n else d + 1)"
  define rest where "rest = (if n - 1 - d < 2 then [] else [(n - 1 - d, False)])"
  have cv: "carve d n u = (m, u) # rest" "m \<le> n" for u using d n by (simp_all only: carve_def m_def rest_def) (auto simp: le_diff_conv2)
  have H: "M1 (uat b k + 4) = w2 m False" "M1 (uat b k) = w1 (lastn 0 xs)" and rest: "chain M1 b (k + m) m (rest @ ys)" and m: "0 < m"
    using 1(3) by (simp_all add: cv chain_append k_def)
  have B: "m < 2 ^ 28" "k < 2 ^ 28" using U cv(2) n by (simp_all add: k_def)
  define M where "M = M1(uat b k + 4 := w2 m True)"
  have o: "only b {k} M1 M" unfolding M_def using B by (intro only_upd only_refl) simp_all
  have u: "units (xs @ carve d n u @ ys) = units ?bs" for u using carve_props [OF d n] by simp
  have "chain M b (k + m) m (rest @ ys)" using chain_only [OF o rest] heads_range [OF rest] m U u [of False] by (fastforce simp: cv k_def)
  then have ch: "chain M b 0 0 (xs @ carve d n True @ ys)"
    using chain_replace [OF 1(3) o, of "carve d n True @ ys"] U u [of False] H(2) m uat_eq4 [OF B(2) B(2), of b] by (simp add: cv M_def k_def [symmetric])
  have co: "coalesced (xs @ carve d n True @ ys)"
    using c(2) by (cases ys) (auto simp: carve_def coalesced_def successively_append_iff)
  have "k \<in> ?S" using n by simp
  then have "only b ?S (um h) M" using only_trans [OF 1(2) only_mono [OF o, of ?S]] by simp
  moreover have "represents (h\<lparr>um := M\<rparr>) (xs @ carve d n True @ ys)"
    using r ch co u [of True] unfolding represents_def by (simp add: b_def)
  moreover have "set_inuse (uat b k) True (h\<lparr>um := M1\<rparr>) = h\<lparr>um := M\<rparr>"
    using set_inuse_list [of "h\<lparr>um := M1\<rparr>" b k m False True] H(1) B(1) by (simp add: M_def)
  ultimately show ?thesis using 1(1) by (intro exI [of _ M]) simp
qed

text \<open>The address space of a process ends at \<open>2 ^ 31\<close>, and \<^verbatim>\<open>sbrk\<close> refuses to go beyond it.\<close>

definition sbrk_bounded :: "(32 word \<Rightarrow> 32 word \<Rightarrow> bool) \<Rightarrow> bool" where
  "sbrk_bounded G \<longleftrightarrow> (\<forall>b a. G b a \<longrightarrow> unat b + unat a < 2 ^ 31)"

lemma grow_list:
  assumes r: "represents h bs" and d: "d < 2 ^ 28" and G: "sbrk_bounded G"
  defines "b \<equiv> heapbase h"
  shows "(case malloc_sbrk G (of_nat (8 * d) + MBLOCKSIZE) h of
      Ret mh h' \<Rightarrow> if mh = 0 then h' = h \<and> \<not> G (heaptop h) (of_nat (8 * d) + MBLOCKSIZE)
        else mh = uat b (units bs) \<and> (\<exists>h''. put_header mh (of_nat (lastn 0 bs)) (M_MKFIELD (of_nat (8 * d) + MBLOCKSIZE)) True h' = h'' \<and>
          represents h'' (bs @ [(d + 1, True)]) \<and> heapbase h'' = b \<and> only b {units bs} (um h) (um h''))
    | _ \<Rightarrow> False)"
proof -
  have R: "b \<noteq> 0" "ubrk h = heaptop h" "heaptop h = uat b (units bs)" "unat b + 8 * units bs < 2 ^ 31" "chain (um h) b 0 0 bs" "coalesced bs"
    using r by (simp_all add: represents_def b_def)
  have U: "units bs < 2 ^ 28" by (rule represents_bounds(1) [OF r])
  have sz: "of_nat (8 * d) + MBLOCKSIZE = of_nat (8 * (d + 1))" by (simp add: MBLOCKSIZE_def)
  have u: "unat (heaptop h) = unat b + 8 * units bs" unfolding R(3) by (rule unat_uat [OF R(4)])
  have top: "heaptop h \<noteq> - 1" "heaptop h \<noteq> 0"
    using u R(1,4) by (auto simp: unat_eq_zero unsigned_minus_1_eq_mask mask_eq_exp_minus_1)
  show ?thesis
  proof (cases "G (heaptop h) (of_nat (8 * (d + 1)))")
    case False
    then show ?thesis unfolding sz using R(2) by (simp add: malloc_sbrk_def user_sbrk_def)
  next
    case True
    have "d + 1 < 2 ^ 28 \<or> d + 1 = 2 ^ 28" using d by linarith
    then have un: "unat (of_nat (8 * (d + 1)) :: 32 word) = 8 * (d + 1)" by (intro unat_of_nat32) (use d in simp)
    then have lim: "unat b + 8 * (units bs + (d + 1)) < 2 ^ 31" using G True u unfolding sbrk_bounded_def by fastforce
    then have d1: "d + 1 < 2 ^ 28" "units bs + (d + 1) < 2 ^ 28" by simp_all
    define m where "m = (um h)(uat b (units bs) := w1 (lastn 0 bs), uat b (units bs) + 4 := w2 (d + 1) True)"
    have o: "only b {units bs} (um h) m" unfolding m_def using U by (intro only_upd only_refl) simp_all
    have "chain m b 0 0 (bs @ [(d + 1, True)])"
      using chain_replace [of "um h" b bs "[]" "{units bs}" m "[(d + 1, True)]"] R(5) o U uat_eq4 [OF U U, of b] by (simp add: m_def)
    then show ?thesis unfolding sz put_header_list MKFIELD_units [OF d1(1)]
      using True top R lim o r uat_add [of b "units bs" "d + 1"]
      by (simp add: malloc_sbrk_def user_sbrk_def m_def represents_def b_def [symmetric] coalesced_def successively_append_iff del: of_nat_mult of_nat_add)
  qed
qed

lemma live_carve:
  assumes "chain m b 0 0 (xs @ (n, False) # ys)" "d \<le> n - 1"
  shows "\<exists>q. live 0 (xs @ carve d n True @ ys) = insert (units xs, q) (live 0 (xs @ (n, False) # ys)) \<and> d \<le> q - 1 \<and> q \<le> n"
proof -
  have "0 < n" using assms(1) by (simp add: chain_append)
  then show ?thesis using assms(2)
    by (cases "n - 1 - d < 2") (auto simp: carve_def live_append add.assoc intro: exI [of _ n] exI [of _ "Suc d"])
qed

lemma free_block_apart:
  assumes "(k', n') \<in> live 0 (xs @ (n, False) # ys)"
  shows "k' + n' \<le> units xs \<or> units xs + n \<le> k'"
  using assms live_range [of k' n' 0 xs] live_range [of k' n' "units xs + n" ys] by (auto simp: live_append)

lemma uat_nonzero: "represents h bs \<Longrightarrow> j \<le> units bs \<Longrightarrow> uat (heapbase h) j \<noteq> 0"
  using represents_bounds(5) [of h bs j] by (auto simp: represents_def)

text \<open>The list \<open>bs'\<close> has one block more in use than \<open>bs\<close>: it is at \<open>p\<close>, has room for \<open>sz\<close> bytes and overlaps none of the others.\<close>

definition new_block :: "32 word \<Rightarrow> (nat \<times> bool) list \<Rightarrow> (nat \<times> bool) list \<Rightarrow> 32 word \<Rightarrow> 32 word \<Rightarrow> bool" where
  "new_block b bs bs' p sz \<longleftrightarrow>
     (\<exists>k n. p = uat b (k + 1) \<and> live 0 bs' = insert (k, n) (live 0 bs) \<and> unat sz \<le> 8 * (n - 1) \<and>
       (\<forall>(k', n') \<in> live 0 bs. k' + n' \<le> k \<or> k + n \<le> k'))"

lemma new_blockI:
  "p = uat b (k + 1) \<Longrightarrow> live 0 bs' = insert (k, n) (live 0 bs) \<Longrightarrow> unat sz \<le> 8 * (n - 1) \<Longrightarrow>
    (\<And>k' n'. (k', n') \<in> live 0 bs \<Longrightarrow> k' + n' \<le> k \<or> k + n \<le> k') \<Longrightarrow> new_block b bs bs' p sz"
  unfolding new_block_def by blast

lemma new_block_grow: "unat sz \<le> 8 * d \<Longrightarrow> new_block b bs (bs @ [(d + 1, True)]) (uat b (units bs + 1)) sz"
  by (rule new_blockI [of _ _ "units bs" _ "d + 1"]) (auto simp: live_append dest: live_range)

lemma new_block_carve:
  assumes "chain m b 0 0 (xs @ (n, False) # ys)" "d \<le> n - 1" "unat sz \<le> 8 * d"
  shows "new_block b (xs @ (n, False) # ys) (xs @ carve d n True @ ys) (uat b (units xs + 1)) sz"
proof -
  obtain q where "live 0 (xs @ carve d n True @ ys) = insert (units xs, q) (live 0 (xs @ (n, False) # ys))" "d \<le> q - 1" "q \<le> n"
    using live_carve [OF assms(1,2)] by blast
  then show ?thesis using assms(3) free_block_apart [of _ _ xs n ys] by (intro new_blockI [of _ _ "units xs" _ q]) fastforce+
qed

lemma grow_result:
  assumes "represents h bs" "d < 2 ^ 28" "sbrk_bounded G" "unat sz \<le> 8 * d"
  shows "\<exists>p h' bs'. kbind (malloc_sbrk G (of_nat (8 * d) + MBLOCKSIZE) h) (\<lambda>mh h.
      if mh = 0 then Ret 0 h else Ret (M_DATA mh) (put_header mh (of_nat (lastn 0 bs)) (M_MKFIELD (of_nat (8 * d) + MBLOCKSIZE)) True h)) = Ret p h' \<and>
    represents h' bs' \<and> heapbase h' = heapbase h \<and> keeps_data (heapbase h) bs (um h) (um h') \<and>
    (if p = 0 then h' = h \<and> \<not> G (heaptop h) (of_nat (8 * d) + MBLOCKSIZE) else new_block (heapbase h) bs bs' p sz)"
proof -
  let ?b = "heapbase h"
  note grow = grow_list [OF assms(1-3)]
  obtain mh h1 where 1: "malloc_sbrk G (of_nat (8 * d) + MBLOCKSIZE) h = Ret mh h1" using grow by (auto split: result.splits)
  show ?thesis
  proof (cases "mh = 0")
    case True
    then show ?thesis using grow assms(1) unfolding 1 by (intro exI [of _ 0] exI [of _ h] exI [of _ bs]) (simp add: keeps_data_def)
  next
    case False
    obtain h2 where 2: "put_header mh (of_nat (lastn 0 bs)) (M_MKFIELD (of_nat (8 * d) + MBLOCKSIZE)) True h1 = h2"
      "represents h2 (bs @ [(d + 1, True)])" "heapbase h2 = ?b" "only ?b {units bs} (um h) (um h2)" "mh = uat ?b (units bs)"
      using False grow unfolding 1 by auto
    have apart: "\<forall>(k', n') \<in> live 0 bs. k' + n' \<le> units bs \<or> units bs + 0 \<le> k'" using live_range by fastforce
    have o: "only ?b ({units bs ..< units bs + 0} \<union> heads 0 bs \<union> {units bs}) (um h) (um h2)" by (rule only_mono [OF 2(4)]) simp
    have k: "keeps_data ?b bs (um h) (um h2)" unfolding keeps_data_def using keeps_dataI [OF assms(1) o _ apart] by blast
    have p: "M_DATA mh = uat ?b (units bs + 1)" by (simp add: 2(5) M_DATA_def MBLOCKSIZE_def uat_Suc)
    have "uat ?b (units bs + 1) \<noteq> 0" using uat_nonzero [OF 2(2), of "units bs + 1"] 2(3) by simp
    then show ?thesis using False 2(2,3) k new_block_grow [OF assms(4), of ?b bs] unfolding 1
      by (intro exI [of _ "uat ?b (units bs + 1)"] exI [of _ h2] exI [of _ "bs @ [(d + 1, True)]"]) (simp only: kbind.simps if_False 2(1) p)
  qed
qed

text \<open>
  C9. Allocation from the user heap. As long as \<^verbatim>\<open>sbrk\<close> keeps the heap below \<open>2 ^ 31\<close>, \<^verbatim>\<open>malloc\<close> returns for every
  size up to \<open>2 ^ 31 - 16\<close>. Either it returns null and changes nothing, and then no free block was large enough and \<^verbatim>\<open>sbrk\<close>
  refused; or it returns the address of a block of at least that size which overlaps no block in use. The blocks in use stay in
  use, with their data, and no two free blocks are next to each other.
\<close>

theorem malloc_allocates:
  assumes "represents h bs" "unat sz \<le> 2 ^ 31 - 16" "sbrk_bounded G"
  shows "\<exists>p h' bs'. malloc G sz h = Ret p h' \<and> represents h' bs' \<and> heapbase h' = heapbase h \<and> keeps_data (heapbase h) bs (um h) (um h') \<and>
    (if p = 0 then h' = h \<and> (\<forall>(n, u) \<in> set bs. u \<or> 8 * (n - 1) < unat sz) \<and> \<not> G (heaptop h) (of_nat (8 * ((unat sz + 7) div 8)) + MBLOCKSIZE)
     else new_block (heapbase h) bs bs' p sz)"
proof -
  let ?b = "heapbase h"
  define d where "d = (unat sz + 7) div 8"
  have d: "unat sz \<le> 8 * d" "8 * d < unat sz + 8" "d < 2 ^ 28" using assms(2) by (simp_all add: d_def)
  have sz: "(sz + MBLOCKSIZE - 1) AND NOT (MBLOCKSIZE - 1) = of_nat (8 * d)" unfolding d_def using rounded [of sz] assms(2) by simp
  have b: "?b \<noteq> 0" using assms(1) by (simp add: represents_def)
  note S = scan_ends [OF assms(1), of d] and V = represents_bounds(3) [OF assms(1)]
  show ?thesis
  proof (cases "first_index (fits d) bs")
    case None
    have eq: "malloc G sz h = kbind (malloc_sbrk G (of_nat (8 * d) + MBLOCKSIZE) h) (\<lambda>mh h.
        if mh = 0 then Ret 0 h else Ret (M_DATA mh) (put_header mh (of_nat (lastn 0 bs)) (M_MKFIELD (of_nat (8 * d) + MBLOCKSIZE)) True h))"
      using b V S d(3) None unfolding malloc_def sz Let_def by (simp del: of_nat_mult)
    have none: "\<forall>(n, u) \<in> set bs. u \<or> 8 * (n - 1) < unat sz" using None d(2) unfolding first_index_eq_None fits_def by fastforce
    obtain p h' bs' where "malloc G sz h = Ret p h'" "represents h' bs'" "heapbase h' = ?b" "keeps_data ?b bs (um h) (um h')"
      "if p = 0 then h' = h \<and> \<not> G (heaptop h) (of_nat (8 * d) + MBLOCKSIZE) else new_block ?b bs bs' p sz"
      using grow_result [OF assms(1) d(3) assms(3) d(1)] unfolding eq by blast
    with none show ?thesis unfolding d_def [symmetric] by (intro exI [of _ p] exI [of _ h'] exI [of _ bs']) (simp split: if_splits)
  next
    case (Some i)
    have i: "i < length bs" "fits d (bs ! i)" using Some by (simp_all add: first_index_eq_Some)
    then obtain xs n ys where bs: "bs = xs @ (n, False) # ys" "take i bs = xs" and n: "d \<le> n - 1"
      by (metis fits_def fst_conv id_take_nth_drop prod.exhaust_sel snd_conv)
    have sc: "malloc_scan (unat (heaptop h) + 1) (of_nat (8 * d)) ?b 0 h = kbind (malloc_split (uat ?b (units xs)) (of_nat (8 * d)) h)
        (\<lambda>_ h'. Ret (Inl (uat ?b (units xs + 1))) (set_inuse (uat ?b (units xs)) True h'))"
      using S d(3) unfolding Some option.case bs(2) by linarith
    obtain M where T: "kbind (malloc_split (uat ?b (units xs)) (of_nat (8 * d)) h) (\<lambda>_ h. Ret (Inl (uat ?b (units xs + 1))) (set_inuse (uat ?b (units xs)) True h)) =
        Ret (Inl (uat ?b (units xs + 1)) :: 32 word + 32 word \<times> 32 word) (h\<lparr>um := M\<rparr>)"
      and M: "only ?b ({units xs ..< units xs + n} \<union> heads 0 bs \<union> {units bs}) (um h) M" "represents (h\<lparr>um := M\<rparr>) (xs @ carve d n True @ ys)"
      using take_list [OF assms(1) [unfolded bs(1)] n, where 'a = "32 word \<times> 32 word"] unfolding bs(1) [symmetric] by blast
    have eq: "malloc G sz h = Ret (uat ?b (units xs + 1)) (h\<lparr>um := M\<rparr>)" unfolding malloc_def sz Let_def using b V by (simp only: if_False kbind.simps sc T) simp
    have apart: "\<forall>(k', n') \<in> live 0 bs. k' + n' \<le> units xs \<or> units xs + n \<le> k'" using free_block_apart by (fastforce simp: bs(1))
    have "keeps_data ?b bs (um h) M" unfolding keeps_data_def using keeps_dataI [OF assms(1) M(1) _ apart] by blast
    moreover have "new_block ?b bs (xs @ carve d n True @ ys) (uat ?b (units xs + 1)) sz"
      using new_block_carve [of "um h" ?b xs n ys d sz] assms(1) n d(1) by (simp add: bs(1) represents_def)
    moreover have "0 < n" using assms(1) by (simp add: represents_def bs(1) chain_append)
    then have "uat ?b (units xs + 1) \<noteq> 0" using uat_nonzero [OF assms(1), of "units xs + 1"] by (simp add: bs(1))
    ultimately show ?thesis using eq M(2) by (intro exI [of _ "uat ?b (units xs + 1)"] exI [of _ "h\<lparr>um := M\<rparr>"] exI [of _ "xs @ carve d n True @ ys"]) simp
  qed
qed

section \<open>The first call, and requests of extreme sizes\<close>

text \<open>The heap starts at the first address at or above the break that is a multiple of 8.\<close>

lemma malloc_init_empty:
  assumes "heapbase h = 0" "heaptop h = 0" "0 < unat (ubrk h)" "unat (ubrk h) < 2 ^ 31 - 8" "\<And>a. unat a < 8 \<Longrightarrow> G (ubrk h) a"
  shows "\<exists>h'. malloc_init G h = Ret () h' \<and> represents h' [] \<and> unat (ubrk h) \<le> unat (heapbase h') \<and> unat (heapbase h') < unat (ubrk h) + 8"
proof -
  let ?x = "ubrk h" and ?m = "ubrk h mod MBLOCKSIZE"
  have m: "unat ?m = unat ?x mod 8" by (simp add: MBLOCKSIZE_def unat_mod)
  have x: "?x \<noteq> - 1" "?x \<noteq> 0" using assms(3,4) by (auto simp: unsigned_minus_1_eq_mask mask_eq_exp_minus_1)
  show ?thesis
  proof (cases "?m = 0")
    case True
    then show ?thesis using assms x by (simp add: malloc_init_def user_sbrk_def represents_def coalesced_def uat_def MBLOCKSIZE_def)
  next
    case False
    have pos: "0 < unat ?x mod 8" using False m by (metis gr0I unat_eq_zero)
    have a: "unat (MBLOCKSIZE - ?m) = 8 - unat ?x mod 8"
      using unat_sub [of ?m MBLOCKSIZE] m by (simp add: MBLOCKSIZE_def word_le_nat_alt)
    have "unat ?x + unat (MBLOCKSIZE - ?m) < 2 ^ 32" using a assms(4) by simp
    then have s: "unat (?x + (MBLOCKSIZE - ?m)) = unat ?x + (8 - unat ?x mod 8)" using a unat_add_lem [of ?x "MBLOCKSIZE - ?m"] by simp
    have "(unat ?x + (8 - unat ?x mod 8)) mod 8 = 0" by presburger
    then have "(?x + (MBLOCKSIZE - ?m)) mod 8 = 0" using s by (simp add: word_unat_eq_iff unat_mod)
    moreover have "?x + (MBLOCKSIZE - ?m) \<noteq> 0" using s assms(3) by (auto simp: word_unat_eq_iff)
    moreover have "unat ?x \<le> unat ?x + (8 - unat ?x mod 8)" "unat ?x + (8 - unat ?x mod 8) < unat ?x + 8" using pos by simp_all
    ultimately show ?thesis using assms x False s [symmetric] a pos
      by (simp add: malloc_init_def user_sbrk_def represents_def coalesced_def uat_def Let_def MBLOCKSIZE_def [symmetric])
  qed
qed

text \<open>
  The rounding of the size wraps around: a request within 7 bytes of the whole address space is treated as a request for
  no bytes at all, and succeeds.
\<close>

lemma malloc_huge_is_0:
  assumes "unat sz > 2 ^ 32 - 8"
  shows "malloc G sz h = malloc G 0 h"
proof -
  have l: "unat sz < 2 ^ 32" using unsigned_less [of sz] by simp
  then have "unat (sz + 7) = unat sz + 7 - 2 ^ 32" using assms by (simp add: unat_word_ariths mod_if)
  then have "unat (sz + 7) < 8" using assms l by simp
  then have "unat ((sz + 7) div 8) = 0" by (simp add: unat_div)
  then have "(sz + MBLOCKSIZE - 1) AND NOT (MBLOCKSIZE - 1) = 0" unfolding rounded_down by (simp add: unat_eq_zero)
  moreover have "((0 :: 32 word) + MBLOCKSIZE - 1) AND NOT (MBLOCKSIZE - 1) = 0" unfolding rounded_down by simp
  ultimately have e: "(sz + MBLOCKSIZE - 1) AND NOT (MBLOCKSIZE - 1) = (0 + MBLOCKSIZE - 1) AND NOT (MBLOCKSIZE - 1)" by (simp only:)
  show ?thesis unfolding malloc_def e by (rule refl)
qed

text \<open>
  C39. A block of no bytes at the top of the heap ends where the heap ends. \<^verbatim>\<open>free\<close> takes its address for one outside the
  heap and stops the program, although \<^verbatim>\<open>malloc\<close> returned it.
\<close>

theorem free_of_empty_block:
  assumes "represents h (bs @ [(1, True)])"
  shows "free (uat (heapbase h) (units bs + 1)) h = Panic"
proof -
  have "uat (heapbase h) (units bs + 1) = heaptop h" using assms by (simp add: represents_def)
  moreover have "heaptop h \<noteq> 0" using represents_bounds(3) [OF assms] by (simp add: heap_vars_ok_def)
  ultimately show ?thesis by (simp add: free_def)
qed

section \<open>An example\<close>

text \<open>A heap of three blocks, the middle one free with 40 bytes of data, and a process that gets no more memory.\<close>

definition small_heap :: uheap where
  "small_heap = \<lparr>um = (\<lambda>_. 0)(0x10000 := w1 0, 0x10004 := w2 3 True, 0x10018 := w1 3, 0x1001c := w2 6 False, 0x10048 := w1 6, 0x1004c := w2 2 True),
     heapbase = 0x10000, heaptop = 0x10058, ubrk = 0x10058\<rparr>"

lemma small_heap_blocks: "represents small_heap [(3, True), (6, False), (2, True)]"
  by (simp add: represents_def small_heap_def uat_def coalesced_def)

theorem malloc_allocates_witness: "\<exists>p h'. malloc (\<lambda>_ _. False) 10 small_heap = Ret p h' \<and> p \<noteq> 0 \<and> um h' 0x10008 = um small_heap 0x10008"
proof -
  have "unat (10 :: 32 word) \<le> 2 ^ 31 - 16" "sbrk_bounded (\<lambda>_ _. False)" by (simp_all add: sbrk_bounded_def)
  from malloc_allocates [OF small_heap_blocks this] obtain p h' bs' where
    "malloc (\<lambda>_ _. False) 10 small_heap = Ret p h'" "keeps_data 0x10000 [(3, True), (6, False), (2, True)] (um small_heap) (um h')" "p \<noteq> 0"
    by (auto simp: small_heap_def split: if_splits)
  moreover from this(2) have "um h' (uat 0x10000 1) = um small_heap (uat 0x10000 1)" by (auto simp: keeps_data_def)
  ultimately show ?thesis by (auto simp: uat_def)
qed

theorem free_releases_witness: "\<exists>h'. free 0x10050 small_heap = Ret () h' \<and> free 0x10050 h' = Panic"
  using free_releases [OF small_heap_blocks, of 9 2] by (auto simp: small_heap_def uat_def)

theorem free_of_empty_block_witness:
  "free 0x10008 \<lparr>um = (\<lambda>_. 0)(0x10000 := w1 0, 0x10004 := w2 1 True), heapbase = 0x10000, heaptop = 0x10008, ubrk = 0x10008\<rparr> = Panic"
  using free_of_empty_block [of "\<lparr>um = (\<lambda>_. 0)(0x10000 := w1 0, 0x10004 := w2 1 True), heapbase = 0x10000, heaptop = 0x10008, ubrk = 0x10008\<rparr>" "[]"]
  by (simp add: represents_def uat_def coalesced_def)

end
