(* ===== verification/LBytes.thy ===== *)
theory LBytes
  imports LMem
begin

text \<open>
  Numbers in memory and on disk: the bytes of a 16-bit and a 32-bit word with the most significant
  byte first, as the MIPS processor of the machine stores them, and sequences of words. Decoding
  inverts encoding in both directions.
\<close>

definition be32 :: "32 word \<Rightarrow> byte list" where
  "be32 w = [ucast (drop_bit 24 w), ucast (drop_bit 16 w), ucast (drop_bit 8 w), ucast w]"

definition be16 :: "16 word \<Rightarrow> byte list" where
  "be16 w = [ucast (drop_bit 8 w), ucast w]"

definition de32 :: "byte list \<Rightarrow> 32 word" where
  "de32 bs = push_bit 24 (ucast (bs ! 0)) OR push_bit 16 (ucast (bs ! 1)) OR push_bit 8 (ucast (bs ! 2)) OR ucast (bs ! 3)"

definition de16 :: "byte list \<Rightarrow> 16 word" where
  "de16 bs = push_bit 8 (ucast (bs ! 0)) OR ucast (bs ! 1)"

definition be_words :: "32 word list \<Rightarrow> byte list" where
  "be_words ws = concat (map be32 ws)"

primrec de_words :: "nat \<Rightarrow> byte list \<Rightarrow> 32 word list" where
  "de_words 0 bs = []"
| "de_words (Suc n) bs = de32 (take 4 bs) # de_words n (drop 4 bs)"

lemma length_be [simp]: "length (be32 w) = 4" "length (be16 h) = 2" "length (be_words ws) = 4 * length ws"
  by (simp_all add: be32_def be16_def be_words_def) (induction ws, simp_all add: be32_def)

lemma de_be32 [simp]: "de32 (be32 w) = w"
proof (rule bit_eqI)
  fix n assume "possible_bit TYPE(32 word) n"
  consider "n < 8" | "8 \<le> n" "n < 16" | "16 \<le> n" "n < 24" | "24 \<le> n" by linarith
  then show "bit (de32 (be32 w)) n = bit w n"
    by cases (auto simp: de32_def be32_def bit_simps dest: bit_imp_le_length)
qed

lemma de_be16 [simp]: "de16 (be16 w) = w"
proof (rule bit_eqI)
  fix n assume "possible_bit TYPE(16 word) n"
  consider "n < 8" | "8 \<le> n" by linarith
  then show "bit (de16 (be16 w)) n = bit w n"
    by cases (auto simp: de16_def be16_def bit_simps dest: bit_imp_le_length)
qed

lemma be_words_Cons: "be_words (w # ws) = be32 w @ be_words ws"
  by (simp add: be_words_def)

lemma de_be_words [simp]: "length ws = n \<Longrightarrow> de_words n (be_words ws @ r) = ws"
  by (induction ws arbitrary: n) (auto simp: be_words_Cons)

lemma de_be_words_end [simp]: "length ws = n \<Longrightarrow> de_words n (be_words ws) = ws"
  using de_be_words [of ws n "[]"] by simp

lemma length_de_words [simp]: "length (de_words n bs) = n"
  by (induction n arbitrary: bs) simp_all

lemma nth_de_words: "i < n \<Longrightarrow> de_words n bs ! i = de32 (take 4 (drop (4 * i) bs))"
  by (induction n arbitrary: bs i) (auto simp: nth_Cons add.commute split: nat.splits)

lemma be_de32: "length bs = 4 \<Longrightarrow> be32 (de32 bs) = bs"
proof -
  assume "length bs = 4"
  then obtain a b c d where bs: "bs = [a, b, c, d]" by (auto simp: eval_nat_numeral length_Suc_conv)
  show ?thesis unfolding bs be32_def de32_def
    by simp (intro conjI bit_eqI; auto simp: bit_simps dest: bit_imp_le_length)
qed

lemma be_de_words: "length bs = 4 * n \<Longrightarrow> be_words (de_words n bs) = bs"
proof (induction n arbitrary: bs)
  case 0
  then show ?case by (simp add: be_words_def)
next
  case (Suc n)
  then show ?case by (simp add: be_words_Cons be_de32)
qed

end
