(* ===== verification/KUio.thy ===== *)
theory KUio
  imports LBytes
begin

text \<open>
  Moving data between the kernel and its clients: \<^verbatim>\<open>kern/lib/copyinout.c\<close>, \<^verbatim>\<open>kern/userprog/uio.c\<close> and
  \<^verbatim>\<open>load_page\<close> of \<^verbatim>\<open>kern/vm/vm.c\<close>. A kernel buffer is a list of bytes with a position in it; user memory
  is a flat byte memory in which some addresses can be read or written and touching the others
  causes a fatal fault, from which \<^verbatim>\<open>copyfail\<close> recovers while \<^verbatim>\<open>pcb_badfaultfunc\<close> is set.

  A \<^verbatim>\<open>size_t\<close> is a natural number below \<open>2 ^ 32\<close>, an \<^verbatim>\<open>off_t\<close> an integer of 32 bits.
\<close>

section \<open>Model\<close>

record iostate =
  um_bytes :: bytes
  um_reads :: "32 word \<Rightarrow> bool"
  um_writes :: "32 word \<Rightarrow> bool"
  cur_vmspace :: "32 word"
  badfaultfunc :: bool

definition USERTOP :: "32 word" where
  "USERTOP = 0x80000000"

text \<open>The flags of \<^verbatim>\<open>open\<close> and the types of files.\<close>

definition O_RDONLY :: "32 word" where "O_RDONLY = 0"
definition O_WRONLY :: "32 word" where "O_WRONLY = 1"
definition O_RDWR :: "32 word" where "O_RDWR = 2"
definition O_CREAT :: "32 word" where "O_CREAT = 4"
definition O_EXCL :: "32 word" where "O_EXCL = 8"
definition O_TRUNC :: "32 word" where "O_TRUNC = 16"
definition O_APPEND :: "32 word" where "O_APPEND = 32"
definition O_ACCMODE :: "32 word" where "O_ACCMODE = 3"
definition S_IFREG :: int where "S_IFREG = 4096"
definition S_IFDIR :: int where "S_IFDIR = 8192"
definition S_IFCHR :: int where "S_IFCHR = 16384"
definition S_IFBLK :: int where "S_IFBLK = 20480"

subsection \<open>\<^verbatim>\<open>copyinout.c\<close>\<close>

text \<open>\<open>None\<close> is \<^verbatim>\<open>EFAULT\<close>; otherwise the result is \<^verbatim>\<open>stoplen\<close>.\<close>

definition copycheck :: "32 word \<Rightarrow> 32 word \<Rightarrow> 32 word option" where
  "copycheck userptr len =
     (let bot = userptr; top = bot + len - 1
      in if top < bot then None
         else if bot \<ge> USERTOP then None
         else if top \<ge> USERTOP then Some (USERTOP - bot)
         else Some len)"

text \<open>The number of bytes that \<^verbatim>\<open>memcpy\<close> moves before it touches an address it must not touch.\<close>

definition bytes_before_fault :: "(32 word \<Rightarrow> bool) \<Rightarrow> 32 word \<Rightarrow> nat \<Rightarrow> nat" where
  "bytes_before_fault ok a n = length (takeWhile (\<lambda>i. ok (a + of_nat i)) [0..<n])"

definition store_block :: "32 word \<Rightarrow> byte list \<Rightarrow> bytes \<Rightarrow> bytes" where
  "store_block a bs m = (\<lambda>x. if unat (x - a) < length bs then bs ! unat (x - a) else m x)"

text \<open>
  The result of \<^verbatim>\<open>copyin\<close> is the block for the destination. After a fault the part of the
  destination that has been written is dropped, as every caller does.
\<close>

definition copyin :: "32 word \<Rightarrow> 32 word \<Rightarrow> 'a iostate_scheme \<Rightarrow> (byte list, 'a iostate_scheme) result" where
  "copyin usersrc len s =
     (case copycheck usersrc len of
        None \<Rightarrow> Err EFAULT s
      | Some stoplen \<Rightarrow>
          if stoplen \<noteq> len then Err EFAULT s
          else let s = s\<lparr>badfaultfunc := True\<rparr>
          in if bytes_before_fault (um_reads s) usersrc (unat len) < unat len
             then Err EFAULT (s\<lparr>badfaultfunc := False\<rparr>)
             else Ret (block (um_bytes s) usersrc (unat len)) (s\<lparr>badfaultfunc := False\<rparr>))"

definition copyout :: "byte list \<Rightarrow> 32 word \<Rightarrow> 32 word \<Rightarrow> 'a iostate_scheme \<Rightarrow> (unit, 'a iostate_scheme) result" where
  "copyout src userdest len s =
     (case copycheck userdest len of
        None \<Rightarrow> Err EFAULT s
      | Some stoplen \<Rightarrow>
          if stoplen \<noteq> len then Err EFAULT s
          else let s = s\<lparr>badfaultfunc := True\<rparr>; n = bytes_before_fault (um_writes s) userdest (unat len)
          in if length src < unat len then Undef
             else let s = s\<lparr>um_bytes := store_block userdest (take n src) (um_bytes s)\<rparr>
             in if n < unat len then Err EFAULT (s\<lparr>badfaultfunc := False\<rparr>)
                else Ret () (s\<lparr>badfaultfunc := False\<rparr>))"

text \<open>
  The loop of \<^verbatim>\<open>copystr\<close> with \<open>n\<close> iterations left before one of the limits. \<open>get\<close> reads a byte of the
  source and \<open>put\<close> writes one of the destination; either may fault.
\<close>

datatype 'm copied = Copied nat 'm | Stopped 'm | Faulted 'm

primrec copystr_loop :: "(nat \<Rightarrow> byte option) \<Rightarrow> (nat \<Rightarrow> byte \<Rightarrow> 'm \<Rightarrow> 'm option) \<Rightarrow> nat \<Rightarrow> nat \<Rightarrow> 'm \<Rightarrow> 'm copied" where
  "copystr_loop get put 0 i m = Stopped m"
| "copystr_loop get put (Suc n) i m =
     (case get i of
        None \<Rightarrow> Faulted m
      | Some c \<Rightarrow>
          (case put i c m of
             None \<Rightarrow> Faulted m
           | Some m' \<Rightarrow> if c = 0 then Copied (i + 1) m' else copystr_loop get put n (i + 1) m'))"

definition copystr_errno :: "nat \<Rightarrow> nat \<Rightarrow> errno" where
  "copystr_errno maxlen stoplen = (if stoplen < maxlen then EFAULT else ENAMETOOLONG)"

text \<open>\<^verbatim>\<open>copyinstr\<close> returns the bytes it has stored, the null included; their number is \<^verbatim>\<open>*actual\<close>.\<close>

definition copyinstr :: "32 word \<Rightarrow> 32 word \<Rightarrow> 'a iostate_scheme \<Rightarrow> (byte list, 'a iostate_scheme) result" where
  "copyinstr usersrc len s =
     (case copycheck usersrc len of
        None \<Rightarrow> Err EFAULT s
      | Some stoplen \<Rightarrow>
          let s = s\<lparr>badfaultfunc := True\<rparr>;
              get = (\<lambda>i. if um_reads s (usersrc + of_nat i) then Some (um_bytes s (usersrc + of_nat i)) else None)
          in case copystr_loop get (\<lambda>i c d. Some (d @ [c])) (min (unat len) (unat stoplen)) 0 [] of
               Faulted d \<Rightarrow> Err EFAULT (s\<lparr>badfaultfunc := False\<rparr>)
             | Stopped d \<Rightarrow> Err (copystr_errno (unat len) (unat stoplen)) (s\<lparr>badfaultfunc := False\<rparr>)
             | Copied got d \<Rightarrow> Ret d (s\<lparr>badfaultfunc := False\<rparr>))"

definition copyoutstr :: "byte list \<Rightarrow> 32 word \<Rightarrow> 32 word \<Rightarrow> 'a iostate_scheme \<Rightarrow> (nat, 'a iostate_scheme) result" where
  "copyoutstr src userdest len s =
     (case copycheck userdest len of
        None \<Rightarrow> Err EFAULT s
      | Some stoplen \<Rightarrow>
          let s = s\<lparr>badfaultfunc := True\<rparr>;
              put = (\<lambda>i c m. if um_writes s (userdest + of_nat i) then Some (m(userdest + of_nat i := c)) else None)
          in case copystr_loop (\<lambda>i. Some ((src @ [0]) ! i)) put (min (unat len) (unat stoplen)) 0 (um_bytes s) of
               Faulted m \<Rightarrow> Err EFAULT (s\<lparr>um_bytes := m, badfaultfunc := False\<rparr>)
             | Stopped m \<Rightarrow> Err (copystr_errno (unat len) (unat stoplen)) (s\<lparr>um_bytes := m, badfaultfunc := False\<rparr>)
             | Copied got m \<Rightarrow> Ret got (s\<lparr>um_bytes := m, badfaultfunc := False\<rparr>))"

subsection \<open>\<^verbatim>\<open>uio.c\<close>\<close>

datatype uio_rw = UIO_READ | UIO_WRITE

datatype uio_seg = UIO_USERSPACE | UIO_SYSSPACE | UIO_USERISPACE

text \<open>
  The data block of a \<^verbatim>\<open>uio\<close> is a kernel block with a position (\<open>iov_kblock\<close>, \<open>iov_kpos\<close>) or a user
  address, as \<^verbatim>\<open>uio_segflg\<close> says.
\<close>

record uio =
  iov_kblock :: "byte list"
  iov_kpos :: nat
  iov_ubase :: "32 word"
  iov_len :: nat
  uio_offset :: int
  uio_resid :: nat
  uio_segflg :: uio_seg
  uio_op :: uio_rw
  uio_space :: "32 word"

type_synonym 'a io = "uio \<times> 'a iostate_scheme"

definition kget :: "byte list \<Rightarrow> nat \<Rightarrow> nat \<Rightarrow> byte list option" where
  "kget blk pos n = (if pos + n \<le> length blk then Some (take n (drop pos blk)) else None)"

definition kput :: "byte list \<Rightarrow> nat \<Rightarrow> byte list \<Rightarrow> byte list option" where
  "kput blk pos bs = (if pos + length bs \<le> length blk then Some (take pos blk @ bs @ drop (pos + length bs) blk) else None)"

text \<open>The \<^verbatim>\<open>switch\<close> of \<^verbatim>\<open>uiomove\<close>: \<open>n\<close> bytes between the buffer and the data block. The result is the buffer.\<close>

definition uio_transfer :: "byte list \<Rightarrow> nat \<Rightarrow> nat \<Rightarrow> 'a io \<Rightarrow> (byte list, 'a io) result" where
  "uio_transfer ptr pos n us =
     (case us of (u, s) \<Rightarrow>
        (case uio_segflg u of
           UIO_SYSSPACE \<Rightarrow>
             (if uio_op u = UIO_READ
              then (case Option.bind (kget ptr pos n) (kput (iov_kblock u) (iov_kpos u)) of
                      None \<Rightarrow> Undef
                    | Some b \<Rightarrow> Ret ptr (u\<lparr>iov_kblock := b, iov_kpos := iov_kpos u + n\<rparr>, s))
              else (case Option.bind (kget (iov_kblock u) (iov_kpos u) n) (kput ptr pos) of
                      None \<Rightarrow> Undef
                    | Some p \<Rightarrow> Ret p (u\<lparr>iov_kpos := iov_kpos u + n\<rparr>, s)))
         | _ \<Rightarrow>
             (if uio_op u = UIO_READ
              then (case kget ptr pos n of
                      None \<Rightarrow> Undef
                    | Some bs \<Rightarrow>
                        (case copyout bs (iov_ubase u) (of_nat n) s of
                           Ret _ s \<Rightarrow> Ret ptr (u\<lparr>iov_ubase := iov_ubase u + of_nat n\<rparr>, s)
                         | Err e s \<Rightarrow> Err e (u, s)
                         | Panic \<Rightarrow> Panic
                         | Undef \<Rightarrow> Undef))
              else (case copyin (iov_ubase u) (of_nat n) s of
                      Ret bs s \<Rightarrow>
                        (case kput ptr pos bs of
                           None \<Rightarrow> Undef
                         | Some p \<Rightarrow> Ret p (u\<lparr>iov_ubase := iov_ubase u + of_nat n\<rparr>, s))
                    | Err e s \<Rightarrow> Err e (u, s)
                    | Panic \<Rightarrow> Panic
                    | Undef \<Rightarrow> Undef))))"

text \<open>The accounting at the end of the loop body; the residue is an unsigned number and wraps.\<close>

definition uio_advance :: "nat \<Rightarrow> uio \<Rightarrow> uio" where
  "uio_advance n u =
     u\<lparr>iov_len := iov_len u - n, uio_resid := (uio_resid u + 4294967296 - n) mod 4294967296,
       uio_offset := s32 (uio_offset u + int n)\<rparr>"

function uiomove_loop :: "byte list \<Rightarrow> nat \<Rightarrow> nat \<Rightarrow> 'a io \<Rightarrow> (byte list, 'a io) result" where
  "uiomove_loop ptr pos n us =
     (if n > 0 \<and> uio_resid (fst us) > 0
      then let size = (if iov_len (fst us) > n then n else iov_len (fst us))
        in if size = 0 then Panic
           else kbind (uio_transfer ptr pos size us) (\<lambda>ptr us.
             uiomove_loop ptr (pos + size) (n - size) (uio_advance size (fst us), snd us))
      else Ret ptr us)"
  by pat_completeness auto
termination by (relation "measure (\<lambda>(ptr, pos, n, us). n)") auto

declare uiomove_loop.simps [simp del]

definition uiomove :: "byte list \<Rightarrow> nat \<Rightarrow> nat \<Rightarrow> 'a io \<Rightarrow> (byte list, 'a io) result" where
  "uiomove ptr pos n us =
     (case us of (u, s) \<Rightarrow>
        if uio_segflg u = UIO_SYSSPACE \<and> uio_space u \<noteq> 0 then Panic
        else if uio_segflg u \<noteq> UIO_SYSSPACE \<and> uio_space u \<noteq> cur_vmspace s then Panic
        else uiomove_loop ptr pos n us)"

function uiomovezeros_loop :: "nat \<Rightarrow> 'a io \<Rightarrow> (unit, 'a io) result" where
  "uiomovezeros_loop n us =
     (if n > 0
      then let amt = (if 16 > n then n else 16)
        in kbind (uiomove (replicate 16 0) 0 amt us) (\<lambda>_ us. uiomovezeros_loop (n - amt) us)
      else Ret () us)"
  by pat_completeness auto
termination by (relation "measure (\<lambda>(n, us). n)") auto

declare uiomovezeros_loop.simps [simp del]

definition uiomovezeros :: "nat \<Rightarrow> 'a io \<Rightarrow> (unit, 'a io) result" where
  "uiomovezeros n us = (if uio_op (fst us) \<noteq> UIO_READ then Panic else uiomovezeros_loop n us)"

definition mk_kuio :: "byte list \<Rightarrow> nat \<Rightarrow> int \<Rightarrow> uio_rw \<Rightarrow> uio" where
  "mk_kuio kbuf len pos rw =
     \<lparr>iov_kblock = kbuf, iov_kpos = 0, iov_ubase = 0, iov_len = len, uio_offset = pos, uio_resid = len,
      uio_segflg = UIO_SYSSPACE, uio_op = rw, uio_space = 0\<rparr>"

subsection \<open>\<^verbatim>\<open>load_page\<close>\<close>

text \<open>\<^verbatim>\<open>VOP_READ\<close> of the executable is an argument.\<close>

definition load_page ::
  "('a io \<Rightarrow> (unit, 'a io) result) \<Rightarrow> int \<Rightarrow> 32 word \<Rightarrow> nat \<Rightarrow> nat \<Rightarrow> bool \<Rightarrow> 'a iostate_scheme \<Rightarrow> (unit, 'a iostate_scheme) result" where
  "load_page vop_read offset vaddr memsize filesize is_executable s =
     (let filesize = (if filesize > memsize then memsize else filesize);
          u = \<lparr>iov_kblock = [], iov_kpos = 0, iov_ubase = vaddr, iov_len = memsize, uio_offset = offset, uio_resid = filesize,
               uio_segflg = (if is_executable then UIO_USERISPACE else UIO_USERSPACE), uio_op = UIO_READ, uio_space = cur_vmspace s\<rparr>
      in case vop_read (u, s) of
           Ret _ (u, s) \<Rightarrow>
             if uio_resid u \<noteq> 0 then Err ENOEXEC s
             else let fillamt = memsize - filesize
             in if fillamt > 0
                then (case uiomovezeros fillamt (u\<lparr>uio_resid := (uio_resid u + fillamt) mod 4294967296\<rparr>, s) of
                        Ret _ (u, s) \<Rightarrow> Ret () s
                      | Err e (u, s) \<Rightarrow> Err e s
                      | Panic \<Rightarrow> Panic
                      | Undef \<Rightarrow> Undef)
                else Ret () s
         | Err e (u, s) \<Rightarrow> Err e s
         | Panic \<Rightarrow> Panic
         | Undef \<Rightarrow> Undef)"

section \<open>Checked copies\<close>

lemma copycheck_whole:
  "copycheck p len = Some len \<longleftrightarrow> 0 < unat len \<and> unat p + unat len \<le> 2 ^ 31"
proof (cases "len = 0")
  case True
  have "p - 1 < p \<or> p = 0" by (cases "p = 0") (simp_all add: word_less_nat_alt unat_minus_one unat_gt_0)
  then show ?thesis using True by (auto simp: copycheck_def Let_def USERTOP_def)
next
  case False
  then have len: "0 < unat len" by (simp add: unat_gt_0)
  have lt: "unat p < 4294967296" "unat len < 4294967296"
    using unsigned_less [where ?'a = nat, of p] unsigned_less [where ?'a = nat, of len] by simp_all
  have top: "unat (p + len - 1) = (unat p + unat len - 1) mod 4294967296"
  proof -
    have "p + len - 1 = of_nat (unat p + unat len - 1)" using len by (simp add: of_nat_diff)
    then show ?thesis by (simp add: unat_of_nat)
  qed
  show ?thesis
  proof (cases "unat p + unat len \<le> 4294967296")
    case True
    with top len lt have "unat (p + len - 1) = unat p + unat len - 1" by simp
    moreover have "USERTOP - p \<noteq> len" if "unat p < 2147483648" "\<not> unat p + unat len \<le> 2147483648"
    proof
      assume "USERTOP - p = len"
      then have "unat (USERTOP - p) = unat len" by simp
      moreover have "unat (USERTOP - p) = 2147483648 - unat p" using that(1) by (subst unat_sub) (simp_all add: USERTOP_def word_le_nat_alt)
      ultimately show False using that by simp
    qed
    ultimately show ?thesis using len by (auto simp: copycheck_def Let_def word_less_nat_alt word_le_nat_alt USERTOP_def split: if_splits)
  next
    case False
    then have "unat (p + len - 1) = unat p + unat len - 1 - 4294967296" using top lt len by (simp add: mod_if)
    then have "unat (p + len - 1) < unat p" using False lt len by linarith
    then have "p + len - 1 < p" by (simp add: word_less_nat_alt)
    with False show ?thesis by (simp add: copycheck_def Let_def)
  qed
qed

lemma bytes_before_fault_le: "bytes_before_fault ok a n \<le> n"
  using length_takeWhile_le [of "\<lambda>i. ok (a + of_nat i)" "[0..<n]"] by (simp add: bytes_before_fault_def)

lemma length_takeWhile_all: "length (takeWhile Q xs) = length xs \<longleftrightarrow> (\<forall>x \<in> set xs. Q x)"
  by (induction xs) auto

lemma bytes_before_fault_all: "\<not> bytes_before_fault ok a n < n \<longleftrightarrow> (\<forall>i < n. ok (a + of_nat i))"
  using length_takeWhile_all [of "\<lambda>i. ok (a + of_nat i)" "[0..<n]"] bytes_before_fault_le [of ok a n]
  by (auto simp: bytes_before_fault_def)

lemma store_block_outside: "length bs \<le> unat (x - a) \<Longrightarrow> store_block a bs m x = m x"
  by (simp add: store_block_def)

lemma block_store_block: "length bs \<le> 4294967296 \<Longrightarrow> block (store_block a bs m) a (length bs) = bs"
  by (rule nth_equalityI) (simp_all add: block_def store_block_def unat_of_nat_32)

text \<open>What the two block copies do, on every branch.\<close>

definition user_range :: "32 word \<Rightarrow> nat \<Rightarrow> bool" where
  "user_range p n \<longleftrightarrow> 0 < n \<and> unat p + n \<le> 2 ^ 31"

lemma copyin_eq:
  assumes "\<not> badfaultfunc s"
  shows "copyin p len s =
    (if user_range p (unat len) \<and> (\<forall>i < unat len. um_reads s (p + of_nat i)) then Ret (block (um_bytes s) p (unat len)) s
     else Err EFAULT s)"
proof -
  have restored: "s\<lparr>badfaultfunc := False\<rparr> = s" using assms by simp
  show ?thesis
    using copycheck_whole [of p len] bytes_before_fault_all [of "um_reads s" p "unat len"]
    by (cases "copycheck p len") (auto simp: copyin_def Let_def user_range_def restored)
qed

lemma copyout_cases:
  assumes "\<not> badfaultfunc s" "length bs = unat len"
  shows "copyout bs p len s =
    (if \<not> user_range p (unat len) then Err EFAULT s
     else if \<forall>i < unat len. um_writes s (p + of_nat i) then Ret () (s\<lparr>um_bytes := store_block p bs (um_bytes s)\<rparr>)
     else Err EFAULT (s\<lparr>um_bytes := store_block p (take (bytes_before_fault (um_writes s) p (unat len)) bs) (um_bytes s)\<rparr>))"
proof -
  have restored: "s\<lparr>badfaultfunc := True, um_bytes := m, badfaultfunc := False\<rparr> = s\<lparr>um_bytes := m\<rparr>" for m using assms by simp
  have all: "take (bytes_before_fault (um_writes s) p (unat len)) bs = bs" if "\<not> bytes_before_fault (um_writes s) p (unat len) < unat len"
    using that assms(2) by simp
  show ?thesis
    using copycheck_whole [of p len] bytes_before_fault_all [of "um_writes s" p "unat len"] assms all
    by (cases "copycheck p len") (auto simp: copyout_def Let_def user_range_def)
qed

section \<open>Transfers\<close>

text \<open>The block a \<^verbatim>\<open>uio\<close> describes can take or give \<open>n\<close> more bytes.\<close>

definition io_ready :: "nat \<Rightarrow> 'a io \<Rightarrow> bool" where
  "io_ready n us \<longleftrightarrow> (case us of (u, s) \<Rightarrow>
     n \<le> iov_len u \<and> n \<le> uio_resid u \<and> uio_resid u < 4294967296 \<and> 0 \<le> uio_offset u \<and> uio_offset u + int n < 2147483648 \<and>
     (if uio_segflg u = UIO_SYSSPACE then uio_space u = 0 \<and> iov_kpos u + n \<le> length (iov_kblock u)
      else uio_space u = cur_vmspace s \<and> \<not> badfaultfunc s \<and> unat (iov_ubase u) + n \<le> 2147483648 \<and>
        (\<forall>i < n. (if uio_op u = UIO_READ then um_writes s else um_reads s) (iov_ubase u + of_nat i))))"

text \<open>The bytes that come next, for a write; the block with bytes stored, for a read.\<close>

definition io_next :: "nat \<Rightarrow> 'a io \<Rightarrow> byte list" where
  "io_next n us = (case us of (u, s) \<Rightarrow>
     if uio_segflg u = UIO_SYSSPACE then take n (drop (iov_kpos u) (iov_kblock u)) else block (um_bytes s) (iov_ubase u) n)"

definition io_moved :: "nat \<Rightarrow> uio \<Rightarrow> uio" where
  "io_moved n u = u\<lparr>iov_len := iov_len u - n, uio_resid := uio_resid u - n, uio_offset := uio_offset u + int n,
     iov_kpos := (if uio_segflg u = UIO_SYSSPACE then iov_kpos u + n else iov_kpos u),
     iov_ubase := (if uio_segflg u = UIO_SYSSPACE then iov_ubase u else iov_ubase u + of_nat n)\<rparr>"

definition io_skip :: "nat \<Rightarrow> 'a io \<Rightarrow> 'a io" where
  "io_skip n us = (case us of (u, s) \<Rightarrow> (io_moved n u, s))"

definition io_store :: "byte list \<Rightarrow> 'a io \<Rightarrow> 'a io" where
  "io_store bs us = (case us of (u, s) \<Rightarrow>
     if uio_segflg u = UIO_SYSSPACE
     then (io_moved (length bs) (u\<lparr>iov_kblock := take (iov_kpos u) (iov_kblock u) @ bs @ drop (iov_kpos u + length bs) (iov_kblock u)\<rparr>), s)
     else (io_moved (length bs) u, s\<lparr>um_bytes := store_block (iov_ubase u) bs (um_bytes s)\<rparr>))"

lemma io_moved_0 [simp]: "io_moved 0 u = u"
  by (simp add: io_moved_def)

lemma store_block_Nil [simp]: "store_block a [] m = m"
  by (simp add: store_block_def)

lemma io_store_Nil [simp]: "io_store [] us = us"
  by (cases us) (simp add: io_store_def)

lemma io_skip_0 [simp]: "io_skip 0 us = us"
  by (cases us) (simp add: io_skip_def)

lemma io_moved_select [simp]:
  "uio_segflg (io_moved n u) = uio_segflg u" "uio_op (io_moved n u) = uio_op u" "uio_space (io_moved n u) = uio_space u"
  "iov_kblock (io_moved n u) = iov_kblock u" "uio_resid (io_moved n u) = uio_resid u - n" "iov_len (io_moved n u) = iov_len u - n"
  "uio_offset (io_moved n u) = uio_offset u + int n"
  by (simp_all add: io_moved_def)

lemma io_moved_add: "io_moved m (io_moved n u) = io_moved (n + m) u"
  by (simp add: io_moved_def algebra_simps)

text \<open>The common part of a transfer of positive length: one pass of the loop does it.\<close>

lemma uiomove_once:
  assumes "0 < n" "n \<le> iov_len u" "n \<le> uio_resid u"
    "uio_transfer ptr pos n (u, s) = Ret ptr' (u', s')"
  shows "uiomove_loop ptr pos n (u, s) = Ret ptr' (uio_advance n u', s')"
proof -
  have amount: "(if iov_len (fst (u, s)) > n then n else iov_len (fst (u, s))) = n" using assms(2) by simp
  show ?thesis using assms(1,3,4)
    by (subst uiomove_loop.simps, unfold amount) (simp add: uiomove_loop.simps [of _ _ 0])
qed

lemma uio_advance_moved:
  assumes "n \<le> uio_resid u" "uio_resid u < 4294967296" "0 \<le> uio_offset u" "uio_offset u + int n < 2147483648"
  shows "uio_advance n u = u\<lparr>iov_len := iov_len u - n, uio_resid := uio_resid u - n, uio_offset := uio_offset u + int n\<rparr>"
proof -
  have "(uio_resid u + 4294967296 - n) mod 4294967296 = uio_resid u - n" using assms(1,2) by (simp add: mod_if)
  then show ?thesis using assms(3,4) by (simp add: uio_advance_def)
qed

lemma io_ready_cases:
  assumes "io_ready n (u, s)"
  shows "n \<le> iov_len u" "n \<le> uio_resid u" "uio_resid u < 4294967296" "0 \<le> uio_offset u" "uio_offset u + int n < 2147483648"
    "uio_segflg u = UIO_SYSSPACE \<Longrightarrow> uio_space u = 0 \<and> iov_kpos u + n \<le> length (iov_kblock u)"
    "uio_segflg u \<noteq> UIO_SYSSPACE \<Longrightarrow> uio_space u = cur_vmspace s \<and> \<not> badfaultfunc s \<and> unat (iov_ubase u) + n \<le> 2147483648"
    "uio_segflg u \<noteq> UIO_SYSSPACE \<Longrightarrow> uio_op u = UIO_READ \<Longrightarrow> i < n \<Longrightarrow> um_writes s (iov_ubase u + of_nat i)"
    "uio_segflg u \<noteq> UIO_SYSSPACE \<Longrightarrow> uio_op u = UIO_WRITE \<Longrightarrow> i < n \<Longrightarrow> um_reads s (iov_ubase u + of_nat i)"
  using assms by (auto simp: io_ready_def split: if_splits)

text \<open>Reading: the bytes at the buffer's position end up in the data block.\<close>

lemma uiomove_read:
  assumes "io_ready n us" "uio_op (fst us) = UIO_READ" "pos + n \<le> length ptr"
  shows "uiomove ptr pos n us = Ret ptr (io_store (take n (drop pos ptr)) us)"
proof -
  obtain u s where us: "us = (u, s)" by (cases us)
  note r = io_ready_cases [OF assms(1) [unfolded us]]
  show ?thesis
  proof (cases "n = 0")
  case True
  then show ?thesis using r(6,7) by (auto simp: us uiomove_def uiomove_loop.simps)
next
  case False
  let ?bs = "take n (drop pos ptr)"
  have len: "length ?bs = n" using assms(3) by simp
  have n32: "unat (of_nat n :: 32 word) = n" using r(2,3) by (simp add: unat_of_nat_32)
  show ?thesis
  proof (cases "uio_segflg u = UIO_SYSSPACE")
    case True
    let ?u = "u\<lparr>iov_kblock := take (iov_kpos u) (iov_kblock u) @ ?bs @ drop (iov_kpos u + n) (iov_kblock u), iov_kpos := iov_kpos u + n\<rparr>"
    have "uio_transfer ptr pos n (u, s) = Ret ptr (?u, s)"
      using True r(6) assms(2,3) len us by (simp add: uio_transfer_def kget_def kput_def)
    from uiomove_once [OF _ r(1,2) this] False uio_advance_moved [of n ?u] r True len show ?thesis
      by (simp add: us uiomove_def io_store_def io_moved_def)
  next
    case user: False
    let ?s = "s\<lparr>um_bytes := store_block (iov_ubase u) ?bs (um_bytes s)\<rparr>"
    have "copyout ?bs (iov_ubase u) (of_nat n) s = Ret () ?s"
      using r(7,8) user False assms(2) us len n32 by (subst copyout_cases) (auto simp: user_range_def)
    then have "uio_transfer ptr pos n (u, s) = Ret ptr (u\<lparr>iov_ubase := iov_ubase u + of_nat n\<rparr>, ?s)"
      using user assms(2,3) us by (cases "uio_segflg u") (simp_all add: uio_transfer_def kget_def)
    from uiomove_once [OF _ r(1,2) this] False uio_advance_moved [of n "u\<lparr>iov_ubase := iov_ubase u + of_nat n\<rparr>"] r user len show ?thesis
      by (simp add: us uiomove_def io_store_def io_moved_def)
  qed
qed
qed

text \<open>Writing: the next bytes of the data block end up at the buffer's position.\<close>

lemma uiomove_write:
  assumes "io_ready n us" "uio_op (fst us) = UIO_WRITE" "pos + n \<le> length ptr"
  shows "uiomove ptr pos n us = Ret (take pos ptr @ io_next n us @ drop (pos + n) ptr) (io_skip n us)"
proof -
  obtain u s where us: "us = (u, s)" by (cases us)
  note r = io_ready_cases [OF assms(1) [unfolded us]]
  show ?thesis
  proof (cases "n = 0")
  case True
  then show ?thesis using r(6,7) by (auto simp: us uiomove_def uiomove_loop.simps io_next_def block_def)
next
  case False
  have n32: "unat (of_nat n :: 32 word) = n" using r(2,3) by (simp add: unat_of_nat_32)
  show ?thesis
  proof (cases "uio_segflg u = UIO_SYSSPACE")
    case True
    have "uio_transfer ptr pos n (u, s) = Ret (take pos ptr @ io_next n us @ drop (pos + n) ptr) (u\<lparr>iov_kpos := iov_kpos u + n\<rparr>, s)"
      using True r(6) assms(2,3) us by (auto simp: uio_transfer_def kget_def kput_def io_next_def min_absorb2)
    from uiomove_once [OF _ r(1,2) this] False uio_advance_moved [of n "u\<lparr>iov_kpos := iov_kpos u + n\<rparr>"] r True show ?thesis
      by (simp add: us uiomove_def io_skip_def io_moved_def)
  next
    case user: False
    have "copyin (iov_ubase u) (of_nat n) s = Ret (block (um_bytes s) (iov_ubase u) n) s"
      using r(7,9) user False assms(2) us n32 by (subst copyin_eq) (auto simp: user_range_def)
    then have "uio_transfer ptr pos n (u, s) =
        Ret (take pos ptr @ io_next n us @ drop (pos + n) ptr) (u\<lparr>iov_ubase := iov_ubase u + of_nat n\<rparr>, s)"
      using user assms(2,3) us by (cases "uio_segflg u") (simp_all add: uio_transfer_def kput_def io_next_def)
    from uiomove_once [OF _ r(1,2) this] False uio_advance_moved [of n "u\<lparr>iov_ubase := iov_ubase u + of_nat n\<rparr>"] r user show ?thesis
      by (simp add: us uiomove_def io_skip_def io_moved_def)
  qed
qed
qed

subsection \<open>Transfers in several pieces\<close>

lemma store_block_append:
  assumes "length a + length b \<le> 4294967296"
  shows "store_block (p + of_nat (length a)) b (store_block p a m) = store_block p (a @ b) m"
proof
  fix x
  let ?d = "unat (x - p)"
  show "store_block (p + of_nat (length a)) b (store_block p a m) x = store_block p (a @ b) m x"
  proof (cases "?d < length a")
    case True
    have "x - (p + of_nat (length a)) = of_nat ?d - of_nat (length a)" by (simp add: algebra_simps)
    also have "\<dots> = of_nat (4294967296 + ?d - length a)" using True assms by (simp add: of_nat_diff)
    finally have e: "x - (p + of_nat (length a)) = of_nat (4294967296 + ?d - length a)" .
    have "unat (x - (p + of_nat (length a))) = 4294967296 + ?d - length a"
      unfolding e by (rule unat_of_nat_32) (use True assms in linarith)
    then have "\<not> unat (x - (p + of_nat (length a))) < length b" using assms by linarith
    with True show ?thesis by (simp add: store_block_def nth_append)
  next
    case False
    have "x - (p + of_nat (length a)) = of_nat (?d - length a)" using False by (simp add: of_nat_diff algebra_simps)
    moreover have "?d - length a < 4294967296" using unsigned_less [where ?'a = nat, of "x - p"] by simp
    ultimately have "unat (x - (p + of_nat (length a))) = ?d - length a" by (simp add: unat_of_nat_32)
    then show ?thesis using False by (auto simp: store_block_def nth_append)
  qed
qed

lemma io_store_append:
  assumes "io_ready (length a + length b) us"
  shows "io_store b (io_store a us) = io_store (a @ b) us"
proof -
  obtain u s where us: "us = (u, s)" by (cases us)
  note r = io_ready_cases [OF assms [unfolded us]]
  show ?thesis
  proof (cases "uio_segflg u = UIO_SYSSPACE")
    case True
    have "drop (iov_kpos u + length a + length b) (take (iov_kpos u) (iov_kblock u) @ a @ drop (iov_kpos u + length a) (iov_kblock u)) =
        drop (iov_kpos u + (length a + length b)) (iov_kblock u)"
      using r(6) [OF True] by (simp add: ac_simps)
    with True r(6) show ?thesis
      by (simp add: us io_store_def io_moved_def algebra_simps)
  next
    case False
    have "length a + length b \<le> 4294967296" using r(2,3) by simp
    from store_block_append [OF this, of "iov_ubase u" "um_bytes s"] False show ?thesis
      by (simp add: us io_store_def io_moved_def algebra_simps)
  qed
qed

lemma length_io_next: "io_ready n us \<Longrightarrow> length (io_next n us) = n"
  by (cases us) (auto simp: io_ready_def io_next_def block_def split: if_splits)

lemma io_ready_le: "io_ready n us \<Longrightarrow> m \<le> n \<Longrightarrow> io_ready m us"
  by (cases us) (auto simp: io_ready_def split: if_splits)

text \<open>The part of the state that a transfer needs does not change while data move.\<close>

lemma user_rest:
  assumes "\<forall>i < m + n. ok (p + of_nat i)" "unat (p :: 32 word) + (m + n) \<le> 2147483648"
  shows "unat (p + of_nat m) + n \<le> 2147483648" "\<forall>i < n. ok (p + of_nat m + of_nat i)"
proof -
  have "unat (p + of_nat m) = unat p + m"
    using assms(2) by (subst unat_add_lem [THEN iffD1]) (simp_all add: unat_of_nat_32)
  then show "unat (p + of_nat m) + n \<le> 2147483648" using assms(2) by simp
  show "\<forall>i < n. ok (p + of_nat m + of_nat i)"
  proof (intro allI impI)
    fix i assume "i < n"
    then show "ok (p + of_nat m + of_nat i)" using spec [OF assms(1), of "m + i"] by (simp add: algebra_simps)
  qed
qed

lemma io_ready_moved:
  assumes "io_ready (m + n) (u, s)" "length b = length (iov_kblock u)"
  shows "io_ready n (io_moved m (u\<lparr>iov_kblock := b\<rparr>), s\<lparr>um_bytes := f\<rparr>)"
proof -
  note r = io_ready_cases(1-5) [OF assms(1)]
  have "n \<le> iov_len u - m" "n \<le> uio_resid u - m" "uio_resid u - m < 4294967296" "0 \<le> uio_offset u + int m"
    "uio_offset u + int m + int n < 2147483648" using r by auto
  moreover note user_rest [of m n "if uio_op u = UIO_READ then um_writes s else um_reads s" "iov_ubase u"]
  ultimately show ?thesis
    using assms by (cases "uio_segflg u = UIO_SYSSPACE"; cases "uio_op u") (simp_all add: io_ready_def io_moved_def)
qed

lemma io_ready_store: "io_ready (length a + n) us \<Longrightarrow> io_ready n (io_store a us)"
proof -
  assume a: "io_ready (length a + n) us"
  obtain u s where us: "us = (u, s)" by (cases us)
  show ?thesis
  proof (cases "uio_segflg u = UIO_SYSSPACE")
    case True
    let ?b = "take (iov_kpos u) (iov_kblock u) @ a @ drop (iov_kpos u + length a) (iov_kblock u)"
    have "length ?b = length (iov_kblock u)" using io_ready_cases(6) [OF a [unfolded us] True] by simp
    from io_ready_moved [OF a [unfolded us] this, of "um_bytes s"] True show ?thesis by (simp add: us io_store_def)
  next
    case False
    with io_ready_moved [OF a [unfolded us] refl, of "store_block (iov_ubase u) a (um_bytes s)"] show ?thesis
      by (simp add: us io_store_def)
  qed
qed

lemma io_ready_skip: "io_ready (m + n) us \<Longrightarrow> io_ready n (io_skip m us)"
  using io_ready_moved [of m n "fst us" "snd us" "iov_kblock (fst us)" "um_bytes (snd us)"]
  by (cases us) (simp add: io_skip_def)

lemma io_next_append: "io_next (m + n) us = io_next m us @ io_next n (io_skip m us)"
proof -
  have "block f p (m + n) = block f p m @ block f (p + of_nat m) n" for f p
    by (rule nth_equalityI) (auto simp: block_def nth_append algebra_simps of_nat_diff not_less)
  then show ?thesis
    by (cases us) (simp add: io_next_def io_skip_def io_moved_def take_add add.commute)
qed

lemma io_skip_add: "io_skip n (io_skip m us) = io_skip (m + n) us"
  by (cases us) (simp add: io_skip_def io_moved_add)

lemma io_store_select [simp]:
  "uio_op (fst (io_store bs us)) = uio_op (fst us)" "uio_resid (fst (io_store bs us)) = uio_resid (fst us) - length bs"
  "uio_offset (fst (io_store bs us)) = uio_offset (fst us) + int (length bs)"
  "uio_op (fst (io_skip n us)) = uio_op (fst us)" "uio_resid (fst (io_skip n us)) = uio_resid (fst us) - n"
  "uio_offset (fst (io_skip n us)) = uio_offset (fst us) + int n" "snd (io_skip n us) = snd us"
  by (cases us; simp add: io_store_def io_skip_def)+

text \<open>Zeros are moved sixteen at a time.\<close>

lemma uiomovezeros_read:
  "io_ready n us \<Longrightarrow> uio_op (fst us) = UIO_READ \<Longrightarrow> uiomovezeros_loop n us = Ret () (io_store (replicate n 0) us)"
proof (induction n us rule: uiomovezeros_loop.induct)
  case (1 n us)
  show ?case
  proof (cases "n = 0")
    case False
    let ?k = "if 16 > n then n else 16"
    have k: "?k \<le> n" "?k \<le> 16" by auto
    let ?us = "io_store (replicate ?k 0) us"
    have move: "uiomove (replicate 16 0) 0 ?k us = Ret (replicate 16 0) ?us"
      using uiomove_read [OF io_ready_le [OF 1(2) k(1)] 1(3), of 0 "replicate 16 0"] k by simp
    have ready: "io_ready (n - ?k) ?us" using io_ready_store [of "replicate ?k 0" "n - ?k" us] 1(2) k by simp
    have "uiomovezeros_loop n us = uiomovezeros_loop (n - ?k) ?us"
      using False by (subst uiomovezeros_loop.simps) (simp only: Let_def move kbind.simps simp_thms if_True neq0_conv)
    also have "\<dots> = Ret () (io_store (replicate (n - ?k) 0) ?us)"
      by (rule 1(1) [OF _ refl]) (use False ready 1(3) in simp_all)
    also have "io_store (replicate (n - ?k) 0) ?us = io_store (replicate ?k 0 @ replicate (n - ?k) 0) us"
      by (rule io_store_append) (use 1(2) k in simp)
    finally show ?thesis using k by (simp add: replicate_add [symmetric])
  qed (simp add: uiomovezeros_loop.simps)
qed

subsection \<open>Strings\<close>

lemma copystr_loop_cstr:
  assumes "\<And>j. j \<le> length t \<Longrightarrow> get (i + j) = Some ((t @ [0]) ! j)" "0 \<notin> set t"
  shows "copystr_loop get (\<lambda>i c d. Some (d @ [c])) n i d =
    (if length t < n then Copied (i + length t + 1) (d @ t @ [0]) else Stopped (d @ take n t))"
  using assms
proof (induction n arbitrary: i d t)
  case (Suc n)
  show ?case
  proof (cases t)
    case Nil
    with Suc.prems(1) [of 0] show ?thesis by simp
  next
    case (Cons c r)
    have "get (Suc i + j) = Some ((r @ [0]) ! j)" if "j \<le> length r" for j
      using Suc.prems(1) [of "Suc j"] that Cons by simp
    with Suc.IH [of r "Suc i" "d @ [c]"] Suc.prems(1) [of 0] Suc.prems(2) Cons show ?thesis by simp
  qed
qed simp

text \<open>The bytes stored by \<^verbatim>\<open>copyinstr\<close> never exceed the length it was given.\<close>

lemma copystr_loop_length:
  "(case copystr_loop get (\<lambda>i c d. Some (d @ [c])) n i d of Copied g r \<Rightarrow> length r \<le> length d + n | Stopped r \<Rightarrow> length r \<le> length d + n | Faulted r \<Rightarrow> length r \<le> length d + n)"
proof (induction n arbitrary: i d)
  case (Suc n)
  show ?case using Suc.IH [where d = "d @ [the (get i)]" and i = "i + 1"] by (cases "get i") (auto split: copied.splits)
qed simp

section \<open>Properties\<close>

text \<open>
  C23. \<^verbatim>\<open>copyout\<close> writes only the user memory it was asked to write: whatever address and length a
  process passes, and whether the call succeeds or faults half way, no byte at or above
  \<^verbatim>\<open>USERTOP\<close> and none outside the \<open>len\<close> bytes at the destination changes, and the fault
  handler is unset again. It succeeds exactly when the block is not empty, lies below \<^verbatim>\<open>USERTOP\<close>
  and is writable, and then the block holds the source.
\<close>

theorem copyout_confined:
  assumes "\<not> badfaultfunc s" "length src = unat len"
  shows "outcome (copyout src userdest len s)
    (\<lambda>_ s'. user_range userdest (unat len) \<and> block (um_bytes s') userdest (unat len) = src) (\<lambda>e s'. e = EFAULT) \<and>
    ((\<exists>s'. copyout src userdest len s = Ret () s') \<longleftrightarrow> user_range userdest (unat len) \<and> (\<forall>i < unat len. um_writes s (userdest + of_nat i))) \<and>
    (\<forall>s' a. (copyout src userdest len s = Ret () s' \<or> copyout src userdest len s = Err EFAULT s') \<longrightarrow>
       \<not> badfaultfunc s' \<and> (a \<ge> USERTOP \<or> unat len \<le> unat (a - userdest) \<longrightarrow> um_bytes s' a = um_bytes s a))"
proof -
  have far: "unat len \<le> unat (a - userdest)" if "user_range userdest (unat len)" "a \<ge> USERTOP" for a
  proof -
    have "unat a \<ge> 2147483648" using that(2) by (simp add: USERTOP_def word_le_nat_alt)
    then have "userdest \<le> a" using that(1) by (simp add: user_range_def word_le_nat_alt)
    then have "unat (a - userdest) = unat a - unat userdest" by (simp add: unat_sub)
    with that(1) \<open>unat a \<ge> 2147483648\<close> show ?thesis by (auto simp: user_range_def)
  qed
  have keep: "store_block userdest (take n src) f a = f a" if "user_range userdest (unat len)" "a \<ge> USERTOP \<or> unat len \<le> unat (a - userdest)" for n f a
    using that(2) far [OF that(1), of a] assms(2) by (intro store_block_outside) (auto intro: min.coboundedI1 min.coboundedI2)
  have full: "block (store_block userdest src f) userdest (unat len) = src" for f
    using block_store_block [of src userdest f] unat_32_le [of len] assms(2) by simp
  show ?thesis
    unfolding copyout_cases [OF assms] using assms(1) full keep keep [of _ "length src"] by (auto split: if_splits)
qed

theorem copyout_confined_witness:
  "\<exists>s'. copyout [1, 2] 0x7ffffffe 2
      \<lparr>um_bytes = (\<lambda>_. 0), um_reads = (\<lambda>_. True), um_writes = (\<lambda>_. True), cur_vmspace = 1, badfaultfunc = False\<rparr> = Ret () s' \<and>
    um_bytes s' 0x80000000 = 0"
  using copyout_confined [where src = "[1, 2]" and len = 2 and userdest = "0x7ffffffe" and
      s = "\<lparr>um_bytes = (\<lambda>_. 0), um_reads = (\<lambda>_. True), um_writes = (\<lambda>_. True), cur_vmspace = 1, badfaultfunc = False\<rparr>"]
  by (auto simp: user_range_def USERTOP_def)

text \<open>
  \<^verbatim>\<open>copyinstr\<close> of a readable string below \<^verbatim>\<open>USERTOP\<close> returns the string with its null if both fit in
  \<open>len\<close> bytes, and fails with \<^verbatim>\<open>ENAMETOOLONG\<close> otherwise; it never stores more than \<open>len\<close> bytes.
\<close>

theorem copyinstr_string:
  assumes "\<not> badfaultfunc s" "user_range usersrc (unat len)" "0 \<notin> set t"
    "\<forall>i \<le> length t. um_reads s (usersrc + of_nat i) \<and> um_bytes s (usersrc + of_nat i) = (t @ [0]) ! i"
  shows "copyinstr usersrc len s = (if length t < unat len then Ret (t @ [0]) s else Err ENAMETOOLONG s)"
proof -
  have "copycheck usersrc len = Some len" using assms(2) by (simp add: copycheck_whole user_range_def)
  moreover have "s\<lparr>badfaultfunc := False\<rparr> = s" using assms(1) by simp
  moreover have "copystr_loop (\<lambda>i. if um_reads s (usersrc + of_nat i) then Some (um_bytes s (usersrc + of_nat i)) else None)
      (\<lambda>i c d. Some (d @ [c])) (unat len) 0 [] = (if length t < unat len then Copied (length t + 1) (t @ [0]) else Stopped (take (unat len) t))"
    using copystr_loop_cstr [where i = 0 and t = t and n = "unat len" and d = "[]" and
        get = "\<lambda>i. if um_reads s (usersrc + of_nat i) then Some (um_bytes s (usersrc + of_nat i)) else None"]
      assms(3,4) by simp
  ultimately show ?thesis by (simp add: copyinstr_def Let_def copystr_errno_def cong: if_cong)
qed

theorem copyinstr_string_example:
  "copyinstr 100 3 \<lparr>um_bytes = (\<lambda>a. if a = 102 then 0 else 65), um_reads = (\<lambda>_. True), um_writes = (\<lambda>_. False), cur_vmspace = 1, badfaultfunc = False\<rparr> =
   Ret [65, 65, 0] \<lparr>um_bytes = (\<lambda>a. if a = 102 then 0 else 65), um_reads = (\<lambda>_. True), um_writes = (\<lambda>_. False), cur_vmspace = 1, badfaultfunc = False\<rparr>"
  by (subst copyinstr_string [of _ 100 3 "[65, 65]"]) (auto simp: user_range_def nth_append le_Suc_eq)

text \<open>
  C40. A block of length zero cannot be copied: \<^verbatim>\<open>copyin\<close> and \<^verbatim>\<open>copyout\<close> of no bytes fail with \<^verbatim>\<open>EFAULT\<close> at
  every user address, valid or not, because \<^verbatim>\<open>copycheck\<close> takes the last byte of the block before its
  first for a block that wraps around.
\<close>

theorem copy_nothing_faults:
  "copyin p 0 s = Err EFAULT s \<and> copyout bs p 0 s = Err EFAULT s"
proof -
  have "copycheck p 0 \<noteq> Some 0" by (simp add: copycheck_whole)
  then show ?thesis by (cases "copycheck p 0") (simp_all add: copyin_def copyout_def)
qed

end
