(* ===== verification/KDisk.thy ===== *)
theory KDisk
  imports KUio "HOL-Library.Signed_Division"
begin

text \<open>
  The disk driver \<^verbatim>\<open>kern/dev/lamebus/lhd.c\<close>. The hardware is an argument: \<open>hw n\<close> is the status it reports
  for its \<open>n\<close>-th operation. An operation that it reports as \<^verbatim>\<open>LHD_OK\<close> has moved the on-card buffer to the
  sector or the sector to the buffer. The semaphores \<^verbatim>\<open>lh_clear\<close> and \<^verbatim>\<open>lh_done\<close> admit one caller at a time
  and make it wait for the interrupt, so the handling of one sector is one step here.
\<close>

section \<open>Model\<close>

record diskstate = iostate +
  d_sectors :: "nat \<Rightarrow> byte list"
  d_blocks :: nat
  lh_buf :: "byte list"
  lh_result :: "errno option"
  lh_ops :: nat

definition LHD_SECTSIZE :: nat where
  "LHD_SECTSIZE = 512"

definition LHD_IDLE :: "32 word" where "LHD_IDLE = 0"
definition LHD_WORKING :: "32 word" where "LHD_WORKING = 1"
definition LHD_OK :: "32 word" where "LHD_OK = 4"
definition LHD_INVSECT :: "32 word" where "LHD_INVSECT = 12"
definition LHD_MEDIA :: "32 word" where "LHD_MEDIA = 20"
definition LHD_ISWRITE :: "32 word" where "LHD_ISWRITE = 2"
definition LHD_STATEMASK :: "32 word" where "LHD_STATEMASK = 0x1d"

text \<open>\<open>None\<close> is success.\<close>

definition lhd_code_to_errno :: "32 word \<Rightarrow> errno option" where
  "lhd_code_to_errno code =
     (let st = code AND LHD_STATEMASK
      in if st = LHD_OK then None else if st = LHD_INVSECT then Some EINVAL else if st = LHD_MEDIA then Some EIO else Some EAGAIN)"

definition lhd_iodone :: "errno option \<Rightarrow> 'a diskstate_scheme \<Rightarrow> 'a diskstate_scheme" where
  "lhd_iodone err s = s\<lparr>lh_result := err\<rparr>"

text \<open>The interrupt handler; \<open>None\<close> when no operation has finished, so that the semaphore is not raised.\<close>

definition lhd_irq :: "32 word \<Rightarrow> 'a diskstate_scheme \<Rightarrow> 'a diskstate_scheme option" where
  "lhd_irq val s =
     (let st = val AND LHD_STATEMASK
      in if st = LHD_OK \<or> st = LHD_INVSECT \<or> st = LHD_MEDIA then Some (lhd_iodone (lhd_code_to_errno val) s) else None)"

text \<open>The device performs one operation and reports its status.\<close>

definition lhd_operate :: "(nat \<Rightarrow> 32 word) \<Rightarrow> bool \<Rightarrow> nat \<Rightarrow> 'a diskstate_scheme \<Rightarrow> 'a diskstate_scheme" where
  "lhd_operate hw write sect s =
     (let s' = s\<lparr>lh_ops := lh_ops s + 1\<rparr>
      in if hw (lh_ops s) AND LHD_STATEMASK \<noteq> LHD_OK then s'
         else if write then s'\<lparr>d_sectors := (d_sectors s)(sect := lh_buf s)\<rparr>
         else s'\<lparr>lh_buf := d_sectors s sect\<rparr>)"

text \<open>From the write of the status register to the return of \<^verbatim>\<open>P(lh_done)\<close>; an operation that never finishes is undefined.\<close>

definition lhd_start :: "(nat \<Rightarrow> 32 word) \<Rightarrow> bool \<Rightarrow> nat \<Rightarrow> 'a diskstate_scheme \<Rightarrow> 'a diskstate_scheme option" where
  "lhd_start hw write sect s = lhd_irq (hw (lh_ops s)) (lhd_operate hw write sect s)"

type_synonym 'a dio = "uio \<times> 'a diskstate_scheme"

text \<open>The body of the loop of \<^verbatim>\<open>lhd_io\<close> for one sector.\<close>

definition lhd_sector :: "(nat \<Rightarrow> 32 word) \<Rightarrow> nat \<Rightarrow> 'a dio \<Rightarrow> (unit, 'a dio) result" where
  "lhd_sector hw sect us =
     kbind (if uio_op (fst us) = UIO_WRITE then uiomove (lh_buf (snd us)) 0 LHD_SECTSIZE us else Ret (lh_buf (snd us)) us) (\<lambda>buf us.
       let s = (snd us)\<lparr>lh_buf := buf\<rparr>
       in case lhd_start hw (uio_op (fst us) = UIO_WRITE) sect s of
            None \<Rightarrow> Undef
          | Some s \<Rightarrow>
              (case lh_result s of
                 Some e \<Rightarrow> Err e (fst us, s)
               | None \<Rightarrow>
                   if uio_op (fst us) = UIO_READ
                   then kbind (uiomove (lh_buf s) 0 LHD_SECTSIZE (fst us, s)) (\<lambda>_ us. Ret () us)
                   else Ret () (fst us, s)))"

primrec lhd_io_loop :: "(nat \<Rightarrow> 32 word) \<Rightarrow> nat \<Rightarrow> nat \<Rightarrow> 'a dio \<Rightarrow> (unit, 'a dio) result" where
  "lhd_io_loop hw 0 sect us = Ret () us"
| "lhd_io_loop hw (Suc n) sect us = kbind (lhd_sector hw sect us) (\<lambda>_. lhd_io_loop hw n (sect + 1))"

definition lhd_io :: "(nat \<Rightarrow> 32 word) \<Rightarrow> 'a dio \<Rightarrow> (unit, 'a dio) result" where
  "lhd_io hw us =
     (let sector = nat (u32 (uio_offset (fst us) sdiv int LHD_SECTSIZE));
          sectoff = nat (u32 (uio_offset (fst us) smod int LHD_SECTSIZE));
          len = uio_resid (fst us) div LHD_SECTSIZE; lenoff = uio_resid (fst us) mod LHD_SECTSIZE
      in if sectoff \<noteq> 0 \<or> lenoff \<noteq> 0 then Err EINVAL us
         else if (sector + len) mod 4294967296 > d_blocks (snd us) then Err EINVAL us
         else lhd_io_loop hw len sector us)"

definition lhd_open :: "int \<Rightarrow> 'a diskstate_scheme \<Rightarrow> (unit, 'a diskstate_scheme) result" where
  "lhd_open openflags s = Ret () s"

definition lhd_close :: "'a diskstate_scheme \<Rightarrow> (unit, 'a diskstate_scheme) result" where
  "lhd_close s = Ret () s"

definition lhd_ioctl :: "int \<Rightarrow> 32 word \<Rightarrow> 'a diskstate_scheme \<Rightarrow> (unit, 'a diskstate_scheme) result" where
  "lhd_ioctl opn data s = Err EIOCTL s"

end
