(* ===== verification/KBitmap.thy ===== *)
theory KBitmap
  imports LMem
begin

text \<open>
  Arrays of bits, \<^verbatim>\<open>kern/lib/bitmap.c\<close>: the free-block map of a file system. The bits are kept in
  bytes, bit \<open>i\<close> in byte \<open>i div 8\<close>; the bits of the last byte beyond the end are marked in use. The
  abstraction is the set of used indices.
\<close>

section \<open>Model\<close>

record bitmap =
  nbits :: nat
  bm_v :: "byte list"

definition BITS_PER_WORD :: nat where
  "BITS_PER_WORD = 8"

definition WORD_ALLBITS :: byte where
  "WORD_ALLBITS = 0xff"

text \<open>\<^verbatim>\<open>DIVROUNDUP(nbits, BITS_PER_WORD)\<close> in 32-bit arithmetic.\<close>

definition bitmap_words :: "nat \<Rightarrow> nat" where
  "bitmap_words n = ((n + BITS_PER_WORD - 1) mod 2 ^ 32) div BITS_PER_WORD"

definition bm_read :: "bitmap \<Rightarrow> nat \<Rightarrow> byte option" where
  "bm_read b ix = (if ix < length (bm_v b) then Some (bm_v b ! ix) else None)"

text \<open>The bits after the last one are marked; \<open>j\<close> runs over \<open>overbits, \<dots>, 7\<close>.\<close>

primrec mark_over :: "nat list \<Rightarrow> nat \<Rightarrow> byte list \<Rightarrow> byte list" where
  "mark_over [] ix v = v"
| "mark_over (j # js) ix v = mark_over js ix (v[ix := v ! ix OR push_bit j 1])"

text \<open>
  The two requests of \<^verbatim>\<open>bitmap_create\<close> are answered by the arguments: whether there is room for the
  structure, and the block for the bits.
\<close>

definition bitmap_create :: "bool \<Rightarrow> (nat \<Rightarrow> byte list option) \<Rightarrow> nat \<Rightarrow> (bitmap option, unit) result" where
  "bitmap_create room km n =
     (let words = bitmap_words n
      in if \<not> room then Ret None ()
         else case km words of
           None \<Rightarrow> Ret None ()
         | Some v \<Rightarrow>
             if length v < words then Undef
             else let v = replicate words 0 @ drop words v
             in if n div BITS_PER_WORD < words
                then let ix = words - 1; overbits = n - ix * BITS_PER_WORD
                  in if n div BITS_PER_WORD \<noteq> words - 1 then Panic
                     else if \<not> (overbits > 0 \<and> overbits < BITS_PER_WORD) then Panic
                     else Ret (Some \<lparr>nbits = n, bm_v = mark_over [overbits..<BITS_PER_WORD] ix v\<rparr>) ()
                else Ret (Some \<lparr>nbits = n, bm_v = v\<rparr>) ())"

definition bitmap_getdata :: "bitmap \<Rightarrow> byte list" where
  "bitmap_getdata b = bm_v b"

text \<open>The scan of \<^verbatim>\<open>bitmap_alloc\<close> over the words from \<open>ix\<close> on, with \<open>n\<close> words left.\<close>

primrec bitmap_scan :: "nat \<Rightarrow> nat \<Rightarrow> bitmap \<Rightarrow> (nat, bitmap) result" where
  "bitmap_scan 0 ix b = Err ENOSPC b"
| "bitmap_scan (Suc n) ix b =
     (case bm_read b ix of
        None \<Rightarrow> Undef
      | Some w \<Rightarrow>
          if w \<noteq> WORD_ALLBITS
          then (case first_index (\<lambda>offset. w AND push_bit offset 1 = 0) [0..<BITS_PER_WORD] of
                  None \<Rightarrow> Panic
                | Some offset \<Rightarrow>
                    let index = ix * BITS_PER_WORD + offset
                    in if \<not> index < nbits b then Panic
                       else Ret index (b\<lparr>bm_v := (bm_v b)[ix := w OR push_bit offset 1]\<rparr>))
          else bitmap_scan n (ix + 1) b)"

definition bitmap_alloc :: "bitmap \<Rightarrow> (nat, bitmap) result" where
  "bitmap_alloc b = bitmap_scan (bitmap_words (nbits b)) 0 b"

definition bitmap_translate :: "nat \<Rightarrow> nat \<times> byte" where
  "bitmap_translate bitno = (bitno div BITS_PER_WORD, push_bit (bitno mod BITS_PER_WORD) 1)"

definition bitmap_mark :: "nat \<Rightarrow> bitmap \<Rightarrow> (unit, bitmap) result" where
  "bitmap_mark index b =
     (if \<not> index < nbits b then Panic
      else let (ix, mask) = bitmap_translate index
      in case bm_read b ix of
           None \<Rightarrow> Undef
         | Some w \<Rightarrow> if w AND mask \<noteq> 0 then Panic else Ret () (b\<lparr>bm_v := (bm_v b)[ix := w OR mask]\<rparr>))"

definition bitmap_unmark :: "nat \<Rightarrow> bitmap \<Rightarrow> (unit, bitmap) result" where
  "bitmap_unmark index b =
     (if \<not> index < nbits b then Panic
      else let (ix, mask) = bitmap_translate index
      in case bm_read b ix of
           None \<Rightarrow> Undef
         | Some w \<Rightarrow> if w AND mask = 0 then Panic else Ret () (b\<lparr>bm_v := (bm_v b)[ix := w AND NOT mask]\<rparr>))"

text \<open>\<^verbatim>\<open>bitmap_isset\<close> does not compare the index with the number of bits; it returns the masked word.\<close>

definition bitmap_isset :: "nat \<Rightarrow> bitmap \<Rightarrow> (byte, bitmap) result" where
  "bitmap_isset index b =
     (let (ix, mask) = bitmap_translate index
      in case bm_read b ix of None \<Rightarrow> Undef | Some w \<Rightarrow> Ret (w AND mask) b)"

section \<open>The set of used bits\<close>

definition bit_at :: "byte list \<Rightarrow> nat \<Rightarrow> bool" where
  "bit_at v i = bit (v ! (i div 8)) (i mod 8)"

definition used :: "bitmap \<Rightarrow> nat set" where
  "used b = {i. i < nbits b \<and> bit_at (bm_v b) i}"

definition bitmap_inv :: "bitmap \<Rightarrow> bool" where
  "bitmap_inv b \<longleftrightarrow> nbits b + 7 < 2 ^ 32 \<and> bitmap_words (nbits b) \<le> length (bm_v b) \<and>
     (\<forall>i. nbits b \<le> i \<and> i < 8 * bitmap_words (nbits b) \<longrightarrow> bit_at (bm_v b) i)"

declare push_bit_of_1 [simp del]

lemma bitmap_words_eq: "n + 7 < 2 ^ 32 \<Longrightarrow> bitmap_words n = (n + 7) div 8"
  by (simp add: bitmap_words_def BITS_PER_WORD_def)

lemma and_mask_eq_0: "(w :: byte) AND push_bit n 1 = 0 \<longleftrightarrow> \<not> bit w n" if "n < 8"
proof
  assume "w AND push_bit n 1 = 0"
  then have "bit (w AND push_bit n 1) n \<longleftrightarrow> bit (0 :: byte) n" by simp
  then show "\<not> bit w n" using that by (simp add: bit_simps)
next
  assume "\<not> bit w n"
  then show "w AND push_bit n 1 = 0" by (intro bit_eqI) (auto simp: bit_simps)
qed

lemma bit_or_mask: "bit ((w :: byte) OR push_bit n 1) m \<longleftrightarrow> bit w m \<or> (m = n \<and> n < 8)"
  by (auto simp: bit_simps)

lemma bit_and_not_mask: "bit ((w :: byte) AND NOT (push_bit n 1)) m \<longleftrightarrow> bit w m \<and> m \<noteq> n" if "m < 8"
  using that by (auto simp: bit_simps)

lemma all_bits: "(w :: byte) = WORD_ALLBITS \<longleftrightarrow> (\<forall>n < 8. bit w n)"
proof -
  have "WORD_ALLBITS = mask 8" by (simp add: WORD_ALLBITS_def mask_eq_exp_minus_1)
  then show ?thesis by (auto simp: bit_eq_iff [where ?'a = byte] bit_simps)
qed

lemma bit_at_update:
  "ix < length v \<Longrightarrow> bit_at (v[ix := w]) i \<longleftrightarrow> (if i div 8 = ix then bit w (i mod 8) else bit_at v i)"
  by (simp add: bit_at_def)

lemma index_word: "bitmap_inv b \<Longrightarrow> i < nbits b \<Longrightarrow> i div 8 < bitmap_words (nbits b) \<and> i div 8 < length (bm_v b)"
  by (auto simp: bitmap_inv_def bitmap_words_eq)

section \<open>What the routines do to the set\<close>

lemma bitmap_invD:
  assumes "bitmap_inv b"
  shows "nbits b \<le> 8 * bitmap_words (nbits b)" "8 * bitmap_words (nbits b) < nbits b + 8" "bitmap_words (nbits b) \<le> length (bm_v b)"
  using assms by (auto simp: bitmap_inv_def bitmap_words_eq)

text \<open>Setting bit \<open>o\<close> of word \<open>ix\<close> is adding an index; clearing it is removing one.\<close>

lemma set_bit_used:
  assumes "bitmap_inv b" "i < nbits b"
  shows "bitmap_inv (b\<lparr>bm_v := (bm_v b)[i div 8 := bm_v b ! (i div 8) OR push_bit (i mod 8) 1]\<rparr>)"
    "used (b\<lparr>bm_v := (bm_v b)[i div 8 := bm_v b ! (i div 8) OR push_bit (i mod 8) 1]\<rparr>) = insert i (used b)"
proof -
  have w: "i div 8 < length (bm_v b)" using index_word [OF assms] by simp
  have at: "bit_at ((bm_v b)[i div 8 := bm_v b ! (i div 8) OR push_bit (i mod 8) 1]) j \<longleftrightarrow> bit_at (bm_v b) j \<or> j = i" for j
  proof (cases "j div 8 = i div 8")
    case True
    then have "j mod 8 = i mod 8 \<longleftrightarrow> j = i" by (metis div_mult_mod_eq)
    with True w show ?thesis by (auto simp: bit_at_update bit_or_mask bit_at_def)
  qed (use w in \<open>auto simp: bit_at_update\<close>)
  show "bitmap_inv (b\<lparr>bm_v := (bm_v b)[i div 8 := bm_v b ! (i div 8) OR push_bit (i mod 8) 1]\<rparr>)"
    using assms by (simp add: bitmap_inv_def at)
  show "used (b\<lparr>bm_v := (bm_v b)[i div 8 := bm_v b ! (i div 8) OR push_bit (i mod 8) 1]\<rparr>) = insert i (used b)"
    using assms by (auto simp: used_def at)
qed

lemma clear_bit_used:
  assumes "bitmap_inv b" "i < nbits b"
  shows "bitmap_inv (b\<lparr>bm_v := (bm_v b)[i div 8 := bm_v b ! (i div 8) AND NOT (push_bit (i mod 8) 1)]\<rparr>)"
    "used (b\<lparr>bm_v := (bm_v b)[i div 8 := bm_v b ! (i div 8) AND NOT (push_bit (i mod 8) 1)]\<rparr>) = used b - {i}"
proof -
  have w: "i div 8 < length (bm_v b)" using index_word [OF assms] by simp
  have at: "bit_at ((bm_v b)[i div 8 := bm_v b ! (i div 8) AND NOT (push_bit (i mod 8) 1)]) j \<longleftrightarrow> bit_at (bm_v b) j \<and> j \<noteq> i" for j
  proof (cases "j div 8 = i div 8")
    case True
    then have "j mod 8 = i mod 8 \<longleftrightarrow> j = i" by (metis div_mult_mod_eq)
    with True w show ?thesis by (auto simp: bit_at_update bit_and_not_mask bit_at_def)
  qed (use w in \<open>auto simp: bit_at_update\<close>)
  show "bitmap_inv (b\<lparr>bm_v := (bm_v b)[i div 8 := bm_v b ! (i div 8) AND NOT (push_bit (i mod 8) 1)]\<rparr>)"
    using assms by (auto simp: bitmap_inv_def at)
  show "used (b\<lparr>bm_v := (bm_v b)[i div 8 := bm_v b ! (i div 8) AND NOT (push_bit (i mod 8) 1)]\<rparr>) = used b - {i}"
    by (auto simp: used_def at)
qed

lemma translate_bit:
  assumes "bitmap_inv b" "i < nbits b"
  shows "bitmap_translate i = (i div 8, push_bit (i mod 8) 1)" "bm_read b (i div 8) = Some (bm_v b ! (i div 8))"
    "bm_v b ! (i div 8) AND push_bit (i mod 8) 1 = 0 \<longleftrightarrow> i \<notin> used b"
  using index_word [OF assms] assms(2)
  by (simp_all add: bitmap_translate_def BITS_PER_WORD_def bm_read_def and_mask_eq_0 used_def bit_at_def)

lemma bitmap_mark_eq:
  assumes "bitmap_inv b" "i < nbits b"
  shows "i \<in> used b \<Longrightarrow> bitmap_mark i b = Panic"
    "i \<notin> used b \<Longrightarrow> \<exists>b'. bitmap_mark i b = Ret () b' \<and> bitmap_inv b' \<and> nbits b' = nbits b \<and> used b' = insert i (used b)"
  using translate_bit [OF assms] set_bit_used [OF assms] assms(2) by (simp_all add: bitmap_mark_def)

lemma bitmap_unmark_eq:
  assumes "bitmap_inv b" "i < nbits b"
  shows "i \<notin> used b \<Longrightarrow> bitmap_unmark i b = Panic"
    "i \<in> used b \<Longrightarrow> \<exists>b'. bitmap_unmark i b = Ret () b' \<and> bitmap_inv b' \<and> nbits b' = nbits b \<and> used b' = used b - {i}"
  using translate_bit [OF assms] clear_bit_used [OF assms] assms(2) by (simp_all add: bitmap_unmark_def)

lemma bitmap_isset_eq:
  assumes "bitmap_inv b" "i < nbits b"
  shows "\<exists>w. bitmap_isset i b = Ret w b \<and> (w \<noteq> 0 \<longleftrightarrow> i \<in> used b)"
  using translate_bit [OF assms] by (simp add: bitmap_isset_def)

lemma bitmap_scan_outcome:
  assumes "bitmap_inv b" "ix + n = bitmap_words (nbits b)" "\<forall>i < 8 * ix. bit_at (bm_v b) i"
  shows "outcome (bitmap_scan n ix b)
    (\<lambda>i b'. i < nbits b \<and> i \<notin> used b \<and> (\<forall>j < i. j \<in> used b) \<and> bitmap_inv b' \<and> nbits b' = nbits b \<and> used b' = insert i (used b))
    (\<lambda>e b'. e = ENOSPC \<and> b' = b \<and> used b = {..<nbits b})"
  using assms(2,3)
proof (induction n arbitrary: ix)
  case 0
  then show ?case using bitmap_invD [OF assms(1)] by (auto simp: used_def)
next
  case (Suc n)
  let ?w = "bm_v b ! ix"
  have ix: "ix < length (bm_v b)" using Suc.prems bitmap_invD(3) [OF assms(1)] by simp
  show ?case
  proof (cases "?w = WORD_ALLBITS")
    case True
    have "bit_at (bm_v b) i" if "i < 8 * (ix + 1)" for i
    proof (cases "i < 8 * ix")
      case False
      then have "i div 8 = ix" using that by (intro div_nat_eqI) auto
      with True show ?thesis by (simp add: all_bits bit_at_def)
    qed (use Suc.prems(2) in auto)
    then show ?thesis using Suc.IH [of "ix + 1"] Suc.prems(1) True ix by (simp add: bm_read_def)
  next
    case False
    then obtain o' where "first_index (\<lambda>offset. ?w AND push_bit offset 1 = 0) [0..<8] = Some o'"
      using all_bits [of ?w] and_mask_eq_0 [of _ ?w] by (cases "first_index (\<lambda>offset. ?w AND push_bit offset 1 = 0) [0..<8]") (auto simp: first_index_eq_None)
    then have o: "first_index (\<lambda>offset. ?w AND push_bit offset 1 = 0) [0..<8] = Some o'" "o' < 8" "\<not> bit ?w o'" "\<forall>j < o'. bit ?w j"
      by (auto simp: first_index_eq_Some and_mask_eq_0)
    let ?i = "ix * 8 + o'"
    have i: "?i div 8 = ix" "?i mod 8 = o'" using o(2) by simp_all
    then have free: "\<not> bit_at (bm_v b) ?i" using o(3) by (simp add: bit_at_def)
    have "?i < 8 * bitmap_words (nbits b)" using Suc.prems(1) o(2) by simp
    with free assms(1) have lt: "?i < nbits b" by (auto simp: bitmap_inv_def not_le [symmetric])
    have below: "bit_at (bm_v b) j" if "j < ?i" for j
    proof (cases "j < 8 * ix")
      case False
      then have j: "j div 8 = ix" using that o(2) by (intro div_nat_eqI) auto
      then have "j mod 8 < o'" using that False div_mult_mod_eq [of j 8] by linarith
      with j o(4) show ?thesis by (simp add: bit_at_def)
    qed (use Suc.prems(2) in auto)
    have "\<forall>j < ?i. j \<in> used b" using below lt by (auto simp: used_def)
    moreover have "?i \<notin> used b" using free by (simp add: used_def)
    ultimately show ?thesis
      using set_bit_used [OF assms(1) lt] False ix o(1) lt i by (simp add: bm_read_def BITS_PER_WORD_def)
  qed
qed

lemma bitmap_alloc_outcome:
  "bitmap_inv b \<Longrightarrow> outcome (bitmap_alloc b)
    (\<lambda>i b'. i < nbits b \<and> i \<notin> used b \<and> (\<forall>j < i. j \<in> used b) \<and> bitmap_inv b' \<and> nbits b' = nbits b \<and> used b' = insert i (used b))
    (\<lambda>e b'. e = ENOSPC \<and> b' = b \<and> used b = {..<nbits b})"
  using bitmap_scan_outcome [of b 0 "bitmap_words (nbits b)"] by (simp add: bitmap_alloc_def)

lemma nth_mark_over: "ix < length v \<Longrightarrow> bit (mark_over js ix v ! ix) n \<longleftrightarrow> bit (v ! ix) n \<or> (n \<in> set js \<and> n < 8)"
  by (induction js arbitrary: v) (auto simp: bit_or_mask)

lemma mark_over_frame: "i \<noteq> ix \<Longrightarrow> mark_over js ix v ! i = v ! i" "length (mark_over js ix v) = length v"
  by (induction js arbitrary: v) auto

text \<open>A new bitmap satisfies the invariant and has no used bit.\<close>

lemma bitmap_create_outcome:
  assumes "n + 7 < 2 ^ 32" "\<And>v. km (bitmap_words n) = Some v \<Longrightarrow> bitmap_words n \<le> length v"
  shows "outcome (bitmap_create room km n)
    (\<lambda>r _. case r of None \<Rightarrow> \<not> room \<or> km (bitmap_words n) = None | Some b \<Rightarrow> bitmap_inv b \<and> nbits b = n \<and> used b = {}) (\<lambda>_ _. False)"
proof (cases "room \<and> km (bitmap_words n) \<noteq> None")
  case True
  then obtain v where v: "km (bitmap_words n) = Some v" "room" by auto
  let ?w = "bitmap_words n" and ?z = "replicate (bitmap_words n) 0 @ drop (bitmap_words n) v"
  have w: "?w = (n + 7) div 8" using assms(1) by (rule bitmap_words_eq)
  have len: "?w \<le> length v" using assms(2) v(1) by blast
  have zero: "\<not> bit_at ?z i" if "i < 8 * ?w" for i
    using that by (simp add: bit_at_def nth_append less_mult_imp_div_less mult.commute)
  show ?thesis
  proof (cases "n div 8 < ?w")
    case True
    let ?o = "n - (?w - 1) * 8" and ?v = "mark_over [n - (?w - 1) * 8..<8] (?w - 1) ?z"
    have o: "n div 8 = ?w - 1" "0 < ?o" "?o < 8" using True w by auto
    have at: "bit_at ?v i \<longleftrightarrow> n \<le> i" if "i < 8 * ?w" for i
    proof (cases "i div 8 = ?w - 1")
      case True
      have "?w - 1 < length ?z" using that len by simp
      from nth_mark_over [OF this, of "[?o..<8]" "i mod 8"] True zero [OF that]
      have "bit_at ?v i \<longleftrightarrow> ?o \<le> i mod 8" by (simp add: bit_at_def)
      also have "\<dots> \<longleftrightarrow> n \<le> i" using True o div_mult_mod_eq [of i 8] div_mult_mod_eq [of n 8] by linarith
      finally show ?thesis .
    next
      case False
      moreover have "i div 8 < ?w" using that by (simp add: less_mult_imp_div_less mult.commute)
      ultimately have "i div 8 < n div 8" using o(1) by linarith
      then have "i < n" using div_le_mono [of n i 8] by linarith
      with False zero [OF that] show ?thesis by (simp add: bit_at_def mark_over_frame)
    qed
    have n: "n \<le> 8 * ?w" using w by simp
    have "bitmap_create room km n = Ret (Some \<lparr>nbits = n, bm_v = ?v\<rparr>) ()"
      using True o v len by (simp add: bitmap_create_def Let_def BITS_PER_WORD_def)
    moreover have "length ?v = length v" using len by (simp add: mark_over_frame)
    ultimately show ?thesis using at n len assms(1) by (auto simp: bitmap_inv_def used_def)
  next
    case False
    then have n: "8 * ?w = n" using w by linarith
    have "bitmap_create room km n = Ret (Some \<lparr>nbits = n, bm_v = ?z\<rparr>) ()"
      using False v len by (simp add: bitmap_create_def Let_def BITS_PER_WORD_def)
    then show ?thesis using zero n len assms(1) by (auto simp: bitmap_inv_def used_def)
  qed
qed (auto simp: bitmap_create_def Let_def)

section \<open>The contract of a free map\<close>

primrec take_many :: "('b \<Rightarrow> (nat, 'b) result) \<Rightarrow> nat \<Rightarrow> 'b \<Rightarrow> (nat list, 'b) result" where
  "take_many alloc 0 b = Ret [] b"
| "take_many alloc (Suc n) b = kbind (alloc b) (\<lambda>i b. kbind (take_many alloc n b) (\<lambda>is b. Ret (i # is) b))"

locale free_map =
  fixes inv :: "'b \<Rightarrow> bool" and places :: "'b \<Rightarrow> nat" and taken :: "'b \<Rightarrow> nat set"
    and alloc :: "'b \<Rightarrow> (nat, 'b) result" and free :: "nat \<Rightarrow> 'b \<Rightarrow> (unit, 'b) result"
  assumes taken_places: "inv b \<Longrightarrow> taken b \<subseteq> {..<places b}"
    and take_law: "inv b \<Longrightarrow> outcome (alloc b)
      (\<lambda>i b'. i < places b \<and> i \<notin> taken b \<and> inv b' \<and> places b' = places b \<and> taken b' = insert i (taken b))
      (\<lambda>e b'. e = ENOSPC \<and> b' = b \<and> taken b = {..<places b})"
    and give_law: "inv b \<Longrightarrow> i \<in> taken b \<Longrightarrow> outcome (free i b)
      (\<lambda>_ b'. inv b' \<and> places b' = places b \<and> taken b' = taken b - {i}) (\<lambda>_ _. False)"
begin

text \<open>As many requests succeed as there are free places, and no place is given out twice.\<close>

lemma take_many_distinct:
  "inv b \<Longrightarrow> card (taken b) + n \<le> places b \<Longrightarrow> outcome (take_many alloc n b)
     (\<lambda>is b'. inv b' \<and> places b' = places b \<and> length is = n \<and> distinct is \<and> set is \<inter> taken b = {} \<and> taken b' = taken b \<union> set is)
     (\<lambda>_ _. False)"
proof (induction n arbitrary: b)
  case (Suc n)
  have fin: "finite (taken b)" using taken_places [OF Suc.prems(1)] finite_subset by blast
  from take_law [OF Suc.prems(1)] show ?case
  proof (cases rule: outcome_cases)
    case (Ret i b')
    then have "card (taken b') + n \<le> places b'" using Suc.prems(2) fin by simp
    with Suc.IH [of b'] Ret show ?thesis by (cases "take_many alloc n b'") auto
  next
    case (Err e b')
    then show ?thesis using Suc.prems(2) by simp
  qed
qed simp

lemma take_then_give:
  "inv b \<Longrightarrow> outcome (kbind (alloc b) free) (\<lambda>_ b'. inv b' \<and> places b' = places b \<and> taken b' = taken b)
     (\<lambda>e b'. e = ENOSPC \<and> b' = b \<and> taken b = {..<places b})"
proof -
  assume b: "inv b"
  from take_law [OF b] show ?thesis
  proof (cases rule: outcome_cases)
    case (Ret i b')
    with give_law [of b' i] show ?thesis by (cases "free i b'") auto
  qed auto
qed

end

interpretation bm: free_map bitmap_inv nbits used bitmap_alloc bitmap_unmark
proof unfold_locales
  fix b assume b: "bitmap_inv b"
  show "used b \<subseteq> {..<nbits b}" by (auto simp: used_def)
  show "outcome (bitmap_alloc b)
      (\<lambda>i b'. i < nbits b \<and> i \<notin> used b \<and> bitmap_inv b' \<and> nbits b' = nbits b \<and> used b' = insert i (used b))
      (\<lambda>e b'. e = ENOSPC \<and> b' = b \<and> used b = {..<nbits b})"
    using bitmap_alloc_outcome [OF b] by (rule outcome_weaken) auto
  fix i assume i: "i \<in> used b"
  then have "i < nbits b" by (simp add: used_def)
  from bitmap_unmark_eq(2) [OF b this i] obtain b' where
    "bitmap_unmark i b = Ret () b'" "bitmap_inv b'" "nbits b' = nbits b" "used b' = used b - {i}" by blast
  then show "outcome (bitmap_unmark i b)
      (\<lambda>_ b'. bitmap_inv b' \<and> nbits b' = nbits b \<and> used b' = used b - {i}) (\<lambda>_ _. False)" by simp
qed

section \<open>Properties\<close>

text \<open>
  \<^verbatim>\<open>bitmap_alloc\<close> finds the lowest clear bit and sets it and no other; it fails with \<^verbatim>\<open>ENOSPC\<close>, leaving
  the map as it was, only when every bit is set. Its assertions, which rest on the bits beyond the
  end being marked, hold, and \<^verbatim>\<open>bitmap_unmark\<close> of what it returned gives the old set back.
\<close>

theorem bitmap_alloc_lowest:
  assumes "bitmap_inv b"
  shows "outcome (bitmap_alloc b)
    (\<lambda>i b'. bitmap_inv b' \<and> i < nbits b \<and> i \<notin> used b \<and> (\<forall>j < i. j \<in> used b) \<and> used b' = insert i (used b) \<and>
       (\<exists>b''. bitmap_unmark i b' = Ret () b'' \<and> used b'' = used b))
    (\<lambda>e b'. e = ENOSPC \<and> b' = b \<and> used b = {..<nbits b})"
  using bitmap_alloc_outcome [OF assms] bm.take_then_give [OF assms]
proof (elim outcome_cases)
  fix i b' u b''
  assume i: "bitmap_alloc b = Ret i b'" "i < nbits b \<and> i \<notin> used b \<and> (\<forall>j < i. j \<in> used b) \<and> bitmap_inv b' \<and> nbits b' = nbits b \<and> used b' = insert i (used b)"
    and "kbind (bitmap_alloc b) bitmap_unmark = Ret u b''" "bitmap_inv b'' \<and> nbits b'' = nbits b \<and> used b'' = used b"
  then show ?thesis by auto
qed auto

theorem bitmap_alloc_lowest_witness:
  "outcome (bitmap_alloc \<lparr>nbits = 11, bm_v = [0xff, 0xfb]\<rparr>) (\<lambda>i b'. i = 10 \<and> used b' = {..<11}) (\<lambda>_ _. False)"
proof -
  have bits: "bit_at [0xff, 0xfb] i \<longleftrightarrow> i \<noteq> 10" if "i < 16" for i
  proof -
    have "\<forall>i \<in> set [0..<16]. bit_at [0xff, 0xfb] i \<longleftrightarrow> i \<noteq> 10" by code_simp
    then show ?thesis using that by simp
  qed
  have words: "bitmap_words 11 = 2" by (simp add: bitmap_words_def BITS_PER_WORD_def)
  have inv: "bitmap_inv \<lparr>nbits = 11, bm_v = [0xff, 0xfb]\<rparr>" using bits words by (simp add: bitmap_inv_def)
  have used: "used \<lparr>nbits = 11, bm_v = [0xff, 0xfb]\<rparr> = {..<10}" using bits by (auto simp: used_def)
  have eleven: "{..<11 :: nat} = insert 10 {..<10}" by (simp add: lessThan_Suc [symmetric] eval_nat_numeral)
  show ?thesis
  proof (rule outcome_weaken [OF bitmap_alloc_lowest [OF inv]], unfold used, elim conjE)
    fix i :: nat and b'
    assume "i < nbits \<lparr>nbits = 11, bm_v = [0xff, 0xfb]\<rparr>" "i \<notin> {..<10}" and b': "used b' = insert i {..<10}"
    then have "i = 10" by simp
    with b' show "i = 10 \<and> used b' = {..<11}" by (simp only: eleven)
  qed simp_all
qed

text \<open>
  C31. Allocation succeeds as often as there are clear bits: \<open>n\<close> requests on a map with at least \<open>n\<close>
  clear bits all succeed and return \<open>n\<close> different indices that were clear before.
\<close>

theorem bitmap_alloc_many:
  assumes "bitmap_inv b" "card (used b) + n \<le> nbits b"
  shows "outcome (take_many bitmap_alloc n b)
    (\<lambda>is b'. bitmap_inv b' \<and> length is = n \<and> distinct is \<and> set is \<inter> used b = {} \<and> used b' = used b \<union> set is) (\<lambda>_ _. False)"
  by (rule outcome_weaken [OF bm.take_many_distinct [OF assms]]) auto

theorem bitmap_alloc_many_witness:
  "outcome (take_many bitmap_alloc 8 \<lparr>nbits = 8, bm_v = [0]\<rparr>) (\<lambda>is b'. length is = 8 \<and> distinct is \<and> used b' = set is) (\<lambda>_ _. False)"
proof -
  have words: "bitmap_words 8 = 1" by (simp add: bitmap_words_def BITS_PER_WORD_def)
  have inv: "bitmap_inv \<lparr>nbits = 8, bm_v = [0]\<rparr>" using words by (auto simp: bitmap_inv_def)
  have used: "used \<lparr>nbits = 8, bm_v = [0]\<rparr> = {}" by (auto simp: used_def bit_at_def)
  show ?thesis by (rule outcome_weaken [OF bitmap_alloc_many [OF inv]]) (auto simp: used)
qed

end
