(* ===== verification/KSfs.thy ===== *)
theory KSfs
  imports KDisk KBitmap KArray
begin

text \<open>
  The file system SFS: \<^verbatim>\<open>kern/fs/sfs/sfs_io.c\<close>, \<^verbatim>\<open>sfs_vnode.c\<close> and \<^verbatim>\<open>sfs_fs.c\<close>, with the on-disk structures of
  \<^verbatim>\<open>include/kern/sfs.h\<close>. The state extends the disk by the structure \<^verbatim>\<open>sfs_fs\<close> and by a store of the
  vnodes in memory, addressed by pointers. A routine with a \<^verbatim>\<open>uio\<close> works on a pair of the \<^verbatim>\<open>uio\<close> and the
  file system; the static buffers of the code are local blocks. What the code takes from the rest
  of the kernel is the record \<open>env\<close>: the disk hardware, the allocators and whether a lock can be
  created. A C string is the list of its bytes without the null.
\<close>

section \<open>On-disk structures\<close>

definition SFS_MAGIC :: "32 word" where "SFS_MAGIC = 0xabadf001"
definition SFS_BLOCKSIZE :: nat where "SFS_BLOCKSIZE = 512"
definition SFS_NDIRECT :: nat where "SFS_NDIRECT = 15"
definition SFS_DBPERIDB :: nat where "SFS_DBPERIDB = 128"
definition SFS_NAMELEN :: nat where "SFS_NAMELEN = 60"
definition SFS_SB_LOCATION :: "32 word" where "SFS_SB_LOCATION = 0"
definition SFS_ROOT_LOCATION :: "32 word" where "SFS_ROOT_LOCATION = 1"
definition SFS_MAP_LOCATION :: "32 word" where "SFS_MAP_LOCATION = 2"
definition SFS_NOINO :: "32 word" where "SFS_NOINO = 0"
definition SFS_BLOCKBITS :: nat where "SFS_BLOCKBITS = SFS_BLOCKSIZE * 8"
definition SFS_TYPE_INVAL :: "16 word" where "SFS_TYPE_INVAL = 0"
definition SFS_TYPE_FILE :: "16 word" where "SFS_TYPE_FILE = 1"
definition SFS_TYPE_DIR :: "16 word" where "SFS_TYPE_DIR = 2"

text \<open>\<^verbatim>\<open>SFS_ROUNDUP\<close> in unsigned 32-bit arithmetic.\<close>

definition SFS_BITMAPSIZE :: "32 word \<Rightarrow> 32 word" where
  "SFS_BITMAPSIZE nblocks = ((nblocks + of_nat SFS_BLOCKBITS - 1) div of_nat SFS_BLOCKBITS) * of_nat SFS_BLOCKBITS"

definition SFS_BITBLOCKS :: "32 word \<Rightarrow> 32 word" where
  "SFS_BITBLOCKS nblocks = SFS_BITMAPSIZE nblocks div of_nat SFS_BLOCKBITS"

record sfs_super =
  sp_magic :: "32 word"
  sp_nblocks :: "32 word"
  sp_volname :: "byte list"
  sp_reserved :: "32 word list"

record sfs_inode =
  sfi_size :: "32 word"
  sfi_type :: "16 word"
  sfi_linkcount :: "16 word"
  sfi_direct :: "32 word list"
  sfi_indirect :: "32 word"
  sfi_waste :: "32 word list"

record sfs_dir =
  sfd_ino :: "32 word"
  sfd_name :: "byte list"

text \<open>Memory layout, the most significant byte first.\<close>

definition encode_super :: "sfs_super \<Rightarrow> byte list" where
  "encode_super sp = be32 (sp_magic sp) @ be32 (sp_nblocks sp) @ sp_volname sp @ be_words (sp_reserved sp)"

definition decode_super :: "byte list \<Rightarrow> sfs_super" where
  "decode_super bs = \<lparr>sp_magic = de32 (take 4 bs), sp_nblocks = de32 (take 4 (drop 4 bs)),
     sp_volname = take 32 (drop 8 bs), sp_reserved = de_words 118 (drop 40 bs)\<rparr>"

definition encode_inode :: "sfs_inode \<Rightarrow> byte list" where
  "encode_inode i = be32 (sfi_size i) @ be16 (sfi_type i) @ be16 (sfi_linkcount i) @ be_words (sfi_direct i)
     @ be32 (sfi_indirect i) @ be_words (sfi_waste i)"

definition decode_inode :: "byte list \<Rightarrow> sfs_inode" where
  "decode_inode bs = \<lparr>sfi_size = de32 (take 4 bs), sfi_type = de16 (take 2 (drop 4 bs)), sfi_linkcount = de16 (take 2 (drop 6 bs)),
     sfi_direct = de_words SFS_NDIRECT (drop 8 bs), sfi_indirect = de32 (take 4 (drop 68 bs)), sfi_waste = de_words 110 (drop 72 bs)\<rparr>"

definition encode_dir :: "sfs_dir \<Rightarrow> byte list" where
  "encode_dir d = be32 (sfd_ino d) @ sfd_name d"

definition decode_dir :: "byte list \<Rightarrow> sfs_dir" where
  "decode_dir bs = \<lparr>sfd_ino = de32 (take 4 bs), sfd_name = take SFS_NAMELEN (drop 4 bs)\<rparr>"

section \<open>State\<close>

datatype sfs_ops = SFS_FILEOPS | SFS_DIROPS

record sfs_vnode =
  sv_refcount :: int
  sv_opencount :: int
  sv_ops :: sfs_ops
  sv_i :: sfs_inode
  sv_ino :: "32 word"
  sv_dirty :: bool

record sfs_fs = diskstate +
  sfs_super :: sfs_super
  sfs_superdirty :: bool
  sfs_vnodes :: "32 word karray"
  sfs_freemap :: bitmap
  sfs_freemapdirty :: bool
  sfs_pool :: "32 word \<Rightarrow> sfs_vnode option"

record env =
  env_hw :: "nat \<Rightarrow> 32 word"
  env_km :: "32 word allocator"
  env_sv :: "(32 word \<Rightarrow> sfs_vnode option) \<Rightarrow> 32 word"
  env_lock :: "(32 word \<Rightarrow> sfs_vnode option) \<Rightarrow> bool"

type_synonym 'v sres = "('v, sfs_fs) result"

type_synonym sio = "uio \<times> sfs_fs"

definition set_sv :: "32 word \<Rightarrow> (sfs_vnode \<Rightarrow> sfs_vnode) \<Rightarrow> sfs_fs \<Rightarrow> sfs_fs" where
  "set_sv p f s = s\<lparr>sfs_pool := (sfs_pool s)(p := map_option f (sfs_pool s p))\<rparr>"

definition set_inode :: "32 word \<Rightarrow> (sfs_inode \<Rightarrow> sfs_inode) \<Rightarrow> sfs_fs \<Rightarrow> sfs_fs" where
  "set_inode p f = set_sv p (\<lambda>v. v\<lparr>sv_i := f (sv_i v), sv_dirty := True\<rparr>)"

section \<open>Block I/O\<close>

text \<open>
  \<^verbatim>\<open>sfs_rwblock\<close> with \<open>n\<close> retries left: it calls the device again, with the same \<^verbatim>\<open>uio\<close> as the
  device has left it, up to ten times after an I/O error.
\<close>

primrec sfs_try :: "(nat \<Rightarrow> 32 word) \<Rightarrow> nat \<Rightarrow> 'a dio \<Rightarrow> (unit, 'a dio) result" where
  "sfs_try hw 0 us = (case lhd_io hw us of Err e us \<Rightarrow> if e = EINVAL then Panic else Err e us | r \<Rightarrow> r)"
| "sfs_try hw (Suc n) us =
     (case lhd_io hw us of
        Err e us \<Rightarrow> if e = EINVAL then Panic else if e = EIO then sfs_try hw n us else Err e us
      | r \<Rightarrow> r)"

definition sfs_rwblock :: "(nat \<Rightarrow> 32 word) \<Rightarrow> 'a dio \<Rightarrow> (unit, 'a dio) result" where
  "sfs_rwblock hw us = sfs_try hw 10 us"

definition SFSUIO :: "byte list \<Rightarrow> 32 word \<Rightarrow> uio_rw \<Rightarrow> uio" where
  "SFSUIO ptr blk rw = mk_kuio ptr SFS_BLOCKSIZE (s32 (s32 (uint blk) * int SFS_BLOCKSIZE)) rw"

text \<open>A local \<^verbatim>\<open>uio\<close> is dropped when the routine returns.\<close>

fun drop_uio :: "(uio \<Rightarrow> 'v) \<Rightarrow> (unit, uio \<times> 's) result \<Rightarrow> ('v, 's) result" where
  "drop_uio f (Ret _ (u, s)) = Ret (f u) s"
| "drop_uio f (Err e (u, s)) = Err e s"
| "drop_uio f Panic = Panic"
| "drop_uio f Undef = Undef"

text \<open>The result of \<^verbatim>\<open>sfs_rblock\<close> is the block read; the old contents of the buffer are overwritten.\<close>

definition sfs_rblock :: "(nat \<Rightarrow> 32 word) \<Rightarrow> 32 word \<Rightarrow> 'a diskstate_scheme \<Rightarrow> (byte list, 'a diskstate_scheme) result" where
  "sfs_rblock hw blk s = drop_uio iov_kblock (sfs_rwblock hw (SFSUIO (replicate SFS_BLOCKSIZE 0) blk UIO_READ, s))"

definition sfs_wblock :: "(nat \<Rightarrow> 32 word) \<Rightarrow> byte list \<Rightarrow> 32 word \<Rightarrow> 'a diskstate_scheme \<Rightarrow> (unit, 'a diskstate_scheme) result" where
  "sfs_wblock hw data blk s = drop_uio (\<lambda>_. ()) (sfs_rwblock hw (SFSUIO data blk UIO_WRITE, s))"

section \<open>Space allocation\<close>

definition sfs_clearblock :: "(nat \<Rightarrow> 32 word) \<Rightarrow> 32 word \<Rightarrow> 'a diskstate_scheme \<Rightarrow> (unit, 'a diskstate_scheme) result" where
  "sfs_clearblock hw blk s = sfs_wblock hw (replicate SFS_BLOCKSIZE 0) blk s"

definition sfs_sync_inode :: "env \<Rightarrow> 32 word \<Rightarrow> sfs_fs \<Rightarrow> unit sres" where
  "sfs_sync_inode E sv s =
     deref (sfs_pool s sv) (\<lambda>v.
       if sv_dirty v
       then kbind (sfs_wblock (env_hw E) (encode_inode (sv_i v)) (sv_ino v) s) (\<lambda>_ s. Ret () (set_sv sv (\<lambda>v. v\<lparr>sv_dirty := False\<rparr>) s))
       else Ret () s)"

definition sfs_balloc :: "env \<Rightarrow> sfs_fs \<Rightarrow> (32 word) sres" where
  "sfs_balloc E s =
     kbind (in_part (\<lambda>b. s\<lparr>sfs_freemap := b\<rparr>) (bitmap_alloc (sfs_freemap s))) (\<lambda>i s.
       let diskblock = of_nat i; s = s\<lparr>sfs_freemapdirty := True\<rparr>
       in if diskblock \<ge> sp_nblocks (sfs_super s) then Panic
          else kbind (sfs_clearblock (env_hw E) diskblock s) (\<lambda>_ s. Ret diskblock s))"

definition sfs_bfree :: "32 word \<Rightarrow> sfs_fs \<Rightarrow> unit sres" where
  "sfs_bfree diskblock s =
     kbind (in_part (\<lambda>b. s\<lparr>sfs_freemap := b\<rparr>) (bitmap_unmark (unat diskblock) (sfs_freemap s))) (\<lambda>_ s.
       Ret () (s\<lparr>sfs_freemapdirty := True\<rparr>))"

definition sfs_bused :: "32 word \<Rightarrow> sfs_fs \<Rightarrow> bool sres" where
  "sfs_bused diskblock s =
     (if diskblock \<ge> sp_nblocks (sfs_super s) then Panic
      else kbind (in_part (\<lambda>b. s) (bitmap_isset (unat diskblock) (sfs_freemap s))) (\<lambda>w s. Ret (w \<noteq> 0) s))"

section \<open>Block mapping\<close>

text \<open>The end of \<^verbatim>\<open>sfs_bmap\<close>: a mapped block must be marked in use.\<close>

definition bmap_result :: "32 word \<Rightarrow> sfs_fs \<Rightarrow> (32 word) sres" where
  "bmap_result blk s =
     (if blk \<noteq> 0 then kbind (sfs_bused blk s) (\<lambda>b s. if \<not> b then Panic else Ret blk s) else Ret blk s)"

definition bmap_direct :: "env \<Rightarrow> 32 word \<Rightarrow> nat \<Rightarrow> bool \<Rightarrow> sfs_fs \<Rightarrow> (32 word) sres" where
  "bmap_direct E sv fileblock doalloc s =
     deref (sfs_pool s sv) (\<lambda>v.
       let blk = sfi_direct (sv_i v) ! fileblock
       in if blk = 0 \<and> doalloc
          then kbind (sfs_balloc E s) (\<lambda>blk s.
            bmap_result blk (set_inode sv (\<lambda>i. i\<lparr>sfi_direct := (sfi_direct i)[fileblock := blk]\<rparr>) s))
          else bmap_result blk s)"

text \<open>The indirect block: its number and its contents, allocated or read.\<close>

definition bmap_idblock :: "env \<Rightarrow> 32 word \<Rightarrow> sfs_fs \<Rightarrow> (32 word \<times> 32 word list) sres" where
  "bmap_idblock E sv s =
     deref (sfs_pool s sv) (\<lambda>v.
       let idblock = sfi_indirect (sv_i v)
       in if idblock = 0
          then kbind (sfs_balloc E s) (\<lambda>idblock s.
            Ret (idblock, replicate SFS_DBPERIDB 0) (set_inode sv (\<lambda>i. i\<lparr>sfi_indirect := idblock\<rparr>) s))
          else kbind (sfs_rblock (env_hw E) idblock s) (\<lambda>data s. Ret (idblock, de_words SFS_DBPERIDB data) s))"

definition bmap_indirect :: "env \<Rightarrow> 32 word \<Rightarrow> nat \<Rightarrow> bool \<Rightarrow> sfs_fs \<Rightarrow> (32 word) sres" where
  "bmap_indirect E sv fileblock doalloc s =
     (let idnum = fileblock div SFS_DBPERIDB; idoff = fileblock mod SFS_DBPERIDB
      in if idnum > 0 then Err EINVAL s
         else deref (sfs_pool s sv) (\<lambda>v.
           if sfi_indirect (sv_i v) = 0 \<and> \<not> doalloc then Ret 0 s
           else kbind (bmap_idblock E sv s) (\<lambda>(idblock, idbuf) s.
             let blk = idbuf ! idoff
             in if blk = 0 \<and> doalloc
                then kbind (sfs_balloc E s) (\<lambda>blk s.
                  kbind (sfs_wblock (env_hw E) (be_words (idbuf[idoff := blk])) idblock s) (\<lambda>_ s. bmap_result blk s))
                else bmap_result blk s)))"

definition sfs_bmap :: "env \<Rightarrow> 32 word \<Rightarrow> nat \<Rightarrow> bool \<Rightarrow> sfs_fs \<Rightarrow> (32 word) sres" where
  "sfs_bmap E sv fileblock doalloc s =
     (if fileblock < SFS_NDIRECT then bmap_direct E sv fileblock doalloc s
      else bmap_indirect E sv (fileblock - SFS_NDIRECT) doalloc s)"

section \<open>File I/O\<close>

text \<open>A routine of the file system called while a \<^verbatim>\<open>uio\<close> is at hand.\<close>

abbreviation with_uio :: "uio \<Rightarrow> 'v sres \<Rightarrow> ('v, sio) result" where
  "with_uio u \<equiv> in_part (Pair u)"

definition uio_fileblock :: "uio \<Rightarrow> nat" where
  "uio_fileblock u = nat (u32 (uio_offset u sdiv int SFS_BLOCKSIZE))"

definition sfs_partialio :: "env \<Rightarrow> 32 word \<Rightarrow> nat \<Rightarrow> nat \<Rightarrow> sio \<Rightarrow> (unit, sio) result" where
  "sfs_partialio E sv skipstart len us =
     (let doalloc = (uio_op (fst us) = UIO_WRITE)
      in if \<not> skipstart + len \<le> SFS_BLOCKSIZE then Panic
         else kbind (with_uio (fst us) (sfs_bmap E sv (uio_fileblock (fst us)) doalloc (snd us))) (\<lambda>diskblock us.
           kbind (if diskblock = 0
                  then (if uio_op (fst us) \<noteq> UIO_READ then Panic else Ret (replicate SFS_BLOCKSIZE 0) us)
                  else with_uio (fst us) (sfs_rblock (env_hw E) diskblock (snd us))) (\<lambda>iobuf us.
           kbind (uiomove iobuf skipstart len us) (\<lambda>iobuf us.
             if uio_op (fst us) = UIO_WRITE
             then with_uio (fst us) (sfs_wblock (env_hw E) iobuf diskblock (snd us))
             else Ret () us))))"

text \<open>The device moves the data itself; afterwards the offset and the residue are put back, also after an error.\<close>

definition blockio_restore :: "int \<Rightarrow> nat \<Rightarrow> int \<Rightarrow> sio \<Rightarrow> sio" where
  "blockio_restore saveoff saveres diskoff us =
     ((fst us)\<lparr>uio_offset := s32 ((uio_offset (fst us) - diskoff) + saveoff),
        uio_resid := nat (u32 ((int (uio_resid (fst us)) - int SFS_BLOCKSIZE) + int saveres))\<rparr>, snd us)"

definition sfs_blockio :: "env \<Rightarrow> 32 word \<Rightarrow> sio \<Rightarrow> (unit, sio) result" where
  "sfs_blockio E sv us =
     (let doalloc = (uio_op (fst us) = UIO_WRITE)
      in kbind (with_uio (fst us) (sfs_bmap E sv (uio_fileblock (fst us)) doalloc (snd us))) (\<lambda>diskblock us.
        if diskblock = 0 then (if uio_op (fst us) \<noteq> UIO_READ then Panic else uiomovezeros SFS_BLOCKSIZE us)
        else let saveoff = uio_offset (fst us); diskoff = s32 (uint diskblock * int SFS_BLOCKSIZE)
          in if \<not> uio_resid (fst us) \<ge> SFS_BLOCKSIZE then Panic
             else in_part (blockio_restore saveoff (uio_resid (fst us)) diskoff)
               (sfs_rwblock (env_hw E) ((fst us)\<lparr>uio_offset := diskoff, uio_resid := SFS_BLOCKSIZE\<rparr>, snd us))))"

primrec sfs_blocks :: "env \<Rightarrow> 32 word \<Rightarrow> nat \<Rightarrow> sio \<Rightarrow> (unit, sio) result" where
  "sfs_blocks E sv 0 us = Ret () us"
| "sfs_blocks E sv (Suc n) us = kbind (sfs_blockio E sv us) (\<lambda>_. sfs_blocks E sv n)"

text \<open>The leading partial block, the whole blocks and the partial block at the end.\<close>

definition io_lead :: "env \<Rightarrow> 32 word \<Rightarrow> sio \<Rightarrow> (unit, sio) result" where
  "io_lead E sv us =
     (let blkoff = nat (u32 (uio_offset (fst us) smod int SFS_BLOCKSIZE))
      in if blkoff \<noteq> 0
         then let len = SFS_BLOCKSIZE - blkoff; len = (if len > uio_resid (fst us) then uio_resid (fst us) else len)
           in sfs_partialio E sv blkoff len us
         else Ret () us)"

definition io_body :: "env \<Rightarrow> 32 word \<Rightarrow> sio \<Rightarrow> (unit, sio) result" where
  "io_body E sv us =
     kbind (io_lead E sv us) (\<lambda>_ us.
       if uio_resid (fst us) = 0 then Ret () us
       else if uio_offset (fst us) smod int SFS_BLOCKSIZE \<noteq> 0 then Panic
       else kbind (sfs_blocks E sv (uio_resid (fst us) div SFS_BLOCKSIZE) us) (\<lambda>_ us.
         if \<not> uio_resid (fst us) < SFS_BLOCKSIZE then Panic
         else if uio_resid (fst us) > 0 then sfs_partialio E sv 0 (uio_resid (fst us)) us
         else Ret () us))"

text \<open>At the label \<^verbatim>\<open>out\<close>: the file grows, and what lies beyond its end is added back to the residue.\<close>

definition io_out :: "32 word \<Rightarrow> nat \<Rightarrow> sio \<Rightarrow> sio" where
  "io_out sv extraresid us =
     (let s = (case sfs_pool (snd us) sv of
                 None \<Rightarrow> snd us
               | Some v \<Rightarrow>
                   if uio_op (fst us) = UIO_WRITE \<and> uio_offset (fst us) > s32 (uint (sfi_size (sv_i v)))
                   then set_inode sv (\<lambda>i. i\<lparr>sfi_size := word_of_int (uio_offset (fst us))\<rparr>) (snd us) else snd us)
      in ((fst us)\<lparr>uio_resid := (uio_resid (fst us) + extraresid) mod 4294967296\<rparr>, s))"

definition sfs_io :: "env \<Rightarrow> 32 word \<Rightarrow> sio \<Rightarrow> (unit, sio) result" where
  "sfs_io E sv us =
     deref (sfs_pool (snd us) sv) (\<lambda>v.
       if uio_op (fst us) = UIO_READ
       then let fsize = s32 (uint (sfi_size (sv_i v))); endpos = s32 (uio_offset (fst us) + int (uio_resid (fst us)))
         in if uio_offset (fst us) \<ge> fsize then Ret () us
            else if endpos > fsize
            then let extraresid = nat (u32 (endpos - fsize))
              in if \<not> uio_resid (fst us) > extraresid then Panic
                 else in_part (io_out sv extraresid) (io_body E sv ((fst us)\<lparr>uio_resid := uio_resid (fst us) - extraresid\<rparr>, snd us))
            else in_part (io_out sv 0) (io_body E sv us)
       else in_part (io_out sv 0) (io_body E sv us))"

section \<open>Directories\<close>

definition DIRSIZE :: nat where
  "DIRSIZE = 64"

definition sfs_readdir :: "env \<Rightarrow> 32 word \<Rightarrow> int \<Rightarrow> sfs_fs \<Rightarrow> sfs_dir sres" where
  "sfs_readdir E sv slot s =
     (case sfs_io E sv (mk_kuio (replicate DIRSIZE 0) DIRSIZE (s32 (slot * int DIRSIZE)) UIO_READ, s) of
        Ret _ (ku, s) \<Rightarrow> if uio_resid ku > 0 then Panic else Ret (decode_dir (iov_kblock ku)) s
      | Err e (ku, s) \<Rightarrow> Err e s
      | Panic \<Rightarrow> Panic
      | Undef \<Rightarrow> Undef)"

definition sfs_writedir :: "env \<Rightarrow> 32 word \<Rightarrow> sfs_dir \<Rightarrow> int \<Rightarrow> sfs_fs \<Rightarrow> unit sres" where
  "sfs_writedir E sv sd slot s =
     (if \<not> slot \<ge> 0 then Panic
      else case sfs_io E sv (mk_kuio (encode_dir sd) DIRSIZE (s32 (slot * int DIRSIZE)) UIO_WRITE, s) of
        Ret _ (ku, s) \<Rightarrow> if uio_resid ku > 0 then Panic else Ret () s
      | Err e (ku, s) \<Rightarrow> Err e s
      | Panic \<Rightarrow> Panic
      | Undef \<Rightarrow> Undef)"

definition sfs_dir_nentries :: "32 word \<Rightarrow> sfs_fs \<Rightarrow> int sres" where
  "sfs_dir_nentries sv s =
     deref (sfs_pool s sv) (\<lambda>v.
       if sfi_type (sv_i v) \<noteq> SFS_TYPE_DIR then Panic
       else if unat (sfi_size (sv_i v)) mod DIRSIZE \<noteq> 0 then Panic
       else Ret (int (unat (sfi_size (sv_i v)) div DIRSIZE)) s)"

text \<open>
  The loop of \<^verbatim>\<open>sfs_dir_findname\<close> from slot \<open>i\<close> on with \<open>n\<close> slots left. \<open>found\<close> is the inode number and the
  slot of the name, \<open>emptyslot\<close> the last free slot seen.
\<close>

primrec findname_loop ::
  "env \<Rightarrow> 32 word \<Rightarrow> byte list \<Rightarrow> nat \<Rightarrow> int \<Rightarrow> (32 word \<times> int) option \<Rightarrow> int option \<Rightarrow> sfs_fs \<Rightarrow> ((32 word \<times> int) option \<times> int option) sres" where
  "findname_loop E sv name 0 i found emptyslot s = Ret (found, emptyslot) s"
| "findname_loop E sv name (Suc n) i found emptyslot s =
     kbind (sfs_readdir E sv i s) (\<lambda>tsd s.
       if sfd_ino tsd = SFS_NOINO then findname_loop E sv name n (i + 1) found (Some i) s
       else if takeWhile (\<lambda>c. c \<noteq> 0) (take (SFS_NAMELEN - 1) (sfd_name tsd)) = name
       then (if found \<noteq> None then Panic else findname_loop E sv name n (i + 1) (Some (sfd_ino tsd, i)) emptyslot s)
       else findname_loop E sv name n (i + 1) found emptyslot s)"

text \<open>\<^verbatim>\<open>ENOENT\<close> is \<open>None\<close> in the first component; \<^verbatim>\<open>*emptyslot\<close> is the second.\<close>

definition sfs_dir_findname :: "env \<Rightarrow> 32 word \<Rightarrow> byte list \<Rightarrow> sfs_fs \<Rightarrow> ((32 word \<times> int) option \<times> int option) sres" where
  "sfs_dir_findname E sv name s =
     kbind (sfs_dir_nentries sv s) (\<lambda>nentries s. findname_loop E sv name (nat nentries) 0 None None s)"

definition sfs_dir_link :: "env \<Rightarrow> 32 word \<Rightarrow> byte list \<Rightarrow> 32 word \<Rightarrow> sfs_fs \<Rightarrow> int sres" where
  "sfs_dir_link E sv name ino s =
     kbind (sfs_dir_findname E sv name s) (\<lambda>(found, emptyslot) s.
       if found \<noteq> None then Err EEXIST s
       else if length name + 1 > SFS_NAMELEN then Err ENAMETOOLONG s
       else kbind (case emptyslot of Some i \<Rightarrow> Ret i s | None \<Rightarrow> sfs_dir_nentries sv s) (\<lambda>slot s.
         let sd = \<lparr>sfd_ino = ino, sfd_name = name @ replicate (SFS_NAMELEN - length name) 0\<rparr>
         in kbind (sfs_writedir E sv sd slot s) (\<lambda>_ s. Ret slot s)))"

definition sfs_dir_unlink :: "env \<Rightarrow> 32 word \<Rightarrow> int \<Rightarrow> sfs_fs \<Rightarrow> unit sres" where
  "sfs_dir_unlink E sv slot s =
     sfs_writedir E sv \<lparr>sfd_ino = SFS_NOINO, sfd_name = replicate SFS_NAMELEN 0\<rparr> slot s"

section \<open>Vnodes\<close>

text \<open>Truncation: the loop over the direct blocks, then the one over the indirect block.\<close>

primrec truncate_direct :: "32 word \<Rightarrow> nat \<Rightarrow> nat list \<Rightarrow> sfs_fs \<Rightarrow> unit sres" where
  "truncate_direct sv blocklen [] s = Ret () s"
| "truncate_direct sv blocklen (i # is) s =
     deref (sfs_pool s sv) (\<lambda>v.
       let blk = sfi_direct (sv_i v) ! i
       in if i \<ge> blocklen \<and> blk \<noteq> 0
          then kbind (sfs_bfree blk s) (\<lambda>_ s.
            truncate_direct sv blocklen is (set_inode sv (\<lambda>n. n\<lparr>sfi_direct := (sfi_direct n)[i := 0]\<rparr>) s))
          else truncate_direct sv blocklen is s)"

text \<open>The result is the new indirect block, \<^verbatim>\<open>iddirty\<close> and \<^verbatim>\<open>hasnonzero\<close>.\<close>

primrec truncate_ids :: "nat \<Rightarrow> nat \<Rightarrow> 32 word list \<Rightarrow> sfs_fs \<Rightarrow> (32 word list \<times> bool \<times> bool) sres" where
  "truncate_ids blocklen j [] s = Ret ([], False, False) s"
| "truncate_ids blocklen j (b # bs) s =
     (if blocklen < SFS_NDIRECT + j \<and> b \<noteq> 0
      then kbind (sfs_bfree b s) (\<lambda>_ s. kbind (truncate_ids blocklen (j + 1) bs s) (\<lambda>(bs, dirty, nz) s. Ret (0 # bs, True, nz) s))
      else kbind (truncate_ids blocklen (j + 1) bs s) (\<lambda>(bs, dirty, nz) s. Ret (b # bs, dirty, b \<noteq> 0 \<or> nz) s))"

definition truncate_indirect :: "env \<Rightarrow> 32 word \<Rightarrow> nat \<Rightarrow> sfs_fs \<Rightarrow> unit sres" where
  "truncate_indirect E sv blocklen s =
     deref (sfs_pool s sv) (\<lambda>v.
       let idblock = sfi_indirect (sv_i v); highblock = SFS_NDIRECT + SFS_DBPERIDB - 1
       in if blocklen < highblock \<and> idblock \<noteq> 0
          then kbind (sfs_rblock (env_hw E) idblock s) (\<lambda>data s.
            kbind (truncate_ids blocklen 0 (de_words SFS_DBPERIDB data) s) (\<lambda>(idbuf, iddirty, hasnonzero) s.
              if \<not> hasnonzero
              then kbind (sfs_bfree idblock s) (\<lambda>_ s. Ret () (set_inode sv (\<lambda>n. n\<lparr>sfi_indirect := 0\<rparr>) s))
              else if iddirty then sfs_wblock (env_hw E) (be_words idbuf) idblock s
              else Ret () s))
          else Ret () s)"

definition sfs_truncate :: "env \<Rightarrow> 32 word \<Rightarrow> int \<Rightarrow> sfs_fs \<Rightarrow> unit sres" where
  "sfs_truncate E sv len s =
     (let blocklen = nat (u32 ((len + int SFS_BLOCKSIZE - 1) sdiv int SFS_BLOCKSIZE))
      in kbind (truncate_direct sv blocklen [0..<SFS_NDIRECT] s) (\<lambda>_ s.
         kbind (truncate_indirect E sv blocklen s) (\<lambda>_ s.
           Ret () (set_inode sv (\<lambda>n. n\<lparr>sfi_size := word_of_int len\<rparr>) s))))"

text \<open>\<^verbatim>\<open>VOP_KILL\<close> of the common vnode.\<close>

definition sv_kill :: "32 word \<Rightarrow> sfs_fs \<Rightarrow> unit sres" where
  "sv_kill sv s =
     deref (sfs_pool s sv) (\<lambda>v.
       if sv_refcount v \<noteq> 1 \<or> sv_opencount v \<noteq> 0 then Panic
       else Ret () (set_sv sv (\<lambda>v. v\<lparr>sv_refcount := 0, sv_opencount := 0\<rparr>) s))"

text \<open>The position of a vnode in the table; \<open>n\<close> entries are left from \<open>i\<close> on.\<close>

primrec pool_index :: "32 word \<Rightarrow> nat \<Rightarrow> int \<Rightarrow> sfs_fs \<Rightarrow> (int option) sres" where
  "pool_index sv 0 i s = Ret None s"
| "pool_index sv (Suc n) i s =
     kbind (in_part (\<lambda>_. s) (array_getguy (sfs_vnodes s) i)) (\<lambda>sv2 s.
       if sv2 = sv then Ret (Some i) s else pool_index sv n (i + 1) s)"

definition sfs_reclaim :: "env \<Rightarrow> 32 word \<Rightarrow> sfs_fs \<Rightarrow> unit sres" where
  "sfs_reclaim E sv s =
     deref (sfs_pool s sv) (\<lambda>v.
       if sv_refcount v \<noteq> 1
       then (if \<not> sv_refcount v > 1 then Panic
             else Err EBUSY (set_sv sv (\<lambda>v. v\<lparr>sv_refcount := sv_refcount v - 1\<rparr>) s))
       else kbind (if sfi_linkcount (sv_i v) = 0 then sfs_truncate E sv 0 s else Ret () s) (\<lambda>_ s.
            kbind (sfs_sync_inode E sv s) (\<lambda>_ s.
            deref (sfs_pool s sv) (\<lambda>v.
            kbind (if sfi_linkcount (sv_i v) = 0 then sfs_bfree (sv_ino v) s else Ret () s) (\<lambda>_ s.
            kbind (pool_index sv (nat (array_getnum (sfs_vnodes s))) 0 s) (\<lambda>ix s.
              case ix of
                None \<Rightarrow> Panic
              | Some ix \<Rightarrow>
                  kbind (in_part (\<lambda>a. s\<lparr>sfs_vnodes := a\<rparr>) (array_remove (sfs_vnodes s) ix)) (\<lambda>_ s.
                  kbind (sv_kill sv s) (\<lambda>_ s. Ret () (s\<lparr>sfs_pool := (sfs_pool s)(sv := None)\<rparr>)))))))))"

definition sv_incref :: "32 word \<Rightarrow> sfs_fs \<Rightarrow> unit sres" where
  "sv_incref sv s =
     deref (sfs_pool s sv) (\<lambda>v. Ret () (set_sv sv (\<lambda>v. v\<lparr>sv_refcount := s32 (sv_refcount v + 1)\<rparr>) s))"

text \<open>\<^verbatim>\<open>VOP_DECREF\<close>; the result of \<^verbatim>\<open>VOP_RECLAIM\<close> is at most printed.\<close>

fun print_error :: "unit sres \<Rightarrow> unit sres" where
  "print_error (Err e s) = Ret () s"
| "print_error r = r"

definition sv_decref :: "env \<Rightarrow> 32 word \<Rightarrow> sfs_fs \<Rightarrow> unit sres" where
  "sv_decref E sv s =
     deref (sfs_pool s sv) (\<lambda>v.
       if \<not> sv_refcount v > 0 then Panic
       else if sv_refcount v > 1 then Ret () (set_sv sv (\<lambda>v. v\<lparr>sv_refcount := sv_refcount v - 1\<rparr>) s)
       else print_error (sfs_reclaim E sv s))"

text \<open>
  \<^verbatim>\<open>sfs_loadvnode\<close>: the search of the table from entry \<open>i\<close> on, and the loading of an inode that is not in it.
\<close>

primrec find_loaded :: "32 word \<Rightarrow> nat \<Rightarrow> int \<Rightarrow> sfs_fs \<Rightarrow> ((32 word) option) sres" where
  "find_loaded ino 0 i s = Ret None s"
| "find_loaded ino (Suc n) i s =
     kbind (in_part (\<lambda>_. s) (array_getguy (sfs_vnodes s) i)) (\<lambda>sv s.
       deref (sfs_pool s sv) (\<lambda>v.
         kbind (sfs_bused (sv_ino v) s) (\<lambda>b s.
           if \<not> b then Panic
           else if sv_ino v = ino then Ret (Some sv) s else find_loaded ino n (i + 1) s)))"

definition sfs_readinode :: "env \<Rightarrow> 32 word \<Rightarrow> 16 word \<Rightarrow> sfs_fs \<Rightarrow> (sfs_inode \<times> bool) sres" where
  "sfs_readinode E ino forcetype s =
     kbind (sfs_rblock (env_hw E) ino s) (\<lambda>data s.
       let i = decode_inode data
       in if forcetype \<noteq> SFS_TYPE_INVAL
          then (if sfi_type i \<noteq> SFS_TYPE_INVAL then Panic else Ret (i\<lparr>sfi_type := forcetype\<rparr>, True) s)
          else Ret (i, False) s)"

definition sfs_loadvnode :: "env \<Rightarrow> 32 word \<Rightarrow> 16 word \<Rightarrow> sfs_fs \<Rightarrow> (32 word) sres" where
  "sfs_loadvnode E ino forcetype s =
     kbind (find_loaded ino (nat (array_getnum (sfs_vnodes s))) 0 s) (\<lambda>found s.
       case found of
         Some sv \<Rightarrow> if forcetype \<noteq> SFS_TYPE_INVAL then Panic else kbind (sv_incref sv s) (\<lambda>_ s. Ret sv s)
       | None \<Rightarrow>
           let sv = env_sv E (sfs_pool s)
           in if sv = 0 then Err ENOMEM s
              else kbind (sfs_bused ino s) (\<lambda>b s.
                if \<not> b then Panic
                else kbind (sfs_readinode E ino forcetype s) (\<lambda>(i, dirty) s.
                  if sfi_type i \<noteq> SFS_TYPE_FILE \<and> sfi_type i \<noteq> SFS_TYPE_DIR then Panic
                  else if \<not> env_lock E (sfs_pool s) then Err ENOMEM s
                  else let ops = (if sfi_type i = SFS_TYPE_FILE then SFS_FILEOPS else SFS_DIROPS);
                           v = \<lparr>sv_refcount = 1, sv_opencount = 0, sv_ops = ops, sv_i = i, sv_ino = ino, sv_dirty = dirty\<rparr>
                    in case array_add (env_km E) (sfs_vnodes s) sv of
                         Ret _ a \<Rightarrow> Ret sv (s\<lparr>sfs_pool := (sfs_pool s)(sv := Some v), sfs_vnodes := a\<rparr>)
                       | Err e a \<Rightarrow> Err e (s\<lparr>sfs_vnodes := a\<rparr>)
                       | Panic \<Rightarrow> Panic
                       | Undef \<Rightarrow> Undef)))"

definition sfs_getroot :: "env \<Rightarrow> sfs_fs \<Rightarrow> (32 word) sres" where
  "sfs_getroot E s = must_succeed (sfs_loadvnode E SFS_ROOT_LOCATION SFS_TYPE_INVAL s)"

text \<open>The result is the vnode and the slot of its name.\<close>

definition sfs_lookonce :: "env \<Rightarrow> 32 word \<Rightarrow> byte list \<Rightarrow> sfs_fs \<Rightarrow> (32 word \<times> int) sres" where
  "sfs_lookonce E sv name s =
     kbind (sfs_dir_findname E sv name s) (\<lambda>(found, _) s.
       case found of
         None \<Rightarrow> Err ENOENT s
       | Some (ino, slot) \<Rightarrow>
           kbind (sfs_loadvnode E ino SFS_TYPE_INVAL s) (\<lambda>r s.
             deref (sfs_pool s r) (\<lambda>v. if sfi_linkcount (sv_i v) = 0 then Panic else Ret (r, slot) s)))"

definition sfs_makeobj :: "env \<Rightarrow> 16 word \<Rightarrow> sfs_fs \<Rightarrow> (32 word) sres" where
  "sfs_makeobj E ftype s = kbind (sfs_balloc E s) (\<lambda>ino s. sfs_loadvnode E ino ftype s)"

subsection \<open>Operations of a vnode\<close>

definition sfs_open :: "32 word \<Rightarrow> sfs_fs \<Rightarrow> unit sres" where
  "sfs_open openflags s = (if openflags AND O_APPEND \<noteq> 0 then Err EUNIMP s else Ret () s)"

definition sfs_opendir :: "32 word \<Rightarrow> sfs_fs \<Rightarrow> unit sres" where
  "sfs_opendir openflags s =
     (if openflags AND O_ACCMODE \<noteq> O_RDONLY then Err EISDIR s
      else if openflags AND O_APPEND \<noteq> 0 then Err EISDIR s
      else Ret () s)"

definition sfs_fsync :: "env \<Rightarrow> 32 word \<Rightarrow> sfs_fs \<Rightarrow> unit sres" where
  "sfs_fsync E v s = sfs_sync_inode E v s"

definition sfs_close :: "env \<Rightarrow> 32 word \<Rightarrow> sfs_fs \<Rightarrow> unit sres" where
  "sfs_close E v s = sfs_fsync E v s"

definition sfs_read :: "env \<Rightarrow> 32 word \<Rightarrow> sio \<Rightarrow> (unit, sio) result" where
  "sfs_read E v us = (if uio_op (fst us) \<noteq> UIO_READ then Panic else sfs_io E v us)"

definition sfs_write :: "env \<Rightarrow> 32 word \<Rightarrow> sio \<Rightarrow> (unit, sio) result" where
  "sfs_write E v us = (if uio_op (fst us) \<noteq> UIO_WRITE then Panic else sfs_io E v us)"

definition sfs_ioctl :: "32 word \<Rightarrow> int \<Rightarrow> 32 word \<Rightarrow> sfs_fs \<Rightarrow> unit sres" where
  "sfs_ioctl v opn data s = Err EINVAL s"

definition sfs_gettype :: "32 word \<Rightarrow> sfs_fs \<Rightarrow> int sres" where
  "sfs_gettype v s =
     deref (sfs_pool s v) (\<lambda>sv.
       if sfi_type (sv_i sv) = SFS_TYPE_FILE then Ret S_IFREG s
       else if sfi_type (sv_i sv) = SFS_TYPE_DIR then Ret S_IFDIR s
       else Panic)"

text \<open>\<^verbatim>\<open>st_mode\<close> and \<^verbatim>\<open>st_size\<close>; the other fields are zero.\<close>

definition sfs_stat :: "32 word \<Rightarrow> sfs_fs \<Rightarrow> (int \<times> int) sres" where
  "sfs_stat v s =
     kbind (sfs_gettype v s) (\<lambda>mode s.
       deref (sfs_pool s v) (\<lambda>sv. Ret (mode, s32 (uint (sfi_size (sv_i sv)))) s))"

definition sfs_tryseek :: "32 word \<Rightarrow> int \<Rightarrow> sfs_fs \<Rightarrow> unit sres" where
  "sfs_tryseek v pos s = (if pos < 0 then Err EINVAL s else Ret () s)"

definition sfs_mmap :: "32 word \<Rightarrow> sfs_fs \<Rightarrow> unit sres" where
  "sfs_mmap v s = Err EUNIMP s"

definition sfs_namefile :: "32 word \<Rightarrow> sio \<Rightarrow> (unit, sio) result" where
  "sfs_namefile vv us =
     deref (sfs_pool (snd us) vv) (\<lambda>sv. if sv_ino sv \<noteq> SFS_ROOT_LOCATION then Panic else Ret () us)"

text \<open>A failed step is followed by a clean-up whose own result is ignored.\<close>

fun on_error :: "('v, 's) result \<Rightarrow> ('s \<Rightarrow> (unit, 's) result) \<Rightarrow> ('v, 's) result" where
  "on_error (Err e s) f = (case f s of Ret _ s \<Rightarrow> Err e s | Err _ s \<Rightarrow> Err e s | Panic \<Rightarrow> Panic | Undef \<Rightarrow> Undef)"
| "on_error r f = r"

definition sfs_creat :: "env \<Rightarrow> 32 word \<Rightarrow> byte list \<Rightarrow> bool \<Rightarrow> sfs_fs \<Rightarrow> (32 word) sres" where
  "sfs_creat E v name excl s =
     kbind (sfs_dir_findname E v name s) (\<lambda>(found, _) s.
       case found of
         Some (ino, _) \<Rightarrow> if excl then Err EEXIST s else sfs_loadvnode E ino SFS_TYPE_INVAL s
       | None \<Rightarrow>
           kbind (sfs_makeobj E SFS_TYPE_FILE s) (\<lambda>newguy s.
           deref (sfs_pool s newguy) (\<lambda>g.
           kbind (on_error (sfs_dir_link E v name (sv_ino g) s) (sv_decref E newguy)) (\<lambda>_ s.
             Ret newguy (set_inode newguy (\<lambda>i. i\<lparr>sfi_linkcount := sfi_linkcount i + 1\<rparr>) s)))))"

definition sfs_link :: "env \<Rightarrow> 32 word \<Rightarrow> byte list \<Rightarrow> 32 word \<Rightarrow> sfs_fs \<Rightarrow> unit sres" where
  "sfs_link E dir name file s =
     deref (sfs_pool s file) (\<lambda>f.
       kbind (sfs_dir_link E dir name (sv_ino f) s) (\<lambda>_ s.
         Ret () (set_inode file (\<lambda>i. i\<lparr>sfi_linkcount := sfi_linkcount i + 1\<rparr>) s)))"

definition sfs_remove :: "env \<Rightarrow> 32 word \<Rightarrow> byte list \<Rightarrow> sfs_fs \<Rightarrow> unit sres" where
  "sfs_remove E dir name s =
     kbind (sfs_lookonce E dir name s) (\<lambda>(victim, slot) s.
       kbind (on_error (sfs_dir_unlink E dir slot s) (sv_decref E victim)) (\<lambda>_ s.
         deref (sfs_pool s victim) (\<lambda>v.
           if \<not> sfi_linkcount (sv_i v) > 0 then Panic
           else sv_decref E victim (set_inode victim (\<lambda>i. i\<lparr>sfi_linkcount := sfi_linkcount i - 1\<rparr>) s))))"

text \<open>The recovery at \<^verbatim>\<open>puke_harder\<close>: remove the new name again, or give up.\<close>

definition rename_undo :: "env \<Rightarrow> 32 word \<Rightarrow> 32 word \<Rightarrow> int \<Rightarrow> sfs_fs \<Rightarrow> unit sres" where
  "rename_undo E dir g1 slot2 s =
     kbind (must_succeed (sfs_dir_unlink E dir slot2 s)) (\<lambda>_ s.
       sv_decref E g1 (set_sv g1 (\<lambda>v. v\<lparr>sv_i := (sv_i v)\<lparr>sfi_linkcount := sfi_linkcount (sv_i v) - 1\<rparr>\<rparr>) s))"

definition sfs_rename :: "env \<Rightarrow> 32 word \<Rightarrow> byte list \<Rightarrow> 32 word \<Rightarrow> byte list \<Rightarrow> sfs_fs \<Rightarrow> unit sres" where
  "sfs_rename E d1 n1 d2 n2 s =
     (if d1 \<noteq> d2 then Panic
      else deref (sfs_pool s d1) (\<lambda>sv.
        if sv_ino sv \<noteq> SFS_ROOT_LOCATION then Panic
        else kbind (sfs_lookonce E d1 n1 s) (\<lambda>(g1, slot1) s.
          deref (sfs_pool s g1) (\<lambda>g.
            if sfi_type (sv_i g) \<noteq> SFS_TYPE_FILE then Panic
            else kbind (on_error (sfs_dir_link E d1 n2 (sv_ino g) s) (sv_decref E g1)) (\<lambda>slot2 s.
              let s = set_inode g1 (\<lambda>i. i\<lparr>sfi_linkcount := sfi_linkcount i + 1\<rparr>) s
              in kbind (on_error (sfs_dir_unlink E d1 slot1 s) (rename_undo E d1 g1 slot2)) (\<lambda>_ s.
                deref (sfs_pool s g1) (\<lambda>g.
                  if \<not> sfi_linkcount (sv_i g) > 0 then Panic
                  else sv_decref E g1 (set_inode g1 (\<lambda>i. i\<lparr>sfi_linkcount := sfi_linkcount i - 1\<rparr>) s))))))))"

text \<open>The result is the directory and the name copied into the caller's buffer of \<open>buflen\<close> bytes.\<close>

definition sfs_lookparent :: "32 word \<Rightarrow> byte list \<Rightarrow> nat \<Rightarrow> sfs_fs \<Rightarrow> (32 word \<times> byte list) sres" where
  "sfs_lookparent v path buflen s =
     deref (sfs_pool s v) (\<lambda>sv.
       if sfi_type (sv_i sv) \<noteq> SFS_TYPE_DIR then Err ENOTDIR s
       else if length path + 1 > buflen then Err ENAMETOOLONG s
       else kbind (sv_incref v s) (\<lambda>_ s. Ret (v, path) s))"

definition sfs_lookup :: "env \<Rightarrow> 32 word \<Rightarrow> byte list \<Rightarrow> sfs_fs \<Rightarrow> (32 word) sres" where
  "sfs_lookup E v path s =
     deref (sfs_pool s v) (\<lambda>sv.
       if sfi_type (sv_i sv) \<noteq> SFS_TYPE_DIR then Err ENOTDIR s
       else kbind (sfs_lookonce E v path s) (\<lambda>(final, _) s. Ret final s))"

end
