(* ===== verification/KSfsFs.thy ===== *)
theory KSfsFs
  imports KSfs
begin

text \<open>
  The file-system level of SFS, \<^verbatim>\<open>kern/fs/sfs/sfs_fs.c\<close>: transfer of the free map, \<^verbatim>\<open>sync\<close>, mounting and
  unmounting, and the two tables of vnode operations.
\<close>

section \<open>Model\<close>

text \<open>\<^verbatim>\<open>sfs_mapio\<close> from sector \<open>j\<close> of the map on, with \<open>n\<close> sectors left.\<close>

primrec mapio_read :: "env \<Rightarrow> nat \<Rightarrow> nat \<Rightarrow> sfs_fs \<Rightarrow> unit sres" where
  "mapio_read E 0 j s = Ret () s"
| "mapio_read E (Suc n) j s =
     kbind (sfs_rblock (env_hw E) (SFS_MAP_LOCATION + of_nat j) s) (\<lambda>data s.
       case kput (bitmap_getdata (sfs_freemap s)) (j * SFS_BLOCKSIZE) data of
         None \<Rightarrow> Undef
       | Some v \<Rightarrow> mapio_read E n (j + 1) (s\<lparr>sfs_freemap := (sfs_freemap s)\<lparr>bm_v := v\<rparr>\<rparr>))"

primrec mapio_write :: "env \<Rightarrow> nat \<Rightarrow> nat \<Rightarrow> sfs_fs \<Rightarrow> unit sres" where
  "mapio_write E 0 j s = Ret () s"
| "mapio_write E (Suc n) j s =
     (case kget (bitmap_getdata (sfs_freemap s)) (j * SFS_BLOCKSIZE) SFS_BLOCKSIZE of
        None \<Rightarrow> Undef
      | Some data \<Rightarrow>
          kbind (sfs_wblock (env_hw E) data (SFS_MAP_LOCATION + of_nat j) s) (\<lambda>_. mapio_write E n (j + 1)))"

definition sfs_mapio :: "env \<Rightarrow> uio_rw \<Rightarrow> sfs_fs \<Rightarrow> unit sres" where
  "sfs_mapio E rw s =
     (let mapsize = unat (SFS_BITBLOCKS (sp_nblocks (sfs_super s)))
      in if rw = UIO_READ then mapio_read E mapsize 0 s else mapio_write E mapsize 0 s)"

text \<open>\<^verbatim>\<open>VOP_FSYNC\<close> of the vnodes in the table; its result is ignored.\<close>

primrec sync_vnodes :: "env \<Rightarrow> nat \<Rightarrow> int \<Rightarrow> sfs_fs \<Rightarrow> unit sres" where
  "sync_vnodes E 0 i s = Ret () s"
| "sync_vnodes E (Suc n) i s =
     kbind (in_part (\<lambda>_. s) (array_getguy (sfs_vnodes s) i)) (\<lambda>sv s.
       kbind (print_error (sfs_fsync E sv s)) (\<lambda>_. sync_vnodes E n (i + 1)))"

definition sfs_sync :: "env \<Rightarrow> sfs_fs \<Rightarrow> unit sres" where
  "sfs_sync E s =
     kbind (sync_vnodes E (nat (array_getnum (sfs_vnodes s))) 0 s) (\<lambda>_ s.
     kbind (if sfs_freemapdirty s
            then kbind (sfs_mapio E UIO_WRITE s) (\<lambda>_ s. Ret () (s\<lparr>sfs_freemapdirty := False\<rparr>)) else Ret () s) (\<lambda>_ s.
       if sfs_superdirty s
       then kbind (sfs_wblock (env_hw E) (encode_super (sfs_super s)) SFS_SB_LOCATION s) (\<lambda>_ s. Ret () (s\<lparr>sfs_superdirty := False\<rparr>))
       else Ret () s))"

definition sfs_getvolname :: "sfs_fs \<Rightarrow> byte list" where
  "sfs_getvolname s = takeWhile (\<lambda>c. c \<noteq> 0) (sp_volname (sfs_super s))"

text \<open>The structures are released; what is left is the disk.\<close>

definition sfs_unmount :: "sfs_fs \<Rightarrow> unit sres" where
  "sfs_unmount s =
     (if array_getnum (sfs_vnodes s) > 0 then Err EBUSY s
      else if sfs_superdirty s then Panic
      else if sfs_freemapdirty s then Panic
      else Ret () s)"

text \<open>
  Mounting a disk: the first two arguments of the allocation are whether there is room for the
  structure and for the table, the other two belong to the free map. The state before is that of
  the device, with the structure \<^verbatim>\<open>sfs_fs\<close> not yet filled in.
\<close>

record mount_env =
  room_sfs :: bool
  room_array :: bool
  room_map :: bool
  room_bits :: "nat \<Rightarrow> byte list option"

definition sfs_domount :: "env \<Rightarrow> mount_env \<Rightarrow> nat \<Rightarrow> sfs_fs \<Rightarrow> unit sres" where
  "sfs_domount E M blocksize s =
     (if blocksize \<noteq> SFS_BLOCKSIZE then Err ENXIO s
      else if \<not> room_sfs M then Err ENOMEM s
      else case array_create (room_array M) of
        None \<Rightarrow> Err ENOMEM s
      | Some vnodes \<Rightarrow>
          kbind (sfs_rblock (env_hw E) SFS_SB_LOCATION (s\<lparr>sfs_vnodes := vnodes\<rparr>)) (\<lambda>data s.
            let super = decode_super data
            in if sp_magic super \<noteq> SFS_MAGIC then Err EINVAL s
               else let super = super\<lparr>sp_volname := (sp_volname super)[31 := 0]\<rparr>; s = s\<lparr>sfs_super := super\<rparr>
                 in case bitmap_create (room_map M) (room_bits M) (unat (SFS_BITMAPSIZE (sp_nblocks super))) of
                      Ret (Some b) _ \<Rightarrow>
                        kbind (sfs_mapio E UIO_READ (s\<lparr>sfs_freemap := b\<rparr>)) (\<lambda>_ s.
                          Ret () (s\<lparr>sfs_superdirty := False, sfs_freemapdirty := False\<rparr>))
                    | Ret None _ \<Rightarrow> Err ENOMEM s
                    | Err e _ \<Rightarrow> Err e s
                    | Panic \<Rightarrow> Panic
                    | Undef \<Rightarrow> Undef))"

section \<open>The tables of operations\<close>

text \<open>What \<^verbatim>\<open>sfs_fileops\<close> and \<^verbatim>\<open>sfs_dirops\<close> make of the calls that differ between files and directories.\<close>

definition vop_open :: "32 word \<Rightarrow> 32 word \<Rightarrow> sfs_fs \<Rightarrow> unit sres" where
  "vop_open v openflags s =
     deref (sfs_pool s v) (\<lambda>sv. case sv_ops sv of SFS_FILEOPS \<Rightarrow> sfs_open openflags s | SFS_DIROPS \<Rightarrow> sfs_opendir openflags s)"

definition vop_read :: "env \<Rightarrow> 32 word \<Rightarrow> sio \<Rightarrow> (unit, sio) result" where
  "vop_read E v us =
     deref (sfs_pool (snd us) v) (\<lambda>sv. case sv_ops sv of SFS_FILEOPS \<Rightarrow> sfs_read E v us | SFS_DIROPS \<Rightarrow> Err EISDIR us)"

definition vop_write :: "env \<Rightarrow> 32 word \<Rightarrow> sio \<Rightarrow> (unit, sio) result" where
  "vop_write E v us =
     deref (sfs_pool (snd us) v) (\<lambda>sv. case sv_ops sv of SFS_FILEOPS \<Rightarrow> sfs_write E v us | SFS_DIROPS \<Rightarrow> Err EISDIR us)"

definition vop_tryseek :: "32 word \<Rightarrow> int \<Rightarrow> sfs_fs \<Rightarrow> unit sres" where
  "vop_tryseek v pos s =
     deref (sfs_pool s v) (\<lambda>sv. case sv_ops sv of SFS_FILEOPS \<Rightarrow> sfs_tryseek v pos s | SFS_DIROPS \<Rightarrow> Err EUNIMP s)"

definition vop_truncate :: "env \<Rightarrow> 32 word \<Rightarrow> int \<Rightarrow> sfs_fs \<Rightarrow> unit sres" where
  "vop_truncate E v len s =
     deref (sfs_pool s v) (\<lambda>sv. case sv_ops sv of SFS_FILEOPS \<Rightarrow> sfs_truncate E v len s | SFS_DIROPS \<Rightarrow> Err EISDIR s)"

definition vop_creat :: "env \<Rightarrow> 32 word \<Rightarrow> byte list \<Rightarrow> bool \<Rightarrow> sfs_fs \<Rightarrow> (32 word) sres" where
  "vop_creat E v name excl s =
     deref (sfs_pool s v) (\<lambda>sv. case sv_ops sv of SFS_FILEOPS \<Rightarrow> Err ENOTDIR s | SFS_DIROPS \<Rightarrow> sfs_creat E v name excl s)"

definition vop_link :: "env \<Rightarrow> 32 word \<Rightarrow> byte list \<Rightarrow> 32 word \<Rightarrow> sfs_fs \<Rightarrow> unit sres" where
  "vop_link E v name file s =
     deref (sfs_pool s v) (\<lambda>sv. case sv_ops sv of SFS_FILEOPS \<Rightarrow> Err ENOTDIR s | SFS_DIROPS \<Rightarrow> sfs_link E v name file s)"

definition vop_remove :: "env \<Rightarrow> 32 word \<Rightarrow> byte list \<Rightarrow> sfs_fs \<Rightarrow> unit sres" where
  "vop_remove E v name s =
     deref (sfs_pool s v) (\<lambda>sv. case sv_ops sv of SFS_FILEOPS \<Rightarrow> Err ENOTDIR s | SFS_DIROPS \<Rightarrow> sfs_remove E v name s)"

definition vop_rename :: "env \<Rightarrow> 32 word \<Rightarrow> byte list \<Rightarrow> 32 word \<Rightarrow> byte list \<Rightarrow> sfs_fs \<Rightarrow> unit sres" where
  "vop_rename E d1 n1 d2 n2 s =
     deref (sfs_pool s d1) (\<lambda>sv. case sv_ops sv of SFS_FILEOPS \<Rightarrow> Err ENOTDIR s | SFS_DIROPS \<Rightarrow> sfs_rename E d1 n1 d2 n2 s)"

definition vop_lookup :: "env \<Rightarrow> 32 word \<Rightarrow> byte list \<Rightarrow> sfs_fs \<Rightarrow> (32 word) sres" where
  "vop_lookup E v path s =
     deref (sfs_pool s v) (\<lambda>sv. case sv_ops sv of SFS_FILEOPS \<Rightarrow> Err ENOTDIR s | SFS_DIROPS \<Rightarrow> sfs_lookup E v path s)"

definition vop_lookparent :: "32 word \<Rightarrow> byte list \<Rightarrow> nat \<Rightarrow> sfs_fs \<Rightarrow> (32 word \<times> byte list) sres" where
  "vop_lookparent v path buflen s =
     deref (sfs_pool s v) (\<lambda>sv. case sv_ops sv of SFS_FILEOPS \<Rightarrow> Err ENOTDIR s | SFS_DIROPS \<Rightarrow> sfs_lookparent v path buflen s)"

end
