(* ===== verification/KSfsBlocks.thy ===== *)
theory KSfsBlocks
  imports KSfsFs
begin

text \<open>
  Blocks of SFS: the encodings of the on-disk structures and their inverses, and what the block
  routines of \<^verbatim>\<open>sfs_io.c\<close> do on a disk that works, and on one that fails.
\<close>

section \<open>On-disk structures\<close>

definition inode_wf :: "sfs_inode \<Rightarrow> bool" where
  "inode_wf i \<longleftrightarrow> length (sfi_direct i) = SFS_NDIRECT \<and> length (sfi_waste i) = 110"

lemma length_encode_inode: "inode_wf i \<Longrightarrow> length (encode_inode i) = SFS_BLOCKSIZE"
  by (simp add: encode_inode_def inode_wf_def SFS_NDIRECT_def SFS_BLOCKSIZE_def)

lemma decode_encode_inode: "inode_wf i \<Longrightarrow> decode_inode (encode_inode i) = i"
  by (simp add: encode_inode_def decode_inode_def inode_wf_def SFS_NDIRECT_def)

lemma inode_wf_decode: "inode_wf (decode_inode bs)"
  by (simp add: inode_wf_def decode_inode_def)

lemma decode_encode_super:
  "length (sp_volname sp) = 32 \<Longrightarrow> length (sp_reserved sp) = 118 \<Longrightarrow>
     decode_super (encode_super sp) = sp \<and> length (encode_super sp) = SFS_BLOCKSIZE"
  by (simp add: encode_super_def decode_super_def SFS_BLOCKSIZE_def)

lemma decode_encode_dir: "length (sfd_name d) = SFS_NAMELEN \<Longrightarrow> decode_dir (encode_dir d) = d \<and> length (encode_dir d) = DIRSIZE"
  by (simp add: encode_dir_def decode_dir_def SFS_NAMELEN_def DIRSIZE_def)

text \<open>Encoding inverts decoding too: no byte of a block is lost.\<close>

section \<open>A disk that works\<close>

definition works :: "(nat \<Rightarrow> 32 word) \<Rightarrow> bool" where
  "works hw \<longleftrightarrow> (\<forall>n. hw n AND LHD_STATEMASK = LHD_OK)"

text \<open>The limit keeps byte offsets on the disk within an \<^verbatim>\<open>off_t\<close>.\<close>

definition disk_ok :: "'a diskstate_scheme \<Rightarrow> bool" where
  "disk_ok s \<longleftrightarrow> d_blocks s < 4194304 \<and> length (lh_buf s) = SFS_BLOCKSIZE \<and>
     (\<forall>b < d_blocks s. length (d_sectors s b) = SFS_BLOCKSIZE)"

text \<open>The state without the registers of the card.\<close>

definition quiet :: "'a diskstate_scheme \<Rightarrow> 'a diskstate_scheme" where
  "quiet s = s\<lparr>lh_buf := [], lh_result := None, lh_ops := 0\<rparr>"

definition ticked :: "byte list \<Rightarrow> 'a diskstate_scheme \<Rightarrow> 'a diskstate_scheme" where
  "ticked buf s = s\<lparr>lh_buf := buf, lh_ops := lh_ops s + 1, lh_result := None\<rparr>"

lemma quiet_ticked [simp]: "quiet (ticked buf s) = quiet s"
  by (simp add: quiet_def ticked_def)

lemma quiet_quiet [simp]: "quiet (quiet s) = quiet s"
  by (simp add: quiet_def)

lemma quiet_select [simp]:
  "d_sectors (quiet s) = d_sectors s" "d_blocks (quiet s) = d_blocks s" "um_bytes (quiet s) = um_bytes s"
  "um_reads (quiet s) = um_reads s" "um_writes (quiet s) = um_writes s" "cur_vmspace (quiet s) = cur_vmspace s"
  "badfaultfunc (quiet s) = badfaultfunc s"
  by (simp_all add: quiet_def)

lemma ticked_select [simp]:
  "d_sectors (ticked b s) = d_sectors s" "d_blocks (ticked b s) = d_blocks s" "um_bytes (ticked b s) = um_bytes s"
  "um_reads (ticked b s) = um_reads s" "um_writes (ticked b s) = um_writes s" "cur_vmspace (ticked b s) = cur_vmspace s"
  "badfaultfunc (ticked b s) = badfaultfunc s" "lh_buf (ticked b s) = b" "lh_result (ticked b s) = None"
  by (simp_all add: ticked_def)

lemma quiet_um [simp]: "quiet (s\<lparr>um_bytes := f\<rparr>) = quiet s\<lparr>um_bytes := f\<rparr>"
  by (simp add: quiet_def)

lemma io_ready_state:
  "um_reads s' = um_reads s \<Longrightarrow> um_writes s' = um_writes s \<Longrightarrow> cur_vmspace s' = cur_vmspace s \<Longrightarrow> badfaultfunc s' = badfaultfunc s \<Longrightarrow>
     io_ready n (u, s') = io_ready n (u, s)"
  by (simp add: io_ready_def)

lemma io_store_quiet: "quiet s' = quiet s \<Longrightarrow> fst (io_store bs (u, s')) = fst (io_store bs (u, s)) \<and>
    quiet (snd (io_store bs (u, s'))) = quiet (snd (io_store bs (u, s)))"
proof -
  assume q: "quiet s' = quiet s"
  have "um_bytes s' = um_bytes s" using arg_cong [OF q, of um_bytes] unfolding quiet_select .
  then show ?thesis using q by (simp add: io_store_def)
qed

lemma lhd_start_ok:
  assumes "works hw"
  shows "lhd_start hw False sect s = Some (ticked (d_sectors s sect) s)"
    "lhd_start hw True sect s = Some (ticked (lh_buf s) s\<lparr>d_sectors := (d_sectors s)(sect := lh_buf s)\<rparr>)"
  using assms
  by (simp_all add: works_def lhd_start_def lhd_irq_def lhd_operate_def lhd_iodone_def lhd_code_to_errno_def Let_def ticked_def)

lemma lhd_sector_read:
  assumes "works hw" "uio_op u = UIO_READ" "io_ready 512 (u, s)" "length (d_sectors s sect) = 512"
  shows "lhd_sector hw sect (u, s) = Ret () (io_store (d_sectors s sect) (u, ticked (d_sectors s sect) s))"
proof -
  let ?s = "ticked (d_sectors s sect) s"
  have "s\<lparr>lh_buf := lh_buf s\<rparr> = s" by simp
  moreover have "io_ready 512 (u, ?s)" using assms(3) io_ready_state [of ?s s 512 u] by simp
  then have "uiomove (d_sectors s sect) 0 512 (u, ?s) = Ret (d_sectors s sect) (io_store (d_sectors s sect) (u, ?s))"
    using assms(2,4) by (subst uiomove_read) simp_all
  ultimately show ?thesis using assms(1,2) lhd_start_ok(1) [OF assms(1), of sect s]
    by (simp add: lhd_sector_def LHD_SECTSIZE_def Let_def)
qed

lemma lhd_sector_write:
  assumes "works hw" "uio_op u = UIO_WRITE" "io_ready 512 (u, s)" "length (lh_buf s) = 512"
  shows "lhd_sector hw sect (u, s) = Ret () (io_moved 512 u,
    ticked (io_next 512 (u, s)) s\<lparr>d_sectors := (d_sectors s)(sect := io_next 512 (u, s))\<rparr>)"
proof -
  have "uiomove (lh_buf s) 0 512 (u, s) = Ret (io_next 512 (u, s)) (io_skip 512 (u, s))"
    using assms(2-4) by (subst uiomove_write) simp_all
  then show ?thesis using assms(2) lhd_start_ok(2) [OF assms(1), of sect "s\<lparr>lh_buf := io_next 512 (u, s)\<rparr>"]
    by (simp add: lhd_sector_def LHD_SECTSIZE_def Let_def io_skip_def ticked_def)
qed

lemma sector_number:
  assumes "b < 4194304"
  shows "(512 * int b) sdiv 512 = int b" "(512 * int b) smod 512 = 0"
  by (simp_all add: signed_divide_int_def signed_modulo_int_def sgn_if)

lemma lhd_io_one:
  assumes "uio_offset u = 512 * int b" "uio_resid u = 512" "b < d_blocks s" "d_blocks s < 4194304"
  shows "lhd_io hw (u, s) = kbind (lhd_sector hw b (u, s)) (\<lambda>_ us. Ret () us)"
  using assms sector_number [of b] by (cases "lhd_sector hw b (u, s)") (simp_all add: lhd_io_def LHD_SECTSIZE_def Let_def u32_def)

lemma sfs_try_Ret: "lhd_io hw us = Ret x us' \<Longrightarrow> sfs_try hw n us = Ret x us'"
  by (cases n) simp_all

lemma sfs_rwblock_read:
  assumes "works hw" "uio_op u = UIO_READ" "io_ready 512 (u, s)" "uio_offset u = 512 * int b" "uio_resid u = 512" "b < d_blocks s" "disk_ok s"
  shows "sfs_rwblock hw (u, s) = Ret () (io_store (d_sectors s b) (u, ticked (d_sectors s b) s))"
proof -
  have "length (d_sectors s b) = 512" using assms(6,7) by (simp add: disk_ok_def SFS_BLOCKSIZE_def)
  then have "lhd_io hw (u, s) = Ret () (io_store (d_sectors s b) (u, ticked (d_sectors s b) s))"
    using lhd_io_one [OF assms(4-6)] lhd_sector_read [OF assms(1-3)] assms(7) by (simp add: disk_ok_def)
  then show ?thesis unfolding sfs_rwblock_def by (rule sfs_try_Ret)
qed

lemma sfs_rwblock_write:
  assumes "works hw" "uio_op u = UIO_WRITE" "io_ready 512 (u, s)" "uio_offset u = 512 * int b" "uio_resid u = 512" "b < d_blocks s" "disk_ok s"
  shows "sfs_rwblock hw (u, s) =
    Ret () (io_moved 512 u, ticked (io_next 512 (u, s)) s\<lparr>d_sectors := (d_sectors s)(b := io_next 512 (u, s))\<rparr>)"
proof -
  have "lhd_io hw (u, s) = Ret () (io_moved 512 u, ticked (io_next 512 (u, s)) s\<lparr>d_sectors := (d_sectors s)(b := io_next 512 (u, s))\<rparr>)"
    using lhd_io_one [OF assms(4-6)] lhd_sector_write [OF assms(1-3)] assms(7) by (simp add: disk_ok_def SFS_BLOCKSIZE_def)
  then show ?thesis unfolding sfs_rwblock_def by (rule sfs_try_Ret)
qed

lemma SFSUIO_ok:
  assumes "unat b < 4194303" "length data = 512"
  shows "uio_offset (SFSUIO data b rw) = 512 * int (unat b)" "uio_resid (SFSUIO data b rw) = 512" "uio_op (SFSUIO data b rw) = rw"
    "io_ready 512 (SFSUIO data b rw, s)" "uio_segflg (SFSUIO data b rw) = UIO_SYSSPACE" "iov_kblock (SFSUIO data b rw) = data"
    "iov_kpos (SFSUIO data b rw) = 0"
proof -
  have "int (unat b) < 4194303" using assms(1) by linarith
  then have lt: "uint b < 4194303" and ge: "0 \<le> uint b" by simp_all
  have "s32 (uint b) = uint b" by (rule s32_id) (use lt ge in linarith)+
  moreover have "s32 (uint b * 512) = uint b * 512" by (rule s32_id) (use lt ge in linarith)+
  ultimately have "s32 (s32 (uint b) * 512) = 512 * int (unat b)" by simp
  then show "uio_offset (SFSUIO data b rw) = 512 * int (unat b)" "uio_resid (SFSUIO data b rw) = 512" "uio_op (SFSUIO data b rw) = rw"
    "io_ready 512 (SFSUIO data b rw, s)" "uio_segflg (SFSUIO data b rw) = UIO_SYSSPACE" "iov_kblock (SFSUIO data b rw) = data"
    "iov_kpos (SFSUIO data b rw) = 0"
    using assms lt by (simp_all add: SFSUIO_def mk_kuio_def SFS_BLOCKSIZE_def io_ready_def)
qed

text \<open>The two block routines as their callers see them.\<close>

lemma sfs_rblock_ok:
  assumes "works hw" "disk_ok s" "unat b < d_blocks s"
  shows "sfs_rblock hw b s = Ret (d_sectors s (unat b)) (ticked (d_sectors s (unat b)) s)"
proof -
  define z :: "byte list" where "z = replicate SFS_BLOCKSIZE 0"
  have z: "length z = 512" by (simp add: z_def SFS_BLOCKSIZE_def)
  let ?u = "SFSUIO z b UIO_READ"
  have b: "unat b < 4194303" using assms(2,3) by (simp add: disk_ok_def)
  note u = SFSUIO_ok [OF b z]
  have len: "length (d_sectors s (unat b)) = 512" using assms(2,3) by (simp add: disk_ok_def SFS_BLOCKSIZE_def)
  have "sfs_rwblock hw (?u, s) = Ret () (io_store (d_sectors s (unat b)) (?u, ticked (d_sectors s (unat b)) s))"
    by (rule sfs_rwblock_read [OF assms(1) u(3) u(4) u(1) u(2) assms(3,2)])
  then show ?thesis using u(5-7) [of UIO_READ] len z by (simp add: sfs_rblock_def z_def [symmetric] io_store_def)
qed

lemma sfs_wblock_ok:
  assumes "works hw" "disk_ok s" "unat b < d_blocks s" "length data = 512"
  shows "sfs_wblock hw data b s = Ret () (ticked data s\<lparr>d_sectors := (d_sectors s)(unat b := data)\<rparr>)"
proof -
  let ?u = "SFSUIO data b UIO_WRITE"
  have b: "unat b < 4194303" using assms(2,3) by (simp add: disk_ok_def)
  note u = SFSUIO_ok [OF b assms(4)]
  have data: "io_next 512 (?u, s) = data" using u assms(4) by (simp add: io_next_def)
  have "sfs_rwblock hw (?u, s) = Ret () (io_moved 512 ?u, ticked data s\<lparr>d_sectors := (d_sectors s)(unat b := data)\<rparr>)"
    using sfs_rwblock_write [OF assms(1) u(3) u(4) u(1) u(2) assms(3,2)] by (simp add: data)
  then show ?thesis by (simp add: sfs_wblock_def)
qed

section \<open>A disk that fails\<close>

definition failed_op :: "'a diskstate_scheme \<Rightarrow> 'a diskstate_scheme" where
  "failed_op s = s\<lparr>lh_ops := lh_ops s + 1, lh_result := Some EIO\<rparr>"

lemma lhd_start_media:
  "hw (lh_ops s) AND LHD_STATEMASK = LHD_MEDIA \<Longrightarrow> lhd_start hw w sect s = Some (failed_op s)"
  by (simp add: lhd_start_def lhd_irq_def lhd_operate_def lhd_iodone_def lhd_code_to_errno_def Let_def failed_op_def
      LHD_MEDIA_def LHD_OK_def LHD_INVSECT_def)

lemma lhd_io_read_fails:
  assumes "uio_op u = UIO_READ" "uio_offset u = 512 * int b" "uio_resid u = 512" "b < d_blocks s" "d_blocks s < 4194304"
    "hw (lh_ops s) AND LHD_STATEMASK = LHD_MEDIA"
  shows "lhd_io hw (u, s) = Err EIO (u, failed_op s)"
proof -
  have "s\<lparr>lh_buf := lh_buf s\<rparr> = s" by simp
  then show ?thesis using lhd_io_one [OF assms(2-5)] lhd_start_media [of hw s False b] assms(1,6)
    by (simp add: lhd_sector_def failed_op_def)
qed

lemma sfs_try_read:
  assumes "uio_op u = UIO_READ" "uio_offset u = 512 * int b" "uio_resid u = 512" "io_ready 512 (u, s)" "b < d_blocks s" "disk_ok s"
    "\<And>j. j < k \<Longrightarrow> hw (lh_ops s + j) AND LHD_STATEMASK = LHD_MEDIA" "hw (lh_ops s + k) AND LHD_STATEMASK = LHD_OK" "k \<le> n"
  shows "\<exists>s'. sfs_try hw n (u, s) = Ret () (io_store (d_sectors s b) (u, s')) \<and> quiet s' = quiet s"
  using assms(4-9)
proof (induction k arbitrary: n s)
  case 0
  let ?s = "ticked (d_sectors s b) s"
  have start: "lhd_start hw False b s = Some ?s"
    using 0(5) by (simp add: lhd_start_def lhd_irq_def lhd_operate_def lhd_iodone_def lhd_code_to_errno_def Let_def ticked_def)
  have len: "length (d_sectors s b) = 512" using 0(2,3) by (simp add: disk_ok_def SFS_BLOCKSIZE_def)
  have "s\<lparr>lh_buf := lh_buf s\<rparr> = s" by simp
  moreover have "io_ready 512 (u, ?s)" using 0(1) io_ready_state [of ?s s 512 u] by simp
  then have "uiomove (d_sectors s b) 0 512 (u, ?s) = Ret (d_sectors s b) (io_store (d_sectors s b) (u, ?s))"
    using assms(1) len by (subst uiomove_read) simp_all
  ultimately have "lhd_io hw (u, s) = Ret () (io_store (d_sectors s b) (u, ?s))"
    using lhd_io_one [OF assms(2,3) 0(2)] 0(3) start assms(1) by (simp add: disk_ok_def lhd_sector_def LHD_SECTSIZE_def Let_def)
  then show ?case using sfs_try_Ret by (metis quiet_ticked)
next
  case (Suc k)
  obtain m where n: "n = Suc m" using Suc.prems(6) by (cases n) auto
  have fail: "lhd_io hw (u, s) = Err EIO (u, failed_op s)"
    using Suc.prems(2,3) Suc.prems(4) [of 0] assms(1-3) by (intro lhd_io_read_fails) (auto simp: disk_ok_def)
  have same: "d_sectors (failed_op s) = d_sectors s" "quiet (failed_op s) = quiet s" by (simp_all add: failed_op_def quiet_def)
  have "io_ready 512 (u, failed_op s)" using Suc.prems(1) io_ready_state [of "failed_op s" s 512 u] by (simp add: failed_op_def)
  moreover have "b < d_blocks (failed_op s)" "disk_ok (failed_op s)" using Suc.prems(2,3) by (simp_all add: failed_op_def disk_ok_def)
  moreover have "hw (lh_ops (failed_op s) + j) AND LHD_STATEMASK = LHD_MEDIA" if "j < k" for j
    using Suc.prems(4) [of "Suc j"] that by (simp add: failed_op_def)
  moreover have "hw (lh_ops (failed_op s) + k) AND LHD_STATEMASK = LHD_OK" using Suc.prems(5) by (simp add: failed_op_def)
  ultimately have "\<exists>s'. sfs_try hw m (u, failed_op s) = Ret () (io_store (d_sectors (failed_op s) b) (u, s')) \<and> quiet s' = quiet (failed_op s)"
    using Suc.IH [of "failed_op s" m] Suc.prems(6) n by simp
  then show ?case using fail same n by simp
qed

lemma lhd_io_write_fails:
  assumes "uio_op u = UIO_WRITE" "uio_offset u = 512 * int b" "uio_resid u = 512" "b < d_blocks s" "disk_ok s" "io_ready 512 (u, s)"
    "hw (lh_ops s) AND LHD_STATEMASK = LHD_MEDIA"
  shows "lhd_io hw (u, s) = Err EIO (io_moved 512 u, failed_op (s\<lparr>lh_buf := io_next 512 (u, s)\<rparr>))"
proof -
  have "uiomove (lh_buf s) 0 512 (u, s) = Ret (io_next 512 (u, s)) (io_skip 512 (u, s))"
    using assms(1,5,6) by (subst uiomove_write) (simp_all add: disk_ok_def SFS_BLOCKSIZE_def)
  then show ?thesis
    using lhd_io_one [OF assms(2-4)] lhd_start_media [of hw "s\<lparr>lh_buf := io_next 512 (u, s)\<rparr>" True b] assms(1,5,7)
    by (simp add: lhd_sector_def LHD_SECTSIZE_def io_skip_def disk_ok_def failed_op_def)
qed

text \<open>With nothing left to move, the driver has nothing to do.\<close>

lemma lhd_io_nothing:
  assumes "uio_resid u = 0" "uio_offset u = 512 * int b" "b \<le> d_blocks s" "d_blocks s < 4194304"
  shows "lhd_io hw (u, s) = Ret () (u, s)"
  using assms sector_number [of b] by (simp add: lhd_io_def LHD_SECTSIZE_def Let_def u32_def)

section \<open>Properties\<close>

text \<open>
  C32. Reading a block survives up to ten media errors: if the device fails \<open>k \<le> 10\<close> times and
  then succeeds, \<^verbatim>\<open>sfs_rblock\<close> returns the contents of the block.
\<close>

theorem sfs_rblock_retries:
  assumes "disk_ok s" "unat b < d_blocks s" "k \<le> 10" "\<forall>j < k. hw (lh_ops s + j) AND LHD_STATEMASK = LHD_MEDIA"
    "hw (lh_ops s + k) AND LHD_STATEMASK = LHD_OK"
  shows "\<exists>s'. sfs_rblock hw b s = Ret (d_sectors s (unat b)) s' \<and> quiet s' = quiet s"
proof -
  define z :: "byte list" where "z = replicate SFS_BLOCKSIZE 0"
  have z: "length z = 512" by (simp add: z_def SFS_BLOCKSIZE_def)
  have b: "unat b < 4194303" using assms(1,2) by (simp add: disk_ok_def)
  note u = SFSUIO_ok [OF b z]
  have len: "length (d_sectors s (unat b)) = 512" using assms(1,2) by (simp add: disk_ok_def SFS_BLOCKSIZE_def)
  obtain s' where "sfs_try hw 10 (SFSUIO z b UIO_READ, s) = Ret () (io_store (d_sectors s (unat b)) (SFSUIO z b UIO_READ, s'))" "quiet s' = quiet s"
    using sfs_try_read [OF u(3) u(1) u(2) u(4) assms(2,1), of k hw 10] assms(3-5) by blast
  then show ?thesis using u(5-7) [of UIO_READ] len z
    by (simp add: sfs_rblock_def sfs_rwblock_def z_def [symmetric] io_store_def)
qed

definition two_blocks :: "unit diskstate_scheme" where
  "two_blocks = \<lparr>um_bytes = (\<lambda>_. 0), um_reads = (\<lambda>_. False), um_writes = (\<lambda>_. False), cur_vmspace = 0, badfaultfunc = False,
     d_sectors = (\<lambda>b. replicate SFS_BLOCKSIZE (of_nat b)), d_blocks = 2, lh_buf = replicate SFS_BLOCKSIZE 0, lh_result = None, lh_ops = 0\<rparr>"

lemma two_blocks_ok: "disk_ok two_blocks"
  by (simp add: disk_ok_def two_blocks_def)

theorem sfs_rblock_retries_witness:
  "\<exists>s'. sfs_rblock (\<lambda>n. if n < 3 then LHD_MEDIA else LHD_OK) 1 two_blocks = Ret (replicate SFS_BLOCKSIZE 1) s' \<and> quiet s' = quiet two_blocks"
  using sfs_rblock_retries [of two_blocks 1 3 "\<lambda>n. if n < 3 then LHD_MEDIA else LHD_OK"] two_blocks_ok
  by (simp add: two_blocks_def LHD_MEDIA_def LHD_OK_def LHD_STATEMASK_def)

text \<open>
  C37. Writing a block does not survive a media error, and the error is not reported: the driver has
  already taken the data out of the \<^verbatim>\<open>uio\<close> when the device fails, so the retry has nothing left to
  move and succeeds at once. \<^verbatim>\<open>sfs_wblock\<close> returns success and the disk is as it was.
\<close>

theorem sfs_wblock_loses_data:
  assumes "disk_ok s" "unat b < d_blocks s" "length data = 512" "hw (lh_ops s) AND LHD_STATEMASK = LHD_MEDIA"
  shows "\<exists>s'. sfs_wblock hw data b s = Ret () s' \<and> d_sectors s' = d_sectors s"
proof -
  have b: "unat b < 4194303" using assms(1,2) by (simp add: disk_ok_def)
  note u = SFSUIO_ok [OF b assms(3)]
  let ?u = "SFSUIO data b UIO_WRITE"
  let ?s = "failed_op (s\<lparr>lh_buf := io_next 512 (?u, s)\<rparr>)"
  have fail: "lhd_io hw (?u, s) = Err EIO (io_moved 512 ?u, ?s)"
    by (rule lhd_io_write_fails [where hw = hw, OF u(3) u(1) u(2) assms(2,1) u(4) assms(4)])
  have "uio_offset (io_moved 512 ?u) = 512 * int (unat b + 1)" using u(1) by simp
  then have again: "lhd_io hw (io_moved 512 ?u, ?s) = Ret () (io_moved 512 ?u, ?s)"
    using u(2) assms(1,2) by (intro lhd_io_nothing [where b = "unat b + 1"]) (simp_all add: failed_op_def disk_ok_def)
  have ten: "(10 :: nat) = Suc 9" by simp
  have "sfs_rwblock hw (?u, s) = Ret () (io_moved 512 ?u, ?s)"
    unfolding sfs_rwblock_def ten sfs_try.simps(2) fail using sfs_try_Ret [OF again, of 9] by simp
  then show ?thesis by (simp add: sfs_wblock_def failed_op_def)
qed

theorem sfs_wblock_loses_data_witness:
  "\<exists>s'. sfs_wblock (\<lambda>n. if n = 0 then LHD_MEDIA else LHD_OK) (replicate 512 7) 1 two_blocks = Ret () s' \<and> d_sectors s' 1 = replicate SFS_BLOCKSIZE 1"
  using sfs_wblock_loses_data [of two_blocks 1 "replicate 512 7" "\<lambda>n. if n = 0 then LHD_MEDIA else LHD_OK"] two_blocks_ok
  by (auto simp: two_blocks_def LHD_MEDIA_def LHD_STATEMASK_def)

end
