(* ===== verification/KSfsFile.thy ===== *)
theory KSfsFile
  imports KSfsBlocks
begin

text \<open>
  A file of SFS as an array of bytes. The invariant says that every block a file uses is marked in
  the free map and used once; the contents of a file are read off the disk through its block
  numbers. \<^verbatim>\<open>sfs_bmap\<close> with allocation leaves the contents alone, writing replaces a range of them and
  reading returns a range of them. Other blocks, given as a set, keep their data.
\<close>

section \<open>Invariant\<close>

definition nblocks :: "sfs_fs \<Rightarrow> nat" where
  "nblocks s = unat (sp_nblocks (sfs_super s))"

definition used_blocks :: "sfs_fs \<Rightarrow> nat set" where
  "used_blocks s = used (sfs_freemap s)"

text \<open>Block 0 and the places beyond the end of the disk are marked in use.\<close>

definition fs_ok :: "sfs_fs \<Rightarrow> bool" where
  "fs_ok s \<longleftrightarrow> disk_ok s \<and> bitmap_inv (sfs_freemap s) \<and> nblocks s \<le> nbits (sfs_freemap s) \<and> nblocks s \<le> d_blocks s \<and>
     0 \<in> used_blocks s \<and> {nblocks s..<nbits (sfs_freemap s)} \<subseteq> used_blocks s"

text \<open>The block numbers of a file: fifteen direct ones, the indirect block, and the 128 in it.\<close>

definition id_blocks :: "sfs_fs \<Rightarrow> sfs_inode \<Rightarrow> 32 word list" where
  "id_blocks s i = (if sfi_indirect i = 0 then replicate SFS_DBPERIDB 0 else de_words SFS_DBPERIDB (d_sectors s (unat (sfi_indirect i))))"

definition all_blocks :: "sfs_fs \<Rightarrow> sfs_inode \<Rightarrow> 32 word list" where
  "all_blocks s i = sfi_direct i @ sfi_indirect i # id_blocks s i"

definition file_ok :: "sfs_fs \<Rightarrow> sfs_inode \<Rightarrow> bool" where
  "file_ok s i \<longleftrightarrow> inode_wf i \<and>
     (\<forall>j < 144. all_blocks s i ! j \<noteq> 0 \<longrightarrow> unat (all_blocks s i ! j) < nblocks s \<and> unat (all_blocks s i ! j) \<in> used_blocks s \<and>
        (\<forall>k < 144. k \<noteq> j \<longrightarrow> all_blocks s i ! k \<noteq> all_blocks s i ! j))"

definition MAXBLOCKS :: nat where
  "MAXBLOCKS = SFS_NDIRECT + SFS_DBPERIDB"

text \<open>Where the number of block \<open>n\<close> of a file is kept.\<close>

definition slot :: "nat \<Rightarrow> nat" where
  "slot n = (if n < SFS_NDIRECT then n else n + 1)"

definition file_block :: "sfs_fs \<Rightarrow> sfs_inode \<Rightarrow> nat \<Rightarrow> 32 word" where
  "file_block s i n = all_blocks s i ! slot n"

definition block_data :: "sfs_fs \<Rightarrow> 32 word \<Rightarrow> byte list" where
  "block_data s b = (if b = 0 then replicate SFS_BLOCKSIZE 0 else d_sectors s (unat b))"

text \<open>Byte \<open>k\<close> of a file; a block that is not allocated reads as zeros.\<close>

definition content :: "sfs_fs \<Rightarrow> sfs_inode \<Rightarrow> nat \<Rightarrow> byte" where
  "content s i k = block_data s (file_block s i (k div SFS_BLOCKSIZE)) ! (k mod SFS_BLOCKSIZE)"

definition file_blocks :: "sfs_fs \<Rightarrow> sfs_inode \<Rightarrow> nat set" where
  "file_blocks s i = {unat (all_blocks s i ! j) | j. j < 144 \<and> all_blocks s i ! j \<noteq> 0}"

text \<open>What a routine that works on one file leaves alone.\<close>

definition frame :: "sfs_fs \<Rightarrow> sfs_fs \<Rightarrow> bool" where
  "frame s s' \<longleftrightarrow> um_bytes s' = um_bytes s \<and> um_reads s' = um_reads s \<and> um_writes s' = um_writes s \<and> cur_vmspace s' = cur_vmspace s \<and>
     badfaultfunc s' = badfaultfunc s \<and> d_blocks s' = d_blocks s \<and> sfs_super s' = sfs_super s \<and> sfs_vnodes s' = sfs_vnodes s \<and>
     nbits (sfs_freemap s') = nbits (sfs_freemap s)"

lemma frame_refl [simp]: "frame s s"
  by (simp add: frame_def)

lemma frame_trans: "frame s t \<Longrightarrow> frame t u \<Longrightarrow> frame s u"
  by (simp add: frame_def)

lemma frame_nblocks: "frame s s' \<Longrightarrow> nblocks s' = nblocks s"
  by (simp add: frame_def nblocks_def)

lemma length_all_blocks: "inode_wf i \<Longrightarrow> length (all_blocks s i) = 144"
  by (simp add: all_blocks_def id_blocks_def inode_wf_def SFS_NDIRECT_def SFS_DBPERIDB_def)

lemma slot_less: "n < MAXBLOCKS \<Longrightarrow> slot n < 144 \<and> slot n \<noteq> 15"
  by (auto simp: slot_def MAXBLOCKS_def SFS_NDIRECT_def SFS_DBPERIDB_def)

lemma slot_inject: "slot m = slot n \<longleftrightarrow> m = n"
  by (auto simp: slot_def)

lemma all_blocks_nth:
  assumes "inode_wf i"
  shows "n < 15 \<Longrightarrow> all_blocks s i ! n = sfi_direct i ! n" "all_blocks s i ! 15 = sfi_indirect i"
    "n < 128 \<Longrightarrow> all_blocks s i ! (16 + n) = id_blocks s i ! n"
  using assms by (auto simp: all_blocks_def inode_wf_def SFS_NDIRECT_def nth_append nth_Cons')

text \<open>Contents and blocks depend on the disk only through the blocks of the file.\<close>

lemma id_blocks_cong:
  "(sfi_indirect i \<noteq> 0 \<Longrightarrow> d_sectors s' (unat (sfi_indirect i)) = d_sectors s (unat (sfi_indirect i))) \<Longrightarrow> id_blocks s' i = id_blocks s i"
  by (simp add: id_blocks_def)

lemma fs_ok_cong:
  assumes "fs_ok s" "frame s s'" "bitmap_inv (sfs_freemap s')" "used_blocks s \<subseteq> used_blocks s'" "length (lh_buf s') = SFS_BLOCKSIZE"
    "\<And>b. b < d_blocks s \<Longrightarrow> length (d_sectors s' b) = SFS_BLOCKSIZE"
  shows "fs_ok s'"
  using assms by (auto simp: fs_ok_def frame_def nblocks_def disk_ok_def)

text \<open>
  One more block: a place of the list that was empty gets the number of a block that was free and
  has been cleared. The contents do not change.
\<close>

definition one_more :: "sfs_fs \<Rightarrow> sfs_fs \<Rightarrow> sfs_inode \<Rightarrow> sfs_inode \<Rightarrow> nat \<Rightarrow> 32 word \<Rightarrow> bool" where
  "one_more s s' i i' j b \<longleftrightarrow> file_ok s i \<and> inode_wf i' \<and> nblocks s' = nblocks s \<and>
     j < 144 \<and> all_blocks s i ! j = 0 \<and> all_blocks s' i' = (all_blocks s i)[j := b] \<and>
     b \<noteq> 0 \<and> unat b \<notin> used_blocks s \<and> unat b < nblocks s \<and> used_blocks s' = insert (unat b) (used_blocks s) \<and>
     d_sectors s' (unat b) = replicate SFS_BLOCKSIZE 0 \<and>
     (\<forall>c \<in> used_blocks s. c \<noteq> unat (sfi_indirect i') \<longrightarrow> d_sectors s' c = d_sectors s c)"

lemma one_moreD:
  assumes "one_more s s' i i' j b"
  shows "inode_wf i" "k < 144 \<Longrightarrow> k \<noteq> j \<Longrightarrow> all_blocks s' i' ! k = all_blocks s i ! k" "all_blocks s' i' ! j = b"
    "k < 144 \<Longrightarrow> all_blocks s i ! k \<noteq> b" "inode_wf i'" "nblocks s' = nblocks s" "j < 144" "all_blocks s i ! j = 0"
    "b \<noteq> 0" "unat b < nblocks s" "used_blocks s' = insert (unat b) (used_blocks s)" "file_ok s i"
    "d_sectors s' (unat b) = replicate SFS_BLOCKSIZE 0"
    "c \<in> used_blocks s \<Longrightarrow> c \<noteq> unat (sfi_indirect i') \<Longrightarrow> d_sectors s' c = d_sectors s c"
proof -
  show wf: "inode_wf i" using assms by (simp add: one_more_def file_ok_def)
  show "all_blocks s' i' ! j = b" using assms length_all_blocks [OF wf] by (simp add: one_more_def)
qed (use assms in \<open>auto simp: one_more_def file_ok_def\<close>)

lemma file_ok_new:
  assumes "one_more s s' i i' j b"
  shows "file_ok s' i'"
proof -
  note o = one_moreD [OF assms]
  have "unat (all_blocks s' i' ! m) < nblocks s' \<and> unat (all_blocks s' i' ! m) \<in> used_blocks s' \<and>
        (\<forall>k < 144. k \<noteq> m \<longrightarrow> all_blocks s' i' ! k \<noteq> all_blocks s' i' ! m)" if m: "m < 144" "all_blocks s' i' ! m \<noteq> 0" for m
  proof (cases "m = j")
    case True
    then show ?thesis using o(2-4,6,10,11) by auto
  next
    case False
    then have eq: "all_blocks s i ! m \<noteq> 0" "all_blocks s' i' ! m = all_blocks s i ! m" using m o(2) by auto
    have "all_blocks s' i' ! k \<noteq> all_blocks s i ! m" if "k < 144" "k \<noteq> m" for k
      using that m eq o(2) [of k] o(3) o(4) [of m] o(12) by (cases "k = j") (auto simp: file_ok_def)
    with m eq o(6,11,12) show ?thesis by (auto simp: file_ok_def)
  qed
  then show ?thesis using o(5) by (simp add: file_ok_def)
qed

lemma content_new:
  assumes "one_more s s' i i' j b" "k < MAXBLOCKS * SFS_BLOCKSIZE"
  shows "content s' i' k = content s i k"
proof -
  note o = one_moreD [OF assms(1)]
  let ?n = "slot (k div SFS_BLOCKSIZE)"
  have n: "?n < 144" "?n \<noteq> 15" using slot_less [of "k div SFS_BLOCKSIZE"] assms(2) by (simp_all add: less_mult_imp_div_less)
  show ?thesis
  proof (cases "?n = j")
    case True
    then show ?thesis using o(3,8,9,13) by (simp add: content_def file_block_def block_data_def)
  next
    case False
    have eq: "all_blocks s' i' ! ?n = all_blocks s i ! ?n" using o(2) n False by simp
    have "d_sectors s' (unat (all_blocks s i ! ?n)) = d_sectors s (unat (all_blocks s i ! ?n))" if nz: "all_blocks s i ! ?n \<noteq> 0"
    proof (rule o(14))
      show "unat (all_blocks s i ! ?n) \<in> used_blocks s" using o(12) n nz by (simp add: file_ok_def)
      have "(15 :: nat) < 144" by simp
      with file_ok_new [OF assms(1)] n nz eq have "all_blocks s' i' ! 15 \<noteq> all_blocks s' i' ! ?n" unfolding file_ok_def by metis
      then have "sfi_indirect i' \<noteq> all_blocks s i ! ?n" using eq all_blocks_nth(2) [OF o(5), of s'] by simp
      then show "unat (all_blocks s i ! ?n) \<noteq> unat (sfi_indirect i')" by (metis unsigned_word_eqI)
    qed
    with eq show ?thesis by (simp add: content_def file_block_def block_data_def)
  qed
qed

lemma file_blocks_new:
  assumes "one_more s s' i i' j b"
  shows "file_blocks s' i' = insert (unat b) (file_blocks s i)"
proof -
  note o = one_moreD [OF assms]
  have nz: "all_blocks s' i' ! k \<noteq> 0 \<longleftrightarrow> k = j \<or> all_blocks s i ! k \<noteq> 0" if "k < 144" for k
    using o(2) [OF that] o(3,8,9) by (cases "k = j") auto
  have img: "file_blocks t n = (\<lambda>k. unat (all_blocks t n ! k)) ` {k. k < 144 \<and> all_blocks t n ! k \<noteq> 0}" for t n
    by (auto simp: file_blocks_def)
  have idx: "{k. k < 144 \<and> all_blocks s' i' ! k \<noteq> 0} = insert j {k. k < 144 \<and> all_blocks s i ! k \<noteq> 0}"
    using nz o(7) by auto
  have "unat (all_blocks s' i' ! k) = unat (all_blocks s i ! k)" if "k < 144" "all_blocks s i ! k \<noteq> 0" for k
    using that o(2) [of k] o(8) by (cases "k = j") auto
  then have "(\<lambda>k. unat (all_blocks s' i' ! k)) ` {k. k < 144 \<and> all_blocks s i ! k \<noteq> 0} = file_blocks s i"
    unfolding img by (intro image_cong) auto
  then show ?thesis unfolding img [of s'] idx image_insert using o(3) by simp
qed

section \<open>Block routines under the invariant\<close>

text \<open>A step that changes neither the disk nor the structures.\<close>

definition unchanged :: "sfs_fs \<Rightarrow> sfs_fs \<Rightarrow> bool" where
  "unchanged s s' \<longleftrightarrow> frame s s' \<and> d_sectors s' = d_sectors s \<and> sfs_freemap s' = sfs_freemap s \<and> sfs_pool s' = sfs_pool s \<and>
     length (lh_buf s') = length (lh_buf s)"

lemma unchanged_refl [simp]: "unchanged s s"
  by (simp add: unchanged_def)

lemma unchanged_trans: "unchanged s t \<Longrightarrow> unchanged t u \<Longrightarrow> unchanged s u"
  by (auto simp: unchanged_def intro: frame_trans)

lemma unchangedD:
  assumes "unchanged s s'"
  shows "fs_ok s' = fs_ok s" "file_ok s' i = file_ok s i" "content s' i = content s i" "file_block s' i = file_block s i"
    "all_blocks s' i = all_blocks s i" "used_blocks s' = used_blocks s" "nblocks s' = nblocks s" "sfs_pool s' = sfs_pool s"
    "d_sectors s' = d_sectors s" "frame s s'" "file_blocks s' i = file_blocks s i"
proof -
  have d: "d_sectors s' = d_sectors s" "sfs_freemap s' = sfs_freemap s" "frame s s'" "length (lh_buf s') = length (lh_buf s)"
    using assms by (simp_all add: unchanged_def)
  show blocks: "all_blocks s' i = all_blocks s i" for i using d(1) by (simp add: all_blocks_def id_blocks_def)
  show "fs_ok s' = fs_ok s" using d by (simp add: fs_ok_def disk_ok_def frame_def nblocks_def used_blocks_def)
  show "used_blocks s' = used_blocks s" "nblocks s' = nblocks s" using d by (simp_all add: used_blocks_def nblocks_def frame_def)
  then show "file_ok s' i = file_ok s i" by (simp add: file_ok_def blocks)
  show "content s' i = content s i" "file_block s' i = file_block s i" "file_blocks s' i = file_blocks s i"
    using d(1) by (simp_all add: fun_eq_iff content_def file_block_def block_data_def blocks file_blocks_def)
qed (use assms in \<open>simp_all add: unchanged_def\<close>)

lemma unchanged_ticked: "length b = length (lh_buf s) \<Longrightarrow> unchanged s (ticked b s)"
  by (simp add: unchanged_def frame_def ticked_def)

lemma rblock_fs:
  assumes "works hw" "fs_ok s" "unat b < nblocks s"
  obtains s' where "sfs_rblock hw b s = Ret (d_sectors s (unat b)) s'" "unchanged s s'"
proof
  have d: "disk_ok s" "unat b < d_blocks s" using assms(2,3) by (simp_all add: fs_ok_def)
  show "sfs_rblock hw b s = Ret (d_sectors s (unat b)) (ticked (d_sectors s (unat b)) s)" by (rule sfs_rblock_ok [OF assms(1) d])
  show "unchanged s (ticked (d_sectors s (unat b)) s)" using d by (intro unchanged_ticked) (simp add: disk_ok_def)
qed

lemma wblock_fs:
  assumes "works hw" "fs_ok s" "unat b < nblocks s" "length data = SFS_BLOCKSIZE"
  obtains s' where "sfs_wblock hw data b s = Ret () s'" "frame s s'" "d_sectors s' = (d_sectors s)(unat b := data)"
    "sfs_freemap s' = sfs_freemap s" "sfs_pool s' = sfs_pool s" "fs_ok s'"
proof
  let ?s = "ticked data s\<lparr>d_sectors := (d_sectors s)(unat b := data)\<rparr>"
  have d: "disk_ok s" "unat b < d_blocks s" using assms(2,3) by (simp_all add: fs_ok_def)
  show "sfs_wblock hw data b s = Ret () ?s" using sfs_wblock_ok [OF assms(1) d] assms(4) by (simp add: SFS_BLOCKSIZE_def)
  show fr: "frame s ?s" by (simp add: frame_def ticked_def)
  show "d_sectors ?s = (d_sectors s)(unat b := data)" by simp
  show "sfs_freemap ?s = sfs_freemap s" "sfs_pool ?s = sfs_pool s" by (simp_all add: ticked_def)
  show "fs_ok ?s"
    by (rule fs_ok_cong [OF assms(2) fr]) (use assms(2,4) in \<open>auto simp: fs_ok_def disk_ok_def used_blocks_def ticked_def\<close>)
qed

lemma bused_fs: "fs_ok s \<Longrightarrow> unat b < nblocks s \<Longrightarrow> sfs_bused b s = Ret (unat b \<in> used_blocks s) s"
proof -
  assume a: "fs_ok s" "unat b < nblocks s"
  then have "unat b < nbits (sfs_freemap s)" "bitmap_inv (sfs_freemap s)" by (simp_all add: fs_ok_def)
  from bitmap_isset_eq [OF this(2,1)] obtain w where "bitmap_isset (unat b) (sfs_freemap s) = Ret w (sfs_freemap s)"
    "w \<noteq> 0 \<longleftrightarrow> unat b \<in> used (sfs_freemap s)" by blast
  with a(2) show ?thesis by (simp add: sfs_bused_def nblocks_def word_le_nat_alt used_blocks_def)
qed

lemma bmap_result_fs: "fs_ok s \<Longrightarrow> b = 0 \<or> (unat b < nblocks s \<and> unat b \<in> used_blocks s) \<Longrightarrow> bmap_result b s = Ret b s"
  by (auto simp: bmap_result_def bused_fs)

text \<open>What an allocation does.\<close>

definition allocated :: "32 word \<Rightarrow> sfs_fs \<Rightarrow> sfs_fs \<Rightarrow> bool" where
  "allocated b s s' \<longleftrightarrow> frame s s' \<and> fs_ok s' \<and> b \<noteq> 0 \<and> unat b \<notin> used_blocks s \<and> unat b < nblocks s \<and>
     used_blocks s' = insert (unat b) (used_blocks s) \<and> d_sectors s' = (d_sectors s)(unat b := replicate SFS_BLOCKSIZE 0) \<and>
     sfs_pool s' = sfs_pool s"

lemma balloc_fs:
  assumes "works (env_hw E)" "fs_ok s"
  shows "outcome (sfs_balloc E s) (\<lambda>b s'. allocated b s s') (\<lambda>e s'. e = ENOSPC \<and> s' = s)"
proof -
  have inv: "bitmap_inv (sfs_freemap s)" using assms(2) by (simp add: fs_ok_def)
  from bitmap_alloc_outcome [OF inv] show ?thesis
  proof (cases rule: outcome_cases)
    case (Ret n fm)
    let ?b = "of_nat n :: 32 word" and ?s = "s\<lparr>sfs_freemap := fm, sfs_freemapdirty := True\<rparr>"
    have n: "n < nbits (sfs_freemap s)" "n \<notin> used_blocks s" using Ret(2) by (auto simp: used_blocks_def)
    then have lt: "n < nblocks s" using assms(2) unfolding fs_ok_def by (meson atLeastLessThan_iff not_le subsetD)
    have small: "n < 4294967296" using n(1) inv by (simp add: bitmap_inv_def)
    then have b: "unat ?b = n" by (rule unat_of_nat_32)
    have "n \<noteq> 0" using n(2) assms(2) unfolding fs_ok_def by (cases n) auto
    then have nz: "?b \<noteq> 0" using b by (metis unat_0)
    have fr: "frame s ?s" using Ret(2) by (simp add: frame_def)
    have ok: "fs_ok ?s"
      by (rule fs_ok_cong [OF assms(2) fr]) (use Ret(2) assms(2) in \<open>auto simp: fs_ok_def disk_ok_def used_blocks_def\<close>)
    have nb: "nblocks ?s = nblocks s" by (simp add: nblocks_def)
    obtain s' where s': "sfs_wblock (env_hw E) (replicate SFS_BLOCKSIZE 0) ?b ?s = Ret () s'" "frame ?s s'"
      "d_sectors s' = (d_sectors ?s)(unat ?b := replicate SFS_BLOCKSIZE 0)" "sfs_freemap s' = sfs_freemap ?s" "sfs_pool s' = sfs_pool ?s" "fs_ok s'"
      using wblock_fs [OF assms(1) ok, of ?b "replicate SFS_BLOCKSIZE 0"] lt b nb by auto
    have "sfs_balloc E s = Ret ?b s'"
      using Ret(1) s'(1) lt b by (simp add: sfs_balloc_def sfs_clearblock_def nblocks_def word_le_nat_alt)
    moreover have "allocated ?b s s'"
      using s' n lt b nz Ret(2) frame_trans [OF fr s'(2)] by (simp add: allocated_def used_blocks_def)
    ultimately show ?thesis by simp
  next
    case (Err e fm)
    then show ?thesis by (simp add: sfs_balloc_def)
  qed
qed

section \<open>Steps on one file\<close>

definition inode_of :: "sfs_fs \<Rightarrow> 32 word \<Rightarrow> sfs_inode" where
  "inode_of s sv = sv_i (the (sfs_pool s sv))"

definition same_meta :: "sfs_vnode \<Rightarrow> sfs_vnode \<Rightarrow> bool" where
  "same_meta v v' \<longleftrightarrow> sv_refcount v' = sv_refcount v \<and> sv_opencount v' = sv_opencount v \<and> sv_ops v' = sv_ops v \<and> sv_ino v' = sv_ino v \<and>
     sfi_type (sv_i v') = sfi_type (sv_i v) \<and> sfi_linkcount (sv_i v') = sfi_linkcount (sv_i v)"

definition file_at :: "sfs_fs \<Rightarrow> 32 word \<Rightarrow> bool" where
  "file_at s sv \<longleftrightarrow> fs_ok s \<and> sfs_pool s sv \<noteq> None \<and> file_ok s (inode_of s sv)"

text \<open>
  A step on the file \<open>sv\<close> keeps the invariant. New blocks of the file were free before, and no block
  in use that belongs to something else changes.
\<close>

definition kept :: "32 word \<Rightarrow> sfs_fs \<Rightarrow> sfs_fs \<Rightarrow> bool" where
  "kept sv s s' \<longleftrightarrow> frame s s' \<and> file_at s' sv \<and> (\<forall>p. p \<noteq> sv \<longrightarrow> sfs_pool s' p = sfs_pool s p) \<and>
     same_meta (the (sfs_pool s sv)) (the (sfs_pool s' sv)) \<and>
     file_blocks s (inode_of s sv) \<subseteq> file_blocks s' (inode_of s' sv) \<and>
     file_blocks s' (inode_of s' sv) \<inter> used_blocks s \<subseteq> file_blocks s (inode_of s sv) \<and>
     used_blocks s' = used_blocks s \<union> file_blocks s' (inode_of s' sv) \<and>
     (\<forall>c \<in> used_blocks s - file_blocks s (inode_of s sv). d_sectors s' c = d_sectors s c)"

lemma same_meta_refl [simp]: "same_meta v v"
  by (simp add: same_meta_def)

lemma same_meta_trans: "same_meta u v \<Longrightarrow> same_meta v w \<Longrightarrow> same_meta u w"
  by (simp add: same_meta_def)

lemma file_blocks_used: "file_ok s i \<Longrightarrow> file_blocks s i \<subseteq> used_blocks s"
  by (auto simp: file_ok_def file_blocks_def)

lemma kept_refl: "file_at s sv \<Longrightarrow> kept sv s s"
  using file_blocks_used [of s "inode_of s sv"] by (auto simp: kept_def file_at_def)

lemma kept_trans:
  assumes "kept sv s t" "kept sv t u"
  shows "kept sv s u"
proof -
  let ?f = "\<lambda>s. file_blocks s (inode_of s sv)"
  have a: "?f s \<subseteq> ?f t" "?f t \<inter> used_blocks s \<subseteq> ?f s" "used_blocks t = used_blocks s \<union> ?f t"
    and b: "?f t \<subseteq> ?f u" "?f u \<inter> used_blocks t \<subseteq> ?f t" "used_blocks u = used_blocks t \<union> ?f u"
    using assms by (simp_all add: kept_def)
  have "d_sectors u c = d_sectors s c" if "c \<in> used_blocks s - ?f s" for c
  proof -
    have "c \<in> used_blocks t - ?f t" using that a by auto
    then show ?thesis using that assms by (simp add: kept_def)
  qed
  moreover have "?f s \<subseteq> ?f u" "?f u \<inter> used_blocks s \<subseteq> ?f s" "used_blocks u = used_blocks s \<union> ?f u" using a b by blast+
  ultimately show ?thesis using assms frame_trans same_meta_trans by (auto simp: kept_def)
qed

lemma kept_unchanged:
  assumes "file_at s sv" "unchanged s s'"
  shows "kept sv s s'"
  using kept_refl [OF assms(1)] unchangedD [OF assms(2)] by (simp add: kept_def file_at_def inode_of_def)

lemma kept_new:
  assumes "file_at s sv" "one_more s s' (inode_of s sv) (inode_of s' sv) j b" "frame s s'" "fs_ok s'"
    "sfs_pool s' sv \<noteq> None" "\<And>p. p \<noteq> sv \<Longrightarrow> sfs_pool s' p = sfs_pool s p" "same_meta (the (sfs_pool s sv)) (the (sfs_pool s' sv))"
    "\<And>c. c \<in> used_blocks s - file_blocks s (inode_of s sv) \<Longrightarrow> d_sectors s' c = d_sectors s c"
  shows "kept sv s s'"
proof -
  have "unat b \<notin> used_blocks s" using assms(2) by (simp add: one_more_def)
  then show ?thesis
    using assms one_moreD(11) [OF assms(2)] file_ok_new [OF assms(2)] file_blocks_new [OF assms(2)] file_blocks_used [of s "inode_of s sv"]
    by (auto simp: kept_def file_at_def)
qed

lemma de_words_zeros: "de_words n (replicate (4 * n) 0) = replicate n 0"
  by (rule nth_equalityI) (simp_all add: nth_de_words de32_def min_def)

section \<open>\<^verbatim>\<open>sfs_bmap\<close>\<close>

definition MAXBYTES :: nat where
  "MAXBYTES = MAXBLOCKS * SFS_BLOCKSIZE"

text \<open>Same contents as before, in a file that may have more blocks.\<close>

definition grown :: "32 word \<Rightarrow> sfs_fs \<Rightarrow> sfs_fs \<Rightarrow> bool" where
  "grown sv s s' \<longleftrightarrow> kept sv s s' \<and> sfi_size (inode_of s' sv) = sfi_size (inode_of s sv) \<and>
     (\<forall>k < MAXBYTES. content s' (inode_of s' sv) k = content s (inode_of s sv) k)"

lemma grown_trans: "grown sv s t \<Longrightarrow> grown sv t u \<Longrightarrow> grown sv s u"
  by (auto simp: grown_def intro: kept_trans)

lemma grown_unchanged: "file_at s sv \<Longrightarrow> unchanged s s' \<Longrightarrow> grown sv s s'"
  by (simp add: grown_def kept_unchanged unchangedD inode_of_def)

lemma grown_new:
  assumes "file_at s sv" "one_more s s' (inode_of s sv) (inode_of s' sv) j b" "frame s s'" "fs_ok s'"
    "sfs_pool s' sv \<noteq> None" "\<And>p. p \<noteq> sv \<Longrightarrow> sfs_pool s' p = sfs_pool s p" "same_meta (the (sfs_pool s sv)) (the (sfs_pool s' sv))"
    "\<And>c. c \<in> used_blocks s - file_blocks s (inode_of s sv) \<Longrightarrow> d_sectors s' c = d_sectors s c"
    "sfi_size (inode_of s' sv) = sfi_size (inode_of s sv)"
  shows "grown sv s s'"
  using kept_new [OF assms(1-8)] content_new [OF assms(2)] assms(9) by (simp add: grown_def MAXBYTES_def)

lemma fs_ok_set_inode: "fs_ok (set_inode sv f s) = fs_ok s"
  by (simp add: fs_ok_def set_inode_def set_sv_def disk_ok_def nblocks_def used_blocks_def)

lemma frame_set_inode: "frame s' (set_inode sv f s) = frame s' s"
  by (simp add: frame_def set_inode_def set_sv_def)

lemma set_inode_select [simp]:
  "d_sectors (set_inode sv f s) = d_sectors s" "used_blocks (set_inode sv f s) = used_blocks s" "nblocks (set_inode sv f s) = nblocks s"
  "p \<noteq> sv \<Longrightarrow> sfs_pool (set_inode sv f s) p = sfs_pool s p"
  by (simp_all add: set_inode_def set_sv_def used_blocks_def nblocks_def)

lemma inode_of_set_inode: "sfs_pool s sv = Some v \<Longrightarrow> inode_of (set_inode sv f s) sv = f (sv_i v)"
  by (simp add: inode_of_def set_inode_def set_sv_def)

lemma set_inode_meta:
  assumes "sfs_pool s sv = Some v" "sfi_type (f (sv_i v)) = sfi_type (sv_i v)" "sfi_linkcount (f (sv_i v)) = sfi_linkcount (sv_i v)"
  shows "sfs_pool (set_inode sv f s) sv \<noteq> None" "same_meta v (the (sfs_pool (set_inode sv f s) sv))"
  using assms by (simp_all add: set_inode_def set_sv_def same_meta_def)

text \<open>A new block recorded in the inode.\<close>

lemma grown_inode:
  assumes at: "file_at s sv" "sfs_pool s sv = Some v" and al: "allocated b s s1"
    and blocks: "j < 144" "all_blocks s (sv_i v) ! j = 0" "all_blocks (set_inode sv f s1) (f (sv_i v)) = (all_blocks s (sv_i v))[j := b]"
    and f: "inode_wf (f (sv_i v))" "sfi_type (f (sv_i v)) = sfi_type (sv_i v)" "sfi_linkcount (f (sv_i v)) = sfi_linkcount (sv_i v)"
      "sfi_size (f (sv_i v)) = sfi_size (sv_i v)"
  shows "grown sv s (set_inode sv f s1)"
proof -
  let ?s = "set_inode sv f s1"
  have a: "frame s s1" "fs_ok s1" "b \<noteq> 0" "unat b \<notin> used_blocks s" "unat b < nblocks s" "used_blocks s1 = insert (unat b) (used_blocks s)"
    "d_sectors s1 = (d_sectors s)(unat b := replicate SFS_BLOCKSIZE 0)" "sfs_pool s1 = sfs_pool s" using al by (simp_all add: allocated_def)
  have v: "sfs_pool s1 sv = Some v" using a(8) at(2) by simp
  have i: "inode_of s sv = sv_i v" "inode_of ?s sv = f (sv_i v)" using at(2) inode_of_set_inode [OF v] by (simp_all add: inode_of_def)
  have "one_more s ?s (inode_of s sv) (inode_of ?s sv) j b"
    using at(1) a blocks f(1) frame_nblocks [OF a(1)] unfolding i one_more_def file_at_def i by auto
  then show ?thesis
  proof (rule grown_new [OF at(1)])
    show "d_sectors ?s c = d_sectors s c" if "c \<in> used_blocks s - file_blocks s (inode_of s sv)" for c
      using that a(4,7) by auto
  qed (use a at(2) i f(4) set_inode_meta [where f = f, OF v f(2,3)] in \<open>simp_all add: frame_set_inode fs_ok_set_inode\<close>)
qed

lemma id_blocks_alloc: "allocated b s s1 \<Longrightarrow> file_ok s i \<Longrightarrow> id_blocks s1 i = id_blocks s i"
proof (rule id_blocks_cong)
  assume a: "allocated b s s1" "file_ok s i" "sfi_indirect i \<noteq> 0"
  have wf: "inode_wf i" using a(2) by (simp add: file_ok_def)
  have "(15 :: nat) < 144" by simp
  then have "unat (sfi_indirect i) \<in> used_blocks s" using a(2,3) all_blocks_nth(2) [OF wf, of s] unfolding file_ok_def by metis
  then show "d_sectors s1 (unat (sfi_indirect i)) = d_sectors s (unat (sfi_indirect i))" using a(1) by (auto simp: allocated_def)
qed

lemma id_blocks_set_inode [simp]: "id_blocks (set_inode sv f s) i = id_blocks s i"
  by (simp add: id_blocks_def)

lemma alloc_direct:
  assumes "file_at s sv" "sfs_pool s sv = Some v" "allocated b s s1" "n < SFS_NDIRECT" "sfi_direct (sv_i v) ! n = 0"
  shows "grown sv s (set_inode sv (\<lambda>i. i\<lparr>sfi_direct := (sfi_direct i)[n := b]\<rparr>) s1)"
proof (rule grown_inode [OF assms(1-3), of n])
  have ok: "file_ok s (sv_i v)" "inode_wf (sv_i v)" using assms(1,2) by (simp_all add: file_at_def inode_of_def file_ok_def)
  have n: "n < 15" using assms(4) by (simp add: SFS_NDIRECT_def)
  then show "n < 144" by simp
  show "all_blocks s (sv_i v) ! n = 0" using all_blocks_nth(1) [OF ok(2) n] assms(5) by simp
  have "id_blocks s1 (sv_i v\<lparr>sfi_direct := d\<rparr>) = id_blocks s (sv_i v)" for d
    using id_blocks_alloc [OF assms(3) ok(1)] by (simp add: id_blocks_def split: if_splits)
  then show "all_blocks (set_inode sv (\<lambda>i. i\<lparr>sfi_direct := (sfi_direct i)[n := b]\<rparr>) s1) (sv_i v\<lparr>sfi_direct := (sfi_direct (sv_i v))[n := b]\<rparr>) =
      (all_blocks s (sv_i v))[n := b]"
    using ok(2) n by (simp add: all_blocks_def list_update_append inode_wf_def SFS_NDIRECT_def)
  show "inode_wf (sv_i v\<lparr>sfi_direct := (sfi_direct (sv_i v))[n := b]\<rparr>)" using ok(2) by (simp add: inode_wf_def)
qed simp_all

lemma alloc_idblock:
  assumes "file_at s sv" "sfs_pool s sv = Some v" "allocated b s s1" "sfi_indirect (sv_i v) = 0"
  shows "grown sv s (set_inode sv (\<lambda>i. i\<lparr>sfi_indirect := b\<rparr>) s1)"
proof (rule grown_inode [OF assms(1-3), of 15])
  have ok: "file_ok s (sv_i v)" "inode_wf (sv_i v)" using assms(1,2) by (simp_all add: file_at_def inode_of_def file_ok_def)
  show "all_blocks s (sv_i v) ! 15 = 0" using all_blocks_nth(2) [OF ok(2)] assms(4) by simp
  have z: "d_sectors s1 (unat b) = replicate SFS_BLOCKSIZE 0" "b \<noteq> 0" using assms(3) by (simp_all add: allocated_def)
  have "4 * SFS_DBPERIDB = SFS_BLOCKSIZE" by (simp add: SFS_DBPERIDB_def SFS_BLOCKSIZE_def)
  with z have "id_blocks s1 (sv_i v\<lparr>sfi_indirect := b\<rparr>) = id_blocks s (sv_i v)"
    using assms(4) de_words_zeros [of SFS_DBPERIDB] by (simp add: id_blocks_def)
  then show "all_blocks (set_inode sv (\<lambda>i. i\<lparr>sfi_indirect := b\<rparr>) s1) (sv_i v\<lparr>sfi_indirect := b\<rparr>) = (all_blocks s (sv_i v))[15 := b]"
    using ok(2) by (simp add: all_blocks_def list_update_append inode_wf_def SFS_NDIRECT_def)
  show "inode_wf (sv_i v\<lparr>sfi_indirect := b\<rparr>)" using ok(2) by (simp add: inode_wf_def)
qed simp_all

text \<open>A new block recorded in the indirect block.\<close>

lemma alloc_indirect:
  assumes at: "file_at s sv" "sfs_pool s sv = Some v" and al: "allocated b s s1" and id: "sfi_indirect (sv_i v) \<noteq> 0"
    and n: "n < SFS_DBPERIDB" "id_blocks s (sv_i v) ! n = 0"
    and w: "frame s1 s'" "fs_ok s'" "d_sectors s' = (d_sectors s1)(unat (sfi_indirect (sv_i v)) := be_words ((id_blocks s (sv_i v))[n := b]))"
      "sfs_freemap s' = sfs_freemap s1" "sfs_pool s' = sfs_pool s1"
  shows "grown sv s s'" "file_block s' (sv_i v) (SFS_NDIRECT + n) = b"
proof -
  have a: "frame s s1" "fs_ok s1" "b \<noteq> 0" "unat b \<notin> used_blocks s" "unat b < nblocks s" "used_blocks s1 = insert (unat b) (used_blocks s)"
    "d_sectors s1 = (d_sectors s)(unat b := replicate SFS_BLOCKSIZE 0)" "sfs_pool s1 = sfs_pool s" using al by (simp_all add: allocated_def)
  have ok: "file_ok s (sv_i v)" "inode_wf (sv_i v)" using at by (simp_all add: file_at_def inode_of_def file_ok_def)
  have n': "n < 128" using n(1) by (simp add: SFS_DBPERIDB_def)
  have i: "inode_of s sv = sv_i v" "inode_of s' sv = sv_i v" using at(2) a(8) w(5) by (simp_all add: inode_of_def)
  have "(15 :: nat) < 144" by simp
  then have used: "unat (sfi_indirect (sv_i v)) \<in> file_blocks s (sv_i v)"
    using id all_blocks_nth(2) [OF ok(2), of s] unfolding file_blocks_def by (intro CollectI exI [of _ 15]) auto
  then have ne: "unat (sfi_indirect (sv_i v)) \<noteq> unat b" using a(4) file_blocks_used [OF ok(1)] by auto
  have ub: "used_blocks s' = insert (unat b) (used_blocks s)" using w(4) a(6) by (simp add: used_blocks_def)
  have "id_blocks s' (sv_i v) = (id_blocks s (sv_i v))[n := b]"
    using id w(3) by (simp add: id_blocks_def)
  then have blocks: "all_blocks s' (sv_i v) = (all_blocks s (sv_i v))[16 + n := b]"
    using ok(2) by (simp add: all_blocks_def list_update_append inode_wf_def SFS_NDIRECT_def)
  have z: "all_blocks s (sv_i v) ! (16 + n) = 0" using all_blocks_nth(3) [OF ok(2) n'] n(2) by simp
  have more: "one_more s s' (inode_of s sv) (inode_of s' sv) (16 + n) b"
    using ok a(3-5) z blocks ub n' w(3) a(7) ne frame_nblocks [OF a(1)] frame_nblocks [OF w(1)] unfolding i one_more_def by auto
  show "grown sv s s'"
  proof (rule grown_new [OF at(1) more])
    show "d_sectors s' c = d_sectors s c" if "c \<in> used_blocks s - file_blocks s (inode_of s sv)" for c
    proof -
      have "c \<noteq> unat b" "c \<noteq> unat (sfi_indirect (sv_i v))" using that a(4) used i(1) by auto
      then show ?thesis using w(3) a(7) by simp
    qed
  qed (use at(2) a(8) w(2,5) i frame_trans [OF a(1) w(1)] in simp_all)
  show "file_block s' (sv_i v) (SFS_NDIRECT + n) = b"
    using one_moreD(3) [OF more] i by (simp add: file_block_def slot_def SFS_NDIRECT_def add.commute)
qed

text \<open>The result of \<^verbatim>\<open>sfs_bmap\<close>, with and without allocation.\<close>

lemma file_block_ok: "file_at s sv \<Longrightarrow> n < MAXBLOCKS \<Longrightarrow>
   file_block s (inode_of s sv) n = 0 \<or> unat (file_block s (inode_of s sv) n) < nblocks s \<and> unat (file_block s (inode_of s sv) n) \<in> used_blocks s"
  using slot_less [of n] by (auto simp: file_at_def file_ok_def file_block_def)

lemma file_block_direct: "inode_wf i \<Longrightarrow> n < SFS_NDIRECT \<Longrightarrow> file_block s i n = sfi_direct i ! n"
  using all_blocks_nth(1) [of i n s] by (simp add: file_block_def slot_def SFS_NDIRECT_def)

lemma file_block_indirect: "inode_wf i \<Longrightarrow> n < SFS_DBPERIDB \<Longrightarrow> file_block s i (SFS_NDIRECT + n) = id_blocks s i ! n"
  using all_blocks_nth(3) [of i n s] by (simp add: file_block_def slot_def SFS_NDIRECT_def SFS_DBPERIDB_def add.commute)

lemma idblock_range:
  assumes "file_at s sv" "sfs_pool s sv = Some v" "sfi_indirect (sv_i v) \<noteq> 0"
  shows "unat (sfi_indirect (sv_i v)) < nblocks s"
proof -
  have ok: "file_ok s (sv_i v)" "inode_wf (sv_i v)" using assms by (simp_all add: file_at_def inode_of_def file_ok_def)
  have "(15 :: nat) < 144" by simp
  then show ?thesis using ok assms(3) all_blocks_nth(2) [OF ok(2), of s] unfolding file_ok_def by metis
qed

text \<open>The last step: a number that is mapped is in use.\<close>

lemma bmap_result_mapped:
  assumes "file_at s sv" "n < MAXBLOCKS" "file_block s (inode_of s sv) n = b"
  shows "bmap_result b s = Ret b s"
  using assms file_block_ok [OF assms(1,2)] by (intro bmap_result_fs) (auto simp: file_at_def)

lemma bmap_lookup:
  assumes "works (env_hw E)" "file_at s sv" "n < MAXBLOCKS"
  obtains s' where "sfs_bmap E sv n False s = Ret (file_block s (inode_of s sv) n) s'" "unchanged s s'"
proof -
  obtain v where v: "sfs_pool s sv = Some v" using assms(2) by (auto simp: file_at_def)
  then have i: "inode_of s sv = sv_i v" by (simp add: inode_of_def)
  have wf: "inode_wf (sv_i v)" and fs: "fs_ok s" using assms(2) i by (simp_all add: file_at_def file_ok_def)
  note last = bmap_result_mapped [OF assms(2,3) refl, unfolded i]
  show thesis
  proof (cases "n < SFS_NDIRECT")
    case True
    then have "sfs_bmap E sv n False s = Ret (file_block s (sv_i v) n) s"
      using v last by (simp add: sfs_bmap_def bmap_direct_def file_block_direct [OF wf])
    then show thesis using that [of s] i by simp
  next
    case False
    let ?m = "n - SFS_NDIRECT"
    have m: "?m < SFS_DBPERIDB" "n = SFS_NDIRECT + ?m" using False assms(3) by (auto simp: MAXBLOCKS_def)
    have blk: "file_block s (sv_i v) n = id_blocks s (sv_i v) ! ?m" using file_block_indirect [OF wf m(1)] m(2) by simp
    show thesis
    proof (cases "sfi_indirect (sv_i v) = 0")
      case True
      then show thesis using that [of s] v False m(1) blk i by (simp add: sfs_bmap_def bmap_indirect_def Let_def id_blocks_def)
    next
      case nz: False
      obtain s' where s': "sfs_rblock (env_hw E) (sfi_indirect (sv_i v)) s = Ret (d_sectors s (unat (sfi_indirect (sv_i v)))) s'" "unchanged s s'"
        using rblock_fs [OF assms(1) fs idblock_range [OF assms(2) v nz]] by blast
      have "file_at s' sv" "inode_of s' sv = sv_i v" "file_block s' (sv_i v) n = file_block s (sv_i v) n"
        using assms(2) i unchangedD [OF s'(2)] by (simp_all add: file_at_def inode_of_def)
      then have "bmap_result (file_block s (sv_i v) n) s' = Ret (file_block s (sv_i v) n) s'"
        using bmap_result_mapped [of s' sv n] assms(3) by simp
      then show thesis using that [of s'] s' v False m(1) blk i nz
        by (simp add: sfs_bmap_def bmap_indirect_def bmap_idblock_def Let_def id_blocks_def)
    qed
  qed
qed

text \<open>A block was found or made.\<close>

definition mapped :: "32 word \<Rightarrow> nat \<Rightarrow> sfs_fs \<Rightarrow> 32 word \<Rightarrow> sfs_fs \<Rightarrow> bool" where
  "mapped sv n s b s' \<longleftrightarrow> grown sv s s' \<and> b \<noteq> 0 \<and> file_block s' (inode_of s' sv) n = b"

lemma grown_at: "grown sv s s' \<Longrightarrow> file_at s' sv"
  by (simp add: grown_def kept_def)

lemma bmap_result_grown:
  assumes "grown sv s s'" "n < MAXBLOCKS" "b \<noteq> 0" "file_block s' (inode_of s' sv) n = b"
  shows "outcome (bmap_result b s') (mapped sv n s) (\<lambda>e t. e = ENOSPC \<and> grown sv s t)"
  using bmap_result_mapped [OF grown_at [OF assms(1)] assms(2,4)] assms by (simp add: mapped_def)

lemma bmap_alloc_direct:
  assumes "works (env_hw E)" "file_at s sv" "n < SFS_NDIRECT"
  shows "outcome (sfs_bmap E sv n True s) (mapped sv n s) (\<lambda>e t. e = ENOSPC \<and> grown sv s t)"
proof -
  obtain v where v: "sfs_pool s sv = Some v" using assms(2) by (auto simp: file_at_def)
  then have i: "inode_of s sv = sv_i v" by (simp add: inode_of_def)
  have wf: "inode_wf (sv_i v)" and fs: "fs_ok s" using assms(2) i by (simp_all add: file_at_def file_ok_def)
  have n: "n < MAXBLOCKS" "n < length (sfi_direct (sv_i v))" using assms(3) wf by (simp_all add: MAXBLOCKS_def inode_wf_def)
  have g: "grown sv s s" using grown_unchanged [OF assms(2)] by simp
  show ?thesis
  proof (cases "sfi_direct (sv_i v) ! n = 0")
    case False
    then show ?thesis
      using bmap_result_grown [OF g n(1) False] v i assms(3) by (simp add: sfs_bmap_def bmap_direct_def file_block_direct [OF wf])
  next
    case True
    have "outcome (kbind (sfs_balloc E s) (\<lambda>blk s. bmap_result blk (set_inode sv (\<lambda>i. i\<lparr>sfi_direct := (sfi_direct i)[n := blk]\<rparr>) s)))
        (mapped sv n s) (\<lambda>e t. e = ENOSPC \<and> grown sv s t)"
    proof (rule outcome_bind, rule outcome_weaken [OF balloc_fs [OF assms(1) fs]])
      fix b s1 assume al: "allocated b s s1"
      let ?s = "set_inode sv (\<lambda>i. i\<lparr>sfi_direct := (sfi_direct i)[n := b]\<rparr>) s1"
      have v1: "sfs_pool s1 sv = Some v" and b: "b \<noteq> 0" using al v by (simp_all add: allocated_def)
      have gr: "grown sv s ?s" by (rule alloc_direct [OF assms(2) v al assms(3) True])
      have wf': "inode_wf (sv_i v\<lparr>sfi_direct := (sfi_direct (sv_i v))[n := b]\<rparr>)" using wf by (simp add: inode_wf_def)
      have "file_block ?s (inode_of ?s sv) n = b"
        unfolding inode_of_set_inode [OF v1] using file_block_direct [OF wf' assms(3), of ?s] n(2) by simp
      then show "outcome (bmap_result b ?s) (mapped sv n s) (\<lambda>e t. e = ENOSPC \<and> grown sv s t)"
        by (rule bmap_result_grown [OF gr n(1) b])
    qed (use g in auto)
    then show ?thesis using True v assms(3) by (simp add: sfs_bmap_def bmap_direct_def)
  qed
qed

text \<open>The indirect block is there afterwards, and its numbers have been read.\<close>

lemma bmap_idblock_ok:
  assumes "works (env_hw E)" "file_at s sv"
  shows "outcome (bmap_idblock E sv s)
    (\<lambda>(idblock, idbuf) s'. grown sv s s' \<and> idblock = sfi_indirect (inode_of s' sv) \<and> idblock \<noteq> 0 \<and> idbuf = id_blocks s' (inode_of s' sv))
    (\<lambda>e t. e = ENOSPC \<and> grown sv s t)"
proof -
  obtain v where v: "sfs_pool s sv = Some v" using assms(2) by (auto simp: file_at_def)
  then have i: "inode_of s sv = sv_i v" by (simp add: inode_of_def)
  have fs: "fs_ok s" using assms(2) by (simp add: file_at_def)
  have g: "grown sv s s" using grown_unchanged [OF assms(2)] by simp
  show ?thesis
  proof (cases "sfi_indirect (sv_i v) = 0")
    case False
    obtain s' where s': "sfs_rblock (env_hw E) (sfi_indirect (sv_i v)) s = Ret (d_sectors s (unat (sfi_indirect (sv_i v)))) s'" "unchanged s s'"
      using rblock_fs [OF assms(1) fs idblock_range [OF assms(2) v False]] by blast
    have "inode_of s' sv = sv_i v" using unchangedD(8) [OF s'(2)] v by (simp add: inode_of_def)
    then show ?thesis using s' v False grown_unchanged [OF assms(2) s'(2)] unchangedD(9) [OF s'(2)]
      by (simp add: bmap_idblock_def id_blocks_def Let_def)
  next
    case True
    have "outcome (kbind (sfs_balloc E s) (\<lambda>idblock s. Ret (idblock, replicate SFS_DBPERIDB 0) (set_inode sv (\<lambda>i. i\<lparr>sfi_indirect := idblock\<rparr>) s)))
      (\<lambda>(idblock, idbuf) s'. grown sv s s' \<and> idblock = sfi_indirect (inode_of s' sv) \<and> idblock \<noteq> 0 \<and> idbuf = id_blocks s' (inode_of s' sv))
      (\<lambda>e t. e = ENOSPC \<and> grown sv s t)"
    proof (rule outcome_bind, rule outcome_weaken [OF balloc_fs [OF assms(1) fs]])
      fix b s1 assume al: "allocated b s s1"
      let ?s = "set_inode sv (\<lambda>i. i\<lparr>sfi_indirect := b\<rparr>) s1"
      have v1: "sfs_pool s1 sv = Some v" and b: "b \<noteq> 0" and z: "d_sectors s1 (unat b) = replicate SFS_BLOCKSIZE 0"
        using al v by (simp_all add: allocated_def)
      have "4 * SFS_DBPERIDB = SFS_BLOCKSIZE" by (simp add: SFS_DBPERIDB_def SFS_BLOCKSIZE_def)
      then have "id_blocks ?s (sv_i v\<lparr>sfi_indirect := b\<rparr>) = replicate SFS_DBPERIDB 0"
        using b z de_words_zeros [of SFS_DBPERIDB] by (simp add: id_blocks_def)
      then show "outcome (Ret (b, replicate SFS_DBPERIDB 0) ?s)
          (\<lambda>(idblock, idbuf) s'. grown sv s s' \<and> idblock = sfi_indirect (inode_of s' sv) \<and> idblock \<noteq> 0 \<and> idbuf = id_blocks s' (inode_of s' sv))
          (\<lambda>e t. e = ENOSPC \<and> grown sv s t)"
        using alloc_idblock [OF assms(2) v al True] b inode_of_set_inode [OF v1] by simp
    qed (use g in auto)
    then show ?thesis using True v by (simp add: bmap_idblock_def)
  qed
qed

lemma bmap_alloc_indirect:
  assumes "works (env_hw E)" "file_at s sv" "n < SFS_DBPERIDB"
  shows "outcome (sfs_bmap E sv (SFS_NDIRECT + n) True s) (mapped sv (SFS_NDIRECT + n) s) (\<lambda>e t. e = ENOSPC \<and> grown sv s t)"
proof -
  obtain v0 where v0: "sfs_pool s sv = Some v0" using assms(2) by (auto simp: file_at_def)
  have N: "SFS_NDIRECT + n < MAXBLOCKS" using assms(3) by (simp add: MAXBLOCKS_def)
  let ?Q = "mapped sv (SFS_NDIRECT + n) s" and ?E = "\<lambda>e t. e = ENOSPC \<and> grown sv s t"
  let ?rest = "\<lambda>idblock idbuf s. if idbuf ! n = 0 then kbind (sfs_balloc E s) (\<lambda>blk s.
      kbind (sfs_wblock (env_hw E) (be_words (idbuf[n := blk])) idblock s) (\<lambda>_ s. bmap_result blk s)) else bmap_result (idbuf ! n) s"
  have rest: "outcome (?rest idblock idbuf t) ?Q ?E"
    if t: "grown sv s t" "idblock = sfi_indirect (inode_of t sv)" "idblock \<noteq> 0" "idbuf = id_blocks t (inode_of t sv)" for idblock idbuf t
  proof -
    have at: "file_at t sv" by (rule grown_at [OF t(1)])
    then obtain v where v: "sfs_pool t sv = Some v" by (auto simp: file_at_def)
    then have i: "inode_of t sv = sv_i v" by (simp add: inode_of_def)
    have wf: "inode_wf (sv_i v)" and fs: "fs_ok t" using at i by (simp_all add: file_at_def file_ok_def)
    have len: "length idbuf = SFS_DBPERIDB" using t(4) by (simp add: id_blocks_def)
    show ?thesis
    proof (cases "idbuf ! n = 0")
      case False
      then show ?thesis using bmap_result_grown [OF t(1) N False] t(4) i file_block_indirect [OF wf assms(3), of t] by simp
    next
      case True
      have "outcome (kbind (sfs_balloc E t) (\<lambda>blk s.
          kbind (sfs_wblock (env_hw E) (be_words (idbuf[n := blk])) idblock s) (\<lambda>_ s. bmap_result blk s))) ?Q ?E"
      proof (rule outcome_bind, rule outcome_weaken [OF balloc_fs [OF assms(1) fs]])
        fix b s1 assume al: "allocated b t s1"
        have a: "fs_ok s1" "frame t s1" "b \<noteq> 0" "sfs_pool s1 = sfs_pool t" using al by (simp_all add: allocated_def)
        have id: "sfi_indirect (sv_i v) \<noteq> 0" "idblock = sfi_indirect (sv_i v)" using t(2,3) i by simp_all
        then have r: "unat idblock < nblocks s1" using idblock_range [OF at v] frame_nblocks [OF a(2)] by simp
        have l: "length (be_words (idbuf[n := b])) = SFS_BLOCKSIZE" using len by (simp add: SFS_DBPERIDB_def SFS_BLOCKSIZE_def)
        obtain s2 where s2: "sfs_wblock (env_hw E) (be_words (idbuf[n := b])) idblock s1 = Ret () s2" "frame s1 s2"
          "d_sectors s2 = (d_sectors s1)(unat idblock := be_words (idbuf[n := b]))" "sfs_freemap s2 = sfs_freemap s1" "sfs_pool s2 = sfs_pool s1" "fs_ok s2"
          using wblock_fs [OF assms(1) a(1) r l] by blast
        have i2: "inode_of s2 sv = sv_i v" using s2(5) a(4) v by (simp add: inode_of_def)
        have z: "id_blocks t (sv_i v) ! n = 0" using True t(4) i by simp
        note g = alloc_indirect [OF at v al id(1) assms(3) z s2(2,6) s2(3) [unfolded t(4) i id(2)] s2(4,5)]
        have "outcome (bmap_result b s2) ?Q ?E"
          by (rule bmap_result_grown [OF grown_trans [OF t(1) g(1)] N a(3)]) (use g(2) i2 in simp)
        then show "outcome (kbind (sfs_wblock (env_hw E) (be_words (idbuf[n := b])) idblock s1) (\<lambda>_ s. bmap_result b s)) ?Q ?E"
          using s2(1) by simp
      qed (use t(1) in auto)
      then show ?thesis using True by simp
    qed
  qed
  have "outcome (kbind (bmap_idblock E sv s) (\<lambda>(idblock, idbuf) s. ?rest idblock idbuf s)) ?Q ?E"
    by (rule outcome_bind, rule outcome_weaken [OF bmap_idblock_ok [OF assms(1,2)]]) (auto intro: rest)
  then show ?thesis using v0 assms(3) by (simp add: sfs_bmap_def bmap_indirect_def Let_def)
qed

lemma bmap_alloc:
  assumes "works (env_hw E)" "file_at s sv" "n < MAXBLOCKS"
  shows "outcome (sfs_bmap E sv n True s) (mapped sv n s) (\<lambda>e t. e = ENOSPC \<and> grown sv s t)"
proof (cases "n < SFS_NDIRECT")
  case True
  then show ?thesis by (rule bmap_alloc_direct [OF assms(1,2)])
next
  case False
  then have "n - SFS_NDIRECT < SFS_DBPERIDB" "n = SFS_NDIRECT + (n - SFS_NDIRECT)" using assms(3) by (auto simp: MAXBLOCKS_def)
  then show ?thesis using bmap_alloc_indirect [OF assms(1,2), of "n - SFS_NDIRECT"] by simp
qed

lemma bmap_too_large: "MAXBLOCKS \<le> n \<Longrightarrow> sfs_bmap E sv n doalloc s = Err EINVAL s"
proof -
  assume n: "MAXBLOCKS \<le> n"
  then have "0 < (n - SFS_NDIRECT) div SFS_DBPERIDB" by (simp add: MAXBLOCKS_def SFS_DBPERIDB_def SFS_NDIRECT_def)
  with n show ?thesis by (simp add: sfs_bmap_def bmap_indirect_def Let_def MAXBLOCKS_def)
qed

end
