(* ===== verification/KSfsIo.thy ===== *)
theory KSfsIo
  imports KSfsFile
begin

text \<open>
  Reading and writing a file of SFS. \<^verbatim>\<open>sfs_io\<close> with \<^verbatim>\<open>UIO_WRITE\<close> replaces the bytes of a range of the contents, or
  those of a prefix of the range when the disk is full; with \<^verbatim>\<open>UIO_READ\<close> it delivers the range up to the end of the
  file. The pieces (leading partial block, whole blocks, partial block at the end) are put together
  by one rule for each direction.
\<close>

section \<open>Writing a block\<close>

lemma put_block:
  assumes "file_at s sv" "n < MAXBLOCKS" "file_block s (inode_of s sv) n = b" "b \<noteq> 0"
    and w: "frame s s'" "d_sectors s' = (d_sectors s)(unat b := data)" "sfs_freemap s' = sfs_freemap s" "sfs_pool s' = sfs_pool s" "fs_ok s'"
  shows "kept sv s s'" "inode_of s' sv = inode_of s sv"
    "k < MAXBYTES \<Longrightarrow> content s' (inode_of s sv) k = (if k div SFS_BLOCKSIZE = n then data ! (k mod SFS_BLOCKSIZE) else content s (inode_of s sv) k)"
proof -
  let ?i = "inode_of s sv"
  show i: "inode_of s' sv = ?i" using w(4) by (simp add: inode_of_def)
  have ok: "file_ok s ?i" "inode_wf ?i" using assms(1) by (simp_all add: file_at_def file_ok_def)
  have other: "all_blocks s ?i ! j \<noteq> b" if "j < 144" "j \<noteq> slot n" for j
    using that ok(1) slot_less [OF assms(2)] assms(3,4) unfolding file_ok_def file_block_def by metis
  have "(15 :: nat) < 144" by simp
  then have "sfi_indirect ?i \<noteq> b" using other [of 15] slot_less [OF assms(2)] all_blocks_nth(2) [OF ok(2)] by auto
  then have "unat (sfi_indirect ?i) \<noteq> unat b" by (metis unsigned_word_eqI)
  then have blocks: "all_blocks s' ?i = all_blocks s ?i" using w(2) by (simp add: all_blocks_def id_blocks_def)
  have fb: "file_blocks s' ?i = file_blocks s ?i" by (simp add: file_blocks_def blocks)
  have ub: "used_blocks s' = used_blocks s" "nblocks s' = nblocks s" using w(3) frame_nblocks [OF w(1)] by (simp_all add: used_blocks_def)
  have "unat b \<in> file_blocks s ?i" using assms(3,4) slot_less [OF assms(2)] by (auto simp: file_blocks_def file_block_def)
  then show "kept sv s s'" using assms(1) ok(1) w i fb ub file_blocks_used [OF ok(1)]
    by (auto simp: kept_def file_at_def file_ok_def blocks)
  show "content s' ?i k = (if k div SFS_BLOCKSIZE = n then data ! (k mod SFS_BLOCKSIZE) else content s ?i k)" if k: "k < MAXBYTES"
  proof (cases "k div SFS_BLOCKSIZE = n")
    case True
    then show ?thesis using assms(3,4) w(2) by (simp add: content_def file_block_def blocks block_data_def)
  next
    case False
    have "slot (k div SFS_BLOCKSIZE) < 144" using k slot_less [of "k div SFS_BLOCKSIZE"] by (simp add: MAXBYTES_def less_mult_imp_div_less)
    then have "all_blocks s ?i ! slot (k div SFS_BLOCKSIZE) \<noteq> b" using other False by (simp add: slot_inject)
    then have "unat (all_blocks s ?i ! slot (k div SFS_BLOCKSIZE)) \<noteq> unat b" by (metis unsigned_word_eqI)
    then show ?thesis using False w(2) by (simp add: content_def file_block_def blocks block_data_def)
  qed
qed

section \<open>Written ranges\<close>

abbreviation off :: "uio \<Rightarrow> nat" where
  "off u \<equiv> nat (uio_offset u)"

text \<open>The next \<open>n\<close> bytes of the \<^verbatim>\<open>uio\<close> have replaced those of the file at its offset.\<close>

definition written :: "32 word \<Rightarrow> nat \<Rightarrow> sio \<Rightarrow> sio \<Rightarrow> bool" where
  "written sv n us us' \<longleftrightarrow> kept sv (snd us) (snd us') \<and> fst us' = io_moved n (fst us) \<and>
     sfi_size (inode_of (snd us') sv) = sfi_size (inode_of (snd us) sv) \<and>
     (\<forall>k < MAXBYTES. content (snd us') (inode_of (snd us') sv) k =
        (if off (fst us) \<le> k \<and> k < off (fst us) + n then io_next n us ! (k - off (fst us)) else content (snd us) (inode_of (snd us) sv) k))"

lemma written_0: "grown sv s s' \<Longrightarrow> written sv 0 (u, s) (u, s')"
  by (auto simp: grown_def written_def)

lemma frame_io:
  assumes "frame s s'"
  shows "io_ready n (u, s') = io_ready n (u, s)" "io_next n (u, s') = io_next n (u, s)"
  using assms by (simp_all add: frame_def io_ready_def io_next_def)

lemma written_ready: "written sv m us us' \<Longrightarrow> io_ready (m + n) us \<Longrightarrow> io_ready n us'"
  using io_ready_skip [of m n us] frame_io(1) [of "snd us" "snd us'" n "io_moved m (fst us)"]
  by (cases us; cases us') (simp add: written_def kept_def io_skip_def)

lemma written_trans:
  assumes "written sv m us us1" "written sv n us1 us2" "io_ready (m + n) us"
  shows "written sv (m + n) us us2"
proof -
  obtain u s where us: "us = (u, s)" by (cases us)
  obtain s1 where us1: "us1 = (io_moved m u, s1)" using assms(1) by (cases us1) (simp add: us written_def)
  have fr: "frame s s1" using assms(1) by (simp add: us us1 written_def kept_def)
  have next1: "io_next n us1 = io_next n (io_skip m us)" using frame_io(2) [OF fr] by (simp add: us us1 io_skip_def)
  have all: "io_next (m + n) us = io_next m us @ io_next n us1" by (simp add: io_next_append next1)
  have len: "length (io_next m us) = m" by (rule length_io_next [OF io_ready_le [OF assms(3)]]) simp
  have o: "off (fst us1) = off u + m" using assms(3) by (simp add: us us1 io_ready_def nat_add_distrib)
  have "content (snd us2) (inode_of (snd us2) sv) k =
      (if off u \<le> k \<and> k < off u + (m + n) then io_next (m + n) us ! (k - off u) else content s (inode_of s sv) k)" if k: "k < MAXBYTES" for k
  proof -
    have "content (snd us2) (inode_of (snd us2) sv) k =
        (if off u + m \<le> k \<and> k < off u + m + n then io_next n us1 ! (k - (off u + m)) else content (snd us1) (inode_of (snd us1) sv) k)"
      using assms(2) k o by (simp add: written_def)
    moreover have "content (snd us1) (inode_of (snd us1) sv) k =
        (if off u \<le> k \<and> k < off u + m then io_next m us ! (k - off u) else content s (inode_of s sv) k)"
      using assms(1) k by (simp add: written_def us)
    ultimately show ?thesis unfolding all using len by (auto simp: nth_append not_le intro!: arg_cong [of _ _ "(!) (io_next n us1)"])
  qed
  moreover have "kept sv s (snd us2)" using assms(1,2) kept_trans by (auto simp: written_def us us1)
  moreover have "fst us2 = io_moved (m + n) u" using assms(1,2) by (simp add: written_def us io_moved_add)
  moreover have "sfi_size (inode_of (snd us2) sv) = sfi_size (inode_of s sv)" using assms(1,2) by (simp add: written_def us)
  ultimately show ?thesis unfolding written_def us fst_conv snd_conv by blast
qed

text \<open>A routine that writes \<open>n\<close> bytes, or a shorter piece before it fails.\<close>

definition writes :: "32 word \<Rightarrow> nat \<Rightarrow> sio \<Rightarrow> (unit, sio) result \<Rightarrow> bool" where
  "writes sv n us r \<longleftrightarrow> outcome r (\<lambda>_ us'. written sv n us us' \<and> (n = 0 \<or> off (fst us) + n \<le> MAXBYTES))
     (\<lambda>e us'. (e = ENOSPC \<or> e = EINVAL \<and> MAXBYTES < off (fst us) + n) \<and> (\<exists>m < n. written sv m us us'))"

lemma writes_bind:
  assumes "writes sv m us r" "io_ready (m + n) us" "\<And>us'. written sv m us us' \<Longrightarrow> writes sv n us' (f us')"
  shows "writes sv (m + n) us (kbind r (\<lambda>_. f))"
  unfolding writes_def
proof (rule outcome_bind, rule outcome_weaken [OF assms(1) [unfolded writes_def]])
  fix us1 assume w: "written sv m us us1 \<and> (m = 0 \<or> off (fst us) + m \<le> MAXBYTES)"
  then have o: "off (fst us1) = off (fst us) + m" using assms(2) by (cases us) (simp add: written_def io_ready_def nat_add_distrib)
  show "outcome (f us1) (\<lambda>_ us'. written sv (m + n) us us' \<and> (m + n = 0 \<or> off (fst us) + (m + n) \<le> MAXBYTES))
      (\<lambda>e us'. (e = ENOSPC \<or> e = EINVAL \<and> MAXBYTES < off (fst us) + (m + n)) \<and> (\<exists>j < m + n. written sv j us us'))"
  proof (rule outcome_weaken)
    show "outcome (f us1) (\<lambda>_ us'. written sv n us1 us' \<and> (n = 0 \<or> off (fst us1) + n \<le> MAXBYTES))
        (\<lambda>e us'. (e = ENOSPC \<or> e = EINVAL \<and> MAXBYTES < off (fst us1) + n) \<and> (\<exists>m < n. written sv m us1 us'))"
      using assms(3) w by (simp add: writes_def)
  next
    fix e us2 assume e: "(e = ENOSPC \<or> e = EINVAL \<and> MAXBYTES < off (fst us1) + n) \<and> (\<exists>m < n. written sv m us1 us2)"
    then obtain j where j: "j < n" "written sv j us1 us2" by blast
    have "written sv (m + j) us us2" by (rule written_trans) (use w j io_ready_le [OF assms(2), of "m + j"] in auto)
    then have "\<exists>j < m + n. written sv j us us2" using j(1) by (intro exI [of _ "m + j"]) simp
    with e o show "(e = ENOSPC \<or> e = EINVAL \<and> MAXBYTES < off (fst us) + (m + n)) \<and> (\<exists>j < m + n. written sv j us us2)" by auto
  next
    fix us2 assume w2: "written sv n us1 us2 \<and> (n = 0 \<or> off (fst us1) + n \<le> MAXBYTES)"
    have "written sv (m + n) us us2" by (rule written_trans) (use w w2 assms(2) in auto)
    with w w2 o show "written sv (m + n) us us2 \<and> (m + n = 0 \<or> off (fst us) + (m + n) \<le> MAXBYTES)" by auto
  qed
qed (auto intro: trans_less_add1)

lemma div_mod_range:
  fixes a k n :: nat
  assumes "a mod 512 + n \<le> 512"
  shows "a \<le> k \<and> k < a + n \<longleftrightarrow> k div 512 = a div 512 \<and> a mod 512 \<le> k mod 512 \<and> k mod 512 < a mod 512 + n"
    "a \<le> k \<Longrightarrow> k < a + n \<Longrightarrow> k - a = k mod 512 - a mod 512"
proof -
  have k: "k = 512 * (k div 512) + k mod 512" "k mod 512 < 512" and a: "a = 512 * (a div 512) + a mod 512" "a mod 512 < 512" by simp_all
  show eq: "a \<le> k \<and> k < a + n \<longleftrightarrow> k div 512 = a div 512 \<and> a mod 512 \<le> k mod 512 \<and> k mod 512 < a mod 512 + n"
    by (cases "k div 512" "a div 512" rule: linorder_cases) (use assms k a in linarith)+
  show "k - a = k mod 512 - a mod 512" if "a \<le> k" "k < a + n"
    using eq that k(1) a(1) by linarith
qed

lemma uio_fileblock_eq: "0 \<le> uio_offset u \<Longrightarrow> uio_offset u < 2147483648 \<Longrightarrow> uio_fileblock u = off u div SFS_BLOCKSIZE"
proof -
  assume o: "0 \<le> uio_offset u" "uio_offset u < 2147483648"
  then have "uio_offset u sdiv 512 = uio_offset u div 512" by (simp add: signed_divide_int_def sgn_if)
  moreover have "0 \<le> uio_offset u div 512" "uio_offset u div 512 < 4294967296" using o by (auto simp: pos_imp_zdiv_nonneg_iff)
  ultimately show ?thesis using o by (simp add: uio_fileblock_def SFS_BLOCKSIZE_def u32_def nat_div_distrib)
qed

text \<open>One block with bytes of the \<^verbatim>\<open>uio\<close> put into it.\<close>

lemma put_range:
  assumes g: "mapped sv n s b s1" and n: "n < MAXBLOCKS" "off u div SFS_BLOCKSIZE = n" and len: "off u mod SFS_BLOCKSIZE + m \<le> SFS_BLOCKSIZE"
    and r: "io_ready m (u, s)"
    and d: "frame s1 s2" "fs_ok s2" "sfs_freemap s2 = sfs_freemap s1" "sfs_pool s2 = sfs_pool s1" "d_sectors s2 = (d_sectors s1)(unat b :=
      take (off u mod SFS_BLOCKSIZE) (d_sectors s1 (unat b)) @ io_next m (u, s) @ drop (off u mod SFS_BLOCKSIZE + m) (d_sectors s1 (unat b)))"
  shows "written sv m (u, s) (io_moved m u, s2)"
proof -
  let ?data = "take (off u mod SFS_BLOCKSIZE) (d_sectors s1 (unat b)) @ io_next m (u, s) @ drop (off u mod SFS_BLOCKSIZE + m) (d_sectors s1 (unat b))"
  have gr: "grown sv s s1" "b \<noteq> 0" "file_block s1 (inode_of s1 sv) n = b" using g by (simp_all add: mapped_def)
  have at: "file_at s1 sv" by (rule grown_at [OF gr(1)])
  note p = put_block [OF at n(1) gr(3,2) d(1,5,3,4,2)]
  have "unat b < nblocks s1" using file_block_ok [OF at n(1)] gr(2,3) by simp
  then have l: "length (d_sectors s1 (unat b)) = 512" using at by (simp add: file_at_def fs_ok_def disk_ok_def SFS_BLOCKSIZE_def)
  have lx: "length (io_next m (u, s)) = m" by (rule length_io_next [OF r])
  note B = SFS_BLOCKSIZE_def
  have "content s2 (inode_of s2 sv) k =
      (if off u \<le> k \<and> k < off u + m then io_next m (u, s) ! (k - off u) else content s (inode_of s sv) k)" if k: "k < MAXBYTES" for k
  proof -
    have c: "content s2 (inode_of s2 sv) k = (if k div 512 = n then ?data ! (k mod 512) else content s1 (inode_of s1 sv) k)"
      using p(3) [OF k] p(2) by (simp add: B)
    have c1: "content s1 (inode_of s1 sv) k = content s (inode_of s sv) k" using gr(1) k by (simp add: grown_def)
    have in_block: "content s1 (inode_of s1 sv) k = d_sectors s1 (unat b) ! (k mod 512)" if "k div 512 = n"
      using that gr(2,3) by (simp add: content_def block_data_def B)
    have nth: "?data ! j = (if off u mod 512 \<le> j \<and> j < off u mod 512 + m then io_next m (u, s) ! (j - off u mod 512) else d_sectors s1 (unat b) ! j)"
      if "j < 512" for j
      using that l lx len by (auto simp: nth_append B)
    have "k mod 512 < 512" by simp
    note nth = nth [OF this]
    note range = div_mod_range [OF len [unfolded B], of k]
    show ?thesis
    proof (cases "off u \<le> k \<and> k < off u + m")
      case True
      then show ?thesis using c nth range n(2) by (simp add: B)
    next
      case False
      then show ?thesis using c nth range(1) n(2) in_block c1 by (auto simp: B)
    qed
  qed
  then show ?thesis using gr(1) kept_trans [OF _ p(1)] p(2) by (auto simp: written_def grown_def)
qed

section \<open>Writing\<close>

lemma outcome_in_part: "outcome m (\<lambda>a s. Q a (put s)) (\<lambda>e s. E e (put s)) \<Longrightarrow> outcome (in_part put m) Q E"
  by (cases m) simp_all

lemma ready_offset: "io_ready n us \<Longrightarrow> 0 \<le> uio_offset (fst us) \<and> uio_offset (fst us) < 2147483648"
  by (cases us) (auto simp: io_ready_def)

text \<open>The first step of both routines: find or make the block of the file at the offset.\<close>

lemma writes_mapped:
  assumes E: "works (env_hw E)" and at: "file_at s sv" and r: "io_ready m (u, s)"
    and m: "0 < m" "off u mod SFS_BLOCKSIZE + m \<le> SFS_BLOCKSIZE"
    and f: "\<And>b s1. mapped sv (off u div SFS_BLOCKSIZE) s b s1 \<Longrightarrow> off u div SFS_BLOCKSIZE < MAXBLOCKS \<Longrightarrow>
      \<exists>s2. f b (u, s1) = Ret () (io_moved m u, s2) \<and> written sv m (u, s) (io_moved m u, s2)"
  shows "writes sv m (u, s) (kbind (with_uio u (sfs_bmap E sv (uio_fileblock u) True s)) f)"
proof -
  let ?n = "off u div SFS_BLOCKSIZE"
  have fb: "uio_fileblock u = ?n" using ready_offset [OF r] by (intro uio_fileblock_eq) simp_all
  have o: "off u = SFS_BLOCKSIZE * ?n + off u mod SFS_BLOCKSIZE" by simp
  show ?thesis
  proof (cases "?n < MAXBLOCKS")
    case False
    then have "SFS_BLOCKSIZE * MAXBLOCKS \<le> SFS_BLOCKSIZE * ?n" by simp
    then have "MAXBYTES < off u + m" using o m(1) unfolding MAXBYTES_def mult.commute [of MAXBLOCKS] by linarith
    moreover have "written sv 0 (u, s) (u, s)" using grown_unchanged [OF at] by (intro written_0) simp
    ultimately show ?thesis using False m(1) by (auto simp: writes_def fb bmap_too_large)
  next
    case True
    then have "SFS_BLOCKSIZE * Suc ?n \<le> SFS_BLOCKSIZE * MAXBLOCKS" by (intro mult_le_mono2) simp
    then have le: "off u + m \<le> MAXBYTES" using o m(2) unfolding MAXBYTES_def mult.commute [of MAXBLOCKS] mult_Suc_right by linarith
    show ?thesis unfolding writes_def fb
    proof (rule outcome_bind, rule outcome_in_part, rule outcome_weaken [OF bmap_alloc [OF E at True]])
      fix b s1 assume "mapped sv ?n s b s1"
      from f [OF this True] le
      show "outcome (f b (u, s1)) (\<lambda>_ us'. written sv m (u, s) us' \<and> (m = 0 \<or> off (fst (u, s)) + m \<le> MAXBYTES))
        (\<lambda>e us'. (e = ENOSPC \<or> e = EINVAL \<and> MAXBYTES < off (fst (u, s)) + m) \<and> (\<exists>j < m. written sv j (u, s) us'))" by auto
    qed (use m(1) written_0 in auto)
  qed
qed

lemma partial_write:
  assumes E: "works (env_hw E)" and at: "file_at s sv" and r: "io_ready m (u, s)"
    and m: "0 < m" "off u mod SFS_BLOCKSIZE + m \<le> SFS_BLOCKSIZE" and w: "uio_op u = UIO_WRITE"
  shows "writes sv m (u, s) (sfs_partialio E sv (off u mod SFS_BLOCKSIZE) m (u, s))"
proof -
  let ?k = "off u mod SFS_BLOCKSIZE"
  let ?f = "\<lambda>diskblock us. kbind (if diskblock = 0 then (if uio_op (fst us) \<noteq> UIO_READ then Panic else Ret (replicate SFS_BLOCKSIZE 0) us)
      else with_uio (fst us) (sfs_rblock (env_hw E) diskblock (snd us))) (\<lambda>iobuf us.
      kbind (uiomove iobuf ?k m us) (\<lambda>iobuf us.
        if uio_op (fst us) = UIO_WRITE then with_uio (fst us) (sfs_wblock (env_hw E) iobuf diskblock (snd us)) else Ret () us))"
  have "writes sv m (u, s) (kbind (with_uio u (sfs_bmap E sv (uio_fileblock u) True s)) ?f)"
  proof (rule writes_mapped [OF E at r m])
    fix b s1 assume g: "mapped sv (off u div SFS_BLOCKSIZE) s b s1" and n: "off u div SFS_BLOCKSIZE < MAXBLOCKS"
    have gr: "grown sv s s1" "b \<noteq> 0" "file_block s1 (inode_of s1 sv) (off u div SFS_BLOCKSIZE) = b" using g by (simp_all add: mapped_def)
    have at1: "file_at s1 sv" by (rule grown_at [OF gr(1)])
    have fs: "fs_ok s1" "unat b < nblocks s1" using at1 file_block_ok [OF at1 n] gr(2,3) by (simp_all add: file_at_def)
    obtain s2 where s2: "sfs_rblock (env_hw E) b s1 = Ret (d_sectors s1 (unat b)) s2" "unchanged s1 s2" using rblock_fs [OF E fs] by blast
    note u = unchangedD [OF s2(2)]
    have fr: "frame s s2" using gr(1) frame_trans [OF _ u(10)] by (simp add: grown_def kept_def)
    have l: "length (d_sectors s1 (unat b)) = SFS_BLOCKSIZE" using fs by (simp add: fs_ok_def disk_ok_def)
    let ?data = "take ?k (d_sectors s1 (unat b)) @ io_next m (u, s) @ drop (?k + m) (d_sectors s1 (unat b))"
    have move: "uiomove (d_sectors s1 (unat b)) ?k m (u, s2) = Ret ?data (io_moved m u, s2)"
      using r w m(2) l frame_io [OF fr, of m u] by (subst uiomove_write) (simp_all add: io_skip_def)
    have "length ?data = SFS_BLOCKSIZE" using l m(2) length_io_next [OF r] by simp
    moreover have "fs_ok s2" "unat b < nblocks s2" using fs u by simp_all
    ultimately obtain s3 where s3: "sfs_wblock (env_hw E) ?data b s2 = Ret () s3" "frame s2 s3" "d_sectors s3 = (d_sectors s2)(unat b := ?data)"
      "sfs_freemap s3 = sfs_freemap s2" "sfs_pool s3 = sfs_pool s2" "fs_ok s3" using wblock_fs [OF E] by metis
    have "written sv m (u, s) (io_moved m u, s3)"
      by (rule put_range [OF g n refl m(2) r frame_trans [OF u(10) s3(2)] s3(6)]) (use s3 u s2(2) in \<open>simp_all add: unchanged_def\<close>)
    moreover have "?f b (u, s1) = Ret () (io_moved m u, s3)" using gr(2) s2(1) move s3(1) w by simp
    ultimately show "\<exists>s3. ?f b (u, s1) = Ret () (io_moved m u, s3) \<and> written sv m (u, s) (io_moved m u, s3)" by blast
  qed
  then show ?thesis using w m(2) by (simp add: sfs_partialio_def)
qed

lemma io_ready_at:
  "io_ready n (u, s) \<Longrightarrow> n \<le> r \<Longrightarrow> r < 4294967296 \<Longrightarrow> 0 \<le> p \<Longrightarrow> p + int n < 2147483648 \<Longrightarrow>
     io_ready n (u\<lparr>uio_offset := p, uio_resid := r\<rparr>, s) \<and> io_next n (u\<lparr>uio_offset := p, uio_resid := r\<rparr>, s) = io_next n (u, s)"
  by (simp add: io_ready_def io_next_def)

lemma block_write:
  assumes E: "works (env_hw E)" and at: "file_at s sv" and r: "io_ready SFS_BLOCKSIZE (u, s)"
    and a: "off u mod SFS_BLOCKSIZE = 0" and w: "uio_op u = UIO_WRITE"
  shows "writes sv SFS_BLOCKSIZE (u, s) (sfs_blockio E sv (u, s))"
proof -
  let ?f = "\<lambda>diskblock us. if diskblock = 0 then (if uio_op (fst us) \<noteq> UIO_READ then Panic else uiomovezeros SFS_BLOCKSIZE us)
      else let saveoff = uio_offset (fst us); diskoff = s32 (uint diskblock * int SFS_BLOCKSIZE)
        in if \<not> uio_resid (fst us) \<ge> SFS_BLOCKSIZE then Panic
           else in_part (blockio_restore saveoff (uio_resid (fst us)) diskoff)
             (sfs_rwblock (env_hw E) ((fst us)\<lparr>uio_offset := diskoff, uio_resid := SFS_BLOCKSIZE\<rparr>, snd us))"
  have "writes sv SFS_BLOCKSIZE (u, s) (kbind (with_uio u (sfs_bmap E sv (uio_fileblock u) True s)) ?f)"
  proof (rule writes_mapped [OF E at r])
    show "0 < SFS_BLOCKSIZE" by (simp add: SFS_BLOCKSIZE_def)
    show "off u mod SFS_BLOCKSIZE + SFS_BLOCKSIZE \<le> SFS_BLOCKSIZE" using a by simp
    fix b s1 assume g: "mapped sv (off u div SFS_BLOCKSIZE) s b s1" and n: "off u div SFS_BLOCKSIZE < MAXBLOCKS"
    have gr: "grown sv s s1" "b \<noteq> 0" "file_block s1 (inode_of s1 sv) (off u div SFS_BLOCKSIZE) = b" using g by (simp_all add: mapped_def)
    have at1: "file_at s1 sv" by (rule grown_at [OF gr(1)])
    have fs: "fs_ok s1" "unat b < nblocks s1" using at1 file_block_ok [OF at1 n] gr(2,3) by (simp_all add: file_at_def)
    have fr: "frame s s1" using gr(1) by (simp add: grown_def kept_def)
    have d: "disk_ok s1" "unat b < d_blocks s1" "d_blocks s1 < 4194304" using fs by (simp_all add: fs_ok_def disk_ok_def)
    then have bb: "int (unat b) < 4194303" by linarith
    let ?o = "512 * int (unat b)"
    have "s32 (int (unat b) * 512) = int (unat b) * 512" by (rule s32_id) (use bb in linarith)+
    then have diskoff: "s32 (uint b * int SFS_BLOCKSIZE) = ?o" by (simp add: SFS_BLOCKSIZE_def)
    let ?u = "u\<lparr>uio_offset := ?o, uio_resid := SFS_BLOCKSIZE\<rparr>"
    have rs: "SFS_BLOCKSIZE \<le> uio_resid u" "uio_resid u < 4294967296" "uio_offset u + 512 < 2147483648" "0 \<le> uio_offset u"
      using r by (simp_all add: io_ready_def SFS_BLOCKSIZE_def)
    have "io_ready 512 (?u, s1)" "io_next 512 (?u, s1) = io_next 512 (u, s)"
      using r frame_io [OF fr, of 512 u] bb io_ready_at [of 512 u s1 512 ?o] by (simp_all add: SFS_BLOCKSIZE_def)
    then have "sfs_rwblock (env_hw E) (?u, s1) = Ret () (io_moved 512 ?u,
        ticked (io_next 512 (u, s)) s1\<lparr>d_sectors := (d_sectors s1)(unat b := io_next 512 (u, s))\<rparr>)"
      using sfs_rwblock_write [OF E, of ?u s1 "unat b"] d w by (simp add: SFS_BLOCKSIZE_def)
    moreover have "blockio_restore (uio_offset u) (uio_resid u) ?o (io_moved 512 ?u, s2) = (io_moved 512 u, s2)" for s2
      using rs bb by (simp add: blockio_restore_def io_moved_def SFS_BLOCKSIZE_def s32_id u32_def of_nat_diff)
    moreover have "written sv SFS_BLOCKSIZE (u, s) (io_moved SFS_BLOCKSIZE u,
        ticked (io_next 512 (u, s)) s1\<lparr>d_sectors := (d_sectors s1)(unat b := io_next 512 (u, s))\<rparr>)" (is "written _ _ _ (_, ?s)")
    proof (rule put_range [OF g n refl _ r])
      have l: "length (d_sectors s1 (unat b)) = SFS_BLOCKSIZE" "length (io_next 512 (u, s)) = SFS_BLOCKSIZE"
        using d length_io_next [OF r] by (simp_all add: disk_ok_def SFS_BLOCKSIZE_def)
      show "frame s1 ?s" by (simp add: frame_def ticked_def)
      then show "fs_ok ?s"
        by (rule fs_ok_cong [OF fs(1)]) (use fs(1) l in \<open>auto simp: fs_ok_def disk_ok_def used_blocks_def ticked_def\<close>)
      show "d_sectors ?s = (d_sectors s1)(unat b := take (off u mod SFS_BLOCKSIZE) (d_sectors s1 (unat b)) @ io_next SFS_BLOCKSIZE (u, s) @
          drop (off u mod SFS_BLOCKSIZE + SFS_BLOCKSIZE) (d_sectors s1 (unat b)))" using a l(1) by (simp add: SFS_BLOCKSIZE_def)
    qed (use a in \<open>simp_all add: ticked_def\<close>)
    ultimately show "\<exists>s2. ?f b (u, s1) = Ret () (io_moved SFS_BLOCKSIZE u, s2) \<and> written sv SFS_BLOCKSIZE (u, s) (io_moved SFS_BLOCKSIZE u, s2)"
      using gr(2) rs(1) diskoff by (auto simp: Let_def SFS_BLOCKSIZE_def)
  qed
  then show ?thesis using w by (simp add: sfs_blockio_def)
qed

lemma written_at: "written sv m us us' \<Longrightarrow> file_at (snd us') sv \<and> uio_op (fst us') = uio_op (fst us) \<and> uio_resid (fst us') = uio_resid (fst us) - m"
  by (simp add: written_def kept_def)

lemma written_off: "written sv m us us' \<Longrightarrow> io_ready m us \<Longrightarrow> off (fst us') = off (fst us) + m"
  by (cases us) (simp add: written_def io_ready_def nat_add_distrib)

lemma writes_none: "file_at s sv \<Longrightarrow> writes sv 0 (u, s) (Ret () (u, s))"
  using written_0 [of sv s s u] grown_unchanged [of s sv s] by (simp add: writes_def)

lemma blocks_write:
  assumes "works (env_hw E)"
  shows "file_at (snd us) sv \<Longrightarrow> io_ready (n * SFS_BLOCKSIZE) us \<Longrightarrow> off (fst us) mod SFS_BLOCKSIZE = 0 \<Longrightarrow> uio_op (fst us) = UIO_WRITE \<Longrightarrow>
     writes sv (n * SFS_BLOCKSIZE) us (sfs_blocks E sv n us)"
proof (induction n arbitrary: us)
  case 0
  then show ?case using writes_none [of "snd us" sv "fst us"] by simp
next
  case (Suc n)
  have r: "io_ready (SFS_BLOCKSIZE + n * SFS_BLOCKSIZE) us" using Suc.prems(2) by simp
  have r1: "io_ready SFS_BLOCKSIZE us" by (rule io_ready_le [OF r]) simp
  have "writes sv (SFS_BLOCKSIZE + n * SFS_BLOCKSIZE) us (kbind (sfs_blockio E sv us) (\<lambda>_. sfs_blocks E sv n))"
  proof (rule writes_bind [OF _ r])
    show "writes sv SFS_BLOCKSIZE us (sfs_blockio E sv us)"
      using block_write [OF assms, of "snd us" sv "fst us"] Suc.prems r1 by simp
    fix us' assume w: "written sv SFS_BLOCKSIZE us us'"
    show "writes sv (n * SFS_BLOCKSIZE) us' (sfs_blocks E sv n us')"
      by (rule Suc.IH) (use w Suc.prems r written_at [OF w] written_ready [OF w r] written_off [OF w r1] in auto)
  qed
  then show ?case by simp
qed

text \<open>The body of \<^verbatim>\<open>sfs_io\<close>, for everything that is left in the \<^verbatim>\<open>uio\<close>.\<close>

lemma smod_block: "0 \<le> p \<Longrightarrow> p smod int SFS_BLOCKSIZE = int (nat p mod SFS_BLOCKSIZE)"
  by (simp add: signed_modulo_int_def sgn_if SFS_BLOCKSIZE_def zmod_int)

lemma rest_write:
  assumes E: "works (env_hw E)" and at: "file_at (snd us) sv" and r: "io_ready (uio_resid (fst us)) us"
    and a: "uio_resid (fst us) \<noteq> 0 \<Longrightarrow> off (fst us) mod SFS_BLOCKSIZE = 0" and w: "uio_op (fst us) = UIO_WRITE"
  shows "writes sv (uio_resid (fst us)) us
    (if uio_resid (fst us) = 0 then Ret () us
     else if uio_offset (fst us) smod int SFS_BLOCKSIZE \<noteq> 0 then Panic
     else kbind (sfs_blocks E sv (uio_resid (fst us) div SFS_BLOCKSIZE) us) (\<lambda>_ us.
       if \<not> uio_resid (fst us) < SFS_BLOCKSIZE then Panic
       else if uio_resid (fst us) > 0 then sfs_partialio E sv 0 (uio_resid (fst us)) us
       else Ret () us))"
proof (cases "uio_resid (fst us) = 0")
  case True
  then show ?thesis using writes_none [OF at, of "fst us"] by simp
next
  case False
  let ?n = "uio_resid (fst us)" and ?f = "\<lambda>us. if \<not> uio_resid (fst us) < SFS_BLOCKSIZE then Panic
      else if uio_resid (fst us) > 0 then sfs_partialio E sv 0 (uio_resid (fst us)) us else Ret () us"
  let ?k = "?n div SFS_BLOCKSIZE * SFS_BLOCKSIZE" and ?m = "?n mod SFS_BLOCKSIZE"
  have n: "?k + ?m = ?n" "?n - ?k = ?m" "?m < SFS_BLOCKSIZE" by (simp_all add: minus_div_mult_eq_mod) (simp add: SFS_BLOCKSIZE_def)
  have r': "io_ready (?k + ?m) us" "io_ready ?k us" using r n(1) io_ready_le [OF r, of ?k] by simp_all
  have al: "off (fst us) mod SFS_BLOCKSIZE = 0" using a False by simp
  have "writes sv (?k + ?m) us (kbind (sfs_blocks E sv (?n div SFS_BLOCKSIZE) us) (\<lambda>_. ?f))"
  proof (rule writes_bind [OF blocks_write [OF E at r'(2) al w] r'(1)])
    fix us' assume wr: "written sv ?k us us'"
    note p = written_at [OF wr] written_off [OF wr r'(2)] written_ready [OF wr r'(1)]
    have res: "uio_resid (fst us') = ?m" using p(1) n(2) by simp
    have al': "off (fst us') mod SFS_BLOCKSIZE = 0" using p(2) al by simp
    show "writes sv ?m us' (?f us')"
    proof (cases "?m = 0")
      case True
      then show ?thesis using res p(1) writes_none [of "snd us'" sv "fst us'"] by (simp add: SFS_BLOCKSIZE_def)
    next
      case nz: False
      then show ?thesis using partial_write [OF E, of "snd us'" sv ?m "fst us'"] p(1,3) w res al' n(3) by simp
    qed
  qed
  moreover have "uio_offset (fst us) smod int SFS_BLOCKSIZE = 0" using smod_block al ready_offset [OF r] by simp
  ultimately show ?thesis using False n(1) by simp
qed

lemma body_write:
  assumes E: "works (env_hw E)" and at: "file_at (snd us) sv" and r: "io_ready (uio_resid (fst us)) us"
    and w: "uio_op (fst us) = UIO_WRITE" "0 < uio_resid (fst us)"
  shows "writes sv (uio_resid (fst us)) us (io_body E sv us)"
proof -
  let ?n = "uio_resid (fst us)" and ?o = "off (fst us) mod SFS_BLOCKSIZE"
  have o: "nat (u32 (uio_offset (fst us) smod int SFS_BLOCKSIZE)) = ?o"
    using smod_block ready_offset [OF r] by (simp add: u32_def SFS_BLOCKSIZE_def)
  define m where "m = (if ?o = 0 then 0 else if SFS_BLOCKSIZE - ?o > ?n then ?n else SFS_BLOCKSIZE - ?o)"
  have lt: "?o < SFS_BLOCKSIZE" by (simp add: SFS_BLOCKSIZE_def)
  then have m: "m \<le> ?n" "?o + m \<le> SFS_BLOCKSIZE" by (auto simp: m_def)
  have r': "io_ready (m + (?n - m)) us" "io_ready m us" using r m(1) io_ready_le [OF r m(1)] by simp_all
  have lead: "writes sv m us (io_lead E sv us)"
  proof (cases "?o = 0")
    case True
    then show ?thesis using writes_none [OF at, of "fst us"] o by (simp add: io_lead_def m_def)
  next
    case False
    then have "0 < m" using w(2) lt by (simp add: m_def)
    then have "writes sv m (fst us, snd us) (sfs_partialio E sv ?o m (fst us, snd us))"
      by (intro partial_write [OF E]) (use at r'(2) m(2) w(1) in simp_all)
    moreover have "io_lead E sv us = sfs_partialio E sv ?o m us" using o False by (simp add: io_lead_def m_def Let_def)
    ultimately show ?thesis by simp
  qed
  have "writes sv (m + (?n - m)) us (io_body E sv us)" unfolding io_body_def
  proof (rule writes_bind [OF lead r'(1)])
    fix us' assume wr: "written sv m us us'"
    note p = written_at [OF wr] written_off [OF wr r'(2)] written_ready [OF wr r'(1)]
    have "(off (fst us) + m) mod SFS_BLOCKSIZE = 0" if "?n - m \<noteq> 0"
    proof (cases "?o = 0")
      case False
      then have "m = SFS_BLOCKSIZE - ?o" using that by (auto simp: m_def split: if_splits)
      then have "?o + m = SFS_BLOCKSIZE" using lt by simp
      then show ?thesis by (metis mod_add_left_eq mod_self)
    qed (simp add: m_def)
    then show "writes sv (?n - m) us' (if uio_resid (fst us') = 0 then Ret () us'
        else if uio_offset (fst us') smod int SFS_BLOCKSIZE \<noteq> 0 then Panic
        else kbind (sfs_blocks E sv (uio_resid (fst us') div SFS_BLOCKSIZE) us') (\<lambda>_ us.
          if \<not> uio_resid (fst us) < SFS_BLOCKSIZE then Panic
          else if uio_resid (fst us) > 0 then sfs_partialio E sv 0 (uio_resid (fst us)) us else Ret () us))"
      using rest_write [OF E, of us' sv] p w(1) by simp
  qed
  then show ?thesis using m(1) by simp
qed

definition file_size :: "sfs_fs \<Rightarrow> 32 word \<Rightarrow> nat" where
  "file_size s sv = unat (sfi_size (inode_of s sv))"

definition file_byte :: "sfs_fs \<Rightarrow> 32 word \<Rightarrow> nat \<Rightarrow> byte" where
  "file_byte s sv k = content s (inode_of s sv) k"

definition file_sized :: "sfs_fs \<Rightarrow> 32 word \<Rightarrow> bool" where
  "file_sized s sv \<longleftrightarrow> file_at s sv \<and> file_size s sv \<le> MAXBYTES"

text \<open>The effect of a write of \<open>n\<close> bytes: the \<^verbatim>\<open>uio\<close> has moved on, the bytes are in place and the size covers them.\<close>

definition file_written :: "32 word \<Rightarrow> nat \<Rightarrow> sio \<Rightarrow> sio \<Rightarrow> bool" where
  "file_written sv n us us' \<longleftrightarrow> kept sv (snd us) (snd us') \<and> fst us' = io_moved n (fst us) \<and>
     file_size (snd us') sv = max (file_size (snd us) sv) (off (fst us) + n) \<and>
     (\<forall>k < MAXBYTES. file_byte (snd us') sv k =
        (if off (fst us) \<le> k \<and> k < off (fst us) + n then io_next n us ! (k - off (fst us)) else file_byte (snd us) sv k))"

lemma set_size:
  assumes "file_at s sv" and t: "t = set_inode sv (\<lambda>i. i\<lparr>sfi_size := z\<rparr>) s"
  shows "kept sv s t" "inode_of t sv = inode_of s sv\<lparr>sfi_size := z\<rparr>" "content t (inode_of s sv\<lparr>sfi_size := z\<rparr>) k = content s (inode_of s sv) k"
proof -
  obtain v where v: "sfs_pool s sv = Some v" using assms(1) by (auto simp: file_at_def)
  show i: "inode_of t sv = inode_of s sv\<lparr>sfi_size := z\<rparr>" using inode_of_set_inode [OF v] v by (simp add: t inode_of_def)
  have blocks: "all_blocks t (inode_of s sv\<lparr>sfi_size := z\<rparr>) = all_blocks s (inode_of s sv)" by (simp add: t all_blocks_def id_blocks_def)
  have fb: "file_blocks t (inode_of t sv) = file_blocks s (inode_of s sv)" by (simp add: i file_blocks_def blocks)
  have ok: "file_ok t (inode_of t sv)" using assms(1) by (simp add: file_at_def file_ok_def i blocks inode_wf_def) (simp add: t)
  have m: "sfs_pool t sv \<noteq> None" "same_meta v (the (sfs_pool t sv))" using v by (simp_all add: t set_inode_def set_sv_def same_meta_def)
  show "kept sv s t"
    unfolding kept_def file_at_def fb using ok m v assms(1) file_blocks_used [of s "inode_of s sv"]
    by (auto simp: t frame_set_inode fs_ok_set_inode file_at_def)
  show "content t (inode_of s sv\<lparr>sfi_size := z\<rparr>) k = content s (inode_of s sv) k" by (simp add: content_def file_block_def blocks block_data_def) (simp add: t)
qed

lemma io_out_written:
  assumes "written sv n us us'" "io_ready n us" "file_sized (snd us) sv" "uio_op (fst us) = UIO_WRITE"
  shows "file_written sv n us (io_out sv 0 us')"
proof -
  obtain u' s' where us': "us' = (u', s')" by (cases us')
  have wr: "kept sv (snd us) s'" "u' = io_moved n (fst us)" "sfi_size (inode_of s' sv) = sfi_size (inode_of (snd us) sv)" using assms(1) by (simp_all add: us' written_def)
  have at: "file_at s' sv" using wr(1) by (simp add: kept_def)
  then obtain v where v: "sfs_pool s' sv = Some v" "sv_i v = inode_of s' sv" by (auto simp: file_at_def inode_of_def)
  note ready = io_ready_cases(3-5) [of n "fst us" "snd us", unfolded prod.collapse, OF assms(2)]
  have o: "uio_offset u' = int (off (fst us) + n)" "uio_offset u' < 2147483648" "uio_resid u' < 4294967296"
    unfolding wr(2) io_moved_select using ready by linarith+
  let ?size = "sfi_size (inode_of s' sv)"
  have size: "unat ?size = file_size (snd us) sv" "unat ?size \<le> MAXBYTES" "unat ?size = file_size s' sv"
    using assms(3) wr(3) by (simp_all add: file_sized_def file_size_def)
  have "MAXBYTES < 2147483648" by (simp add: MAXBYTES_def MAXBLOCKS_def SFS_NDIRECT_def SFS_DBPERIDB_def SFS_BLOCKSIZE_def)
  then have "s32 (int (unat ?size)) = int (unat ?size)" by (intro s32_id) (use size(2) in linarith)+
  then have "s32 (uint ?size) = int (file_size s' sv)" by (simp add: file_size_def)
  then have out: "io_out sv 0 us' = (u', if int (file_size s' sv) < uio_offset u' then set_inode sv (\<lambda>i. i\<lparr>sfi_size := word_of_int (uio_offset u')\<rparr>) s' else s')"
    using v o(3) assms(4) by (simp add: io_out_def us' Let_def wr(2))
  have "file_written sv n us (u', s')" if "file_size (snd us) sv \<ge> off (fst us) + n"
    using assms(1) that wr(3) by (simp add: us' file_written_def written_def file_byte_def file_size_def)
  moreover have "file_written sv n us (u', set_inode sv (\<lambda>i. i\<lparr>sfi_size := word_of_int (uio_offset u')\<rparr>) s')"
    if "\<not> file_size (snd us) sv \<ge> off (fst us) + n"
  proof -
    have "unat (word_of_int (uio_offset u') :: 32 word) = off (fst us) + n"
      unfolding o(1) of_int_of_nat_eq by (rule unat_of_nat_32) (use o(1,2) in linarith)
    then show ?thesis using assms(1) that kept_trans [OF wr(1) set_size(1) [OF at refl]] set_size(2,3) [OF at refl]
      by (simp add: us' file_written_def written_def file_byte_def file_size_def)
  qed
  ultimately show ?thesis using o(1) size(1,3) unfolding out by (cases "int (file_size s' sv) < uio_offset u'") auto
qed

lemma sfs_io_write:
  assumes "works (env_hw E)" "file_sized s sv" "io_ready (uio_resid u) (u, s)" "0 < uio_resid u" "uio_op u = UIO_WRITE"
  shows "outcome (sfs_io E sv (u, s)) (\<lambda>_ us'. file_written sv (uio_resid u) (u, s) us' \<and> off u + uio_resid u \<le> MAXBYTES)
    (\<lambda>e us'. (e = ENOSPC \<or> e = EINVAL \<and> MAXBYTES < off u + uio_resid u) \<and> (\<exists>m < uio_resid u. file_written sv m (u, s) us'))"
proof -
  have at: "file_at s sv" using assms(2) by (simp add: file_sized_def)
  have out: "file_written sv m (u, s) (io_out sv 0 us')" if "written sv m (u, s) us'" "m \<le> uio_resid u" for m us'
    by (rule io_out_written) (use that assms(2,5) io_ready_le [OF assms(3)] in auto)
  have "outcome (in_part (io_out sv 0) (io_body E sv (u, s))) (\<lambda>_ us'. file_written sv (uio_resid u) (u, s) us' \<and> off u + uio_resid u \<le> MAXBYTES)
      (\<lambda>e us'. (e = ENOSPC \<or> e = EINVAL \<and> MAXBYTES < off u + uio_resid u) \<and> (\<exists>m < uio_resid u. file_written sv m (u, s) us'))"
    by (rule outcome_in_part, rule outcome_weaken [OF body_write [OF assms(1), of "(u, s)" sv, unfolded writes_def]])
      (use at assms out in \<open>auto intro: less_imp_le\<close>)
  moreover obtain v where "sfs_pool s sv = Some v" using at by (auto simp: file_at_def)
  ultimately show ?thesis using assms(5) by (simp add: sfs_io_def)
qed

section \<open>Reading\<close>

definition file_range :: "sfs_fs \<Rightarrow> 32 word \<Rightarrow> nat \<Rightarrow> nat \<Rightarrow> byte list" where
  "file_range s sv p n = map (file_byte s sv) [p..<p + n]"

text \<open>Bytes have been delivered; apart from the user memory that took them only the registers of the disk changed.\<close>

definition read_to :: "byte list \<Rightarrow> sio \<Rightarrow> sio \<Rightarrow> bool" where
  "read_to bs us us' \<longleftrightarrow> fst us' = fst (io_store bs us) \<and> unchanged (snd (io_store bs us)) (snd us')"

definition reads :: "32 word \<Rightarrow> nat \<Rightarrow> sio \<Rightarrow> (unit, sio) result \<Rightarrow> bool" where
  "reads sv n us r \<longleftrightarrow> (\<exists>us'. r = Ret () us' \<and> read_to (file_range (snd us) sv (off (fst us)) n) us us')"

lemma um_irrelevant:
  "file_at (s\<lparr>um_bytes := f\<rparr>) sv = file_at s sv" "file_byte (s\<lparr>um_bytes := f\<rparr>) sv = file_byte s sv" "file_size (s\<lparr>um_bytes := f\<rparr>) sv = file_size s sv"
proof -
  have b: "all_blocks (s\<lparr>um_bytes := f\<rparr>) i = all_blocks s i" for i by (simp add: all_blocks_def id_blocks_def)
  show "file_at (s\<lparr>um_bytes := f\<rparr>) sv = file_at s sv" "file_size (s\<lparr>um_bytes := f\<rparr>) sv = file_size s sv"
    by (simp_all add: file_at_def inode_of_def fs_ok_def disk_ok_def nblocks_def used_blocks_def file_ok_def b file_size_def)
  show "file_byte (s\<lparr>um_bytes := f\<rparr>) sv = file_byte s sv"
    by (simp add: fun_eq_iff file_byte_def content_def file_block_def b block_data_def inode_of_def)
qed

lemma io_store_file:
  "file_at (snd (io_store bs us)) sv = file_at (snd us) sv" "file_byte (snd (io_store bs us)) sv = file_byte (snd us) sv"
  "file_size (snd (io_store bs us)) sv = file_size (snd us) sv"
  by (cases us; simp add: io_store_def um_irrelevant)+

lemma unchanged_file:
  "unchanged s s' \<Longrightarrow> file_at s' sv = file_at s sv" "unchanged s s' \<Longrightarrow> file_byte s' sv = file_byte s sv"
  "unchanged s s' \<Longrightarrow> file_size s' sv = file_size s sv"
  by (simp_all add: fun_eq_iff file_at_def file_byte_def file_size_def unchangedD inode_of_def)

lemma read_to_file:
  assumes "read_to bs us us'"
  shows "file_at (snd us') sv = file_at (snd us) sv" "file_byte (snd us') sv = file_byte (snd us) sv" "file_size (snd us') sv = file_size (snd us) sv"
    "uio_op (fst us') = uio_op (fst us)" "uio_resid (fst us') = uio_resid (fst us) - length bs" "uio_offset (fst us') = uio_offset (fst us) + int (length bs)"
  using assms by (simp_all add: read_to_def unchanged_file [of "snd (io_store bs us)" "snd us'"] io_store_file)

lemma unchanged_store:
  assumes "unchanged s s'"
  shows "fst (io_store bs (u, s')) = fst (io_store bs (u, s))" "unchanged (snd (io_store bs (u, s))) (snd (io_store bs (u, s')))"
proof -
  have "um_bytes s' = um_bytes s" using unchangedD(10) [OF assms] by (simp add: frame_def)
  then show "fst (io_store bs (u, s')) = fst (io_store bs (u, s))" "unchanged (snd (io_store bs (u, s))) (snd (io_store bs (u, s')))"
    using assms by (simp_all add: io_store_def unchanged_def frame_def)
qed

lemma read_to_ready: "read_to bs us us' \<Longrightarrow> io_ready (length bs + n) us \<Longrightarrow> io_ready n us'"
  using io_ready_store [of bs n us] frame_io(1) [of "snd (io_store bs us)" "snd us'" n "fst us'"]
  by (cases us') (simp add: read_to_def unchanged_def)

lemma read_to_trans:
  assumes "read_to a us us1" "read_to b us1 us2" "io_ready (length a + length b) us"
  shows "read_to (a @ b) us us2"
proof -
  have us1: "us1 = (fst (io_store a us), snd us1)" and un: "unchanged (snd (io_store a us)) (snd us1)"
    using assms(1) by (simp_all add: read_to_def prod_eq_iff)
  have "fst (io_store b us1) = fst (io_store b (io_store a us))" "unchanged (snd (io_store b (io_store a us))) (snd (io_store b us1))"
    using unchanged_store [OF un, of b "fst (io_store a us)"] us1 by (metis prod.collapse)+
  then show ?thesis using assms(2) unchanged_trans by (auto simp: read_to_def io_store_append [OF assms(3), symmetric])
qed

lemma read_to_off: "read_to bs us us' \<Longrightarrow> io_ready k us \<Longrightarrow> off (fst us') = off (fst us) + length bs"
  using read_to_file(6) [of bs us us'] ready_offset [of k us] by linarith

lemma length_file_range [simp]: "length (file_range s sv p n) = n"
  by (simp add: file_range_def)

lemma file_range_append: "file_range s sv p (m + n) = file_range s sv p m @ file_range s sv (p + m) n"
  using upt_add_eq_append [of p "p + m" n] by (simp add: file_range_def add.assoc)

lemma reads_bind:
  assumes "reads sv m us r" "io_ready (m + n) us"
    "\<And>us'. read_to (file_range (snd us) sv (off (fst us)) m) us us' \<Longrightarrow> reads sv n us' (f us')"
  shows "reads sv (m + n) us (kbind r (\<lambda>_. f))"
proof -
  obtain us1 where us1: "r = Ret () us1" "read_to (file_range (snd us) sv (off (fst us)) m) us us1" using assms(1) by (auto simp: reads_def)
  then obtain us2 where us2: "f us1 = Ret () us2" "read_to (file_range (snd us1) sv (off (fst us1)) n) us1 us2"
    using assms(3) [OF us1(2)] by (auto simp: reads_def)
  have "off (fst us1) = off (fst us) + m" using read_to_off [OF us1(2) assms(2)] by simp
  moreover have "file_range (snd us1) sv p k = file_range (snd us) sv p k" for p k using read_to_file(2) [OF us1(2)] by (simp add: file_range_def)
  ultimately have "read_to (file_range (snd us) sv (off (fst us)) (m + n)) us us2"
    using read_to_trans [OF us1(2) us2(2)] assms(2) by (simp add: file_range_append)
  then show ?thesis using us1(1) us2(1) by (simp add: reads_def)
qed

text \<open>The block at the offset, and the part of its data that the range covers.\<close>

lemma file_block_data:
  assumes "file_at s sv" "p + m \<le> MAXBYTES" "0 < m" "p mod SFS_BLOCKSIZE + m \<le> SFS_BLOCKSIZE"
  shows "p div SFS_BLOCKSIZE < MAXBLOCKS" "length (block_data s (file_block s (inode_of s sv) (p div SFS_BLOCKSIZE))) = SFS_BLOCKSIZE"
    "take m (drop (p mod SFS_BLOCKSIZE) (block_data s (file_block s (inode_of s sv) (p div SFS_BLOCKSIZE)))) = file_range s sv p m"
proof -
  let ?b = "file_block s (inode_of s sv) (p div SFS_BLOCKSIZE)"
  have "p < MAXBYTES" using assms(2,3) by simp
  then show n: "p div SFS_BLOCKSIZE < MAXBLOCKS" unfolding MAXBYTES_def by (rule less_mult_imp_div_less)
  show l: "length (block_data s ?b) = SFS_BLOCKSIZE"
    using file_block_ok [OF assms(1) n] assms(1) by (auto simp: block_data_def file_at_def fs_ok_def disk_ok_def)
  show "take m (drop (p mod SFS_BLOCKSIZE) (block_data s ?b)) = file_range s sv p m"
  proof (rule nth_equalityI)
    fix j assume "j < length (take m (drop (p mod SFS_BLOCKSIZE) (block_data s ?b)))"
    then have j: "j < m" by simp
    have "(p + j) div 512 = p div 512" "(p + j) mod 512 = p mod 512 + j"
      using div_mod_range [OF assms(4) [unfolded SFS_BLOCKSIZE_def], of "p + j"] j by (simp, linarith)
    then show "take m (drop (p mod SFS_BLOCKSIZE) (block_data s ?b)) ! j = file_range s sv p m ! j"
      using j l assms(4) by (simp add: file_range_def file_byte_def content_def SFS_BLOCKSIZE_def)
  qed (use l assms(4) in simp)
qed

lemma partial_read:
  assumes E: "works (env_hw E)" and at: "file_at s sv" and r: "io_ready m (u, s)" and le: "off u + m \<le> MAXBYTES"
    and m: "0 < m" "off u mod SFS_BLOCKSIZE + m \<le> SFS_BLOCKSIZE" and w: "uio_op u = UIO_READ"
  shows "reads sv m (u, s) (sfs_partialio E sv (off u mod SFS_BLOCKSIZE) m (u, s))"
proof -
  let ?b = "file_block s (inode_of s sv) (off u div SFS_BLOCKSIZE)" and ?k = "off u mod SFS_BLOCKSIZE"
  note d = file_block_data [OF at le m]
  have fb: "uio_fileblock u = off u div SFS_BLOCKSIZE" using ready_offset [OF r] by (intro uio_fileblock_eq) simp_all
  obtain s1 where s1: "sfs_bmap E sv (off u div SFS_BLOCKSIZE) False s = Ret ?b s1" "unchanged s s1" using bmap_lookup [OF E at d(1)] by blast
  have fs: "fs_ok s" using at by (simp add: file_at_def)
  obtain s2 where s2: "(if ?b = 0 then Ret (replicate SFS_BLOCKSIZE 0) (u, s1) else with_uio u (sfs_rblock (env_hw E) ?b s1)) = Ret (block_data s ?b) (u, s2)"
    "unchanged s s2"
  proof (cases "?b = 0")
    case True
    then show thesis using that [of s1] s1(2) by (simp add: block_data_def)
  next
    case False
    then have b: "unat ?b < nblocks s1" using file_block_ok [OF at d(1)] unchangedD(7) [OF s1(2)] by simp
    have "fs_ok s1" using fs unchangedD(1) [OF s1(2)] by simp
    from rblock_fs [OF E this b] obtain s2 where "sfs_rblock (env_hw E) ?b s1 = Ret (d_sectors s1 (unat ?b)) s2" "unchanged s1 s2" by blast
    then show thesis using that [of s2] False unchanged_trans [OF s1(2)] unchangedD(9) [OF s1(2)] by (simp add: block_data_def)
  qed
  have "io_ready m (u, s2)" using r frame_io(1) [OF unchangedD(10) [OF s2(2)]] by simp
  then have "uiomove (block_data s ?b) ?k m (u, s2) = Ret (block_data s ?b) (io_store (file_range s sv (off u) m) (u, s2))"
    using w d m(2) by (subst uiomove_read) simp_all
  moreover have "read_to (file_range s sv (off u) m) (u, s) (io_store (file_range s sv (off u) m) (u, s2))"
    using unchanged_store [OF s2(2)] by (simp add: read_to_def)
  ultimately show ?thesis using s1(1) s2(1) w m(2) by (cases "?b = 0") (auto simp: reads_def sfs_partialio_def fb)
qed

lemma block_read:
  assumes E: "works (env_hw E)" and at: "file_at s sv" and r: "io_ready SFS_BLOCKSIZE (u, s)" and le: "off u + SFS_BLOCKSIZE \<le> MAXBYTES"
    and a: "off u mod SFS_BLOCKSIZE = 0" and w: "uio_op u = UIO_READ"
  shows "reads sv SFS_BLOCKSIZE (u, s) (sfs_blockio E sv (u, s))"
proof -
  let ?b = "file_block s (inode_of s sv) (off u div SFS_BLOCKSIZE)"
  have B: "0 < SFS_BLOCKSIZE" "off u mod SFS_BLOCKSIZE + SFS_BLOCKSIZE \<le> SFS_BLOCKSIZE" using a by (simp_all add: SFS_BLOCKSIZE_def)
  note d = file_block_data [OF at le B]
  have data: "block_data s ?b = file_range s sv (off u) SFS_BLOCKSIZE" using d(2,3) a by simp
  have fb: "uio_fileblock u = off u div SFS_BLOCKSIZE" using ready_offset [OF r] by (intro uio_fileblock_eq) simp_all
  obtain s1 where s1: "sfs_bmap E sv (off u div SFS_BLOCKSIZE) False s = Ret ?b s1" "unchanged s s1" using bmap_lookup [OF E at d(1)] by blast
  have r1: "io_ready SFS_BLOCKSIZE (u, s1)" using r frame_io(1) [OF unchangedD(10) [OF s1(2)]] by simp
  show ?thesis
  proof (cases "?b = 0")
    case True
    then have "uiomovezeros SFS_BLOCKSIZE (u, s1) = Ret () (io_store (file_range s sv (off u) SFS_BLOCKSIZE) (u, s1))"
      using uiomovezeros_read [OF r1] w data by (simp add: uiomovezeros_def block_data_def)
    moreover have "read_to (file_range s sv (off u) SFS_BLOCKSIZE) (u, s) (io_store (file_range s sv (off u) SFS_BLOCKSIZE) (u, s1))"
      using unchanged_store [OF s1(2)] by (simp add: read_to_def)
    ultimately show ?thesis using s1(1) True w by (auto simp: reads_def sfs_blockio_def fb)
  next
    case False
    have fs: "disk_ok s1" "unat ?b < d_blocks s1" "d_blocks s1 < 4194304"
      using at unchangedD(1,7) [OF s1(2)] file_block_ok [OF at d(1)] False by (auto simp: file_at_def fs_ok_def disk_ok_def)
    then have bb: "int (unat ?b) < 4194303" by linarith
    let ?o = "512 * int (unat ?b)"
    have "s32 (int (unat ?b) * 512) = int (unat ?b) * 512" by (rule s32_id) (use bb in linarith)+
    then have diskoff: "s32 (uint ?b * int SFS_BLOCKSIZE) = ?o" by (simp add: SFS_BLOCKSIZE_def)
    let ?u = "u\<lparr>uio_offset := ?o, uio_resid := SFS_BLOCKSIZE\<rparr>" and ?s = "ticked (block_data s ?b) s1"
    have rs: "SFS_BLOCKSIZE \<le> uio_resid u" "uio_resid u < 4294967296" "uio_offset u + 512 < 2147483648" "0 \<le> uio_offset u"
      using r by (simp_all add: io_ready_def SFS_BLOCKSIZE_def)
    have dd: "d_sectors s1 (unat ?b) = block_data s ?b" using False unchangedD(9) [OF s1(2)] by (simp add: block_data_def)
    have "io_ready 512 (?u, s1)" using r1 bb io_ready_at [of 512 u s1 512 ?o] by (simp add: SFS_BLOCKSIZE_def)
    then have "sfs_rwblock (env_hw E) (?u, s1) = Ret () (io_store (block_data s ?b) (?u, ?s))"
      using sfs_rwblock_read [OF E, of ?u s1 "unat ?b"] fs w dd by (simp add: SFS_BLOCKSIZE_def)
    moreover have "blockio_restore (uio_offset u) (uio_resid u) ?o (io_store (block_data s ?b) (?u, ?s)) = io_store (block_data s ?b) (u, ?s)"
      using rs bb d(2) by (simp add: blockio_restore_def io_store_def io_moved_def SFS_BLOCKSIZE_def s32_id u32_def of_nat_diff)
    moreover have un: "unchanged s ?s"
      using unchanged_trans [OF s1(2) unchanged_ticked [of "block_data s ?b" s1]] fs(1) d(2) by (simp add: disk_ok_def)
    moreover have "read_to (block_data s ?b) (u, s) (io_store (block_data s ?b) (u, ?s))"
      using unchanged_store [OF un] by (simp add: read_to_def)
    ultimately show ?thesis using s1(1) False w rs(1) diskoff data by (simp add: reads_def sfs_blockio_def fb Let_def)
  qed
qed

lemma reads_none: "reads sv 0 us (Ret () us)"
  by (simp add: reads_def read_to_def file_range_def)

lemma blocks_read:
  assumes "works (env_hw E)"
  shows "file_at (snd us) sv \<Longrightarrow> io_ready (n * SFS_BLOCKSIZE) us \<Longrightarrow> off (fst us) mod SFS_BLOCKSIZE = 0 \<Longrightarrow> uio_op (fst us) = UIO_READ \<Longrightarrow>
     off (fst us) + n * SFS_BLOCKSIZE \<le> MAXBYTES \<Longrightarrow> reads sv (n * SFS_BLOCKSIZE) us (sfs_blocks E sv n us)"
proof (induction n arbitrary: us)
  case 0
  then show ?case using reads_none [of sv us] by simp
next
  case (Suc n)
  have r: "io_ready (SFS_BLOCKSIZE + n * SFS_BLOCKSIZE) us" using Suc.prems(2) by simp
  have r1: "io_ready SFS_BLOCKSIZE us" by (rule io_ready_le [OF r]) simp
  have "reads sv (SFS_BLOCKSIZE + n * SFS_BLOCKSIZE) us (kbind (sfs_blockio E sv us) (\<lambda>_. sfs_blocks E sv n))"
  proof (rule reads_bind [OF _ r])
    show "reads sv SFS_BLOCKSIZE us (sfs_blockio E sv us)"
      using block_read [OF assms, of "snd us" sv "fst us"] Suc.prems r1 by simp
    fix us' assume w: "read_to (file_range (snd us) sv (off (fst us)) SFS_BLOCKSIZE) us us'"
    note f = read_to_file [OF w]
    have o: "off (fst us') = off (fst us) + SFS_BLOCKSIZE" using read_to_off [OF w r] by simp
    have "io_ready (n * SFS_BLOCKSIZE) us'" using read_to_ready [OF w] r by simp
    then show "reads sv (n * SFS_BLOCKSIZE) us' (sfs_blocks E sv n us')"
      by (intro Suc.IH) (use f(1,4) o Suc.prems in simp_all)
  qed
  then show ?case by simp
qed

lemma rest_read:
  assumes E: "works (env_hw E)" and at: "file_at (snd us) sv" and r: "io_ready (uio_resid (fst us)) us"
    and a: "uio_resid (fst us) \<noteq> 0 \<Longrightarrow> off (fst us) mod SFS_BLOCKSIZE = 0" and w: "uio_op (fst us) = UIO_READ"
    and le: "off (fst us) + uio_resid (fst us) \<le> MAXBYTES"
  shows "reads sv (uio_resid (fst us)) us
    (if uio_resid (fst us) = 0 then Ret () us
     else if uio_offset (fst us) smod int SFS_BLOCKSIZE \<noteq> 0 then Panic
     else kbind (sfs_blocks E sv (uio_resid (fst us) div SFS_BLOCKSIZE) us) (\<lambda>_ us.
       if \<not> uio_resid (fst us) < SFS_BLOCKSIZE then Panic
       else if uio_resid (fst us) > 0 then sfs_partialio E sv 0 (uio_resid (fst us)) us
       else Ret () us))"
proof (cases "uio_resid (fst us) = 0")
  case True
  then show ?thesis using reads_none [of sv us] by simp
next
  case False
  let ?n = "uio_resid (fst us)" and ?f = "\<lambda>us. if \<not> uio_resid (fst us) < SFS_BLOCKSIZE then Panic
      else if uio_resid (fst us) > 0 then sfs_partialio E sv 0 (uio_resid (fst us)) us else Ret () us"
  let ?k = "?n div SFS_BLOCKSIZE * SFS_BLOCKSIZE" and ?m = "?n mod SFS_BLOCKSIZE"
  have n: "?k + ?m = ?n" "?n - ?k = ?m" "?m < SFS_BLOCKSIZE" by (simp_all add: minus_div_mult_eq_mod) (simp add: SFS_BLOCKSIZE_def)
  have r': "io_ready (?k + ?m) us" "io_ready ?k us" using r n(1) io_ready_le [OF r, of ?k] by simp_all
  have al: "off (fst us) mod SFS_BLOCKSIZE = 0" using a False by simp
  have le': "off (fst us) + ?k \<le> MAXBYTES" using le n(1) by linarith
  have "reads sv (?k + ?m) us (kbind (sfs_blocks E sv (?n div SFS_BLOCKSIZE) us) (\<lambda>_. ?f))"
  proof (rule reads_bind [OF blocks_read [OF E at r'(2) al w le'] r'(1)])
    fix us' assume rd: "read_to (file_range (snd us) sv (off (fst us)) ?k) us us'"
    note f = read_to_file [OF rd]
    have rdy: "io_ready ?m us'" using read_to_ready [OF rd] r'(1) by simp
    have res: "uio_resid (fst us') = ?m" using f(5) n(2) by simp
    have o: "off (fst us') = off (fst us) + ?k" using read_to_off [OF rd r] by simp
    then have al': "off (fst us') mod SFS_BLOCKSIZE = 0" "off (fst us') + ?m \<le> MAXBYTES" using al le n(1) by (simp_all add: add.assoc)
    show "reads sv ?m us' (?f us')"
    proof (cases "?m = 0")
      case True
      then show ?thesis using res reads_none [of sv us'] by (simp add: SFS_BLOCKSIZE_def)
    next
      case nz: False
      then show ?thesis using partial_read [OF E, of "snd us'" sv ?m "fst us'"] rdy f(1,4) at w res al' n(3) by simp
    qed
  qed
  moreover have "uio_offset (fst us) smod int SFS_BLOCKSIZE = 0" using smod_block al ready_offset [OF r] by simp
  ultimately show ?thesis using False n(1) by simp
qed

lemma body_read:
  assumes E: "works (env_hw E)" and at: "file_at (snd us) sv" and r: "io_ready (uio_resid (fst us)) us"
    and w: "uio_op (fst us) = UIO_READ" "0 < uio_resid (fst us)" and le: "off (fst us) + uio_resid (fst us) \<le> MAXBYTES"
  shows "reads sv (uio_resid (fst us)) us (io_body E sv us)"
proof -
  let ?n = "uio_resid (fst us)" and ?o = "off (fst us) mod SFS_BLOCKSIZE"
  have o: "nat (u32 (uio_offset (fst us) smod int SFS_BLOCKSIZE)) = ?o"
    using smod_block ready_offset [OF r] by (simp add: u32_def SFS_BLOCKSIZE_def)
  define m where "m = (if ?o = 0 then 0 else if SFS_BLOCKSIZE - ?o > ?n then ?n else SFS_BLOCKSIZE - ?o)"
  have lt: "?o < SFS_BLOCKSIZE" by (simp add: SFS_BLOCKSIZE_def)
  then have m: "m \<le> ?n" "?o + m \<le> SFS_BLOCKSIZE" by (auto simp: m_def)
  have r': "io_ready (m + (?n - m)) us" "io_ready m us" using r m(1) io_ready_le [OF r m(1)] by simp_all
  have le': "off (fst us) + m \<le> MAXBYTES" using le m(1) by linarith
  have lead: "reads sv m us (io_lead E sv us)"
  proof (cases "?o = 0")
    case True
    then show ?thesis using reads_none [of sv us] o by (simp add: io_lead_def m_def)
  next
    case False
    then have "0 < m" using w(2) lt by (simp add: m_def)
    then have "reads sv m (fst us, snd us) (sfs_partialio E sv ?o m (fst us, snd us))"
      by (intro partial_read [OF E _ _ le']) (use at r'(2) m(2) w(1) in simp_all)
    moreover have "io_lead E sv us = sfs_partialio E sv ?o m us" using o False by (simp add: io_lead_def m_def Let_def)
    ultimately show ?thesis by simp
  qed
  have "reads sv (m + (?n - m)) us (io_body E sv us)" unfolding io_body_def
  proof (rule reads_bind [OF lead r'(1)])
    fix us' assume rd: "read_to (file_range (snd us) sv (off (fst us)) m) us us'"
    note f = read_to_file [OF rd]
    have rdy: "io_ready (?n - m) us'" using read_to_ready [OF rd] r'(1) by simp
    have o': "off (fst us') = off (fst us) + m" using read_to_off [OF rd r] by simp
    have "(off (fst us) + m) mod SFS_BLOCKSIZE = 0" if "?n - m \<noteq> 0"
    proof (cases "?o = 0")
      case False
      then have "m = SFS_BLOCKSIZE - ?o" using that by (auto simp: m_def split: if_splits)
      then have "?o + m = SFS_BLOCKSIZE" using lt by simp
      then show ?thesis by (metis mod_add_left_eq mod_self)
    qed (simp add: m_def)
    note al = this
    have res: "uio_resid (fst us') = ?n - m" using f(5) by simp
    show "reads sv (?n - m) us' (if uio_resid (fst us') = 0 then Ret () us'
        else if uio_offset (fst us') smod int SFS_BLOCKSIZE \<noteq> 0 then Panic
        else kbind (sfs_blocks E sv (uio_resid (fst us') div SFS_BLOCKSIZE) us') (\<lambda>_ us.
          if \<not> uio_resid (fst us) < SFS_BLOCKSIZE then Panic
          else if uio_resid (fst us) > 0 then sfs_partialio E sv 0 (uio_resid (fst us)) us else Ret () us))"
      unfolding res [symmetric]
    proof (rule rest_read [OF E])
      show "off (fst us') mod SFS_BLOCKSIZE = 0" if "uio_resid (fst us') \<noteq> 0" using al that o' res by simp
      show "off (fst us') + uio_resid (fst us') \<le> MAXBYTES" unfolding o' res using le m(1) by linarith
    qed (use f(1,4) rdy at w(1) res in simp_all)
  qed
  then show ?thesis using m(1) by simp
qed

lemma io_out_read:
  "uio_op (fst us) = UIO_READ \<Longrightarrow> io_out sv x us = ((fst us)\<lparr>uio_resid := (uio_resid (fst us) + x) mod 4294967296\<rparr>, snd us)"
  by (cases "sfs_pool (snd us) sv") (simp_all add: io_out_def Let_def)

lemma size_offset:
  assumes "file_sized s sv" "sfs_pool s sv = Some v"
  shows "s32 (uint (sfi_size (sv_i v))) = int (file_size s sv)"
proof -
  have "MAXBYTES < 2147483648" by (simp add: MAXBYTES_def MAXBLOCKS_def SFS_NDIRECT_def SFS_DBPERIDB_def SFS_BLOCKSIZE_def)
  then have "s32 (int (file_size s sv)) = int (file_size s sv)" by (intro s32_id) (use assms(1) in \<open>auto simp: file_sized_def\<close>)
  then show ?thesis using assms(2) by (simp add: file_size_def inode_of_def)
qed

text \<open>The part of a request that lies within the file.\<close>

lemma sfs_io_read:
  assumes E: "works (env_hw E)" and sz: "file_sized s sv" and r: "io_ready (uio_resid u) (u, s)" "0 < uio_resid u" and w: "uio_op u = UIO_READ"
  shows "reads sv (min (uio_resid u) (file_size s sv - off u)) (u, s) (sfs_io E sv (u, s))"
proof -
  have at: "file_at s sv" and le: "file_size s sv \<le> MAXBYTES" using sz by (simp_all add: file_sized_def)
  then obtain v where v: "sfs_pool s sv = Some v" by (auto simp: file_at_def)
  note size = size_offset [OF sz v]
  have o: "0 \<le> uio_offset u" "uio_offset u + int (uio_resid u) < 2147483648" "uio_resid u < 4294967296" using r(1) by (simp_all add: io_ready_def)
  have e: "s32 (uio_offset u + int (uio_resid u)) = uio_offset u + int (uio_resid u)" by (rule s32_id) (use o in linarith)+
  show ?thesis
  proof (cases "file_size s sv \<le> off u")
    case True
    then have "int (file_size s sv) \<le> uio_offset u" using o(1) by linarith
    then have "sfs_io E sv (u, s) = Ret () (u, s)" using v w by (simp add: sfs_io_def size)
    then show ?thesis using True reads_none [of sv "(u, s)"] by simp
  next
    case False
    then have lt: "uio_offset u < int (file_size s sv)" using o(1) by linarith
    define x where "x = off u + uio_resid u - file_size s sv"
    let ?u = "u\<lparr>uio_resid := uio_resid u - x\<rparr>"
    have x: "x < uio_resid u" "uio_resid u - x = min (uio_resid u) (file_size s sv - off u)" using False r(2) by (auto simp: x_def)
    have "sfs_io E sv (u, s) = in_part (io_out sv x) (io_body E sv (?u, s))"
    proof (cases "uio_offset u + int (uio_resid u) > int (file_size s sv)")
      case True
      have "0 \<le> uio_offset u + int (uio_resid u) - int (file_size s sv)" "uio_offset u + int (uio_resid u) - int (file_size s sv) < 4294967296"
        using True lt o by linarith+
      then have "nat (u32 (uio_offset u + int (uio_resid u) - int (file_size s sv))) = x"
        unfolding u32_def x_def using o(1) by (simp add: nat_diff_distrib nat_add_distrib)
      then show ?thesis using v w lt True x(1) by (simp add: sfs_io_def size e Let_def)
    next
      case no: False
      then have "x = 0" using o(1) unfolding x_def by linarith
      then show ?thesis using v w lt no by (simp add: sfs_io_def size e Let_def)
    qed
    moreover have "io_ready (uio_resid u - x) (?u, s)"
      using io_ready_at [of "uio_resid u - x" u s "uio_resid u - x" "uio_offset u"] io_ready_le [OF r(1)] o by simp
    then have "reads sv (uio_resid u - x) (?u, s) (io_body E sv (?u, s))"
      using body_read [OF E, of "(?u, s)" sv] at w x le False by simp
    then obtain us' where us': "io_body E sv (?u, s) = Ret () us'" "read_to (file_range s sv (off u) (uio_resid u - x)) (?u, s) us'"
      by (auto simp: reads_def)
    moreover have "read_to (file_range s sv (off u) (uio_resid u - x)) (u, s) (io_out sv x us')"
      using us'(2) read_to_file(4) [OF us'(2)] x(1) w o(3)
      by (cases "uio_segflg u = UIO_SYSSPACE") (simp_all add: io_out_read read_to_def io_store_def io_moved_def)
    ultimately show ?thesis unfolding x(2) [symmetric] by (simp add: reads_def)
  qed
qed

end
