(* ===== verification/KSfsRefine.thy ===== *)
theory KSfsRefine
  imports KSfsIo
begin

text \<open>
  Files of SFS as byte arrays: the properties of \<^verbatim>\<open>sfs_read\<close> and \<^verbatim>\<open>sfs_write\<close> that a caller relies on, with a small
  file system on which they are exercised.
\<close>

section \<open>A small file system\<close>

text \<open>Eight blocks, of which the first three are in use, and one empty file, loaded at address 4.\<close>

definition empty_inode :: sfs_inode where
  "empty_inode = \<lparr>sfi_size = 0, sfi_type = SFS_TYPE_FILE, sfi_linkcount = 1, sfi_direct = replicate SFS_NDIRECT 0, sfi_indirect = 0,
     sfi_waste = replicate 110 0\<rparr>"

definition empty_file :: sfs_vnode where
  "empty_file = \<lparr>sv_refcount = 1, sv_opencount = 1, sv_ops = SFS_FILEOPS, sv_i = empty_inode, sv_ino = 2, sv_dirty = False\<rparr>"

definition small_fs :: sfs_fs where
  "small_fs = \<lparr>um_bytes = (\<lambda>_. 0), um_reads = (\<lambda>_. False), um_writes = (\<lambda>_. False), cur_vmspace = 0, badfaultfunc = False,
     d_sectors = (\<lambda>b. replicate SFS_BLOCKSIZE 0), d_blocks = 8, lh_buf = replicate SFS_BLOCKSIZE 0, lh_result = None, lh_ops = 0,
     sfs_super = \<lparr>sp_magic = SFS_MAGIC, sp_nblocks = 8, sp_volname = replicate 32 0, sp_reserved = replicate 118 0\<rparr>,
     sfs_superdirty = False, sfs_vnodes = \<lparr>a_num = 1, a_max = 1, a_v = Some [4]\<rparr>, sfs_freemap = \<lparr>nbits = 8, bm_v = [7]\<rparr>, sfs_freemapdirty = False,
     sfs_pool = (\<lambda>p. if p = 4 then Some empty_file else None)\<rparr>"

definition good_env :: env where
  "good_env = \<lparr>env_hw = (\<lambda>_. LHD_OK), env_km = (\<lambda>_. Some []), env_sv = (\<lambda>_. 0), env_lock = (\<lambda>_. True)\<rparr>"

lemma small_fs_blocks: "j < 144 \<Longrightarrow> all_blocks small_fs empty_inode ! j = 0"
proof -
  assume "j < 144"
  moreover have "all_blocks small_fs empty_inode = replicate 144 0"
    by (simp add: all_blocks_def id_blocks_def empty_inode_def SFS_NDIRECT_def SFS_DBPERIDB_def flip: replicate_add replicate_Suc)
  ultimately show ?thesis by simp
qed

lemma small_fs_ok: "works (env_hw good_env)" "file_sized small_fs 4"
proof -
  show "works (env_hw good_env)" by (simp add: works_def good_env_def LHD_OK_def LHD_STATEMASK_def)
  have "bitmap_inv (sfs_freemap small_fs)" "0 \<in> used (sfs_freemap small_fs)"
    by (auto simp: small_fs_def bitmap_inv_def bitmap_words_eq used_def bit_at_def)
  then have "fs_ok small_fs"
    by (simp add: fs_ok_def disk_ok_def nblocks_def used_blocks_def) (simp add: small_fs_def)
  moreover have "inode_of small_fs 4 = empty_inode" by (simp add: inode_of_def small_fs_def empty_file_def)
  moreover have "file_ok small_fs empty_inode"
    using small_fs_blocks by (simp add: file_ok_def) (simp add: inode_wf_def empty_inode_def)
  ultimately show "file_sized small_fs 4"
    by (simp add: file_sized_def file_at_def file_size_def) (simp add: small_fs_def empty_inode_def)
qed

lemma kuio_ready:
  "n \<le> length b \<Longrightarrow> 0 \<le> p \<Longrightarrow> p + int n < 2147483648 \<Longrightarrow> io_ready n (mk_kuio b n p rw, s)"
  by (simp add: io_ready_def mk_kuio_def)

lemma mk_kuio_select [simp]:
  "uio_offset (mk_kuio b n p rw) = p" "uio_resid (mk_kuio b n p rw) = n" "uio_op (mk_kuio b n p rw) = rw"
  by (simp_all add: mk_kuio_def)

lemma io_next_kuio: "n \<le> length b \<Longrightarrow> io_next n (mk_kuio b n p rw, s) = take n b"
  by (simp add: io_next_def mk_kuio_def)

section \<open>Properties\<close>

text \<open>
  C6. Writing to a file. On a working disk \<^verbatim>\<open>sfs_write\<close> of a request whose buffer is accessible ends without a
  panic. Either it stores all bytes: the contents are those before with the range replaced, the size
  is the larger of the old size and the end of the range, the \<^verbatim>\<open>uio\<close> has advanced, and no block in use that
  belongs to anything else has changed. Or it fails, with \<^verbatim>\<open>ENOSPC\<close>, or with \<^verbatim>\<open>EINVAL\<close> if the range ends beyond the
  largest file; then exactly a shorter prefix of the range has been replaced, and the \<^verbatim>\<open>uio\<close> says how long it is.
\<close>

theorem sfs_write_replaces_range:
  assumes "works (env_hw E)" "file_sized s sv" "io_ready (uio_resid u) (u, s)" "0 < uio_resid u" "uio_op u = UIO_WRITE"
  shows "outcome (sfs_write E sv (u, s))
    (\<lambda>_ us'. file_written sv (uio_resid u) (u, s) us' \<and> nat (uio_offset u) + uio_resid u \<le> MAXBYTES)
    (\<lambda>e us'. (e = ENOSPC \<or> e = EINVAL \<and> MAXBYTES < nat (uio_offset u) + uio_resid u) \<and>
       (\<exists>m < uio_resid u. file_written sv m (u, s) us'))"
  using sfs_io_write [OF assms] assms(5) by (simp add: sfs_write_def)

theorem sfs_write_replaces_range_witness:
  "outcome (sfs_write good_env 4 (mk_kuio [1, 2, 3] 3 511 UIO_WRITE, small_fs))
     (\<lambda>_ us'. file_written 4 3 (mk_kuio [1, 2, 3] 3 511 UIO_WRITE, small_fs) us')
     (\<lambda>e us'. e = ENOSPC \<and> (\<exists>m < 3. file_written 4 m (mk_kuio [1, 2, 3] 3 511 UIO_WRITE, small_fs) us'))"
  using sfs_write_replaces_range [of good_env small_fs 4 "mk_kuio [1, 2, 3] 3 511 UIO_WRITE"] small_fs_ok
  by (auto simp: kuio_ready MAXBYTES_def MAXBLOCKS_def SFS_NDIRECT_def SFS_DBPERIDB_def SFS_BLOCKSIZE_def elim: outcome_weaken)

text \<open>
  C7. Reading from a file. On a working disk \<^verbatim>\<open>sfs_read\<close> of a request whose buffer is accessible succeeds and
  delivers the bytes of the requested range that lie before the end of the file, zeros where no
  block was ever written; the \<^verbatim>\<open>uio\<close> is left with what could not be read. Nothing on the disk or in the file system changes.
\<close>

theorem sfs_read_delivers_range:
  assumes "works (env_hw E)" "file_sized s sv" "io_ready (uio_resid u) (u, s)" "0 < uio_resid u" "uio_op u = UIO_READ"
    and n: "n = min (uio_resid u) (file_size s sv - nat (uio_offset u))" and bs: "bs = map (file_byte s sv) [nat (uio_offset u)..<nat (uio_offset u) + n]"
  shows "\<exists>s'. sfs_read E sv (u, s) = Ret () (fst (io_store bs (u, s)), s') \<and> unchanged (snd (io_store bs (u, s))) s'"
  using sfs_io_read [OF assms(1-5)] assms(5) by (auto simp: sfs_read_def reads_def read_to_def n bs file_range_def)

theorem sfs_read_delivers_range_witness:
  "\<exists>s'. sfs_read good_env 4 (mk_kuio [0, 0, 0] 3 511 UIO_READ, small_fs) =
     Ret () (fst (io_store [] (mk_kuio [0, 0, 0] 3 511 UIO_READ, small_fs)), s') \<and> unchanged small_fs s'"
proof -
  have "file_size small_fs 4 = 0" by (simp add: file_size_def inode_of_def small_fs_def empty_file_def empty_inode_def)
  then show ?thesis
    using sfs_read_delivers_range [of good_env small_fs 4 "mk_kuio [0, 0, 0] 3 511 UIO_READ" 0 "[]"] small_fs_ok
    by (simp add: kuio_ready)
qed

text \<open>
  C8. What was written is read back: on a disk that reports no errors, \<^verbatim>\<open>sfs_write\<close> from a kernel buffer to a range within the largest file
  size, followed by \<^verbatim>\<open>sfs_read\<close> of the same range into another buffer, fills that buffer with the data and leaves nothing to read, unless
  the disk was full.
\<close>

theorem sfs_read_after_write:
  assumes "works (env_hw E)" "file_sized s sv" "data \<noteq> []" "p + length data \<le> MAXBYTES" "length buf = length data"
  shows "outcome (kbind (sfs_write E sv (mk_kuio data (length data) (int p) UIO_WRITE, s))
      (\<lambda>_ us. sfs_read E sv (mk_kuio buf (length data) (int p) UIO_READ, snd us)))
    (\<lambda>_ us. iov_kblock (fst us) = data \<and> uio_resid (fst us) = 0) (\<lambda>e us. e = ENOSPC)"
proof -
  let ?u = "mk_kuio data (length data) (int p) UIO_WRITE" and ?w = "mk_kuio buf (length data) (int p) UIO_READ"
  have max: "MAXBYTES < 2147483648" by (simp add: MAXBYTES_def MAXBLOCKS_def SFS_NDIRECT_def SFS_DBPERIDB_def SFS_BLOCKSIZE_def)
  then have small: "int p + int (length data) < 2147483648" using assms(4) by linarith
  have "outcome (sfs_write E sv (?u, s)) (\<lambda>_ us'. file_written sv (length data) (?u, s) us') (\<lambda>e us'. e = ENOSPC)"
    using sfs_io_write [OF assms(1,2), of ?u] assms(3,4) small by (auto simp: sfs_write_def kuio_ready elim!: outcome_weaken)
  then show ?thesis
  proof (rule outcome_bind [OF outcome_weaken])
    fix us' assume w: "file_written sv (length data) (?u, s) us'"
    have size: "file_size (snd us') sv = max (file_size s sv) (p + length data)" using w by (simp add: file_written_def)
    have "file_at (snd us') sv" using w by (simp add: file_written_def kept_def)
    then have sz: "file_sized (snd us') sv" using assms(2,4) size by (simp add: file_sized_def)
    have "file_byte (snd us') sv (p + j) = data ! j" if "j < length data" for j
      using w that assms(4) by (simp add: file_written_def io_next_kuio)
    then have range: "file_range (snd us') sv p (length data) = data" by (intro nth_equalityI) (simp_all add: file_range_def)
    have min: "min (length data) (file_size (snd us') sv - p) = length data" using size by auto
    have "reads sv (length data) (?w, snd us') (sfs_io E sv (?w, snd us'))"
      using sfs_io_read [OF assms(1) sz, of ?w] assms(3,5) small min by (simp add: kuio_ready)
    then show "outcome (sfs_read E sv (?w, snd us')) (\<lambda>_ us. iov_kblock (fst us) = data \<and> uio_resid (fst us) = 0) (\<lambda>e us. e = ENOSPC)"
      using range assms(5) by (auto simp: sfs_read_def reads_def read_to_def io_store_def mk_kuio_def)
  qed simp
qed

theorem sfs_read_after_write_witness:
  "outcome (kbind (sfs_write good_env 4 (mk_kuio [1, 2, 3] 3 511 UIO_WRITE, small_fs))
      (\<lambda>_ us. sfs_read good_env 4 (mk_kuio [0, 0, 0] 3 511 UIO_READ, snd us)))
    (\<lambda>_ us. iov_kblock (fst us) = [1, 2, 3] \<and> uio_resid (fst us) = 0) (\<lambda>e us. e = ENOSPC)"
  using sfs_read_after_write [of good_env small_fs 4 "[1, 2, 3]" 511 "[0, 0, 0]"] small_fs_ok
  by (simp add: MAXBYTES_def MAXBLOCKS_def SFS_NDIRECT_def SFS_DBPERIDB_def SFS_BLOCKSIZE_def flip: numeral_3_eq_3)

text \<open>
  C38. A write that starts at or beyond the largest file fails with \<^verbatim>\<open>EINVAL\<close> and stores nothing, but it still
  sets the size of the file to the offset, so that the file then claims bytes it cannot have.
\<close>

theorem sfs_write_beyond_sets_size:
  assumes "file_sized s sv" "MAXBYTES \<le> p" "file_size s sv < p" "int p + int n < 2147483648" "0 < n"
  shows "\<exists>s'. sfs_write E sv (mk_kuio data n (int p) UIO_WRITE, s) = Err EINVAL (mk_kuio data n (int p) UIO_WRITE, s') \<and>
    file_size s' sv = p \<and> d_sectors s' = d_sectors s"
proof -
  let ?u = "mk_kuio data n (int p) UIO_WRITE"
  have at: "file_at s sv" using assms(1) by (simp add: file_sized_def)
  then obtain v where v: "sfs_pool s sv = Some v" by (auto simp: file_at_def)
  have fb: "uio_fileblock ?u = p div SFS_BLOCKSIZE" using assms(4) by (subst uio_fileblock_eq) simp_all
  have big: "MAXBLOCKS \<le> p div SFS_BLOCKSIZE"
    using assms(2) div_le_mono [of "MAXBLOCKS * SFS_BLOCKSIZE" p SFS_BLOCKSIZE] by (simp add: MAXBYTES_def SFS_BLOCKSIZE_def)
  have partial: "sfs_partialio E sv k m (?u, s) = Err EINVAL (?u, s)" if "k + m \<le> SFS_BLOCKSIZE" for k m
    using that big by (simp add: sfs_partialio_def fb bmap_too_large)
  have whole: "sfs_blocks E sv (Suc m) (?u, s) = Err EINVAL (?u, s)" for m
    using big by (simp add: sfs_blockio_def fb bmap_too_large)
  have o: "nat (u32 (int p smod int SFS_BLOCKSIZE)) = p mod SFS_BLOCKSIZE" using smod_block [of "int p"] by (simp add: u32_def SFS_BLOCKSIZE_def)
  have "p mod SFS_BLOCKSIZE < SFS_BLOCKSIZE" by (simp add: SFS_BLOCKSIZE_def)
  then have body: "io_body E sv (?u, s) = Err EINVAL (?u, s)"
  proof (cases "p mod SFS_BLOCKSIZE = 0")
    case False
    then show ?thesis using \<open>p mod SFS_BLOCKSIZE < SFS_BLOCKSIZE\<close> by (simp add: io_body_def io_lead_def o Let_def partial)
  next
    case True
    then have "int p smod int SFS_BLOCKSIZE = 0" using smod_block [of "int p"] by simp
    then show ?thesis
      using True assms(5) whole [of "n div SFS_BLOCKSIZE - 1"] partial [of 0 n] o
      by (cases "n div SFS_BLOCKSIZE") (auto simp: io_body_def io_lead_def Let_def div_eq_0_iff SFS_BLOCKSIZE_def)
  qed
  let ?s = "set_inode sv (\<lambda>i. i\<lparr>sfi_size := word_of_int (int p)\<rparr>) s"
  have "io_out sv 0 (?u, s) = (?u, ?s)"
    using v size_offset [OF assms(1) v] assms(3,4) by (simp add: io_out_def mk_kuio_def Let_def)
  then have "sfs_write E sv (?u, s) = Err EINVAL (?u, ?s)" using v body by (simp add: sfs_write_def sfs_io_def)
  moreover have "unat (word_of_nat p :: 32 word) = p" by (rule unat_of_nat_32) (use assms(4) in linarith)
  then have "file_size ?s sv = p" using set_size(2) [OF at refl, of "word_of_int (int p)"] by (simp add: file_size_def)
  ultimately show ?thesis by auto
qed

theorem sfs_write_beyond_sets_size_witness:
  "\<exists>s'. sfs_write good_env 4 (mk_kuio [7] 1 100000 UIO_WRITE, small_fs) = Err EINVAL (mk_kuio [7] 1 100000 UIO_WRITE, s') \<and>
     file_size s' 4 = 100000 \<and> d_sectors s' = d_sectors small_fs"
proof -
  have "file_size small_fs 4 = 0" by (simp add: file_size_def inode_of_def small_fs_def empty_file_def empty_inode_def)
  then show ?thesis
    using sfs_write_beyond_sets_size [of small_fs 4 100000 1 good_env "[7]"] small_fs_ok(2)
    by (simp add: MAXBYTES_def MAXBLOCKS_def SFS_NDIRECT_def SFS_DBPERIDB_def SFS_BLOCKSIZE_def)
qed

end
