(* ===== verification/KMachine.thy ===== *)
theory KMachine
  imports KSynch KUio
begin

text \<open>
  The state of the whole machine, for the layers that work on more than the thread system: system
  calls, traps, the VFS layer and the console. \<open>cur_vmspace\<close> and \<open>badfaultfunc\<close> of the memory of the
  current process stand for the fields of the current thread.
\<close>

section \<open>State\<close>

text \<open>The registers that the kernel saves and restores without looking at them are \<open>tf_others\<close>.\<close>

record trapframe =
  tf_vaddr :: "32 word"
  tf_status :: "32 word"
  tf_cause :: "32 word"
  tf_v0 :: "32 word"
  tf_a0 :: "32 word"
  tf_a1 :: "32 word"
  tf_a2 :: "32 word"
  tf_a3 :: "32 word"
  tf_sp :: "32 word"
  tf_epc :: "32 word"
  tf_others :: "32 word list"

text \<open>An entry of the list of devices; a null pointer or name is 0 or \<open>None\<close>.\<close>

record knowndev =
  kd_name :: "byte list"
  kd_rawname :: "byte list option"
  kd_device :: vaddr
  kd_vnode :: vaddr
  kd_fs :: vaddr

text \<open>
  The emulator file system, \<^verbatim>\<open>kern/dev/lamebus/emu.c\<close>: the registers and the buffer of the device with all operations
  it has been asked for, each with the contents of the registers at that time; the file behind a vnode; and the
  file system.
\<close>

datatype emu_op =
    EMU_OP_OPEN | EMU_OP_CREATE | EMU_OP_EXCLCREATE | EMU_OP_CLOSE | EMU_OP_READ | EMU_OP_READDIR | EMU_OP_WRITE
  | EMU_OP_GETSIZE | EMU_OP_TRUNC

record emu_regs =
  reg_handle :: "32 word"
  reg_offset :: "32 word"
  reg_iolen :: "32 word"
  emu_iobuf :: "byte list"

record emu_softc =
  e_regs :: emu_regs
  e_log :: "(emu_op \<times> emu_regs) list"

record emufs_vnode =
  ev_emu :: vaddr
  ev_handle :: "32 word"

record emufs_fs =
  ef_emu :: vaddr
  ef_root :: vaddr
  ef_vnodes :: "vaddr list"

text \<open>
  The machine: the memory of the current process as the kernel sees it, the variables of the kernel
  proper, the saved trap frames, the variables of the VFS layer, the sectors of the disks, the emulator
  file systems, and the console with the characters it has sent.
\<close>

record sys = iostate +
  krn :: kernel
  tframes :: "vaddr \<rightharpoonup> trapframe"
  knowndevs :: "knowndev list"
  bootfs_vnode :: vaddr
  disks :: "vaddr \<Rightarrow> nat \<Rightarrow> byte list"
  emus :: "vaddr \<Rightarrow> emu_softc"
  emuvns :: "vaddr \<rightharpoonup> emufs_vnode"
  emufss :: "vaddr \<rightharpoonup> emufs_fs"
  the_console :: vaddr
  delayed_outbuf :: "byte list"
  con_rsem :: vaddr
  con_wsem :: vaddr
  con_userlock_read :: vaddr
  con_userlock_write :: vaddr
  con_gotchar :: int
  con_sent :: "byte list"

type_synonym 'v sysres = "('v, sys) result"

definition on_kernel :: "(kernel \<Rightarrow> 'v kresult) \<Rightarrow> sys \<Rightarrow> 'v sysres" where
  "on_kernel f s = in_part (\<lambda>k. s\<lparr>krn := k\<rparr>) (f (krn s))"

definition cur_proc :: "sys \<Rightarrow> thread option" where
  "cur_proc s = threads (krn s) (curthread (krn s))"

end
