(* ===== verification/KVfs.thy ===== *)
theory KVfs
  imports KMachine
begin

text \<open>
  The VFS layer: \<^verbatim>\<open>kern/fs/vfs/vnode.c\<close>, \<^verbatim>\<open>vfslist.c\<close>, \<^verbatim>\<open>vfslookup.c\<close>, \<^verbatim>\<open>vfscwd.c\<close> and \<^verbatim>\<open>vfspath.c\<close>. The tables of
  operations that a vnode or a file system points to are in the record \<open>vfsenv\<close>, indexed by their
  addresses; \<open>ve_devops\<close> is the address of \<^verbatim>\<open>dev_vnode_ops\<close>. What is done between acquiring and releasing \<^verbatim>\<open>knowndevs_lock\<close> or \<^verbatim>\<open>bootfs_lock\<close> is one step.

  Names and paths are lists of bytes without the terminating zero.
\<close>

unbundle bit_operations_syntax

section \<open>Vnodes\<close>

type_synonym 'v uiores = "('v, uio \<times> sys) result"

record vnode_ops =
  vo_magic :: "32 word"
  vo_open :: "vaddr \<Rightarrow> 32 word \<Rightarrow> sys \<Rightarrow> unit sysres"
  vo_close :: "vaddr \<Rightarrow> sys \<Rightarrow> unit sysres"
  vo_reclaim :: "vaddr \<Rightarrow> sys \<Rightarrow> unit sysres"
  vo_read :: "vaddr \<Rightarrow> uio \<times> sys \<Rightarrow> unit uiores"
  vo_readlink :: "vaddr \<Rightarrow> uio \<times> sys \<Rightarrow> unit uiores"
  vo_getdirentry :: "vaddr \<Rightarrow> uio \<times> sys \<Rightarrow> unit uiores"
  vo_write :: "vaddr \<Rightarrow> uio \<times> sys \<Rightarrow> unit uiores"
  vo_ioctl :: "vaddr \<Rightarrow> int \<Rightarrow> 32 word \<Rightarrow> sys \<Rightarrow> unit sysres"
  vo_stat :: "vaddr \<Rightarrow> sys \<Rightarrow> (int \<times> int \<times> int \<times> int) sysres"
  vo_gettype :: "vaddr \<Rightarrow> sys \<Rightarrow> int sysres"
  vo_tryseek :: "vaddr \<Rightarrow> int \<Rightarrow> sys \<Rightarrow> unit sysres"
  vo_fsync :: "vaddr \<Rightarrow> sys \<Rightarrow> unit sysres"
  vo_mmap :: "vaddr \<Rightarrow> sys \<Rightarrow> unit sysres"
  vo_truncate :: "vaddr \<Rightarrow> int \<Rightarrow> sys \<Rightarrow> unit sysres"
  vo_namefile :: "vaddr \<Rightarrow> uio \<times> sys \<Rightarrow> unit uiores"
  vo_creat :: "vaddr \<Rightarrow> byte list \<Rightarrow> bool \<Rightarrow> sys \<Rightarrow> vaddr sysres"
  vo_symlink :: "vaddr \<Rightarrow> byte list \<Rightarrow> byte list \<Rightarrow> sys \<Rightarrow> unit sysres"
  vo_mkdir :: "vaddr \<Rightarrow> byte list \<Rightarrow> sys \<Rightarrow> unit sysres"
  vo_link :: "vaddr \<Rightarrow> byte list \<Rightarrow> vaddr \<Rightarrow> sys \<Rightarrow> unit sysres"
  vo_remove :: "vaddr \<Rightarrow> byte list \<Rightarrow> sys \<Rightarrow> unit sysres"
  vo_rmdir :: "vaddr \<Rightarrow> byte list \<Rightarrow> sys \<Rightarrow> unit sysres"
  vo_rename :: "vaddr \<Rightarrow> byte list \<Rightarrow> vaddr \<Rightarrow> byte list \<Rightarrow> sys \<Rightarrow> unit sysres"
  vo_lookup :: "vaddr \<Rightarrow> byte list \<Rightarrow> sys \<Rightarrow> vaddr sysres"
  vo_lookparent :: "vaddr \<Rightarrow> byte list \<Rightarrow> nat \<Rightarrow> sys \<Rightarrow> (vaddr \<times> byte list) sysres"

record fs_ops =
  fo_sync :: "vaddr \<Rightarrow> sys \<Rightarrow> unit sysres"
  fo_getvolname :: "vaddr \<Rightarrow> sys \<Rightarrow> byte list option"
  fo_getroot :: "vaddr \<Rightarrow> sys \<Rightarrow> vaddr sysres"
  fo_unmount :: "vaddr \<Rightarrow> sys \<Rightarrow> unit sysres"

record vfsenv =
  ve_ops :: "vaddr \<Rightarrow> vnode_ops"
  ve_fs :: "vaddr \<Rightarrow> fs_ops"
  ve_devops :: vaddr

definition VOP_MAGIC :: "32 word" where
  "VOP_MAGIC = 0xa2b3c4d5"

text \<open>\<^verbatim>\<open>vnode_check\<close> either panics or does nothing; \<open>reclaim\<close> says whether it is called for \<^verbatim>\<open>VOP_RECLAIM\<close>.\<close>

definition vnode_check :: "vfsenv \<Rightarrow> bool \<Rightarrow> vaddr \<Rightarrow> vnode \<Rightarrow> bool" where
  "vnode_check E reclaim vn v \<longleftrightarrow>
     vn \<noteq> 0 \<and> vn \<noteq> 0xdeadbeef \<and> vn_ops v \<noteq> 0 \<and> vn_ops v \<noteq> 0xdeadbeef \<and> vo_magic (ve_ops E (vn_ops v)) = VOP_MAGIC \<and>
     vn_fs v \<noteq> 0xdeadbeef \<and> \<not> vn_refcount v < 0 \<and> \<not> (vn_refcount v = 0 \<and> \<not> reclaim) \<and> \<not> vn_opencount v < 0"

text \<open>The macro \<^verbatim>\<open>__VOP\<close>: check the vnode and go on with its table of operations.\<close>

definition with_ops :: "vfsenv \<Rightarrow> bool \<Rightarrow> vaddr \<Rightarrow> sys \<Rightarrow> (vnode_ops \<Rightarrow> ('v, 't) result) \<Rightarrow> ('v, 't) result" where
  "with_ops E reclaim vn s f =
     (if vn = 0 then Panic
      else deref (vnodes (krn s) vn) (\<lambda>v. if \<not> vnode_check E reclaim vn v then Panic else f (ve_ops E (vn_ops v))))"

text \<open>\<open>lk\<close> is the address of the lock that \<^verbatim>\<open>lock_create\<close> makes, 0 if there is no memory.\<close>

definition vnode_init :: "vaddr \<Rightarrow> vaddr \<Rightarrow> vaddr \<Rightarrow> vaddr \<Rightarrow> vaddr \<Rightarrow> kernel \<Rightarrow> unit kresult" where
  "vnode_init lk vn ops fs fsdata k =
     (if vn = 0 \<or> ops = 0 then Panic
      else kbind (lock_create lk True 0 ''vnode-countlock'' k) (\<lambda>l k.
        if l = 0 then Err ENOMEM k
        else Ret () (k\<lparr>vnodes := (vnodes k)(vn \<mapsto>
          \<lparr>vn_refcount = 1, vn_opencount = 0, vn_countlock = l, vn_fs = fs, vn_data = fsdata, vn_ops = ops\<rparr>)\<rparr>)))"

definition vnode_kill :: "vaddr \<Rightarrow> kernel \<Rightarrow> unit kresult" where
  "vnode_kill vn k =
     deref (vnodes k vn) (\<lambda>v.
       if vn_refcount v \<noteq> 1 \<or> vn_opencount v \<noteq> 0 \<or> vn_countlock v = 0 then Panic
       else kbind (lock_destroy (vn_countlock v) k) (\<lambda>_ k.
         Ret () (k\<lparr>vnodes := (vnodes k)(vn \<mapsto>
           \<lparr>vn_refcount = 0, vn_opencount = 0, vn_countlock = 0, vn_fs = 0, vn_data = 0, vn_ops = 0\<rparr>)\<rparr>)))"

text \<open>The counts of \<open>KVnode\<close>, with operations that may change the whole machine.\<close>

definition VOP_INCREF :: "vaddr \<Rightarrow> sys \<Rightarrow> unit sysres" where
  "VOP_INCREF vn s = on_kernel (vnode_incref vn) s"

definition VOP_INCOPEN :: "vaddr \<Rightarrow> sys \<Rightarrow> unit sysres" where
  "VOP_INCOPEN vn s = on_kernel (vnode_incopen vn) s"

definition set_vnode :: "vaddr \<Rightarrow> (vnode \<Rightarrow> vnode) \<Rightarrow> sys \<Rightarrow> sys" where
  "set_vnode vn f s = s\<lparr>krn := vn_update vn f (krn s)\<rparr>"

definition VOP_DECREF :: "vfsenv \<Rightarrow> vaddr \<Rightarrow> sys \<Rightarrow> unit sysres" where
  "VOP_DECREF E vn s =
     (if vn = 0 then Panic
      else deref (vnodes (krn s) vn) (\<lambda>v.
        if \<not> vn_refcount v > 0 then Panic
        else if vn_refcount v > 1 then Ret () (set_vnode vn (\<lambda>v. v\<lparr>vn_refcount := vn_refcount v - 1\<rparr>) s)
        else ignore_error (with_ops E True vn s (\<lambda>ops. vo_reclaim ops vn s))))"

definition VOP_DECOPEN :: "vfsenv \<Rightarrow> vaddr \<Rightarrow> sys \<Rightarrow> unit sysres" where
  "VOP_DECOPEN E vn s =
     (if vn = 0 then Panic
      else deref (vnodes (krn s) vn) (\<lambda>v.
        if \<not> vn_opencount v > 0 then Panic
        else let s = set_vnode vn (\<lambda>v. v\<lparr>vn_opencount := vn_opencount v - 1\<rparr>) s
        in if vn_opencount v - 1 > 0 then Ret () s
           else ignore_error (with_ops E False vn s (\<lambda>ops. vo_close ops vn s))))"

text \<open>A routine followed by the release of a vnode, whether it has failed or not.\<close>

fun releasing :: "vfsenv \<Rightarrow> vaddr \<Rightarrow> 'v sysres \<Rightarrow> 'v sysres" where
  "releasing E vn (Ret v s) = kbind (VOP_DECREF E vn s) (\<lambda>_ s. Ret v s)"
| "releasing E vn (Err e s) = kbind (VOP_DECREF E vn s) (\<lambda>_ s. Err e s)"
| "releasing E vn Panic = Panic"
| "releasing E vn Undef = Undef"

section \<open>Devices, \<^verbatim>\<open>vfslist.c\<close>\<close>

text \<open>The error of \<^verbatim>\<open>FSOP_SYNC\<close> is dropped.\<close>

fun sync_all :: "vfsenv \<Rightarrow> knowndev list \<Rightarrow> sys \<Rightarrow> unit sysres" where
  "sync_all E [] s = Ret () s"
| "sync_all E (kd # kds) s =
     (if kd_fs kd \<noteq> 0 then kbind (ignore_error (fo_sync (ve_fs E (kd_fs kd)) (kd_fs kd) s)) (\<lambda>_ s. sync_all E kds s)
      else sync_all E kds s)"

definition vfs_sync :: "vfsenv \<Rightarrow> sys \<Rightarrow> unit sysres" where
  "vfs_sync E s = sync_all E (knowndevs s) s"

definition volname :: "vfsenv \<Rightarrow> vaddr \<Rightarrow> sys \<Rightarrow> byte list option" where
  "volname E fs s = fo_getvolname (ve_fs E fs) fs s"

definition kd_itself :: "knowndev \<Rightarrow> sys \<Rightarrow> vaddr sysres" where
  "kd_itself kd s = (if kd_device kd = 0 then Panic else kbind (VOP_INCREF (kd_vnode kd) s) (\<lambda>_ s. Ret (kd_vnode kd) s))"

fun getroot_scan :: "vfsenv \<Rightarrow> byte list \<Rightarrow> knowndev list \<Rightarrow> sys \<Rightarrow> vaddr sysres" where
  "getroot_scan E devname [] s = Err ENODEV s"
| "getroot_scan E devname (kd # kds) s =
     (if kd_fs kd \<noteq> 0 \<and> (kd_name kd = devname \<or> volname E (kd_fs kd) s = Some devname)
      then fo_getroot (ve_fs E (kd_fs kd)) (kd_fs kd) s
      else if kd_fs kd = 0 \<and> kd_rawname kd \<noteq> None \<and> kd_name kd = devname then Err ENXIO s
      else if kd_name kd = devname then (if kd_fs kd \<noteq> 0 \<or> kd_rawname kd \<noteq> None then Panic else kd_itself kd s)
      else if kd_rawname kd = Some devname then kd_itself kd s
      else getroot_scan E devname kds s)"

definition vfs_getroot :: "vfsenv \<Rightarrow> byte list \<Rightarrow> sys \<Rightarrow> vaddr sysres" where
  "vfs_getroot E devname s = getroot_scan E devname (knowndevs s) s"

definition vfs_getdevname :: "vaddr \<Rightarrow> sys \<Rightarrow> byte list option sysres" where
  "vfs_getdevname fs s = (if fs = 0 then Panic else Ret (map_option kd_name (find (\<lambda>kd. kd_fs kd = fs) (knowndevs s))) s)"

definition mkrawname :: "byte list \<Rightarrow> byte list" where
  "mkrawname name = name @ [114, 97, 119]"

definition samestring :: "byte list option \<Rightarrow> byte list option \<Rightarrow> bool" where
  "samestring a b \<longleftrightarrow> a \<noteq> None \<and> b \<noteq> None \<and> a = b"

definition samestring3 :: "byte list option \<Rightarrow> byte list option \<Rightarrow> byte list option \<Rightarrow> byte list option \<Rightarrow> bool" where
  "samestring3 a b c d \<longleftrightarrow> samestring a b \<or> samestring a c \<or> samestring a d"

definition badnames :: "vfsenv \<Rightarrow> byte list option \<Rightarrow> byte list option \<Rightarrow> byte list option \<Rightarrow> sys \<Rightarrow> bool" where
  "badnames E n1 n2 n3 s \<longleftrightarrow>
     (\<exists>kd \<in> set (knowndevs s). (kd_fs kd \<noteq> 0 \<and> samestring3 (volname E (kd_fs kd) s) n1 n2 n3) \<or>
        samestring3 (kd_rawname kd) n1 n2 n3 \<or> samestring3 (Some (kd_name kd)) n1 n2 n3)"

text \<open>What \<^verbatim>\<open>vfs_doadd\<close> is given by the allocator: addresses, 0 for none, and whether the array can be extended.\<close>

record doadd_env =
  da_name :: bool
  da_rawname :: bool
  da_vnode :: vaddr
  da_lock :: vaddr
  da_kd :: bool
  da_array :: bool

definition dev_create_vnode :: "vfsenv \<Rightarrow> doadd_env \<Rightarrow> vaddr \<Rightarrow> kernel \<Rightarrow> vaddr kresult" where
  "dev_create_vnode E A dev k =
     (if da_vnode A = 0 then Ret 0 k
      else case vnode_init (da_lock A) (da_vnode A) (ve_devops E) 0 dev k of
        Ret _ k \<Rightarrow> Ret (da_vnode A) k | Err e k \<Rightarrow> Panic | Panic \<Rightarrow> Panic | Undef \<Rightarrow> Undef)"

definition vfs_doadd :: "vfsenv \<Rightarrow> doadd_env \<Rightarrow> byte list \<Rightarrow> bool \<Rightarrow> vaddr \<Rightarrow> vaddr \<Rightarrow> sys \<Rightarrow> unit sysres" where
  "vfs_doadd E A dname mountable dev fs s =
     (let rawname = (if mountable then Some (mkrawname dname) else None)
      in if \<not> da_name A then Err ENOMEM s
         else if mountable \<and> \<not> da_rawname A then Err ENOMEM s
         else kbind (on_kernel (dev_create_vnode E A dev) s) (\<lambda>vnode s.
           if vnode = 0 then Err ENOMEM s
           else if \<not> da_kd A then Err ENOMEM (s\<lparr>krn := (krn s)\<lparr>vnodes := (vnodes (krn s))(vnode := None)\<rparr>\<rparr>)
           else let kd = \<lparr>kd_name = dname, kd_rawname = rawname, kd_device = dev, kd_vnode = vnode, kd_fs = fs\<rparr>;
                    vol = (if fs \<noteq> 0 then volname E fs s else None)
           in if badnames E (Some dname) rawname vol s then Err EEXIST s
              else if \<not> da_array A then Err ENOMEM s
              else Ret () (s\<lparr>knowndevs := knowndevs s @ [kd]\<rparr>)))"

definition vfs_adddev :: "vfsenv \<Rightarrow> doadd_env \<Rightarrow> byte list \<Rightarrow> vaddr \<Rightarrow> bool \<Rightarrow> sys \<Rightarrow> unit sysres" where
  "vfs_adddev E A devname dev mountable s = vfs_doadd E A devname mountable dev 0 s"

definition vfs_addfs :: "vfsenv \<Rightarrow> doadd_env \<Rightarrow> byte list \<Rightarrow> vaddr \<Rightarrow> sys \<Rightarrow> unit sysres" where
  "vfs_addfs E A devname fs s = vfs_doadd E A devname False 0 fs s"

definition findmount :: "byte list \<Rightarrow> sys \<Rightarrow> nat option" where
  "findmount devname s = first_index (\<lambda>kd. kd_rawname kd \<noteq> None \<and> kd_name kd = devname) (knowndevs s)"

definition set_kd_fs :: "nat \<Rightarrow> vaddr \<Rightarrow> sys \<Rightarrow> sys" where
  "set_kd_fs i fs s = s\<lparr>knowndevs := (knowndevs s)[i := (knowndevs s ! i)\<lparr>kd_fs := fs\<rparr>]\<rparr>"

definition vfs_mount :: "byte list \<Rightarrow> (vaddr \<Rightarrow> sys \<Rightarrow> vaddr sysres) \<Rightarrow> sys \<Rightarrow> unit sysres" where
  "vfs_mount devname mountfunc s =
     (case findmount devname s of
        None \<Rightarrow> Err ENODEV s
      | Some i \<Rightarrow>
          let kd = knowndevs s ! i
          in if kd_fs kd \<noteq> 0 then Err EBUSY s
             else if kd_device kd = 0 then Panic
             else kbind (mountfunc (kd_device kd) s) (\<lambda>fs s. if fs = 0 then Panic else Ret () (set_kd_fs i fs s)))"

definition vfs_unmount :: "vfsenv \<Rightarrow> byte list \<Rightarrow> sys \<Rightarrow> unit sysres" where
  "vfs_unmount E devname s =
     (case findmount devname s of
        None \<Rightarrow> Err ENODEV s
      | Some i \<Rightarrow>
          let kd = knowndevs s ! i; fs = kd_fs kd
          in if fs = 0 then Err EINVAL s
             else if kd_device kd = 0 then Panic
             else kbind (fo_sync (ve_fs E fs) fs s) (\<lambda>_ s.
               kbind (fo_unmount (ve_fs E fs) fs s) (\<lambda>_ s. Ret () (set_kd_fs i 0 s))))"

text \<open>
  \<^verbatim>\<open>vfs_unmountall\<close>: the result of an operation is examined, not passed on. \<open>attempt\<close> gives whether it
  succeeded. A file system whose second sync fails, or whose unmount fails, is left mounted.
\<close>

fun attempt :: "unit sysres \<Rightarrow> bool sysres" where
  "attempt (Ret _ s) = Ret True s"
| "attempt (Err _ s) = Ret False s"
| "attempt Panic = Panic"
| "attempt Undef = Undef"

definition unmount_one :: "vfsenv \<Rightarrow> nat \<Rightarrow> sys \<Rightarrow> unit sysres" where
  "unmount_one E i s =
     (let kd = knowndevs s ! i; fs = kd_fs kd; sync = (\<lambda>s. attempt (fo_sync (ve_fs E fs) fs s))
      in if kd_rawname kd = None \<or> fs = 0 then Ret () s
         else kbind (sync s) (\<lambda>ok s.
           kbind (if ok then Ret True s else sync s) (\<lambda>ok s.
             if \<not> ok then Ret () s
             else kbind (attempt (fo_unmount (ve_fs E fs) fs s)) (\<lambda>ok s.
               if \<not> ok then Ret () s else Ret () (set_kd_fs i 0 s)))))"

primrec unmount_from :: "vfsenv \<Rightarrow> nat \<Rightarrow> nat \<Rightarrow> sys \<Rightarrow> unit sysres" where
  "unmount_from E 0 i s = Ret () s"
| "unmount_from E (Suc n) i s = kbind (unmount_one E i s) (\<lambda>_ s. unmount_from E n (Suc i) s)"

definition vfs_unmountall :: "vfsenv \<Rightarrow> sys \<Rightarrow> unit sysres" where
  "vfs_unmountall E s = unmount_from E (length (knowndevs s)) 0 s"

section \<open>The current directory, \<^verbatim>\<open>vfscwd.c\<close>\<close>

definition set_cwd :: "vaddr \<Rightarrow> sys \<Rightarrow> unit sysres" where
  "set_cwd dir s = on_kernel (\<lambda>k. set_thread (curthread k) (\<lambda>th. th\<lparr>t_cwd := dir\<rparr>) k) s"

definition vfs_getcurdir :: "sys \<Rightarrow> vaddr sysres" where
  "vfs_getcurdir s =
     deref (cur_proc s) (\<lambda>th.
       if t_cwd th \<noteq> 0 then kbind (VOP_INCREF (t_cwd th) s) (\<lambda>_ s. Ret (t_cwd th) s) else Err ENOENT s)"

definition S_ISDIR :: "int \<Rightarrow> bool" where
  "S_ISDIR mode \<longleftrightarrow> mode AND 28672 = S_IFDIR"

definition vfs_setcurdir :: "vfsenv \<Rightarrow> vaddr \<Rightarrow> sys \<Rightarrow> unit sysres" where
  "vfs_setcurdir E dir s =
     kbind (with_ops E False dir s (\<lambda>ops. vo_gettype ops dir s)) (\<lambda>vtype s.
       if \<not> S_ISDIR vtype then Err ENOTDIR s
       else kbind (VOP_INCREF dir s) (\<lambda>_ s.
         deref (cur_proc s) (\<lambda>th.
           kbind (set_cwd dir s) (\<lambda>_ s. if t_cwd th \<noteq> 0 then VOP_DECREF E (t_cwd th) s else Ret () s))))"

definition vfs_clearcurdir :: "vfsenv \<Rightarrow> sys \<Rightarrow> unit sysres" where
  "vfs_clearcurdir E s =
     deref (cur_proc s) (\<lambda>th.
       kbind (set_cwd 0 s) (\<lambda>_ s. if t_cwd th \<noteq> 0 then VOP_DECREF E (t_cwd th) s else Ret () s))"

section \<open>Paths, \<^verbatim>\<open>vfslookup.c\<close>\<close>

definition colon :: byte where "colon = 58"
definition slash :: byte where "slash = 47"

text \<open>The path relative to the vnode at which the translation starts.\<close>

definition skip_slashes :: "byte list \<Rightarrow> byte list" where
  "skip_slashes path = dropWhile (\<lambda>c. c = slash) path"

text \<open>How a path begins: relative to the current directory, to a device, to the boot file system, or to the current file system.\<close>

datatype path_start = Relative | Device "byte list" | Boot_fs | Current_fs

definition split_path :: "byte list \<Rightarrow> path_start \<times> byte list" where
  "split_path path =
     (case first_index (\<lambda>c. c = colon \<or> c = slash) path of
        None \<Rightarrow> (Relative, path)
      | Some i \<Rightarrow>
          if path ! i = slash \<and> i \<noteq> 0 then (Relative, path)
          else if path ! i = colon \<and> i > 0 then (Device (take i path), skip_slashes (drop (i + 1) path))
          else if path ! 0 = slash then (Boot_fs, skip_slashes (drop 1 path))
          else (Current_fs, skip_slashes (drop 1 path)))"

definition getdevice :: "vfsenv \<Rightarrow> byte list \<Rightarrow> sys \<Rightarrow> (vaddr \<times> byte list) sysres" where
  "getdevice E path s =
     (case split_path path of (start, subpath) \<Rightarrow>
        case start of
          Relative \<Rightarrow> kbind (vfs_getcurdir s) (\<lambda>vn s. Ret (vn, subpath) s)
        | Device name \<Rightarrow> kbind (vfs_getroot E name s) (\<lambda>vn s. Ret (vn, subpath) s)
        | Boot_fs \<Rightarrow>
            if bootfs_vnode s = 0 then Err ENOENT s
            else kbind (VOP_INCREF (bootfs_vnode s) s) (\<lambda>_ s. Ret (bootfs_vnode s, subpath) s)
        | Current_fs \<Rightarrow>
            kbind (vfs_getcurdir s) (\<lambda>vn s.
              deref (vnodes (krn s) vn) (\<lambda>v.
                if vn_fs v = 0 then Panic
                else kbind (fo_getroot (ve_fs E (vn_fs v)) (vn_fs v) s) (\<lambda>root s.
                  kbind (VOP_DECREF E vn s) (\<lambda>_ s. Ret (root, subpath) s)))))"

definition vfs_lookparent :: "vfsenv \<Rightarrow> byte list \<Rightarrow> nat \<Rightarrow> sys \<Rightarrow> (vaddr \<times> byte list) sysres" where
  "vfs_lookparent E path buflen s =
     kbind (getdevice E path s) (\<lambda>(startvn, path) s.
       releasing E startvn
         (if path = [] then Err EINVAL s
          else with_ops E False startvn s (\<lambda>ops. vo_lookparent ops startvn path buflen s)))"

definition vfs_lookup :: "vfsenv \<Rightarrow> byte list \<Rightarrow> sys \<Rightarrow> vaddr sysres" where
  "vfs_lookup E path s =
     kbind (getdevice E path s) (\<lambda>(startvn, path) s.
       if path = [] then Ret startvn s
       else releasing E startvn (with_ops E False startvn s (\<lambda>ops. vo_lookup ops startvn path s)))"

definition vfs_chdir :: "vfsenv \<Rightarrow> byte list \<Rightarrow> sys \<Rightarrow> unit sysres" where
  "vfs_chdir E path s = kbind (vfs_lookup E path s) (\<lambda>vn s. releasing E vn (vfs_setcurdir E vn s))"

definition change_bootfs :: "vfsenv \<Rightarrow> vaddr \<Rightarrow> sys \<Rightarrow> unit sysres" where
  "change_bootfs E newguy s =
     (let oldguy = bootfs_vnode s; s = s\<lparr>bootfs_vnode := newguy\<rparr>
      in if oldguy \<noteq> 0 then VOP_DECREF E oldguy s else Ret () s)"

definition NAME_MAX :: nat where
  "NAME_MAX = 255"

definition vfs_setbootfs :: "vfsenv \<Rightarrow> byte list \<Rightarrow> sys \<Rightarrow> unit sysres" where
  "vfs_setbootfs E fsname s =
     (let tmp = take (NAME_MAX - 1) fsname;
          go = (\<lambda>tmp. kbind (vfs_chdir E tmp s) (\<lambda>_ s. kbind (vfs_getcurdir s) (\<lambda>newguy s. change_bootfs E newguy s)))
      in case first_index (\<lambda>c. c = colon) tmp of
           Some i \<Rightarrow> if length (drop i tmp) > 0 then Err EINVAL s else go tmp
         | None \<Rightarrow> go (tmp @ [colon]))"

definition vfs_clearbootfs :: "vfsenv \<Rightarrow> sys \<Rightarrow> unit sysres" where
  "vfs_clearbootfs E s = change_bootfs E 0 s"

text \<open>\<^verbatim>\<open>vfs_getcwd\<close>: the volume or device, a colon, and the path within the file system.\<close>

fun releasing_io :: "vfsenv \<Rightarrow> vaddr \<Rightarrow> unit uiores \<Rightarrow> unit uiores" where
  "releasing_io E vn (Ret v (u, s)) = in_part (\<lambda>s. (u, s)) (VOP_DECREF E vn s)"
| "releasing_io E vn (Err e (u, s)) = kbind (in_part (\<lambda>s. (u, s)) (VOP_DECREF E vn s)) (\<lambda>_ us. Err e us)"
| "releasing_io E vn Panic = Panic"
| "releasing_io E vn Undef = Undef"

definition vfs_getcwd :: "vfsenv \<Rightarrow> uio \<times> sys \<Rightarrow> unit uiores" where
  "vfs_getcwd E us =
     (case us of (u, s) \<Rightarrow>
        if uio_op u \<noteq> UIO_READ then Panic
        else kbind (in_part (\<lambda>s. (u, s)) (vfs_getcurdir s)) (\<lambda>cwd (u, s).
          deref (vnodes (krn s) cwd) (\<lambda>v.
            if vn_fs v = 0 then Panic
            else kbind (in_part (\<lambda>s. (u, s)) (case volname E (vn_fs v) s of None \<Rightarrow> vfs_getdevname (vn_fs v) s | Some name \<Rightarrow> Ret (Some name) s))
              (\<lambda>name us.
                case name of
                  None \<Rightarrow> Panic
                | Some name \<Rightarrow>
                    releasing_io E cwd
                      (kbind (uiomove name 0 (length name) us) (\<lambda>_ us.
                       kbind (uiomove [colon] 0 1 us) (\<lambda>_ us. with_ops E False cwd (snd us) (\<lambda>ops. vo_namefile ops cwd us))))))))"

section \<open>Operations on paths, \<^verbatim>\<open>vfspath.c\<close>\<close>

definition access_mode :: "32 word \<Rightarrow> bool option" where
  "access_mode openflags =
     (let how = openflags AND O_ACCMODE
      in if how = O_RDONLY then Some False else if how = O_WRONLY \<or> how = O_RDWR then Some True else None)"

definition open_vnode :: "vfsenv \<Rightarrow> byte list \<Rightarrow> 32 word \<Rightarrow> sys \<Rightarrow> vaddr sysres" where
  "open_vnode E path openflags s =
     (if openflags AND O_CREAT \<noteq> 0
      then kbind (vfs_lookparent E path (NAME_MAX + 1) s) (\<lambda>(dir, name) s.
        releasing E dir (with_ops E False dir s (\<lambda>ops. vo_creat ops dir name (openflags AND O_EXCL \<noteq> 0) s)))
      else vfs_lookup E path s)"

definition open_trunc :: "vfsenv \<Rightarrow> bool \<Rightarrow> 32 word \<Rightarrow> vaddr \<Rightarrow> sys \<Rightarrow> unit sysres" where
  "open_trunc E canwrite openflags vn s =
     (if openflags AND O_TRUNC \<noteq> 0
      then if canwrite then with_ops E False vn s (\<lambda>ops. vo_truncate ops vn 0 s) else Err EINVAL s
      else Ret () s)"

definition vfs_open :: "vfsenv \<Rightarrow> byte list \<Rightarrow> 32 word \<Rightarrow> sys \<Rightarrow> vaddr sysres" where
  "vfs_open E path openflags s =
     (case access_mode openflags of
        None \<Rightarrow> Err EINVAL s
      | Some canwrite \<Rightarrow>
          kbind (open_vnode E path openflags s) (\<lambda>vn s.
            if vn = 0 then Panic
            else case with_ops E False vn s (\<lambda>ops. vo_open ops vn openflags s) of
              Err e s \<Rightarrow> kbind (VOP_DECREF E vn s) (\<lambda>_ s. Err e s)
            | Ret _ s \<Rightarrow>
                kbind (VOP_INCOPEN vn s) (\<lambda>_ s.
                  case open_trunc E canwrite openflags vn s of
                    Ret _ s \<Rightarrow> Ret vn s
                  | Err e s \<Rightarrow> kbind (VOP_DECOPEN E vn s) (\<lambda>_ s. kbind (VOP_DECREF E vn s) (\<lambda>_ s. Err e s))
                  | Panic \<Rightarrow> Panic
                  | Undef \<Rightarrow> Undef)
            | Panic \<Rightarrow> Panic
            | Undef \<Rightarrow> Undef))"

definition in_parent :: "vfsenv \<Rightarrow> byte list \<Rightarrow> (vnode_ops \<Rightarrow> vaddr \<Rightarrow> byte list \<Rightarrow> sys \<Rightarrow> unit sysres) \<Rightarrow> sys \<Rightarrow> unit sysres" where
  "in_parent E path f s =
     kbind (vfs_lookparent E path (NAME_MAX + 1) s) (\<lambda>(dir, name) s. releasing E dir (with_ops E False dir s (\<lambda>ops. f ops dir name s)))"

definition vfs_remove :: "vfsenv \<Rightarrow> byte list \<Rightarrow> sys \<Rightarrow> unit sysres" where
  "vfs_remove E path s = in_parent E path vo_remove s"

definition vfs_mkdir :: "vfsenv \<Rightarrow> byte list \<Rightarrow> sys \<Rightarrow> unit sysres" where
  "vfs_mkdir E path s = in_parent E path vo_mkdir s"

definition vfs_rmdir :: "vfsenv \<Rightarrow> byte list \<Rightarrow> sys \<Rightarrow> unit sysres" where
  "vfs_rmdir E path s = in_parent E path vo_rmdir s"

definition vfs_symlink :: "vfsenv \<Rightarrow> byte list \<Rightarrow> byte list \<Rightarrow> sys \<Rightarrow> unit sysres" where
  "vfs_symlink E contents path s = in_parent E path (\<lambda>ops dir name. vo_symlink ops dir name contents) s"

definition vfs_rename :: "vfsenv \<Rightarrow> byte list \<Rightarrow> byte list \<Rightarrow> sys \<Rightarrow> unit sysres" where
  "vfs_rename E oldpath newpath s =
     kbind (vfs_lookparent E oldpath (NAME_MAX + 1) s) (\<lambda>(olddir, oldname) s.
       releasing E olddir
         (kbind (vfs_lookparent E newpath (NAME_MAX + 1) s) (\<lambda>(newdir, newname) s.
           releasing E newdir
             (deref (vnodes (krn s) olddir) (\<lambda>ov. deref (vnodes (krn s) newdir) (\<lambda>nv.
               if vn_fs ov = 0 \<or> vn_fs nv = 0 \<or> vn_fs ov \<noteq> vn_fs nv then Err EXDEV s
               else with_ops E False olddir s (\<lambda>ops. vo_rename ops olddir oldname newdir newname s)))))))"

definition vfs_link :: "vfsenv \<Rightarrow> byte list \<Rightarrow> byte list \<Rightarrow> sys \<Rightarrow> unit sysres" where
  "vfs_link E oldpath newpath s =
     kbind (vfs_lookup E oldpath s) (\<lambda>oldfile s.
       releasing E oldfile
         (kbind (vfs_lookparent E newpath (NAME_MAX + 1) s) (\<lambda>(newdir, newname) s.
           releasing E newdir
             (deref (vnodes (krn s) oldfile) (\<lambda>ov. deref (vnodes (krn s) newdir) (\<lambda>nv.
               if vn_fs ov = 0 \<or> vn_fs nv = 0 \<or> vn_fs ov \<noteq> vn_fs nv then Err EXDEV s
               else with_ops E False newdir s (\<lambda>ops. vo_link ops newdir newname oldfile s)))))))"

definition vfs_readlink :: "vfsenv \<Rightarrow> byte list \<Rightarrow> uio \<times> sys \<Rightarrow> unit uiores" where
  "vfs_readlink E path us =
     (case us of (u, s) \<Rightarrow>
        kbind (in_part (\<lambda>s. (u, s)) (vfs_lookup E path s)) (\<lambda>vn us.
          releasing_io E vn (with_ops E False vn (snd us) (\<lambda>ops. vo_readlink ops vn us))))"

end
