(* ===== verification/KDevice.thy ===== *)
theory KDevice
  imports KVfs
begin

text \<open>
  Devices as files: the vnode operations of \<^verbatim>\<open>kern/fs/vfs/device.c\<close>, the null device of \<^verbatim>\<open>devnull.c\<close> and the
  console, \<^verbatim>\<open>kern/dev/generic/console.c\<close>. The device structures are an argument, indexed by their
  addresses. Sending a character to the device that carries the console appends it to \<open>con_sent\<close>.
\<close>

section \<open>Vnode operations\<close>

record device =
  d_open :: "32 word \<Rightarrow> sys \<Rightarrow> unit sysres"
  d_close :: "sys \<Rightarrow> unit sysres"
  d_io :: "uio \<times> sys \<Rightarrow> unit uiores"
  d_ioctl :: "int \<Rightarrow> 32 word \<Rightarrow> sys \<Rightarrow> unit sysres"
  d_blocks :: "32 word"
  d_blocksize :: "32 word"

type_synonym devices = "vaddr \<Rightarrow> device"

definition with_device :: "devices \<Rightarrow> vaddr \<Rightarrow> sys \<Rightarrow> (device \<Rightarrow> ('v, 't) result) \<Rightarrow> ('v, 't) result" where
  "with_device D vn s f = deref (vnodes (krn s) vn) (\<lambda>v. f (D (vn_data v)))"

definition dev_open :: "devices \<Rightarrow> vaddr \<Rightarrow> 32 word \<Rightarrow> sys \<Rightarrow> unit sysres" where
  "dev_open D v flags s =
     with_device D v s (\<lambda>d.
       if flags AND (O_CREAT OR O_TRUNC OR O_EXCL OR O_APPEND) \<noteq> 0 then Err EINVAL s else d_open d flags s)"

definition dev_close :: "devices \<Rightarrow> vaddr \<Rightarrow> sys \<Rightarrow> unit sysres" where
  "dev_close D v s = with_device D v s (\<lambda>d. d_close d s)"

definition dev_reclaim :: "vaddr \<Rightarrow> sys \<Rightarrow> unit sysres" where
  "dev_reclaim v s = Ret () s"

definition dev_read :: "devices \<Rightarrow> vaddr \<Rightarrow> uio \<times> sys \<Rightarrow> unit uiores" where
  "dev_read D v us = with_device D v (snd us) (\<lambda>d. if uio_op (fst us) \<noteq> UIO_READ then Panic else d_io d us)"

definition null_io :: "vaddr \<Rightarrow> uio \<times> sys \<Rightarrow> unit uiores" where
  "null_io v us = Err EINVAL us"

definition dev_write :: "devices \<Rightarrow> vaddr \<Rightarrow> uio \<times> sys \<Rightarrow> unit uiores" where
  "dev_write D v us = with_device D v (snd us) (\<lambda>d. if uio_op (fst us) \<noteq> UIO_WRITE then Panic else d_io d us)"

definition dev_ioctl :: "devices \<Rightarrow> vaddr \<Rightarrow> int \<Rightarrow> 32 word \<Rightarrow> sys \<Rightarrow> unit sysres" where
  "dev_ioctl D v opn data s = with_device D v s (\<lambda>d. d_ioctl d opn data s)"

definition dev_gettype :: "devices \<Rightarrow> vaddr \<Rightarrow> sys \<Rightarrow> int sysres" where
  "dev_gettype D v s = with_device D v s (\<lambda>d. Ret (if d_blocks d > 0 then S_IFBLK else S_IFCHR) s)"

text \<open>The mode, the link count, the size and the number of blocks.\<close>

definition dev_stat :: "devices \<Rightarrow> vaddr \<Rightarrow> sys \<Rightarrow> (int \<times> int \<times> int \<times> int) sysres" where
  "dev_stat D v s =
     with_device D v s (\<lambda>d. kbind (dev_gettype D v s) (\<lambda>mode s.
       Ret (mode, 1, if d_blocks d > 0 then sint (d_blocks d * d_blocksize d) else 0, uint (d_blocks d)) s))"

text \<open>The position is signed, the block size and the number of blocks are not, so the divisions are unsigned.\<close>

definition dev_tryseek :: "devices \<Rightarrow> vaddr \<Rightarrow> int \<Rightarrow> sys \<Rightarrow> unit sysres" where
  "dev_tryseek D v pos s =
     with_device D v s (\<lambda>d.
       if d_blocks d > 0
       then if word_of_int pos mod d_blocksize d \<noteq> 0 then Err EINVAL s
            else if pos < 0 then Err EINVAL s
            else if word_of_int pos div d_blocksize d \<ge> d_blocks d then Err EINVAL s
            else Ret () s
       else Err ESPIPE s)"

definition null_fsync :: "vaddr \<Rightarrow> sys \<Rightarrow> unit sysres" where
  "null_fsync v s = Ret () s"

definition dev_mmap :: "vaddr \<Rightarrow> sys \<Rightarrow> unit sysres" where
  "dev_mmap v s = Err EUNIMP s"

definition dev_truncate :: "devices \<Rightarrow> vaddr \<Rightarrow> int \<Rightarrow> sys \<Rightarrow> unit sysres" where
  "dev_truncate D v len s =
     with_device D v s (\<lambda>d. if d_blocks d > 0 \<and> sint (d_blocks d * d_blocksize d) = len then Ret () s else Err EINVAL s)"

definition dev_namefile :: "vaddr \<Rightarrow> uio \<times> sys \<Rightarrow> unit uiores" where
  "dev_namefile v us = Ret () us"

definition null_creat :: "vaddr \<Rightarrow> byte list \<Rightarrow> bool \<Rightarrow> sys \<Rightarrow> vaddr sysres" where
  "null_creat v name excl s = Err ENOTDIR s"

definition null_symlink :: "vaddr \<Rightarrow> byte list \<Rightarrow> byte list \<Rightarrow> sys \<Rightarrow> unit sysres" where
  "null_symlink v contents name s = Err ENOTDIR s"

definition null_nameop :: "vaddr \<Rightarrow> byte list \<Rightarrow> sys \<Rightarrow> unit sysres" where
  "null_nameop v name s = Err ENOTDIR s"

definition null_link :: "vaddr \<Rightarrow> byte list \<Rightarrow> vaddr \<Rightarrow> sys \<Rightarrow> unit sysres" where
  "null_link v name file s = Err ENOTDIR s"

definition null_rename :: "vaddr \<Rightarrow> byte list \<Rightarrow> vaddr \<Rightarrow> byte list \<Rightarrow> sys \<Rightarrow> unit sysres" where
  "null_rename v n1 v2 n2 s = Err ENOTDIR s"

definition dev_lookup :: "vaddr \<Rightarrow> byte list \<Rightarrow> sys \<Rightarrow> vaddr sysres" where
  "dev_lookup dir pathname s =
     (if length pathname > 0 then Err ENOENT s else kbind (VOP_INCREF dir s) (\<lambda>_ s. Ret dir s))"

definition dev_lookparent :: "vaddr \<Rightarrow> byte list \<Rightarrow> nat \<Rightarrow> sys \<Rightarrow> (vaddr \<times> byte list) sysres" where
  "dev_lookparent dir pathname buflen s = Err ENOTDIR s"

definition dev_vnode_ops :: "devices \<Rightarrow> vnode_ops" where
  "dev_vnode_ops D =
     \<lparr>vo_magic = VOP_MAGIC, vo_open = dev_open D, vo_close = dev_close D, vo_reclaim = dev_reclaim, vo_read = dev_read D,
      vo_readlink = null_io, vo_getdirentry = null_io, vo_write = dev_write D, vo_ioctl = dev_ioctl D, vo_stat = dev_stat D,
      vo_gettype = dev_gettype D, vo_tryseek = dev_tryseek D, vo_fsync = null_fsync, vo_mmap = dev_mmap, vo_truncate = dev_truncate D,
      vo_namefile = dev_namefile, vo_creat = null_creat, vo_symlink = null_symlink, vo_mkdir = null_nameop, vo_link = null_link,
      vo_remove = null_nameop, vo_rmdir = null_nameop, vo_rename = null_rename, vo_lookup = dev_lookup, vo_lookparent = dev_lookparent\<rparr>"

section \<open>The null device\<close>

definition nullopen :: "32 word \<Rightarrow> sys \<Rightarrow> unit sysres" where
  "nullopen openflags s = Ret () s"

definition nullclose :: "sys \<Rightarrow> unit sysres" where
  "nullclose s = Ret () s"

definition nullio :: "uio \<times> sys \<Rightarrow> unit uiores" where
  "nullio us = Ret () (if uio_op (fst us) = UIO_WRITE then ((fst us)\<lparr>uio_resid := 0\<rparr>, snd us) else us)"

definition nullioctl :: "int \<Rightarrow> 32 word \<Rightarrow> sys \<Rightarrow> unit sysres" where
  "nullioctl opn data s = Err EINVAL s"

definition null_device :: device where
  "null_device = \<lparr>d_open = nullopen, d_close = nullclose, d_io = nullio, d_ioctl = nullioctl, d_blocks = 0, d_blocksize = 1\<rparr>"

text \<open>\<open>dev\<close> is where the structure is allocated; any failure stops the system.\<close>

definition devnull_create :: "vfsenv \<Rightarrow> doadd_env \<Rightarrow> vaddr \<Rightarrow> sys \<Rightarrow> unit sysres" where
  "devnull_create E A dev s =
     (if dev = 0 then Panic
      else case vfs_adddev E A [110, 117, 108, 108] dev False s of Ret _ s \<Rightarrow> Ret () s | Err e s \<Rightarrow> Panic | Panic \<Rightarrow> Panic | Undef \<Rightarrow> Undef)"

section \<open>The console\<close>

text \<open>
  What the console is given: \<open>ce_rwait\<close> and \<open>ce_wwait\<close> are \<^verbatim>\<open>P\<close> on its two semaphores with everything that
  happens until they return, interrupts from the device and other threads included; \<open>ce_lkwait\<close> is in the same way
  \<^verbatim>\<open>lock_acquire\<close> of a lock that another thread holds.
\<close>

record conenv =
  ce_rwait :: "sys \<Rightarrow> unit sysres"
  ce_wwait :: "sys \<Rightarrow> unit sysres"
  ce_lkwait :: "vaddr \<Rightarrow> sys \<Rightarrow> unit sysres"
  ce_km :: "vaddr allocator"

definition DELAYBUFSIZE :: nat where
  "DELAYBUFSIZE = 1024"

definition putch_delayed :: "byte \<Rightarrow> sys \<Rightarrow> unit sysres" where
  "putch_delayed ch s =
     (if \<not> length (delayed_outbuf s) < DELAYBUFSIZE then Panic else Ret () (s\<lparr>delayed_outbuf := delayed_outbuf s @ [ch]\<rparr>))"

definition putch_polled :: "byte \<Rightarrow> sys \<Rightarrow> unit sysres" where
  "putch_polled ch s = Ret () (s\<lparr>con_sent := con_sent s @ [ch]\<rparr>)"

definition putch_intr :: "conenv \<Rightarrow> byte \<Rightarrow> sys \<Rightarrow> unit sysres" where
  "putch_intr C ch s = kbind (ce_wwait C s) (\<lambda>_ s. Ret () (s\<lparr>con_sent := con_sent s @ [ch]\<rparr>))"

definition getch_intr :: "conenv \<Rightarrow> sys \<Rightarrow> int sysres" where
  "getch_intr C s = kbind (ce_rwait C s) (\<lambda>_ s. Ret (con_gotchar s) s)"

definition con_input :: "conenv \<Rightarrow> int \<Rightarrow> sys \<Rightarrow> unit sysres" where
  "con_input C ch s = on_kernel (V (ce_km C) (con_rsem s)) (s\<lparr>con_gotchar := ch\<rparr>)"

definition con_start :: "conenv \<Rightarrow> sys \<Rightarrow> unit sysres" where
  "con_start C s = on_kernel (V (ce_km C) (con_wsem s)) s"

definition putch :: "conenv \<Rightarrow> byte \<Rightarrow> sys \<Rightarrow> unit sysres" where
  "putch C ch s =
     (if the_console s = 0 then putch_delayed ch s
      else if in_interrupt (krn s) \<noteq> 0 \<or> curspl (krn s) > 0 then putch_polled ch s
      else putch_intr C ch s)"

fun putch_all :: "conenv \<Rightarrow> byte list \<Rightarrow> sys \<Rightarrow> unit sysres" where
  "putch_all C [] s = Ret () s"
| "putch_all C (ch # chs) s = kbind (putch C ch s) (\<lambda>_ s. putch_all C chs s)"

definition flush_delay_buf :: "conenv \<Rightarrow> sys \<Rightarrow> unit sysres" where
  "flush_delay_buf C s = kbind (putch_all C (delayed_outbuf s) s) (\<lambda>_ s. Ret () (s\<lparr>delayed_outbuf := []\<rparr>))"

definition getch :: "conenv \<Rightarrow> sys \<Rightarrow> int sysres" where
  "getch C s =
     (if the_console s = 0 then Panic
      else if in_interrupt (krn s) \<noteq> 0 \<or> curspl (krn s) \<noteq> 0 then Panic
      else getch_intr C s)"

definition con_open :: "32 word \<Rightarrow> sys \<Rightarrow> unit sysres" where
  "con_open openflags s = Ret () s"

definition con_close :: "sys \<Rightarrow> unit sysres" where
  "con_close s = Ret () s"

text \<open>One round of the loop of \<^verbatim>\<open>con_io\<close>; the value says whether the loop goes on.\<close>

definition con_read1 :: "conenv \<Rightarrow> uio \<times> sys \<Rightarrow> bool uiores" where
  "con_read1 C us =
     kbind (in_part (\<lambda>s. (fst us, s)) (getch C (snd us))) (\<lambda>c us.
       let ch = (if word_of_int c = (13 :: byte) then 10 else word_of_int c)
       in kbind (uiomove [ch] 0 1 us) (\<lambda>_ us. Ret (ch \<noteq> 10) us))"

definition con_write1 :: "conenv \<Rightarrow> uio \<times> sys \<Rightarrow> bool uiores" where
  "con_write1 C us =
     kbind (uiomove [0] 0 1 us) (\<lambda>ptr us.
       let ch = ptr ! 0
       in kbind (in_part (\<lambda>s. (fst us, s)) (kbind (if ch = 10 then putch C 13 (snd us) else Ret () (snd us)) (\<lambda>_ s. putch C ch s)))
            (\<lambda>_ us. Ret True us))"

text \<open>Every round moves one byte or ends the loop, so the number of bytes is enough fuel.\<close>

primrec con_io_loop :: "conenv \<Rightarrow> nat \<Rightarrow> uio \<times> sys \<Rightarrow> unit uiores" where
  "con_io_loop C 0 us = (if uio_resid (fst us) > 0 then Undef else Ret () us)"
| "con_io_loop C (Suc n) us =
     (if uio_resid (fst us) > 0
      then kbind (if uio_op (fst us) = UIO_READ then con_read1 C us else con_write1 C us)
             (\<lambda>more us. if more then con_io_loop C n us else Ret () us)
      else Ret () us)"

definition con_acquire :: "conenv \<Rightarrow> vaddr \<Rightarrow> sys \<Rightarrow> unit sysres" where
  "con_acquire C lk s =
     deref (locks (krn s) lk) (\<lambda>l. if lk_held l = 1 then ce_lkwait C lk s else on_kernel (lock_acquire (ce_km C) [] lk) s)"

definition con_io :: "conenv \<Rightarrow> uio \<times> sys \<Rightarrow> unit uiores" where
  "con_io C us =
     (let lk = (if uio_op (fst us) = UIO_READ then con_userlock_read (snd us) else con_userlock_write (snd us));
          release = (\<lambda>us. in_part (\<lambda>s. (fst us, s)) (on_kernel (lock_release (ce_km C) lk) (snd us)))
      in if lk = 0 then Panic
         else kbind (in_part (\<lambda>s. (fst us, s)) (con_acquire C lk (snd us))) (\<lambda>_ us.
           case con_io_loop C (uio_resid (fst us)) us of
             Ret _ us \<Rightarrow> release us
           | Err e us \<Rightarrow> kbind (release us) (\<lambda>_ us. Err e us)
           | Panic \<Rightarrow> Panic
           | Undef \<Rightarrow> Undef))"

definition con_ioctl :: "int \<Rightarrow> 32 word \<Rightarrow> sys \<Rightarrow> unit sysres" where
  "con_ioctl opn data s = Err EINVAL s"

definition con_device :: "conenv \<Rightarrow> device" where
  "con_device C = \<lparr>d_open = con_open, d_close = con_close, d_io = con_io C, d_ioctl = con_ioctl, d_blocks = 0, d_blocksize = 1\<rparr>"

definition CON :: "byte list" where
  "CON = [99, 111, 110]"

definition attach_console_to_vfs :: "vfsenv \<Rightarrow> doadd_env \<Rightarrow> vaddr \<Rightarrow> sys \<Rightarrow> unit sysres" where
  "attach_console_to_vfs E A dev s = (if dev = 0 then Err ENOMEM s else vfs_adddev E A CON dev False s)"

text \<open>The addresses that \<^verbatim>\<open>sem_create\<close>, \<^verbatim>\<open>lock_create\<close> and \<^verbatim>\<open>kmalloc\<close> find for the console, 0 for none.\<close>

record con_alloc =
  ca_rsem :: vaddr
  ca_wsem :: vaddr
  ca_rlk :: vaddr
  ca_wlk :: vaddr
  ca_dev :: vaddr

definition config_con :: "conenv \<Rightarrow> vfsenv \<Rightarrow> doadd_env \<Rightarrow> con_alloc \<Rightarrow> vaddr \<Rightarrow> int \<Rightarrow> sys \<Rightarrow> unit sysres" where
  "config_con C E A B cs unit s =
     (if unit > 0 then (if the_console s = 0 then Panic else Err ENODEV s)
      else if the_console s \<noteq> 0 then Panic
      else kbind (on_kernel (sem_create (ca_rsem B) True ''console read'' 0) s) (\<lambda>rsem s.
        if rsem = 0 then Err ENOMEM s
        else kbind (on_kernel (sem_create (ca_wsem B) True ''console write'' 1) s) (\<lambda>wsem s.
        if wsem = 0 then kbind (on_kernel (sem_destroy rsem) s) (\<lambda>_ s. Err ENOMEM s)
        else kbind (on_kernel (lock_create (ca_rlk B) True 0 ''console-lock-read'') s) (\<lambda>rlk s.
        if rlk = 0 then kbind (on_kernel (sem_destroy rsem) s) (\<lambda>_ s. kbind (on_kernel (sem_destroy wsem) s) (\<lambda>_ s. Err ENOMEM s))
        else kbind (on_kernel (lock_create (ca_wlk B) True 0 ''console-lock-write'') s) (\<lambda>wlk s.
        if wlk = 0
        then kbind (on_kernel (lock_destroy rlk) s) (\<lambda>_ s. kbind (on_kernel (sem_destroy rsem) s) (\<lambda>_ s.
               kbind (on_kernel (sem_destroy wsem) s) (\<lambda>_ s. Err ENOMEM s)))
        else kbind (flush_delay_buf C (s\<lparr>con_rsem := rsem, con_wsem := wsem, con_gotchar := 0, the_console := cs,
                 con_userlock_read := rlk, con_userlock_write := wlk\<rparr>)) (\<lambda>_ s. attach_console_to_vfs E A (ca_dev B) s))))))"

section \<open>Setting up the file system layer\<close>

text \<open>\<open>lk\<close> and \<open>klk\<close> are the addresses of the two locks, 0 for none; \<open>arr\<close> says whether \<^verbatim>\<open>array_create\<close> succeeds.\<close>

definition vfs_initbootfs :: "vaddr \<Rightarrow> sys \<Rightarrow> unit sysres" where
  "vfs_initbootfs lk s =
     kbind (on_kernel (lock_create lk True 0 ''bootfs_lock'') s) (\<lambda>l s. if l = 0 then Panic else Ret () s)"

definition vfs_bootstrap :: "vfsenv \<Rightarrow> doadd_env \<Rightarrow> bool \<Rightarrow> vaddr \<Rightarrow> vaddr \<Rightarrow> vaddr \<Rightarrow> sys \<Rightarrow> unit sysres" where
  "vfs_bootstrap E A arr klk lk dev s =
     (if \<not> arr then Panic
      else kbind (on_kernel (lock_create klk True 0 ''knowndevs'') (s\<lparr>knowndevs := []\<rparr>)) (\<lambda>l s.
        if l = 0 then Panic
        else kbind (vfs_initbootfs lk s) (\<lambda>_ s. devnull_create E A dev s)))"

end
