(* ===== verification/KSyscall.thy ===== *)
theory KSyscall
  imports KMachine
begin

text \<open>
  System calls, \<^verbatim>\<open>kern/arch/mips/mips/syscall.c\<close>, with the loading of programs in \<^verbatim>\<open>kern/userprog/runprogram.c\<close>
  and \<^verbatim>\<open>loadelf.c\<close>, on the state of \<open>KMachine\<close>.

  What the calls reach outside these files is in the record \<open>sysenv\<close>: the allocator and interrupts of
  the thread system, the operations of vnodes, \<^verbatim>\<open>vfs_open\<close>, the clock, and \<open>se_clocksleep\<close>, which is a call
  \<^verbatim>\<open>clocksleep(1)\<close> together with everything other threads do until it returns.
\<close>

section \<open>Results and environment\<close>

text \<open>
  How a call ends: with an error number (0 for success) and the value of \<^verbatim>\<open>*retval\<close>; with the thread
  gone and another one running; or in user mode, with the given registers.
\<close>

datatype sysend = Sys_return int int | Sys_gone | Sys_user trapframe

record sysenv =
  se_km :: "vaddr allocator"
  se_irqs :: "irq list"
  se_close :: vop
  se_reclaim :: vop
  se_fork :: fork_env
  se_forkentry :: vaddr
  se_open :: "byte list \<Rightarrow> 32 word \<Rightarrow> sys \<Rightarrow> vaddr sysres"
  se_vop_read :: "vaddr \<Rightarrow> uio \<times> sys \<Rightarrow> (unit, uio \<times> sys) result"
  se_vop_write :: "vaddr \<Rightarrow> uio \<times> sys \<Rightarrow> (unit, uio \<times> sys) result"
  se_clocksleep :: "sys \<Rightarrow> unit sysres"
  se_gettime :: "sys \<Rightarrow> int \<times> 32 word"
  se_reboot :: "32 word \<Rightarrow> sys \<Rightarrow> sysend sysres"
  se_tfaddr :: vaddr
  se_view :: "kernel \<Rightarrow> bytes \<times> (32 word \<Rightarrow> bool) \<times> (32 word \<Rightarrow> bool)"

definition fails :: "errno \<Rightarrow> sys \<Rightarrow> sysend sysres" where
  "fails e s = Ret (Sys_return (errno_code e) (- 1)) s"

text \<open>An error of a routine becomes the result of the call.\<close>

fun or_fail :: "'v sysres \<Rightarrow> ('v \<Rightarrow> sys \<Rightarrow> sysend sysres) \<Rightarrow> sysend sysres" where
  "or_fail (Ret v s) f = f v s"
| "or_fail (Err e s) f = fails e s"
| "or_fail Panic f = Panic"
| "or_fail Undef f = Undef"

section \<open>Processes\<close>

definition sys_exit :: "sysenv \<Rightarrow> int \<Rightarrow> sys \<Rightarrow> sysend sysres" where
  "sys_exit E exitcode s =
     deref (cur_proc s) (\<lambda>th.
       kbind (on_kernel (proc_set (t_pid th) (\<lambda>p. p\<lparr>pi_exitCode := exitcode\<rparr>)) s) (\<lambda>_ s.
       kbind (on_kernel (thread_exit (se_km E) (se_irqs E) (se_close E) (se_reclaim E)) s) (\<lambda>_ s. Ret Sys_gone s)))"

text \<open>
  A store through a pointer that came from the user, without \<^verbatim>\<open>copyout\<close>. The result is false when the
  processor takes a fault. An address of the kernel's direct-mapped segment is not protected.
\<close>

definition store_int :: "32 word \<Rightarrow> 32 word \<Rightarrow> sys \<Rightarrow> bool sysres" where
  "store_int p w s =
     (if p AND 3 \<noteq> 0 then Ret False s
      else if p < USERTOP
      then (if \<forall>i \<in> set [0..<4]. um_writes s (p + of_nat i) then Ret True (s\<lparr>um_bytes := store_block p (be32 w) (um_bytes s)\<rparr>) else Ret False s)
      else if p < 0xa0000000 then Ret True (s\<lparr>krn := (krn s)\<lparr>kmem := (kmem (krn s))(p := w)\<rparr>\<rparr>)
      else Undef)"

text \<open>
  \<^verbatim>\<open>waitpid\<close>: the tests of the arguments in the order of the code, ending with the place of the child
  in the list of the parent, which is \<^verbatim>\<open>MAX_NUM_CHILD\<close> when it is not there.
\<close>

definition child_index :: "int \<Rightarrow> process_info \<Rightarrow> int" where
  "child_index pid p =
     (case first_index (\<lambda>x. x = pid) (take MAX_NUM_CHILD (pi_childIDs p)) of
        None \<Rightarrow> int MAX_NUM_CHILD | Some i \<Rightarrow> int i)"

definition waitpid_check :: "int \<Rightarrow> 32 word \<Rightarrow> int \<Rightarrow> sys \<Rightarrow> int sysres" where
  "waitpid_check pid status options s =
     (if pid \<ge> 100 then Err EINVAL s
      else if status = 0 then Err EFAULT s
      else if status = 0x80000000 then Err EFAULT s
      else if status = 0x40000000 then Err EFAULT s
      else if status AND 1 \<noteq> 0 then Err EFAULT s
      else deref (cur_proc s) (\<lambda>th.
        if pid = t_pid th then Err EINVAL s
        else if options \<noteq> 0 then Err EINVAL s
        else deref (proc_at (krn s) pid) (\<lambda>p.
          if pi_pid p = - 1 then Err EINVAL s
          else if pi_has_been_waited p = 1 then Err EINVAL s
          else deref (proc_at (krn s) (t_pid th)) (\<lambda>me.
            let j = child_index pid me
            in if j = int MAX_NUM_CHILD - 1 then Err EINVAL s
               else if pi_numOfChild me < 1 then Err EINVAL s
               else Ret j s))))"

definition waitpid_collect :: "sysenv \<Rightarrow> int \<Rightarrow> 32 word \<Rightarrow> int \<Rightarrow> sys \<Rightarrow> sysend sysres" where
  "waitpid_collect E pid status j s =
     deref (proc_at (krn s) pid) (\<lambda>p.
       kbind (store_int status (word_of_int (pi_exitCode p)) s) (\<lambda>stored s.
         if \<not> stored then sys_exit E 0 s
         else deref (cur_proc s) (\<lambda>th.
           kbind (on_kernel (child_write (t_pid th) j (- 1)) s) (\<lambda>_ s.
           kbind (on_kernel (proc_set (t_pid th) (\<lambda>p. p\<lparr>pi_numOfChild := s32 (pi_numOfChild p - 1)\<rparr>)) s) (\<lambda>_ s.
           kbind (on_kernel (proc_set pid (\<lambda>p. p\<lparr>pi_has_been_waited := 1\<rparr>)) s) (\<lambda>_ s.
             Ret (Sys_return 0 pid) s))))))"

text \<open>The loop that looks at the child once a second, with \<open>n\<close> rounds left.\<close>

primrec waitpid_poll :: "sysenv \<Rightarrow> int \<Rightarrow> 32 word \<Rightarrow> int \<Rightarrow> nat \<Rightarrow> sys \<Rightarrow> sysend sysres" where
  "waitpid_poll E pid status j 0 s = Ret (Sys_return (- 1) pid) s"
| "waitpid_poll E pid status j (Suc n) s =
     kbind (se_clocksleep E s) (\<lambda>_ s.
       deref (proc_at (krn s) pid) (\<lambda>p.
         if pi_status p = 2 then waitpid_collect E pid status j s else waitpid_poll E pid status j n s))"

definition waitpid :: "sysenv \<Rightarrow> int \<Rightarrow> 32 word \<Rightarrow> int \<Rightarrow> sys \<Rightarrow> sysend sysres" where
  "waitpid E pid status options s =
     or_fail (waitpid_check pid status options s) (\<lambda>j s.
       deref (proc_at (krn s) pid) (\<lambda>p.
         if pi_status p = 1 then waitpid_poll E pid status j 30 s
         else if pi_status p = 2 then waitpid_collect E pid status j s
         else Ret (Sys_return (- 1) pid) s))"

definition sizeof_trapframe :: "32 word" where
  "sizeof_trapframe = 148"

definition SAME_STACK :: "32 word \<Rightarrow> 32 word \<Rightarrow> bool" where
  "SAME_STACK p1 p2 \<longleftrightarrow> p1 AND 0xfffff000 = p2 AND 0xfffff000"

text \<open>\<open>tfaddr\<close> is where the trap frame lies, on the stack of the thread.\<close>

definition mips_usermode :: "vaddr \<Rightarrow> trapframe \<Rightarrow> sys \<Rightarrow> trapframe sysres" where
  "mips_usermode tfaddr tf s =
     (let k = (splhigh (krn s))\<lparr>curspl := 0\<rparr>
      in if \<not> SAME_STACK (curkstack k - 1) tfaddr then Panic else Ret tf (s\<lparr>krn := k\<rparr>))"

text \<open>The first thing a forked process does: \<open>tf\<close> and \<open>as\<close> are what \<^verbatim>\<open>fork\<close> passed to \<^verbatim>\<open>thread_fork\<close>.\<close>

definition md_forkentry :: "vaddr \<Rightarrow> vaddr \<Rightarrow> vaddr \<Rightarrow> sys \<Rightarrow> trapframe sysres" where
  "md_forkentry tfaddr tf as s =
     deref (tframes s tf) (\<lambda>child.
       kbind (on_kernel (kfree tf) (s\<lparr>tframes := (tframes s)(tf := None)\<rparr>)) (\<lambda>_ s.
       kbind (on_kernel (\<lambda>k. set_thread (curthread k) (\<lambda>th. th\<lparr>t_vmspace := as\<rparr>) k) s) (\<lambda>_ s.
         let s = s\<lparr>krn := as_activate as (krn s), iostate.cur_vmspace := as\<rparr>
         in mips_usermode tfaddr (child\<lparr>tf_epc := tf_epc child + 4, tf_v0 := 0, tf_a3 := 0\<rparr>) s)))"

text \<open>\<^verbatim>\<open>fork\<close>, with what follows the copying of the address space first.\<close>

definition fork_child :: "sysenv \<Rightarrow> vaddr \<Rightarrow> vaddr \<Rightarrow> sys \<Rightarrow> sysend sysres" where
  "fork_child E child_tf child_as s =
     (case on_kernel (thread_fork (se_fork E) ''Child'' child_tf child_as (se_forkentry E)) s of
        Ret child s \<Rightarrow> deref (threads (krn s) child) (\<lambda>c. Ret (Sys_return 0 (t_pid c)) s)
      | Err e s \<Rightarrow> kbind (on_kernel (kfree child_tf) (s\<lparr>tframes := (tframes s)(child_tf := None)\<rparr>)) (\<lambda>_ s. fails e s)
      | Panic \<Rightarrow> Panic
      | Undef \<Rightarrow> Undef)"

definition fork :: "sysenv \<Rightarrow> trapframe \<Rightarrow> sys \<Rightarrow> sysend sysres" where
  "fork E tf s =
     kbind (on_kernel (kmalloc sizeof_trapframe) s) (\<lambda>child_tf s.
       if child_tf = 0 then fails EFAULT s
       else let s = s\<lparr>tframes := (tframes s)(child_tf \<mapsto> tf)\<rparr>
       in deref (cur_proc s) (\<lambda>th.
         or_fail (on_kernel (as_copy (t_vmspace th)) s) (fork_child E child_tf)))"

definition getpid :: "sys \<Rightarrow> sysend sysres" where
  "getpid s = deref (cur_proc s) (\<lambda>th. Ret (Sys_return 0 (t_pid th)) s)"

section \<open>Memory and time\<close>

text \<open>The loop of \<^verbatim>\<open>sbrk\<close> that counts pages; \<open>amount\<close> is a signed number.\<close>

function sbrk_pages :: "int \<Rightarrow> int \<Rightarrow> int" where
  "sbrk_pages amount i = (if amount > 4096 then sbrk_pages (amount - 4096) (i + 1) else i)"
  by auto
termination by (relation "measure (\<lambda>(amount, i). nat amount)") auto

declare sbrk_pages.simps [simp del]

text \<open>
  \<^verbatim>\<open>amount\<close> is signed, the addresses are unsigned: in the comparison of the room with the amount the
  latter is converted to an unsigned number.
\<close>

definition sbrk :: "int \<Rightarrow> sys \<Rightarrow> sysend sysres" where
  "sbrk amount s =
     deref (cur_proc s) (\<lambda>th. deref (addrspaces (krn s) (t_vmspace th)) (\<lambda>as.
       let new_vtop3 = as_vtop3 as + word_of_int amount;
           new_vtop3_aligned = as_vtop3 as + as_npages3 as * PAGE_SIZE;
           stackbase = USERSTACK - 512 * PAGE_SIZE; old_vtop3 = as_vtop3 as
       in if new_vtop3 \<ge> stackbase then fails ENOMEM s
          else if new_vtop3 < as_vbase3 as then fails EINVAL s
          else if new_vtop3_aligned - as_vtop3 as \<ge> word_of_int amount
          then kbind (on_kernel (set_as (t_vmspace th) (\<lambda>as. as\<lparr>as_vtop3 := new_vtop3\<rparr>)) s) (\<lambda>_ s. Ret (Sys_return 0 (sint old_vtop3)) s)
          else let rest = s32 (amount - uint (new_vtop3_aligned - as_vtop3 as)); i = sbrk_pages rest 1
            in kbind (on_kernel (set_as (t_vmspace th) (\<lambda>as. as\<lparr>as_npages3 := as_npages3 as + word_of_int i, as_vtop3 := new_vtop3\<rparr>)) s)
                 (\<lambda>_ s. Ret (Sys_return 0 (sint old_vtop3)) s)))"

text \<open>Both copies are attempted, and any failure is \<^verbatim>\<open>EFAULT\<close>.\<close>

fun copied_ok :: "unit sysres \<Rightarrow> bool sysres" where
  "copied_ok (Ret _ s) = Ret True s"
| "copied_ok (Err _ s) = Ret False s"
| "copied_ok Panic = Panic"
| "copied_ok Undef = Undef"

definition sys_time :: "sysenv \<Rightarrow> 32 word \<Rightarrow> 32 word \<Rightarrow> sys \<Rightarrow> sysend sysres" where
  "sys_time E seconds nanoseconds s =
     (let (sec, ns) = se_gettime E s
      in kbind (if seconds \<noteq> 0 then copied_ok (copyout (be32 (word_of_int sec)) seconds 4 s) else Ret True s) (\<lambda>ok1 s.
         kbind (if nanoseconds \<noteq> 0 then copied_ok (copyout (be32 ns) nanoseconds 4 s) else Ret True s) (\<lambda>ok2 s.
           if \<not> ok1 \<or> \<not> ok2 then fails EFAULT s else Ret (Sys_return 0 sec) s)))"

section \<open>Console\<close>

text \<open>Both calls open the console the first time and keep it in the thread. The flags are \<^verbatim>\<open>O_RDWR\<close>.\<close>

definition con_name :: "byte list" where
  "con_name = [99, 111, 110, 58]"

definition open_console :: "sysenv \<Rightarrow> sys \<Rightarrow> vaddr sysres" where
  "open_console E s =
     deref (cur_proc s) (\<lambda>th.
       if t_v th = 0
       then kbind (se_open E con_name 2 s) (\<lambda>v s.
         kbind (on_kernel (\<lambda>k. set_thread (curthread k) (\<lambda>th. th\<lparr>t_v := v\<rparr>) k) s) (\<lambda>_ s. Ret v s))
       else Ret (t_v th) s)"

definition user_uio :: "thread \<Rightarrow> 32 word \<Rightarrow> 32 word \<Rightarrow> uio_rw \<Rightarrow> uio" where
  "user_uio th buf len rw =
     \<lparr>iov_kblock = [], iov_kpos = 0, iov_ubase = buf, iov_len = unat len, uio_offset = t_offset th, uio_resid = unat len,
      uio_segflg = UIO_USERSPACE, uio_op = rw, uio_space = t_vmspace th\<rparr>"

definition save_offset :: "int \<Rightarrow> sys \<Rightarrow> unit sysres" where
  "save_offset off s = on_kernel (\<lambda>k. set_thread (curthread k) (\<lambda>th. th\<lparr>t_offset := off\<rparr>) k) s"

definition sys_read :: "sysenv \<Rightarrow> int \<Rightarrow> 32 word \<Rightarrow> 32 word \<Rightarrow> sys \<Rightarrow> sysend sysres" where
  "sys_read E fd buf buflen s =
     (if buf = 0 then fails EFAULT s
      else if fd \<noteq> 0 then fails EBADF s
      else deref (cur_proc s) (\<lambda>th.
        let u = user_uio th buf buflen UIO_READ
        in or_fail (open_console E s) (\<lambda>v s.
          case se_vop_read E v (u, s) of
            Ret _ (u, s) \<Rightarrow> kbind (save_offset (uio_offset u) s) (\<lambda>_ s. Ret (Sys_return 0 (sint buflen)) s)
          | Err e (u, s) \<Rightarrow> kbind (save_offset (uio_offset u) s) (\<lambda>_ s. Ret (Sys_return (errno_code e) 0) s)
          | Panic \<Rightarrow> Panic
          | Undef \<Rightarrow> Undef)))"

definition sys_write :: "sysenv \<Rightarrow> int \<Rightarrow> 32 word \<Rightarrow> 32 word \<Rightarrow> sys \<Rightarrow> sysend sysres" where
  "sys_write E fd buf nbytes s =
     (if buf = 0 then fails EFAULT s
      else if fd \<noteq> 1 \<and> fd \<noteq> 2 then fails EBADF s
      else deref (cur_proc s) (\<lambda>th.
        let u = user_uio th buf nbytes UIO_WRITE
        in or_fail (open_console E s) (\<lambda>v s.
          case se_vop_write E v (u, s) of
            Ret _ (u, s) \<Rightarrow> kbind (save_offset (uio_offset u) s) (\<lambda>_ s. Ret (Sys_return 0 (sint nbytes)) s)
          | Err e (u, s) \<Rightarrow> kbind (save_offset (uio_offset u) s) (\<lambda>_ s. fails e s)
          | Panic \<Rightarrow> Panic
          | Undef \<Rightarrow> Undef)))"

section \<open>Loading a program\<close>

text \<open>The headers of an executable, read from the bytes of the file.\<close>

record elf_ehdr =
  e_ident :: "byte list"
  e_type :: "16 word"
  e_machine :: "16 word"
  e_version :: "32 word"
  e_entry :: "32 word"
  e_phoff :: "32 word"
  e_phentsize :: "16 word"
  e_phnum :: "16 word"

record elf_phdr =
  p_type :: "32 word"
  p_offset :: "32 word"
  p_vaddr :: "32 word"
  p_filesz :: "32 word"
  p_memsz :: "32 word"
  p_flags :: "32 word"

definition sizeof_ehdr :: nat where
  "sizeof_ehdr = 52"

definition sizeof_phdr :: nat where
  "sizeof_phdr = 32"

definition decode_ehdr :: "byte list \<Rightarrow> elf_ehdr" where
  "decode_ehdr bs =
     \<lparr>e_ident = take 16 bs, e_type = de16 (take 2 (drop 16 bs)), e_machine = de16 (take 2 (drop 18 bs)),
      e_version = de32 (take 4 (drop 20 bs)), e_entry = de32 (take 4 (drop 24 bs)), e_phoff = de32 (take 4 (drop 28 bs)),
      e_phentsize = de16 (take 2 (drop 42 bs)), e_phnum = de16 (take 2 (drop 44 bs))\<rparr>"

definition decode_phdr :: "byte list \<Rightarrow> elf_phdr" where
  "decode_phdr bs =
     \<lparr>p_type = de32 (take 4 bs), p_offset = de32 (take 4 (drop 4 bs)), p_vaddr = de32 (take 4 (drop 8 bs)),
      p_filesz = de32 (take 4 (drop 16 bs)), p_memsz = de32 (take 4 (drop 20 bs)), p_flags = de32 (take 4 (drop 24 bs))\<rparr>"

definition ELF_IDENT :: "byte list" where
  "ELF_IDENT = [0x7f, 69, 76, 70, 1, 2, 1]"

definition EM_MIPS :: "16 word" where "EM_MIPS = 8"
definition ET_EXEC :: "16 word" where "ET_EXEC = 2"
definition EV_CURRENT :: "32 word" where "EV_CURRENT = 1"
definition PT_NULL :: "32 word" where "PT_NULL = 0"
definition PT_LOAD :: "32 word" where "PT_LOAD = 1"
definition PT_PHDR :: "32 word" where "PT_PHDR = 6"
definition PT_MIPS_REGINFO :: "32 word" where "PT_MIPS_REGINFO = 0x70000000"
definition PF_X :: "32 word" where "PF_X = 1"

definition elf_supported :: "elf_ehdr \<Rightarrow> bool" where
  "elf_supported eh \<longleftrightarrow> take 7 (e_ident eh) = ELF_IDENT \<and> e_version eh = EV_CURRENT \<and> e_type eh = ET_EXEC \<and> e_machine eh = EM_MIPS"

text \<open>A structure of \<open>n\<close> bytes read from the file at \<open>pos\<close>; a short read is \<^verbatim>\<open>ENOEXEC\<close>.\<close>

definition read_struct :: "sysenv \<Rightarrow> vaddr \<Rightarrow> nat \<Rightarrow> int \<Rightarrow> sys \<Rightarrow> byte list sysres" where
  "read_struct E v n pos s =
     (case se_vop_read E v (mk_kuio (replicate n 0) n pos UIO_READ, s) of
        Ret _ (u, s) \<Rightarrow> if uio_resid u \<noteq> 0 then Err ENOEXEC s else Ret (iov_kblock u) s
      | Err e (u, s) \<Rightarrow> Err e s
      | Panic \<Rightarrow> Panic
      | Undef \<Rightarrow> Undef)"

definition load_phdr :: "vaddr \<Rightarrow> vaddr \<Rightarrow> elf_phdr \<Rightarrow> sys \<Rightarrow> unit sysres" where
  "load_phdr as v ph s =
     (if p_type ph = PT_NULL \<or> p_type ph = PT_PHDR \<or> p_type ph = PT_MIPS_REGINFO then Ret () s
      else if p_type ph \<noteq> PT_LOAD then Err ENOEXEC s
      else on_kernel (as_define_region as (p_vaddr ph) (p_memsz ph) (sint (p_offset ph)) (p_filesz ph) v (sint (p_flags ph AND PF_X))) s)"

primrec load_phdrs :: "sysenv \<Rightarrow> vaddr \<Rightarrow> vaddr \<Rightarrow> elf_ehdr \<Rightarrow> nat \<Rightarrow> nat \<Rightarrow> sys \<Rightarrow> unit sysres" where
  "load_phdrs E as v eh 0 i s = Ret () s"
| "load_phdrs E as v eh (Suc n) i s =
     kbind (read_struct E v sizeof_phdr (s32 (uint (e_phoff eh) + int i * uint (e_phentsize eh))) s) (\<lambda>bs s.
     kbind (load_phdr as v (decode_phdr bs) s) (\<lambda>_ s. load_phdrs E as v eh n (i + 1) s))"

definition load_elf :: "sysenv \<Rightarrow> vaddr \<Rightarrow> sys \<Rightarrow> vaddr sysres" where
  "load_elf E v s =
     kbind (read_struct E v sizeof_ehdr 0 s) (\<lambda>bs s.
       let eh = decode_ehdr bs
       in if \<not> elf_supported eh then Err ENOEXEC s
          else deref (cur_proc s) (\<lambda>th.
            kbind (load_phdrs E (t_vmspace th) v eh (unat (e_phnum eh)) 0 s) (\<lambda>_ s.
            kbind (on_kernel (as_prepare_load (t_vmspace th)) s) (\<lambda>_ s.
            kbind (on_kernel (as_complete_load (t_vmspace th)) s) (\<lambda>_ s. Ret (e_entry eh) s)))))"

text \<open>\<^verbatim>\<open>load_segment\<close>, which the present code no longer calls.\<close>

definition load_segment :: "sysenv \<Rightarrow> vaddr \<Rightarrow> int \<Rightarrow> 32 word \<Rightarrow> nat \<Rightarrow> nat \<Rightarrow> bool \<Rightarrow> sys \<Rightarrow> unit sysres" where
  "load_segment E v pos va memsize filesize executable s =
     (let filesize = (if filesize > memsize then memsize else filesize)
      in deref (cur_proc s) (\<lambda>th.
        case se_vop_read E v (\<lparr>iov_kblock = [], iov_kpos = 0, iov_ubase = va, iov_len = memsize, uio_offset = pos, uio_resid = filesize,
            uio_segflg = (if executable then UIO_USERISPACE else UIO_USERSPACE), uio_op = UIO_READ, uio_space = t_vmspace th\<rparr>, s) of
          Ret _ (u, s) \<Rightarrow>
            if uio_resid u \<noteq> 0 then Err ENOEXEC s
            else if memsize - filesize > 0
            then in_part snd (uiomovezeros (memsize - filesize) (u\<lparr>uio_resid := uio_resid u + (memsize - filesize)\<rparr>, s))
            else Ret () s
        | Err e (u, s) \<Rightarrow> Err e s
        | Panic \<Rightarrow> Panic
        | Undef \<Rightarrow> Undef))"

text \<open>
  \<^verbatim>\<open>runprogram\<close>. The arguments go to the top of the new stack, each rounded up to whole words with a
  word to spare; \<open>arg_room\<close> is the number of bytes one takes. The result is the new stack pointer
  and the addresses of the strings.
\<close>

definition arg_room :: "nat \<Rightarrow> nat" where
  "arg_room len =
     (let length = 1 + len; rem = length mod 4
      in (if rem \<noteq> 0 then (length - rem) div 4 + 2 else length div 4 + 1) * 4)"

primrec push_args :: "byte list list \<Rightarrow> 32 word \<Rightarrow> sys \<Rightarrow> (32 word \<times> 32 word list) sysres" where
  "push_args [] stackptr s = Ret (stackptr, []) s"
| "push_args (a # as) stackptr s =
     (let stackptr = stackptr - of_nat (arg_room (length a))
      in kbind (copyout (a @ [0]) stackptr (of_nat (length a + 1)) s) (\<lambda>_ s.
         kbind (push_args as stackptr s) (\<lambda>(sp, ptrs) s. Ret (sp, stackptr # ptrs) s)))"

definition CST_IEp :: "32 word" where "CST_IEp = 0x4"
definition CST_KUp :: "32 word" where "CST_KUp = 0x8"
definition CST_IRQMASK :: "32 word" where "CST_IRQMASK = 0xff00"

definition zero_trapframe :: trapframe where
  "zero_trapframe = \<lparr>tf_vaddr = 0, tf_status = 0, tf_cause = 0, tf_v0 = 0, tf_a0 = 0, tf_a1 = 0, tf_a2 = 0, tf_a3 = 0, tf_sp = 0, tf_epc = 0,
     tf_others = replicate 27 0\<rparr>"

definition md_usermode :: "vaddr \<Rightarrow> int \<Rightarrow> 32 word \<Rightarrow> 32 word \<Rightarrow> 32 word \<Rightarrow> sys \<Rightarrow> trapframe sysres" where
  "md_usermode tfaddr argc argv stack entry s =
     mips_usermode tfaddr (zero_trapframe\<lparr>tf_status := CST_IRQMASK OR CST_IEp OR CST_KUp, tf_epc := entry, tf_a0 := word_of_int argc,
       tf_a1 := argv, tf_sp := stack\<rparr>) s"

text \<open>The memory of the process once its regions and stack are defined is \<open>se_view\<close> of the kernel state.\<close>

definition new_view :: "sysenv \<Rightarrow> sys \<Rightarrow> sys" where
  "new_view E s = (case se_view E (krn s) of (m, r, w) \<Rightarrow> s\<lparr>um_bytes := m, um_reads := r, um_writes := w\<rparr>)"

definition set_vmspace :: "vaddr \<Rightarrow> sys \<Rightarrow> unit sysres" where
  "set_vmspace as s =
     kbind (on_kernel (\<lambda>k. set_thread (curthread k) (\<lambda>th. th\<lparr>t_vmspace := as\<rparr>) k) s) (\<lambda>_ s. Ret () (s\<lparr>iostate.cur_vmspace := as\<rparr>))"

definition runprogram :: "sysenv \<Rightarrow> byte list \<Rightarrow> byte list list \<Rightarrow> sys \<Rightarrow> trapframe sysres" where
  "runprogram E progname args s =
     deref (cur_proc s) (\<lambda>th.
     kbind (if t_vmspace th \<noteq> 0 then kbind (on_kernel (as_destroy (t_vmspace th)) s) (\<lambda>_ s. set_vmspace 0 s) else Ret () s) (\<lambda>_ s.
     kbind (se_open E progname 0 s) (\<lambda>v s.
     deref (cur_proc s) (\<lambda>th.
     if t_vmspace th \<noteq> 0 then Panic
     else kbind (on_kernel as_create s) (\<lambda>as s.
     kbind (set_vmspace as s) (\<lambda>_ s.
     if as = 0 then Err ENOMEM s
     else let s = s\<lparr>krn := as_activate as (krn s)\<rparr> in
     kbind (load_elf E v s) (\<lambda>entrypoint s.
     kbind (on_kernel (as_define_stack as) s) (\<lambda>stackptr s.
     kbind (push_args args stackptr (new_view E s)) (\<lambda>(sp, ptrs) s.
     let sp = sp - of_nat (length args) * 4 in
     kbind (copyout (be_words ptrs) sp (of_nat (length args) * 4) s) (\<lambda>_ s.
       md_usermode (se_tfaddr E) (int (length args)) sp sp entrypoint s))))))))))"

section \<open>\<^verbatim>\<open>execv\<close>\<close>

text \<open>
  The call reads the user's strings and the array of pointers directly. Reading an address that is
  not mapped faults; reading on beyond the end of user memory, into the kernel, is not modelled.
\<close>

function user_strlen :: "sys \<Rightarrow> 32 word \<Rightarrow> nat option sysres" where
  "user_strlen s p =
     (if \<not> p < USERTOP then Undef
      else if \<not> um_reads s p then Ret None s
      else if um_bytes s p = 0 then Ret (Some 0) s
      else kbind (user_strlen s (p + 1)) (\<lambda>n s. Ret (map_option Suc n) s))"
  by auto
termination
proof (relation "measure (\<lambda>(s, p). 2147483648 - unat p)")
  fix s :: sys and p :: "32 word"
  assume "\<not> \<not> p < USERTOP"
  then have "unat p < 2147483648" by (simp add: USERTOP_def word_less_nat_alt)
  then have "unat (p + 1) = unat p + 1" by (simp add: unat_word_ariths)
  with \<open>unat p < 2147483648\<close> show "((s, p + 1), s, p) \<in> measure (\<lambda>(s, p). 2147483648 - unat p)" by simp
qed simp

definition user_word :: "sys \<Rightarrow> 32 word \<Rightarrow> (32 word) option" where
  "user_word s p = (if \<forall>i \<in> set [0..<4]. um_reads s (p + of_nat i) then Some (de32 (block (um_bytes s) p 4)) else None)"

text \<open>The pointers up to the null pointer.\<close>

function user_args :: "sys \<Rightarrow> 32 word \<Rightarrow> (32 word list) option sysres" where
  "user_args s p =
     (if p AND 3 \<noteq> 0 then Ret None s
      else if \<not> p < USERTOP then Undef
      else case user_word s p of
        None \<Rightarrow> Ret None s
      | Some a \<Rightarrow>
          if a = 0 then Ret (Some []) s
          else if a = 0x40000000 \<or> a = 0x80000000 then Err EFAULT s
          else kbind (user_args s (p + 4)) (\<lambda>as s. Ret (map_option (Cons a) as) s))"
  by auto
termination
proof (relation "measure (\<lambda>(s, p). 2147483648 - unat p)")
  fix s :: sys and p a :: "32 word"
  assume "\<not> \<not> p < USERTOP"
  then have "unat p < 2147483648" by (simp add: USERTOP_def word_less_nat_alt)
  then have "unat (p + 4) = unat p + 4" by (simp add: unat_word_ariths)
  with \<open>unat p < 2147483648\<close> show "((s, p + 4), s, p) \<in> measure (\<lambda>(s, p). 2147483648 - unat p)" by simp
qed simp

declare user_strlen.simps [simp del] user_args.simps [simp del]

text \<open>
  The strings, one after the other. When copying one of them fails, the loop that should free the
  copies made so far frees the first one for ever.
\<close>

primrec copy_args :: "sysenv \<Rightarrow> 32 word list \<Rightarrow> sys \<Rightarrow> (byte list list) option sysres" where
  "copy_args E [] s = Ret (Some []) s"
| "copy_args E (a # as) s =
     kbind (user_strlen s a) (\<lambda>len s.
       case len of
         None \<Rightarrow> Ret None s
       | Some n \<Rightarrow>
           kbind (on_kernel (kmalloc (of_nat (n + 1))) s) (\<lambda>p s.
             if p = 0 then Undef
             else case copyin a (of_nat (n + 1)) s of
               Ret bs s \<Rightarrow> kbind (copy_args E as s) (\<lambda>rest s. Ret (map_option (Cons (take n bs)) rest) s)
             | Err e s \<Rightarrow> Undef
             | Panic \<Rightarrow> Panic
             | Undef \<Rightarrow> Undef))"

text \<open>A fault ends the process as \<^verbatim>\<open>mips_trap\<close> does for a fault in the kernel.\<close>

definition or_fault :: "sysenv \<Rightarrow> 'v option \<Rightarrow> ('v \<Rightarrow> sys \<Rightarrow> sysend sysres) \<Rightarrow> sys \<Rightarrow> sysend sysres" where
  "or_fault E v f s = (case v of None \<Rightarrow> sys_exit E 0 s | Some x \<Rightarrow> f x s)"

text \<open>The pointers themselves are copied too, as \<^verbatim>\<open>argc + 1\<close> bytes.\<close>

definition execv :: "sysenv \<Rightarrow> 32 word \<Rightarrow> 32 word \<Rightarrow> sys \<Rightarrow> sysend sysres" where
  "execv E program args s =
     (if program = 0 \<or> program = 0x40000000 \<or> program = 0x80000000 then fails EFAULT s
      else kbind (user_strlen s program) (\<lambda>len s. or_fault E len (\<lambda>n s.
        if n = 0 then fails EINVAL s
        else if args = 0 \<or> args = 0x40000000 \<or> args = 0x80000000 then fails EFAULT s
        else kbind (on_kernel (kmalloc (of_nat (n + 1))) s) (\<lambda>prog_copy s.
        if prog_copy = 0 then Undef
        else case copyin program (of_nat (n + 1)) s of
          Err e s \<Rightarrow> kbind (on_kernel (kfree prog_copy) s) (\<lambda>_ s. fails e s)
        | Ret prog s \<Rightarrow>
            or_fail (user_args s args) (\<lambda>ptrs s. or_fault E ptrs (\<lambda>ptrs s.
              kbind (on_kernel (kmalloc (4 * of_nat (length ptrs + 1))) s) (\<lambda>argv s.
              if argv = 0 then Undef
              else case copyin args (of_nat (length ptrs + 1)) s of
                Err e s \<Rightarrow> kbind (on_kernel (kfree prog_copy) s) (\<lambda>_ s. kbind (on_kernel (kfree argv) s) (\<lambda>_ s. fails e s))
              | Ret _ s \<Rightarrow>
                  kbind (copy_args E ptrs s) (\<lambda>strs s. or_fault E strs (\<lambda>strs s.
                    or_fail (runprogram E (take n prog) strs s) (\<lambda>tf s. Ret (Sys_user tf) s)) s)
              | Panic \<Rightarrow> Panic
              | Undef \<Rightarrow> Undef)) s)
        | Panic \<Rightarrow> Panic
        | Undef \<Rightarrow> Undef)) s))"

section \<open>Dispatch\<close>

definition SYS_exit :: int where "SYS_exit = 0"
definition SYS_execv :: int where "SYS_execv = 1"
definition SYS_fork :: int where "SYS_fork = 2"
definition SYS_waitpid :: int where "SYS_waitpid = 3"
definition SYS_read :: int where "SYS_read = 5"
definition SYS_write :: int where "SYS_write = 6"
definition SYS_reboot :: int where "SYS_reboot = 8"
definition SYS_sbrk :: int where "SYS_sbrk = 10"
definition SYS_getpid :: int where "SYS_getpid = 11"
definition SYS_time :: int where "SYS_time = 28"

definition syscall_switch :: "sysenv \<Rightarrow> trapframe \<Rightarrow> sys \<Rightarrow> sysend sysres" where
  "syscall_switch E tf s =
     (let callno = sint (tf_v0 tf)
      in if callno = SYS_reboot then se_reboot E (tf_a0 tf) s
         else if callno = SYS_exit then sys_exit E (sint (tf_a0 tf)) s
         else if callno = SYS_execv then execv E (tf_a0 tf) (tf_a1 tf) s
         else if callno = SYS_fork then fork E tf s
         else if callno = SYS_waitpid then waitpid E (sint (tf_a0 tf)) (tf_a1 tf) (sint (tf_a2 tf)) s
         else if callno = SYS_read then sys_read E (sint (tf_a0 tf)) (tf_a1 tf) (tf_a2 tf) s
         else if callno = SYS_write then sys_write E (sint (tf_a0 tf)) (tf_a1 tf) (tf_a2 tf) s
         else if callno = SYS_getpid then getpid s
         else if callno = SYS_time then sys_time E (tf_a0 tf) (tf_a1 tf) s
         else if callno = SYS_sbrk then sbrk (sint (tf_a0 tf)) s
         else Ret (Sys_return (errno_code ENOSYS) 0) s)"

text \<open>The registers on return from the call.\<close>

definition syscall_result :: "int \<Rightarrow> int \<Rightarrow> trapframe \<Rightarrow> trapframe" where
  "syscall_result err retval tf =
     (let tf = (if err \<noteq> 0 then tf\<lparr>tf_v0 := word_of_int err, tf_a3 := 1\<rparr> else tf\<lparr>tf_v0 := word_of_int retval, tf_a3 := 0\<rparr>)
      in tf\<lparr>tf_epc := tf_epc tf + 4\<rparr>)"

text \<open>How a trap ends: in the interrupted context, in another thread, or in user mode with new registers.\<close>

datatype trapend = Trap_return trapframe | Trap_gone | Trap_user trapframe

definition mips_syscall :: "sysenv \<Rightarrow> trapframe \<Rightarrow> sys \<Rightarrow> trapend sysres" where
  "mips_syscall E tf s =
     (if curspl (krn s) \<noteq> 0 then Panic
      else kbind (syscall_switch E tf s) (\<lambda>r s.
        case r of
          Sys_return err retval \<Rightarrow> if curspl (krn s) \<noteq> 0 then Panic else Ret (Trap_return (syscall_result err retval tf)) s
        | Sys_gone \<Rightarrow> Ret Trap_gone s
        | Sys_user tf \<Rightarrow> Ret (Trap_user tf) s))"

end
