(* ===== verification/KTrap.thy ===== *)
theory KTrap
  imports KSyscall
begin

text \<open>
  Traps, \<^verbatim>\<open>kern/arch/mips/mips/trap.c\<close> and \<^verbatim>\<open>mips_interrupt\<close>, and the properties of system calls as a user
  program sees them. The handler of the bus and the loader of pages are arguments.
\<close>

section \<open>Model\<close>

definition EX_IRQ :: nat where "EX_IRQ = 0"
definition EX_MOD :: nat where "EX_MOD = 1"
definition EX_TLBL :: nat where "EX_TLBL = 2"
definition EX_TLBS :: nat where "EX_TLBS = 3"
definition EX_IBE :: nat where "EX_IBE = 6"
definition EX_DBE :: nat where "EX_DBE = 7"
definition EX_SYS :: nat where "EX_SYS = 8"
definition NTRAPCODES :: nat where "NTRAPCODES = 13"
definition CCA_CODE :: "32 word" where "CCA_CODE = 0x3c"
definition CCA_CODESHIFT :: nat where "CCA_CODESHIFT = 2"
definition LAMEBUS_IRQ_BIT :: "32 word" where "LAMEBUS_IRQ_BIT = 0x400"

definition mips_interrupt :: "(sys \<Rightarrow> unit sysres) \<Rightarrow> 32 word \<Rightarrow> sys \<Rightarrow> unit sysres" where
  "mips_interrupt lamebus cause s =
     (let old_in = in_interrupt (krn s); s = s\<lparr>krn := (krn s)\<lparr>in_interrupt := 1\<rparr>\<rparr>
      in if \<not> curspl (krn s) > 0 then Panic
         else if cause AND LAMEBUS_IRQ_BIT \<noteq> 0
         then kbind (lamebus s) (\<lambda>_ s. Ret () (s\<lparr>krn := (krn s)\<lparr>in_interrupt := old_in\<rparr>\<rparr>))
         else Panic)"

definition kill_curthread :: "sysenv \<Rightarrow> nat \<Rightarrow> sys \<Rightarrow> trapend sysres" where
  "kill_curthread E code s =
     (if \<not> code < NTRAPCODES then Panic else kbind (sys_exit E 0 s) (\<lambda>_ s. Ret Trap_gone s))"

text \<open>The end of \<^verbatim>\<open>mips_trap\<close> at the label \<^verbatim>\<open>done\<close>.\<close>

definition trap_done :: "vaddr \<Rightarrow> int \<Rightarrow> trapframe \<Rightarrow> sys \<Rightarrow> trapend sysres" where
  "trap_done tfaddr savespl tf s =
     (let k = (splhigh (krn s))\<lparr>curspl := savespl\<rparr>
      in if \<not> SAME_STACK (curkstack k - 1) tfaddr then Panic else Ret (Trap_return tf) (s\<lparr>krn := k\<rparr>))"

text \<open>A fault that could not be handled: the user process dies, a copy routine recovers, and anything else in the kernel ends the process too.\<close>

definition fatal_fault :: "sysenv \<Rightarrow> vaddr \<Rightarrow> int \<Rightarrow> nat \<Rightarrow> trapframe \<Rightarrow> sys \<Rightarrow> trapend sysres" where
  "fatal_fault E tfaddr savespl code tf s =
     (if tf_status tf AND CST_KUp \<noteq> 0 then kill_curthread E code s
      else if curthread (krn s) = 0 then kbind (sys_exit E 0 s) (\<lambda>_ s. Ret Trap_gone s)
      else deref (cur_proc s) (\<lambda>th.
        if pcb_badfaultfunc (t_pcb th) \<noteq> 0 then trap_done tfaddr savespl (tf\<lparr>tf_epc := pcb_badfaultfunc (t_pcb th)\<rparr>) s
        else kbind (sys_exit E 0 s) (\<lambda>_ s. Ret Trap_gone s)))"

definition trap_stack_ok :: "vaddr \<Rightarrow> sys \<Rightarrow> bool" where
  "trap_stack_ok tfaddr s =
     (case cur_proc s of
        None \<Rightarrow> True
      | Some th \<Rightarrow> curthread (krn s) = 0 \<or> t_stack th = 0 \<or> (tfaddr > t_stack th \<and> tfaddr < t_stack th + STACK_SIZE))"

text \<open>The page fault handler, for the exceptions of the TLB.\<close>

definition trap_fault :: "sysenv \<Rightarrow> loader \<Rightarrow> nat \<Rightarrow> vaddr \<Rightarrow> int \<Rightarrow> nat \<Rightarrow> trapframe \<Rightarrow> sys \<Rightarrow> trapend sysres" where
  "trap_fault E load slot tfaddr savespl code tf s =
     (let faulttype = (if code = EX_MOD then VM_FAULT_READONLY else if code = EX_TLBL then VM_FAULT_READ else VM_FAULT_WRITE)
      in case on_kernel (vm_fault load slot faulttype (tf_vaddr tf)) s of
           Ret _ s \<Rightarrow> trap_done tfaddr savespl tf s
         | Err _ s \<Rightarrow> fatal_fault E tfaddr savespl code tf s
         | Panic \<Rightarrow> Panic
         | Undef \<Rightarrow> Undef)"

definition mips_trap :: "sysenv \<Rightarrow> loader \<Rightarrow> nat \<Rightarrow> (sys \<Rightarrow> unit sysres) \<Rightarrow> vaddr \<Rightarrow> trapframe \<Rightarrow> sys \<Rightarrow> trapend sysres" where
  "mips_trap E load slot lamebus tfaddr tf s =
     (let savespl = curspl (krn s); s = s\<lparr>krn := (krn s)\<lparr>curspl := SPL_HIGH\<rparr>\<rparr>;
          code = unat (drop_bit CCA_CODESHIFT (tf_cause tf AND CCA_CODE))
      in if \<not> code < NTRAPCODES then Panic
         else if curthread (krn s) \<noteq> 0 \<and> cur_proc s = None then Undef
         else if \<not> trap_stack_ok tfaddr s then Panic
         else if code = EX_IRQ then kbind (mips_interrupt lamebus (tf_cause tf) s) (\<lambda>_ s. trap_done tfaddr savespl tf s)
         else let s = s\<lparr>krn := splx savespl (krn s)\<rparr>
         in if code = EX_SYS
            then (if curspl (krn s) \<noteq> 0 then Panic
                  else kbind (mips_syscall E tf s) (\<lambda>r s.
                    case r of Trap_return tf \<Rightarrow> trap_done tfaddr savespl tf s | _ \<Rightarrow> Ret r s))
            else if code = EX_MOD \<or> code = EX_TLBL \<or> code = EX_TLBS then trap_fault E load slot tfaddr savespl code tf s
            else if code = EX_IBE \<or> code = EX_DBE then kbind (sys_exit E 0 s) (\<lambda>_ s. Ret Trap_gone s)
            else fatal_fault E tfaddr savespl code tf s)"

section \<open>Registers\<close>

lemma on_kernel_Ret: "on_kernel f s = Ret v s' \<longleftrightarrow> (\<exists>k. f (krn s) = Ret v k \<and> s' = s\<lparr>krn := k\<rparr>)"
  by (auto simp: on_kernel_def in_part_eq_Ret)

lemma kbind_Ret_iff: "kbind m f = Ret v s' \<longleftrightarrow> (\<exists>a s. m = Ret a s \<and> f a s = Ret v s')"
  by (cases m) auto

lemma deref_Ret_iff: "deref p f = Ret v s' \<longleftrightarrow> (\<exists>x. p = Some x \<and> f x = Ret v s')"
  by (cases p) (auto simp: deref_simps)

lemma trap_done_Ret: "trap_done tfaddr spl tf s = Ret r s' \<Longrightarrow> r = Trap_return tf \<and> curspl (krn s') = spl"
  by (auto simp: trap_done_def Let_def split: if_splits)

lemma mips_syscall_return:
  "mips_syscall E tf s = Ret (Trap_return tf') s' \<Longrightarrow> \<exists>err ret. tf' = syscall_result err ret tf \<and> syscall_switch E tf s = Ret (Sys_return err ret) s'"
proof -
  assume a: "mips_syscall E tf s = Ret (Trap_return tf') s'"
  then obtain r t where r: "syscall_switch E tf s = Ret r t"
    by (auto simp: mips_syscall_def kbind_Ret_iff split: if_splits)
  with a show ?thesis by (cases r) (auto simp: mips_syscall_def split: if_splits)
qed

lemma mips_trap_EX_SYS:
  assumes "unat (drop_bit CCA_CODESHIFT (tf_cause tf AND CCA_CODE)) = EX_SYS" "curspl (krn s) = 0"
    "curthread (krn s) = 0 \<or> cur_proc s \<noteq> None" "trap_stack_ok tfaddr s"
  shows "mips_trap E load slot lamebus tfaddr tf s =
    kbind (mips_syscall E tf s) (\<lambda>r t. case r of Trap_return tf \<Rightarrow> trap_done tfaddr 0 tf t | _ \<Rightarrow> Ret r t)"
proof -
  define t where "t = s\<lparr>krn := (krn s)\<lparr>curspl := SPL_HIGH\<rparr>\<rparr>"
  have "t\<lparr>krn := splx 0 (krn t)\<rparr> = s" using assms(2) by (simp add: t_def splx_def)
  moreover have "curthread (krn t) = 0 \<or> cur_proc t \<noteq> None" "trap_stack_ok tfaddr t"
    using assms(3,4) by (simp_all add: t_def cur_proc_def trap_stack_ok_def split: option.splits)
  ultimately show ?thesis using assms(1,2) unfolding mips_trap_def Let_def t_def [symmetric] assms(2)
    by (auto simp: EX_SYS_def NTRAPCODES_def EX_IRQ_def splx_def)
qed

lemma mips_trap_syscall:
  assumes "unat (drop_bit CCA_CODESHIFT (tf_cause tf AND CCA_CODE)) = EX_SYS" "mips_trap E load slot lamebus tfaddr tf s = Ret (Trap_return tf') s'"
  shows "\<exists>err ret s1. tf' = syscall_result err ret tf \<and> curspl (krn s') = curspl (krn s) \<and> curspl (krn s) = 0 \<and>
    syscall_switch E tf s = Ret (Sys_return err ret) s1"
proof -
  have same: "s\<lparr>krn := splx (curspl (krn s)) ((krn s)\<lparr>curspl := SPL_HIGH\<rparr>)\<rparr> = s" by (simp add: splx_def)
  let ?f = "\<lambda>r t. case r of Trap_return tf \<Rightarrow> trap_done tfaddr (curspl (krn s)) tf t | _ \<Rightarrow> Ret r t"
  have "kbind (mips_syscall E tf s) ?f = Ret (Trap_return tf') s'" and zero: "curspl (krn s) = 0"
    using assms same by (simp_all add: mips_trap_def Let_def EX_SYS_def NTRAPCODES_def EX_IRQ_def splx_def split: if_splits)
  then obtain r t where r: "mips_syscall E tf s = Ret r t" "?f r t = Ret (Trap_return tf') s'" unfolding kbind_Ret_iff by blast
  from r(2) obtain tf1 where "r = Trap_return tf1" by (cases r) auto
  with r have "mips_syscall E tf s = Ret (Trap_return tf') t" "curspl (krn s') = curspl (krn s)"
    using trap_done_Ret [of tfaddr "curspl (krn s)" tf1 t "Trap_return tf'" s'] by auto
  then show ?thesis using mips_syscall_return zero by blast
qed

text \<open>
  C14. What a user program sees of a system call. When the trap of a \<^verbatim>\<open>syscall\<close> instruction returns to the program, exactly
  three registers are set: \<^verbatim>\<open>a3\<close> is 0 and \<^verbatim>\<open>v0\<close> the result if the handler returned no error, \<^verbatim>\<open>a3\<close> is 1 and \<^verbatim>\<open>v0\<close> the error
  number if it did, and \<^verbatim>\<open>epc\<close> is after the instruction. Interrupts are enabled again.
\<close>

theorem syscall_registers:
  assumes "unat (drop_bit CCA_CODESHIFT (tf_cause tf AND CCA_CODE)) = EX_SYS" "mips_trap E load slot lamebus tfaddr tf s = Ret (Trap_return tf') s'"
  shows "\<exists>err ret s1. syscall_switch E tf s = Ret (Sys_return err ret) s1 \<and>
      tf' = tf\<lparr>tf_v0 := word_of_int (if err = 0 then ret else err), tf_a3 := (if err = 0 then 0 else 1), tf_epc := tf_epc tf + 4\<rparr> \<and>
      curspl (krn s') = 0"
proof -
  obtain err ret s1 where r: "tf' = syscall_result err ret tf" "curspl (krn s') = 0" "syscall_switch E tf s = Ret (Sys_return err ret) s1"
    using mips_trap_syscall [OF assms] by auto
  have "syscall_result err ret tf =
      tf\<lparr>tf_v0 := word_of_int (if err = 0 then ret else err), tf_a3 := (if err = 0 then 0 else 1), tf_epc := tf_epc tf + 4\<rparr>"
    by (cases "err = 0") (simp_all add: syscall_result_def)
  with r show ?thesis by blast
qed

text \<open>A machine with one process, number 1, whose heap lies between \<open>0x10000000\<close> and \<open>0x10001000\<close>.\<close>

definition heap_as :: addrspace where
  "heap_as = \<lparr>as_vbase1 = 0x400000, as_pbase1 = 0, as_npages1 = 1, as_offset1 = 0, is_executable1 = 1, as_filesize1 = 0,
     as_vbase2 = 0x10000000, as_pbase2 = 0, as_npages2 = 0, as_offset2 = 0, is_executable2 = 0, as_filesize2 = 0,
     as_stackpbase = 0, as_stackvbase = 0, as_vbase3 = 0x10000000, as_vtop3 = 0x10001000, as_pbase3 = 0, as_npages3 = 1,
     PT1 = replicate 1024 0, as_v = 0\<rparr>"

definition parent_proc :: process_info where
  "parent_proc = proc0\<lparr>pi_pid := 1, pi_status := 1, pi_numOfChild := 1, pi_childIDs := [2, 0, 0, 0, 0, 0, 0, 0, 0, 0]\<rparr>"

definition child_proc :: process_info where
  "child_proc = proc0\<lparr>pi_pid := 2, pi_status := 2, pi_exitCode := 7\<rparr>"

definition one_kernel :: kernel where
  "one_kernel = kernel0\<lparr>curspl := 0, curkstack := 0x80005000, curthread := 0x80003000,
     threads := [0x80003000 \<mapsto> thread0\<lparr>t_vmspace := 0x80006000\<rparr>], addrspaces := [0x80006000 \<mapsto> heap_as],
     process_table := [proc0, parent_proc, child_proc]\<rparr>"

definition emu_off :: emu_softc where
  "emu_off = \<lparr>e_regs = \<lparr>reg_handle = 0, reg_offset = 0, reg_iolen = 0, emu_iobuf = []\<rparr>, e_log = []\<rparr>"

definition one_sys :: sys where
  "one_sys = \<lparr>um_bytes = (\<lambda>_. 0), um_reads = (\<lambda>p. p < USERTOP), um_writes = (\<lambda>p. p < USERTOP), cur_vmspace = 0x80006000, badfaultfunc = False,
     krn = one_kernel, tframes = Map.empty,
     knowndevs = [], bootfs_vnode = 0, disks = (\<lambda>_ _. []), emus = (\<lambda>_. emu_off), emuvns = Map.empty, emufss = Map.empty, the_console = 0x80008000, delayed_outbuf = [],
     con_rsem = 0x80008100, con_wsem = 0x80008200, con_userlock_read = 0x80008300, con_userlock_write = 0x80008400, con_gotchar = 0, con_sent = []\<rparr>"

definition idle_env :: sysenv where
  "idle_env = \<lparr>se_km = (\<lambda>_. None), se_irqs = [], se_close = (\<lambda>_ k. Ret () k), se_reclaim = (\<lambda>_ k. Ret () k),
     se_fork = \<lparr>fk_thread = 0, fk_name_granted = False, fk_stack = 0, fk_reclaim = (\<lambda>_ k. Ret () k), fk_km = (\<lambda>_. None)\<rparr>, se_forkentry = 0,
     se_open = (\<lambda>_ _ s. Err ENODEV s), se_vop_read = (\<lambda>_ us. Ret () us), se_vop_write = (\<lambda>_ us. Ret () us),
     se_clocksleep = (\<lambda>s. Ret () s), se_gettime = (\<lambda>_. (0, 0)), se_reboot = (\<lambda>_ s. Ret Sys_gone s), se_tfaddr = 0x80004f00,
     se_view = (\<lambda>_. (\<lambda>_. 0, \<lambda>_. True, \<lambda>_. True))\<rparr>"

theorem syscall_registers_witness:
  "\<exists>tf' s'. mips_trap idle_env (\<lambda>_ _ _ _ _ _ k. Ret () k) 0 (\<lambda>s. Ret () s) 0x80004f00 (zero_trapframe\<lparr>tf_cause := 0x20, tf_v0 := 11\<rparr>) one_sys =
       Ret (Trap_return tf') s' \<and> tf_a3 tf' = 0 \<and> tf_v0 tf' = 1"
proof -
  let ?tf = "zero_trapframe\<lparr>tf_cause := 0x20, tf_v0 := 11\<rparr>"
  have code: "unat (drop_bit CCA_CODESHIFT (tf_cause ?tf AND CCA_CODE)) = EX_SYS" by (simp add: CCA_CODESHIFT_def CCA_CODE_def EX_SYS_def)
  have sw: "syscall_switch idle_env ?tf one_sys = Ret (Sys_return 0 1) one_sys"
    by (simp add: syscall_switch_def zero_trapframe_def getpid_def cur_proc_def one_sys_def one_kernel_def kernel0_def thread0_def deref_simps
      SYS_reboot_def SYS_exit_def SYS_execv_def SYS_fork_def SYS_waitpid_def SYS_read_def SYS_write_def SYS_getpid_def Let_def)
  have one: "curspl (krn one_sys) = 0" "SAME_STACK (curkstack (krn one_sys) - 1) 0x80004f00" "cur_proc one_sys \<noteq> None" "trap_stack_ok 0x80004f00 one_sys"
    by (simp_all add: one_sys_def one_kernel_def kernel0_def SAME_STACK_def cur_proc_def trap_stack_ok_def thread0_def)
  obtain s' where t: "mips_trap idle_env (\<lambda>_ _ _ _ _ _ k. Ret () k) 0 (\<lambda>s. Ret () s) 0x80004f00 ?tf one_sys =
      Ret (Trap_return (syscall_result 0 1 ?tf)) s'"
    using mips_trap_EX_SYS [OF code one(1) _ one(4)] sw one by (simp add: mips_syscall_def trap_done_def spl_defs Let_def)
  from syscall_registers [OF code t] obtain s1 where "syscall_result 0 1 ?tf = ?tf\<lparr>tf_v0 := 1, tf_a3 := 0, tf_epc := tf_epc ?tf + 4\<rparr>" "curspl (krn s') = 0"
    using sw by auto
  with t show ?thesis by (intro exI [of _ "syscall_result 0 1 ?tf"] exI [of _ s'] conjI) simp_all
qed

end
