(* ===== verification/KCopy.thy ===== *)
theory KCopy
  imports KAddrSpace
begin

text \<open>
  What \<^verbatim>\<open>as_copy\<close> of \<^verbatim>\<open>kern/vm/addrspace.c\<close> copies. The page allocators hand out frames that were not in use and leave the contents of the
  others alone; with that, the loops of \<^verbatim>\<open>as_copy\<close> build a page table whose frames hold what the frames of the old one hold, and the
  old address space stays as it was.
\<close>

unbundle bit_operations_syntax

section \<open>Pages\<close>

definition in_page :: "vaddr \<Rightarrow> vaddr \<Rightarrow> bool" where
  "in_page p x \<longleftrightarrow> x - p < PAGE_SIZE"

lemma uint_lt: "uint (x :: 32 word) < 4294967296" "0 \<le> uint x"
  using uint_lt2p [of x] by simp_all

lemma in_page_bounds:
  assumes "in_page p x" "page_aligned p"
  shows "uint p \<le> uint x" "uint x < uint p + 4096"
proof -
  have m: "uint p mod 4096 = 0" using assms(2) by (simp add: page_aligned_def PAGE_SIZE_def word_uint_eq_iff uint_mod)
  have d: "uint (x - p) < 4096" using assms(1) by (simp add: in_page_def PAGE_SIZE_def word_less_def)
  have s: "uint (x - p) = (if uint p \<le> uint x then uint x - uint p else uint x - uint p + 4294967296)" by (simp add: uint_sub_if')
  show "uint p \<le> uint x"
  proof (rule ccontr)
    assume "\<not> uint p \<le> uint x"
    then have "uint x - uint p + 4294967296 < 4096" using d s by simp
    moreover obtain i where i: "uint p = 4096 * i" using m by (auto simp: mod_eq_0_iff_dvd elim!: dvdE)
    then have "i < 1048576" using uint_lt [of p] by linarith
    then have "i \<le> 1048575" by simp
    ultimately show False using i uint_lt(2) [of x] by linarith
  qed
  with d s show "uint x < uint p + 4096" by simp
qed

lemma pages_apart: "in_page p x \<Longrightarrow> in_page q x \<Longrightarrow> page_aligned p \<Longrightarrow> page_aligned q \<Longrightarrow> p = q"
proof -
  assume a: "in_page p x" "in_page q x" "page_aligned p" "page_aligned q"
  have "uint p mod 4096 = 0" "uint q mod 4096 = 0" using a(3,4) by (simp_all add: page_aligned_def PAGE_SIZE_def word_uint_eq_iff uint_mod)
  then obtain i j where ij: "uint p = 4096 * i" "uint q = 4096 * j" by (auto simp: mod_eq_0_iff_dvd elim!: dvdE)
  with in_page_bounds [OF a(1,3)] in_page_bounds [OF a(2,4)] have "i < j + 1" "j < i + 1" by linarith+
  with ij have "uint p = uint q" by simp
  then show "p = q" by (simp add: word_uint_eq_iff)
qed

lemma page_aligned_kvaddr: "page_aligned pa \<Longrightarrow> page_aligned (PADDR_TO_KVADDR pa)"
proof -
  assume "page_aligned pa"
  then have "uint pa mod 4096 = 0" by (simp add: page_aligned_def PAGE_SIZE_def word_uint_eq_iff uint_mod)
  moreover have "uint (PADDR_TO_KVADDR pa) = (uint pa + 2147483648) mod 4294967296"
    by (simp add: PADDR_TO_KVADDR_def MIPS_KSEG0_def uint_word_ariths)
  ultimately have "uint (PADDR_TO_KVADDR pa) mod 4096 = 0" using mod_add_eq [of "uint pa" 4096 2147483648] by (simp add: mod_mod_cancel)
  then show ?thesis by (simp add: page_aligned_def PAGE_SIZE_def word_uint_eq_iff uint_mod)
qed

section \<open>Frames in use\<close>

text \<open>
  The page at \<open>p\<close> is a managed frame that is handed out. \<open>paging_ready\<close> is what the allocator needs to work as meant: a well-formed core map,
  the boot phase over, a current thread, and an entry of the array behind the last managed frame, which is not taken for a free frame.
\<close>

definition held :: "kernel \<Rightarrow> vaddr \<Rightarrow> bool" where
  "held k p \<longleftrightarrow> (\<exists>e \<in> set (frames k). PADDR_TO_KVADDR (cm_pa e) = p \<and> cm_state e = 1)"

definition fenced :: "kernel \<Rightarrow> bool" where
  "fenced k \<longleftrightarrow> nat (coremapsize k) < length (coremap k) \<and> cm_state (coremap k ! nat (coremapsize k)) = 1"

definition paging_ready :: "kernel \<Rightarrow> bool" where
  "paging_ready k \<longleftrightarrow> cm_inv k \<and> fenced k \<and> boott k = 1 \<and> cur_vmspace k \<noteq> None"

lemma held_nth: "held k p \<longleftrightarrow> (\<exists>j < length (frames k). PADDR_TO_KVADDR (cm_pa (frames k ! j)) = p \<and> cm_state (frames k ! j) = 1)"
  by (auto simp: held_def set_conv_nth)

lemma held_aligned: "cm_inv k \<Longrightarrow> held k p \<Longrightarrow> page_aligned p"
  by (auto simp: held_def cm_inv_def list_all_iff intro!: page_aligned_kvaddr)

lemma held_apart: "cm_inv k \<Longrightarrow> held k p \<Longrightarrow> held k q \<Longrightarrow> in_page p x \<Longrightarrow> in_page q x \<Longrightarrow> p = q"
  using pages_apart held_aligned by blast

text \<open>
  Every frame that was in use is still in use, and its contents have changed at most when it is in \<open>W\<close>.
\<close>

definition memory_kept :: "vaddr set \<Rightarrow> kernel \<Rightarrow> kernel \<Rightarrow> bool" where
  "memory_kept W k k' \<longleftrightarrow> paging_ready k' \<and> (\<forall>p. held k p \<longrightarrow> held k' p) \<and>
     (\<forall>p x. held k p \<and> p \<notin> W \<and> in_page p x \<longrightarrow> kmem k' x = kmem k x)"

lemma memory_kept_refl: "paging_ready k \<Longrightarrow> memory_kept W k k"
  by (simp add: memory_kept_def)

lemma memory_kept_trans:
  "memory_kept W k k1 \<Longrightarrow> memory_kept W1 k1 k2 \<Longrightarrow> (\<And>p. p \<in> W1 \<Longrightarrow> held k p \<Longrightarrow> p \<in> W) \<Longrightarrow> memory_kept W k k2"
  unfolding memory_kept_def by metis

lemma memory_keptD:
  "memory_kept W k k' \<Longrightarrow> paging_ready k'" "memory_kept W k k' \<Longrightarrow> held k p \<Longrightarrow> held k' p"
  "memory_kept W k k' \<Longrightarrow> held k p \<Longrightarrow> p \<notin> W \<Longrightarrow> in_page p x \<Longrightarrow> kmem k' x = kmem k x"
  by (auto simp: memory_kept_def)

lemma paging_ready_same:
  "coremap k' = coremap k \<Longrightarrow> coremapsize k' = coremapsize k \<Longrightarrow> boott k' = boott k \<Longrightarrow> cur_vmspace k' = cur_vmspace k \<Longrightarrow> paging_ready k' = paging_ready k"
  by (simp add: paging_ready_def cm_inv_def fenced_def frames_def)

lemma held_same: "coremap k' = coremap k \<Longrightarrow> coremapsize k' = coremapsize k \<Longrightarrow> held k' p = held k p"
  by (simp add: held_def frames_def)

text \<open>A write into a page that is held or about to be.\<close>

lemma memory_kept_write:
  assumes "paging_ready k" "\<And>x. \<not> in_page q x \<Longrightarrow> m x = kmem k x" "page_aligned q" "coremap k' = coremap k" "coremapsize k' = coremapsize k"
    "boott k' = boott k" "cur_vmspace k' = cur_vmspace k" "kmem k' = m"
  shows "memory_kept {q} k k'"
proof -
  have "cm_inv k" using assms(1) by (simp add: paging_ready_def)
  then have "kmem k' x = kmem k x" if "held k p" "p \<noteq> q" "in_page p x" for p x
    using that assms(2) [of x] assms(3,8) held_aligned pages_apart by blast
  then show ?thesis using assms(1) held_same [OF assms(4,5)] paging_ready_same [OF assms(4-7)] by (auto simp: memory_kept_def)
qed

section \<open>The allocators\<close>

definition fresh_page :: "kernel \<Rightarrow> vaddr \<Rightarrow> kernel \<Rightarrow> bool" where
  "fresh_page k p k' \<longleftrightarrow> memory_kept {} k k' \<and> addrspaces k' = addrspaces k \<and> threads k' = threads k \<and> curthread k' = curthread k \<and>
     (p \<noteq> 0 \<longrightarrow> \<not> held k p \<and> held k' p)"

lemma held_update:
  assumes "cm_inv k" "i < length (frames k)" "cm_state (frames k ! i) = 0" "frames k' = (frames k)[i := e]" "cm_pa e = cm_pa (frames k ! i)" "cm_state e = 1"
  shows "held k' p \<longleftrightarrow> held k p \<or> p = PADDR_TO_KVADDR (cm_pa (frames k ! i))" "\<not> held k (PADDR_TO_KVADDR (cm_pa (frames k ! i)))"
proof -
  show "\<not> held k (PADDR_TO_KVADDR (cm_pa (frames k ! i)))"
    using assms(3) frames_unique [OF assms(1,2)] by (fastforce simp: held_def in_set_conv_nth)
  have "length (frames k') = length (frames k)" using assms(4) by simp
  then show "held k' p \<longleftrightarrow> held k p \<or> p = PADDR_TO_KVADDR (cm_pa (frames k ! i))"
    using assms(2-6) unfolding held_nth by (simp add: nth_list_update) (metis zero_neq_one)
qed

lemma take_first_page_fresh:
  assumes "paging_ready k"
  shows "returns (take_first_page york k) (fresh_page k)"
proof -
  obtain as where k: "cm_inv k" "cur_vmspace k = Some as" "fenced k" "boott k = 1" using assms by (auto simp: paging_ready_def)
  show ?thesis
  proof (cases "first_free k")
    case None
    then show ?thesis using take_first_page_eq [OF k(1,2), of york] assms by (simp add: fresh_page_def memory_kept_refl)
  next
    case (Some i)
    note d = first_free_SomeD [OF k(1) Some]
    let ?k = "taken_frame york as i k" and ?p = "PADDR_TO_KVADDR (cm_pa (frames k ! i))"
    have f: "frames ?k = (frames k)[i := (frames k ! i)\<lparr>cm_state := 1, cm_york := york, cm_thread_as := as\<rparr>]" by simp
    have h: "held ?k q \<longleftrightarrow> held k q \<or> q = ?p" "\<not> held k ?p" for q
      using held_update [OF k(1) d(1,2) f] by (simp_all del: frames_taken_frame)
    have al: "page_aligned ?p" using frame_facts(1) [OF k(1) d(1)] by (rule page_aligned_kvaddr)
    have "i < nat (coremapsize k)" using d(1) by (simp add: frames_def)
    then have "paging_ready ?k" using k taken_frame_inv [OF k(1) Some]
      by (simp add: paging_ready_def fenced_def) (auto simp: taken_frame_def zero_page_def cur_vmspace_def)
    moreover have "kmem ?k x = kmem k x" if "held k q" "in_page q x" for q x
    proof -
      have "\<not> in_page ?p x" using that h(2) held_aligned [OF k(1)] al pages_apart by blast
      then show ?thesis by (simp add: taken_frame_def zero_page_def zeroed_def in_page_def)
    qed
    moreover have "addrspaces ?k = addrspaces k" "threads ?k = threads k" "curthread ?k = curthread k" by (simp_all add: taken_frame_def zero_page_def)
    ultimately have "fresh_page k ?p ?k" unfolding fresh_page_def memory_kept_def using h by blast
    then show ?thesis using Some take_first_page_eq [OF k(1,2), of york] by simp
  qed
qed

lemma alloc_two_fresh:
  assumes "paging_ready k"
  shows "returns (alloc_kpages_run 2 k) (fresh_page k)"
proof -
  obtain as where k: "cm_inv k" "cur_vmspace k = Some as" "fenced k" "boott k = 1" using assms by (auto simp: paging_ready_def)
  have len: "nat (coremapsize k) + (2 - 1) \<le> length (coremap k)" using k(3) by (simp add: fenced_def)
  note eq = alloc_kpages_run_eq [OF len _ k(2), simplified]
  show ?thesis
  proof (cases "first_run 2 k")
    case None
    then show ?thesis using eq assms by (simp add: fresh_page_def memory_kept_refl)
  next
    case (Some i)
    note d = first_run_SomeD [OF this]
    let ?k = "taken_run as i 2 k" and ?p = "PADDR_TO_KVADDR (cm_pa (coremap k ! i))"
    have c: "coremap k ! j = frames k ! j" if "j < length (frames k)" for j using that by (simp add: frames_def)
    have l: "length (frames k) = nat (coremapsize k)" using k(1) by (rule length_frames)
    have "cm_state (coremap k ! Suc i) \<noteq> 1" using d len by (simp add: run_at_def take_Suc_conv_app_nth list_all_iff)
    then have i: "Suc i < length (frames k)" using d(1) k(3) l by (cases "Suc i = nat (coremapsize k)") (auto simp: fenced_def)
    have free: "cm_state (frames k ! j) = 0" if "j = i \<or> j = Suc i" for j using run_states [OF k(1) d(2), of j] that i by auto
    have f: "length (frames ?k) = length (frames k)" "j < length (frames k) \<Longrightarrow> frames ?k ! j = headed as i 2 j (frames k ! j)" for j
      by (simp_all add: frames_taken_run [OF k(1)])
    have hd: "cm_pa (headed as i 2 j e) = cm_pa e" "cm_state (headed as i 2 j e) = (if j = i \<or> j = Suc i then 1 else cm_state e)" for j e
      by (auto simp: headed_def marked_def)
    have h: "\<not> held k (PADDR_TO_KVADDR (cm_pa (frames k ! j)))" if "j = i \<or> j = Suc i" for j
      using free [OF that] frames_unique [OF k(1), of j] that i by (fastforce simp: held_nth)
    have "held ?k ?p" unfolding held_nth f(1) using i f(2) hd c by (intro exI [of _ i]) auto
    moreover have "held ?k q" if "held k q" for q using that f(2) hd unfolding held_nth f(1) by auto
    moreover have "kmem ?k x = kmem k x" if "held k q" "in_page q x" for q x
    proof -
      have "\<not> in_page (PADDR_TO_KVADDR (cm_pa (frames k ! j))) x" if j: "j = i \<or> j = Suc i" for j
      proof -
        have "page_aligned (PADDR_TO_KVADDR (cm_pa (frames k ! j)))" using frame_facts(1) [OF k(1), of j] i j by (auto intro: page_aligned_kvaddr)
        then show ?thesis using h [OF j] \<open>held k q\<close> \<open>in_page q x\<close> held_aligned [OF k(1)] pages_apart by blast
      qed
      moreover have "take 2 (drop i (coremap k)) = [frames k ! i, frames k ! Suc i]"
        using i c l k(3) by (simp add: fenced_def numeral_2_eq_2 flip: Cons_nth_drop_Suc)
      ultimately show ?thesis by (simp add: taken_run_def zeroed_def in_page_def)
    qed
    moreover have "paging_ready ?k"
    proof -
      have "cur_vmspace ?k = cur_vmspace k" "boott ?k = boott k" by (simp_all add: taken_run_def cur_vmspace_def)
      moreover have "fenced ?k" using k(3) i l hd by (simp add: fenced_def taken_run_def)
      ultimately show ?thesis using k cm_inv_taken_run [OF k(1)] by (simp add: paging_ready_def)
    qed
    moreover have "addrspaces ?k = addrspaces k" "threads ?k = threads k" "curthread ?k = curthread k" by (simp_all add: taken_run_def)
    ultimately have "fresh_page k ?p ?k" unfolding fresh_page_def memory_kept_def using h c i by auto
    then show ?thesis using Some eq by simp
  qed
qed

lemma kmalloc_page_fresh: "paging_ready k \<Longrightarrow> returns (kmalloc 4096 k) (fresh_page k)"
  using take_first_page_fresh [of k "CHR ''k''"]
  by (simp add: kmalloc_def LARGEST_SUBPAGE_SIZE_def PAGE_SIZE_def alloc_kpages_def alloc_kpages_one_def paging_ready_def)

lemma kmalloc_addrspace_fresh: "paging_ready k \<Longrightarrow> returns (kmalloc sizeof_addrspace k) (fresh_page k)"
  using alloc_two_fresh [of k]
  by (simp add: kmalloc_def sizeof_addrspace_def LARGEST_SUBPAGE_SIZE_def PAGE_SIZE_def alloc_kpages_def paging_ready_def)

lemma pmalloc_fresh: "paging_ready k \<Longrightarrow> returns (pmalloc n k) (fresh_page k)"
  unfolding pmalloc_def by (rule take_first_page_fresh)

section \<open>Copying a page table\<close>

text \<open>
  A page \<open>p\<close> that was not in use holds what the page \<open>f\<close> held; a second-level table in which every entry is null where the old one is,
  and otherwise such a copy.
\<close>

definition page_copied :: "kernel \<Rightarrow> vaddr \<Rightarrow> kernel \<Rightarrow> vaddr \<Rightarrow> bool" where
  "page_copied k f k' p \<longleftrightarrow> p \<noteq> 0 \<and> \<not> held k p \<and> held k' p \<and> (\<forall>d < PAGE_SIZE. kmem k' (p + d) = kmem k (f + d))"

definition entry_copied :: "kernel \<Rightarrow> vaddr \<Rightarrow> kernel \<Rightarrow> vaddr \<Rightarrow> nat \<Rightarrow> bool" where
  "entry_copied k t k' t' j \<longleftrightarrow>
     (let f = kmem k (pt2_word t j); p = kmem k' (pt2_word t' j) in if f = 0 then p = 0 else page_copied k f k' p)"

definition table_copied :: "kernel \<Rightarrow> vaddr \<Rightarrow> kernel \<Rightarrow> vaddr \<Rightarrow> bool" where
  "table_copied k t k' t' \<longleftrightarrow> t' \<noteq> 0 \<and> \<not> held k t' \<and> held k' t' \<and> (\<forall>j < 1024. entry_copied k t k' t' j)"

text \<open>A table that is in use, with all the pages it refers to.\<close>

definition table_held :: "kernel \<Rightarrow> vaddr \<Rightarrow> bool" where
  "table_held k t \<longleftrightarrow> held k t \<and> (\<forall>j < 1024. kmem k (pt2_word t j) \<noteq> 0 \<longrightarrow> held k (kmem k (pt2_word t j)))"

lemma pt2_offset: "j < 1024 \<Longrightarrow> uint (4 * word_of_nat j :: 32 word) = 4 * int j"
  using take_bit_nat_eq_self [of j 32] by (simp add: uint_word_ariths unsigned_of_nat)

lemma pt2_in_page: "j < 1024 \<Longrightarrow> in_page t (pt2_word t j)"
  using pt2_offset [of j] by (simp add: in_page_def pt2_word_def PAGE_SIZE_def word_less_def)

lemma pt2_inject: "i < 1024 \<Longrightarrow> j < 1024 \<Longrightarrow> pt2_word t i = pt2_word t j \<longleftrightarrow> i = j"
proof -
  assume "i < 1024" "j < 1024"
  then have "(4 * word_of_nat i :: 32 word) = 4 * word_of_nat j \<longleftrightarrow> i = j"
    using pt2_offset [of i] pt2_offset [of j] by (simp add: word_uint_eq_iff)
  then show ?thesis by (simp add: pt2_word_def)
qed

lemma in_page_add: "d < PAGE_SIZE \<Longrightarrow> in_page p (p + d)"
  by (simp add: in_page_def)

lemma table_held_kept:
  assumes "table_held k t" "memory_kept W k k'" "t \<notin> W"
  shows "table_held k' t"
proof -
  have "kmem k' (pt2_word t j) = kmem k (pt2_word t j)" if "j < 1024" for j
    using assms memory_keptD(3) [OF assms(2) _ assms(3) pt2_in_page [OF that]] by (simp add: table_held_def)
  then show ?thesis using assms memory_keptD(2) [OF assms(2)] by (simp add: table_held_def)
qed

lemma page_copied_kept: "page_copied k f k1 p \<Longrightarrow> memory_kept W k1 k2 \<Longrightarrow> p \<notin> W \<Longrightarrow> page_copied k f k2 p"
  unfolding page_copied_def using memory_keptD(2,3) [of W k1 k2 p] in_page_add [of _ p] by simp

lemma page_copied_from:
  "page_copied k1 f k2 p \<Longrightarrow> memory_kept W k k1 \<Longrightarrow> held k f \<Longrightarrow> f \<notin> W \<Longrightarrow> page_copied k f k2 p"
  unfolding page_copied_def using memory_keptD(2) [of W k k1 p] memory_keptD(3) [of W k k1 f] in_page_add [of _ f] by auto

lemma table_copied_kept:
  assumes "table_copied k t k1 t'" "memory_kept {} k1 k2"
  shows "table_copied k t k2 t'"
proof -
  have "kmem k2 (pt2_word t' j) = kmem k1 (pt2_word t' j)" if "j < 1024" for j
    using assms memory_keptD(3) [OF assms(2) _ _ pt2_in_page [OF that]] by (simp add: table_copied_def)
  then show ?thesis using assms memory_keptD(2) [OF assms(2)] page_copied_kept [OF _ assms(2)]
    by (auto simp: table_copied_def entry_copied_def Let_def)
qed

lemma table_copied_from:
  assumes "table_copied k1 t k2 t'" "memory_kept {} k k1" "table_held k t"
  shows "table_copied k t k2 t'"
proof -
  have "kmem k1 (pt2_word t j) = kmem k (pt2_word t j)" if "j < 1024" for j
    using assms memory_keptD(3) [OF assms(2) _ _ pt2_in_page [OF that]] by (simp add: table_held_def)
  then show ?thesis using assms memory_keptD(2) [OF assms(2)] page_copied_from [OF _ assms(2)]
    by (auto simp: table_copied_def table_held_def entry_copied_def Let_def)
qed

text \<open>The inner loop: one entry, and from an entry on.\<close>

lemma as_copy_entry:
  assumes "paging_ready k" "held k t'" "table_held k t" "t \<noteq> t'" "j < 1024"
    "kmem k (pt2_word t j) \<noteq> 0" "kmem k (pt2_word t j) \<noteq> t'"
    "fresh_page k p k1" "p \<noteq> 0"
    "k2 = k1\<lparr>kmem := (let m = (kmem k1)(pt2_word t' j := p) in page_copy p (m (pt2_word t j)) m)\<rparr>"
  shows "memory_kept {t'} k k2" "page_copied k (kmem k (pt2_word t j)) k2 p" "kmem k2 (pt2_word t' j) = p" "addrspaces k2 = addrspaces k"
    "\<And>i. i < 1024 \<Longrightarrow> i \<noteq> j \<Longrightarrow> kmem k2 (pt2_word t' i) = kmem k (pt2_word t' i)"
proof -
  let ?f = "kmem k (pt2_word t j)"
  have p: "memory_kept {} k k1" "\<not> held k p" "held k1 p" using assms(8,9) by (auto simp: fresh_page_def)
  have inv: "cm_inv k1" "paging_ready k1" using memory_keptD(1) [OF p(1)] by (simp_all add: paging_ready_def)
  have h: "held k1 t" "held k1 t'" "held k1 ?f" using assms(2,3,5,6) memory_keptD(2) [OF p(1)] by (auto simp: table_held_def)
  note apart = held_apart [OF inv(1)]
  have old: "kmem k1 (pt2_word t j) = ?f" using memory_keptD(3) [OF p(1) _ _ pt2_in_page [OF assms(5)]] assms(3) by (simp add: table_held_def)
  have ne: "pt2_word t j \<noteq> pt2_word t' j" using apart [OF h(1,2)] pt2_in_page [OF assms(5)] assms(4) by metis
  have m: "kmem k2 x = (if in_page p x then ((kmem k1)(pt2_word t' j := p)) (?f + (x - p)) else if x = pt2_word t' j then p else kmem k1 x)" for x
    using ne old by (simp add: assms(10) Let_def page_copy_def in_page_def)
  have nin: "\<not> in_page p x" if "in_page q x" "held k q" for q x using apart [OF p(3) memory_keptD(2) [OF p(1) that(2)] _ that(1)] p(2) that by blast
  have k2: "paging_ready k2" "held k2 q = held k1 q" "addrspaces k2 = addrspaces k" for q
    using inv(2) paging_ready_same [of k2 k1] held_same [of k2 k1] assms(8,10) by (simp_all add: cur_vmspace_def fresh_page_def)
  have other: "kmem k2 x = kmem k1 x" if "in_page q x" "held k q" "q \<noteq> t'" for q x
    using nin [OF that(1,2)] apart [OF h(2) memory_keptD(2) [OF p(1) that(2)] _ that(1)] pt2_in_page [OF assms(5), of t'] that(3) by (auto simp: m)
  show "memory_kept {t'} k k2" using k2 memory_keptD(2,3) [OF p(1)] other unfolding memory_kept_def by (metis insertCI)
  have "kmem k2 (p + d) = kmem k (?f + d)" if "d < PAGE_SIZE" for d
  proof -
    have "?f + d \<noteq> pt2_word t' j" using apart [OF h(3,2) in_page_add [OF that]] pt2_in_page [OF assms(5), of t'] assms(7) by metis
    moreover have "kmem k1 (?f + d) = kmem k (?f + d)" using memory_keptD(3) [OF p(1) _ _ in_page_add [OF that]] assms(3,5,6) by (simp add: table_held_def)
    ultimately show ?thesis using in_page_add [OF that] by (simp add: m)
  qed
  then show "page_copied k ?f k2 p" using p k2 assms(9) by (simp add: page_copied_def)
  show "kmem k2 (pt2_word t' j) = p" using nin [OF pt2_in_page [OF assms(5)] assms(2)] by (simp add: m)
  show "addrspaces k2 = addrspaces k" using k2 by simp
  show "kmem k2 (pt2_word t' i) = kmem k (pt2_word t' i)" if "i < 1024" "i \<noteq> j" for i
    using nin [OF pt2_in_page [OF that(1)] assms(2)] memory_keptD(3) [OF p(1) assms(2) _ pt2_in_page [OF that(1)]] pt2_inject [OF that(1) assms(5)] that(2)
    by (simp add: m)
qed

definition entries_copied :: "vaddr \<Rightarrow> vaddr \<Rightarrow> nat \<Rightarrow> nat \<Rightarrow> kernel \<Rightarrow> kernel \<Rightarrow> bool" where
  "entries_copied t t' j n k k' \<longleftrightarrow> memory_kept {t'} k k' \<and> addrspaces k' = addrspaces k \<and>
    (\<forall>i < 1024. if j \<le> i \<and> i < j + n \<and> kmem k (pt2_word t i) \<noteq> 0 then page_copied k (kmem k (pt2_word t i)) k' (kmem k' (pt2_word t' i))
       else kmem k' (pt2_word t' i) = kmem k (pt2_word t' i))"

definition copying :: "vaddr \<Rightarrow> vaddr \<Rightarrow> kernel \<Rightarrow> bool" where
  "copying t t' k \<longleftrightarrow> paging_ready k \<and> held k t' \<and> table_held k t \<and> t \<noteq> t' \<and> (\<forall>i < 1024. kmem k (pt2_word t i) \<noteq> t')"

lemma entries_copied_step:
  assumes k: "copying t t' k" "j < 1024" "kmem k (pt2_word t j) \<noteq> 0" and p: "fresh_page k p k1" "p \<noteq> 0"
    and k2: "k2 = k1\<lparr>kmem := (let m = (kmem k1)(pt2_word t' j := p) in page_copy p (m (pt2_word t j)) m)\<rparr>"
  shows "copying t t' k2" "entries_copied t t' (Suc j) n k2 k' \<Longrightarrow> entries_copied t t' j (Suc n) k k'"
proof -
  have c: "paging_ready k" "held k t'" "table_held k t" "t \<noteq> t'" "\<And>i. i < 1024 \<Longrightarrow> kmem k (pt2_word t i) \<noteq> t'" using k(1) by (auto simp: copying_def)
  note e = as_copy_entry [OF c(1-4) k(2,3) c(5) [OF k(2)] p k2]
  have f: "kmem k2 (pt2_word t i) = kmem k (pt2_word t i)" if "i < 1024" for i
    using memory_keptD(3) [OF e(1) _ _ pt2_in_page [OF that]] c(3,4) by (simp add: table_held_def)
  then show "copying t t' k2" using c memory_keptD(1,2) [OF e(1)] table_held_kept [OF c(3) e(1)] by (simp add: copying_def)
  assume k': "entries_copied t t' (Suc j) n k2 k'"
  have pt': "p \<noteq> t'" using p c(2) by (auto simp: fresh_page_def)
  have "memory_kept {t'} k k'" using memory_kept_trans [OF e(1), of "{t'}" k'] k' by (auto simp: entries_copied_def)
  moreover have "if j \<le> i \<and> i < j + Suc n \<and> kmem k (pt2_word t i) \<noteq> 0 then page_copied k (kmem k (pt2_word t i)) k' (kmem k' (pt2_word t' i))
    else kmem k' (pt2_word t' i) = kmem k (pt2_word t' i)" if i: "i < 1024" for i
  proof (cases "i = j")
    case True
    have "kmem k' (pt2_word t' j) = p" using k' e(3) k(2) by (auto simp: entries_copied_def)
    then show ?thesis using True k(3) page_copied_kept [OF e(2), of "{t'}" k'] k' pt' by (simp add: entries_copied_def)
  next
    case ne: False
    have "page_copied k (kmem k (pt2_word t i)) k' q" if "page_copied k2 (kmem k (pt2_word t i)) k' q" "kmem k (pt2_word t i) \<noteq> 0" for q
      using page_copied_from [OF that(1) e(1)] c(3,5) i that(2) by (simp add: table_held_def)
    then show ?thesis using k' i ne e(5) [OF i ne] f [OF i] by (auto simp: entries_copied_def split: if_splits)
  qed
  ultimately show "entries_copied t t' j (Suc n) k k'" using k' e(4) by (simp add: entries_copied_def)
qed

lemma as_copy_pages_copies:
  "copying t t' k \<Longrightarrow> j + n \<le> 1024 \<Longrightarrow> returns (as_copy_pages t t' n j k) (\<lambda>_. entries_copied t t' j n k)"
proof (induction n arbitrary: j k)
  case 0
  then show ?case by (auto simp: memory_kept_refl entries_copied_def copying_def)
next
  case (Suc n)
  show ?case
  proof (cases "kmem k (pt2_word t j) = 0")
    case True
    then have "j \<le> i \<and> i < j + Suc n \<and> kmem k (pt2_word t i) \<noteq> 0 \<longleftrightarrow> Suc j \<le> i \<and> i < Suc j + n \<and> kmem k (pt2_word t i) \<noteq> 0" for i
      by (cases "i = j") auto
    then have "entries_copied t t' j (Suc n) k = entries_copied t t' (Suc j) n k" by (simp add: entries_copied_def fun_eq_iff)
    then show ?thesis using True Suc.IH [of k "Suc j"] Suc.prems by simp
  next
    case False
    have j: "j < 1024" using Suc.prems(2) by simp
    have "returns (as_copy_pages t t' n (Suc j) k2) (\<lambda>_. entries_copied t t' j (Suc n) k)"
      if "fresh_page k p k1" "p \<noteq> 0" "k2 = k1\<lparr>kmem := (let m = (kmem k1)(pt2_word t' j := p) in page_copy p (m (pt2_word t j)) m)\<rparr>" for p k1 k2
      using Suc.IH [of k2 "Suc j"] Suc.prems(2) entries_copied_step [OF Suc.prems(1) j False that] by (auto intro: returns_mono)
    moreover have "returns (pmalloc 4096 k) (fresh_page k)" using Suc.prems(1) by (intro pmalloc_fresh) (simp add: copying_def)
    ultimately have "returns (pmalloc 4096 k) (\<lambda>p k1. returns (if p = 0 then Undef
        else as_copy_pages t t' n (Suc j) (k1\<lparr>kmem := (let m = (kmem k1)(pt2_word t' j := p) in page_copy p (m (pt2_word t j)) m)\<rparr>))
      (\<lambda>_. entries_copied t t' j (Suc n) k))" by (auto elim!: returns_mono)
    then show ?thesis using False by simp
  qed
qed

text \<open>A whole second-level table, on a page that is fresh and cleared.\<close>

lemma as_copy_table:
  assumes "paging_ready k" "table_held k t" "fresh_page k t' k1" "t' \<noteq> 0" "coremap k2 = coremap k1" "coremapsize k2 = coremapsize k1" "boott k2 = boott k1"
    "KCoremap.cur_vmspace k2 = KCoremap.cur_vmspace k1" "kmem k2 = zeroed t' (kmem k1)"
  shows "returns (as_copy_pages t t' 1024 0 k2) (\<lambda>_ k'. memory_kept {} k k' \<and> addrspaces k' = addrspaces k2 \<and> table_copied k t k' t')"
proof -
  have p: "memory_kept {} k k1" "\<not> held k t'" "held k1 t'" using assms(3,4) by (auto simp: fresh_page_def)
  have k1: "paging_ready k1" "cm_inv k1" using memory_keptD(1) [OF p(1)] by (simp_all add: paging_ready_def)
  have m: "memory_kept {t'} k1 k2" using assms(9) held_aligned [OF k1(2) p(3)]
    by (intro memory_kept_write [OF k1(1) _ _ assms(5-8)]) (simp_all add: zeroed_def in_page_def)
  have m2: "memory_kept {} k k2" using memory_kept_trans [OF p(1) m] p(2) by auto
  have w: "kmem k2 (pt2_word t i) = kmem k (pt2_word t i)" if "i < 1024" for i
    using memory_keptD(3) [OF m2 _ _ pt2_in_page [OF that]] assms(2) by (simp add: table_held_def)
  have c: "copying t t' k2"
    using memory_keptD(1,2) [OF m] memory_keptD(2) [OF m2] p assms(2,4) table_held_kept [OF assms(2) m2] w
    by (auto simp: copying_def table_held_def)
  have "memory_kept {} k k' \<and> addrspaces k' = addrspaces k2 \<and> table_copied k t k' t'" if e: "entries_copied t t' 0 1024 k2 k'" for k'
  proof -
    have k': "memory_kept {t'} k2 k'" using e by (simp add: entries_copied_def)
    have z: "kmem k2 (pt2_word t' i) = 0" if "i < 1024" for i using pt2_in_page [OF that, of t'] assms(9) by (simp add: zeroed_def in_page_def)
    have "entry_copied k t k' t' i" if "i < 1024" for i
      using e that w [OF that] z [OF that] page_copied_from [OF _ m2] assms(2) by (auto simp: entries_copied_def entry_copied_def table_held_def Let_def)
    then show ?thesis using e memory_kept_trans [OF m2 k'] p(2) memory_keptD(2) [OF k'] memory_keptD(2) [OF m p(3)] assms(4)
      by (auto simp: entries_copied_def table_copied_def)
  qed
  then show ?thesis using as_copy_pages_copies [OF c, of 0 1024] by (auto intro: returns_mono)
qed

section \<open>Copying an address space\<close>

definition space_held :: "kernel \<Rightarrow> addrspace \<Rightarrow> bool" where
  "space_held k a \<longleftrightarrow> (\<forall>m < 1024. PT1 a ! m \<noteq> 0 \<longrightarrow> table_held k (PT1 a ! m))"

definition tables_copied :: "addrspace \<Rightarrow> nat \<Rightarrow> nat \<Rightarrow> kernel \<Rightarrow> vaddr list \<Rightarrow> kernel \<Rightarrow> vaddr list \<Rightarrow> bool" where
  "tables_copied a i n k pt k' pt' \<longleftrightarrow> memory_kept {} k k' \<and> length pt' = length pt \<and>
     (\<forall>m < 1024. if i \<le> m \<and> m < i + n \<and> PT1 a ! m \<noteq> 0 then table_copied k (PT1 a ! m) k' (pt' ! m) else pt' ! m = pt ! m)"

lemma tables_copied_skip: "PT1 a ! i = 0 \<Longrightarrow> tables_copied a (Suc i) n k pt k' pt' \<Longrightarrow> tables_copied a i (Suc n) k pt k' pt'"
proof -
  assume "PT1 a ! i = 0"
  then have "i \<le> m \<and> m < i + Suc n \<and> PT1 a ! m \<noteq> 0 \<longleftrightarrow> Suc i \<le> m \<and> m < Suc i + n \<and> PT1 a ! m \<noteq> 0" for m by (cases "m = i") auto
  then show "tables_copied a (Suc i) n k pt k' pt' \<Longrightarrow> tables_copied a i (Suc n) k pt k' pt'" by (simp add: tables_copied_def)
qed

lemma tables_copied_step:
  assumes "space_held k a" "i < 1024" "PT1 a ! i \<noteq> 0" "length pt = 1024" "memory_kept {} k k1" "table_copied k (PT1 a ! i) k1 t'"
    "tables_copied a (Suc i) n k1 (pt[i := t']) k' pt'"
  shows "tables_copied a i (Suc n) k pt k' pt'"
proof -
  have k': "memory_kept {} k1 k'" using assms(7) by (simp add: tables_copied_def)
  have "if i \<le> m \<and> m < i + Suc n \<and> PT1 a ! m \<noteq> 0 then table_copied k (PT1 a ! m) k' (pt' ! m) else pt' ! m = pt ! m"
    if m: "m < 1024" for m
  proof (cases "m = i")
    case True
    then have "pt' ! m = t'" using assms(2,4,7) by (auto simp: tables_copied_def)
    then show ?thesis using True assms(3) table_copied_kept [OF assms(6) k'] by simp
  next
    case False
    have "table_copied k (PT1 a ! m) k' q" if "table_copied k1 (PT1 a ! m) k' q" "PT1 a ! m \<noteq> 0" for q
      using table_copied_from [OF that(1) assms(5)] assms(1) m that(2) by (simp add: space_held_def)
    then show ?thesis using assms(7) m False by (auto simp: tables_copied_def split: if_splits)
  qed
  then show ?thesis using assms(7) memory_kept_trans [OF assms(5) k'] by (simp add: tables_copied_def)
qed

lemma as_copy_tables_copies:
  assumes "paging_ready k" "addrspaces k old = Some a" "addrspaces k new = Some b" "new \<noteq> old" "space_held k a" "length (PT1 b) = 1024" "i + n \<le> 1024"
  shows "returns (as_copy_tables old new n i k)
    (\<lambda>_ k'. \<exists>pt. addrspaces k' = (addrspaces k)(new \<mapsto> b\<lparr>PT1 := pt\<rparr>) \<and> tables_copied a i n k (PT1 b) k' pt)"
  using assms
proof (induction n arbitrary: i k b)
  case 0
  then have "(addrspaces k)(new \<mapsto> b\<lparr>PT1 := PT1 b\<rparr>) = addrspaces k" by auto
  with 0 show ?case by (auto simp: tables_copied_def memory_kept_refl intro!: exI [of _ "PT1 b"])
next
  case (Suc n)
  let ?R = "\<lambda>i n k b k'. \<exists>pt. addrspaces k' = (addrspaces k)(new \<mapsto> b\<lparr>PT1 := pt\<rparr>) \<and> tables_copied a i n k (PT1 b) k' pt"
  show ?case
  proof (cases "PT1 a ! i = 0")
    case True
    have "returns (as_copy_tables old new n (Suc i) k) (\<lambda>_. ?R (Suc i) n k b)" using Suc.prems by (intro Suc.IH) simp_all
    then have "returns (as_copy_tables old new n (Suc i) k) (\<lambda>_. ?R i (Suc n) k b)" by (rule returns_mono) (use tables_copied_skip [OF True] in blast)
    moreover have "as_copy_tables old new (Suc n) i k = as_copy_tables old new n (Suc i) k" using True Suc.prems(2) by simp
    ultimately show ?thesis by (simp only:)
  next
    case False
    have i: "i < 1024" and t: "table_held k (PT1 a ! i)" using Suc.prems(5,7) False by (auto simp: space_held_def)
    have "returns (as_copy_pages (PT1 a ! i) t' 1024 0 k2) (\<lambda>_ k. returns (as_copy_tables old new n (Suc i) k) (\<lambda>_. ?R i (Suc n) k0 b))"
      if k0: "k0 = k" and p: "fresh_page k t' k1" "t' \<noteq> 0"
      and k2: "k2 = k1\<lparr>kmem := zeroed t' (kmem k1), addrspaces := (addrspaces k1)(new \<mapsto> b\<lparr>PT1 := (PT1 b)[i := t']\<rparr>)\<rparr>" for k0 k1 k2 t'
    proof -
      have s: "addrspaces k1 = addrspaces k" using p by (simp add: fresh_page_def)
      have "returns (as_copy_tables old new n (Suc i) k3) (\<lambda>_. ?R i (Suc n) k b)"
        if m: "memory_kept {} k k3" and as: "addrspaces k3 = addrspaces k2" and tc: "table_copied k (PT1 a ! i) k3 t'" for k3
      proof -
        have "returns (as_copy_tables old new n (Suc i) k3) (\<lambda>_. ?R (Suc i) n k3 (b\<lparr>PT1 := (PT1 b)[i := t']\<rparr>))"
          using Suc.prems s as k2 memory_keptD(1) [OF m] table_held_kept [OF _ m] by (intro Suc.IH) (auto simp: space_held_def)
        then show ?thesis
          using tables_copied_step [OF Suc.prems(5) i False Suc.prems(6) m tc] as s k2 by (auto elim!: returns_mono)
      qed
      moreover have "returns (as_copy_pages (PT1 a ! i) t' 1024 0 k2)
          (\<lambda>_ k'. memory_kept {} k k' \<and> addrspaces k' = addrspaces k2 \<and> table_copied k (PT1 a ! i) k' t')"
        by (rule as_copy_table [OF Suc.prems(1) t p]) (simp_all add: k2 KCoremap.cur_vmspace_def)
      ultimately show ?thesis using k0 by (auto elim!: returns_mono)
    qed
    note rest = this
    have "returns (if t' = 0 then Undef else kbind (set_as new (\<lambda>b. b\<lparr>PT1 := (PT1 b)[i := t']\<rparr>) (k1\<lparr>kmem := zeroed t' (kmem k1)\<rparr>)) (\<lambda>_ k.
        kbind (as_copy_pages (PT1 a ! i) t' 1024 0 k) (\<lambda>_ k. as_copy_tables old new n (Suc i) k))) (\<lambda>_. ?R i (Suc n) k b)"
      if p: "fresh_page k t' k1" for t' k1
    proof -
      have "addrspaces k1 new = Some b" using p Suc.prems(3) by (simp add: fresh_page_def)
      then show ?thesis using rest [OF refl p _ refl] by (simp add: set_as_def)
    qed
    note table = this
    have eq: "as_copy_tables old new (Suc n) i k = kbind (kmalloc 4096 k) (\<lambda>t' k1. if t' = 0 then Undef
        else kbind (set_as new (\<lambda>b. b\<lparr>PT1 := (PT1 b)[i := t']\<rparr>) (k1\<lparr>kmem := zeroed t' (kmem k1)\<rparr>)) (\<lambda>_ k.
          kbind (as_copy_pages (PT1 a ! i) t' 1024 0 k) (\<lambda>_ k. as_copy_tables old new n (Suc i) k)))" using False Suc.prems(2) by simp
    show ?thesis unfolding eq by (rule returns_bind [OF kmalloc_page_fresh [OF Suc.prems(1)]]) (rule table)
  qed
qed

text \<open>
  \<open>b\<close> has the regions and the file of \<open>a\<close>, and a page for every page of \<open>a\<close>, with its contents, in frames that were not in use.
  The sizes of the regions in the file and the top of the heap are not copied.
\<close>

definition space_copied :: "kernel \<Rightarrow> addrspace \<Rightarrow> kernel \<Rightarrow> addrspace \<Rightarrow> bool" where
  "space_copied k a k' b \<longleftrightarrow>
     as_vbase1 b = as_vbase1 a \<and> as_npages1 b = as_npages1 a \<and> as_offset1 b = as_offset1 a \<and> is_executable1 b = is_executable1 a \<and>
     as_vbase2 b = as_vbase2 a \<and> as_npages2 b = as_npages2 a \<and> as_offset2 b = as_offset2 a \<and> is_executable2 b = is_executable2 a \<and>
     as_vbase3 b = as_vbase3 a \<and> as_npages3 b = as_npages3 a \<and> as_v b = as_v a \<and>
     (\<forall>m < 1024. if PT1 a ! m = 0 then PT1 b ! m = 0 else table_copied k (PT1 a ! m) k' (PT1 b ! m))"

definition copied_to :: "kernel \<Rightarrow> vaddr \<Rightarrow> addrspace \<Rightarrow> vaddr \<Rightarrow> kernel \<Rightarrow> bool" where
  "copied_to k old a new k' \<longleftrightarrow> new \<noteq> old \<and> memory_kept {} k k' \<and> addrspaces k' old = Some a \<and>
     (\<exists>b. addrspaces k' new = Some b \<and> space_copied k a k' b)"

lemma vnode_counts_only:
  "returns (vnode_incref v k) (\<lambda>_ k'. \<exists>vs. k' = k\<lparr>vnodes := vs\<rparr>)" "returns (vnode_incopen v k) (\<lambda>_ k'. \<exists>vs. k' = k\<lparr>vnodes := vs\<rparr>)"
  by (auto simp: vnode_incref_def vnode_incopen_def vn_update_def)

lemma memory_kept_vnodes:
  "memory_kept W k (k'\<lparr>vnodes := vs\<rparr>) = memory_kept W k k'"
  using paging_ready_same [of "k'\<lparr>vnodes := vs\<rparr>" k'] held_same [of "k'\<lparr>vnodes := vs\<rparr>" k'] by (simp add: memory_kept_def KCoremap.cur_vmspace_def)

lemma copied_to_vnodes: "copied_to k old a new (k'\<lparr>vnodes := vs\<rparr>) = copied_to k old a new k'"
  using held_same [of "k'\<lparr>vnodes := vs\<rparr>" k']
  by (simp add: copied_to_def memory_kept_vnodes space_copied_def table_copied_def entry_copied_def page_copied_def)

lemma memory_kept_spaces: "memory_kept W k (k'\<lparr>addrspaces := sp\<rparr>) = memory_kept W k k'"
  using paging_ready_same [of "k'\<lparr>addrspaces := sp\<rparr>" k'] held_same [of "k'\<lparr>addrspaces := sp\<rparr>" k'] by (simp add: memory_kept_def KCoremap.cur_vmspace_def)

text \<open>The fields that are copied before the page tables.\<close>

definition copied_fields :: "addrspace \<Rightarrow> addrspace \<Rightarrow> addrspace" where
  "copied_fields a b = b\<lparr>as_vbase1 := as_vbase1 a, as_npages1 := as_npages1 a, as_offset1 := as_offset1 a, is_executable1 := is_executable1 a,
     as_vbase2 := as_vbase2 a, as_npages2 := as_npages2 a, as_offset2 := as_offset2 a, is_executable2 := is_executable2 a,
     as_vbase3 := as_vbase3 a, as_npages3 := as_npages3 a, as_v := as_v a\<rparr>"

lemma as_copy_tables_space:
  assumes "paging_ready k" "held k old" "addrspaces k old = Some a" "space_held k a"
    and p: "fresh_page k new k1" "new \<noteq> 0" and k2: "k2 = k1\<lparr>addrspaces := (addrspaces k1)(new \<mapsto> copied_fields a as_zero)\<rparr>"
  shows "returns (as_copy_tables old new 1024 0 k2) (\<lambda>_. copied_to k old a new)"
proof -
  let ?b = "copied_fields a as_zero"
  have b: "PT1 ?b = replicate 1024 0" by (simp add: copied_fields_def as_zero_def)
  have ne: "new \<noteq> old" using p assms(2) by (auto simp: fresh_page_def)
  have m: "memory_kept {} k k2" using p by (simp add: k2 memory_kept_spaces fresh_page_def)
  have "copied_to k old a new k'"
    if as: "addrspaces k' = (addrspaces k2)(new \<mapsto> ?b\<lparr>PT1 := pt\<rparr>)" and tc: "tables_copied a 0 1024 k2 (PT1 ?b) k' pt" for k' pt
  proof -
    have "memory_kept {} k k'" using memory_kept_trans [OF m] tc by (auto simp: tables_copied_def)
    moreover have "if PT1 a ! i = 0 then pt ! i = 0 else table_copied k (PT1 a ! i) k' (pt ! i)" if "i < 1024" for i
      using tc that table_copied_from [OF _ m] assms(4) by (auto simp: tables_copied_def space_held_def b)
    moreover have "addrspaces k' old = Some a" using p ne assms(3) by (simp add: as k2 fresh_page_def)
    ultimately show ?thesis using ne by (simp add: copied_to_def as space_copied_def copied_fields_def)
  qed
  moreover have "addrspaces k2 old = Some a" using p ne assms(3) by (simp add: k2 fresh_page_def)
  ultimately show ?thesis
    using as_copy_tables_copies [of k2 old a new ?b 0 1024] memory_keptD(1) [OF m] table_held_kept [OF _ m] assms(4) ne
    by (auto simp: k2 space_held_def b elim!: returns_mono)
qed

lemma as_copy_counts:
  assumes "copied_to k0 old a new k"
  shows "returns (kbind (vnode_incref v k) (\<lambda>_ k. kbind (vnode_incopen v k) (\<lambda>_ k. Ret new k))) (\<lambda>new. copied_to k0 old a new)"
proof (rule returns_bind [OF vnode_counts_only(1)])
  fix u k1
  assume "\<exists>vs. k1 = k\<lparr>vnodes := vs\<rparr>"
  with assms have "copied_to k0 old a new k1" by (auto simp: copied_to_vnodes)
  then show "returns (kbind (vnode_incopen v k1) (\<lambda>_ k. Ret new k)) (\<lambda>new. copied_to k0 old a new)"
    by (intro returns_bind [OF vnode_counts_only(2)]) (auto simp: copied_to_vnodes)
qed

lemma as_copy_copies:
  assumes "paging_ready k" "held k old" "addrspaces k old = Some a" "space_held k a"
  shows "returns (as_copy old k) (\<lambda>new. copied_to k old a new)"
proof -
  have rest: "returns (if new = 0 then Err ENOMEM k1 else deref (addrspaces k1 old) (\<lambda>a.
      kbind (set_as new (copied_fields a) k1) (\<lambda>_ k. kbind (as_copy_tables old new 1024 0 k) (\<lambda>_ k.
      kbind (as_prepare_load new k) (\<lambda>_ k. kbind (vnode_incref (as_v a) k) (\<lambda>_ k. kbind (vnode_incopen (as_v a) k) (\<lambda>_ k. Ret new k)))))))
    (\<lambda>new. copied_to k old a new)"
    if "new \<noteq> 0 \<longrightarrow> (\<exists>k0. fresh_page k new k0 \<and> k1 = k0\<lparr>addrspaces := (addrspaces k0)(new \<mapsto> as_zero)\<rparr>)" for new k1
  proof (cases "new = 0")
    case False
    with that obtain k0 where k0: "fresh_page k new k0" "k1 = k0\<lparr>addrspaces := (addrspaces k0)(new \<mapsto> as_zero)\<rparr>" by blast
    moreover have "addrspaces k1 old = Some a" using k0 False assms(2,3) by (auto simp: fresh_page_def)
    moreover have "returns (kbind (as_copy_tables old new 1024 0 (k0\<lparr>addrspaces := (addrspaces k0)(new \<mapsto> copied_fields a as_zero)\<rparr>)) (\<lambda>_ k.
        kbind (vnode_incref (as_v a) k) (\<lambda>_ k. kbind (vnode_incopen (as_v a) k) (\<lambda>_ k. Ret new k)))) (\<lambda>new. copied_to k old a new)"
      by (rule returns_bind [OF as_copy_tables_space [OF assms k0(1) False refl]]) (rule as_copy_counts)
    ultimately show ?thesis using False by (simp add: set_as_def as_prepare_load_def del: returns_kbind)
  qed simp
  have "returns (as_create k) (\<lambda>new k1. new \<noteq> 0 \<longrightarrow> (\<exists>k0. fresh_page k new k0 \<and> k1 = k0\<lparr>addrspaces := (addrspaces k0)(new \<mapsto> as_zero)\<rparr>))"
    using kmalloc_addrspace_fresh [OF assms(1)] by (auto simp: as_create_def elim!: returns_mono)
  then show ?thesis unfolding as_copy_def copied_fields_def [symmetric] by (rule returns_bind) (rule rest)
qed

section \<open>Small blocks\<close>

text \<open>Allocating a small block of the heap keeps the contents of every page in use and the address spaces.\<close>

definition heap_quiet :: "kernel \<Rightarrow> kernel \<Rightarrow> bool" where
  "heap_quiet k k' \<longleftrightarrow> memory_kept {} k k' \<and> addrspaces k' = addrspaces k \<and> threads k' = threads k \<and> curthread k' = curthread k"

lemma heap_quiet_same:
  assumes "heap_quiet k k1" "coremap k2 = coremap k1" "coremapsize k2 = coremapsize k1" "boott k2 = boott k1" "kmem k2 = kmem k1"
    "addrspaces k2 = addrspaces k1" "threads k2 = threads k1" "curthread k2 = curthread k1"
  shows "heap_quiet k k2"
  using assms paging_ready_same [of k2 k1] held_same [of k2 k1] by (simp add: heap_quiet_def memory_kept_def KCoremap.cur_vmspace_def)

lemma heap_quiet_heap [simp]:
  "heap_quiet k k1 \<Longrightarrow> heap_quiet k (k1\<lparr>pagerefs := p\<rparr>)" "heap_quiet k k1 \<Longrightarrow> heap_quiet k (k1\<lparr>pagerefs_inuse := i\<rparr>)" "heap_quiet k k1 \<Longrightarrow> heap_quiet k (splx s k1)"
  "heap_quiet k k1 \<Longrightarrow> heap_quiet k (splhigh k1)"
  by (erule heap_quiet_same; simp add: spl_defs)+

lemma pr_set_quiet: "heap_quiet k k1 \<Longrightarrow> returns (pr_set p f k1) (\<lambda>_. heap_quiet k)"
  by (simp add: pr_set_def)

lemma doalloc_quiet: "heap_quiet k k1 \<Longrightarrow> returns (doalloc spl p k1) (\<lambda>_. heap_quiet k)"
  by (auto simp: doalloc_def Let_def intro!: returns_mono [OF pr_set_quiet])

lemma find_samesize_same: "returns (find_samesize n b p k) (\<lambda>_ k'. k' = k)"
  by (induction n arbitrary: p) (auto split: option.split)

lemma allocpageref_quiet: "heap_quiet k k1 \<Longrightarrow> returns (allocpageref k1) (\<lambda>_. heap_quiet k)"
proof -
  assume "heap_quiet k k1"
  then have "returns (allocpageref_words n i k1) (\<lambda>_. heap_quiet k)" for n i
    by (induction n arbitrary: i) (auto simp: Let_def split: option.split)
  then show ?thesis by (simp add: allocpageref_def)
qed

lemma thread_page_outside:
  "(\<And>j. j \<le> i \<Longrightarrow> in_page fla (fla + of_nat j * sz)) \<Longrightarrow> \<not> in_page fla x \<Longrightarrow> thread_page fla sz i m x = m x"
proof (induction i)
  case 0
  then show ?case using "0.prems"(1) [of 0] by auto
next
  case (Suc i)
  then have "x \<noteq> fla + of_nat (Suc i) * sz" using Suc.prems(1) [of "Suc i"] by auto
  with Suc show ?case by (simp del: of_nat_Suc)
qed

lemma block_in_page:
  assumes "b < 8" "j \<le> 4096 div nat (uint (sizes ! b)) - 1"
  shows "in_page fla (fla + of_nat j * sizes ! b)"
proof -
  let ?s = "sizes ! b"
  have "b = 0 \<or> b = 1 \<or> b = 2 \<or> b = 3 \<or> b = 4 \<or> b = 5 \<or> b = 6 \<or> b = 7" using assms(1) by linarith
  then have "nat (uint ?s) = unat ?s" "j * unat ?s < 4096" "j < 4096" using assms(2) by (auto simp: sizes_def)
  then have "unat (of_nat j * ?s) < 4096"
    using take_bit_nat_eq_self [of j 32] by (simp add: unat_word_ariths unsigned_of_nat)
  then show ?thesis by (simp add: in_page_def PAGE_SIZE_def word_less_nat_alt)
qed

lemma new_page_quiet:
  assumes "b < 8" "heap_quiet k k1" "\<not> held k p" "page_aligned p"
  shows "returns (new_page b r p k1) (\<lambda>_. heap_quiet k)"
proof -
  have q: "heap_quiet k (k2\<lparr>kmem := thread_page p (sizes ! b) (4096 div nat (uint (sizes ! b)) - 1) (kmem k2), sizebases := sb, allbase := ab\<rparr>)"
    if "heap_quiet k k2" for k2 sb ab
  proof -
    let ?k = "k2\<lparr>kmem := thread_page p (sizes ! b) (4096 div nat (uint (sizes ! b)) - 1) (kmem k2), sizebases := sb, allbase := ab\<rparr>"
    have m: "memory_kept {} k k2" using that by (simp add: heap_quiet_def)
    have "thread_page p (sizes ! b) (4096 div nat (uint (sizes ! b)) - 1) (kmem k2) x = kmem k2 x" if "\<not> in_page p x" for x
      using block_in_page [OF assms(1)] that by (rule thread_page_outside)
    then have "memory_kept {p} k2 ?k"
      by (intro memory_kept_write [OF memory_keptD(1) [OF m] _ assms(4)]) (simp_all add: KCoremap.cur_vmspace_def)
    then show ?thesis using that memory_kept_trans [OF m] assms(3) by (auto simp: heap_quiet_def)
  qed
  show ?thesis using returns_mono [OF pr_set_quiet [OF assms(2)]] q by (auto simp: new_page_def Let_def)
qed

lemma grow_quiet:
  assumes "b < 8" "heap_quiet k k1" "paging_ready k"
  shows "returns (kbind (alloc_kpages 1 k1) (\<lambda>p k. if p = 0 then kbind (freepageref r k) (\<lambda>_ k. Ret 0 (splx spl k))
    else kbind (new_page b r p k) (\<lambda>_ k. doalloc spl r k))) (\<lambda>_. heap_quiet k)"
proof (rule returns_bind [of _ "\<lambda>p k2. fresh_page k1 p k2"])
  have m: "memory_kept {} k k1" using assms(2) by (simp add: heap_quiet_def)
  then show "returns (alloc_kpages 1 k1) (fresh_page k1)" using take_first_page_fresh [OF memory_keptD(1) [OF m], of "CHR ''k''"] memory_keptD(1) [OF m]
    by (simp add: alloc_kpages_def alloc_kpages_one_def paging_ready_def)
  fix p k2
  assume f: "fresh_page k1 p k2"
  then have q: "heap_quiet k k2" using assms(2) memory_kept_trans [OF m] by (auto simp: heap_quiet_def fresh_page_def)
  show "returns (if p = 0 then kbind (freepageref r k2) (\<lambda>_ k. Ret 0 (splx spl k)) else kbind (new_page b r p k2) (\<lambda>_ k. doalloc spl r k)) (\<lambda>_. heap_quiet k)"
  proof (cases "p = 0")
    case True
    then show ?thesis using q by (simp add: freepageref_def Let_def)
  next
    case False
    then have "\<not> held k p" "held k2 p" "cm_inv k2" using f memory_keptD(2) [OF m] by (auto simp: fresh_page_def memory_kept_def paging_ready_def)
    then have "returns (new_page b r p k2) (\<lambda>_. heap_quiet k)" using held_aligned by (intro new_page_quiet [OF assms(1) q]) blast+
    then have "returns (kbind (new_page b r p k2) (\<lambda>_ k. doalloc spl r k)) (\<lambda>_. heap_quiet k)" by (rule returns_bind) (rule doalloc_quiet)
    then show ?thesis using False by (simp del: returns_kbind)
  qed
qed

lemma subpage_kmalloc_quiet:
  assumes "paging_ready k"
  shows "returns (subpage_kmalloc sz k) (\<lambda>_. heap_quiet k)"
proof (cases "blocktype sz")
  case None
  then show ?thesis by (simp add: subpage_kmalloc_def)
next
  case (Some b)
  then have "b < length sizes" unfolding blocktype_def first_index_eq_Some by blast
  then have b: "b < 8" by (simp add: sizes_def)
  have h: "heap_quiet k (splhigh k)" using assms by (simp add: heap_quiet_def memory_kept_refl) (metis heap_quiet_def heap_quiet_heap(4) memory_kept_refl)
  have "returns (kbind (allocpageref (splhigh k)) (\<lambda>r k. case r of None \<Rightarrow> Ret 0 (splx spl k)
     | Some r \<Rightarrow> kbind (alloc_kpages 1 k) (\<lambda>p k. if p = 0 then kbind (freepageref r k) (\<lambda>_ k. Ret 0 (splx spl k))
         else kbind (new_page b r p k) (\<lambda>_ k. doalloc spl r k)))) (\<lambda>_. heap_quiet k)" for spl
    by (rule returns_bind [OF allocpageref_quiet [OF h]]) (use grow_quiet [OF b _ assms] in \<open>simp del: returns_kbind split: option.split\<close>)
  then show ?thesis using Some doalloc_quiet [OF h]
    by (auto simp: subpage_kmalloc_def Let_def simp del: returns_kbind intro!: returns_bind [OF find_samesize_same] split: option.split)
qed

lemma kmalloc_small_quiet: "sz < LARGEST_SUBPAGE_SIZE \<Longrightarrow> paging_ready k \<Longrightarrow> returns (kmalloc sz k) (\<lambda>_. heap_quiet k)"
  using subpage_kmalloc_quiet [of k sz] by (auto simp: kmalloc_def)

lemma space_held_kept: "space_held k a \<Longrightarrow> memory_kept {} k k' \<Longrightarrow> space_held k' a"
  using table_held_kept by (auto simp: space_held_def)

lemma copied_to_from:
  assumes "copied_to k0 old a new k'" "memory_kept {} k k0" "space_held k a"
  shows "copied_to k old a new k'"
proof -
  have "memory_kept {} k k'" using memory_kept_trans [OF assms(2)] assms(1) by (auto simp: copied_to_def)
  moreover have "space_copied k a k' b" if "space_copied k0 a k' b" for b
    using that table_copied_from [OF _ assms(2)] assms(3) by (auto simp: space_copied_def space_held_def)
  ultimately show ?thesis using assms(1) by (auto simp: copied_to_def)
qed

text \<open>A successful copy after a small allocation, as \<^verbatim>\<open>fork\<close> does it.\<close>

lemma as_copy_after_kmalloc:
  assumes "paging_ready k" "held k old" "addrspaces k old = Some a" "space_held k a" "sz < LARGEST_SUBPAGE_SIZE"
    "kmalloc sz k = Ret p k0" "as_copy old k0 = Ret new k'"
  shows "copied_to k old a new k'"
proof -
  have q: "heap_quiet k k0" using kmalloc_small_quiet [OF assms(5,1)] assms(6) by simp
  then have m: "memory_kept {} k k0" by (simp add: heap_quiet_def)
  have "returns (as_copy old k0) (\<lambda>new. copied_to k0 old a new)"
    using q assms(2,3) memory_keptD(1,2) [OF m] space_held_kept [OF assms(4) m] by (intro as_copy_copies) (simp_all add: heap_quiet_def)
  then show ?thesis using assms(7) copied_to_from [OF _ m assms(4)] by simp
qed

end
