(* ===== verification/KCalls.thy ===== *)
theory KCalls
  imports KTrap KFork KCopy
begin

text \<open>
  Properties of the system calls of \<^verbatim>\<open>KSyscall\<close>: the break of a process, waiting for a child, and
  the registers and memory of a forked process.
\<close>

section \<open>The break\<close>

lemma sbrk_pages_eq: "sbrk_pages a i = (if a > 4096 then i + (a - 1) div 4096 else i)"
proof (induction a i rule: sbrk_pages.induct)
  case (1 a i)
  show ?case
  proof (cases "a > 4096")
    case True
    have "(a - 1) div 4096 = (a - 4096 - 1) div 4096 + 1" by simp
    moreover have "sbrk_pages a i = sbrk_pages (a - 4096) (i + 1)" using True by (subst sbrk_pages.simps) simp
    ultimately show ?thesis using 1 [OF True] True by (cases "a - 4096 > 4096") (simp_all add: div_pos_pos_trivial)
  qed (subst sbrk_pages.simps, simp)
qed

lemma sbrk_pages_1: "0 < a \<Longrightarrow> sbrk_pages a 1 = (a + 4095) div 4096"
  unfolding sbrk_pages_eq by (cases "a > 4096") simp_all

definition stackbase :: int where
  "stackbase = 0x7fe00000"

definition heap_ok :: "addrspace \<Rightarrow> bool" where
  "heap_ok as \<longleftrightarrow> uint (as_vbase3 as) \<le> uint (as_vtop3 as) \<and> uint (as_vtop3 as) < stackbase"

lemma uint_new_break:
  fixes v :: "32 word"
  assumes "uint v < 2147483648" "- 2147483648 \<le> a" "a < 2147483648"
  shows "uint (v + word_of_int a) = (if 0 \<le> uint v + a then uint v + a else uint v + a + 4294967296)"
proof -
  have "uint (v + word_of_int a) = (uint v + a) mod 4294967296"
    by (simp add: uint_word_ariths unsigned_of_int take_bit_eq_mod mod_simps)
  moreover have "0 \<le> uint v + a + 4294967296" using assms(2) uint_ge_0 [of v] by linarith
  ultimately show ?thesis using assms mod_pos_pos_trivial [of "uint v + a" 4294967296] mod_pos_pos_trivial [of "uint v + a + 4294967296" 4294967296]
    by (cases "0 \<le> uint v + a") simp_all
qed

text \<open>The number of pages after growing by \<open>a\<close> bytes.\<close>

lemma sbrk_page_count:
  fixes n :: "32 word"
  assumes "uint n < 524288" "0 \<le> a" "a < 2147483648"
  shows "uint (if n * 4096 \<ge> word_of_int a then n else n + word_of_int (sbrk_pages (s32 (a - uint (n * 4096))) 1)) =
    max (uint n) ((a + 4095) div 4096)"
proof -
  have n: "0 \<le> uint n" by simp
  have room: "uint (n * 4096) = uint n * 4096" using assms(1) by (simp add: uint_word_ariths)
  have a: "uint (word_of_int a :: 32 word) = a" using assms by (simp add: unsigned_of_int take_bit_eq_mod)
  show ?thesis
  proof (cases "a \<le> uint n * 4096")
    case True
    then have "(a + 4095) div 4096 \<le> uint n" by linarith
    with True show ?thesis by (simp add: word_le_def room a)
  next
    case False
    let ?r = "a - uint n * 4096"
    have "s32 ?r = ?r" by (rule s32_id) (use assms n False in linarith)+
    moreover have "sbrk_pages ?r 1 = (?r + 4095) div 4096" by (rule sbrk_pages_1) (use False in linarith)
    moreover have "(?r + 4095) div 4096 = (a + 4095) div 4096 - uint n" by (simp add: algebra_simps)
    moreover have "uint n \<le> (a + 4095) div 4096" using False by linarith
    moreover have "uint (n + word_of_int ((a + 4095) div 4096 - uint n)) = (a + 4095) div 4096"
      using assms by (simp add: uint_word_ariths unsigned_of_int take_bit_eq_mod mod_simps)
    ultimately show ?thesis using False by (simp add: word_le_def room a)
  qed
qed

text \<open>
  C22. The break. As long as the break of the current process lies between the base of its heap and the lowest page
  of the stack, \<^verbatim>\<open>sbrk\<close> moves it by exactly \<open>amount\<close>, or leaves everything as it was and fails: with \<^verbatim>\<open>EINVAL\<close> when the new
  break would be an address below the heap, and with \<^verbatim>\<open>ENOMEM\<close> when it would reach the stack or be a negative address, so that no wrap-around of
  the addition can move the break out of its bounds. For a negative address the manual (\<^verbatim>\<open>man/syscall/sbrk.html\<close>) and the test
  \<^verbatim>\<open>testbin/badcall/bad_sbrk.c\<close> ask for \<^verbatim>\<open>EINVAL\<close> as well: the code compares the wrapped sum with the stack first. \<^verbatim>\<open>sbrk\<close> returns the old
  break. The page count of the heap after growing is the larger of what it was and the number of pages in \<open>amount\<close>.
\<close>

theorem sbrk_moves_break:
  assumes "cur_proc s = Some th" "addrspaces (krn s) (t_vmspace th) = Some as" "heap_ok as" "- 2147483648 \<le> amount" "amount < 2147483648"
    "new = uint (as_vtop3 as) + amount"
  shows "(uint (as_vbase3 as) \<le> new \<and> new < stackbase \<longrightarrow>
      (\<exists>np. sbrk amount s = Ret (Sys_return 0 (uint (as_vtop3 as)))
         (s\<lparr>krn := (krn s)\<lparr>addrspaces := (addrspaces (krn s))(t_vmspace th \<mapsto> as\<lparr>as_npages3 := np, as_vtop3 := word_of_int new\<rparr>)\<rparr>\<rparr>) \<and>
       heap_ok (as\<lparr>as_npages3 := np, as_vtop3 := word_of_int new\<rparr>) \<and> uint (word_of_int new :: 32 word) = new \<and>
       (0 \<le> amount \<and> uint (as_npages3 as) < 524288 \<longrightarrow> uint np = max (uint (as_npages3 as)) ((amount + 4095) div 4096)))) \<and>
    (\<not> (uint (as_vbase3 as) \<le> new \<and> new < stackbase) \<longrightarrow>
      sbrk amount s = fails (if 0 \<le> new \<and> new < stackbase then EINVAL else ENOMEM) s)"
proof -
  let ?np = "if as_npages3 as * 4096 \<ge> word_of_int amount then as_npages3 as
    else as_npages3 as + word_of_int (sbrk_pages (s32 (amount - uint (as_npages3 as * 4096))) 1)"
  have v: "uint (as_vtop3 as) < 2147483648" using assms(3) by (simp add: heap_ok_def stackbase_def)
  have sv: "sint (as_vtop3 as) = uint (as_vtop3 as)" 
    using v signed_take_bit_int_eq_self [of 31 "uint (as_vtop3 as)"] uint_ge_0 [of "as_vtop3 as"] by (simp add: sint_uint)
  note nb = uint_new_break [OF v assms(4,5)]
  have ge: "as_vtop3 as + word_of_int amount \<ge> 0x7fe00000 \<longleftrightarrow> \<not> (0 \<le> new \<and> new < stackbase)"
  proof -
    have "0 \<le> new + 2147483648" using assms(4,6) uint_ge_0 [of "as_vtop3 as"] by linarith
    then show ?thesis using nb assms(6) by (cases "0 \<le> new") (simp_all add: word_le_def stackbase_def not_less)
  qed
  have lt: "0 \<le> new \<Longrightarrow> as_vtop3 as + word_of_int amount < as_vbase3 as \<longleftrightarrow> new < uint (as_vbase3 as)"
    using nb assms by (simp add: word_less_def)
  have w: "word_of_int new = as_vtop3 as + word_of_int amount" by (simp add: assms(6))
  have pos: "0 \<le> uint (as_vbase3 as)" by simp
  have eq: "sbrk amount s =
      (if \<not> (0 \<le> new \<and> new < stackbase) then fails ENOMEM s else if as_vtop3 as + word_of_int amount < as_vbase3 as then fails EINVAL s
       else Ret (Sys_return 0 (uint (as_vtop3 as)))
         (s\<lparr>krn := (krn s)\<lparr>addrspaces := (addrspaces (krn s))(t_vmspace th \<mapsto> as\<lparr>as_npages3 := ?np, as_vtop3 := word_of_int new\<rparr>)\<rparr>\<rparr>))"
    using assms(1,2) by (simp add: sbrk_def deref_simps Let_def ge USERSTACK_def USERTOP_def MIPS_KSEG0_def PAGE_SIZE_def w sv
      on_kernel_def set_as_def)
  show ?thesis
  proof (cases "uint (as_vbase3 as) \<le> new \<and> new < stackbase")
    case True
    have new: "0 \<le> new" using True pos by linarith
    then have "uint (word_of_int new :: 32 word) = new" using nb w assms(6) by simp
    moreover from this True have "heap_ok (as\<lparr>as_npages3 := np, as_vtop3 := word_of_int new\<rparr>)" for np unfolding heap_ok_def by simp
    moreover have "sbrk amount s = Ret (Sys_return 0 (uint (as_vtop3 as)))
         (s\<lparr>krn := (krn s)\<lparr>addrspaces := (addrspaces (krn s))(t_vmspace th \<mapsto> as\<lparr>as_npages3 := ?np, as_vtop3 := word_of_int new\<rparr>)\<rparr>\<rparr>)"
      unfolding eq lt [OF new] using new True by simp
    moreover have "0 \<le> amount \<and> uint (as_npages3 as) < 524288 \<longrightarrow> uint ?np = max (uint (as_npages3 as)) ((amount + 4095) div 4096)"
      using sbrk_page_count [of "as_npages3 as" amount] assms(5) by blast
    ultimately show ?thesis using True by blast
  next
    case False
    have "sbrk amount s = fails (if 0 \<le> new \<and> new < stackbase then EINVAL else ENOMEM) s"
    proof (cases "0 \<le> new \<and> new < stackbase")
      case True
      with False have "new < uint (as_vbase3 as)" by linarith
      with True lt show ?thesis unfolding eq by simp
    qed (unfold eq, simp, blast)
    with False show ?thesis by blast
  qed
qed

lemma one_sys_process: "cur_proc one_sys = Some (thread0\<lparr>t_vmspace := 0x80006000\<rparr>)" "addrspaces (krn one_sys) 0x80006000 = Some heap_as"
  by (simp_all add: one_sys_def one_kernel_def cur_proc_def)

theorem sbrk_moves_break_witness:
  "(\<exists>np. sbrk 10000 one_sys = Ret (Sys_return 0 0x10001000)
      (one_sys\<lparr>krn := (krn one_sys)\<lparr>addrspaces := (addrspaces (krn one_sys))(0x80006000 \<mapsto> heap_as\<lparr>as_npages3 := np, as_vtop3 := word_of_int 0x10003710\<rparr>)\<rparr>\<rparr>) \<and>
      uint np = 3) \<and> sbrk (- 5000) one_sys = fails EINVAL one_sys"
proof -
  have h: "heap_ok heap_as" by (simp add: heap_ok_def heap_as_def stackbase_def)
  have as: "addrspaces (krn one_sys) (t_vmspace (thread0\<lparr>t_vmspace := 0x80006000\<rparr>)) = Some heap_as" by (simp add: one_sys_process)
  show ?thesis
    using sbrk_moves_break [OF one_sys_process(1) as h, where amount = 10000 and new = "0x10003710"] sbrk_moves_break [OF one_sys_process(1) as h, where amount = "- 5000" and new = "0x0ffffc78"]
    by (simp add: heap_as_def stackbase_def) blast
qed

section \<open>Waiting for a child\<close>

text \<open>
  Process \<open>pid\<close>, with the entry \<open>p\<close>, is the child in slot \<open>j\<close> of the current process, and nobody has waited
  for it. The last slot is excluded, see \<open>waitpid_last_slot\<close> below.
\<close>

definition child_of_current :: "sys \<Rightarrow> thread \<Rightarrow> int \<Rightarrow> process_info \<Rightarrow> nat \<Rightarrow> bool" where
  "child_of_current s th pid p j \<longleftrightarrow>
     cur_proc s = Some th \<and> pid \<noteq> t_pid th \<and> pid < 100 \<and> proc_at (krn s) pid = Some p \<and> pi_pid p \<noteq> - 1 \<and> pi_has_been_waited p \<noteq> 1 \<and>
     (\<exists>me. proc_at (krn s) (t_pid th) = Some me \<and> 1 \<le> pi_numOfChild me \<and> j < MAX_NUM_CHILD - 1 \<and>
        first_index (\<lambda>x. x = pid) (take MAX_NUM_CHILD (pi_childIDs me)) = Some j)"

definition status_pointer :: "sys \<Rightarrow> 32 word \<Rightarrow> bool" where
  "status_pointer s a \<longleftrightarrow> a \<noteq> 0 \<and> a \<noteq> 0x40000000 \<and> a AND 3 = 0 \<and> a < USERTOP \<and> (\<forall>i \<in> set [0..<4]. um_writes s (a + of_nat i))"

text \<open>The entries after the child in slot \<open>j\<close> of process \<open>i\<close> has been collected.\<close>

definition collected :: "int \<Rightarrow> int \<Rightarrow> nat \<Rightarrow> process_info list \<Rightarrow> process_info list" where
  "collected i pid j ps =
     (let me = ps ! nat i
      in ps[nat i := me\<lparr>pi_childIDs := (pi_childIDs me)[j := - 1], pi_numOfChild := s32 (pi_numOfChild me - 1)\<rparr>,
            nat pid := (ps ! nat pid)\<lparr>pi_has_been_waited := 1\<rparr>])"

lemma status_pointer_even: "status_pointer s a \<Longrightarrow> a AND 1 = 0 \<and> a \<noteq> 0x80000000"
proof -
  assume a: "status_pointer s a"
  have "a AND 1 = (a AND 3) AND 1" by (simp add: and.assoc)
  then show ?thesis using a by (auto simp: status_pointer_def USERTOP_def)
qed

lemma waitpid_check_child:
  assumes "child_of_current s th pid p j" "status_pointer s a"
  shows "waitpid_check pid a 0 s = Ret (int j) s"
  using assms(1) status_pointer_even [OF assms(2)] assms(2)
  by (auto simp: waitpid_check_def child_of_current_def status_pointer_def deref_simps child_index_def Let_def MAX_NUM_CHILD_def)

lemma proc_set_Ret: "proc_at k i = Some p \<Longrightarrow> proc_set i f k = Ret () (k\<lparr>process_table := (process_table k)[nat i := f p]\<rparr>)"
  by (simp add: proc_set_def deref_simps)

lemma waitpid_collect_child:
  assumes "child_of_current s th pid p j" "status_pointer s a"
  shows "waitpid_collect E pid a (int j) s =
    Ret (Sys_return 0 pid) (s\<lparr>um_bytes := store_block a (be32 (word_of_int (pi_exitCode p))) (um_bytes s),
      krn := (krn s)\<lparr>process_table := collected (t_pid th) pid j (process_table (krn s))\<rparr>\<rparr>)"
proof -
  let ?w = "word_of_int (pi_exitCode p)"
  obtain me where me: "proc_at (krn s) (t_pid th) = Some me" "j < length (pi_childIDs me)" and p: "proc_at (krn s) pid = Some p"
    and th: "cur_proc s = Some th" "pid \<noteq> t_pid th"
    using assms(1) by (auto simp: child_of_current_def first_index_eq_Some)
  have store: "store_int a ?w s = Ret True (s\<lparr>um_bytes := store_block a (be32 ?w) (um_bytes s)\<rparr>)"
    using assms(2) by (simp add: store_int_def status_pointer_def)
  have pid: "0 \<le> pid" "pid < int (length (process_table (krn s)))" "process_table (krn s) ! nat pid = p"
    and i: "0 \<le> t_pid th" "t_pid th < int (length (process_table (krn s)))" "process_table (krn s) ! nat (t_pid th) = me"
    using me(1) p by (auto simp: proc_at_Some)
  moreover have "nat pid \<noteq> nat (t_pid th)" using pid(1) i(1) th(2) by simp
  ultimately show ?thesis unfolding waitpid_collect_def using store th(1) me(2)
    by (simp add: deref_simps cur_proc_def on_kernel_def child_write_def proc_set_def proc_at_def collected_def Let_def)
qed

lemma waitpid_child:
  assumes "child_of_current s th pid p j" "status_pointer s a"
  shows "waitpid E pid a 0 s =
    (if pi_status p = 1 then waitpid_poll E pid a (int j) 30 s
     else if pi_status p = 2 then waitpid_collect E pid a (int j) s else Ret (Sys_return (- 1) pid) s)"
  using assms(1) by (simp add: waitpid_def waitpid_check_child [OF assms] child_of_current_def deref_simps)

lemma waitpid_again:
  assumes "cur_proc s = Some th" "proc_at (krn s) pid = Some p" "pi_has_been_waited p = 1"
  shows "waitpid E pid a options s = fails EINVAL s \<or> waitpid E pid a options s = fails EFAULT s"
  using assms by (simp add: waitpid_def waitpid_check_def deref_simps)

lemma one_sys_child:
  "child_of_current one_sys (thread0\<lparr>t_vmspace := 0x80006000\<rparr>) 2 child_proc 0"
  "child_of_current (one_sys\<lparr>krn := one_kernel\<lparr>process_table := [proc0, parent_proc, child_proc\<lparr>pi_status := 1\<rparr>]\<rparr>\<rparr>)
    (thread0\<lparr>t_vmspace := 0x80006000\<rparr>) 2 (child_proc\<lparr>pi_status := 1\<rparr>) 0"
  by (simp_all add: child_of_current_def cur_proc_def one_sys_def one_kernel_def proc_at_def thread0_def child_proc_def parent_proc_def proc0_def MAX_NUM_CHILD_def)

lemma one_sys_pointer: "status_pointer one_sys 0x1000" "status_pointer (one_sys\<lparr>krn := k\<rparr>) 0x1000"
  by (simp_all add: status_pointer_def one_sys_def USERTOP_def MIPS_KSEG0_def upt_rec)

text \<open>
  C13. Collecting a child. When a child of the current process has exited, \<^verbatim>\<open>waitpid\<close> returns its number at once, stores its exit code at
  the given address and changes no other byte of the process; the child leaves the list of its parent and is marked as waited for, and
  nothing else in the kernel changes. A second call for the same child, with whatever arguments, fails and changes nothing: an
  exit code is collected once.
\<close>

theorem waitpid_collects_once:
  assumes "child_of_current s th pid p j" "status_pointer s a" "pi_status p = 2"
  shows "\<exists>s'. waitpid E pid a 0 s = Ret (Sys_return 0 pid) s' \<and> block (um_bytes s') a 4 = be32 (word_of_int (pi_exitCode p)) \<and>
    (\<forall>x. 4 \<le> unat (x - a) \<longrightarrow> um_bytes s' x = um_bytes s x) \<and>
    krn s' = (krn s)\<lparr>process_table := collected (t_pid th) pid j (process_table (krn s))\<rparr> \<and>
    (\<forall>b options. waitpid E pid b options s' = fails EINVAL s' \<or> waitpid E pid b options s' = fails EFAULT s')"
proof (intro exI conjI allI impI)
  let ?s' = "s\<lparr>um_bytes := store_block a (be32 (word_of_int (pi_exitCode p))) (um_bytes s),
      krn := (krn s)\<lparr>process_table := collected (t_pid th) pid j (process_table (krn s))\<rparr>\<rparr>"
  show "waitpid E pid a 0 s = Ret (Sys_return 0 pid) ?s'"
    using waitpid_child [OF assms(1,2), of E] waitpid_collect_child [OF assms(1,2), of E] assms(3) by simp
  show "block (um_bytes ?s') a 4 = be32 (word_of_int (pi_exitCode p))" using block_store_block [of "be32 (word_of_int (pi_exitCode p))" a "um_bytes s"] by simp
  show "um_bytes ?s' x = um_bytes s x" if "4 \<le> unat (x - a)" for x using that by (simp add: store_block_outside)
  have p: "proc_at (krn s) pid = Some p" and th: "cur_proc s = Some th" using assms(1) by (simp_all add: child_of_current_def)
  have "proc_at (krn ?s') pid = Some (p\<lparr>pi_has_been_waited := 1\<rparr>)" using p by (auto simp: proc_at_Some collected_def Let_def)
  moreover have "cur_proc ?s' = Some th" using th by (simp add: cur_proc_def)
  ultimately show "waitpid E pid b options ?s' = fails EINVAL ?s' \<or> waitpid E pid b options ?s' = fails EFAULT ?s'" for b options
    using waitpid_again [of ?s' th pid "p\<lparr>pi_has_been_waited := 1\<rparr>"] by simp
qed simp

theorem waitpid_collects_once_witness:
  "\<exists>s'. waitpid idle_env 2 0x1000 0 one_sys = Ret (Sys_return 0 2) s' \<and> block (um_bytes s') 0x1000 4 = be32 7 \<and>
    (waitpid idle_env 2 0x1000 0 s' = fails EINVAL s' \<or> waitpid idle_env 2 0x1000 0 s' = fails EFAULT s')"
proof -
  have "pi_status child_proc = 2" "pi_exitCode child_proc = 7" by (simp_all add: child_proc_def)
  then show ?thesis using waitpid_collects_once [OF one_sys_child(1) one_sys_pointer(1), of idle_env] by fastforce
qed

lemma waitpid_poll_sleeps:
  assumes "\<And>t. se_clocksleep E t = Ret () (g t)"
  shows "\<forall>i < m. \<exists>q. proc_at (krn ((g ^^ Suc i) s)) pid = Some q \<and> pi_status q \<noteq> 2 \<Longrightarrow>
    waitpid_poll E pid a j (m + n) s = waitpid_poll E pid a j n ((g ^^ m) s)"
proof (induction m arbitrary: s)
  case (Suc m)
  from Suc.prems obtain q where q: "proc_at (krn (g s)) pid = Some q" "pi_status q \<noteq> 2" by force
  have "\<forall>i < m. \<exists>q. proc_at (krn ((g ^^ Suc i) (g s))) pid = Some q \<and> pi_status q \<noteq> 2"
    using Suc.prems by (metis Suc_less_eq funpow_swap1 funpow_simps_right(2) o_apply)
  from Suc.IH [OF this] q show ?case by (simp add: assms deref_simps funpow_swap1)
qed simp

text \<open>
  C12. Waiting for a running child ends. Let each \<^verbatim>\<open>clocksleep\<close> return, \<open>g\<close> being what it does to the machine, and let the
  child keep its entry in the process table. If the child exits during the \<open>n\<close>-th second, for some \<open>n\<close> from 1 to 30, and is then still
  a child of the caller, \<^verbatim>\<open>waitpid\<close> returns its number in that second with the exit code at the given address. If it runs
  for longer, the call ends after 30 seconds with the error -1.
\<close>

theorem waitpid_waits:
  assumes "child_of_current s th pid p j" "status_pointer s a" "pi_status p = 1" "\<And>t. se_clocksleep E t = Ret () (g t)"
    and runs: "\<And>i. 0 < i \<Longrightarrow> i < n \<Longrightarrow> \<exists>q. proc_at (krn ((g ^^ i) s)) pid = Some q \<and> pi_status q \<noteq> 2" and "0 < n"
  shows "(n \<le> 30 \<and> child_of_current ((g ^^ n) s) th' pid q j \<and> pi_status q = 2 \<and> status_pointer ((g ^^ n) s) a \<longrightarrow>
      (\<exists>s'. waitpid E pid a 0 s = Ret (Sys_return 0 pid) s' \<and> block (um_bytes s') a 4 = be32 (word_of_int (pi_exitCode q)))) \<and>
    (n = 31 \<longrightarrow> waitpid E pid a 0 s = Ret (Sys_return (- 1) pid) ((g ^^ 30) s))"
proof -
  have start: "waitpid E pid a 0 s = waitpid_poll E pid a (int j) 30 s" using waitpid_child [OF assms(1,2)] assms(3) by simp
  have "\<forall>i < n - 1. \<exists>q. proc_at (krn ((g ^^ Suc i) s)) pid = Some q \<and> pi_status q \<noteq> 2"
  proof (intro allI impI)
    fix i assume "i < n - 1"
    then show "\<exists>q. proc_at (krn ((g ^^ Suc i) s)) pid = Some q \<and> pi_status q \<noteq> 2" by (intro runs) linarith+
  qed
  note sleeps = waitpid_poll_sleeps [OF assms(4) this, where a = a and j = "int j"]
  show ?thesis
  proof (intro conjI impI)
    assume n: "n \<le> 30 \<and> child_of_current ((g ^^ n) s) th' pid q j \<and> pi_status q = 2 \<and> status_pointer ((g ^^ n) s) a"
    let ?t = "(g ^^ n) s"
    have step: "g ((g ^^ (n - Suc 0)) s) = ?t" using \<open>0 < n\<close> by (cases n) simp_all
    have "n - 1 + Suc (30 - n) = 30" using n \<open>0 < n\<close> by linarith
    with start sleeps [of "Suc (30 - n)"] have "waitpid E pid a 0 s = waitpid_poll E pid a (int j) (Suc (30 - n)) ((g ^^ (n - 1)) s)" by simp
    moreover have "proc_at (krn ?t) pid = Some q" using n by (simp add: child_of_current_def)
    ultimately have "waitpid E pid a 0 s = waitpid_collect E pid a (int j) ?t" using n by (simp add: assms(4) step deref_simps)
    then show "\<exists>s'. waitpid E pid a 0 s = Ret (Sys_return 0 pid) s' \<and> block (um_bytes s') a 4 = be32 (word_of_int (pi_exitCode q))"
      using waitpid_collect_child [of ?t th' pid q j a E] n block_store_block [of "be32 (word_of_int (pi_exitCode q))" a "um_bytes ?t"] by simp
  next
    assume "n = 31"
    with start sleeps [of 0] show "waitpid E pid a 0 s = Ret (Sys_return (- 1) pid) ((g ^^ 30) s)" by simp
  qed
qed

theorem waitpid_waits_witness:
  "\<exists>s'. waitpid (idle_env\<lparr>se_clocksleep := \<lambda>t. Ret () one_sys\<rparr>) 2 0x1000 0
      (one_sys\<lparr>krn := one_kernel\<lparr>process_table := [proc0, parent_proc, child_proc\<lparr>pi_status := 1\<rparr>]\<rparr>\<rparr>) = Ret (Sys_return 0 2) s' \<and>
    block (um_bytes s') 0x1000 4 = be32 7"
proof -
  have "pi_status child_proc = 2" "pi_exitCode child_proc = 7" by (simp_all add: child_proc_def)
  then show ?thesis
    using waitpid_waits [OF one_sys_child(2) one_sys_pointer(2), of "idle_env\<lparr>se_clocksleep := \<lambda>t. Ret () one_sys\<rparr>" "\<lambda>_. one_sys" 1
      "thread0\<lparr>t_vmspace := 0x80006000\<rparr>" child_proc] one_sys_child(1) one_sys_pointer(1) by simp
qed

text \<open>
  C35. Two errors in the test whether a process is a child. The place of the process in the list of children is compared with the last
  place instead of the number of places. So the child in the last place is refused, and a process that is in no place at all, somebody else's,
  passes the test: the call goes on to wait for it with an index one beyond the list.
\<close>

theorem waitpid_last_slot:
  assumes "cur_proc s = Some th" "pid \<noteq> t_pid th" "pid < 100" "proc_at (krn s) pid = Some p" "pi_pid p \<noteq> - 1" "pi_has_been_waited p \<noteq> 1"
    "proc_at (krn s) (t_pid th) = Some me" "1 \<le> pi_numOfChild me" "length (pi_childIDs me) = MAX_NUM_CHILD" "status_pointer s a"
  shows "(distinct (pi_childIDs me) \<and> pi_childIDs me ! (MAX_NUM_CHILD - 1) = pid \<longrightarrow> waitpid E pid a 0 s = fails EINVAL s) \<and>
    (pid \<notin> set (pi_childIDs me) \<longrightarrow> waitpid_check pid a 0 s = Ret (int MAX_NUM_CHILD) s)"
proof (intro conjI impI)
  note sp = status_pointer_even [OF assms(10)] assms(10) [unfolded status_pointer_def]
  assume d: "distinct (pi_childIDs me) \<and> pi_childIDs me ! (MAX_NUM_CHILD - 1) = pid"
  have "first_index (\<lambda>x. x = pid) (pi_childIDs me) = Some (MAX_NUM_CHILD - 1)"
    unfolding first_index_eq_Some using d assms(9) by (auto simp: MAX_NUM_CHILD_def nth_eq_iff_index_eq)
  then have "child_index pid me = int MAX_NUM_CHILD - 1" using assms(9) by (simp add: child_index_def MAX_NUM_CHILD_def)
  then show "waitpid E pid a 0 s = fails EINVAL s" using assms sp by (simp add: waitpid_def waitpid_check_def deref_simps Let_def)
next
  note sp = status_pointer_even [OF assms(10)] assms(10) [unfolded status_pointer_def]
  assume "pid \<notin> set (pi_childIDs me)"
  then have "child_index pid me = int MAX_NUM_CHILD" using assms(9) first_index_eq_None [of "\<lambda>x. x = pid" "pi_childIDs me"] by (auto simp: child_index_def)
  then show "waitpid_check pid a 0 s = Ret (int MAX_NUM_CHILD) s" using assms sp by (simp add: waitpid_check_def deref_simps Let_def)
qed

theorem waitpid_last_slot_witness:
  "waitpid idle_env 2 0x1000 0 (one_sys\<lparr>krn := one_kernel\<lparr>process_table := [proc0, parent_proc\<lparr>pi_childIDs := [11, 12, 13, 14, 15, 16, 17, 18, 19, 2]\<rparr>, child_proc]\<rparr>\<rparr>) =
     fails EINVAL (one_sys\<lparr>krn := one_kernel\<lparr>process_table := [proc0, parent_proc\<lparr>pi_childIDs := [11, 12, 13, 14, 15, 16, 17, 18, 19, 2]\<rparr>, child_proc]\<rparr>\<rparr>) \<and>
   waitpid_check 2 0x1000 0 (one_sys\<lparr>krn := one_kernel\<lparr>process_table := [proc0, parent_proc\<lparr>pi_childIDs := replicate 10 0\<rparr>, child_proc]\<rparr>\<rparr>) =
     Ret 10 (one_sys\<lparr>krn := one_kernel\<lparr>process_table := [proc0, parent_proc\<lparr>pi_childIDs := replicate 10 0\<rparr>, child_proc]\<rparr>\<rparr>)"
proof -
  have p: "pi_pid child_proc \<noteq> - 1" "pi_has_been_waited child_proc \<noteq> 1" "1 \<le> pi_numOfChild (parent_proc\<lparr>pi_childIDs := ids\<rparr>)" for ids
    by (simp_all add: child_proc_def parent_proc_def proc0_def)
  have t: "cur_proc (one_sys\<lparr>krn := one_kernel\<lparr>process_table := ps\<rparr>\<rparr>) = Some (thread0\<lparr>t_vmspace := 0x80006000\<rparr>)"
    "proc_at (krn (one_sys\<lparr>krn := one_kernel\<lparr>process_table := [proc0, me, child_proc]\<rparr>\<rparr>)) 2 = Some child_proc"
    "proc_at (krn (one_sys\<lparr>krn := one_kernel\<lparr>process_table := [proc0, me, child_proc]\<rparr>\<rparr>)) (t_pid (thread0\<lparr>t_vmspace := 0x80006000\<rparr>)) = Some me"
    "2 \<noteq> t_pid (thread0\<lparr>t_vmspace := 0x80006000\<rparr>)" for ps me
    by (simp_all add: cur_proc_def one_kernel_def proc_at_def thread0_def)
  note slot = waitpid_last_slot [OF t(1,4) _ t(2) p(1,2) t(3) p(3) _ one_sys_pointer(2)]
  show ?thesis using slot [of "[11, 12, 13, 14, 15, 16, 17, 18, 19, 2]"] slot [of "replicate 10 0"] by (simp add: MAX_NUM_CHILD_def)
qed

text \<open>
  C36. The status pointer is not checked against the end of user memory. When it points into the kernel's own segment, above its
  first word and at a multiple of four, collecting a child stores the exit code there: a user program
  chooses the address in the kernel and the value.
\<close>

theorem waitpid_writes_kernel_memory:
  assumes "child_of_current s th pid p j" "pi_status p = 2" "USERTOP < a" "a < 0xa0000000" "a AND 3 = 0"
  shows "\<exists>s'. waitpid E pid a 0 s = Ret (Sys_return 0 pid) s' \<and> kmem (krn s') a = word_of_int (pi_exitCode p)"
proof -
  let ?w = "word_of_int (pi_exitCode p)"
  obtain me where me: "proc_at (krn s) (t_pid th) = Some me" "j < length (pi_childIDs me)" and p: "proc_at (krn s) pid = Some p"
    and th: "cur_proc s = Some th" "pid \<noteq> t_pid th"
    using assms(1) by (auto simp: child_of_current_def first_index_eq_Some)
  have pid: "0 \<le> pid" "pid < int (length (process_table (krn s)))" "process_table (krn s) ! nat pid = p"
    and i: "0 \<le> t_pid th" "t_pid th < int (length (process_table (krn s)))" "process_table (krn s) ! nat (t_pid th) = me"
    using me(1) p by (auto simp: proc_at_Some)
  have "a AND 1 = (a AND 3) AND 1" by (simp add: and.assoc)
  then have a: "a AND 1 = 0" "a \<noteq> 0" "a \<noteq> 0x80000000" "a \<noteq> 0x40000000" "\<not> a < USERTOP" using assms(3,5) by (auto simp: USERTOP_def MIPS_KSEG0_def)
  then have "waitpid_check pid a 0 s = Ret (int j) s"
    using assms(1) by (auto simp: waitpid_check_def child_of_current_def deref_simps child_index_def Let_def MAX_NUM_CHILD_def)
  moreover have "store_int a ?w s = Ret True (s\<lparr>krn := (krn s)\<lparr>kmem := (kmem (krn s))(a := ?w)\<rparr>\<rparr>)" using assms(4,5) a by (simp add: store_int_def)
  ultimately show ?thesis using pid i th me(2) assms(2)
    by (simp add: waitpid_def p waitpid_collect_def deref_simps cur_proc_def on_kernel_def child_write_def proc_set_def proc_at_def)
qed

theorem waitpid_writes_kernel_memory_witness: "\<exists>s'. waitpid idle_env 2 0x80004000 0 one_sys = Ret (Sys_return 0 2) s' \<and> kmem (krn s') 0x80004000 = 7"
  using waitpid_writes_kernel_memory [OF one_sys_child(1), of "0x80004000" idle_env] by (simp add: child_proc_def USERTOP_def MIPS_KSEG0_def)

section \<open>Fork\<close>









text \<open>The memory after \<^verbatim>\<open>thread_fork\<close>: only the mark at the foot of the new stack is written.\<close>

definition user_side :: "kernel \<Rightarrow> (vaddr \<rightharpoonup> addrspace) \<times> (vaddr \<Rightarrow> 32 word)" where
  "user_side k = (addrspaces k, kmem k)"

named_theorems user_steps


lemma find_pid_user_side [user_steps]: "user_side k = U \<Longrightarrow> returns (find_pid n m k) (\<lambda>_ k'. user_side k' = U)"
  by (induction n arbitrary: m) simp_all

lemma user_side_spl [simp]: "user_side (splx s k) = user_side k" "user_side (splhigh k) = user_side k" "user_side (k\<lparr>threads := t\<rparr>) = user_side k"
  by (simp_all add: user_side_def spl_defs)






















end
