(* ===== verification/KFiles.thy ===== *)
theory KFiles
  imports KDevice KCalls
begin

text \<open>
  Properties of files as a user program and the kernel see them: output that reaches the console, the list
  of devices, and the name of the boot file system.
\<close>

unbundle bit_operations_syntax

section \<open>Output to the console\<close>

text \<open>What the terminal receives for a sequence of bytes.\<close>

definition printed :: "byte list \<Rightarrow> byte list" where
  "printed bs = concat (map (\<lambda>b. if b = 10 then [13, 10] else [b]) bs)"

lemma printed_simps [simp]: "printed [] = []" "printed (bs @ cs) = printed bs @ printed cs"
  by (simp_all add: printed_def)

text \<open>The current thread holds the lock; releasing it can put the threads that wait for it into the run queue.\<close>

definition holds :: "vaddr \<Rightarrow> sys \<Rightarrow> bool" where
  "holds lk s \<longleftrightarrow> (\<exists>l. locks (krn s) lk = Some l \<and> lk_held l = 1 \<and> lk_heldThread l = curthread (krn s))"

definition can_wake :: "vaddr \<Rightarrow> kernel \<Rightarrow> bool" where
  "can_wake lk k \<longleftrightarrow> lists_inv k \<and> length (asleep k) + length (ready k) \<le> max_ready \<and> (\<forall>t \<in> set (asleep k). known k t) \<and>
     length (filter (sleeping_on lk k) (asleep k)) \<le> run_room k"

text \<open>
  What stays as it is for a thread while others run: its memory, its open file, the console and the locks of the console.
\<close>

definition same_io :: "sys \<Rightarrow> sys \<Rightarrow> bool" where
  "same_io s s' \<longleftrightarrow> um_bytes s' = um_bytes s \<and> um_reads s' = um_reads s \<and> um_writes s' = um_writes s \<and>
     iostate.cur_vmspace s' = iostate.cur_vmspace s \<and> badfaultfunc s' = badfaultfunc s"

definition left_alone :: "vaddr \<Rightarrow> sys \<Rightarrow> sys \<Rightarrow> bool" where
  "left_alone lk s s' \<longleftrightarrow> same_io s s' \<and> the_console s' = the_console s \<and> con_userlock_write s' = con_userlock_write s \<and>
     curthread (krn s') = curthread (krn s) \<and> map_option t_v (cur_proc s') = map_option t_v (cur_proc s) \<and> can_wake lk (krn s')"

text \<open>
  What the console needs of the other threads. A wait for the device ends, and as long as the waiting thread holds the lock of the writers
  nobody else sends characters or takes the lock away. A wait for the lock ends with the lock in the hands of the thread that waited;
  in the meantime others may have sent characters.
\<close>

definition waits_exclusively :: "conenv \<Rightarrow> vaddr \<Rightarrow> bool" where
  "waits_exclusively C lk \<longleftrightarrow> (\<forall>s. holds lk s \<and> can_wake lk (krn s) \<longrightarrow>
     (\<exists>s'. ce_wwait C s = Ret () s' \<and> left_alone lk s s' \<and> holds lk s' \<and> con_sent s' = con_sent s))"

definition lock_comes :: "conenv \<Rightarrow> vaddr \<Rightarrow> bool" where
  "lock_comes C lk \<longleftrightarrow> (\<forall>s. can_wake lk (krn s) \<longrightarrow>
     (\<exists>s' others. ce_lkwait C lk s = Ret () s' \<and> left_alone lk s s' \<and> holds lk s' \<and> con_sent s' = con_sent s @ others))"

lemma same_io_select: "same_io s s' \<Longrightarrow> io_ready n (u, s') = io_ready n (u, s)" "same_io s s' \<Longrightarrow> io_next n (u, s') = io_next n (u, s)"
  by (simp_all add: same_io_def io_ready_def io_next_def)

lemma io_next_0 [simp]: "io_next 0 us = []"
  by (cases us) (simp add: io_next_def)

lemma left_alone_trans: "left_alone lk s s1 \<Longrightarrow> left_alone lk s1 s2 \<Longrightarrow> left_alone lk s s2"
  by (simp add: left_alone_def same_io_def)

text \<open>The writer at the console.\<close>

definition writing :: "vaddr \<Rightarrow> sys \<Rightarrow> byte list \<Rightarrow> sys \<Rightarrow> bool" where
  "writing lk s out s' \<longleftrightarrow> left_alone lk s s' \<and> holds lk s' \<and> con_sent s' = con_sent s @ out"

lemma writing_trans: "writing lk s a s1 \<Longrightarrow> writing lk s1 b s2 \<Longrightarrow> writing lk s (a @ b) s2"
  by (auto simp: writing_def intro: left_alone_trans)

lemma putch_holder:
  assumes "the_console s \<noteq> 0" "holds lk s" "can_wake lk (krn s)" "waits_exclusively C lk"
  shows "\<exists>s'. putch C ch s = Ret () s' \<and> writing lk s [ch] s'"
proof (cases "in_interrupt (krn s) \<noteq> 0 \<or> curspl (krn s) > 0")
  case True
  then show ?thesis using assms by (auto simp: putch_def putch_polled_def writing_def left_alone_def same_io_def holds_def cur_proc_def)
next
  case False
  obtain s' where "ce_wwait C s = Ret () s'" "left_alone lk s s'" "holds lk s'" "con_sent s' = con_sent s"
    using assms(2-4) unfolding waits_exclusively_def by blast
  with False show ?thesis using assms(1) by (auto simp: putch_def putch_intr_def writing_def left_alone_def same_io_def holds_def cur_proc_def)
qed

lemma putch_two:
  assumes "the_console s \<noteq> 0" "holds lk s" "can_wake lk (krn s)" "waits_exclusively C lk"
  shows "\<exists>s'. kbind (putch C a s) (\<lambda>_ s. putch C b s) = Ret () s' \<and> writing lk s [a, b] s'"
proof -
  obtain s1 where s1: "putch C a s = Ret () s1" "writing lk s [a] s1" using putch_holder [OF assms] by blast
  then have "the_console s1 \<noteq> 0" "holds lk s1" "can_wake lk (krn s1)" using assms(1) by (simp_all add: writing_def left_alone_def)
  from putch_holder [OF this assms(4)] obtain s2 where "putch C b s1 = Ret () s2" "writing lk s1 [b] s2" by blast
  with s1 writing_trans [OF s1(2)] show ?thesis by fastforce
qed

lemma con_write1_ok:
  assumes "io_ready 1 (u, s)" "uio_op u = UIO_WRITE" "the_console s \<noteq> 0" "holds lk s" "can_wake lk (krn s)" "waits_exclusively C lk"
  shows "\<exists>s'. con_write1 C (u, s) = Ret True (io_moved 1 u, s') \<and> writing lk s (printed (io_next 1 (u, s))) s'"
proof -
  obtain b where b: "io_next 1 (u, s) = [b]" using length_io_next [OF assms(1)] by (auto simp: length_Suc_conv)
  have m: "uiomove [0] 0 1 (u, s) = Ret [b] (io_moved 1 u, s)"
    using uiomove_write [OF assms(1), of 0 "[0]"] assms(2) b by (simp add: io_skip_def)
  show ?thesis using m putch_two [OF assms(3-6), of 13 b] putch_holder [OF assms(3-6), of b]
    by (auto simp: con_write1_def printed_def b [unfolded One_nat_def])
qed

lemma con_io_loop_write:
  assumes "waits_exclusively C lk"
  shows "io_ready n (u, s) \<Longrightarrow> uio_resid u = n \<Longrightarrow> uio_op u = UIO_WRITE \<Longrightarrow> the_console s \<noteq> 0 \<Longrightarrow> holds lk s \<Longrightarrow> can_wake lk (krn s) \<Longrightarrow>
    \<exists>s'. con_io_loop C n (u, s) = Ret () (io_moved n u, s') \<and> (n = 0 \<and> s' = s \<or> writing lk s (printed (io_next n (u, s))) s')"
proof (induction n arbitrary: u s)
  case 0
  then show ?case by simp
next
  case (Suc n)
  have one: "io_ready 1 (u, s)" using io_ready_le [OF Suc.prems(1)] by simp
  obtain s1 where s1: "con_write1 C (u, s) = Ret True (io_moved 1 u, s1)" "writing lk s (printed (io_next 1 (u, s))) s1"
    using con_write1_ok [OF one Suc.prems(3-6) assms] by blast
  then have same: "same_io s s1" "the_console s1 \<noteq> 0" "holds lk s1" "can_wake lk (krn s1)" using Suc.prems(4) by (simp_all add: writing_def left_alone_def)
  have rest: "io_ready n (io_moved 1 u, s1)" using io_ready_skip [of 1 n "(u, s)"] Suc.prems(1) by (simp add: io_skip_def same_io_select [OF same(1)])
  obtain s2 where s2: "con_io_loop C n (io_moved 1 u, s1) = Ret () (io_moved n (io_moved 1 u), s2)"
    "n = 0 \<and> s2 = s1 \<or> writing lk s1 (printed (io_next n (io_moved 1 u, s1))) s2"
    using Suc.IH [OF rest _ _ same(2-4)] Suc.prems(2,3) by auto
  moreover have "io_next (Suc n) (u, s) = io_next 1 (u, s) @ io_next n (io_moved 1 u, s)"
    using io_next_append [of 1 n "(u, s)"] by (simp add: io_skip_def)
  moreover have "writing lk s (printed (io_next 1 (u, s)) @ printed (io_next n (io_moved 1 u, s))) s2"
    using s2(2) s1(2) writing_trans [OF s1(2), of "printed (io_next n (io_moved 1 u, s))" s2] same_io_select(2) [OF same(1), of n "io_moved 1 u"] by auto
  ultimately show ?case using s1(1) Suc.prems(2,3) by (auto simp: io_moved_add)
qed

lemma lock_release_holder:
  assumes "holds lk s" "can_wake lk (krn s)" "allocator_ok km"
  shows "\<exists>k. lock_release km lk (krn s) = Ret () k \<and> curthread k = curthread (krn s) \<and> threads k = threads (krn s) \<and>
    map_option lk_held (locks k lk) = Some 0"
proof -
  obtain l where l: "locks (krn s) lk = Some l" "lk_heldThread l = curthread (krn s)" using assms(1) by (auto simp: holds_def)
  let ?k = "(splhigh (krn s))\<lparr>locks := (locks (krn s))(lk \<mapsto> l\<lparr>lk_held := 0, lk_heldThread := 0\<rparr>)\<rparr>"
  have same: "ready ?k = ready (krn s)" "asleep ?k = asleep (krn s)" "run_room ?k = run_room (krn s)" "lists_inv ?k = lists_inv (krn s)"
    "sleeping_on lk ?k = sleeping_on lk (krn s)" "known ?k = known (krn s)"
    by (simp_all add: spl_defs ready_def asleep_def run_room_def lists_inv_def runq_inv_def sleeping_on_def known_def fun_eq_iff)
  have "curspl ?k > 0" by (simp add: spl_defs SPL_HIGH_def)
  from thread_wakeup_cases [OF _ this assms(3), of lk] same assms(2)
  obtain k where k: "thread_wakeup km lk ?k = Ret () k" "besides k = besides ?k" by (auto simp: can_wake_def)
  then have "locks k = locks ?k" "curthread k = curthread ?k" "threads k = threads ?k" using besidesD [OF k(2)] by simp_all
  with k(1) l show ?thesis by (simp add: lock_release_def Let_def spl_defs)
qed

lemma con_acquire_holds:
  assumes "cur_proc s = Some th" "locks (krn s) lk = Some l" "lk_held l \<noteq> 1 \<or> lock_comes C lk" "can_wake lk (krn s)"
  shows "\<exists>s' others. con_acquire C lk s = Ret () s' \<and> writing lk s others s' \<and> (lk_held l \<noteq> 1 \<longrightarrow> others = [])"
proof (cases "lk_held l = 1")
  case True
  then show ?thesis using assms by (auto simp: con_acquire_def lock_comes_def writing_def)
next
  case False
  let ?k = "(krn s)\<lparr>locks := (locks (krn s))(lk \<mapsto> l\<lparr>lk_held := 1, lk_heldThread := curthread (krn s)\<rparr>),
     threads := (threads (krn s))(curthread (krn s) \<mapsto> set_cont Running th)\<rparr>"
  have "con_acquire C lk s = Ret () (s\<lparr>krn := ?k\<rparr>)" using False assms(1,2)
    by (simp add: con_acquire_def on_kernel_def lock_acquire_def lock_acquire_loop_def leave_def set_thread_def spl_defs cur_proc_def)
  moreover have "can_wake lk ?k"
  proof -
    have "sleeping_on lk ?k = sleeping_on lk (krn s)" "known (krn s) t \<Longrightarrow> known ?k t" for t
      using assms(1) by (auto simp: sleeping_on_def known_def cur_proc_def set_cont_def fun_eq_iff)
    moreover have "ready ?k = ready (krn s)" "asleep ?k = asleep (krn s)" "run_room ?k = run_room (krn s)" "lists_inv ?k = lists_inv (krn s)"
      by (simp_all add: ready_def asleep_def run_room_def lists_inv_def runq_inv_def)
    ultimately show ?thesis using assms(4) by (simp add: can_wake_def)
  qed
  ultimately show ?thesis using assms(1) by (auto simp: writing_def left_alone_def same_io_def holds_def cur_proc_def set_cont_def)
qed

lemma con_io_write:
  assumes "io_ready n (u, s)" "uio_resid u = n" "uio_op u = UIO_WRITE" "the_console s \<noteq> 0" "con_userlock_write s \<noteq> 0"
    "cur_proc s = Some th" "locks (krn s) (con_userlock_write s) = Some l" "lk_held l \<noteq> 1 \<or> lock_comes C (con_userlock_write s)"
    "can_wake (con_userlock_write s) (krn s)" "waits_exclusively C (con_userlock_write s)" "allocator_ok (ce_km C)"
  shows "\<exists>s' others. con_io C (u, s) = Ret () (io_moved n u, s') \<and> con_sent s' = con_sent s @ others @ printed (io_next n (u, s)) \<and>
    (lk_held l \<noteq> 1 \<longrightarrow> others = []) \<and> um_bytes s' = um_bytes s \<and> map_option t_v (cur_proc s') = map_option t_v (cur_proc s) \<and>
    map_option lk_held (locks (krn s') (con_userlock_write s)) = Some 0"
proof -
  let ?lk = "con_userlock_write s"
  obtain s1 others where a: "con_acquire C ?lk s = Ret () s1" "writing ?lk s others s1" "lk_held l \<noteq> 1 \<longrightarrow> others = []"
    using con_acquire_holds [OF assms(6-9)] by blast
  then have k1: "same_io s s1" "the_console s1 \<noteq> 0" "holds ?lk s1" "can_wake ?lk (krn s1)" using assms(4) by (simp_all add: writing_def left_alone_def)
  have r: "io_ready n (u, s1)" using assms(1) same_io_select(1) [OF k1(1)] by simp
  obtain s2 where w: "con_io_loop C n (u, s1) = Ret () (io_moved n u, s2)" "n = 0 \<and> s2 = s1 \<or> writing ?lk s1 (printed (io_next n (u, s1))) s2"
    using con_io_loop_write [OF assms(10) r assms(2,3) k1(2-4)] by blast
  have w2: "writing ?lk s (others @ printed (io_next n (u, s))) s2"
    using w(2) a(2) writing_trans [OF a(2), of "printed (io_next n (u, s))" s2] same_io_select(2) [OF k1(1), of n u] by auto
  then have h: "holds ?lk s2" "can_wake ?lk (krn s2)" by (simp_all add: writing_def left_alone_def)
  obtain k where k: "lock_release (ce_km C) ?lk (krn s2) = Ret () k" "curthread k = curthread (krn s2)" "threads k = threads (krn s2)"
    "map_option lk_held (locks k ?lk) = Some 0" using lock_release_holder [OF h assms(11)] by blast
  have "con_io C (u, s) = Ret () (io_moved n u, s2\<lparr>krn := k\<rparr>)"
    using a(1) w(1) k(1) assms(2,3,5) by (simp add: con_io_def Let_def on_kernel_def)
  then show ?thesis using w2 a(3) k(2-4) by (auto simp: writing_def left_alone_def same_io_def cur_proc_def)
qed

section \<open>From the system call to the console\<close>

text \<open>The environment of the system calls in which the VFS layer is the one modelled here.\<close>

definition kernel_env :: "vfsenv \<Rightarrow> sysenv \<Rightarrow> sysenv" where
  "kernel_env VE E =
     E\<lparr>se_open := vfs_open VE, se_vop_read := (\<lambda>v us. with_ops VE False v (snd us) (\<lambda>ops. vo_read ops v us)),
       se_vop_write := (\<lambda>v us. with_ops VE False v (snd us) (\<lambda>ops. vo_write ops v us))\<rparr>"

lemma kernel_env_select [simp]:
  "se_open (kernel_env VE E) = vfs_open VE"
  "se_vop_write (kernel_env VE E) v us = with_ops VE False v (snd us) (\<lambda>ops. vo_write ops v us)"
  "se_vop_read (kernel_env VE E) v us = with_ops VE False v (snd us) (\<lambda>ops. vo_read ops v us)"
  by (simp_all add: kernel_env_def)

text \<open>The console is the first device with its name, its vnode \<open>cv\<close> is alive and leads to \<open>con_device\<close>.\<close>

definition named :: "vfsenv \<Rightarrow> sys \<Rightarrow> byte list \<Rightarrow> knowndev \<Rightarrow> bool" where
  "named E s n kd \<longleftrightarrow> kd_name kd = n \<or> kd_rawname kd = Some n \<or> (kd_fs kd \<noteq> 0 \<and> volname E (kd_fs kd) s = Some n)"

definition dev_vnode :: "vfsenv \<Rightarrow> devices \<Rightarrow> vaddr \<Rightarrow> vaddr \<Rightarrow> sys \<Rightarrow> bool" where
  "dev_vnode E D dev vn s \<longleftrightarrow>
     ve_ops E (ve_devops E) = dev_vnode_ops D \<and> ve_devops E \<noteq> 0 \<and> ve_devops E \<noteq> 0xdeadbeef \<and> vn \<noteq> 0 \<and> vn \<noteq> 0xdeadbeef \<and> dev \<noteq> 0 \<and>
     (\<exists>v. vnodes (krn s) vn = Some v \<and> vn_ops v = ve_devops E \<and> vn_data v = dev \<and> vn_fs v = 0 \<and>
        0 < vn_refcount v \<and> 0 \<le> vn_opencount v)"

definition countable :: "vaddr \<Rightarrow> sys \<Rightarrow> bool" where
  "countable vn s \<longleftrightarrow> (\<forall>v. vnodes (krn s) vn = Some v \<longrightarrow> vn_refcount v < 2147483647 \<and> vn_opencount v < 2147483647)"

definition console_attached :: "vfsenv \<Rightarrow> conenv \<Rightarrow> devices \<Rightarrow> vaddr \<Rightarrow> sys \<Rightarrow> bool" where
  "console_attached E C D cv s \<longleftrightarrow>
     the_console s \<noteq> 0 \<and> con_userlock_write s \<noteq> 0 \<and>
     (\<exists>pre dev post. knowndevs s = pre @ \<lparr>kd_name = CON, kd_rawname = None, kd_device = dev, kd_vnode = cv, kd_fs = 0\<rparr> # post \<and>
        (\<forall>kd \<in> set pre. \<not> named E s CON kd) \<and> D dev = con_device C \<and> dev_vnode E D dev cv s \<and> countable cv s)"

lemma getroot_scan_skip: "\<forall>kd \<in> set pre. \<not> named E s n kd \<Longrightarrow> getroot_scan E n (pre @ kds) s = getroot_scan E n kds s"
  by (induction pre) (auto simp: named_def)

definition opened :: "vaddr \<Rightarrow> sys \<Rightarrow> sys" where
  "opened vn s = set_vnode vn (\<lambda>v. v\<lparr>vn_refcount := vn_refcount v + 1, vn_opencount := vn_opencount v + 1\<rparr>) s"

lemma with_ops_dev:
  assumes "dev_vnode E D dev vn s"
  shows "with_ops E r vn s f = f (dev_vnode_ops D)"
  using assms by (auto simp: dev_vnode_def with_ops_def vnode_check_def dev_vnode_ops_def)

lemma with_device_dev: "dev_vnode E D dev vn s \<Longrightarrow> with_device D vn s f = f (D dev)"
  by (auto simp: with_device_def dev_vnode_def)

lemma VOP_INCREF_dev:
  assumes "dev_vnode E D dev vn s" "countable vn s"
  shows "VOP_INCREF vn s = Ret () (set_vnode vn (\<lambda>v. v\<lparr>vn_refcount := vn_refcount v + 1\<rparr>) s)"
proof -
  obtain v where v: "vnodes (krn s) vn = Some v" "0 < vn_refcount v" "vn_refcount v < 2147483647" "vn \<noteq> 0" using assms by (auto simp: dev_vnode_def countable_def)
  then have "s32 (vn_refcount v + 1) = vn_refcount v + 1" by (intro s32_id) linarith+
  with v show ?thesis by (simp add: VOP_INCREF_def on_kernel_def vnode_incref_def vn_update_def set_vnode_def)
qed

lemma vfs_open_console:
  assumes "console_attached E C D cv s"
  shows "vfs_open E con_name O_RDWR s = Ret cv (opened cv s)"
proof -
  obtain pre dev post where l: "knowndevs s = pre @ \<lparr>kd_name = CON, kd_rawname = None, kd_device = dev, kd_vnode = cv, kd_fs = 0\<rparr> # post"
    "\<forall>kd \<in> set pre. \<not> named E s CON kd" "D dev = con_device C" "dev_vnode E D dev cv s" "countable cv s" using assms by (auto simp: console_attached_def)
  obtain v where v: "vnodes (krn s) cv = Some v" "vn_data v = dev" "cv \<noteq> 0" "dev \<noteq> 0" "0 \<le> vn_opencount v" "vn_opencount v < 2147483647"
    using l(4,5) by (auto simp: dev_vnode_def countable_def)
  let ?s = "set_vnode cv (\<lambda>v. v\<lparr>vn_refcount := vn_refcount v + 1\<rparr>) s"
  have d: "dev_vnode E D dev cv ?s" using l(4) by (auto simp: dev_vnode_def set_vnode_def vn_update_def)
  have split: "split_path con_name = (Device CON, [])"
    by (simp add: split_path_def con_name_def colon_def slash_def CON_def skip_slashes_def)
  have "vfs_getroot E CON s = Ret cv ?s"
    using l v by (simp add: vfs_getroot_def getroot_scan_skip kd_itself_def VOP_INCREF_dev [OF l(4,5)])
  then have "vfs_lookup E con_name s = Ret cv ?s" by (simp add: vfs_lookup_def getdevice_def split)
  moreover have "with_ops E False cv ?s (\<lambda>ops. vo_open ops cv O_RDWR ?s) = Ret () ?s"
    unfolding with_ops_dev [OF d] using v by (simp add: dev_vnode_ops_def dev_open_def with_device_def set_vnode_def vn_update_def l(3) con_device_def con_open_def
      O_CREAT_def O_TRUNC_def O_EXCL_def O_APPEND_def O_RDWR_def)
  moreover have "VOP_INCOPEN cv ?s = Ret () (opened cv s)" 
  proof -
    have "s32 (vn_opencount v + 1) = vn_opencount v + 1" using v by (intro s32_id) linarith+
    with v show ?thesis by (simp add: VOP_INCOPEN_def on_kernel_def vnode_incopen_def vn_update_def set_vnode_def opened_def)
  qed
  moreover have "access_mode O_RDWR = Some True" "O_RDWR AND O_CREAT = 0" "O_RDWR AND O_TRUNC = 0"
    by (simp_all add: access_mode_def O_RDWR_def O_ACCMODE_def O_RDONLY_def O_WRONLY_def O_CREAT_def O_TRUNC_def)
  ultimately show ?thesis using v(3) by (simp add: vfs_open_def open_vnode_def open_trunc_def)
qed

lemma dev_vnode_opened: "dev_vnode E D dev vn s \<Longrightarrow> dev_vnode E D dev vn (opened vn s)"
  by (auto simp: dev_vnode_def opened_def set_vnode_def vn_update_def)

lemma can_wake_same_threads:
  assumes "can_wake lk k" "runqueue k' = runqueue k" "sleepers k' = sleepers k" "\<And>t. map_option t_sleepaddr (threads k' t) = map_option t_sleepaddr (threads k t)"
  shows "can_wake lk k'"
proof -
  have "sleeping_on lk k' t = sleeping_on lk k t" "known k' t = known k t" for t
    using assms(4) [of t] by (cases "threads k t"; cases "threads k' t"; simp add: sleeping_on_def known_def)+
  then have "sleeping_on lk k' = sleeping_on lk k" "known k' = known k" by auto
  moreover have "ready k' = ready k" "asleep k' = asleep k" "run_room k' = run_room k" "lists_inv k' = lists_inv k"
    using assms(2,3) by (simp_all add: ready_def asleep_def run_room_def lists_inv_def runq_inv_def)
  ultimately show ?thesis using assms(1) by (simp add: can_wake_def)
qed

lemma console_opened:
  assumes "cur_proc s = Some th" "t_v th = 0 \<or> t_v th = cv" "console_attached VE C D cv s" "dev_vnode VE D dev cv s" "can_wake lk (krn s)"
  shows "\<exists>s1 th1. open_console (kernel_env VE E) s = Ret cv s1 \<and> cur_proc s1 = Some th1 \<and> t_v th1 = cv \<and> dev_vnode VE D dev cv s1 \<and>
    same_io s s1 \<and> the_console s1 = the_console s \<and> con_userlock_write s1 = con_userlock_write s \<and> locks (krn s1) = locks (krn s) \<and>
    can_wake lk (krn s1) \<and> con_sent s1 = con_sent s"
proof (cases "t_v th = 0")
  case True
  let ?o = "opened cv s"
  let ?k = "(krn ?o)\<lparr>threads := (threads (krn ?o))(curthread (krn s) \<mapsto> th\<lparr>t_v := cv\<rparr>)\<rparr>"
  have o: "curthread (krn ?o) = curthread (krn s)" "threads (krn ?o) = threads (krn s)" "locks (krn ?o) = locks (krn s)"
    "runqueue (krn ?o) = runqueue (krn s)" "sleepers (krn ?o) = sleepers (krn s)" "same_io s ?o" "the_console ?o = the_console s"
    "con_userlock_write ?o = con_userlock_write s" "con_sent ?o = con_sent s"
    by (simp_all add: opened_def set_vnode_def vn_update_def same_io_def)
  have flags: "(2 :: 32 word) = O_RDWR" by (simp add: O_RDWR_def)
  have "open_console (kernel_env VE E) s = Ret cv (?o\<lparr>krn := ?k\<rparr>)"
    using assms(1) True o(1,2) vfs_open_console [OF assms(3)] by (simp add: open_console_def flags on_kernel_def set_thread_def cur_proc_def)
  moreover have "can_wake lk ?k" by (rule can_wake_same_threads [OF assms(5)]) (use o assms(1) in \<open>auto simp: cur_proc_def\<close>)
  moreover have "dev_vnode VE D dev cv (?o\<lparr>krn := ?k\<rparr>)" using dev_vnode_opened [OF assms(4)] by (simp add: dev_vnode_def)
  ultimately show ?thesis using o by (intro exI [of _ "?o\<lparr>krn := ?k\<rparr>"] exI [of _ "th\<lparr>t_v := cv\<rparr>"]) (simp add: cur_proc_def same_io_def)
next
  case False
  then have "open_console (kernel_env VE E) s = Ret cv s" using assms(1,2) by (simp add: open_console_def)
  then show ?thesis using False assms by (intro exI [of _ s] exI [of _ th]) (simp add: same_io_def)
qed

lemma sys_write_console:
  assumes "open_console (kernel_env VE E) s = Ret cv s1" "cur_proc s = Some th" "fd = 1 \<or> fd = 2" "buf \<noteq> 0" "dev_vnode VE D dev cv s1" "D dev = con_device C"
    "con_io C (user_uio th buf n UIO_WRITE, s1) = Ret () (u', s2)" "cur_proc s2 = Some th2"
  shows "\<exists>th3. t_v th3 = t_v th2 \<and> sys_write (kernel_env VE E) fd buf n s =
    Ret (Sys_return 0 (sint n)) (s2\<lparr>krn := (krn s2)\<lparr>threads := (threads (krn s2))(curthread (krn s2) \<mapsto> th3)\<rparr>\<rparr>)"
proof -
  have "with_ops VE False cv s1 (\<lambda>ops. vo_write ops cv (user_uio th buf n UIO_WRITE, s1)) = con_io C (user_uio th buf n UIO_WRITE, s1)"
    using assms(5) by (simp add: with_ops_dev dev_vnode_ops_def dev_write_def with_device_dev assms(6)) (simp add: user_uio_def con_device_def)
  with assms show ?thesis
    by (intro exI [of _ "th2\<lparr>t_offset := uio_offset u'\<rparr>"]) (auto simp: sys_write_def save_offset_def on_kernel_def set_thread_def cur_proc_def Let_def)
qed

text \<open>
  C15. Output reaches the terminal. When a process writes \<open>n\<close> bytes to descriptor 1 or 2, from memory it can read, \<^verbatim>\<open>write\<close> sends exactly those
  bytes to the console, in order, without anything in between, and with a carriage return before each newline; it returns \<open>n\<close>, the memory of the
  process is unchanged and the lock of the writers is free again. The first write opens the console by its name through the VFS layer,
  later ones use the open vnode. If another thread holds the lock of the writers, its characters come first; if the lock is free, nothing does.
  The exclusion rests on the lock: only to the thread that holds it do the waits for the device promise that nobody else sends.
  It is assumed that the waits end, that kernel messages do not interfere, and that the run queue has room for the threads that wait for the lock.
\<close>

theorem write_reaches_console:
  assumes "cur_proc s = Some th" "t_v th = 0 \<or> t_v th = cv" "fd = 1 \<or> fd = 2" "buf \<noteq> 0" "io_ready (unat n) (user_uio th buf n UIO_WRITE, s)"
    "console_attached VE C D cv s" "locks (krn s) (con_userlock_write s) = Some l" "lk_held l \<noteq> 1 \<or> lock_comes C (con_userlock_write s)"
    "can_wake (con_userlock_write s) (krn s)" "waits_exclusively C (con_userlock_write s)" "allocator_ok (ce_km C)"
  shows "\<exists>s' others. sys_write (kernel_env VE E) fd buf n s = Ret (Sys_return 0 (sint n)) s' \<and>
    con_sent s' = con_sent s @ others @ printed (block (um_bytes s) buf (unat n)) \<and> (lk_held l \<noteq> 1 \<longrightarrow> others = []) \<and>
    um_bytes s' = um_bytes s \<and> map_option t_v (cur_proc s') = Some cv \<and>
    map_option lk_held (locks (krn s') (con_userlock_write s)) = Some 0"
proof -
  let ?u = "user_uio th buf n UIO_WRITE" and ?lk = "con_userlock_write s"
  obtain dev where d: "D dev = con_device C" "dev_vnode VE D dev cv s" "cv \<noteq> 0" using assms(6) by (auto simp: console_attached_def dev_vnode_def)
  obtain s1 th1 where s1: "open_console (kernel_env VE E) s = Ret cv s1" "cur_proc s1 = Some th1" "t_v th1 = cv" "dev_vnode VE D dev cv s1"
    "same_io s s1" "the_console s1 = the_console s" "con_userlock_write s1 = ?lk" "locks (krn s1) = locks (krn s)" "can_wake ?lk (krn s1)"
    "con_sent s1 = con_sent s"
    using console_opened [OF assms(1,2,6) d(2) assms(9), of E] by blast
  have r: "io_ready (unat n) (?u, s1)" using assms(5) same_io_select(1) [OF s1(5)] by simp
  have "the_console s \<noteq> 0" "?lk \<noteq> 0" using assms(6) by (simp_all add: console_attached_def)
  with con_io_write [OF r _ _ _ _ s1(2), of l C] s1 assms(7,8,10,11)
  obtain s2 others where w: "con_io C (?u, s1) = Ret () (io_moved (unat n) ?u, s2)" "con_sent s2 = con_sent s @ others @ printed (io_next (unat n) (?u, s1))"
    "lk_held l \<noteq> 1 \<longrightarrow> others = []" "um_bytes s2 = um_bytes s1" "map_option t_v (cur_proc s2) = Some cv" "map_option lk_held (locks (krn s2) ?lk) = Some 0"
    by (auto simp: user_uio_def)
  then obtain th2 where th2: "cur_proc s2 = Some th2" "t_v th2 = cv" by auto
  have "io_next (unat n) (?u, s1) = block (um_bytes s) buf (unat n)" "um_bytes s1 = um_bytes s" using s1(5) by (simp_all add: io_next_def user_uio_def same_io_def)
  with sys_write_console [OF s1(1) assms(1,3,4) s1(4) d(1) w(1) th2(1)] w th2 show ?thesis by (auto simp: cur_proc_def)
qed

text \<open>
  A machine whose only device is the console, with a greeting in the memory of the process. The lock of the writers is held by another thread,
  which sends one more character before it lets go.
\<close>

definition quiet_con :: conenv where
  "quiet_con = \<lparr>ce_rwait = (\<lambda>s. Ret () s), ce_wwait = (\<lambda>s. Ret () s),
     ce_lkwait = (\<lambda>lk s. Ret () (s\<lparr>krn := (krn s)\<lparr>locks := (locks (krn s))(lk \<mapsto> \<lparr>lk_name = [], lk_held = 1, lk_heldThread = curthread (krn s)\<rparr>)\<rparr>,
       con_sent := con_sent s @ [65]\<rparr>)), ce_km = refuses\<rparr>"

definition bare_fs :: fs_ops where
  "bare_fs = \<lparr>fo_sync = (\<lambda>_ s. Ret () s), fo_getvolname = (\<lambda>_ _. None), fo_getroot = (\<lambda>_ _. Panic), fo_unmount = (\<lambda>_ s. Err EBUSY s)\<rparr>"

definition con_vfs :: vfsenv where
  "con_vfs = \<lparr>ve_ops = (\<lambda>_. dev_vnode_ops (\<lambda>_. con_device quiet_con)), ve_fs = (\<lambda>_. bare_fs), ve_devops = 0x80009000\<rparr>"

definition con_sys :: sys where
  "con_sys = one_sys\<lparr>um_bytes := (\<lambda>a. if a = 0x1000 then 72 else if a = 0x1001 then 105 else if a = 0x1002 then 10 else 0),
     krn := one_kernel\<lparr>vnodes := [0x8000a000 \<mapsto> \<lparr>vn_refcount = 1, vn_opencount = 0, vn_countlock = 0, vn_fs = 0, vn_data = 0x8000b000, vn_ops = 0x80009000\<rparr>],
       locks := [0x80008400 \<mapsto> \<lparr>lk_name = [], lk_held = 1, lk_heldThread = 0x80007000\<rparr>],
       sleepers := Some \<lparr>a_num = 0, a_max = 4, a_v = Some [0, 0, 0, 0]\<rparr>, runqueue := Some \<lparr>q_size = 4, nextwrite = 0, nextread = 0, q_data = [0, 0, 0, 0]\<rparr>\<rparr>,
     knowndevs := [\<lparr>kd_name = CON, kd_rawname = None, kd_device = 0x8000b000, kd_vnode = 0x8000a000, kd_fs = 0\<rparr>]\<rparr>"

lemma quiet_con_waits: "waits_exclusively quiet_con lk" "lock_comes quiet_con lk"
proof -
  show "waits_exclusively quiet_con lk" by (auto simp: waits_exclusively_def quiet_con_def left_alone_def same_io_def)
  have "can_wake lk ((krn s)\<lparr>locks := ls\<rparr>)" if "can_wake lk (krn s)" for s ls by (rule can_wake_same_threads [OF that]) simp_all
  then show "lock_comes quiet_con lk" by (auto simp: lock_comes_def quiet_con_def left_alone_def same_io_def holds_def cur_proc_def)
qed

lemma con_sys_can_wake: "can_wake 0x80008400 (krn con_sys)"
  by (simp add: can_wake_def con_sys_def lists_inv_def runq_inv_def queue_inv_def queue_limit_def array_inv_def array_limit_def asleep_def array_list_def
    ready_def q_list_def ring_list_def max_ready_def)

theorem write_reaches_console_witness:
  "\<exists>s' others. sys_write (kernel_env con_vfs idle_env) 1 0x1000 3 con_sys = Ret (Sys_return 0 3) s' \<and> con_sent s' = others @ [72, 105, 13, 10]"
proof -
  let ?th = "thread0\<lparr>t_vmspace := 0x80006000\<rparr>" and ?l = "\<lparr>lk_name = [], lk_held = 1, lk_heldThread = 0x80007000\<rparr>"
  have c: "cur_proc con_sys = Some ?th" "t_v ?th = 0 \<or> t_v ?th = 0x8000a000" "con_userlock_write con_sys = 0x80008400" "locks (krn con_sys) 0x80008400 = Some ?l"
    by (simp_all add: con_sys_def one_sys_def one_kernel_def cur_proc_def thread0_def)
  have r: "io_ready (unat (3 :: 32 word)) (user_uio ?th 0x1000 3 UIO_WRITE, con_sys)"
  proof -
    have "um_reads con_sys (0x1000 + of_nat i)" if "i < 3" for i :: nat
    proof -
      have "i = 0 \<or> i = 1 \<or> i = 2" using that by linarith
      then show ?thesis by (auto simp: con_sys_def one_sys_def USERTOP_def)
    qed
    then show ?thesis by (simp add: io_ready_def user_uio_def con_sys_def one_sys_def thread0_def)
  qed
  have a: "console_attached con_vfs quiet_con (\<lambda>_. con_device quiet_con) 0x8000a000 con_sys"
    unfolding console_attached_def by (intro conjI exI [of _ "[]"] exI [of _ "0x8000b000"])
      (simp_all add: con_sys_def one_sys_def dev_vnode_def con_vfs_def countable_def)
  have "allocator_ok (ce_km quiet_con)" by (simp add: quiet_con_def)
  with write_reaches_console [OF c(1,2) _ _ r a, of 1 ?l idle_env] quiet_con_waits con_sys_can_wake
  obtain s' others where s': "sys_write (kernel_env con_vfs idle_env) 1 0x1000 3 con_sys = Ret (Sys_return 0 (sint (3 :: 32 word))) s'"
    "con_sent s' = con_sent con_sys @ others @ printed (block (um_bytes con_sys) 0x1000 (unat (3 :: 32 word)))"
    unfolding c(3) using c(4) by auto
  moreover have "block (um_bytes con_sys) 0x1000 3 = [72, 105, 10]" by (simp add: block_Suc numeral_3_eq_3 con_sys_def)
  moreover have "con_sent con_sys = []" by (simp add: con_sys_def one_sys_def)
  ultimately show ?thesis by (auto simp: printed_def)
qed

section \<open>The list of devices\<close>

text \<open>
  No two devices share a name, be it a device name, a raw name or the name of a mounted volume, and a
  device without a file system can be opened.
\<close>

definition devs_ok :: "vfsenv \<Rightarrow> sys \<Rightarrow> bool" where
  "devs_ok E s \<longleftrightarrow>
     (\<forall>n. \<forall>i < length (knowndevs s). \<forall>j < length (knowndevs s). named E s n (knowndevs s ! i) \<and> named E s n (knowndevs s ! j) \<longrightarrow> i = j) \<and>
     (\<forall>kd \<in> set (knowndevs s). (kd_fs kd = 0 \<or> kd_rawname kd \<noteq> None \<longrightarrow> kd_device kd \<noteq> 0) \<and> kd_rawname kd \<noteq> Some (kd_name kd))"

text \<open>The names of volumes do not depend on the state: no file system renames its volume.\<close>

definition volumes_fixed :: "vfsenv \<Rightarrow> bool" where
  "volumes_fixed E \<longleftrightarrow> (\<forall>fs s t. volname E fs s = volname E fs t)"

lemma named_fixed: "volumes_fixed E \<Longrightarrow> named E s n kd = named E t n kd"
  unfolding named_def volumes_fixed_def by metis

lemma samestring3_iff: "samestring3 a (Some d) raw vol \<longleftrightarrow> (\<exists>n. a = Some n \<and> (d = n \<or> raw = Some n \<or> vol = Some n))"
  by (cases a; cases raw; cases vol) (auto simp: samestring3_def samestring_def)

lemma badnames_iff:
  assumes "vol = (if fs \<noteq> 0 then volname E fs s else None)"
  shows "badnames E (Some dname) raw vol s \<longleftrightarrow>
    (\<exists>n. \<exists>kd \<in> set (knowndevs s). named E s n kd \<and> named E s n \<lparr>kd_name = dname, kd_rawname = raw, kd_device = dev, kd_vnode = v, kd_fs = fs\<rparr>)"
proof -
  have "named E s n \<lparr>kd_name = dname, kd_rawname = raw, kd_device = dev, kd_vnode = v, kd_fs = fs\<rparr> \<longleftrightarrow> dname = n \<or> raw = Some n \<or> vol = Some n" for n
    using assms by (simp add: named_def)
  then show ?thesis unfolding badnames_def samestring3_iff by (simp add: named_def) blast
qed

lemma getroot_scan_drop: "\<not> named E s n kd \<Longrightarrow> getroot_scan E n (kds @ [kd]) s = getroot_scan E n kds s"
  by (induction kds) (auto simp: named_def)

lemma vfs_adddev_Ret:
  assumes "vfs_adddev E A name dev mountable s = Ret () s'" "volumes_fixed E"
  shows "knowndevs s' = knowndevs s @ [\<lparr>kd_name = name, kd_rawname = if mountable then Some (mkrawname name) else None,
      kd_device = dev, kd_vnode = da_vnode A, kd_fs = 0\<rparr>] \<and>
    \<not> badnames E (Some name) (if mountable then Some (mkrawname name) else None) None s"
proof -
  have bad: "badnames E a b c (s\<lparr>krn := k\<rparr>) = badnames E a b c s" for a b c k
    using assms(2) unfolding badnames_def volumes_fixed_def by (metis sys.select_convs(3) sys.surjective sys.update_convs(1))
  show ?thesis using assms(1) unfolding vfs_adddev_def vfs_doadd_def Let_def
    by (auto simp: kbind_Ret_iff on_kernel_Ret dev_create_vnode_def bad split: if_splits result.splits)
qed

lemma devs_ok_snoc:
  assumes "devs_ok E s" "volumes_fixed E" "knowndevs s' = knowndevs s @ [kd]"
    "kd_fs kd = 0 \<or> kd_rawname kd \<noteq> None \<longrightarrow> kd_device kd \<noteq> 0" "kd_rawname kd \<noteq> Some (kd_name kd)"
    "\<And>k n. k \<in> set (knowndevs s) \<Longrightarrow> named E s n kd \<Longrightarrow> \<not> named E s n k"
  shows "devs_ok E s'"
proof -
  have "i = j" if "i < length (knowndevs s')" "j < length (knowndevs s')" "named E s n (knowndevs s' ! i)" "named E s n (knowndevs s' ! j)" for i j n
    using that assms(1,6) unfolding assms(3) devs_ok_def by (auto simp: nth_append less_Suc_eq split: if_splits)
  moreover have "named E s' n k = named E s n k" for n k by (rule named_fixed [OF assms(2)])
  moreover have "\<forall>k \<in> set (knowndevs s'). (kd_fs k = 0 \<or> kd_rawname k \<noteq> None \<longrightarrow> kd_device k \<noteq> 0) \<and> kd_rawname k \<noteq> Some (kd_name k)"
    using assms(1,4,5) unfolding devs_ok_def by (simp add: assms(3))
  ultimately show ?thesis unfolding devs_ok_def by metis
qed

text \<open>
  C19. Adding a device. As long as no two devices share a name, \<^verbatim>\<open>vfs_adddev\<close> keeps it so when it succeeds. The new
  name then leads to the device itself, or to \<^verbatim>\<open>ENXIO\<close> if a file system must be mounted on it first, in which case the
  name with ``raw'' appended leads to the device; every other name leads to what the list before gives.
\<close>

theorem adddev_then_getroot:
  assumes "devs_ok E s" "volumes_fixed E" "dev \<noteq> 0" "vfs_adddev E A name dev mountable s = Ret () s'"
  shows "devs_ok E s' \<and>
    vfs_getroot E name s' = (if mountable then Err ENXIO s' else kbind (VOP_INCREF (da_vnode A) s') (\<lambda>_ t. Ret (da_vnode A) t)) \<and>
    (mountable \<longrightarrow> vfs_getroot E (mkrawname name) s' = kbind (VOP_INCREF (da_vnode A) s') (\<lambda>_ t. Ret (da_vnode A) t)) \<and>
    (\<forall>n. n \<noteq> name \<and> \<not> (mountable \<and> n = mkrawname name) \<longrightarrow> vfs_getroot E n s' = getroot_scan E n (knowndevs s) s')"
proof -
  let ?raw = "if mountable then Some (mkrawname name) else None"
  define kd where "kd = \<lparr>kd_name = name, kd_rawname = ?raw, kd_device = dev, kd_vnode = da_vnode A, kd_fs = 0\<rparr>"
  have added: "knowndevs s' = knowndevs s @ [kd]" "\<not> badnames E (Some name) ?raw None s"
    using vfs_adddev_Ret [OF assms(4,2)] by (simp_all add: kd_def)
  have nm: "named E t n kd \<longleftrightarrow> n = name \<or> (mountable \<and> n = mkrawname name)" for n t by (auto simp: kd_def named_def)
  have fresh: "\<not> named E t n k" if "k \<in> set (knowndevs s)" "named E u n kd" for k n t u
    using added(2) badnames_iff [of None 0 E s name ?raw dev "da_vnode A", folded kd_def] that
      named_fixed [OF assms(2), of u n kd s] named_fixed [OF assms(2), of t n k s] by auto
  have "devs_ok E s'"
    by (rule devs_ok_snoc [OF assms(1,2) added(1)]) (use assms(3) fresh in \<open>auto simp: kd_def mkrawname_def split: if_splits\<close>)
  moreover have "vfs_getroot E n s' = getroot_scan E n (knowndevs s) s'" if "\<not> named E s' n kd" for n
    unfolding vfs_getroot_def added(1) using getroot_scan_drop [OF that] .
  moreover have "vfs_getroot E n s' = getroot_scan E n [kd] s'" if "named E s n kd" for n
    unfolding vfs_getroot_def using added(1) getroot_scan_skip [of "knowndevs s" E s' n "[kd]"] fresh that by simp
  ultimately show ?thesis using nm assms(3) by (auto simp: kd_def kd_itself_def mkrawname_def)
qed

text \<open>A null device is added to the machine of the console.\<close>

definition null_add :: doadd_env where
  "null_add = \<lparr>da_name = True, da_rawname = True, da_vnode = 0x8000c000, da_lock = 0x8000c100, da_kd = True, da_array = True\<rparr>"

lemma con_vfs_fixed: "volumes_fixed con_vfs"
  by (simp add: volumes_fixed_def volname_def con_vfs_def bare_fs_def)

lemma con_sys_devs: "devs_ok con_vfs con_sys"
  by (simp add: devs_ok_def con_sys_def)

theorem adddev_then_getroot_witness:
  "\<exists>s'. vfs_adddev con_vfs null_add [110] 0x8000d000 True con_sys = Ret () s' \<and> vfs_getroot con_vfs [110] s' = Err ENXIO s'"
proof -
  have "\<exists>s'. vfs_adddev con_vfs null_add [110] 0x8000d000 True con_sys = Ret () s'"
    by (simp add: vfs_adddev_def vfs_doadd_def null_add_def dev_create_vnode_def vnode_init_def on_kernel_def con_sys_def con_vfs_def badnames_def samestring3_def
      samestring_def mkrawname_def CON_def Let_def lock_create_def)
  then obtain s' where "vfs_adddev con_vfs null_add [110] 0x8000d000 True con_sys = Ret () s'" by blast
  with adddev_then_getroot [OF con_sys_devs con_vfs_fixed _ this] show ?thesis by simp
qed

section \<open>The boot file system\<close>

lemma first_index_Some: "x \<in> set xs \<Longrightarrow> f x \<Longrightarrow> \<exists>i < length xs. first_index f xs = Some i"
  by (induction xs) auto

text \<open>
  \<^verbatim>\<open>vfs_setbootfs\<close> means to accept a name with a colon at its end. The test compares the length of the string that
  starts at the colon, which is never 0: every name with a colon among its first 254 characters is refused.
\<close>

lemma setbootfs_colon:
  assumes "colon \<in> set (take (NAME_MAX - 1) fsname)"
  shows "vfs_setbootfs E fsname s = Err EINVAL s"
  using first_index_Some [OF assms, of "\<lambda>c. c = colon"] by (auto simp: vfs_setbootfs_def)
end
