(* ===== verification/KEmu.thy ===== *)
theory KEmu
  imports KVfs
begin

text \<open>
  The emulator file system, \<^verbatim>\<open>kern/dev/lamebus/emu.c\<close>, through which the kernel reads the files of the host. The device
  is an argument \<open>H\<close>: from the list of all operations it has been asked for, with the registers and the buffer as the
  driver left them, it gives the result code and the new contents of the registers and the buffer. Writing the operation
  register, the interrupt that reports the result and the wait for it are one step; so is what is done under \<^verbatim>\<open>e_lock\<close>.
  The structure of a vnode or of the file system begins with the abstract structure, so both have the same address. The
  message printed for a failed close, and what a failed transfer leaves in the buffer, are not modelled.
\<close>

unbundle bit_operations_syntax

section \<open>Operations of the device\<close>

datatype emu_result =
    EMU_RES_SUCCESS | EMU_RES_BADHANDLE | EMU_RES_BADOP | EMU_RES_BADPATH | EMU_RES_BADSIZE | EMU_RES_EXISTS | EMU_RES_ISDIR
  | EMU_RES_MEDIA | EMU_RES_NOHANDLES | EMU_RES_NOSPACE | EMU_RES_NOTDIR | EMU_RES_UNKNOWN | EMU_RES_UNSUPP | EMU_RES_other

type_synonym emuhw = "vaddr \<Rightarrow> (emu_op \<times> emu_regs) list \<Rightarrow> emu_result \<times> emu_regs"

definition EMU_MAXIO :: nat where "EMU_MAXIO = 16384"
definition EMU_ROOTHANDLE :: "32 word" where "EMU_ROOTHANDLE = 0"

fun translate_err :: "emu_result \<Rightarrow> sys \<Rightarrow> unit sysres" where
  "translate_err EMU_RES_SUCCESS s = Ret () s"
| "translate_err EMU_RES_BADHANDLE s = Panic"
| "translate_err EMU_RES_BADOP s = Panic"
| "translate_err EMU_RES_BADSIZE s = Panic"
| "translate_err EMU_RES_BADPATH s = Err ENOENT s"
| "translate_err EMU_RES_EXISTS s = Err EEXIST s"
| "translate_err EMU_RES_ISDIR s = Err EISDIR s"
| "translate_err EMU_RES_MEDIA s = Err EIO s"
| "translate_err EMU_RES_NOHANDLES s = Err ENFILE s"
| "translate_err EMU_RES_NOSPACE s = Err ENOSPC s"
| "translate_err EMU_RES_NOTDIR s = Err ENOTDIR s"
| "translate_err EMU_RES_UNKNOWN s = Err EIO s"
| "translate_err EMU_RES_UNSUPP s = Err EUNIMP s"
| "translate_err EMU_RES_other s = Err EAGAIN s"

definition emu_rreg :: "vaddr \<Rightarrow> (emu_regs \<Rightarrow> 'v) \<Rightarrow> sys \<Rightarrow> 'v" where
  "emu_rreg sc reg s = reg (e_regs (emus s sc))"

definition emu_wreg :: "vaddr \<Rightarrow> (emu_regs \<Rightarrow> emu_regs) \<Rightarrow> sys \<Rightarrow> sys" where
  "emu_wreg sc f s = s\<lparr>emus := (emus s)(sc := (emus s sc)\<lparr>e_regs := f (e_regs (emus s sc))\<rparr>)\<rparr>"

definition emu_oper :: "emuhw \<Rightarrow> vaddr \<Rightarrow> emu_op \<Rightarrow> sys \<Rightarrow> unit sysres" where
  "emu_oper H sc opn s =
     (let log = e_log (emus s sc) @ [(opn, e_regs (emus s sc))]
      in case H sc log of (code, regs) \<Rightarrow> translate_err code (s\<lparr>emus := (emus s)(sc := \<lparr>e_regs = regs, e_log = log\<rparr>)\<rparr>))"

definition emu_open :: "emuhw \<Rightarrow> vaddr \<Rightarrow> 32 word \<Rightarrow> byte list \<Rightarrow> bool \<Rightarrow> bool \<Rightarrow> sys \<Rightarrow> (32 word \<times> bool) sysres" where
  "emu_open H sc handle name create excl s =
     (if length name + 1 > EMU_MAXIO then Err ENAMETOOLONG s
      else let opn = (if create \<and> excl then EMU_OP_EXCLCREATE else if create then EMU_OP_CREATE else EMU_OP_OPEN);
               s = emu_wreg sc (\<lambda>r. r\<lparr>emu_iobuf := name @ [0] @ drop (length name + 1) (emu_iobuf r)\<rparr>) s;
               s = emu_wreg sc (\<lambda>r. r\<lparr>reg_iolen := of_nat (length name)\<rparr>) s;
               s = emu_wreg sc (\<lambda>r. r\<lparr>reg_handle := handle\<rparr>) s
      in kbind (emu_oper H sc opn s) (\<lambda>_ s. Ret (emu_rreg sc reg_handle s, emu_rreg sc reg_iolen s > 0) s))"

text \<open>The operation is repeated up to ten times.\<close>

primrec emu_close_loop :: "emuhw \<Rightarrow> vaddr \<Rightarrow> 32 word \<Rightarrow> nat \<Rightarrow> sys \<Rightarrow> unit sysres" where
  "emu_close_loop H sc handle 0 s = emu_oper H sc EMU_OP_CLOSE (emu_wreg sc (\<lambda>r. r\<lparr>reg_handle := handle\<rparr>) s)"
| "emu_close_loop H sc handle (Suc n) s =
     (case emu_oper H sc EMU_OP_CLOSE (emu_wreg sc (\<lambda>r. r\<lparr>reg_handle := handle\<rparr>) s) of
        Err e s \<Rightarrow> if e = EIO then emu_close_loop H sc handle n s else Err e s
      | Ret v s \<Rightarrow> Ret v s | Panic \<Rightarrow> Panic | Undef \<Rightarrow> Undef)"

definition emu_close :: "emuhw \<Rightarrow> vaddr \<Rightarrow> 32 word \<Rightarrow> sys \<Rightarrow> unit sysres" where
  "emu_close H sc handle s = emu_close_loop H sc handle 10 s"

text \<open>The offset of the request is set from the register whether or not the transfer has failed.\<close>

fun take_offset :: "vaddr \<Rightarrow> byte list uiores \<Rightarrow> unit uiores" where
  "take_offset sc (Ret v (u, s)) = Ret () (u\<lparr>uio_offset := sint (emu_rreg sc reg_offset s)\<rparr>, s)"
| "take_offset sc (Err e (u, s)) = Err e (u\<lparr>uio_offset := sint (emu_rreg sc reg_offset s)\<rparr>, s)"
| "take_offset sc Panic = Panic"
| "take_offset sc Undef = Undef"

definition emu_transfer_regs :: "vaddr \<Rightarrow> 32 word \<Rightarrow> 32 word \<Rightarrow> uio \<times> sys \<Rightarrow> sys" where
  "emu_transfer_regs sc handle len us =
     emu_wreg sc (\<lambda>r. r\<lparr>reg_handle := handle, reg_iolen := len, reg_offset := word_of_int (uio_offset (fst us))\<rparr>) (snd us)"

definition emu_doread :: "emuhw \<Rightarrow> vaddr \<Rightarrow> 32 word \<Rightarrow> 32 word \<Rightarrow> emu_op \<Rightarrow> uio \<times> sys \<Rightarrow> unit uiores" where
  "emu_doread H sc handle len opn us =
     (if uio_op (fst us) \<noteq> UIO_READ then Panic
      else kbind (in_part (\<lambda>s. (fst us, s)) (emu_oper H sc opn (emu_transfer_regs sc handle len us))) (\<lambda>_ us.
        take_offset sc (uiomove (emu_rreg sc emu_iobuf (snd us)) 0 (unat (emu_rreg sc reg_iolen (snd us))) us)))"

definition emu_read :: "emuhw \<Rightarrow> vaddr \<Rightarrow> 32 word \<Rightarrow> 32 word \<Rightarrow> uio \<times> sys \<Rightarrow> unit uiores" where
  "emu_read H sc handle len us = emu_doread H sc handle len EMU_OP_READ us"

definition emu_readdir :: "emuhw \<Rightarrow> vaddr \<Rightarrow> 32 word \<Rightarrow> 32 word \<Rightarrow> uio \<times> sys \<Rightarrow> unit uiores" where
  "emu_readdir H sc handle len us = emu_doread H sc handle len EMU_OP_READDIR us"

definition emu_write :: "emuhw \<Rightarrow> vaddr \<Rightarrow> 32 word \<Rightarrow> 32 word \<Rightarrow> uio \<times> sys \<Rightarrow> unit uiores" where
  "emu_write H sc handle len us =
     (if uio_op (fst us) \<noteq> UIO_WRITE then Panic
      else let s = emu_transfer_regs sc handle len us
      in kbind (uiomove (emu_rreg sc emu_iobuf s) 0 (unat len) (fst us, s)) (\<lambda>buf (u, s).
           in_part (\<lambda>s. (u, s)) (emu_oper H sc EMU_OP_WRITE (emu_wreg sc (\<lambda>r. r\<lparr>emu_iobuf := buf\<rparr>) s))))"

definition emu_getsize :: "emuhw \<Rightarrow> vaddr \<Rightarrow> 32 word \<Rightarrow> sys \<Rightarrow> int sysres" where
  "emu_getsize H sc handle s =
     kbind (emu_oper H sc EMU_OP_GETSIZE (emu_wreg sc (\<lambda>r. r\<lparr>reg_handle := handle\<rparr>) s)) (\<lambda>_ s. Ret (sint (emu_rreg sc reg_iolen s)) s)"

definition emu_trunc :: "emuhw \<Rightarrow> vaddr \<Rightarrow> 32 word \<Rightarrow> int \<Rightarrow> sys \<Rightarrow> unit sysres" where
  "emu_trunc H sc handle len s = emu_oper H sc EMU_OP_TRUNC (emu_wreg sc (\<lambda>r. r\<lparr>reg_handle := handle, reg_iolen := word_of_int len\<rparr>) s)"

section \<open>Operations of vnodes\<close>

definition emufs_open :: "vaddr \<Rightarrow> 32 word \<Rightarrow> sys \<Rightarrow> unit sysres" where
  "emufs_open v openflags s = (if openflags AND O_APPEND \<noteq> 0 then Err EUNIMP s else Ret () s)"

definition emufs_opendir :: "vaddr \<Rightarrow> 32 word \<Rightarrow> sys \<Rightarrow> unit sysres" where
  "emufs_opendir v openflags s =
     (if openflags AND O_ACCMODE \<noteq> O_RDONLY then Err EISDIR s
      else if openflags AND O_APPEND \<noteq> 0 then Err EISDIR s
      else Ret () s)"

definition emufs_close :: "vaddr \<Rightarrow> sys \<Rightarrow> unit sysres" where
  "emufs_close v s = Ret () s"

text \<open>The structures behind a vnode, \<^verbatim>\<open>v->vn_data\<close> and \<^verbatim>\<open>v->vn_fs->fs_data\<close>.\<close>

definition with_ev :: "vaddr \<Rightarrow> sys \<Rightarrow> (vnode \<Rightarrow> emufs_vnode \<Rightarrow> ('v, 't) result) \<Rightarrow> ('v, 't) result" where
  "with_ev v s f = deref (vnodes (krn s) v) (\<lambda>vn. deref (emuvns s (vn_data vn)) (f vn))"

text \<open>Removing a vnode from the table of the file system, releasing what \<^verbatim>\<open>VOP_INIT\<close> made and freeing the structure.\<close>

definition drop_vnode :: "vaddr \<Rightarrow> sys \<Rightarrow> unit sysres" where
  "drop_vnode v s =
     kbind (on_kernel (vnode_kill v) s) (\<lambda>_ s.
       Ret () (s\<lparr>emuvns := (emuvns s)(v := None), krn := (krn s)\<lparr>vnodes := (vnodes (krn s))(v := None)\<rparr>\<rparr>))"

definition emufs_reclaim :: "emuhw \<Rightarrow> vaddr \<Rightarrow> sys \<Rightarrow> unit sysres" where
  "emufs_reclaim H v s =
     with_ev v s (\<lambda>vn ev.
       if vn_refcount vn \<noteq> 1 then Err EBUSY s
       else kbind (emu_close H (ev_emu ev) (ev_handle ev) s) (\<lambda>_ s.
         deref (emufss s (vn_fs vn)) (\<lambda>ef.
           case first_index (\<lambda>evx. evx = vn_data vn) (ef_vnodes ef) of
             None \<Rightarrow> Panic
           | Some ix \<Rightarrow>
               drop_vnode v (s\<lparr>emufss := (emufss s)(vn_fs vn \<mapsto> ef\<lparr>ef_vnodes := take ix (ef_vnodes ef) @ drop (Suc ix) (ef_vnodes ef)\<rparr>)\<rparr>))))"

definition emu_amount :: "uio \<Rightarrow> 32 word" where
  "emu_amount u = of_nat (if uio_resid u > EMU_MAXIO then EMU_MAXIO else uio_resid u)"

text \<open>
  The loops of \<^verbatim>\<open>emufs_read\<close> and \<^verbatim>\<open>emufs_write\<close>: as long as bytes remain and the last operation has moved some. Every round
  that is not the last leaves fewer bytes, so the number of bytes is enough fuel.
\<close>

primrec emufs_io_loop :: "(uio \<times> sys \<Rightarrow> unit uiores) \<Rightarrow> nat \<Rightarrow> uio \<times> sys \<Rightarrow> unit uiores" where
  "emufs_io_loop f 0 us = (if uio_resid (fst us) > 0 then Undef else Ret () us)"
| "emufs_io_loop f (Suc n) us =
     (if uio_resid (fst us) > 0
      then kbind (f us) (\<lambda>_ us'. if uio_resid (fst us') = uio_resid (fst us) then Ret () us' else emufs_io_loop f n us')
      else Ret () us)"

definition emufs_read :: "emuhw \<Rightarrow> vaddr \<Rightarrow> uio \<times> sys \<Rightarrow> unit uiores" where
  "emufs_read H v us =
     with_ev v (snd us) (\<lambda>vn ev.
       if uio_op (fst us) \<noteq> UIO_READ then Panic
       else emufs_io_loop (\<lambda>us. emu_read H (ev_emu ev) (ev_handle ev) (emu_amount (fst us)) us) (uio_resid (fst us)) us)"

definition emufs_getdirentry :: "emuhw \<Rightarrow> vaddr \<Rightarrow> uio \<times> sys \<Rightarrow> unit uiores" where
  "emufs_getdirentry H v us =
     with_ev v (snd us) (\<lambda>vn ev.
       if uio_op (fst us) \<noteq> UIO_READ then Panic
       else emu_readdir H (ev_emu ev) (ev_handle ev) (emu_amount (fst us)) us)"

definition emufs_write :: "emuhw \<Rightarrow> vaddr \<Rightarrow> uio \<times> sys \<Rightarrow> unit uiores" where
  "emufs_write H v us =
     with_ev v (snd us) (\<lambda>vn ev.
       if uio_op (fst us) \<noteq> UIO_WRITE then Panic
       else emufs_io_loop (\<lambda>us. emu_write H (ev_emu ev) (ev_handle ev) (emu_amount (fst us)) us) (uio_resid (fst us)) us)"

definition emufs_ioctl :: "vaddr \<Rightarrow> int \<Rightarrow> 32 word \<Rightarrow> sys \<Rightarrow> unit sysres" where
  "emufs_ioctl v opn data s = Err EINVAL s"

definition emufs_stat :: "vfsenv \<Rightarrow> emuhw \<Rightarrow> vaddr \<Rightarrow> sys \<Rightarrow> (int \<times> int \<times> int \<times> int) sysres" where
  "emufs_stat E H v s =
     with_ev v s (\<lambda>vn ev.
       kbind (with_ops E False v s (\<lambda>ops. vo_gettype ops v s)) (\<lambda>mode s.
         kbind (emu_getsize H (ev_emu ev) (ev_handle ev) s) (\<lambda>sz s. Ret (mode, 1, sz, 0) s)))"

definition emufs_file_gettype :: "vaddr \<Rightarrow> sys \<Rightarrow> int sysres" where
  "emufs_file_gettype v s = Ret S_IFREG s"

definition emufs_dir_gettype :: "vaddr \<Rightarrow> sys \<Rightarrow> int sysres" where
  "emufs_dir_gettype v s = Ret S_IFDIR s"

definition emufs_tryseek :: "vaddr \<Rightarrow> int \<Rightarrow> sys \<Rightarrow> unit sysres" where
  "emufs_tryseek v pos s = (if pos < 0 then Err EINVAL s else Ret () s)"

definition emufs_fsync :: "vaddr \<Rightarrow> sys \<Rightarrow> unit sysres" where
  "emufs_fsync v s = Ret () s"

definition emufs_truncate :: "emuhw \<Rightarrow> vaddr \<Rightarrow> int \<Rightarrow> sys \<Rightarrow> unit sysres" where
  "emufs_truncate H v len s = with_ev v s (\<lambda>vn ev. emu_trunc H (ev_emu ev) (ev_handle ev) len s)"

text \<open>
  What the allocator finds for a new vnode: the addresses of the structure and of its lock, 0 for none, and whether the table can
  be extended; and the addresses of the two tables of operations.
\<close>

record emu_alloc =
  ea_vnode :: "sys \<Rightarrow> vaddr"
  ea_lock :: "sys \<Rightarrow> vaddr"
  ea_array :: "sys \<Rightarrow> bool"
  ea_dirops :: vaddr
  ea_fileops :: vaddr

fun find_handle :: "32 word \<Rightarrow> vaddr list \<Rightarrow> sys \<Rightarrow> vaddr option sysres" where
  "find_handle handle [] s = Ret None s"
| "find_handle handle (ev # evs) s = deref (emuvns s ev) (\<lambda>e. if ev_handle e = handle then Ret (Some ev) s else find_handle handle evs s)"

definition emufs_loadvnode :: "emu_alloc \<Rightarrow> vaddr \<Rightarrow> 32 word \<Rightarrow> bool \<Rightarrow> sys \<Rightarrow> vaddr sysres" where
  "emufs_loadvnode A fs handle isdir s =
     deref (emufss s fs) (\<lambda>ef.
       kbind (find_handle handle (ef_vnodes ef) s) (\<lambda>found s.
         case found of
           Some ev \<Rightarrow> kbind (VOP_INCREF ev s) (\<lambda>_ s. Ret ev s)
         | None \<Rightarrow>
             let ev = ea_vnode A s
             in if ev = 0 then Err ENOMEM s
                else kbind (on_kernel (vnode_init (ea_lock A s) ev (if isdir then ea_dirops A else ea_fileops A) fs ev) s) (\<lambda>_ s'.
                  let s'' = s'\<lparr>emuvns := (emuvns s')(ev \<mapsto> \<lparr>ev_emu = ef_emu ef, ev_handle = handle\<rparr>)\<rparr>
                  in if \<not> ea_array A s then kbind (drop_vnode ev s'') (\<lambda>_ s. Err ENOMEM s)
                     else Ret ev (s''\<lparr>emufss := (emufss s'')(fs \<mapsto> ef\<lparr>ef_vnodes := ef_vnodes ef @ [ev]\<rparr>)\<rparr>))))"

text \<open>Opening a name relative to a directory and loading the vnode; when that fails the handle is closed again, and the result of that is ignored.\<close>

definition emufs_get :: "emuhw \<Rightarrow> emu_alloc \<Rightarrow> bool \<Rightarrow> bool \<Rightarrow> vaddr \<Rightarrow> byte list \<Rightarrow> sys \<Rightarrow> vaddr sysres" where
  "emufs_get H A create excl dir name s =
     with_ev dir s (\<lambda>vn ev.
       kbind (emu_open H (ev_emu ev) (ev_handle ev) name create excl s) (\<lambda>(handle, isdir) s.
         case emufs_loadvnode A (vn_fs vn) handle isdir s of
           Err e s \<Rightarrow> kbind (ignore_error (emu_close H (ev_emu ev) handle s)) (\<lambda>_ s. Err e s)
         | Ret v s \<Rightarrow> Ret v s | Panic \<Rightarrow> Panic | Undef \<Rightarrow> Undef))"

definition emufs_creat :: "emuhw \<Rightarrow> emu_alloc \<Rightarrow> vaddr \<Rightarrow> byte list \<Rightarrow> bool \<Rightarrow> sys \<Rightarrow> vaddr sysres" where
  "emufs_creat H A dir name excl s = emufs_get H A True excl dir name s"

definition emufs_lookup :: "emuhw \<Rightarrow> emu_alloc \<Rightarrow> vaddr \<Rightarrow> byte list \<Rightarrow> sys \<Rightarrow> vaddr sysres" where
  "emufs_lookup H A dir pathname s = emufs_get H A False False dir pathname s"

text \<open>The last slash of a path, if there is one, separates the directory from the last component.\<close>

definition last_slash :: "byte list \<Rightarrow> (byte list \<times> byte list) option" where
  "last_slash path =
     (if slash \<in> set path
      then let name = rev (takeWhile (\<lambda>c. c \<noteq> slash) (rev path)) in Some (take (length path - length name - 1) path, name)
      else None)"

definition emufs_lookparent :: "emuhw \<Rightarrow> emu_alloc \<Rightarrow> vaddr \<Rightarrow> byte list \<Rightarrow> nat \<Rightarrow> sys \<Rightarrow> (vaddr \<times> byte list) sysres" where
  "emufs_lookparent H A dir pathname len s =
     (case last_slash pathname of
        None \<Rightarrow>
          if length pathname + 1 > len then Err ENAMETOOLONG s
          else kbind (VOP_INCREF dir s) (\<lambda>_ s. Ret (dir, pathname) s)
      | Some (path, name) \<Rightarrow>
          if length name + 1 > len then Err ENAMETOOLONG s
          else kbind (emufs_lookup H A dir path s) (\<lambda>v s. Ret (v, name) s))"

definition emufs_namefile :: "vaddr \<Rightarrow> uio \<times> sys \<Rightarrow> unit uiores" where
  "emufs_namefile v us =
     with_ev v (snd us) (\<lambda>vn ev.
       deref (emufss (snd us) (vn_fs vn)) (\<lambda>ef. if vn_data vn = ef_root ef then Ret () us else Err EUNIMP us))"

text \<open>The routines that only return an error, for operations with any number of arguments.\<close>

definition emufs_notdir :: "'t \<Rightarrow> ('v, 't) result" where "emufs_notdir s = Err ENOTDIR s"
definition emufs_isdir :: "'t \<Rightarrow> ('v, 't) result" where "emufs_isdir s = Err EISDIR s"
definition emufs_unimp :: "'t \<Rightarrow> ('v, 't) result" where "emufs_unimp s = Err EUNIMP s"

definition emufs_fileops :: "vfsenv \<Rightarrow> emuhw \<Rightarrow> vnode_ops" where
  "emufs_fileops E H =
     \<lparr>vo_magic = VOP_MAGIC, vo_open = emufs_open, vo_close = emufs_close, vo_reclaim = emufs_reclaim H, vo_read = emufs_read H,
      vo_readlink = (\<lambda>_. emufs_notdir), vo_getdirentry = (\<lambda>_. emufs_notdir), vo_write = emufs_write H, vo_ioctl = emufs_ioctl, vo_stat = emufs_stat E H,
      vo_gettype = emufs_file_gettype, vo_tryseek = emufs_tryseek, vo_fsync = emufs_fsync, vo_mmap = (\<lambda>_. emufs_unimp), vo_truncate = emufs_truncate H,
      vo_namefile = (\<lambda>_. emufs_notdir), vo_creat = (\<lambda>_ _ _. emufs_notdir), vo_symlink = (\<lambda>_ _ _. emufs_notdir), vo_mkdir = (\<lambda>_ _. emufs_notdir),
      vo_link = (\<lambda>_ _ _. emufs_notdir), vo_remove = (\<lambda>_ _. emufs_notdir), vo_rmdir = (\<lambda>_ _. emufs_notdir), vo_rename = (\<lambda>_ _ _ _. emufs_notdir),
      vo_lookup = (\<lambda>_ _. emufs_notdir), vo_lookparent = (\<lambda>_ _ _. emufs_notdir)\<rparr>"

definition emufs_dirops :: "vfsenv \<Rightarrow> emuhw \<Rightarrow> emu_alloc \<Rightarrow> vnode_ops" where
  "emufs_dirops E H A =
     \<lparr>vo_magic = VOP_MAGIC, vo_open = emufs_opendir, vo_close = emufs_close, vo_reclaim = emufs_reclaim H, vo_read = (\<lambda>_. emufs_isdir),
      vo_readlink = (\<lambda>_. emufs_isdir), vo_getdirentry = emufs_getdirentry H, vo_write = (\<lambda>_. emufs_isdir), vo_ioctl = emufs_ioctl, vo_stat = emufs_stat E H,
      vo_gettype = emufs_dir_gettype, vo_tryseek = (\<lambda>_ _. emufs_unimp), vo_fsync = (\<lambda>_. emufs_isdir), vo_mmap = (\<lambda>_. emufs_isdir), vo_truncate = (\<lambda>_ _. emufs_isdir),
      vo_namefile = emufs_namefile, vo_creat = emufs_creat H A, vo_symlink = (\<lambda>_ _ _. emufs_unimp), vo_mkdir = (\<lambda>_ _. emufs_unimp),
      vo_link = (\<lambda>_ _ _. emufs_unimp), vo_remove = (\<lambda>_ _. emufs_unimp), vo_rmdir = (\<lambda>_ _. emufs_unimp), vo_rename = (\<lambda>_ _ _ _. emufs_unimp),
      vo_lookup = emufs_lookup H A, vo_lookparent = emufs_lookparent H A\<rparr>"

section \<open>The file system\<close>

definition emufs_sync :: "vaddr \<Rightarrow> sys \<Rightarrow> unit sysres" where
  "emufs_sync fs s = Ret () s"

definition emufs_getvolname :: "vaddr \<Rightarrow> sys \<Rightarrow> byte list option" where
  "emufs_getvolname fs s = None"

definition emufs_getroot :: "vaddr \<Rightarrow> sys \<Rightarrow> vaddr sysres" where
  "emufs_getroot fs s =
     (if fs = 0 then Panic
      else deref (emufss s fs) (\<lambda>ef.
        if ef_root ef = 0 then Panic else kbind (VOP_INCREF (ef_root ef) s) (\<lambda>_ s. Ret (ef_root ef) s)))"

definition emufs_unmount :: "vaddr \<Rightarrow> sys \<Rightarrow> unit sysres" where
  "emufs_unmount fs s = Err EBUSY s"

definition emufs_fs_ops :: fs_ops where
  "emufs_fs_ops = \<lparr>fo_sync = emufs_sync, fo_getvolname = emufs_getvolname, fo_getroot = emufs_getroot, fo_unmount = emufs_unmount\<rparr>"

text \<open>\<open>fs\<close> is the address of the structure, 0 for none; \<open>arr\<close> says whether the table can be allocated.\<close>

definition emufs_addtovfs :: "vfsenv \<Rightarrow> emu_alloc \<Rightarrow> doadd_env \<Rightarrow> vaddr \<Rightarrow> bool \<Rightarrow> vaddr \<Rightarrow> byte list \<Rightarrow> sys \<Rightarrow> unit sysres" where
  "emufs_addtovfs E A D fs arr sc devname s =
     (let gone = (\<lambda>s. s\<lparr>emufss := (emufss s)(fs := None)\<rparr>)
      in if fs = 0 \<or> \<not> arr then Err ENOMEM s
         else case emufs_loadvnode A fs EMU_ROOTHANDLE True (s\<lparr>emufss := (emufss s)(fs \<mapsto> \<lparr>ef_emu = sc, ef_root = 0, ef_vnodes = []\<rparr>)\<rparr>) of
           Err e s \<Rightarrow> Err e (gone s)
         | Panic \<Rightarrow> Panic | Undef \<Rightarrow> Undef
         | Ret root s \<Rightarrow>
             deref (emufss s fs) (\<lambda>ef.
               case vfs_addfs E D devname fs (s\<lparr>emufss := (emufss s)(fs \<mapsto> ef\<lparr>ef_root := root\<rparr>)\<rparr>) of
                 Err e s \<Rightarrow> kbind (VOP_DECREF E root s) (\<lambda>_ s. Err e (gone s))
               | r \<Rightarrow> r))"

text \<open>The name of the device, ``emu'' and its number.\<close>

fun decimal :: "nat \<Rightarrow> byte list" where
  "decimal n = (if n < 10 then [of_nat (48 + n)] else decimal (n div 10) @ [of_nat (48 + n mod 10)])"

definition config_emu :: "vfsenv \<Rightarrow> emu_alloc \<Rightarrow> doadd_env \<Rightarrow> vaddr \<Rightarrow> vaddr \<Rightarrow> vaddr \<Rightarrow> bool \<Rightarrow> vaddr \<Rightarrow> nat \<Rightarrow> sys \<Rightarrow> unit sysres" where
  "config_emu E A D lk sem fs arr sc emuno s =
     kbind (on_kernel (lock_create lk True 0 ''emufs-lock'') s) (\<lambda>l s.
       if l = 0 then Err ENOMEM s
       else kbind (on_kernel (sem_create sem True ''emufs-sem'' 0) s) (\<lambda>p s.
         if p = 0 then kbind (on_kernel (lock_destroy l) s) (\<lambda>_ s. Err ENOMEM s)
         else emufs_addtovfs E A D fs arr sc ([101, 109, 117] @ decimal emuno) s))"

end
