(* ===== verification/KEmuFiles.thy ===== *)
theory KEmuFiles
  imports KEmu KFiles
begin

text \<open>
  Properties of the emulator file system of \<open>KEmu\<close>: reading a file of the host, termination and bounds of transfers, and the table of
  vnodes.
\<close>

unbundle bit_operations_syntax

section \<open>Reading\<close>

text \<open>
  The device as it is documented: a read of at most \<open>EMU_MAXIO\<close> bytes from an open handle gives the bytes that the file has
  from the offset on, in the buffer, with their number and the new offset in the registers.
\<close>

definition serves :: "emuhw \<Rightarrow> vaddr \<Rightarrow> 32 word \<Rightarrow> byte list \<Rightarrow> bool" where
  "serves H sc handle F \<longleftrightarrow>
     (\<forall>log regs. reg_handle regs = handle \<and> unat (reg_iolen regs) \<le> EMU_MAXIO \<longrightarrow>
       (let n = min (unat (reg_iolen regs)) (length F - unat (reg_offset regs))
        in case H sc (log @ [(EMU_OP_READ, regs)]) of (code, regs') \<Rightarrow>
          code = EMU_RES_SUCCESS \<and> unat (reg_iolen regs') = n \<and> n \<le> length (emu_iobuf regs') \<and>
          take n (emu_iobuf regs') = take n (drop (unat (reg_offset regs)) F) \<and> reg_offset regs' = of_nat (unat (reg_offset regs) + n)))"

lemma io_emus [simp]: "io_ready n (u, s\<lparr>emus := M\<rparr>) = io_ready n (u, s)"
  by (simp add: io_ready_def)

lemma io_store_emus: "io_store bs (u, s\<lparr>emus := M\<rparr>) = (fst (io_store bs (u, s)), snd (io_store bs (u, s))\<lparr>emus := M\<rparr>)"
  by (simp add: io_store_def)

lemma emus_io_store [simp]: "emus (snd (io_store bs us)) = emus (snd us)"
  by (cases us) (simp add: io_store_def)

lemma unat_of_nat_lt: "x < 4294967296 \<Longrightarrow> unat (of_nat x :: 32 word) = x"
  by (simp add: unat_of_nat take_bit_nat_eq_self)

lemma word_of_offset: "0 \<le> x \<Longrightarrow> x < 2147483648 \<Longrightarrow> unat (word_of_int x :: 32 word) = nat x"
  by (simp add: unat_eq_nat_uint uint_word_of_int_eq take_bit_int_eq_self)

lemma sint_small: "x < 2147483648 \<Longrightarrow> sint (of_nat x :: 32 word) = int x"
  by (simp add: signed_of_nat signed_take_bit_int_eq_self)

lemma emu_read_serves:
  assumes "serves H sc handle F" "length F < 2147483648" "io_ready (uio_resid u) (u, s)" "uio_op u = UIO_READ"
  defines "pos \<equiv> nat (uio_offset u)"
  defines "data \<equiv> take (min (uio_resid u) EMU_MAXIO) (drop pos F)"
  shows "\<exists>M. emu_read H sc handle (emu_amount u) (u, s) = Ret () (io_store data (u, s\<lparr>emus := M\<rparr>))"
proof -
  have r: "uio_resid u < 4294967296" "0 \<le> uio_offset u" "uio_offset u + int (uio_resid u) < 2147483648" using io_ready_cases [OF assms(3)] by simp_all
  define len where "len = min (uio_resid u) EMU_MAXIO"
  have amt: "unat (emu_amount u) = len" using r(1) by (simp add: emu_amount_def len_def EMU_MAXIO_def unat_of_nat_lt min_def)
  let ?s = "emu_transfer_regs sc handle (emu_amount u) (u, s)"
  define regs where "regs = e_regs (emus ?s sc)"
  define log where "log = e_log (emus s sc) @ [(EMU_OP_READ, regs)]"
  have regs: "reg_handle regs = handle" "unat (reg_iolen regs) = len" "unat (reg_offset regs) = pos"
    using r amt by (simp_all add: regs_def emu_transfer_regs_def emu_wreg_def pos_def word_of_offset)
  define n where "n = min len (length F - pos)"
  obtain regs' where H: "H sc log = (EMU_RES_SUCCESS, regs')" "unat (reg_iolen regs') = n" "n \<le> length (emu_iobuf regs')"
      "take n (emu_iobuf regs') = take n (drop pos F)" "reg_offset regs' = of_nat (pos + n)"
  proof -
    obtain code regs' where e: "H sc log = (code, regs')" by fastforce
    show thesis using assms(1) [unfolded serves_def Let_def, rule_format, of regs "e_log (emus s sc)"] regs that [of regs'] e
      unfolding log_def [symmetric] e regs n_def by (simp add: len_def)
  qed
  define M where "M = (emus s)(sc := \<lparr>e_regs = regs', e_log = log\<rparr>)"
  have d: "data = take n (drop pos F)" "length data = n"
    unfolding data_def len_def [symmetric] n_def by (cases "len \<le> length F - pos"; simp)+
  have op: "emu_oper H sc EMU_OP_READ ?s = Ret () (s\<lparr>emus := M\<rparr>)"
    using H(1) by (simp add: emu_oper_def emu_transfer_regs_def emu_wreg_def log_def regs_def M_def Let_def)
  have "io_ready n (u, s\<lparr>emus := M\<rparr>)" using io_ready_le [OF assms(3), of n] by (simp add: n_def len_def)
  from uiomove_read [OF this, of 0 "emu_iobuf regs'"] have mv: "uiomove (emu_iobuf regs') 0 n (u, s\<lparr>emus := M\<rparr>) = Ret (emu_iobuf regs') (io_store data (u, s\<lparr>emus := M\<rparr>))"
    using H(3,4) assms(4) d(1) by simp
  have off: "sint (reg_offset regs') = uio_offset u + int n"
    using r(2,3) sint_small [of "pos + n"] by (simp add: H(5) pos_def n_def len_def)
  have "take_offset sc (Ret b (io_store data (u, s\<lparr>emus := M\<rparr>))) = Ret () (io_store data (u, s\<lparr>emus := M\<rparr>))" for b
    using off d(2) by (cases "io_store data (u, s\<lparr>emus := M\<rparr>)") (auto simp: emu_rreg_def io_store_def M_def io_moved_def split: if_splits)
  then show ?thesis using assms(4) mv H(2) op unfolding emu_read_def emu_doread_def by (intro exI [of _ M]) (simp add: emu_rreg_def M_def)
qed

lemma take_then_drop: "k \<le> r \<Longrightarrow> take k xs @ drop (length (take k xs)) (take r xs) = take r xs"
  using append_take_drop_id [of k "take r xs"] by (cases "k \<le> length xs") (simp_all add: min_absorb1)

lemma emufs_read_loop:
  assumes "serves H sc handle F" "length F < 2147483648"
  shows "io_ready (uio_resid u) (u, s) \<Longrightarrow> uio_op u = UIO_READ \<Longrightarrow> uio_resid u \<le> n \<Longrightarrow>
    \<exists>M. emufs_io_loop (\<lambda>us. emu_read H sc handle (emu_amount (fst us)) us) n (u, s) =
      Ret () (io_store (take (uio_resid u) (drop (nat (uio_offset u)) F)) (u, s\<lparr>emus := M\<rparr>))"
proof (induction n arbitrary: u s)
  case 0
  then show ?case by (intro exI [of _ "emus s"]) simp
next
  case (Suc n)
  let ?o = "nat (uio_offset u)" and ?r = "uio_resid u"
  let ?k = "min ?r EMU_MAXIO"
  show ?case
  proof (cases "?r = 0")
    case True
    then show ?thesis by (intro exI [of _ "emus s"]) simp
  next
    case False
    let ?a = "take ?k (drop ?o F)"
    obtain M where M: "emu_read H sc handle (emu_amount u) (u, s) = Ret () (io_store ?a (u, s\<lparr>emus := M\<rparr>))"
      using emu_read_serves [OF assms Suc.prems(1,2)] by blast
    show ?thesis
    proof (cases "?a = []")
      case True
      then have "take ?r (drop ?o F) = []" using False by (auto simp: EMU_MAXIO_def min_def split: if_splits)
      then show ?thesis using False M True by (intro exI [of _ M]) simp
    next
      case ne: False
      obtain u1 s1 where 1: "io_store ?a (u, s\<lparr>emus := M\<rparr>) = (u1, s1)" by fastforce
      have len: "length ?a \<le> ?r" "0 < length ?a" using ne by auto
      have u1: "uio_resid u1 = ?r - length ?a" "uio_op u1 = UIO_READ" "uio_offset u1 = uio_offset u + int (length ?a)"
        using io_store_select(1-3) [where bs = ?a and us = "(u, s\<lparr>emus := M\<rparr>)"] Suc.prems(2) unfolding 1 by simp_all
      have le: "uio_resid u1 \<le> n" using u1(1) len Suc.prems(3) by linarith
      have ready: "io_ready (uio_resid u1) (u1, s1)"
        using io_ready_store [of ?a "?r - length ?a" "(u, s\<lparr>emus := M\<rparr>)"] Suc.prems(1) len unfolding 1 u1(1) by simp
      obtain M' where M': "emufs_io_loop (\<lambda>us. emu_read H sc handle (emu_amount (fst us)) us) n (u1, s1) =
          Ret () (io_store (take (uio_resid u1) (drop (nat (uio_offset u1)) F)) (u1, s1\<lparr>emus := M'\<rparr>))"
        using Suc.IH [OF ready u1(2) le] by blast
      have b: "take (uio_resid u1) (drop (nat (uio_offset u1)) F) = drop (length ?a) (take ?r (drop ?o F))"
        using io_ready_cases(4) [OF Suc.prems(1)] by (simp add: u1(1,3) drop_take nat_add_distrib add.commute)
      have "io_store ?a (u, s\<lparr>emus := M'\<rparr>) = (u1, s1\<lparr>emus := M'\<rparr>)" using 1 by (auto simp: io_store_emus)
      then have "io_store (drop (length ?a) (take ?r (drop ?o F))) (u1, s1\<lparr>emus := M'\<rparr>) = io_store (take ?r (drop ?o F)) (u, s\<lparr>emus := M'\<rparr>)"
      proof -
        let ?b = "drop (length ?a) (take ?r (drop ?o F))"
        have ab: "?a @ ?b = take ?r (drop ?o F)"
          by (rule take_then_drop) simp
        then have "length ?a + length ?b \<le> ?r" by (metis length_append length_take min.cobounded2)
        then have "io_ready (length ?a + length ?b) (u, s\<lparr>emus := M'\<rparr>)" using io_ready_le [OF Suc.prems(1)] by simp
        from io_store_append [OF this] show ?thesis using 1 ab \<open>io_store ?a (u, s\<lparr>emus := M'\<rparr>) = _\<close> by simp
      qed
      moreover have "emufs_io_loop (\<lambda>us. emu_read H sc handle (emu_amount (fst us)) us) (Suc n) (u, s) =
          emufs_io_loop (\<lambda>us. emu_read H sc handle (emu_amount (fst us)) us) n (u1, s1)"
      proof -
        have "uio_resid u1 \<noteq> ?r" using False len u1(1) by linarith
        then show ?thesis using False by (simp add: M 1)
      qed
      ultimately show ?thesis unfolding M' b by (intro exI [of _ M']) (simp only:)
    qed
  qed
qed

text \<open>
  C16. Reading a file of the host. If the device serves the bytes \<open>F\<close> for the handle of a vnode, then \<^verbatim>\<open>emufs_read\<close>
  succeeds, whatever the length of the request: it delivers the bytes of \<open>F\<close> from the offset on, as many as were
  asked for or as there are, and changes nothing but the buffer it was given, the request and the registers of the device.
\<close>

theorem emufs_read_delivers:
  assumes "vnodes (krn s) v = Some vn" "emuvns s (vn_data vn) = Some ev" "serves H (ev_emu ev) (ev_handle ev) F" "length F < 2147483648"
    "io_ready (uio_resid u) (u, s)" "uio_op u = UIO_READ"
  shows "\<exists>M. emufs_read H v (u, s) = Ret () (io_store (take (uio_resid u) (drop (nat (uio_offset u)) F)) (u, s\<lparr>emus := M\<rparr>))"
  using emufs_read_loop [OF assms(3-6), of "uio_resid u"] assms(1,2,6) by (simp add: emufs_read_def with_ev_def)

text \<open>A device with one file, served under every handle.\<close>

definition file_hw :: "byte list \<Rightarrow> emuhw" where
  "file_hw F sc log =
     (let regs = snd (last log); pos = unat (reg_offset regs); n = min (unat (reg_iolen regs)) (length F - pos)
      in (EMU_RES_SUCCESS, regs\<lparr>reg_iolen := of_nat n, emu_iobuf := take n (drop pos F), reg_offset := of_nat (pos + n)\<rparr>))"

lemma file_hw_serves: "serves (file_hw F) sc handle F"
proof -
  have "unat (of_nat (min (unat a) m) :: 32 word) = min (unat a) m" for a :: "32 word" and m
    using unsigned_less [of a, where 'a = nat] by (intro unat_of_nat_lt) (simp add: min_less_iff_disj)
  then show ?thesis unfolding serves_def Let_def file_hw_def by simp
qed

definition emu_sys :: sys where
  "emu_sys = one_sys\<lparr>krn := one_kernel\<lparr>vnodes := [0x8000e000 \<mapsto> \<lparr>vn_refcount = 1, vn_opencount = 0, vn_countlock = 0x8000e100, vn_fs = 0x8000f000, vn_data = 0x8000e000, vn_ops = 0x80009100\<rparr>]\<rparr>,
     emuvns := [0x8000e000 \<mapsto> \<lparr>ev_emu = 0, ev_handle = 5\<rparr>], emufss := [0x8000f000 \<mapsto> \<lparr>ef_emu = 0, ef_root = 0x8000e000, ef_vnodes = [0x8000e000]\<rparr>]\<rparr>"

theorem emufs_read_delivers_witness:
  "\<exists>us. emufs_read (file_hw [72, 105]) 0x8000e000 (\<lparr>iov_kblock = [0, 0, 0, 0], iov_kpos = 0, iov_ubase = 0, iov_len = 4, uio_offset = 1, uio_resid = 4, uio_segflg = UIO_SYSSPACE,
      uio_op = UIO_READ, uio_space = 0\<rparr>, emu_sys) = Ret () us \<and> iov_kblock (fst us) = [105, 0, 0, 0]"
proof -
  let ?u = "\<lparr>iov_kblock = [0, 0, 0, 0], iov_kpos = 0, iov_ubase = 0, iov_len = 4, uio_offset = 1, uio_resid = 4, uio_segflg = UIO_SYSSPACE,
      uio_op = UIO_READ, uio_space = 0\<rparr> :: uio"
  have "vnodes (krn emu_sys) 0x8000e000 = Some \<lparr>vn_refcount = 1, vn_opencount = 0, vn_countlock = 0x8000e100, vn_fs = 0x8000f000, vn_data = 0x8000e000, vn_ops = 0x80009100\<rparr>"
    "emuvns emu_sys 0x8000e000 = Some \<lparr>ev_emu = 0, ev_handle = 5\<rparr>" by (simp_all add: emu_sys_def)
  moreover have "io_ready 4 (?u, emu_sys)" by (simp add: io_ready_def)
  ultimately have "\<exists>M. emufs_read (file_hw [72, 105]) 0x8000e000 (?u, emu_sys) = Ret () (io_store (take 4 (drop (nat 1) [72, 105])) (?u, emu_sys\<lparr>emus := M\<rparr>))"
    using emufs_read_delivers [of emu_sys "0x8000e000" _ _ "file_hw [72, 105]" "[72, 105]" ?u] file_hw_serves by simp
  then show ?thesis by (auto simp: io_store_def io_moved_def)
qed

section \<open>Termination of transfers\<close>

text \<open>A routine that is defined: it does not leave its memory or run out of fuel, and \<open>Q\<close> holds of what it returns.\<close>

fun definite :: "('a, 's) result \<Rightarrow> ('a \<Rightarrow> 's \<Rightarrow> bool) \<Rightarrow> bool" where
  "definite (Ret a s) Q = Q a s"
| "definite (Err e s) Q = True"
| "definite Panic Q = True"
| "definite Undef Q = False"

lemma definite_kbind: "definite m Q \<Longrightarrow> (\<And>a s. Q a s \<Longrightarrow> definite (f a s) R) \<Longrightarrow> definite (kbind m f) R"
  by (cases m) simp_all

lemma definite_mono: "definite m Q \<Longrightarrow> (\<And>a s. Q a s \<Longrightarrow> R a s) \<Longrightarrow> definite m R"
  by (cases m) simp_all

text \<open>
  A request whose data block is no longer than the residue and lies in its memory; a device whose buffer holds the largest
  transfer; and one that never answers with a length beyond its buffer.
\<close>

definition fits :: "uio \<Rightarrow> bool" where
  "fits u \<longleftrightarrow> iov_len u \<le> uio_resid u \<and> uio_resid u < 4294967296 \<and> (uio_segflg u = UIO_SYSSPACE \<longrightarrow> iov_kpos u + iov_len u \<le> length (iov_kblock u))"

definition buffered :: "emuhw \<Rightarrow> vaddr \<Rightarrow> bool" where
  "buffered H sc \<longleftrightarrow> (\<forall>log. EMU_MAXIO \<le> length (emu_iobuf (snd (H sc log))))"

definition answers_fit :: "emuhw \<Rightarrow> vaddr \<Rightarrow> bool" where
  "answers_fit H sc \<longleftrightarrow> (\<forall>log. unat (reg_iolen (snd (H sc log))) \<le> length (emu_iobuf (snd (H sc log))))"

definition moves :: "uio \<Rightarrow> uio \<Rightarrow> bool" where
  "moves u u' \<longleftrightarrow> fits u' \<and> uio_resid u' \<le> uio_resid u"

lemma kget_kput:
  "pos + n \<le> length blk \<Longrightarrow> kget blk pos n = Some (take n (drop pos blk))"
  "pos + length bs \<le> length blk \<Longrightarrow> kput blk pos bs = Some (take pos blk @ bs @ drop (pos + length bs) blk)"
  by (simp_all add: kget_def kput_def)

lemma copyout_definite: "unat len \<le> length bs \<Longrightarrow> definite (copyout bs a len (s :: sys)) (\<lambda>_ s'. emus s' = emus s)"
  by (simp add: copyout_def Let_def split: option.splits)

lemma copyin_definite: "definite (copyin a len (s :: sys)) (\<lambda>bs s'. emus s' = emus s \<and> length bs = unat len)"
  by (simp add: copyin_def Let_def block_def split: option.splits)

lemma unat_of_nat_le: "unat (of_nat n :: 32 word) \<le> n"
  by (simp add: unat_of_nat take_bit_eq_mod)

lemma uio_transfer_definite:
  assumes "pos + n \<le> length ptr" "n \<le> iov_len u" "fits u" "n > 0"
  shows "definite (uio_transfer ptr pos n (u, s :: sys)) (\<lambda>p us. length p = length ptr \<and> emus (snd us) = emus s \<and> moves u (uio_advance n (fst us)) \<and>
    uio_op (fst us) = uio_op u \<and> iov_len (fst us) = iov_len u)"
proof -
  have resid: "(uio_resid u + 4294967296 - n) mod 4294967296 = uio_resid u - n"
  proof -
    have "n \<le> uio_resid u" "uio_resid u < 4294967296" using assms(2,3) by (auto simp: fits_def)
    then have "uio_resid u + 4294967296 - n = (uio_resid u - n) + 4294967296" "uio_resid u - n < 4294967296" by simp_all
    then show ?thesis by (simp only: mod_add_self2 mod_less)
  qed
  have len: "length (take n (drop pos ptr)) = n" using assms(1) by simp
  show ?thesis
  proof (cases "uio_segflg u = UIO_SYSSPACE")
    case True
    have k: "iov_kpos u + n \<le> length (iov_kblock u)" "iov_kpos u + iov_len u \<le> length (iov_kblock u)" using assms(2,3) True by (auto simp: fits_def)
    show ?thesis
      using True assms k len resid by (simp add: uio_transfer_def kget_kput moves_def fits_def uio_advance_def) linarith
  next
    case False
    have m: "moves u (uio_advance n (u\<lparr>iov_ubase := b\<rparr>))" for b
      using False assms(2,3) resid by (auto simp: moves_def fits_def uio_advance_def)
    let ?bs = "take n (drop pos ptr)"
    have out: "definite (copyout ?bs (iov_ubase u) (of_nat n) s) (\<lambda>_ s'. emus s' = emus s)" using len unat_of_nat_le [of n] by (intro copyout_definite) simp
    have inn: "definite (copyin (iov_ubase u) (of_nat n) s) (\<lambda>bs s'. emus s' = emus s \<and> length bs = unat (of_nat n :: 32 word))" by (rule copyin_definite)
    have kp: "length bs = unat (of_nat n :: 32 word) \<Longrightarrow> pos + length bs \<le> length ptr" for bs :: "byte list" using assms(1) unat_of_nat_le [of n] by simp
    show ?thesis
    proof (cases "uio_op u = UIO_READ")
      case True
      show ?thesis using False True out m assms(1)
        by (cases "uio_segflg u"; cases "copyout ?bs (iov_ubase u) (of_nat n) s") (simp_all add: uio_transfer_def kget_kput)
    next
      case w: False
      show ?thesis
      proof (cases "copyin (iov_ubase u) (of_nat n) s")
        case (Ret bs s')
        then have "emus s' = emus s" "length bs = unat (of_nat n :: 32 word)" using inn by simp_all
        then show ?thesis using False w Ret m kget_kput(2) [OF kp [of bs]] kp [of bs] by (cases "uio_segflg u") (simp_all add: uio_transfer_def)
      qed (use False w inn in \<open>cases "uio_segflg u"; simp add: uio_transfer_def\<close>)+
    qed
  qed
qed

lemma uiomove_loop_definite:
  "pos + min n (iov_len (fst us)) \<le> length ptr \<Longrightarrow> fits (fst us) \<Longrightarrow>
    definite (uiomove_loop ptr pos n (us :: uio \<times> sys)) (\<lambda>p us'. length p = length ptr \<and> emus (snd us') = emus (snd us) \<and> moves (fst us) (fst us') \<and>
      uio_op (fst us') = uio_op (fst us))"
proof (induction ptr pos n us rule: uiomove_loop.induct)
  case (1 ptr pos n us)
  let ?size = "if iov_len (fst us) > n then n else iov_len (fst us)"
  show ?case
  proof (cases "n > 0 \<and> uio_resid (fst us) > 0 \<and> ?size \<noteq> 0")
    case True
    have "definite (uio_transfer ptr pos ?size (fst us, snd us)) (\<lambda>p us'. length p = length ptr \<and> emus (snd us') = emus (snd us) \<and>
        moves (fst us) (uio_advance ?size (fst us')) \<and> uio_op (fst us') = uio_op (fst us) \<and> iov_len (fst us') = iov_len (fst us))"
      by (rule uio_transfer_definite) (use "1.prems" True in \<open>auto simp: min_def split: if_splits\<close>)
    then have t: "definite (uio_transfer ptr pos ?size us) (\<lambda>p us'. length p = length ptr \<and> emus (snd us') = emus (snd us) \<and>
        moves (fst us) (uio_advance ?size (fst us')) \<and> uio_op (fst us') = uio_op (fst us) \<and> iov_len (fst us') = iov_len (fst us))" by simp
    show ?thesis
    proof (subst uiomove_loop.simps, simp only: True simp_thms if_True if_False Let_def, rule definite_kbind [OF t], goal_cases)
      case (1 p us1)
      moreover from this have "min (n - ?size) (iov_len (uio_advance ?size (fst us1))) = 0" by (simp add: uio_advance_def)
      ultimately have "definite (uiomove_loop p (pos + ?size) (n - ?size) (uio_advance ?size (fst us1), snd us1))
        (\<lambda>p' us'. length p' = length p \<and> emus (snd us') = emus (snd us1) \<and> moves (uio_advance ?size (fst us1)) (fst us') \<and>
          uio_op (fst us') = uio_op (uio_advance ?size (fst us1)))"
        using "1.IH" [of ?size us1 p] True "1.prems" by (auto simp: moves_def min_def split: if_splits)
      then show ?case by (rule definite_mono) (use 1 in \<open>auto simp: moves_def uio_advance_def\<close>)
    qed
  next
    case False
    then show ?thesis using "1.prems" by (subst uiomove_loop.simps) (auto simp: Let_def moves_def)
  qed
qed

lemma emu_oper_definite: "definite (emu_oper H sc opn s) (\<lambda>_ s'. \<exists>log. e_regs (emus s' sc) = snd (H sc log))"
  by (cases "fst (H sc (e_log (emus s sc) @ [(opn, e_regs (emus s sc))]))") (auto simp: emu_oper_def Let_def split: prod.split intro!: exI [of _ "e_log (emus s sc) @ [(opn, e_regs (emus s sc))]"])

definition transfer_ok :: "vaddr \<Rightarrow> uio \<times> sys \<Rightarrow> bool" where
  "transfer_ok sc us \<longleftrightarrow> fits (fst us) \<and> EMU_MAXIO \<le> length (emu_iobuf (e_regs (emus (snd us) sc)))"

lemma uiomove_definite:
  assumes "pos + min n (iov_len u) \<le> length ptr" "fits u"
  shows "definite (uiomove ptr pos n (u, s :: sys)) (\<lambda>p us'. length p = length ptr \<and> emus (snd us') = emus s \<and> moves u (fst us'))"
proof -
  have "definite (uiomove_loop ptr pos n (u, s)) (\<lambda>p us'. length p = length ptr \<and> emus (snd us') = emus s \<and> moves u (fst us'))"
    using uiomove_loop_definite [of pos n "(u, s)" ptr] assms by (auto intro: definite_mono)
  then show ?thesis by (simp add: uiomove_def)
qed

lemma emu_doread_definite:
  assumes "buffered H sc" "transfer_ok sc us" "uio_resid (fst us) \<le> EMU_MAXIO \<or> answers_fit H sc"
  shows "definite (emu_doread H sc handle len opn us) (\<lambda>_ us'. transfer_ok sc us' \<and> uio_resid (fst us') \<le> uio_resid (fst us))"
proof -
  have "definite (take_offset sc (uiomove (emu_iobuf r) 0 (unat (reg_iolen r)) (fst us, s)))
      (\<lambda>_ us'. transfer_ok sc us' \<and> uio_resid (fst us') \<le> uio_resid (fst us))"
    if "r = snd (H sc log)" "e_regs (emus s sc) = r" for s r log
  proof -
    have f: "fits (fst us)" "iov_len (fst us) \<le> uio_resid (fst us)" using assms(2) by (simp_all add: transfer_ok_def fits_def)
    have b: "EMU_MAXIO \<le> length (emu_iobuf r)" using assms(1) that(1) by (simp add: buffered_def)
    have "0 + min (unat (reg_iolen r)) (iov_len (fst us)) \<le> length (emu_iobuf r)"
      using assms(3) b f(2) that(1) by (auto simp: answers_fit_def min_le_iff_disj)
    then have "definite (uiomove (emu_iobuf r) 0 (unat (reg_iolen r)) (fst us, s)) (\<lambda>p us'. length p = length (emu_iobuf r) \<and> emus (snd us') = emus s \<and> moves (fst us) (fst us'))"
      by (rule uiomove_definite [OF _ f(1)])
    then show ?thesis using b that(2)
      by (cases "uiomove (emu_iobuf r) 0 (unat (reg_iolen r)) (fst us, s)") (auto simp: transfer_ok_def moves_def fits_def)
  qed
  moreover have "definite (emu_oper H sc opn (emu_transfer_regs sc handle len us)) (\<lambda>_ s'. \<exists>log. e_regs (emus s' sc) = snd (H sc log))"
    by (rule emu_oper_definite)
  ultimately show ?thesis
    unfolding emu_doread_def emu_rreg_def
    by (cases "emu_oper H sc opn (emu_transfer_regs sc handle len us)") auto
qed

lemma emu_write_definite:
  assumes "buffered H sc" "transfer_ok sc us" "unat len \<le> EMU_MAXIO"
  shows "definite (emu_write H sc handle len us) (\<lambda>_ us'. transfer_ok sc us' \<and> uio_resid (fst us') \<le> uio_resid (fst us))"
proof -
  let ?s = "emu_transfer_regs sc handle len us"
  have buf: "emu_rreg sc emu_iobuf ?s = emu_iobuf (e_regs (emus (snd us) sc))" by (simp add: emu_rreg_def emu_transfer_regs_def emu_wreg_def)
  have "definite (uiomove (emu_rreg sc emu_iobuf ?s) 0 (unat len) (fst us, ?s)) (\<lambda>p us'. length p = length (emu_rreg sc emu_iobuf ?s) \<and> emus (snd us') = emus ?s \<and> moves (fst us) (fst us'))"
    by (rule uiomove_definite) (use assms(2,3) buf in \<open>simp_all add: transfer_ok_def min_le_iff_disj\<close>)
  moreover have "definite (in_part (Pair u) (emu_oper H sc EMU_OP_WRITE s)) (\<lambda>_ us'. transfer_ok sc us' \<and> uio_resid (fst us') \<le> uio_resid (fst us))"
    if "moves (fst us) u" for u s
    using emu_oper_definite [of H sc EMU_OP_WRITE s] assms(1) that
    by (cases "emu_oper H sc EMU_OP_WRITE s") (auto simp: transfer_ok_def moves_def buffered_def)
  ultimately show ?thesis
    unfolding emu_write_def Let_def by (auto intro: definite_kbind)
qed

lemma emufs_io_loop_definite:
  assumes step: "\<And>us. transfer_ok sc us \<Longrightarrow> uio_resid (fst us) \<le> r \<Longrightarrow> definite (f us) (\<lambda>_ us'. transfer_ok sc us' \<and> uio_resid (fst us') \<le> uio_resid (fst us))"
  shows "transfer_ok sc us \<Longrightarrow> uio_resid (fst us) \<le> n \<Longrightarrow> uio_resid (fst us) \<le> r \<Longrightarrow> definite (emufs_io_loop f n us) (\<lambda>_ us'. uio_resid (fst us') \<le> uio_resid (fst us))"
proof (induction n arbitrary: us)
  case (Suc n)
  have "definite (if uio_resid (fst us1) = uio_resid (fst us) then Ret () us1 else emufs_io_loop f n us1) (\<lambda>_ us'. uio_resid (fst us') \<le> uio_resid (fst us))"
    if "transfer_ok sc us1 \<and> uio_resid (fst us1) \<le> uio_resid (fst us)" for us1
    using Suc.IH [of us1] that Suc.prems(2,3) by (auto intro: definite_mono)
  then have "definite (kbind (f us) (\<lambda>_ us1. if uio_resid (fst us1) = uio_resid (fst us) then Ret () us1 else emufs_io_loop f n us1)) (\<lambda>_ us'. uio_resid (fst us') \<le> uio_resid (fst us))"
    by (rule definite_kbind [OF step [OF Suc.prems(1,3)]])
  then show ?case by simp
qed simp

lemma unat_emu_amount: "unat (emu_amount u) \<le> EMU_MAXIO"
  using unat_of_nat_le [of "min (uio_resid u) EMU_MAXIO"] by (simp add: emu_amount_def min_def split: if_splits)

text \<open>An answer that is longer than the buffer, to a request for more than the buffer holds.\<close>

lemma uiomove_overruns:
  assumes "length ptr < n" "length ptr < iov_len u" "uio_op u = UIO_READ" "fits u"
    "if uio_segflg u = UIO_SYSSPACE then uio_space u = 0 else uio_space u = iostate.cur_vmspace s"
  shows "uiomove ptr 0 n (u, s :: sys) = Undef"
proof -
  let ?size = "if iov_len (fst (u, s)) > n then n else iov_len (fst (u, s))"
  have "uio_resid u > 0" using assms(2,4) by (auto simp: fits_def)
  moreover have "uio_transfer ptr 0 ?size (u, s) = Undef"
    using assms(1-3) by (cases "uio_segflg u") (simp_all add: uio_transfer_def kget_def)
  ultimately have "uiomove_loop ptr 0 n (u, s) = Undef" using assms(1,2) by (subst uiomove_loop.simps) (auto simp: Let_def)
  then show ?thesis using assms(5) by (simp add: uiomove_def split: if_splits)
qed

lemma translate_err_Ret: "translate_err c s = Ret () s' \<Longrightarrow> s' = s"
  by (cases c) auto

lemma emufs_read_overruns:
  assumes "vnodes (krn s) v = Some vn" "emuvns s (vn_data vn) = Some ev" "fits u" "uio_op u = UIO_READ"
    "if uio_segflg u = UIO_SYSSPACE then uio_space u = 0 else uio_space u = iostate.cur_vmspace s"
    "emu_oper H (ev_emu ev) EMU_OP_READ (emu_transfer_regs (ev_emu ev) (ev_handle ev) (emu_amount u) (u, s)) = Ret () s'"
    "length (emu_iobuf (e_regs (emus s' (ev_emu ev)))) < unat (reg_iolen (e_regs (emus s' (ev_emu ev))))"
    "length (emu_iobuf (e_regs (emus s' (ev_emu ev)))) < iov_len u"
  shows "emufs_read H v (u, s) = Undef"
proof -
  let ?r = "e_regs (emus s' (ev_emu ev))"
  have "iostate.cur_vmspace s' = iostate.cur_vmspace s"
  proof -
    obtain c where "s' = (emu_transfer_regs (ev_emu ev) (ev_handle ev) (emu_amount u) (u, s))\<lparr>emus := c\<rparr>"
      using assms(6) translate_err_Ret by (fastforce simp: emu_oper_def Let_def split: prod.splits)
    then show ?thesis by (simp add: emu_transfer_regs_def emu_wreg_def)
  qed
  then have "uiomove (emu_iobuf ?r) 0 (unat (reg_iolen ?r)) (u, s') = Undef" using assms(3-5,7,8) by (intro uiomove_overruns) auto
  then have "emu_read H (ev_emu ev) (ev_handle ev) (emu_amount u) (u, s) = Undef"
    using assms(4,6) by (simp add: emu_read_def emu_doread_def emu_rreg_def)
  moreover have "0 < uio_resid u" using assms(3,8) by (auto simp: fits_def)
  ultimately show ?thesis using assms(1,2,4) by (cases "uio_resid u") (simp_all add: emufs_read_def with_ev_def)
qed

text \<open>
  C17. Transfers to and from the emulator device. If the data block of a request lies in its memory and is no longer than the residue, then
  \<^verbatim>\<open>emufs_write\<close> leaves its loop after at most as many rounds as there are bytes to move and never touches memory outside the block or the device's
  buffer, whatever results, lengths and offsets the device answers with: it returns, with a residue that has not grown, or fails with an error,
  or panics. The same holds of \<^verbatim>\<open>emufs_read\<close> for requests of up to \<^verbatim>\<open>EMU_MAXIO\<close> bytes, and for longer ones if the device never answers with a
  length beyond its buffer. Nothing in \<^verbatim>\<open>emu_doread\<close> checks that length: a longer answer to a longer request makes \<^verbatim>\<open>uiomove\<close> read past the
  end of the buffer.
\<close>

theorem emufs_transfers_end:
  assumes "vnodes (krn s) v = Some vn" "emuvns s (vn_data vn) = Some ev" "buffered H (ev_emu ev)" "transfer_ok (ev_emu ev) (u, s)"
  shows "definite (emufs_write H v (u, s)) (\<lambda>_ us'. uio_resid (fst us') \<le> uio_resid u) \<and>
    (uio_resid u \<le> EMU_MAXIO \<or> answers_fit H (ev_emu ev) \<longrightarrow> definite (emufs_read H v (u, s)) (\<lambda>_ us'. uio_resid (fst us') \<le> uio_resid u)) \<and>
    (\<forall>s'. uio_op u = UIO_READ \<and> (if uio_segflg u = UIO_SYSSPACE then uio_space u = 0 else uio_space u = iostate.cur_vmspace s) \<and>
       emu_oper H (ev_emu ev) EMU_OP_READ (emu_transfer_regs (ev_emu ev) (ev_handle ev) (emu_amount u) (u, s)) = Ret () s' \<and>
       length (emu_iobuf (e_regs (emus s' (ev_emu ev)))) < unat (reg_iolen (e_regs (emus s' (ev_emu ev)))) \<and>
       length (emu_iobuf (e_regs (emus s' (ev_emu ev)))) < iov_len u \<longrightarrow> emufs_read H v (u, s) = Undef)"
proof -
  let ?r = "\<lambda>us. emu_read H (ev_emu ev) (ev_handle ev) (emu_amount (fst us)) us" and ?w = "\<lambda>us. emu_write H (ev_emu ev) (ev_handle ev) (emu_amount (fst us)) us"
  have r: "uio_resid u \<le> EMU_MAXIO \<or> answers_fit H (ev_emu ev) \<Longrightarrow> definite (emufs_io_loop ?r (uio_resid u) (u, s)) (\<lambda>_ us'. uio_resid (fst us') \<le> uio_resid (fst (u, s)))"
    by (rule emufs_io_loop_definite [of "ev_emu ev" "uio_resid u", OF _ assms(4)]) (auto simp: emu_read_def intro!: emu_doread_definite [OF assms(3)])
  have w: "definite (emufs_io_loop ?w (uio_resid u) (u, s)) (\<lambda>_ us'. uio_resid (fst us') \<le> uio_resid (fst (u, s)))"
    by (rule emufs_io_loop_definite [of "ev_emu ev" "uio_resid u", OF _ assms(4)]) (simp_all add: emu_write_definite [OF assms(3)] unat_emu_amount)
  have "fits u" using assms(4) by (simp add: transfer_ok_def)
  with emufs_read_overruns [OF assms(1,2)] have "\<forall>s'. uio_op u = UIO_READ \<and> (if uio_segflg u = UIO_SYSSPACE then uio_space u = 0 else uio_space u = iostate.cur_vmspace s) \<and>
       emu_oper H (ev_emu ev) EMU_OP_READ (emu_transfer_regs (ev_emu ev) (ev_handle ev) (emu_amount u) (u, s)) = Ret () s' \<and>
       length (emu_iobuf (e_regs (emus s' (ev_emu ev)))) < unat (reg_iolen (e_regs (emus s' (ev_emu ev)))) \<and>
       length (emu_iobuf (e_regs (emus s' (ev_emu ev)))) < iov_len u \<longrightarrow> emufs_read H v (u, s) = Undef" by blast
  with r w show ?thesis using assms(1,2) by (simp add: emufs_read_def emufs_write_def with_ev_def)
qed

text \<open>A device that answers every operation with the length 40000, beyond its buffer.\<close>

definition loud_hw :: emuhw where
  "loud_hw sc log = (EMU_RES_SUCCESS, \<lparr>reg_handle = 0, reg_offset = 0, reg_iolen = 40000, emu_iobuf = replicate 16384 7\<rparr>)"

definition loud_sys :: sys where
  "loud_sys = emu_sys\<lparr>emus := \<lambda>_. \<lparr>e_regs = \<lparr>reg_handle = 0, reg_offset = 0, reg_iolen = 0, emu_iobuf = replicate 16384 0\<rparr>, e_log = []\<rparr>\<rparr>"

theorem emufs_transfers_end_witness:
  "definite (emufs_read loud_hw 0x8000e000 (mk_kuio [0, 0, 0, 0] 4 0 UIO_READ, loud_sys)) (\<lambda>_ us'. uio_resid (fst us') \<le> 4) \<and>
   emufs_read loud_hw 0x8000e000 (mk_kuio (replicate 20000 0) 20000 0 UIO_READ, loud_sys) = Undef"
proof -
  let ?u = "mk_kuio [0, 0, 0, 0] 4 0 UIO_READ" and ?w = "mk_kuio (replicate 20000 0) 20000 0 UIO_READ"
  have v: "vnodes (krn loud_sys) 0x8000e000 = Some \<lparr>vn_refcount = 1, vn_opencount = 0, vn_countlock = 0x8000e100, vn_fs = 0x8000f000, vn_data = 0x8000e000, vn_ops = 0x80009100\<rparr>"
    and e: "emuvns loud_sys 0x8000e000 = Some \<lparr>ev_emu = 0, ev_handle = 5\<rparr>" by (simp_all add: loud_sys_def emu_sys_def)
  have b: "buffered loud_hw 0" by (simp add: buffered_def loud_hw_def EMU_MAXIO_def)
  have t: "transfer_ok 0 (?u, loud_sys)" "transfer_ok 0 (?w, loud_sys)" by (simp_all add: transfer_ok_def fits_def mk_kuio_def EMU_MAXIO_def loud_sys_def)
  have "uio_resid ?u = 4" by (simp add: mk_kuio_def)
  then have "definite (emufs_read loud_hw 0x8000e000 (?u, loud_sys)) (\<lambda>_ us'. uio_resid (fst us') \<le> 4)"
    using emufs_transfers_end [OF v, of _ loud_hw ?u] e b t(1) by (simp add: EMU_MAXIO_def)
  moreover have "emufs_read loud_hw 0x8000e000 (?w, loud_sys) = Undef"
  proof -
    let ?s0 = "emu_transfer_regs 0 5 (emu_amount ?w) (?w, loud_sys)"
    obtain s' where s': "emu_oper loud_hw 0 EMU_OP_READ ?s0 = Ret () s'" "e_regs (emus s' 0) = snd (loud_hw 0 [])"
      by (simp add: emu_oper_def loud_hw_def Let_def)
    then show ?thesis using emufs_transfers_end [OF v, of _ loud_hw ?w] e b t(2) by (simp add: loud_hw_def mk_kuio_def)
  qed
  ultimately show ?thesis by blast
qed

section \<open>The table of vnodes\<close>

text \<open>
  Every vnode in the table belongs to the file system and to its device, and no two vnodes stand for the same handle.
\<close>

definition emufs_ok :: "vaddr \<Rightarrow> sys \<Rightarrow> bool" where
  "emufs_ok fs s \<longleftrightarrow>
     (\<exists>ef. emufss s fs = Some ef \<and> distinct (ef_vnodes ef) \<and> 0 \<notin> set (ef_vnodes ef) \<and>
       (\<forall>v \<in> set (ef_vnodes ef). \<exists>vn ev. vnodes (krn s) v = Some vn \<and> emuvns s v = Some ev \<and> vn_data vn = v \<and> vn_fs vn = fs \<and> ev_emu ev = ef_emu ef) \<and>
       inj_on (\<lambda>v. map_option ev_handle (emuvns s v)) (set (ef_vnodes ef)))"

lemma find_handle_eq:
  "\<forall>v \<in> set evs. emuvns s v \<noteq> None \<Longrightarrow> find_handle handle evs s = Ret (find (\<lambda>v. map_option ev_handle (emuvns s v) = Some handle) evs) s"
  by (induction evs) auto

lemma inj_on_add:
  assumes "inj_on g S" "\<forall>v \<in> S. g v \<noteq> h" "\<forall>v \<in> S. g' v = g v" "g' n = h"
  shows "inj_on g' (insert n S)"
proof -
  have "inj_on g' S" using assms(1,3) by (simp add: inj_on_def)
  moreover have "g' n \<notin> g' ` (S - {n})" using assms(2-4) by auto
  ultimately show ?thesis by simp
qed

lemma find_unique:
  assumes "v \<in> set xs" "f v" "\<And>w. w \<in> set xs \<Longrightarrow> f w \<Longrightarrow> w = v"
  shows "find f xs = Some v"
proof -
  obtain w where w: "find f xs = Some w" using assms(1,2) by (metis find_None_iff not_None_eq)
  then have "w \<in> set xs" "f w" by (auto simp: find_Some_iff)
  with assms(3) w show ?thesis by blast
qed

text \<open>
  C18. One vnode per file. Loading the vnode of a handle that is in the table returns that vnode with one reference more;
  otherwise, as long as there is memory, a new vnode with one reference is entered. Either way the table stays in order: no two
  vnodes stand for the same handle.
\<close>

theorem emufs_one_vnode_per_handle:
  assumes ok: "emufs_ok fs s" and ef: "emufss s fs = Some ef"
  shows "if \<exists>v \<in> set (ef_vnodes ef). map_option ev_handle (emuvns s v) = Some handle
    then \<exists>v s'. v \<in> set (ef_vnodes ef) \<and> map_option ev_handle (emuvns s v) = Some handle \<and> emufs_loadvnode A fs handle isdir s = Ret v s' \<and> emufs_ok fs s' \<and>
      emufss s' = emufss s \<and> vn_refcount (the (vnodes (krn s') v)) = s32 (vn_refcount (the (vnodes (krn s) v)) + 1)
    else ea_vnode A s \<noteq> 0 \<and> ea_vnode A s \<notin> set (ef_vnodes ef) \<and> ea_lock A s \<noteq> 0 \<and> ea_array A s \<and> ea_dirops A \<noteq> 0 \<and> ea_fileops A \<noteq> 0 \<longrightarrow>
      (\<exists>s'. emufs_loadvnode A fs handle isdir s = Ret (ea_vnode A s) s' \<and> emufs_ok fs s' \<and>
        emufss s' fs = Some (ef\<lparr>ef_vnodes := ef_vnodes ef @ [ea_vnode A s]\<rparr>) \<and> vn_refcount (the (vnodes (krn s') (ea_vnode A s))) = 1)"
proof -
  have T: "distinct (ef_vnodes ef)" "0 \<notin> set (ef_vnodes ef)"
    "\<forall>v \<in> set (ef_vnodes ef). \<exists>vn ev. vnodes (krn s) v = Some vn \<and> emuvns s v = Some ev \<and> vn_data vn = v \<and> vn_fs vn = fs \<and> ev_emu ev = ef_emu ef"
    and inj: "inj_on (\<lambda>v. map_option ev_handle (emuvns s v)) (set (ef_vnodes ef))"
    using ok ef by (auto simp: emufs_ok_def)
  have "\<forall>v \<in> set (ef_vnodes ef). emuvns s v \<noteq> None" using T(3) by fastforce
  note fh = find_handle_eq [OF this, of handle]
  show ?thesis
  proof (cases "\<exists>v \<in> set (ef_vnodes ef). map_option ev_handle (emuvns s v) = Some handle")
    case True
    then obtain v where v: "v \<in> set (ef_vnodes ef)" "map_option ev_handle (emuvns s v) = Some handle" by blast
    have f: "find (\<lambda>v. map_option ev_handle (emuvns s v) = Some handle) (ef_vnodes ef) = Some v"
      using v inj by (intro find_unique) (auto simp: inj_on_def)
    have v0: "v \<noteq> 0" using v(1) T(2) by auto
    obtain vn where vn: "vnodes (krn s) v = Some vn" using T(3) v(1) by blast
    let ?s = "s\<lparr>krn := vn_update v (\<lambda>v. v\<lparr>vn_refcount := s32 (vn_refcount v + 1)\<rparr>) (krn s)\<rparr>"
    have "emufs_loadvnode A fs handle isdir s = Ret v ?s"
      using f fh ef v0 vn by (simp add: emufs_loadvnode_def VOP_INCREF_def on_kernel_def vnode_incref_def)
    moreover have "emufs_ok fs ?s" unfolding emufs_ok_def using T inj ef by (auto simp: vn_update_def)
    ultimately show ?thesis using True v vn by (auto simp: vn_update_def intro!: exI [of _ v])
  next
    case False
    then have f: "find (\<lambda>v. map_option ev_handle (emuvns s v) = Some handle) (ef_vnodes ef) = None" by (simp add: find_None_iff)
    show ?thesis
    proof (simp only: False if_False, intro impI, elim conjE)
      let ?n = "ea_vnode A s"
      assume A: "?n \<noteq> 0" "?n \<notin> set (ef_vnodes ef)" "ea_lock A s \<noteq> 0" "ea_array A s" "ea_dirops A \<noteq> 0" "ea_fileops A \<noteq> 0"
      define ops where "ops = (if isdir then ea_dirops A else ea_fileops A)"
      define vn where "vn = \<lparr>vn_refcount = 1, vn_opencount = 0, vn_countlock = ea_lock A s, vn_fs = fs, vn_data = ?n, vn_ops = ops\<rparr>"
      define k where "k = (krn s)\<lparr>locks := (locks (krn s))(ea_lock A s \<mapsto> \<lparr>lk_name = ''vnode-countlock'', lk_held = 0, lk_heldThread = 0\<rparr>),
        vnodes := (vnodes (krn s))(?n \<mapsto> vn)\<rparr>"
      have "ops \<noteq> 0" using A(5,6) by (simp add: ops_def)
      then have k: "on_kernel (vnode_init (ea_lock A s) ?n ops fs ?n) s = Ret () (s\<lparr>krn := k\<rparr>)" "vnodes k = (vnodes (krn s))(?n \<mapsto> vn)"
        using A(1,3) by (simp_all add: vnode_init_def lock_create_def on_kernel_def k_def vn_def)
      let ?s = "s\<lparr>krn := k, emuvns := (emuvns s)(?n \<mapsto> \<lparr>ev_emu = ef_emu ef, ev_handle = handle\<rparr>), emufss := (emufss s)(fs \<mapsto> ef\<lparr>ef_vnodes := ef_vnodes ef @ [?n]\<rparr>)\<rparr>"
      have "emufs_loadvnode A fs handle isdir s = Ret ?n ?s"
        using f fh ef A(1,4) k(1) by (simp add: emufs_loadvnode_def Let_def ops_def)
      moreover have "emufs_ok fs ?s"
      proof -
        have "inj_on (\<lambda>v. map_option ev_handle (emuvns ?s v)) (insert ?n (set (ef_vnodes ef)))"
          using False A(2) by (intro inj_on_add [OF inj, where h = "Some handle"]) auto
        moreover have "\<exists>vn ev. vnodes k v = Some vn \<and> emuvns ?s v = Some ev \<and> vn_data vn = v \<and> vn_fs vn = fs \<and> ev_emu ev = ef_emu ef"
          if "v \<in> insert ?n (set (ef_vnodes ef))" for v
          using that T(3) A(2) k(2) vn_def by (cases "v = ?n") auto
        ultimately show ?thesis unfolding emufs_ok_def using T(1,2) A(1,2) by simp
      qed
      ultimately show "\<exists>s'. emufs_loadvnode A fs handle isdir s = Ret ?n s' \<and> emufs_ok fs s' \<and>
          emufss s' fs = Some (ef\<lparr>ef_vnodes := ef_vnodes ef @ [?n]\<rparr>) \<and> vn_refcount (the (vnodes (krn s') ?n)) = 1"
        using k(2) vn_def by (intro exI [of _ ?s]) simp
    qed
  qed
qed

theorem emufs_one_vnode_per_handle_witness:
  "\<exists>s'. emufs_loadvnode \<lparr>ea_vnode = (\<lambda>_. 0x80010000), ea_lock = (\<lambda>_. 0x80010100), ea_array = (\<lambda>_. True), ea_dirops = 0x80009200, ea_fileops = 0x80009100\<rparr>
     0x8000f000 7 False emu_sys = Ret 0x80010000 s' \<and> emufs_ok 0x8000f000 s'"
proof -
  have "emufs_ok 0x8000f000 emu_sys" by (simp add: emufs_ok_def emu_sys_def)
  moreover have "emufss emu_sys 0x8000f000 = Some \<lparr>ef_emu = 0, ef_root = 0x8000e000, ef_vnodes = [0x8000e000]\<rparr>" by (simp add: emu_sys_def)
  moreover have "map_option ev_handle (emuvns emu_sys 0x8000e000) = Some 5" by (simp add: emu_sys_def)
  ultimately show ?thesis
    using emufs_one_vnode_per_handle [of "0x8000f000" emu_sys "\<lparr>ef_emu = 0, ef_root = 0x8000e000, ef_vnodes = [0x8000e000]\<rparr>" 7
      "\<lparr>ea_vnode = (\<lambda>_. 0x80010000), ea_lock = (\<lambda>_. 0x80010100), ea_array = (\<lambda>_. True), ea_dirops = 0x80009200, ea_fileops = 0x80009100\<rparr>" False] by auto
qed
end
