(* ===== verification/Spec2Isabelle.thy ===== *)
theory Spec2Isabelle
  imports KStep LPrintf LMalloc KSfsFs KSfsRefine KFiles KEmuFiles
begin

text \<open>
  A verification development for OS/161 as it is in this repository: the kernel under \<^verbatim>\<open>src/os161/kern\<close> and the part of the C
  library under \<^verbatim>\<open>src/os161/lib/libc\<close> that the kernel shares or that every user program links. File names below are relative
  to \<^verbatim>\<open>src/os161/kern\<close> unless they begin with \<^verbatim>\<open>lib/libc\<close>.

  \<^bold>\<open>The program.\<close> A user program enters the kernel by a trap (\<^verbatim>\<open>arch/mips/mips/trap.c\<close>), which is a system call
  (\<^verbatim>\<open>syscall.c\<close>), a page fault (\<^verbatim>\<open>vm/vm.c\<close>) or an interrupt. System calls work on the process table and the threads
  (\<^verbatim>\<open>thread/thread.c\<close>), on address spaces (\<^verbatim>\<open>vm/addrspace.c\<close>) and, through the VFS layer (\<^verbatim>\<open>fs/vfs\<close>), on files: devices such as the
  console, files of the simple file system SFS (\<^verbatim>\<open>fs/sfs\<close>) on a disk, and files of the host behind the emulator device. Threads
  wait for each other with semaphores, locks and condition variables (\<^verbatim>\<open>thread/synch.c\<close>), which put them to sleep and wake
  them through the scheduler (\<^verbatim>\<open>thread/scheduler.c\<close>). All of them take memory from the kernel heap (\<^verbatim>\<open>lib/kheap.c\<close>), which takes
  pages from the core map.

  \<^bold>\<open>How code is modelled.\<close> A routine is a function from its arguments and a state to a \<open>result\<close>: \<open>Ret\<close> with a value, \<open>Err\<close> with an
  error number, \<open>Panic\<close> for a failed assertion or a call of \<^verbatim>\<open>panic\<close>, or \<open>Undef\<close> where the C program has no defined result.
  Structures are records; pointers are addresses into stores (\<open>Kern_State\<close>), so that following a null or dangling pointer is \<open>Undef\<close>.
  Integers wrap at their width. What is not in the repository, or is hardware, is an argument: the allocator in the
  theories about threads (it may refuse), the status a disk reports, the answers of the emulator device, the routine of
  \<^verbatim>\<open>VOP_RECLAIM\<close> behind a vnode, what other threads do while one waits for a device. A routine that may sleep is split
  at the call of \<^verbatim>\<open>thread_sleep\<close>; the rest is data in the thread (\<open>kcont\<close>), executed by \<open>resume\<close> when the thread is switched to.

  \<^bold>\<open>Theories.\<close>

  \<^item> \<open>Kern_Prelude\<close>: results, C integers, blocks of memory, allocators. \<open>Kern_State\<close>: the records of the kernel's data and its global variables.
  \<^item> \<open>KArray\<close> (\<^verbatim>\<open>lib/array.c\<close>) and \<open>KQueue\<close> (\<^verbatim>\<open>lib/queue.c\<close>): invariants, refinement to lists. Locale \<open>ptr_array\<close>, the contract of
    \<^verbatim>\<open>array.h\<close>, is interpreted on the arrays themselves (\<open>parray\<close>) and on the kernel's list of sleepers (\<open>napping\<close>, in \<open>KSched\<close>);
    locale \<open>fifo\<close>, the contract of \<^verbatim>\<open>queue.h\<close>, on the ring buffer (\<open>ring\<close>).
  \<^item> \<open>KCoremap\<close> (\<^verbatim>\<open>arch/mips/mips/ram.c\<close>, page allocators of \<^verbatim>\<open>vm/vm.c\<close>): invariant of the core map, first fit, release undoes
    allocation, the overrun of the search for several pages. \<open>KHeap\<close> (\<^verbatim>\<open>lib/kheap.c\<close>): \<^verbatim>\<open>kmalloc\<close> and \<^verbatim>\<open>kfree\<close>.
  \<^item> \<open>KVnode\<close> (\<^verbatim>\<open>fs/vfs/vnode.c\<close>, counts), \<open>KAddrSpace\<close> (\<^verbatim>\<open>vm/addrspace.c\<close>, page faults of \<^verbatim>\<open>vm/vm.c\<close>), \<open>KCopy\<close>: \<^verbatim>\<open>as_copy\<close> gives every page
    of the old address space a fresh frame with the same contents and leaves the old one alone.
  \<^item> \<open>KSched\<close> (\<^verbatim>\<open>thread/scheduler.c\<close>, waking), \<open>KThread\<close> (\<^verbatim>\<open>thread/thread.c\<close>, \<^verbatim>\<open>hardclock.c\<close>, \<^verbatim>\<open>pcb.c\<close>), \<open>KSynch\<close> (\<^verbatim>\<open>thread/synch.c\<close>): the
    operations. \<open>KSynchInv\<close>, \<open>KSynchSteps\<close>, \<open>KFrame\<close>, \<open>KSynchCalls\<close>, \<open>KFork\<close>: the invariant \<open>kinv\<close> of the thread system and its preservation
    by every operation. \<open>KStep\<close>: the step relation \<open>kstep\<close> (calls, continuations, interrupts), that the state after boot satisfies \<open>kinv\<close>, and what follows: no
    lost wake-up, mutual exclusion, round robin, and the run queue that is too short by one.
  \<^item> \<open>LMem\<close>, \<open>LBytes\<close>, \<open>LString\<close>, \<open>LPrintf\<close> (\<^verbatim>\<open>lib/libc/mem*.c\<close>, \<^verbatim>\<open>str*.c\<close>, \<^verbatim>\<open>atoi.c\<close>, \<^verbatim>\<open>__printf.c\<close>, \<^verbatim>\<open>snprintf.c\<close>): word-at-a-time loops equal byte
    loops, what the string routines compute, truncation, printing and reading numbers. Locale \<open>printf_clients\<close>, what \<^verbatim>\<open>__vprintf\<close> asks of its
    \<^verbatim>\<open>send\<close> function, is interpreted on that of \<^verbatim>\<open>snprintf\<close> (\<open>snp\<close>). \<open>LMalloc\<close> (\<^verbatim>\<open>lib/libc/malloc.c\<close>): \<^verbatim>\<open>malloc\<close> and \<^verbatim>\<open>free\<close> on the list of blocks.
  \<^item> \<open>KBitmap\<close> (\<^verbatim>\<open>lib/bitmap.c\<close>): the set of used indices; locale \<open>free_map\<close>, interpreted as \<open>bm\<close>. \<open>KUio\<close> (\<^verbatim>\<open>lib/copyinout.c\<close>, \<^verbatim>\<open>userprog/uio.c\<close>,
    \<^verbatim>\<open>load_page\<close>): transfers stay in their blocks. \<open>KDisk\<close> (\<^verbatim>\<open>dev/lamebus/lhd.c\<close>).
  \<^item> \<open>KSfs\<close> (\<^verbatim>\<open>fs/sfs/sfs_io.c\<close>, \<^verbatim>\<open>sfs_vnode.c\<close>, \<^verbatim>\<open>sfs_fs.c\<close>), \<open>KSfsFs\<close>: the operations. \<open>KSfsBlocks\<close>, \<open>KSfsFile\<close>, \<open>KSfsIo\<close>, \<open>KSfsRefine\<close>: a file is an array of
    bytes; reading and writing refine reading and replacing a range of it, error paths included.
  \<^item> \<open>KMachine\<close>: the state of the whole machine. \<open>KSyscall\<close> (\<^verbatim>\<open>syscall.c\<close>, \<^verbatim>\<open>userprog/runprogram.c\<close>, \<^verbatim>\<open>loadelf.c\<close>), \<open>KTrap\<close> (\<^verbatim>\<open>trap.c\<close>,
    \<^verbatim>\<open>interrupt.c\<close>), \<open>KCalls\<close>: registers after a call, \<^verbatim>\<open>fork\<close>, \<^verbatim>\<open>waitpid\<close>, \<^verbatim>\<open>sbrk\<close>.
  \<^item> \<open>KVfs\<close> (\<^verbatim>\<open>fs/vfs/vfslist.c\<close>, \<^verbatim>\<open>vfslookup.c\<close>, \<^verbatim>\<open>vfscwd.c\<close>, \<^verbatim>\<open>vfspath.c\<close>), \<open>KDevice\<close> (\<^verbatim>\<open>device.c\<close>, \<^verbatim>\<open>devnull.c\<close>, \<^verbatim>\<open>dev/generic/console.c\<close>), \<open>KFiles\<close>: output
    from the system call to the console, names of devices. \<open>KEmu\<close> (\<^verbatim>\<open>dev/lamebus/emu.c\<close>), \<open>KEmuFiles\<close>: reading a file of the host, transfers, one vnode per handle.

  \<^bold>\<open>Bounds and fuel.\<close> Loops are structural recursions or have a termination proof; where the code could loop for ever or the recursion
  is bounded by data, fuel is used, and running out of it is \<open>Undef\<close>. Lists of page references are walked with fuel 257
  (\<open>list_fuel\<close>): the table has 256 entries, so a longer walk is a cycle. \<open>q_addtail\<close> calls itself once after growing, depth 2. The loops of \<open>con_io\<close>
  and of \<open>emufs_read\<close> and \<open>emufs_write\<close> move at least one byte per round or end, so the number of bytes is enough (\<open>write_reaches_console\<close> and
  \<open>emufs_transfers_end\<close> prove it). \<^verbatim>\<open>waitpid\<close> polls 30 times and \<^verbatim>\<open>emu_close\<close> retries 10 times, as the code does. \<^verbatim>\<open>malloc\<close> scans the heap with the address of its
  top as fuel, more than it has blocks; \<open>malloc_allocates\<close> shows that it always returns. Scans for a null in the string routines are partial functions with value \<open>None\<close> when there is
  none. Sizes are bounded where the code needs it: arrays and queues by \<open>array_limit\<close> and \<open>queue_limit\<close>, so that doubling does not overflow, threads by
  \<open>max_ready\<close>, far above the 99 entries of the process table.

  \<^bold>\<open>Atomicity.\<close> In the thread system a step ends where interrupts are enabled again or the thread sleeps. In the layers above, a section
  under a vnode's lock, \<^verbatim>\<open>knowndevs_lock\<close>, \<^verbatim>\<open>bootfs_lock\<close> or \<^verbatim>\<open>e_lock\<close> is one step; the locks of the console are modelled, since output of
  several threads depends on them.

  \<^bold>\<open>Not modelled.\<close> The assembly (\<^verbatim>\<open>*.S\<close>: exception entry, \<^verbatim>\<open>mips_switch\<close>, TLB instructions, start-up); the bus and its other devices
  (\<^verbatim>\<open>dev/lamebus\<close> except \<^verbatim>\<open>lhd\<close> and \<^verbatim>\<open>emu\<close>) and the generic clock, beep and random devices, which move single values between a register and a caller; \<^verbatim>\<open>main/main.c\<close> and
  \<^verbatim>\<open>main/menu.c\<close>, which call the start-up routines and print; \<^verbatim>\<open>kprintf\<close> and \<^verbatim>\<open>kgets\<close>; \<^verbatim>\<open>dumbvm.c\<close>, which the configurations from ASST3 on do
  not build; the kernel's tests and the \<^verbatim>\<open>asst1\<close> exercises; user programs; the copies of the sources under \<^verbatim>\<open>src/root\<close>.
\<close>

section \<open>Pointer arrays and queues\<close>

text \<open>
  C24. The ring buffer of \<^verbatim>\<open>queue.c\<close> is a first-in first-out queue: adding elements to the tail
  while there is room, then removing from the head until it is empty, returns what was queued
  before followed by what was added, in order, and leaves the queue empty; neither loop panics,
  fails or reads outside the buffer, whatever the allocator does.
\<close>

theorem queue_add_then_drain:
  assumes "queue_inv q" "length ps \<le> q_room q" "length (q_list q) + length ps \<le> fuel"
  shows "\<exists>q'. kbind (add_all (q_addtail km) q ps) (\<lambda>_. drain fuel q_empty q_remhead) =
      Ret (q_list q @ ps) q' \<and> queue_inv q' \<and> q_list q' = []"
  by (rule ring.add_then_drain [OF assms])

theorem queue_add_then_drain_witness:
  "\<exists>q'. kbind (add_all (q_addtail refuses) \<lparr>q_size = 4, nextwrite = 3, nextread = 2, q_data = [7, 8, 9, 10::int]\<rparr> [1, 2])
       (\<lambda>_. drain 5 q_empty q_remhead) = Ret [9, 1, 2] q' \<and> queue_inv q' \<and> q_list q' = []"
  using queue_add_then_drain [of "\<lparr>q_size = 4, nextwrite = 3, nextread = 2, q_data = [7, 8, 9, 10::int]\<rparr>" "[1, 2]" 5 refuses]
  by (simp add: queue_inv_def queue_limit_def q_room_def q_list_def ring_list_def)

text \<open>
  C25. Adding to an array either appends the element to the array's contents or reports
  \<^verbatim>\<open>ENOMEM\<close> and leaves the array as it was; the latter only when the array was at its
  capacity. It never panics and never touches memory outside the block.
\<close>

theorem array_add_appends:
  assumes "array_inv a" "allocator_ok km" "a_num a < array_limit"
  shows "outcome (array_add km a p)
    (\<lambda>_ a'. array_inv a' \<and> array_list a' = array_list a @ [p])
    (\<lambda>e a'. e = ENOMEM \<and> a' = a \<and> a_num a = a_max a)"
  by (rule array_add_outcome [OF assms])

theorem array_add_appends_witness:
  "outcome (array_add (grants 0) \<lparr>a_num = 1, a_max = 1, a_v = Some [5::int]\<rparr> 6)
    (\<lambda>_ a'. array_inv a' \<and> array_list a' = [5, 6]) (\<lambda>e a'. False)"
  using array_add_appends [of "\<lparr>a_num = 1, a_max = 1, a_v = Some [5::int]\<rparr>" "grants 0" 6]
  by (simp add: array_inv_def array_limit_def array_list_def array_add_def array_setsize_def
        array_preallocate_def array_newmax.simps grants_def Let_def numeral_eq_Suc)

end
